(* ===== verification/Py_Prelude.thy ===== *)
theory Py_Prelude
  imports Complex_Main "HOL-Library.AList"
begin

text \<open>
  Shared vocabulary of the development: Python values as they come out of YAML and JSON
  (\<open>pyval\<close>), dictionaries as insertion-ordered association lists, truthiness, the
  conversions \<open>int()\<close> and \<open>float()\<close>, string helpers and rounding.

  Numbers: Python integers are \<open>int\<close>; finite floats are exact rationals \<open>rat\<close>, so the
  model computes without the rounding of IEEE arithmetic (non-finite floats are outside the
  model). Strings are \<open>char list\<close>; one \<open>char\<close> is one code point of the range
  U+0000 to U+00FF, and the character predicates below agree with Python's on that range.
\<close>

section \<open>Values\<close>

datatype pyval =
    PNone
  | PBool bool
  | PInt int
  | PFloat rat
  | PStr string
  | PList "pyval list"
  | PDict "(string \<times> pyval) list"

type_synonym pydict = "(string \<times> pyval) list"

text \<open>The exceptions the modelled code raises or catches.\<close>

datatype pyexc =
    AttributeError
  | TypeError
  | ValueError
  | KeyError
  | IndexError
  | ReError
  | RedisError

fun py_truthy :: "pyval \<Rightarrow> bool" where
  "py_truthy PNone = False"
| "py_truthy (PBool b) = b"
| "py_truthy (PInt i) = (i \<noteq> 0)"
| "py_truthy (PFloat r) = (r \<noteq> 0)"
| "py_truthy (PStr s) = (s \<noteq> [])"
| "py_truthy (PList xs) = (xs \<noteq> [])"
| "py_truthy (PDict d) = (d \<noteq> [])"

fun is_dict :: "pyval \<Rightarrow> bool" where
  "is_dict (PDict d) = True"
| "is_dict _ = False"

text \<open>What \<open>isinstance(x, dict)\<close> lets through.\<close>

fun dict_of :: "pyval \<Rightarrow> pydict option" where
  "dict_of (PDict d) = Some d"
| "dict_of _ = None"

text \<open>\<open>x or y\<close> as an expression.\<close>

definition py_or :: "pyval \<Rightarrow> pyval \<Rightarrow> pyval" where
  "py_or x y = (if py_truthy x then x else y)"

section \<open>Dictionaries\<close>

text \<open>
  \<open>d[k] = v\<close> keeps the position of an existing key and appends a new one, which is what
  \<open>AList.update\<close> does; \<open>d.get(k)\<close> is \<open>map_of\<close>; \<open>d.pop(k, None)\<close> is \<open>AList.delete\<close>.
\<close>

abbreviation dget :: "('k \<times> 'v) list \<Rightarrow> 'k \<Rightarrow> 'v option" where
  "dget \<equiv> map_of"

abbreviation dset :: "'k \<Rightarrow> 'v \<Rightarrow> ('k \<times> 'v) list \<Rightarrow> ('k \<times> 'v) list" where
  "dset \<equiv> AList.update"

abbreviation dpop :: "'k \<Rightarrow> ('k \<times> 'v) list \<Rightarrow> ('k \<times> 'v) list" where
  "dpop \<equiv> AList.delete"

definition dget_or :: "pydict \<Rightarrow> string \<Rightarrow> pyval \<Rightarrow> pyval" where
  "dget_or d k v = (case dget d k of None \<Rightarrow> v | Some w \<Rightarrow> w)"

text \<open>
  \<open>x.get(k, v)\<close> on a value: only a dictionary has the attribute \<open>get\<close>.
\<close>

fun py_get :: "pyval \<Rightarrow> string \<Rightarrow> pyval \<Rightarrow> pyexc + pyval" where
  "py_get (PDict d) k v = Inr (dget_or d k v)"
| "py_get _ k v = Inl AttributeError"

text \<open>Iteration: a string yields its characters, a mapping its keys.\<close>

definition py_iter :: "pyval \<Rightarrow> pyexc + pyval list" where
  "py_iter v =
     (case v of
        PList xs \<Rightarrow> Inr xs
      | PStr s \<Rightarrow> Inr (map (\<lambda>c. PStr [c]) s)
      | PDict d \<Rightarrow> Inr (map (\<lambda>kv. PStr (fst kv)) d)
      | _ \<Rightarrow> Inl TypeError)"

definition hashable :: "pyval \<Rightarrow> bool" where
  "hashable v \<longleftrightarrow> (case v of PList _ \<Rightarrow> False | PDict _ \<Rightarrow> False | _ \<Rightarrow> True)"

definition bind_res :: "'e + 'a \<Rightarrow> ('a \<Rightarrow> 'e + 'b) \<Rightarrow> 'e + 'b" where
  "bind_res r f = (case r of Inl e \<Rightarrow> Inl e | Inr x \<Rightarrow> f x)"

lemma bind_res_simps [simp]:
  "bind_res (Inl e) f = Inl e"
  "bind_res (Inr x) f = f x"
  by (simp_all add: bind_res_def)

lemma bind_res_Inr: "bind_res r f = Inr y \<longleftrightarrow> (\<exists>x. r = Inr x \<and> f x = Inr y)"
  by (cases r) auto

lemma dget_dset: "dget (dset k v d) k' = (if k' = k then Some v else dget d k')"
  by (simp add: update_conv')

lemma dget_dpop: "dget (dpop k d) k' = (if k' = k then None else dget d k')"
  by (simp add: delete_conv')

lemma dset_dset: "dset k v (dset k w d) = dset k v d"
  by (induction d) auto

lemma dset_same: "dget d k = Some v \<Longrightarrow> dset k v d = d"
  by (induction d) (auto split: if_splits)

lemma dset_commute_dget:
  "k' \<noteq> k \<Longrightarrow> dget (dset k v d) k' = dget d k'"
  by (simp add: dget_dset)

lemma find_Some_in: "find P xs = Some x \<Longrightarrow> P x \<and> x \<in> set xs"
  by (induction xs) (auto split: if_splits)

lemma find_None_all: "find P xs = None \<Longrightarrow> x \<in> set xs \<Longrightarrow> \<not> P x"
  by (induction xs) (auto split: if_splits)

text \<open>A dictionary at every level has each key once.\<close>

fun wf_val :: "pyval \<Rightarrow> bool" where
  "wf_val (PDict d) = (distinct (map fst d) \<and> (\<forall>kv \<in> set d. wf_val (snd kv)))"
| "wf_val (PList xs) = (\<forall>x \<in> set xs. wf_val x)"
| "wf_val _ = True"

definition wf_dict :: "pydict \<Rightarrow> bool" where
  "wf_dict d \<longleftrightarrow> wf_val (PDict d)"

lemma wf_dict_distinct: "wf_dict d \<Longrightarrow> distinct (map fst d)"
  by (simp add: wf_dict_def)

lemma wf_dict_dget: "wf_dict d \<Longrightarrow> dget d k = Some v \<Longrightarrow> wf_val v"
  by (auto simp: wf_dict_def dest!: map_of_SomeD)

lemma wf_dict_Cons:
  "wf_dict ((k, v) # d) \<longleftrightarrow> k \<notin> fst ` set d \<and> wf_val v \<and> wf_dict d"
  by (auto simp: wf_dict_def)

lemma set_dset: "distinct (map fst d) \<Longrightarrow> set (dset k v d) = set d - {kv. fst kv = k} \<union> {(k, v)}"
  by (induction d) (auto simp: image_iff)

lemma wf_dict_dset: "wf_dict d \<Longrightarrow> wf_val v \<Longrightarrow> wf_dict (dset k v d)"
  by (auto simp: wf_dict_def distinct_update set_dset)

section \<open>Conversions\<close>

definition is_digit :: "char \<Rightarrow> bool" where
  "is_digit c \<longleftrightarrow> 48 \<le> (of_char c :: nat) \<and> (of_char c :: nat) \<le> 57"

definition is_space :: "char \<Rightarrow> bool" where
  "is_space c \<longleftrightarrow> (of_char c :: nat) \<in> {9, 10, 11, 12, 13, 28, 29, 30, 31, 32, 133, 160}"

definition is_ascii_alpha :: "char \<Rightarrow> bool" where
  "is_ascii_alpha c \<longleftrightarrow>
     (65 \<le> (of_char c :: nat) \<and> (of_char c :: nat) \<le> 90) \<or>
     (97 \<le> (of_char c :: nat) \<and> (of_char c :: nat) \<le> 122)"

definition is_ascii_alnum :: "char \<Rightarrow> bool" where
  "is_ascii_alnum c \<longleftrightarrow> is_ascii_alpha c \<or> is_digit c"

text \<open>\<open>str.lower\<close> on Latin-1: the capital ranges A-Z, U+00C0 to U+00D6, U+00D8 to U+00DE.\<close>

definition lower_char :: "char \<Rightarrow> char" where
  "lower_char c =
     (let n = (of_char c :: nat) in
      if (65 \<le> n \<and> n \<le> 90) \<or> (192 \<le> n \<and> n \<le> 222 \<and> n \<noteq> 215) then char_of (n + 32) else c)"

definition py_lower :: "string \<Rightarrow> string" where
  "py_lower s = map lower_char s"

definition strip_with :: "('a \<Rightarrow> bool) \<Rightarrow> 'a list \<Rightarrow> 'a list" where
  "strip_with p s = rev (dropWhile p (rev (dropWhile p s)))"

definition py_strip :: "string \<Rightarrow> string" where
  "py_strip s = strip_with is_space s"

lemma strip_with_empty [simp]: "strip_with p [] = []"
  by (simp add: strip_with_def)

lemma set_strip_with: "set (strip_with p s) \<subseteq> set s"
proof
  fix x assume "x \<in> set (strip_with p s)"
  then have "x \<in> set (dropWhile p (rev (dropWhile p s)))" by (simp add: strip_with_def)
  then have "x \<in> set (dropWhile p s)" by (auto dest: set_dropWhileD)
  then show "x \<in> set s" by (rule set_dropWhileD)
qed

lemma length_strip_with: "length (strip_with p s) \<le> length s"
proof -
  have "length (dropWhile p (rev (dropWhile p s))) \<le> length (dropWhile p s)"
    using length_dropWhile_le[of p "rev (dropWhile p s)"] by simp
  then show ?thesis
    using length_dropWhile_le[of p s] by (simp add: strip_with_def)
qed

lemma strip_with_hd: "\<not> p c \<Longrightarrow> \<exists>t. strip_with p (c # s) = c # t"
proof -
  assume np: "\<not> p c"
  have "dropWhile p (rev s @ [c]) = dropWhile p (rev s) @ [c]"
    using np by (induction "rev s" rule: rev_induct) (simp_all add: dropWhile_append)
  then show ?thesis using np by (simp add: strip_with_def)
qed

lemma strip_with_id: "s \<noteq> [] \<Longrightarrow> \<not> p (hd s) \<Longrightarrow> \<not> p (last s) \<Longrightarrow> strip_with p s = s"
proof -
  assume ne: "s \<noteq> []" and h: "\<not> p (hd s)" and l: "\<not> p (last s)"
  have "dropWhile p s = s" using ne h by (cases s) auto
  moreover have "dropWhile p (rev s) = rev s" using ne l by (cases s rule: rev_cases) auto
  ultimately show ?thesis by (simp add: strip_with_def)
qed


text \<open>\<open>sub in s\<close> for strings.\<close>

definition py_in :: "string \<Rightarrow> string \<Rightarrow> bool" where
  "py_in sub s \<longleftrightarrow> list_ex (\<lambda>i. take (length sub) (drop i s) = sub) [0..<Suc (length s)]"

section \<open>Numbers\<close>

definition digit_val :: "char \<Rightarrow> int" where
  "digit_val c = int (of_char c) - 48"

text \<open>Digits with single underscores between them, as \<open>int\<close> and \<open>float\<close> accept them.\<close>

fun parse_digits :: "bool \<Rightarrow> int \<Rightarrow> string \<Rightarrow> int option" where
  "parse_digits after_digit acc [] = (if after_digit then Some acc else None)"
| "parse_digits after_digit acc (c # s) =
     (if is_digit c then parse_digits True (acc * 10 + digit_val c) s
      else if c = CHR ''_'' \<and> after_digit then parse_digits False acc s
      else None)"

definition split_sign :: "string \<Rightarrow> int \<times> string" where
  "split_sign s =
     (case s of
        c # t \<Rightarrow> if c = CHR ''-'' then (-1, t) else if c = CHR ''+'' then (1, t) else (1, s)
      | [] \<Rightarrow> (1, []))"

definition int_of_str :: "string \<Rightarrow> int option" where
  "int_of_str s =
     (case split_sign (py_strip s) of (sg, t) \<Rightarrow> map_option (\<lambda>n. sg * n) (parse_digits False 0 t))"

definition digitish :: "char \<Rightarrow> bool" where
  "digitish c \<longleftrightarrow> is_digit c \<or> c = CHR ''_''"

text \<open>
  A decimal literal with optional fraction and exponent. The words \<open>inf\<close> and \<open>nan\<close> have no
  value in the model and are refused.
\<close>

definition float_of_str :: "string \<Rightarrow> rat option" where
  "float_of_str s =
     (case split_sign (py_strip s) of (sg, t) \<Rightarrow>
        let ip = takeWhile digitish t;
            r1 = dropWhile digitish t;
            dotted = (r1 \<noteq> [] \<and> hd r1 = CHR ''.'');
            fp = (if dotted then takeWhile digitish (tl r1) else []);
            r2 = (if dotted then dropWhile digitish (tl r1) else r1);
            iv = (if ip = [] then Some 0 else parse_digits False 0 ip);
            fv = (if fp = [] then Some 0 else parse_digits False 0 fp);
            ev = (case r2 of
                    [] \<Rightarrow> Some 0
                  | c # e \<Rightarrow> if c = CHR ''e'' \<or> c = CHR ''E'' then
                              (case split_sign e of (sg', u) \<Rightarrow>
                                 map_option (\<lambda>n. sg' * n) (parse_digits False 0 u))
                            else None);
            k = length (filter is_digit fp)
        in if ip = [] \<and> fp = [] then None
           else (case (iv, fv, ev) of
                   (Some i, Some f, Some e) \<Rightarrow>
                     Some (of_int sg * (of_int i + of_int f / 10 ^ k) *
                           (if 0 \<le> e then 10 ^ nat e else 1 / 10 ^ nat (- e)))
                 | _ \<Rightarrow> None))"

text \<open>\<open>int(x)\<close> and \<open>float(x)\<close>; \<open>None\<close> is a TypeError or ValueError.\<close>

definition trunc_rat :: "rat \<Rightarrow> int" where
  "trunc_rat r = (if 0 \<le> r then \<lfloor>r\<rfloor> else \<lceil>r\<rceil>)"

fun py_int :: "pyval \<Rightarrow> int option" where
  "py_int (PBool b) = Some (if b then 1 else 0)"
| "py_int (PInt i) = Some i"
| "py_int (PFloat r) = Some (trunc_rat r)"
| "py_int (PStr s) = int_of_str s"
| "py_int _ = None"

fun py_float :: "pyval \<Rightarrow> rat option" where
  "py_float (PBool b) = Some (if b then 1 else 0)"
| "py_float (PInt i) = Some (of_int i)"
| "py_float (PFloat r) = Some r"
| "py_float (PStr s) = float_of_str s"
| "py_float _ = None"

text \<open>The operand of an arithmetic comparison with a number.\<close>

definition py_num :: "pyval \<Rightarrow> pyexc + rat" where
  "py_num v =
     (case v of
        PInt i \<Rightarrow> Inr (of_int i) | PFloat r \<Rightarrow> Inr r | PBool b \<Rightarrow> Inr (if b then 1 else 0) | _ \<Rightarrow> Inl TypeError)"

text \<open>\<open>x in container\<close>.\<close>

definition contains :: "pyval \<Rightarrow> pyval \<Rightarrow> pyexc + bool" where
  "contains x container =
     (case container of
        PList xs \<Rightarrow> Inr (x \<in> set xs)
      | PStr t \<Rightarrow> (case x of PStr s \<Rightarrow> Inr (py_in s t) | _ \<Rightarrow> Inl TypeError)
      | PDict d \<Rightarrow> (case x of PStr s \<Rightarrow> Inr (s \<in> fst ` set d) | _ \<Rightarrow> if hashable x then Inr False else Inl TypeError)
      | _ \<Rightarrow> Inl TypeError)"

text \<open>
  \<open>a < b\<close>: numbers with numbers, texts with texts, lists with lists by their first difference;
  everything else is a TypeError.
\<close>

fun str_lt :: "string \<Rightarrow> string \<Rightarrow> bool" where
  "str_lt [] b = (b \<noteq> [])"
| "str_lt (c # a) [] = False"
| "str_lt (c # a) (d # b) = (if c = d then str_lt a b else (of_char c :: nat) < of_char d)"

definition num_eq :: "pyval \<Rightarrow> pyval \<Rightarrow> bool" where
  "num_eq x y = (case (py_num x, py_num y) of (Inr a, Inr b) \<Rightarrow> a = b | _ \<Rightarrow> x = y)"

fun py_lt :: "pyval \<Rightarrow> pyval \<Rightarrow> pyexc + bool" where
  "py_lt (PStr a) (PStr b) = Inr (str_lt a b)"
| "py_lt (PList []) (PList ys) = Inr (ys \<noteq> [])"
| "py_lt (PList (x # xs)) (PList []) = Inr False"
| "py_lt (PList (x # xs)) (PList (y # ys)) = (if num_eq x y then py_lt (PList xs) (PList ys) else py_lt x y)"
| "py_lt x y = bind_res (py_num x) (\<lambda>a. bind_res (py_num y) (\<lambda>b. Inr (a < b)))"

text \<open>
  \<open>d.update(x)\<close>, and \<open>dict(x)\<close> as the update of an empty dictionary: a mapping, or an iterable of
  pairs. A key that is no text cannot be asked for in the model and is left out.
\<close>

fun update_pairs :: "pyval list \<Rightarrow> pydict \<Rightarrow> pyexc + pydict" where
  "update_pairs [] d = Inr d"
| "update_pairs (PList [PStr k, v] # ps) d = update_pairs ps (dset k v d)"
| "update_pairs (PStr [a, b] # ps) d = update_pairs ps (dset [a] (PStr [b]) d)"
| "update_pairs (PDict [a, b] # ps) d = update_pairs ps (dset (fst a) (PStr (fst b)) d)"
| "update_pairs (PList [k, v] # ps) d = (if hashable k then update_pairs ps d else Inl TypeError)"
| "update_pairs (PList _ # ps) d = Inl ValueError"
| "update_pairs (PStr _ # ps) d = Inl ValueError"
| "update_pairs (PDict _ # ps) d = Inl ValueError"
| "update_pairs (_ # ps) d = Inl TypeError"

definition dict_update :: "pydict \<Rightarrow> pyval \<Rightarrow> pyexc + pydict" where
  "dict_update d v =
     (case v of
        PDict t \<Rightarrow> Inr (fold (\<lambda>(k, w) e. dset k w e) t d)
      | _ \<Rightarrow> bind_res (py_iter v) (\<lambda>ps. update_pairs ps d))"

text \<open>\<open>round(x, n)\<close>: to the nearest, ties to even.\<close>

definition round_half_even :: "rat \<Rightarrow> int" where
  "round_half_even x =
     (let f = \<lfloor>x\<rfloor>; d = x - of_int f
      in if d < 1 / 2 then f else if d > 1 / 2 then f + 1 else if even f then f else f + 1)"

definition py_round :: "nat \<Rightarrow> rat \<Rightarrow> rat" where
  "py_round n x = of_int (round_half_even (x * 10 ^ n)) / 10 ^ n"

lemma round_half_even_of_int [simp]: "round_half_even (of_int i) = i"
  by (simp add: round_half_even_def)

lemma round_half_even_lower: "of_int i \<le> x \<Longrightarrow> i \<le> round_half_even x"
proof -
  assume "of_int i \<le> x"
  then have "i \<le> \<lfloor>x\<rfloor>" by (simp add: le_floor_iff)
  then show ?thesis by (auto simp: round_half_even_def Let_def)
qed

lemma round_half_even_upper: "x \<le> of_int i \<Longrightarrow> round_half_even x \<le> i"
proof -
  assume x: "x \<le> of_int i"
  show ?thesis
  proof (cases "x = of_int i")
    case True
    then show ?thesis by simp
  next
    case False
    then have "\<lfloor>x\<rfloor> < i" using x by (simp add: floor_less_iff)
    then show ?thesis by (auto simp: round_half_even_def Let_def)
  qed
qed

lemma py_round_bounds:
  assumes "of_int lo \<le> x" and "x \<le> of_int hi"
  shows "of_int lo \<le> py_round n x \<and> py_round n x \<le> of_int hi"
proof -
  have p: "(0::rat) < 10 ^ n" by simp
  have l: "of_int (lo * 10 ^ n) \<le> x * 10 ^ n" and h: "x * 10 ^ n \<le> of_int (hi * 10 ^ n)"
    using assms by (simp_all add: mult_right_mono)
  have "(of_int (lo * 10 ^ n) :: rat) \<le> of_int (round_half_even (x * 10 ^ n))"
    "(of_int (round_half_even (x * 10 ^ n)) :: rat) \<le> of_int (hi * 10 ^ n)"
    using round_half_even_lower[OF l] round_half_even_upper[OF h] by (simp_all only: of_int_le_iff)
  then show ?thesis using p by (simp add: py_round_def field_simps)
qed

lemma round_half_even_near: "\<bar>of_int (round_half_even x) - x\<bar> \<le> 1 / 2"
proof -
  have "of_int \<lfloor>x\<rfloor> \<le> x" "x < of_int \<lfloor>x\<rfloor> + 1" by linarith+
  then show ?thesis by (auto simp: round_half_even_def Let_def abs_le_iff not_less)
qed

lemma py_round_near: "\<bar>py_round n x - x\<bar> \<le> 1 / (2 * 10 ^ n)"
proof -
  have p: "(0::rat) < 10 ^ n" by simp
  have "\<bar>of_int (round_half_even (x * 10 ^ n)) - x * 10 ^ n\<bar> / 10 ^ n \<le> (1 / 2) / 10 ^ n"
    using round_half_even_near[of "x * 10 ^ n"] p by (intro divide_right_mono) simp_all
  moreover have "py_round n x - x = (of_int (round_half_even (x * 10 ^ n)) - x * 10 ^ n) / 10 ^ n"
    using p by (simp add: py_round_def diff_divide_distrib)
  ultimately show ?thesis by simp
qed

lemma py_round_nonneg: "0 \<le> x \<Longrightarrow> 0 \<le> py_round n x"
  using round_half_even_lower[of 0 "x * 10 ^ n"] by (simp add: py_round_def)

text \<open>The decimal numeral of an integer, as \<open>str(i)\<close> writes it.\<close>

fun nat_str :: "nat \<Rightarrow> string" where
  "nat_str n = (if n < 10 then [char_of (48 + n)] else nat_str (n div 10) @ [char_of (48 + n mod 10)])"

declare nat_str.simps [simp del]

definition int_str :: "int \<Rightarrow> string" where
  "int_str i = (if i < 0 then CHR ''-'' # nat_str (nat (- i)) else nat_str (nat i))"

section \<open>The contract of a key-value store\<close>

text \<open>
  The caches and registries of the proxy (tenant overrides, breakers, cooldowns, compiled
  policies, Redis keys) use a dictionary through three operations. \<open>entries_store\<close> and
  \<open>entries_drop\<close> lift an invariant of single entries to the whole store; the frame lemmas
  are what tenant isolation rests on.
\<close>

locale kv_store =
  fixes lookup :: "'d \<Rightarrow> 'k \<Rightarrow> 'v option"
    and put :: "'k \<Rightarrow> 'v \<Rightarrow> 'd \<Rightarrow> 'd"
    and drop :: "'k \<Rightarrow> 'd \<Rightarrow> 'd"
  assumes lookup_put: "lookup (put k v d) k' = (if k' = k then Some v else lookup d k')"
    and lookup_drop: "lookup (drop k d) k' = (if k' = k then None else lookup d k')"
begin

lemma put_frame: "k' \<noteq> k \<Longrightarrow> lookup (put k v d) k' = lookup d k'"
  by (simp add: lookup_put)

lemma drop_frame: "k' \<noteq> k \<Longrightarrow> lookup (drop k d) k' = lookup d k'"
  by (simp add: lookup_drop)

lemma entries_put:
  "(\<And>k v. lookup d k = Some v \<Longrightarrow> P k v) \<Longrightarrow> P k v \<Longrightarrow>
   lookup (put k v d) k' = Some v' \<Longrightarrow> P k' v'"
  by (auto simp: lookup_put split: if_splits)

lemma entries_drop:
  "(\<And>k v. lookup d k = Some v \<Longrightarrow> P k v) \<Longrightarrow> lookup (drop k d) k' = Some v' \<Longrightarrow> P k' v'"
  by (auto simp: lookup_drop split: if_splits)

lemma put_get: "lookup (put k v d) k = Some v"
  by (simp add: lookup_put)

lemma put_after_drop: "lookup (put k v (drop k d)) k' = lookup (put k v d) k'"
  by (simp add: lookup_put lookup_drop)

end

interpretation pd: kv_store "map_of :: ('k \<times> 'v) list \<Rightarrow> 'k \<Rightarrow> 'v option" AList.update AList.delete
  by unfold_locales (simp_all add: dget_dset dget_dpop)

end
