(* ===== verification/Config_Overlay.thy ===== *)
theory Config_Overlay
  imports Py_Prelude
begin

text \<open>
  Per-tenant configuration: \<open>deep_merge\<close> and \<open>TenantConfigLoader\<close> of
  \<open>tenancy/config.py\<close>, and the overlay helpers of \<open>middleware/__init__.py\<close>
  (\<open>resolve_group_config\<close>, \<open>operator_group_overlay\<close>, \<open>apply_operator_overlay\<close>,
  \<open>coerce_mode\<close>). The lemmas give the lookup law of a merge, at one key and along a path,
  its well-formedness and idempotence, and what the two ways of applying the operator's
  overlay have to do with each other.
\<close>

section \<open>deep_merge\<close>

function deep_merge :: "pydict \<Rightarrow> pydict \<Rightarrow> pydict" where
  "deep_merge base [] = base"
| "deep_merge base ((k, v) # override) =
     deep_merge
       (case v of
          PDict ov \<Rightarrow>
            (case dget base k of
               Some (PDict bv) \<Rightarrow> dset k (PDict (deep_merge bv ov)) base
             | _ \<Rightarrow> dset k v base)
        | _ \<Rightarrow> dset k v base)
       override"
  by pat_completeness auto
termination
  by (relation "measure (\<lambda>(base, override). size (PDict override))") auto

declare deep_merge.simps(2) [simp del]

text \<open>What the merge stores under a key that the override has.\<close>

fun merged_value :: "pyval option \<Rightarrow> pyval \<Rightarrow> pyval" where
  "merged_value (Some (PDict bv)) (PDict ov) = PDict (deep_merge bv ov)"
| "merged_value _ v = v"

lemma deep_merge_Cons:
  "deep_merge base ((k, v) # override) =
     deep_merge (dset k (merged_value (dget base k) v) base) override"
  by (cases v; cases "dget base k")
     (auto simp: deep_merge.simps(2) split: pyval.splits)

text \<open>The lookup law: a key of the override wins, two dictionaries merge, the rest stays.\<close>

lemma dget_deep_merge:
  "distinct (map fst ov) \<Longrightarrow>
   dget (deep_merge base ov) k =
     (case dget ov k of None \<Rightarrow> dget base k | Some v \<Rightarrow> Some (merged_value (dget base k) v))"
proof (induction ov arbitrary: base)
  case Nil
  then show ?case by simp
next
  case (Cons kv ov)
  obtain k0 v where kv: "kv = (k0, v)" by fastforce
  from Cons.prems kv have new: "dget ov k0 = None" and d: "distinct (map fst ov)"
    by (auto simp: map_of_eq_None_iff)
  show ?case
    using Cons.IH[OF d] new by (auto simp: kv deep_merge_Cons dget_dset split: option.splits)
qed

lemma dget_deep_merge_dict:
  assumes "distinct (map fst ov)" and "dget base k = Some (PDict bv)" and "dget ov k = Some (PDict w)"
  shows "dget (deep_merge base ov) k = Some (PDict (deep_merge bv w))"
  using assms by (simp add: dget_deep_merge)

lemma wf_deep_merge: "wf_dict ov \<Longrightarrow> wf_dict base \<Longrightarrow> wf_dict (deep_merge base ov)"
proof (induction base ov rule: deep_merge.induct)
  case (1 base)
  then show ?case by simp
next
  case (2 base k v ov)
  from "2.prems"(1) have v: "wf_val v" and ov: "wf_dict ov"
    by (simp_all add: wf_dict_Cons)
  have "wf_val (merged_value (dget base k) v)"
  proof (cases "\<exists>bv w. dget base k = Some (PDict bv) \<and> v = PDict w")
    case True
    then obtain bv w where b: "dget base k = Some (PDict bv)" and w: "v = PDict w" by blast
    have "wf_dict bv" using wf_dict_dget[OF "2.prems"(2) b] by (simp add: wf_dict_def)
    moreover have "wf_dict w" using v w by (simp add: wf_dict_def)
    ultimately have "wf_dict (deep_merge bv w)" using "2.IH"(1)[OF w b] by blast
    then show ?thesis by (simp add: b w wf_dict_def)
  next
    case False
    then have "merged_value (dget base k) v = v"
      by (cases "(dget base k, v)" rule: merged_value.cases) auto
    then show ?thesis using v by simp
  qed
  then have w1: "wf_dict (dset k (merged_value (dget base k) v) base)"
    using "2.prems"(2) by (rule wf_dict_dset[rotated])
  have eq: "(case v of PDict ov \<Rightarrow> (case dget base k of
               Some (PDict bv) \<Rightarrow> dset k (PDict (deep_merge bv ov)) base
             | _ \<Rightarrow> dset k v base) | _ \<Rightarrow> dset k v base) =
        dset k (merged_value (dget base k) v) base"
    by (cases v; cases "dget base k") (auto split: pyval.splits)
  show ?case
    using "2.IH"(2) ov w1 by (simp add: deep_merge_Cons eq)
qed


text \<open>Merging what is already there changes nothing, so a second merge of the same override
  is the first one.\<close>

lemma deep_merge_absorb:
  "(\<And>k v. (k, v) \<in> set ov \<Longrightarrow> dget m k = Some (merged_value (dget m k) v)) \<Longrightarrow>
   deep_merge m ov = m"
proof (induction ov)
  case Nil
  then show ?case by simp
next
  case (Cons kv ov)
  obtain k v where kv: "kv = (k, v)" by fastforce
  have "dget m k = Some (merged_value (dget m k) v)" using Cons.prems kv by simp
  then have "dset k (merged_value (dget m k) v) m = m" by (rule dset_same)
  then show ?case using Cons by (simp add: kv deep_merge_Cons)
qed

lemma merged_value_twice:
  "wf_val v \<Longrightarrow>
   merged_value (Some (merged_value ob v)) v = merged_value ob v \<and> merged_value (Some v) v = v"
proof (induction v arbitrary: ob)
  case (PDict d)
  have dist: "distinct (map fst d)" using PDict.prems by simp
  have IH: "merged_value (Some (merged_value ob' v)) v = merged_value ob' v \<and>
            merged_value (Some v) v = v" if "(k, v) \<in> set d" for k v ob'
    using PDict.IH[of "(k, v)" v] PDict.prems that by fastforce
  have look: "dget d k = Some v" if "(k, v) \<in> set d" for k v
    using that dist by (simp add: map_of_is_SomeI)
  have self: "deep_merge d d = d"
    by (rule deep_merge_absorb) (use IH look in force)
  have again: "deep_merge (deep_merge b d) d = deep_merge b d" for b
  proof (rule deep_merge_absorb)
    fix k v assume kv: "(k, v) \<in> set d"
    have "dget (deep_merge b d) k = Some (merged_value (dget b k) v)"
      using look[OF kv] dist by (simp add: dget_deep_merge)
    then show "dget (deep_merge b d) k = Some (merged_value (dget (deep_merge b d) k) v)"
      using IH[OF kv] by simp
  qed
  show ?case
    by (cases "(ob, PDict d)" rule: merged_value.cases) (simp_all add: self again)
qed auto

lemma deep_merge_idem: "wf_dict ov \<Longrightarrow> deep_merge (deep_merge b ov) ov = deep_merge b ov"
  using merged_value_twice[of "PDict ov" "Some (PDict b)"] by (simp add: wf_dict_def)

lemma deep_merge_self: "wf_dict d \<Longrightarrow> deep_merge d d = d"
  using merged_value_twice[of "PDict d"] by (simp add: wf_dict_def)

lemma dset_new: "k \<notin> fst ` set d \<Longrightarrow> dset k v d = d @ [(k, v)]"
  by (induction d) auto

lemma deep_merge_disjoint: "distinct (map fst (base @ ov)) \<Longrightarrow> deep_merge base ov = base @ ov"
proof (induction ov arbitrary: base)
  case Nil
  then show ?case by simp
next
  case (Cons kv ov)
  obtain k v where kv: "kv = (k, v)" by fastforce
  have new: "k \<notin> fst ` set base" using Cons.prems kv by auto
  then have "dget base k = None" by (simp add: map_of_eq_None_iff)
  moreover have "deep_merge (base @ [kv]) ov = (base @ [kv]) @ ov"
    using Cons.prems by (intro Cons.IH) auto
  ultimately show ?case using new by (simp add: kv deep_merge_Cons dset_new)
qed

lemma deep_merge_empty: "wf_dict d \<Longrightarrow> deep_merge [] d = d"
  by (simp add: deep_merge_disjoint wf_dict_distinct)

section \<open>Paths\<close>

text \<open>\<open>path_get d ks\<close> follows the keys \<open>ks\<close> through nested dictionaries.\<close>

fun path_get :: "pydict \<Rightarrow> string list \<Rightarrow> pyval option" where
  "path_get d [] = Some (PDict d)"
| "path_get d [k] = dget d k"
| "path_get d (k # ks) =
     (case dget d k of Some (PDict e) \<Rightarrow> path_get e ks | _ \<Rightarrow> None)"

text \<open>The override says nothing about the path: it leaves it at a missing key.\<close>

fun silent_on :: "pydict \<Rightarrow> string list \<Rightarrow> bool" where
  "silent_on ov [] = False"
| "silent_on ov (k # ks) =
     (case dget ov k of None \<Rightarrow> True | Some (PDict e) \<Rightarrow> silent_on e ks | _ \<Rightarrow> False)"

lemma silent_path_get: "silent_on ov ks \<Longrightarrow> path_get ov ks = None"
  by (induction ov ks rule: path_get.induct) (auto split: option.splits pyval.splits)

lemma wf_dict_sub: "wf_dict d \<Longrightarrow> dget d k = Some (PDict e) \<Longrightarrow> wf_dict e"
  by (drule (1) wf_dict_dget) (simp add: wf_dict_def)

lemma path_get_Cons:
  "ks \<noteq> [] \<Longrightarrow> path_get d (k # ks) =
     (case dget d k of Some (PDict e) \<Rightarrow> path_get e ks | _ \<Rightarrow> None)"
  by (cases ks) auto

lemma path_get_deep_merge_set:
  "wf_dict ov \<Longrightarrow> path_get ov ks = Some v \<Longrightarrow> \<not> is_dict v \<Longrightarrow>
   path_get (deep_merge base ov) ks = Some v"
proof (induction ov ks arbitrary: base rule: path_get.induct)
  case (1 d)
  then show ?case by auto
next
  case (2 d k)
  then show ?case
    by (cases v) (auto simp: dget_deep_merge wf_dict_distinct)
next
  case (3 d k k' ks)
  from "3.prems" obtain e where e: "dget d k = Some (PDict e)" and p: "path_get e (k' # ks) = Some v"
    by (auto split: option.splits pyval.splits)
  have we: "wf_dict e" using "3.prems"(1) e by (rule wf_dict_sub)
  have IH: "path_get (deep_merge b e) (k' # ks) = Some v" for b
    using "3.IH"[OF e refl we p "3.prems"(3)] .
  show ?case
    using e p IH "3.prems"(1)
    by (cases "(dget base k, PDict e)" rule: merged_value.cases)
       (auto simp: dget_deep_merge wf_dict_distinct)
qed

lemma path_get_deep_merge_silent:
  "wf_dict ov \<Longrightarrow> silent_on ov ks \<Longrightarrow> path_get (deep_merge base ov) ks = path_get base ks"
proof (induction ov ks arbitrary: base rule: silent_on.induct)
  case (1 ov)
  then show ?case by simp
next
  case (2 ov k ks)
  show ?case
  proof (cases "dget ov k")
    case None
    then show ?thesis
      using "2.prems" by (cases ks) (auto simp: dget_deep_merge wf_dict_distinct)
  next
    case (Some v)
    with "2.prems" obtain e where e: "dget ov k = Some (PDict e)" and s: "silent_on e ks"
      by (auto split: pyval.splits)
    have we: "wf_dict e" using "2.prems"(1) e by (rule wf_dict_sub)
    have ne: "ks \<noteq> []" using s by auto
    have IH: "path_get (deep_merge b e) ks = path_get b ks" for b
      using "2.IH"[OF e refl we s] .
    show ?thesis
      using e ne IH silent_path_get[OF s] "2.prems"(1)
      by (cases "(dget base k, PDict e)" rule: merged_value.cases)
         (auto simp: dget_deep_merge wf_dict_distinct path_get_Cons)
  qed
qed


section \<open>Group configuration and the operator overlay\<close>

text \<open>A key whose value is a dictionary.\<close>

fun dget_dict :: "pydict \<Rightarrow> string \<Rightarrow> pydict option" where
  "dget_dict d k = (case dget d k of Some (PDict e) \<Rightarrow> Some e | _ \<Rightarrow> None)"

lemma dget_dict_dset:
  "dget_dict (dset k v d) k' =
     (if k' = k then (case v of PDict e \<Rightarrow> Some e | _ \<Rightarrow> None) else dget_dict d k')"
  by (simp add: dget_dset)

definition resolve_group_config :: "pyval \<Rightarrow> string \<Rightarrow> string \<Rightarrow> pydict" where
  "resolve_group_config config tenant_id config_key =
     (case config of
        PDict c \<Rightarrow>
          (let base = (case dget_dict c ''groups'' of
                         Some groups \<Rightarrow>
                           (case dget_dict groups config_key of Some b \<Rightarrow> b | None \<Rightarrow> [])
                       | None \<Rightarrow> [])
           in case dget_dict c ''tenants'' of
                None \<Rightarrow> base
              | Some tenants \<Rightarrow>
                  (case dget_dict tenants tenant_id of
                     None \<Rightarrow> base
                   | Some tenant_block \<Rightarrow>
                       (case dget_dict tenant_block ''groups'' of
                          None \<Rightarrow> base
                        | Some tenant_groups \<Rightarrow>
                            (case dget_dict tenant_groups config_key of
                               None \<Rightarrow> base
                             | Some overlay \<Rightarrow>
                                 if overlay = [] then base else deep_merge base overlay))))
      | _ \<Rightarrow> [])"

definition operator_group_overlay :: "pyval \<Rightarrow> string \<Rightarrow> pydict" where
  "operator_group_overlay config tenant_id =
     (case config of
        PDict c \<Rightarrow>
          (case dget_dict c ''tenants'' of
             None \<Rightarrow> []
           | Some tenants \<Rightarrow>
               (case dget_dict tenants tenant_id of
                  None \<Rightarrow> []
                | Some block \<Rightarrow>
                    (case dget_dict block ''groups'' of None \<Rightarrow> [] | Some groups \<Rightarrow> groups)))
      | _ \<Rightarrow> [])"

text \<open>
  \<open>merged["groups"]\<close> is first made a dictionary and then merged into, in place: the
  model stores the merged dictionary under the same key.
\<close>

definition apply_operator_overlay :: "pyval \<Rightarrow> string \<Rightarrow> pyval" where
  "apply_operator_overlay config tenant_id =
     (let overlay = operator_group_overlay config tenant_id
      in if overlay = [] then config
         else (case config of
                 PDict c \<Rightarrow>
                   (let groups = (case dget_dict c ''groups'' of Some g \<Rightarrow> g | None \<Rightarrow> [])
                    in PDict (dset ''groups'' (PDict (deep_merge groups overlay)) c))
               | _ \<Rightarrow> config))"

text \<open>
  \<open>str(raw)\<close> of a number, a list or a dictionary begins with a digit, a sign or a bracket;
  no mode name does, so such a value selects the default.
\<close>

fun coerce_mode :: "pyval \<Rightarrow> string list \<Rightarrow> string \<Rightarrow> string" where
  "coerce_mode (PBool b) valid dflt =
     (if \<not> b \<and> ''off'' \<in> set valid then ''off'' else dflt)"
| "coerce_mode PNone valid dflt =
     (let mode = py_lower (py_strip dflt) in if mode \<in> set valid then mode else dflt)"
| "coerce_mode (PStr s) valid dflt =
     (let mode = py_lower (py_strip s) in if mode \<in> set valid then mode else dflt)"
| "coerce_mode _ valid dflt = dflt"

lemma coerce_mode_valid: "coerce_mode raw valid dflt \<in> set valid \<union> {dflt}"
  by (cases "(raw, valid, dflt)" rule: coerce_mode.cases) (auto simp: Let_def)

lemma resolve_group_config_def2:
  "resolve_group_config (PDict c) tid key =
     (let base = (case dget_dict c ''groups'' of
                    Some g \<Rightarrow> (case dget_dict g key of Some b \<Rightarrow> b | None \<Rightarrow> []) | None \<Rightarrow> []);
          ov = operator_group_overlay (PDict c) tid
      in case dget_dict ov key of None \<Rightarrow> base | Some o' \<Rightarrow> deep_merge base o')"
  unfolding resolve_group_config_def operator_group_overlay_def Let_def
  by (auto split: option.splits)

lemma operator_overlay_groups_update:
  "operator_group_overlay (PDict (dset ''groups'' g c)) tid = operator_group_overlay (PDict c) tid"
  by (simp add: operator_group_overlay_def dget_dset)

text \<open>A group's overlay is well-formed when the key is absent from it or holds a mapping.\<close>

definition mapping_or_absent :: "pydict \<Rightarrow> string \<Rightarrow> bool" where
  "mapping_or_absent d k \<longleftrightarrow> (case dget d k of None \<Rightarrow> True | Some v \<Rightarrow> is_dict v)"

lemma is_dict_iff: "is_dict v \<longleftrightarrow> (\<exists>d. v = PDict d)"
  by (cases v) auto

text \<open>
  Applying the overlay once at pipeline entry agrees with resolving it at read time, for
  every group whose overlay is a mapping.
\<close>

lemma wf_overlay: "wf_val config \<Longrightarrow> wf_dict (operator_group_overlay config tid)"
proof -
  assume wf: "wf_val config"
  show ?thesis
  proof (cases config)
    case (PDict c)
    then have c: "wf_dict c" using wf by (simp add: wf_dict_def)
    show ?thesis
      by (auto simp: operator_group_overlay_def PDict wf_dict_def[of "[]"]
               split: option.splits pyval.splits intro!: wf_dict_sub[OF wf_dict_sub[OF wf_dict_sub[OF c]]])
  qed (simp_all add: operator_group_overlay_def wf_dict_def)
qed

lemma resolve_after_apply:
  assumes wf: "wf_val (PDict c)"
    and ok: "mapping_or_absent (operator_group_overlay (PDict c) tid) key"
  shows "resolve_group_config (apply_operator_overlay (PDict c) tid) tid key =
         resolve_group_config (PDict c) tid key"
proof -
  let ?ov = "operator_group_overlay (PDict c) tid"
  let ?g = "case dget_dict c ''groups'' of Some g \<Rightarrow> g | None \<Rightarrow> []"
  have wov: "wf_dict ?ov" using wf by (rule wf_overlay)
  show ?thesis
  proof (cases "?ov = []")
    case True
    then show ?thesis by (simp add: apply_operator_overlay_def)
  next
    case ne: False
    then have app: "apply_operator_overlay (PDict c) tid =
        PDict (dset ''groups'' (PDict (deep_merge ?g ?ov)) c)"
      by (simp add: apply_operator_overlay_def Let_def)
    have base: "(case dget_dict c ''groups'' of
                    Some g \<Rightarrow> (case dget_dict g key of Some b \<Rightarrow> b | None \<Rightarrow> []) | None \<Rightarrow> []) =
                (case dget_dict ?g key of Some b \<Rightarrow> b | None \<Rightarrow> [])"
      by (simp split: option.splits)
    have new: "resolve_group_config (apply_operator_overlay (PDict c) tid) tid key =
      (case dget_dict ?ov key of
         None \<Rightarrow> (case dget_dict (deep_merge ?g ?ov) key of Some b \<Rightarrow> b | None \<Rightarrow> [])
       | Some w \<Rightarrow> deep_merge (case dget_dict (deep_merge ?g ?ov) key of Some b \<Rightarrow> b | None \<Rightarrow> []) w)"
      unfolding app resolve_group_config_def2 operator_overlay_groups_update Let_def
        dget_dict_dset by (simp del: dget_dict.simps cong: option.case_cong)
    have old: "resolve_group_config (PDict c) tid key =
      (case dget_dict ?ov key of
         None \<Rightarrow> (case dget_dict ?g key of Some b \<Rightarrow> b | None \<Rightarrow> [])
       | Some w \<Rightarrow> deep_merge (case dget_dict ?g key of Some b \<Rightarrow> b | None \<Rightarrow> []) w)"
      unfolding resolve_group_config_def2 Let_def base ..
    show ?thesis
    proof (cases "dget ?ov key")
      case None
      then show ?thesis
        unfolding new old using wov by (simp add: dget_deep_merge wf_dict_distinct)
    next
      case (Some v)
      with ok obtain w where v: "v = PDict w" by (auto simp: mapping_or_absent_def is_dict_iff)
      have ww: "wf_dict w" using wov Some v by (auto intro: wf_dict_sub)
      show ?thesis
        unfolding new old using wov Some v
        by (cases "(dget ?g key, PDict w)" rule: merged_value.cases)
           (auto simp: dget_deep_merge wf_dict_distinct deep_merge_idem[OF ww] deep_merge_self[OF ww]
             deep_merge_empty[OF ww])
    qed
  qed
qed

section \<open>Properties\<close>

lemma wf_dict_Nil [simp]: "wf_dict []"
  by (simp add: wf_dict_def)

text \<open>
  C14. A tenant's override decides exactly the paths it sets: a leaf of the override is found at
  the same path of the merge, and a path the override leaves is answered as in the base.
\<close>

theorem merge_path_law:
  assumes "wf_dict ov"
  shows "(\<forall>v. path_get ov ks = Some v \<and> \<not> is_dict v \<longrightarrow> path_get (deep_merge base ov) ks = Some v) \<and>
         (silent_on ov ks \<longrightarrow> path_get (deep_merge base ov) ks = path_get base ks)"
  using assms path_get_deep_merge_set path_get_deep_merge_silent by blast

lemma merge_path_law_witness:
  "path_get (deep_merge [(''a'', PDict [(''x'', PInt 1), (''y'', PInt 2)])]
                        [(''a'', PDict [(''x'', PInt 9)])]) [''a'', ''x''] = Some (PInt 9) \<and>
   path_get (deep_merge [(''a'', PDict [(''x'', PInt 1), (''y'', PInt 2)])]
                        [(''a'', PDict [(''x'', PInt 9)])]) [''a'', ''y''] = Some (PInt 2)"
  using merge_path_law[of "[(''a'', PDict [(''x'', PInt 9)])]" "[''a'', ''x'']"
      "[(''a'', PDict [(''x'', PInt 1), (''y'', PInt 2)])]"]
    merge_path_law[of "[(''a'', PDict [(''x'', PInt 9)])]" "[''a'', ''y'']"
      "[(''a'', PDict [(''x'', PInt 1), (''y'', PInt 2)])]"]
  by (simp add: wf_dict_def)

text \<open>
  Merging keeps a configuration well formed (each key once at every level), and merging the
  same override a second time changes nothing, not even the order of the keys.
\<close>

lemma merge_wf_idempotent:
  assumes "wf_dict base" and "wf_dict ov"
  shows "wf_dict (deep_merge base ov) \<and> deep_merge (deep_merge base ov) ov = deep_merge base ov"
  using assms wf_deep_merge deep_merge_idem by blast

lemma merge_wf_idempotent_witness:
  "wf_dict (deep_merge [(''a'', PInt 1)] [(''b'', PInt 2), (''a'', PDict [])]) \<and>
   deep_merge (deep_merge [(''a'', PInt 1)] [(''b'', PInt 2), (''a'', PDict [])])
     [(''b'', PInt 2), (''a'', PDict [])] =
   deep_merge [(''a'', PInt 1)] [(''b'', PInt 2), (''a'', PDict [])]"
  by (rule merge_wf_idempotent) (simp_all add: wf_dict_def)

text \<open>
  C15. The operator's overlay may be applied once at the entry or read per group: when the
  overlay of a group is a mapping or absent, a group resolves to the same configuration before and
  after \<open>apply_operator_overlay\<close>.
\<close>

theorem overlay_at_entry_agrees:
  assumes "wf_val (PDict c)"
    and "mapping_or_absent (operator_group_overlay (PDict c) tid) key"
  shows "resolve_group_config (apply_operator_overlay (PDict c) tid) tid key =
         resolve_group_config (PDict c) tid key"
  using assms by (rule resolve_after_apply)

definition sample_config :: pydict where
  "sample_config =
     [(''groups'', PDict [(''g06'', PDict [(''enabled'', PBool False), (''mode'', PStr ''off'')])]),
      (''tenants'', PDict [(''acme'', PDict [(''groups'',
          PDict [(''g06'', PDict [(''enabled'', PBool True)])])])])]"

lemma overlay_at_entry_agrees_witness:
  "resolve_group_config (apply_operator_overlay (PDict sample_config) ''acme'') ''acme'' ''g06'' =
   resolve_group_config (PDict sample_config) ''acme'' ''g06''"
  by (rule overlay_at_entry_agrees)
     (simp_all add: sample_config_def mapping_or_absent_def operator_group_overlay_def)

text \<open>
  A group overlay that is no mapping (a null or a string left in the operator's file) is
  ignored when the group is resolved from the configuration, but replaces the group's base
  when the overlay is applied at the entry: the group is then resolved to the empty configuration.
\<close>

lemma malformed_overlay_erases_base:
  assumes "wf_val (PDict c)"
    and "dget (operator_group_overlay (PDict c) tid) key = Some v" and "\<not> is_dict v"
  shows "resolve_group_config (apply_operator_overlay (PDict c) tid) tid key = [] \<and>
         resolve_group_config (PDict c) tid key =
           (case dget_dict c ''groups'' of
              Some g \<Rightarrow> (case dget_dict g key of Some b \<Rightarrow> b | None \<Rightarrow> []) | None \<Rightarrow> [])"
proof -
  let ?ov = "operator_group_overlay (PDict c) tid"
  let ?g = "case dget_dict c ''groups'' of Some g \<Rightarrow> g | None \<Rightarrow> []"
  have wov: "wf_dict ?ov" using assms(1) by (rule wf_overlay)
  have ne: "?ov \<noteq> []" using assms(2) by auto
  have nd: "dget_dict ?ov key = None" using assms(2,3) by (cases v) auto
  have mv: "merged_value b v = v" for b using assms(3) by (cases "(b, v)" rule: merged_value.cases) auto
  have nm: "dget_dict (deep_merge ?g ?ov) key = None"
    using assms(2,3) wov mv by (cases v) (simp_all add: dget_deep_merge wf_dict_distinct)
  have app: "apply_operator_overlay (PDict c) tid = PDict (dset ''groups'' (PDict (deep_merge ?g ?ov)) c)"
    using ne by (simp add: apply_operator_overlay_def Let_def)
  have "resolve_group_config (apply_operator_overlay (PDict c) tid) tid key = []"
    unfolding app resolve_group_config_def2 operator_overlay_groups_update Let_def dget_dict_dset
    using nd nm by (simp del: dget_dict.simps)
  then show ?thesis
    unfolding resolve_group_config_def2 Let_def using nd by (simp del: dget_dict.simps)
qed

definition sample_null_config :: pydict where
  "sample_null_config =
     [(''groups'', PDict [(''g32'', PDict [(''enabled'', PBool True)])]),
      (''tenants'', PDict [(''acme'', PDict [(''groups'', PDict [(''g32'', PNone)])])])]"

lemma malformed_overlay_erases_base_witness:
  "resolve_group_config (apply_operator_overlay (PDict sample_null_config) ''acme'') ''acme'' ''g32'' = [] \<and>
   resolve_group_config (PDict sample_null_config) ''acme'' ''g32'' = [(''enabled'', PBool True)]"
  using malformed_overlay_erases_base[of sample_null_config "''acme''" "''g32''" PNone]
  by (simp add: sample_null_config_def operator_group_overlay_def)

end
