(* ===== verification/Config_Loader.thy ===== *)
theory Config_Loader
  imports Config_Overlay
begin

text \<open>
  \<open>TenantConfigLoader\<close> of \<open>tenancy/config.py\<close>: the per-tenant overrides read from
  Postgres, cached for \<open>cache_ttl\<close> seconds, and merged into a request's configuration; and
  \<open>effective_group_enablement\<close> of \<open>middleware/pipeline.py\<close>, the read-only probe that goes
  through the same loader. The database is a parameter: \<open>fetch\<close> is the row a query returns
  (\<open>None\<close> for no row, its value otherwise) or the exception it raises, and \<open>loads\<close> is
  \<open>json.loads\<close>. The clock is an argument. The lemmas show that an override is never
  served more than \<open>cache_ttl\<close> seconds after the read it came from, and that tenants do not
  see each other's entries.
\<close>

record loader =
  has_pool :: bool
  cache_ttl :: rat
  override_cache :: "(string \<times> (pyval \<times> rat)) list"

definition new_loader :: "bool \<Rightarrow> rat \<Rightarrow> loader" where
  "new_loader pool ttl = \<lparr>has_pool = pool, cache_ttl = ttl, override_cache = []\<rparr>"

definition set_db_pool :: "loader \<Rightarrow> bool \<Rightarrow> loader" where
  "set_db_pool L pool = L\<lparr>has_pool := pool\<rparr>"

definition invalidate :: "loader \<Rightarrow> string option \<Rightarrow> loader" where
  "invalidate L tenant_id =
     (case tenant_id of
        None \<Rightarrow> L\<lparr>override_cache := []\<rparr>
      | Some t \<Rightarrow> L\<lparr>override_cache := dpop t (override_cache L)\<rparr>)"

type_synonym fetch_result = "pyexc + pyval option"

text \<open>
  \<open>if row and row["config_overrides"]\<close>, then \<open>json.loads\<close> of a string or \<open>dict\<close> of
  what the driver decoded. A number or a flag is refused by \<open>dict()\<close>; so is a list whose
  items are not pairs.
\<close>

definition decode_overrides :: "(string \<Rightarrow> pyexc + pyval) \<Rightarrow> pyval option \<Rightarrow> pyexc + pyval" where
  "decode_overrides loads row =
     (case row of
        None \<Rightarrow> Inr PNone
      | Some raw \<Rightarrow>
          if \<not> py_truthy raw then Inr PNone
          else (case raw of PStr s \<Rightarrow> loads s | PDict d \<Rightarrow> Inr (PDict d) | _ \<Rightarrow> Inl TypeError))"

definition get_overrides ::
  "(string \<Rightarrow> pyexc + pyval) \<Rightarrow> loader \<Rightarrow> rat \<Rightarrow> string \<Rightarrow> fetch_result \<Rightarrow> loader \<times> pyval" where
  "get_overrides loads L now tenant_id fetched =
     (let miss =
        (case bind_res fetched (decode_overrides loads) of
           Inl _ \<Rightarrow> (L, PNone)
         | Inr overrides \<Rightarrow>
             (L\<lparr>override_cache := dset tenant_id (overrides, now + cache_ttl L) (override_cache L)\<rparr>,
              overrides))
      in case dget (override_cache L) tenant_id of
           Some (overrides, expires_at) \<Rightarrow> if now < expires_at then (L, overrides) else miss
         | None \<Rightarrow> miss)"

text \<open>
  \<open>load\<close>: the new configuration and the overrides it came from (\<open>None\<close> when nothing was
  applied). A configuration or an override that is no mapping raises, as \<open>.get\<close> and
  \<open>.items\<close> do.
\<close>

definition load ::
  "(string \<Rightarrow> pyexc + pyval) \<Rightarrow> loader \<Rightarrow> rat \<Rightarrow> string \<Rightarrow> fetch_result \<Rightarrow> pyval
   \<Rightarrow> loader \<times> (pyexc + pyval \<times> pyval option)" where
  "load loads L now tenant_id fetched config =
     (if \<not> has_pool L then (L, Inr (config, None))
      else (case bind_res (py_get config ''tenancy'' (PDict []))
                  (\<lambda>t. py_get t ''per_tenant_config_enabled'' (PBool True)) of
              Inl e \<Rightarrow> (L, Inl e)
            | Inr flag \<Rightarrow>
                if \<not> py_truthy flag then (L, Inr (config, None))
                else (case get_overrides loads L now tenant_id fetched of
                        (L', overrides) \<Rightarrow>
                          if \<not> py_truthy overrides then (L', Inr (config, None))
                          else (case (config, overrides) of
                                  (PDict c, PDict ov) \<Rightarrow>
                                    (L', Inr (PDict (deep_merge c ov), Some overrides))
                                | _ \<Rightarrow> (L', Inl AttributeError)))))"

section \<open>Bounded staleness\<close>

text \<open>The runs of a loader; the log records each successful read and its time.\<close>

datatype loader_event =
    Get rat string fetch_result
  | Invalidate "string option"

type_synonym read_log = "(rat \<times> string \<times> pyval) list"

definition log_read ::
  "(string \<Rightarrow> pyexc + pyval) \<Rightarrow> loader \<Rightarrow> rat \<Rightarrow> string \<Rightarrow> fetch_result \<Rightarrow> read_log" where
  "log_read loads L now tenant_id fetched =
     (case dget (override_cache L) tenant_id of
        Some (_, expires_at) \<Rightarrow>
          if now < expires_at then []
          else (case bind_res fetched (decode_overrides loads) of
                  Inl _ \<Rightarrow> [] | Inr v \<Rightarrow> [(now, tenant_id, v)])
      | None \<Rightarrow> (case bind_res fetched (decode_overrides loads) of
                  Inl _ \<Rightarrow> [] | Inr v \<Rightarrow> [(now, tenant_id, v)]))"

fun loader_step ::
  "(string \<Rightarrow> pyexc + pyval) \<Rightarrow> loader \<times> read_log \<Rightarrow> loader_event \<Rightarrow> loader \<times> read_log" where
  "loader_step loads (L, lg) (Get now t f) =
     (fst (get_overrides loads L now t f), log_read loads L now t f @ lg)"
| "loader_step loads (L, lg) (Invalidate t) = (invalidate L t, lg)"

definition loader_inv :: "loader \<Rightarrow> read_log \<Rightarrow> bool" where
  "loader_inv L lg \<longleftrightarrow>
     (\<forall>t ov ex. dget (override_cache L) t = Some (ov, ex) \<longrightarrow> (ex - cache_ttl L, t, ov) \<in> set lg)"

lemma loader_invD:
  "loader_inv L lg \<Longrightarrow> dget (override_cache L) t = Some (ov, ex) \<Longrightarrow>
   (ex - cache_ttl L, t, ov) \<in> set lg"
  by (simp add: loader_inv_def)

lemma get_overrides_cases:
  obtains (hit) ex where "dget (override_cache L) t = Some (snd (get_overrides loads L now t f), ex)"
      "now < ex" "fst (get_overrides loads L now t f) = L" "log_read loads L now t f = []"
  | (failed) e where "bind_res f (decode_overrides loads) = Inl e"
      "get_overrides loads L now t f = (L, PNone)" "log_read loads L now t f = []"
  | (read) v where "bind_res f (decode_overrides loads) = Inr v"
      "get_overrides loads L now t f =
        (L\<lparr>override_cache := dset t (v, now + cache_ttl L) (override_cache L)\<rparr>, v)"
      "log_read loads L now t f = [(now, t, v)]"
proof (cases "\<exists>v ex. dget (override_cache L) t = Some (v, ex) \<and> now < ex")
  case True
  then show thesis by (auto simp: get_overrides_def log_read_def intro: hit)
next
  case False
  have eqs: "get_overrides loads L now t f =
      (case bind_res f (decode_overrides loads) of Inl _ \<Rightarrow> (L, PNone)
       | Inr v \<Rightarrow> (L\<lparr>override_cache := dset t (v, now + cache_ttl L) (override_cache L)\<rparr>, v))"
    "log_read loads L now t f =
      (case bind_res f (decode_overrides loads) of Inl _ \<Rightarrow> [] | Inr v \<Rightarrow> [(now, t, v)])"
    using False
    by (cases "dget (override_cache L) t"; auto simp: get_overrides_def log_read_def Let_def)+
  show thesis
    by (cases "bind_res f (decode_overrides loads)") (use eqs failed read in auto)
qed

lemma get_overrides_ttl [simp]: "cache_ttl (fst (get_overrides loads L now t f)) = cache_ttl L"
  by (cases rule: get_overrides_cases[of L t loads now f]) auto

lemma loader_inv_get:
  assumes "loader_inv L lg"
  shows "loader_inv (fst (get_overrides loads L now t f)) (log_read loads L now t f @ lg)"
  by (cases rule: get_overrides_cases[of L t loads now f])
     (use assms in \<open>auto simp: loader_inv_def dget_dset\<close>)

lemma loader_inv_invalidate: "loader_inv L lg \<Longrightarrow> loader_inv (invalidate L t) lg"
  by (auto simp: loader_inv_def invalidate_def dget_dpop split: option.splits)

lemma loader_step_inv:
  "loader_inv L lg \<Longrightarrow> loader_step loads (L, lg) e = (L', lg') \<Longrightarrow>
   loader_inv L' lg' \<and> cache_ttl L' = cache_ttl L"
proof (cases e)
  case (Get now t f)
  then show "loader_inv L lg \<Longrightarrow> loader_step loads (L, lg) e = (L', lg') \<Longrightarrow> ?thesis"
    using loader_inv_get by auto
next
  case (Invalidate t)
  then show "loader_inv L lg \<Longrightarrow> loader_step loads (L, lg) e = (L', lg') \<Longrightarrow> ?thesis"
    using loader_inv_invalidate[of L lg t] by (auto simp: invalidate_def split: option.splits)
qed

lemma loader_run_inv:
  "loader_inv L lg \<Longrightarrow> foldl (loader_step loads) (L, lg) es = (L', lg') \<Longrightarrow>
   loader_inv L' lg' \<and> cache_ttl L' = cache_ttl L"
proof (induction es arbitrary: L lg)
  case Nil
  then show ?case by simp
next
  case (Cons e es)
  obtain L1 lg1 where s: "loader_step loads (L, lg) e = (L1, lg1)" by fastforce
  from loader_step_inv[OF Cons.prems(1) s] Cons.IH[of L1 lg1] Cons.prems(2) s show ?case by simp
qed

lemma get_overrides_frame:
  "t' \<noteq> t \<Longrightarrow> dget (override_cache (fst (get_overrides loads L now t f))) t' = dget (override_cache L) t'"
  by (cases rule: get_overrides_cases[of L t loads now f]) (auto simp: pd.put_frame)

lemma get_overrides_cached:
  assumes "get_overrides loads L now t f = (L', ov)" and "bind_res f (decode_overrides loads) = Inr v"
    and "now \<le> now'" and "now' < now + cache_ttl L" and "dget (override_cache L) t = None"
  shows "get_overrides loads L' now' t f' = (L', v) \<and> ov = v"
  using assms by (auto simp: get_overrides_def dget_dset)

section \<open>The enablement probe\<close>

definition block_enabled :: "pyval \<Rightarrow> pyval" where
  "block_enabled block = (case block of PDict b \<Rightarrow> dget_or b ''enabled'' PNone | _ \<Rightarrow> PNone)"

definition enablement_of :: "pyval \<Rightarrow> pydict" where
  "enablement_of config =
     (case config of
        PDict c \<Rightarrow>
          (let out = (case dget_dict c ''groups'' of
                        Some groups \<Rightarrow> map (\<lambda>(k, block). (k, block_enabled block)) groups
                      | None \<Rightarrow> [])
           in case dget_dict c ''rate_limit'' of
                Some rl \<Rightarrow> dset ''rate_limit'' (dget_or rl ''enabled'' (PBool False)) out
              | None \<Rightarrow> out)
      | _ \<Rightarrow> [])"

definition effective_group_enablement ::
  "(string \<Rightarrow> pyexc + pyval) \<Rightarrow> loader \<Rightarrow> rat \<Rightarrow> string \<Rightarrow> fetch_result \<Rightarrow> pyval \<Rightarrow> loader \<times> pydict" where
  "effective_group_enablement loads L now tenant_id fetched config =
     (case load loads L now tenant_id fetched config of
        (L', r) \<Rightarrow>
          (L', enablement_of (apply_operator_overlay
                 (case r of Inl _ \<Rightarrow> config | Inr (config', _) \<Rightarrow> config') tenant_id)))"

lemma dget_map_values:
  "dget (map (\<lambda>(k, v). (k, h v)) d) k = map_option h (dget d k)"
  by (induction d) auto

lemma dget_enablement_of:
  assumes "k \<noteq> ''rate_limit''" and "dget_dict c ''groups'' = Some g"
  shows "dget (enablement_of (PDict c)) k = map_option block_enabled (dget g k)"
  using assms
  by (simp add: enablement_of_def Let_def dget_dset dget_map_values del: dget_dict.simps
           split: option.splits)

section \<open>Properties\<close>

text \<open>
  Bounded staleness: whatever reads and invalidations went before, the overrides a loader
  serves are empty or the value of a successful read of the same tenant's row, made now or less
  than \<open>cache_ttl\<close> seconds ago.
\<close>

lemma loader_bounded_staleness:
  assumes "foldl (loader_step loads) (new_loader pool ttl, []) es = (L, lg)"
    and "get_overrides loads L now t fetched = (L', v)"
  shows "v = PNone \<or>
         (\<exists>t0. (t0, t, v) \<in> set (log_read loads L now t fetched @ lg) \<and> (t0 = now \<or> now - t0 < ttl))"
proof -
  have "loader_inv (new_loader pool ttl) []" by (simp add: loader_inv_def new_loader_def)
  from loader_run_inv[OF this assms(1)] have inv: "loader_inv L lg" and tt: "cache_ttl L = ttl"
    by (simp_all add: new_loader_def)
  show ?thesis
  proof (cases rule: get_overrides_cases[of L t loads now fetched])
    case (hit ex)
    then have "(ex - ttl, t, v) \<in> set lg" using loader_invD[OF inv] assms(2) tt by auto
    then show ?thesis using hit(2) by (intro disjI2 exI[of _ "ex - ttl"]) auto
  qed (use assms(2) in auto)
qed

lemma loader_bounded_staleness_witness:
  "PDict [(''k'', PInt 1)] = PNone \<or>
   (\<exists>t0. (t0, ''acme'', PDict [(''k'', PInt 1)]) \<in> {(100, ''acme'', PDict [(''k'', PInt 1)])} \<and>
         (t0 = 120 \<or> 120 - t0 < (30 :: rat)))"
  using loader_bounded_staleness[of "\<lambda>_. Inl ValueError" True 30
      "[Get 100 ''acme'' (Inr (Some (PDict [(''k'', PInt 1)])))]"
      "\<lparr>has_pool = True, cache_ttl = 30, override_cache = [(''acme'', (PDict [(''k'', PInt 1)], 130))]\<rparr>"
      "[(100, ''acme'', PDict [(''k'', PInt 1)])]" 120 "''acme''" "Inl RedisError"
      "\<lparr>has_pool = True, cache_ttl = 30, override_cache = [(''acme'', (PDict [(''k'', PInt 1)], 130))]\<rparr>"
      "PDict [(''k'', PInt 1)]"]
  by (simp add: new_loader_def get_overrides_def log_read_def decode_overrides_def)

text \<open>
  Reading or invalidating one tenant never changes what is cached for another, and after an
  invalidation the next read of the tenant goes to the database.
\<close>

lemma loader_tenant_frame:
  "(t' \<noteq> t \<longrightarrow>
      dget (override_cache (fst (get_overrides loads L now t fetched))) t' = dget (override_cache L) t' \<and>
      dget (override_cache (invalidate L (Some t))) t' = dget (override_cache L) t') \<and>
   snd (get_overrides loads (invalidate L (Some t)) now t fetched) =
     (case bind_res fetched (decode_overrides loads) of Inl _ \<Rightarrow> PNone | Inr v \<Rightarrow> v)"
proof -
  have "snd (get_overrides loads (invalidate L (Some t)) now t fetched) =
      (case bind_res fetched (decode_overrides loads) of Inl _ \<Rightarrow> PNone | Inr v \<Rightarrow> v)"
    by (simp add: invalidate_def get_overrides_def dget_dpop Let_def split: sum.split)
  then show ?thesis by (auto simp: get_overrides_frame invalidate_def pd.drop_frame)
qed

lemma loader_tenant_frame_witness:
  "dget (override_cache (invalidate
      \<lparr>has_pool = True, cache_ttl = 30, override_cache = [(''acme'', (PNone, 130))]\<rparr> (Some ''b''))) ''acme'' =
    Some (PNone, 130)"
  using loader_tenant_frame[of "''acme''" "''b''" "\<lambda>_. Inl ValueError"
      "\<lparr>has_pool = True, cache_ttl = 30, override_cache = [(''acme'', (PNone, 130))]\<rparr>" 0 "Inr None"]
  by simp

end
