(* ===== verification/Tenancy.thy ===== *)
theory Tenancy
  imports Config_Overlay
begin

text \<open>
  Tenant identity: \<open>tenancy/context.py\<close> (sanitised ids, Redis prefixes, document buckets) and
  \<open>tenancy/resolver.py\<close> (which tenant and team a request acts for). The lemmas give the shape
  of a sanitised id and of a bucket name, the disjointness of the Redis namespaces, and that
  a key without the admin scope keeps its own tenant whatever the headers say. The bucket
  prefix (an environment variable) is an argument, and SHA-256 is a parameter.
\<close>

section \<open>Sanitised tenant ids\<close>

definition id_char :: "char \<Rightarrow> bool" where
  "id_char c \<longleftrightarrow> is_ascii_alnum c \<or> c = CHR ''_'' \<or> c = CHR ''-''"

definition max_tenant_id_len :: nat where
  "max_tenant_id_len = 64"

definition sanitise_tenant_id :: "string \<Rightarrow> string" where
  "sanitise_tenant_id tenant_id =
     (let tid = take max_tenant_id_len
                  (map (\<lambda>c. if id_char c then c else CHR ''_'') (py_strip tenant_id))
      in if tid = [] then ''default''
         else if \<not> is_ascii_alnum (hd tid) then take max_tenant_id_len (CHR ''t'' # tid)
         else tid)"

definition safe_id :: "string \<Rightarrow> bool" where
  "safe_id s \<longleftrightarrow>
     s \<noteq> [] \<and> length s \<le> max_tenant_id_len \<and> (\<forall>c \<in> set s. id_char c) \<and> is_ascii_alnum (hd s)"

lemma id_char_consts [simp]:
  "id_char CHR ''_''" "id_char CHR ''-''" "id_char CHR ''t''" "\<not> id_char CHR '':''"
  "is_ascii_alnum CHR ''t''"
  by (simp_all add: id_char_def is_ascii_alnum_def is_ascii_alpha_def is_digit_def)

lemma safe_default: "safe_id ''default''"
  by (simp add: safe_id_def id_char_def is_ascii_alnum_def is_ascii_alpha_def is_digit_def
      max_tenant_id_len_def)

lemma sanitised_chars: "\<forall>c \<in> set (map (\<lambda>c. if id_char c then c else CHR ''_'') s). id_char c"
  by auto

lemma sanitise_safe: "safe_id (sanitise_tenant_id s)"
proof -
  define tid where
    "tid = take max_tenant_id_len (map (\<lambda>c. if id_char c then c else CHR ''_'') (py_strip s))"
  have eq: "sanitise_tenant_id s =
      (if tid = [] then ''default''
       else if \<not> is_ascii_alnum (hd tid) then take max_tenant_id_len (CHR ''t'' # tid) else tid)"
    by (simp only: sanitise_tenant_id_def tid_def Let_def)
  have ok: "\<forall>c \<in> set tid. id_char c"
    unfolding tid_def using sanitised_chars by (meson in_set_takeD)
  have len: "length tid \<le> max_tenant_id_len" by (simp add: tid_def)
  obtain m where m: "max_tenant_id_len = Suc m" by (simp add: max_tenant_id_len_def)
  have pre: "\<forall>c \<in> set (take m tid). id_char c" using ok by (meson in_set_takeD)
  show ?thesis
    using ok len pre safe_default by (auto simp: eq safe_id_def m)
qed

lemma id_char_not_space: "id_char c \<Longrightarrow> \<not> is_space c"
  by (auto simp: id_char_def is_ascii_alnum_def is_ascii_alpha_def is_digit_def is_space_def)

lemma sanitise_id: "safe_id s \<Longrightarrow> sanitise_tenant_id s = s"
proof -
  assume s: "safe_id s"
  then have "\<not> is_space (hd s)" "\<not> is_space (last s)"
    using id_char_not_space[of "hd s"] id_char_not_space[of "last s"] by (auto simp: safe_id_def)
  then have st: "py_strip s = s"
    using s by (auto simp: py_strip_def safe_id_def intro: strip_with_id)
  have "map (\<lambda>c. if id_char c then c else CHR ''_'') s = s"
    using s by (intro map_idI) (auto simp: safe_id_def)
  then show ?thesis
    using s by (simp add: sanitise_tenant_id_def st safe_id_def)
qed

section \<open>Document buckets\<close>

definition bucket_char :: "char \<Rightarrow> bool" where
  "bucket_char c \<longleftrightarrow>
     (97 \<le> (of_char c :: nat) \<and> (of_char c :: nat) \<le> 122) \<or> is_digit c \<or> c = CHR ''-''"

text \<open>\<open>re.sub(r"-{2,}", "-", slug)\<close>.\<close>

fun collapse_hyphens :: "string \<Rightarrow> string" where
  "collapse_hyphens (c # d # s) =
     (if c = CHR ''-'' \<and> d = CHR ''-'' then collapse_hyphens (d # s)
      else c # collapse_hyphens (d # s))"
| "collapse_hyphens s = s"

definition strip_hyphens :: "string \<Rightarrow> string" where
  "strip_hyphens s = strip_with (\<lambda>c. c = CHR ''-'') s"

definition max_bucket_name_len :: nat where
  "max_bucket_name_len = 63"

definition min_bucket_name_len :: nat where
  "min_bucket_name_len = 3"

definition tenant_to_bucket :: "string \<Rightarrow> string \<Rightarrow> string" where
  "tenant_to_bucket tenant_id prefix =
     (let safe = sanitise_tenant_id tenant_id;
          slug0 = map (\<lambda>c. if bucket_char c then c else CHR ''-'') (py_lower safe);
          slug1 = strip_hyphens (collapse_hyphens slug0);
          slug = (if slug1 = [] then ''default'' else slug1);
          name = prefix @ slug;
          name = (if length name > max_bucket_name_len
                  then (let keep = int max_bucket_name_len - int (length prefix);
                            cut = strip_hyphens (take (nat (max 1 keep)) slug)
                        in prefix @ (if cut = [] then ''default'' else cut))
                  else name)
      in if length name < min_bucket_name_len then name @ ''-x'' else name)"

definition bucket_forward :: "string list \<Rightarrow> string \<Rightarrow> (string \<times> string) list" where
  "bucket_forward registry prefix =
     fold (\<lambda>t. dset (tenant_to_bucket t prefix) t) (filter (\<lambda>t. t \<noteq> []) registry) []"

definition bucket_to_tenant :: "string \<Rightarrow> string list \<Rightarrow> string \<Rightarrow> string option" where
  "bucket_to_tenant bucket registry prefix =
     (if bucket = [] then None else dget (bucket_forward registry prefix) bucket)"

fun check_unique :: "string \<Rightarrow> string list \<Rightarrow> (string \<times> string) list \<Rightarrow> pyexc + unit" where
  "check_unique prefix [] buckets = Inr ()"
| "check_unique prefix (t # ts) buckets =
     (let b = tenant_to_bucket t prefix
      in case dget buckets b of
           Some t' \<Rightarrow> if t' \<noteq> t then Inl ValueError else check_unique prefix ts (dset b t buckets)
         | None \<Rightarrow> check_unique prefix ts (dset b t buckets))"

definition validate_registry_unique :: "string list \<Rightarrow> string \<Rightarrow> pyexc + unit" where
  "validate_registry_unique registry prefix =
     check_unique prefix (filter (\<lambda>t. t \<noteq> []) registry) []"

subsection \<open>The shape of a bucket name\<close>

lemma set_collapse_hyphens: "set (collapse_hyphens s) \<subseteq> set s"
  by (induction s rule: collapse_hyphens.induct) auto

lemma set_strip_hyphens: "set (strip_hyphens s) \<subseteq> set s"
  by (simp add: strip_hyphens_def set_strip_with)

lemma hd_dropWhile_not: "dropWhile p s \<noteq> [] \<Longrightarrow> \<not> p (hd (dropWhile p s))"
  by (rule hd_dropWhile)

lemma last_strip_with: "strip_with p s \<noteq> [] \<Longrightarrow> \<not> p (last (strip_with p s))"
  using hd_dropWhile[of p "rev (dropWhile p s)"] by (simp add: strip_with_def last_rev)

lemma hd_strip_with: "strip_with p s \<noteq> [] \<Longrightarrow> \<not> p (hd (strip_with p s))"
proof -
  assume ne: "strip_with p s \<noteq> []"
  then have ne': "dropWhile p s \<noteq> []" by (metis dropWhile.simps(1) rev.simps(1) strip_with_def)
  then obtain c t where ct: "dropWhile p s = c # t" by (cases "dropWhile p s") auto
  have np: "\<not> p c" using hd_dropWhile[OF ne'] ct by simp
  have "dropWhile p (c # t) = c # t" using np by simp
  then have "strip_with p s = strip_with p (c # t)" by (simp add: strip_with_def ct)
  then show ?thesis using strip_with_hd[of p c t, OF np] np by auto
qed

definition slug_ok :: "string \<Rightarrow> bool" where
  "slug_ok s \<longleftrightarrow> s \<noteq> [] \<and> (\<forall>c \<in> set s. bucket_char c) \<and> hd s \<noteq> CHR ''-'' \<and> last s \<noteq> CHR ''-''"

lemma slug_ok_default: "slug_ok ''default''"
  by (simp add: slug_ok_def bucket_char_def is_digit_def)

lemma slug_ok_strip:
  "\<forall>c \<in> set s. bucket_char c \<Longrightarrow> slug_ok (if strip_hyphens s = [] then ''default'' else strip_hyphens s)"
  using set_strip_hyphens[of s] hd_strip_with[of "\<lambda>c. c = CHR ''-''" s]
    last_strip_with[of "\<lambda>c. c = CHR ''-''" s] slug_ok_default
  by (auto simp: slug_ok_def strip_hyphens_def)

definition bucket_name_ok :: "string \<Rightarrow> bool" where
  "bucket_name_ok s \<longleftrightarrow>
     min_bucket_name_len \<le> length s \<and> length s \<le> max_bucket_name_len \<and>
     (\<forall>c \<in> set s. bucket_char c) \<and> hd s \<noteq> CHR ''-'' \<and> last s \<noteq> CHR ''-''"

lemma strip_take_slug:
  assumes "slug_ok s" and "0 < n"
  shows "strip_hyphens (take n s) \<noteq> []"
proof -
  obtain c t where s: "s = c # t" and c: "c \<noteq> CHR ''-''" using assms(1) by (cases s) (auto simp: slug_ok_def)
  obtain m where "n = Suc m" using assms(2) by (cases n) auto
  then show ?thesis
    using strip_with_hd[of "\<lambda>c. c = CHR ''-''" c "take m t"] c by (auto simp: s strip_hyphens_def)
qed

lemma tenant_to_bucket_ok:
  assumes p: "\<forall>c \<in> set prefix. bucket_char c" "prefix \<noteq> [] \<longrightarrow> hd prefix \<noteq> CHR ''-''"
    and len: "length prefix < max_bucket_name_len"
  shows "bucket_name_ok (tenant_to_bucket t prefix)"
proof -
  let ?raw = "map (\<lambda>c. if bucket_char c then c else CHR ''-'') (py_lower (sanitise_tenant_id t))"
  let ?cl = "collapse_hyphens ?raw"
  let ?slug = "if strip_hyphens ?cl = [] then ''default'' else strip_hyphens ?cl"
  have hy: "bucket_char CHR ''-''" "bucket_char CHR ''x''" by (simp_all add: bucket_char_def is_digit_def)
  have "\<forall>c \<in> set ?raw. bucket_char c" using hy by auto
  then have "\<forall>c \<in> set ?cl. bucket_char c" using set_collapse_hyphens[of ?raw] by blast
  then have slug: "slug_ok ?slug" by (rule slug_ok_strip)
  let ?keep = "max_bucket_name_len - length prefix"
  have keep: "nat (max 1 (int max_bucket_name_len - int (length prefix))) = ?keep" "0 < ?keep"
    using len by auto
  let ?cut = "strip_hyphens (take ?keep ?slug)"
  have cut_ne: "?cut \<noteq> []" using slug keep(2) by (rule strip_take_slug)
  have cut_len: "length ?cut \<le> ?keep"
    using length_strip_with[of "\<lambda>c. c = CHR ''-''" "take ?keep ?slug"]
    unfolding strip_hyphens_def length_take by linarith
  have "\<forall>c \<in> set ?slug. bucket_char c" using slug unfolding slug_ok_def by blast
  then have "\<forall>c \<in> set (take ?keep ?slug). bucket_char c" by (meson in_set_takeD)
  from slug_ok_strip[OF this] cut_ne have cut: "slug_ok ?cut" by (simp only: if_False)
  let ?name = "if length (prefix @ ?slug) > max_bucket_name_len then prefix @ ?cut else prefix @ ?slug"
  have eq: "tenant_to_bucket t prefix = (if length ?name < min_bucket_name_len then ?name @ ''-x'' else ?name)"
    unfolding tenant_to_bucket_def Let_def keep(1) using cut_ne by (simp only: if_False if_cancel)
  obtain s where s: "?name = prefix @ s" "slug_ok s" "length (prefix @ s) \<le> max_bucket_name_len"
  proof (cases "length (prefix @ ?slug) > max_bucket_name_len")
    case True
    then show thesis using that[of ?cut] cut cut_len len by simp
  next
    case False
    then show thesis using that[of ?slug] slug by simp
  qed
  have hds: "hd (prefix @ s) \<noteq> CHR ''-''" "last (prefix @ s) \<noteq> CHR ''-''" "hd (prefix @ s @ ''-x'') \<noteq> CHR ''-''" "Suc 0 \<le> length prefix + length s"
    using s(2) p(2) by (auto simp: slug_ok_def hd_append Suc_le_eq)
  show ?thesis
    unfolding eq s(1) bucket_name_ok_def using s(2,3) hds p(1) hy
    by (auto simp: slug_ok_def max_bucket_name_len_def min_bucket_name_len_def)
qed


subsection \<open>Reversing a bucket name\<close>

lemma check_unique_Cons:
  "check_unique prefix (t # ts) buckets = Inr () \<longleftrightarrow>
     (dget buckets (tenant_to_bucket t prefix) = None \<or>
      dget buckets (tenant_to_bucket t prefix) = Some t) \<and>
     check_unique prefix ts (dset (tenant_to_bucket t prefix) t buckets) = Inr ()"
  by (auto simp: Let_def split: option.splits)

lemma check_unique_seen:
  "check_unique prefix ts buckets = Inr () \<Longrightarrow> t \<in> set ts \<Longrightarrow>
   dget buckets (tenant_to_bucket t prefix) = Some u \<Longrightarrow> u = t"
proof (induction ts arbitrary: buckets u)
  case Nil
  then show ?case by simp
next
  case (Cons t0 ts)
  from Cons.prems(1) have h: "dget buckets (tenant_to_bucket t0 prefix) = None \<or>
      dget buckets (tenant_to_bucket t0 prefix) = Some t0"
    and r: "check_unique prefix ts (dset (tenant_to_bucket t0 prefix) t0 buckets) = Inr ()"
    by (simp_all only: check_unique_Cons)
  show ?case
  proof (cases "t = t0")
    case True
    then show ?thesis using h Cons.prems(3) by simp
  next
    case False
    then have "t \<in> set ts" using Cons.prems(2) by simp
    note IH = Cons.IH[OF r this]
    show ?thesis
    proof (cases "tenant_to_bucket t prefix = tenant_to_bucket t0 prefix")
      case True
      then show ?thesis using IH[of t0] False by (simp add: dget_dset)
    next
      case False
      then show ?thesis using IH[of u] Cons.prems(3) by (simp add: dget_dset)
    qed
  qed
qed

lemma check_unique_inj:
  "check_unique prefix ts buckets = Inr () \<Longrightarrow> t \<in> set ts \<Longrightarrow> t' \<in> set ts \<Longrightarrow>
   tenant_to_bucket t prefix = tenant_to_bucket t' prefix \<Longrightarrow> t = t'"
proof (induction ts arbitrary: buckets)
  case Nil
  then show ?case by simp
next
  case (Cons t0 ts)
  from Cons.prems(1)
  have r: "check_unique prefix ts (dset (tenant_to_bucket t0 prefix) t0 buckets) = Inr ()"
    by (simp only: check_unique_Cons)
  have seen: "t0 = u" if "u \<in> set ts" "tenant_to_bucket u prefix = tenant_to_bucket t0 prefix" for u
    using check_unique_seen[OF r that(1)] that(2) by (simp add: dget_dset)
  from Cons.prems(2-4) show ?case
    using Cons.IH[OF r] seen[of t] seen[of t'] by auto
qed

lemma dget_fold_forward:
  "dget (fold (\<lambda>t. dset (f t) t) ts d) b =
     (case find (\<lambda>t. f t = b) (rev ts) of Some t \<Rightarrow> Some t | None \<Rightarrow> dget d b)"
proof (induction ts rule: rev_induct)
  case Nil
  then show ?case by simp
next
  case (snoc t ts)
  then show ?case by (auto simp: dget_dset)
qed

lemma bucket_roundtrip:
  assumes "validate_registry_unique registry prefix = Inr ()"
    and "t \<in> set registry" and "t \<noteq> []" and "tenant_to_bucket t prefix \<noteq> []"
  shows "bucket_to_tenant (tenant_to_bucket t prefix) registry prefix = Some t"
proof -
  let ?ts = "filter (\<lambda>t. t \<noteq> []) registry"
  let ?same = "\<lambda>u. tenant_to_bucket u prefix = tenant_to_bucket t prefix"
  have uniq: "check_unique prefix ?ts [] = Inr ()"
    using assms(1) by (simp add: validate_registry_unique_def)
  have mem: "t \<in> set ?ts" using assms(2,3) by simp
  obtain u where u: "find ?same (rev ?ts) = Some u"
    using find_None_all[of ?same "rev ?ts" t] mem by (cases "find ?same (rev ?ts)") auto
  then have "?same u" "u \<in> set ?ts" using find_Some_in[OF u] by auto
  then have "u = t" using check_unique_inj[OF uniq _ mem] by blast
  then show ?thesis
    using assms(4) u by (simp add: bucket_to_tenant_def bucket_forward_def dget_fold_forward)
qed

lemma bucket_to_tenant_registered:
  assumes "bucket_to_tenant b registry prefix = Some t"
  shows "t \<in> set registry \<and> t \<noteq> [] \<and> tenant_to_bucket t prefix = b"
proof -
  have "find (\<lambda>t. tenant_to_bucket t prefix = b) (rev (filter (\<lambda>t. t \<noteq> []) registry)) = Some t"
    using assms
    by (auto simp: bucket_to_tenant_def bucket_forward_def dget_fold_forward
             split: if_splits option.splits)
  from find_Some_in[OF this] show ?thesis by auto
qed

section \<open>The tenant context\<close>

record tenant_context =
  tc_tenant_id :: string
  tc_pricing_tier :: string
  tc_redis_prefix :: string
  tc_qdrant_collection :: string
  tc_config_overrides :: pydict

definition redis_prefix_of :: "string \<Rightarrow> string" where
  "redis_prefix_of sid = (if sid \<noteq> ''default'' then ''t:'' @ sid @ '':'' else [])"

definition for_tenant :: "string \<Rightarrow> string \<Rightarrow> tenant_context" where
  "for_tenant tenant_id pricing_tier =
     (let sid = sanitise_tenant_id tenant_id
      in \<lparr>tc_tenant_id = sid, tc_pricing_tier = pricing_tier,
          tc_redis_prefix = redis_prefix_of sid,
          tc_qdrant_collection = (if sid \<noteq> ''default'' then ''rag_'' @ sid else ''rag_docs''),
          tc_config_overrides = []\<rparr>)"

definition default_context :: tenant_context where
  "default_context =
     \<lparr>tc_tenant_id = ''default'', tc_pricing_tier = ''free'', tc_redis_prefix = [],
      tc_qdrant_collection = ''rag_docs'', tc_config_overrides = []\<rparr>"

text \<open>The text up to the first separator determines the split.\<close>

lemma append_sep_inject:
  assumes "c \<notin> set a" and "c \<notin> set b" and "a @ c # x = b @ c # y"
  shows "a = b \<and> x = y"
  using assms
proof (induction a arbitrary: b)
  case Nil
  then show ?case by (cases b) auto
next
  case (Cons d a)
  then show ?case by (cases b) auto
qed

lemma safe_id_no_colon: "safe_id s \<Longrightarrow> CHR '':'' \<notin> set s"
  by (auto simp: safe_id_def)

lemma redis_prefix_disjoint:
  assumes "tc_tenant_id (for_tenant t1 p1) \<noteq> ''default''" "tc_tenant_id (for_tenant t2 p2) \<noteq> ''default''"
    and "tc_redis_prefix (for_tenant t1 p1) @ k1 = tc_redis_prefix (for_tenant t2 p2) @ k2"
  shows "tc_tenant_id (for_tenant t1 p1) = tc_tenant_id (for_tenant t2 p2) \<and> k1 = k2"
proof -
  have "sanitise_tenant_id t1 @ CHR '':'' # k1 = sanitise_tenant_id t2 @ CHR '':'' # k2"
    using assms by (simp add: for_tenant_def redis_prefix_of_def Let_def)
  then show ?thesis
    using append_sep_inject safe_id_no_colon[OF sanitise_safe]
    by (metis for_tenant_def tenant_context.select_convs(1))
qed

section \<open>Properties\<close>

text \<open>
  A sanitised tenant id is never empty, has at most 64 characters, all of them letters,
  digits, underscores or hyphens with a letter or digit first, and sanitising it again changes nothing.
\<close>

lemma sanitised_id_safe_and_stable:
  "safe_id (sanitise_tenant_id s) \<and> sanitise_tenant_id (sanitise_tenant_id s) = sanitise_tenant_id s"
  using sanitise_safe sanitise_id by blast



text \<open>
  The bucket of any tenant has a name S3 accepts: 3 to 63 characters, lower-case letters, digits and
  hyphens, no hyphen at either end, for every prefix of such characters that leaves room.
\<close>

lemma bucket_names_valid:
  assumes "\<forall>c \<in> set prefix. bucket_char c" and "prefix \<noteq> [] \<longrightarrow> hd prefix \<noteq> CHR ''-''"
    and "length prefix < max_bucket_name_len"
  shows "bucket_name_ok (tenant_to_bucket t prefix)"
  using assms by (rule tenant_to_bucket_ok)

lemma bucket_names_valid_witness: "bucket_name_ok (tenant_to_bucket ''_Acme__Corp-'' ''tl-'')"
  by (rule bucket_names_valid) (simp_all add: bucket_char_def is_digit_def max_bucket_name_len_def)

text \<open>
  Buckets lead back to their tenant: when the registry has passed the uniqueness check at
  start-up, the bucket of a registered tenant is resolved to that tenant and to no other, and a bucket
  is only ever resolved to a registered tenant whose bucket it is.
\<close>

lemma bucket_tenant_roundtrip:
  assumes "validate_registry_unique registry prefix = Inr ()"
    and "\<forall>c \<in> set prefix. bucket_char c" and "prefix \<noteq> [] \<longrightarrow> hd prefix \<noteq> CHR ''-''"
    and "length prefix < max_bucket_name_len"
  shows "bucket_to_tenant b registry prefix = Some t \<longleftrightarrow>
         t \<in> set registry \<and> t \<noteq> [] \<and> tenant_to_bucket t prefix = b"
proof
  assume "bucket_to_tenant b registry prefix = Some t"
  then show "t \<in> set registry \<and> t \<noteq> [] \<and> tenant_to_bucket t prefix = b"
    by (rule bucket_to_tenant_registered)
next
  assume t: "t \<in> set registry \<and> t \<noteq> [] \<and> tenant_to_bucket t prefix = b"
  have "tenant_to_bucket t prefix \<noteq> []"
    using tenant_to_bucket_ok[OF assms(2-4), of t] by (auto simp: bucket_name_ok_def min_bucket_name_len_def)
  then show "bucket_to_tenant b registry prefix = Some t"
    using bucket_roundtrip[OF assms(1)] t by blast
qed

lemma bucket_tenant_roundtrip_witness:
  "bucket_to_tenant ''x-acme'' [''acme''] ''x-'' = Some ''acme'' \<longleftrightarrow>
   ''acme'' \<in> set [''acme''] \<and> ''acme'' \<noteq> [] \<and> tenant_to_bucket ''acme'' ''x-'' = ''x-acme''"
  by (rule bucket_tenant_roundtrip)
     (simp_all add: validate_registry_unique_def Let_def bucket_char_def is_digit_def max_bucket_name_len_def)

end
