(* ===== verification/Resolver.thy ===== *)
theory Resolver
  imports Tenancy
begin

text \<open>
  \<open>tenancy/resolver.py\<close>: which tenant and which team a request acts for. Headers are a
  lower-cased association list; the key's facts come from the authentication layer as
  arguments. SHA-256 (\<open>digest\<close>, the hexadecimal digest of a text) is a parameter. The
  lemmas show that the X-Tenant-ID header means nothing without the admin scope, X-Team
  nothing without the gateway flag, and that a team never adds a segment to a Redis key.
\<close>

section \<open>The tenant\<close>

definition normalise_tier :: "string \<Rightarrow> string" where
  "normalise_tier tier =
     (let t = py_lower (py_strip tier)
      in if t \<in> {''free'', ''enterprise''} then t else ''free'')"

type_synonym headers = "(string \<times> string) list"

definition header_or_empty :: "headers \<Rightarrow> string \<Rightarrow> string" where
  "header_or_empty hs k = (case dget hs k of None \<Rightarrow> [] | Some v \<Rightarrow> v)"

text \<open>A missing or empty string, which Python treats alike in a condition.\<close>

definition nonempty :: "string option \<Rightarrow> bool" where
  "nonempty s \<longleftrightarrow> (case s of None \<Rightarrow> False | Some x \<Rightarrow> x \<noteq> [])"

definition resolve_tenant ::
  "headers \<Rightarrow> string option \<Rightarrow> string \<Rightarrow> bool \<Rightarrow> string option
   \<Rightarrow> (string \<times> tenant_context) list \<Rightarrow> tenant_context" where
  "resolve_tenant hdrs key_tenant_id key_tier key_is_admin api_key_hash registry =
     (let tier = normalise_tier key_tier;
          header_tenant = py_strip (header_or_empty hdrs ''x-tenant-id'')
      in if header_tenant \<noteq> [] \<and> key_is_admin then for_tenant header_tenant tier
         else if nonempty key_tenant_id then for_tenant (the key_tenant_id) tier
         else if nonempty api_key_hash \<and> dget registry (the api_key_hash) \<noteq> None
              then the (dget registry (the api_key_hash))
         else default_context)"

definition register_tenant ::
  "string \<Rightarrow> tenant_context \<Rightarrow> (string \<times> tenant_context) list \<Rightarrow> (string \<times> tenant_context) list" where
  "register_tenant api_key_hash tc registry = dset api_key_hash tc registry"

definition clear_registry ::
  "(string \<times> tenant_context) list \<Rightarrow> (string \<times> tenant_context) list" where
  "clear_registry registry = []"

text \<open>Every context the resolver builds itself is in the shape of its tenant id.\<close>

definition context_ok :: "tenant_context \<Rightarrow> bool" where
  "context_ok tc \<longleftrightarrow>
     safe_id (tc_tenant_id tc) \<and> tc_redis_prefix tc = redis_prefix_of (tc_tenant_id tc) \<and>
     tc_config_overrides tc = []"

lemma context_ok_for_tenant: "context_ok (for_tenant t tier)"
  by (simp add: context_ok_def for_tenant_def Let_def sanitise_safe)

lemma context_ok_default: "context_ok default_context"
  by (simp add: context_ok_def default_context_def redis_prefix_of_def safe_default)

lemma normalise_tier_valid: "normalise_tier tier \<in> {''free'', ''enterprise''}"
  by (simp add: normalise_tier_def Let_def)

lemma resolve_tenant_ok:
  assumes "\<And>h tc. dget registry h = Some tc \<Longrightarrow> context_ok tc"
  shows "context_ok (resolve_tenant hdrs kt tier admin ah registry)"
  using assms context_ok_for_tenant context_ok_default
  by (auto simp: resolve_tenant_def Let_def)

lemma resolve_tenant_no_admin:
  "resolve_tenant hdrs kt tier False ah registry = resolve_tenant [] kt tier False ah registry"
  by (simp add: resolve_tenant_def Let_def)

lemma resolve_tenant_key:
  "t \<noteq> [] \<Longrightarrow> resolve_tenant hdrs (Some t) tier False ah registry = for_tenant t (normalise_tier tier)"
  by (simp add: resolve_tenant_def Let_def nonempty_def)

section \<open>The team\<close>

definition default_team :: string where
  "default_team = ''default''"

definition resolve_team :: "string option \<Rightarrow> bool \<Rightarrow> string" where
  "resolve_team header_team key_is_gateway =
     (if \<not> key_is_gateway then default_team
      else (let team = py_strip (case header_team of None \<Rightarrow> [] | Some t \<Rightarrow> t)
            in if team = [] then default_team else team))"

definition max_team_tag_chars :: nat where
  "max_team_tag_chars = 64"

definition team_char :: "char \<Rightarrow> bool" where
  "team_char c \<longleftrightarrow> is_ascii_alnum c \<or> c = CHR ''-'' \<or> c = CHR ''_'' \<or> c = CHR ''.''"

definition team_tag :: "(string \<Rightarrow> string) \<Rightarrow> string \<Rightarrow> string" where
  "team_tag digest team =
     (if 0 < length team \<and> length team \<le> max_team_tag_chars \<and> list_all team_char team
      then team else ''h-'' @ take 16 (digest team))"

definition hex_char :: "char \<Rightarrow> bool" where
  "hex_char c \<longleftrightarrow>
     is_digit c \<or> (97 \<le> (of_char c :: nat) \<and> (of_char c :: nat) \<le> 102)"

lemma hex_char_team: "hex_char c \<Longrightarrow> team_char c"
  by (auto simp: hex_char_def team_char_def is_ascii_alnum_def is_ascii_alpha_def)

lemma team_char_no_colon: "\<not> team_char CHR '':''"
  by (simp add: team_char_def is_ascii_alnum_def is_ascii_alpha_def is_digit_def)

lemma team_tag_chars:
  assumes "\<And>s. list_all hex_char (digest s)"
  shows "list_all team_char (team_tag digest team)"
proof -
  have "team_char c" if "c \<in> set (take 16 (digest team))" for c
    using assms[of team] that hex_char_team by (auto simp: list_all_iff dest: in_set_takeD)
  moreover have "team_char CHR ''h''" "team_char CHR ''-''"
    by (simp_all add: team_char_def is_ascii_alnum_def is_ascii_alpha_def)
  ultimately show ?thesis by (auto simp: team_tag_def list_all_iff)
qed

lemma team_tag_no_colon:
  "(\<And>s. list_all hex_char (digest s)) \<Longrightarrow> CHR '':'' \<notin> set (team_tag digest team)"
  using team_tag_chars[of digest team] team_char_no_colon by (auto simp: list_all_iff)

section \<open>The stamped identity\<close>

text \<open>
  The facts \<open>main._serve_core\<close> records for every key in \<open>ctx.params\<close>: the gateway flag,
  the principal and the tenant of the key.
\<close>

record key_facts =
  auth_gateway :: bool
  auth_principal :: "string option"
  auth_tenant_id :: "string option"

record caller_identity =
  ci_is_gateway :: bool
  ci_principal :: string
  ci_team :: string

definition str_or :: "string option \<Rightarrow> string \<Rightarrow> string" where
  "str_or s d = (if nonempty s then the s else d)"

definition apply_caller_identity :: "key_facts \<Rightarrow> string \<Rightarrow> headers \<Rightarrow> caller_identity" where
  "apply_caller_identity kf user_id hdrs =
     \<lparr>ci_is_gateway = auth_gateway kf,
      ci_principal = str_or (auth_principal kf) (str_or (auth_tenant_id kf) user_id),
      ci_team = resolve_team (dget hdrs ''x-team'') (auth_gateway kf)\<rparr>"

lemma caller_identity_no_gateway:
  "\<not> auth_gateway kf \<Longrightarrow> nonempty (auth_principal kf) \<or> nonempty (auth_tenant_id kf) \<Longrightarrow>
   apply_caller_identity kf user_id hdrs = apply_caller_identity kf user_id' []"
  by (auto simp: apply_caller_identity_def resolve_team_def str_or_def)

section \<open>Properties\<close>

text \<open>
  Without the admin scope no request header selects the tenant, and a key bound to a tenant acts
  for that tenant: the context is well formed and its namespace is the key's own.
\<close>

lemma tenant_from_key_only:
  assumes "\<And>h tc. dget registry h = Some tc \<Longrightarrow> context_ok tc"
  shows "resolve_tenant hdrs key_tenant tier False ah registry =
         resolve_tenant hdrs' key_tenant tier False ah registry \<and>
         (\<forall>t. key_tenant = Some t \<and> t \<noteq> [] \<longrightarrow>
            tc_tenant_id (resolve_tenant hdrs key_tenant tier False ah registry) = sanitise_tenant_id t) \<and>
         context_ok (resolve_tenant hdrs key_tenant tier admin ah registry)"
proof -
  have "resolve_tenant hdrs key_tenant tier False ah registry =
        resolve_tenant hdrs' key_tenant tier False ah registry"
    using resolve_tenant_no_admin by metis
  then show ?thesis
    using resolve_tenant_ok[OF assms] resolve_tenant_key by (auto simp: for_tenant_def Let_def)
qed

lemma tenant_from_key_only_witness:
  "tc_tenant_id (resolve_tenant [(''x-tenant-id'', ''victim'')] (Some ''acme'') ''free'' False None []) =
   sanitise_tenant_id ''acme''"
  using tenant_from_key_only[of "[]" "[(''x-tenant-id'', ''victim'')]" "Some ''acme''" "''free''" None
      "[(''x-tenant-id'', ''victim'')]" False]
  by simp

text \<open>
  Without the gateway flag the X-Team header is ignored, and whatever the team is, its tag in a
  Redis key adds no separator, so a team never reaches another namespace. A hexadecimal
  digest is all that is asked of SHA-256.
\<close>

lemma team_never_splits_a_key:
  assumes "\<And>s. list_all hex_char (digest s)"
  shows "CHR '':'' \<notin> set (team_tag digest team) \<and> resolve_team header_team False = default_team \<and>
         (\<not> auth_gateway kf \<longrightarrow>
            ci_team (apply_caller_identity kf user hdrs) = default_team \<and>
            ci_principal (apply_caller_identity kf user hdrs) = ci_principal (apply_caller_identity kf user []))"
  using team_tag_no_colon[of digest team] assms by (simp add: resolve_team_def apply_caller_identity_def)

lemma team_never_splits_a_key_witness:
  "CHR '':'' \<notin> set (team_tag (\<lambda>_. ''00ff'') ''a:b'')"
  using team_never_splits_a_key[of "\<lambda>_. ''00ff''"] by (simp add: hex_char_def is_digit_def)

end
