(* ===== verification/Trial.thy ===== *)
theory Trial
  imports Py_Prelude
begin

text \<open>
  \<open>trial.py\<close>: the effective view of a tenant's free trial. Times are seconds since the epoch
  in UTC; \<open>datetime.fromisoformat\<close> followed by the conversion to UTC is the parameter
  \<open>fromiso\<close>, and an \<open>expires_at\<close> is the instant, not its text. The lemmas say exactly when
  a trial is expired, that a malformed start date never lifts the request limit, that the
  percentages and remainders stay in range and that expiry is not undone by time or use.
\<close>

definition warn80 :: rat where "warn80 = 80"

definition warn90 :: rat where "warn90 = 90"

definition parse_started_at :: "(string \<Rightarrow> rat option) \<Rightarrow> pyval \<Rightarrow> rat option" where
  "parse_started_at fromiso value =
     (case value of PStr s \<Rightarrow> if s = [] then None else fromiso s | _ \<Rightarrow> None)"

text \<open>\<open>_int\<close>: 0 for anything \<open>int()\<close> refuses.\<close>

definition int_or_zero :: "pyval \<Rightarrow> int" where
  "int_or_zero v = (case py_int v of None \<Rightarrow> 0 | Some i \<Rightarrow> i)"

record trial_numbers =
  tn_status :: string
  tn_days :: int
  tn_max_requests :: int
  tn_generation :: int
  tn_requests_used :: int
  tn_expires_at :: "rat option"
  tn_days_remaining :: "rat option"
  tn_requests_remaining :: "int option"
  tn_pct_days :: rat
  tn_pct_requests :: rat
  tn_pct_used :: rat
  tn_dimension :: string
  tn_warn_level :: string
  tn_valid :: bool

datatype trial_view =
    Ungated pyval
  | Cancelled_Trial int int int int
  | Trial_View trial_numbers

text \<open>The day dimension: percentage, days left, expired, the expiry instant.\<close>

definition day_dimension :: "rat option \<Rightarrow> int \<Rightarrow> rat \<Rightarrow> rat \<times> rat option \<times> bool \<times> rat option" where
  "day_dimension started_at days now =
     (case started_at of
        Some s \<Rightarrow>
          if days > 0
          then (let elapsed = max 0 (now - s); total = of_int days * 86400
                in (min 100 (100 * elapsed / total), Some (max 0 ((total - elapsed) / 86400)),
                    elapsed \<ge> total, Some (s + of_int days * 86400)))
          else (0, None, False, None)
      | None \<Rightarrow> (0, None, False, None))"

text \<open>The request dimension: percentage, requests left, expired.\<close>

definition request_dimension :: "int \<Rightarrow> int \<Rightarrow> rat \<times> int option \<times> bool" where
  "request_dimension requests_used max_requests =
     (if max_requests > 0
      then (min 100 (100 * of_int requests_used / of_int max_requests),
            Some (max 0 (max_requests - requests_used)), requests_used \<ge> max_requests)
      else (0, None, False))"

definition trial_summary ::
  "(string \<Rightarrow> rat option) \<Rightarrow> pydict \<Rightarrow> int \<Rightarrow> rat \<Rightarrow> trial_view" where
  "trial_summary fromiso trial requests_used now =
     (let raw_status = py_or (dget_or trial ''status'' PNone) (PStr ''none'')
      in if raw_status \<notin> {PStr ''active'', PStr ''cancelled''} then Ungated raw_status
         else
           (let days = int_or_zero (dget_or trial ''days'' PNone);
                max_requests = int_or_zero (dget_or trial ''max_requests'' PNone);
                generation = int_or_zero (dget_or trial ''generation'' PNone);
                used = max 0 requests_used
            in if raw_status = PStr ''cancelled''
               then Cancelled_Trial days max_requests generation used
               else
                 (let started_at = parse_started_at fromiso (dget_or trial ''started_at'' PNone)
                  in case day_dimension started_at days now of
                       (pct_days, days_remaining, expired_days, expires_at) \<Rightarrow>
                     (case request_dimension used max_requests of
                        (pct_requests, requests_remaining, expired_requests) \<Rightarrow>
                       (let expired = expired_days \<or> expired_requests;
                            dimension =
                              (if expired then (if expired_days then ''days'' else ''requests'')
                               else if pct_days \<ge> pct_requests then ''days'' else ''requests'');
                            pct_used = max pct_days pct_requests;
                            warn_level =
                              (if expired then ''expired''
                               else if pct_used \<ge> warn90 then ''warn90''
                               else if pct_used \<ge> warn80 then ''warn80'' else ''none'')
                        in Trial_View
                             \<lparr>tn_status = (if expired then ''expired'' else ''active''),
                              tn_days = days, tn_max_requests = max_requests,
                              tn_generation = generation, tn_requests_used = used,
                              tn_expires_at = expires_at,
                              tn_days_remaining = map_option (py_round 2) days_remaining,
                              tn_requests_remaining = requests_remaining,
                              tn_pct_days = py_round 1 pct_days,
                              tn_pct_requests = py_round 1 pct_requests,
                              tn_pct_used = py_round 1 pct_used,
                              tn_dimension = dimension, tn_warn_level = warn_level,
                              tn_valid = (started_at \<noteq> None)\<rparr>)))))"

section \<open>When a trial is expired\<close>

definition days_over :: "(string \<Rightarrow> rat option) \<Rightarrow> pydict \<Rightarrow> rat \<Rightarrow> bool" where
  "days_over fromiso trial now \<longleftrightarrow>
     (case parse_started_at fromiso (dget_or trial ''started_at'' PNone) of
        None \<Rightarrow> False
      | Some s \<Rightarrow> 0 < int_or_zero (dget_or trial ''days'' PNone) \<and>
                 of_int (int_or_zero (dget_or trial ''days'' PNone)) * 86400 \<le> now - s)"

definition requests_over :: "pydict \<Rightarrow> int \<Rightarrow> bool" where
  "requests_over trial used \<longleftrightarrow>
     0 < int_or_zero (dget_or trial ''max_requests'' PNone) \<and>
     int_or_zero (dget_or trial ''max_requests'' PNone) \<le> used"

lemma active_view:
  assumes "dget_or trial ''status'' PNone = PStr ''active''"
  shows "\<exists>v. trial_summary fromiso trial used now = Trial_View v"
  using assms by (simp add: trial_summary_def py_or_def Let_def split: prod.split)

lemma day_dimension_expired:
  "fst (snd (snd (day_dimension started days now))) \<longleftrightarrow>
     (case started of None \<Rightarrow> False | Some s \<Rightarrow> 0 < days \<and> of_int days * 86400 \<le> now - s)"
  by (auto simp: day_dimension_def Let_def max_def split: option.splits)

lemma request_dimension_expired:
  "snd (snd (request_dimension used mx)) \<longleftrightarrow> 0 < mx \<and> mx \<le> used"
  by (simp add: request_dimension_def)

lemma trial_expired_iff:
  assumes "dget_or trial ''status'' PNone = PStr ''active''"
    and "trial_summary fromiso trial used now = Trial_View v"
  shows "tn_status v = ''expired'' \<longleftrightarrow> days_over fromiso trial now \<or> requests_over trial used"
proof -
  let ?d = "day_dimension (parse_started_at fromiso (dget_or trial ''started_at'' PNone))
              (int_or_zero (dget_or trial ''days'' PNone)) now"
  let ?r = "request_dimension (max 0 used) (int_or_zero (dget_or trial ''max_requests'' PNone))"
  have "tn_status v = ''expired'' \<longleftrightarrow> fst (snd (snd ?d)) \<or> snd (snd ?r)"
    using assms by (auto simp: trial_summary_def py_or_def Let_def split: prod.splits if_splits)
  then show ?thesis
    by (auto simp: day_dimension_expired request_dimension_expired days_over_def requests_over_def
             split: option.splits)
qed

lemma day_dimension_range:
  "0 \<le> fst (day_dimension s d now) \<and> fst (day_dimension s d now) \<le> 100 \<and>
   (\<forall>r. fst (snd (day_dimension s d now)) = Some r \<longrightarrow> 0 \<le> r)"
  by (auto simp: day_dimension_def Let_def split: option.splits)

lemma request_dimension_range:
  "0 \<le> used \<Longrightarrow>
   0 \<le> fst (request_dimension used mx) \<and> fst (request_dimension used mx) \<le> 100 \<and>
   (\<forall>r. fst (snd (request_dimension used mx)) = Some r \<longrightarrow> 0 \<le> r \<and> r \<le> mx)"
  by (auto simp: request_dimension_def)

lemma py_round_pct: "0 \<le> x \<Longrightarrow> x \<le> 100 \<Longrightarrow> 0 \<le> py_round n x \<and> py_round n x \<le> 100"
  using py_round_bounds[of 0 x 100] by simp


lemma trial_view_range:
  assumes "trial_summary fromiso trial used now = Trial_View v"
  shows "tn_pct_days v \<in> {0..100} \<and> tn_pct_requests v \<in> {0..100} \<and> tn_pct_used v \<in> {0..100} \<and>
         (\<forall>r. tn_requests_remaining v = Some r \<longrightarrow> 0 \<le> r \<and> r \<le> tn_max_requests v) \<and>
         (\<forall>r. tn_days_remaining v = Some r \<longrightarrow> 0 \<le> r)"
proof -
  let ?s = "parse_started_at fromiso (dget_or trial ''started_at'' PNone)"
  let ?n = "int_or_zero (dget_or trial ''days'' PNone)"
  let ?m = "int_or_zero (dget_or trial ''max_requests'' PNone)"
  obtain pd dr ed ea where d: "day_dimension ?s ?n now = (pd, dr, ed, ea)" by (metis prod_cases4)
  obtain pr rr er where r: "request_dimension (max 0 used) ?m = (pr, rr, er)" by (metis prod_cases3)
  have v: "tn_pct_days v = py_round 1 pd" "tn_pct_requests v = py_round 1 pr"
    "tn_pct_used v = py_round 1 (max pd pr)" "tn_requests_remaining v = rr"
    "tn_max_requests v = ?m" "tn_days_remaining v = map_option (py_round 2) dr"
    using assms d r by (auto simp: trial_summary_def Let_def split: if_splits)
  have pd: "0 \<le> pd" "pd \<le> 100" and dr: "\<And>q. dr = Some q \<Longrightarrow> 0 \<le> q"
    using day_dimension_range[of ?s ?n now] d by auto
  have pr: "0 \<le> pr" "pr \<le> 100" and rr: "\<And>q. rr = Some q \<Longrightarrow> 0 \<le> q \<and> q \<le> ?m"
    using request_dimension_range[of "max 0 used" ?m] r by auto
  have "0 \<le> py_round 2 q" if "0 \<le> q" for q
    using that round_half_even_lower[of 0 "q * 10 ^ 2"] by (simp add: py_round_def)
  then show ?thesis
    using v pd pr dr rr py_round_pct[of pd 1] py_round_pct[of pr 1] py_round_pct[of "max pd pr" 1]
    by (auto simp: max_def split: if_splits)
qed

lemma days_over_mono: "days_over fromiso trial now \<Longrightarrow> now \<le> now' \<Longrightarrow> days_over fromiso trial now'"
  by (auto simp: days_over_def split: option.splits)

lemma requests_over_mono: "requests_over trial used \<Longrightarrow> used \<le> used' \<Longrightarrow> requests_over trial used'"
  by (auto simp: requests_over_def)

section \<open>Properties\<close>

text \<open>
  An active trial is reported as expired exactly when its days have passed or its requests are used;
  a start date that cannot be read never lifts the request limit.
\<close>

lemma trial_expired_exactly:
  assumes "dget_or trial ''status'' PNone = PStr ''active''"
  shows "\<exists>v. trial_summary fromiso trial used now = Trial_View v \<and>
             (tn_status v = ''expired'' \<longleftrightarrow> days_over fromiso trial now \<or> requests_over trial used)"
  using active_view[OF assms] trial_expired_iff[OF assms] by blast

definition sample_trial :: pydict where
  "sample_trial = [(''status'', PStr ''active''), (''days'', PInt 14), (''max_requests'', PInt 100),
     (''started_at'', PStr ''garbage'')]"

lemma trial_expired_exactly_witness:
  "\<exists>v. trial_summary (\<lambda>_. None) sample_trial 100 0 = Trial_View v \<and> tn_status v = ''expired''"
  using trial_expired_exactly[of sample_trial "\<lambda>_. None" 100 0]
  by (auto simp: sample_trial_def dget_or_def requests_over_def int_or_zero_def)

text \<open>
  The reported percentages stay between 0 and 100, the requests left between 0 and the maximum, the
  days left are never negative, and an expired trial stays expired as time passes and requests are used.
\<close>

lemma trial_view_in_range:
  assumes "trial_summary fromiso trial used now = Trial_View v"
  shows "tn_pct_days v \<in> {0..100} \<and> tn_pct_requests v \<in> {0..100} \<and> tn_pct_used v \<in> {0..100} \<and>
         (\<forall>r. tn_requests_remaining v = Some r \<longrightarrow> 0 \<le> r \<and> r \<le> tn_max_requests v) \<and>
         (\<forall>r. tn_days_remaining v = Some r \<longrightarrow> 0 \<le> r) \<and>
         (\<forall>now' used' v'. now \<le> now' \<and> used \<le> used' \<and> tn_status v = ''expired'' \<and>
            trial_summary fromiso trial used' now' = Trial_View v' \<longrightarrow> tn_status v' = ''expired'')"
proof -
  have act: "dget_or trial ''status'' PNone = PStr ''active''"
    using assms
    by (auto simp: trial_summary_def py_or_def Let_def split: if_splits)
  show ?thesis
    using trial_view_range[OF assms] trial_expired_iff[OF act assms] trial_expired_iff[OF act]
      days_over_mono requests_over_mono by blast
qed

lemma trial_view_in_range_witness:
  "\<exists>v. trial_summary (\<lambda>_. None) sample_trial 40 0 = Trial_View v \<and> tn_pct_used v \<in> {0..100}"
  using active_view[of sample_trial "\<lambda>_. None" 40 0] trial_view_in_range[of "\<lambda>_. None" sample_trial 40 0]
  by (auto simp: sample_trial_def dget_or_def)

end
