(* ===== verification/Token_Bucket.thy ===== *)
theory Token_Bucket
  imports Py_Prelude
begin

text \<open>
  The token buckets of \<open>middleware/g00_rate_limit.py\<close>: the Lua script that takes one request
  from the minute and the hour window in one step, and the read-modify-write fallback. A bucket
  is a pair of tokens and last refill; it expires \<open>bucket_ttl\<close> seconds after its last write.
  The interface of a single window is the locale \<open>token_bucket\<close>; what is proved in it (no more
  requests are admitted in a period than the capacity and the refill of that period) holds for
  both implementations. Redis stores the numbers as text; that rounding is not modelled.
\<close>

type_synonym bucket = "rat \<times> rat"
type_synonym buckets = "(string \<times> bucket) list"

definition bucket_ttl :: rat where
  "bucket_ttl = 3600"

text \<open>What a read at \<open>now\<close> finds.\<close>

definition live :: "rat \<Rightarrow> bucket option \<Rightarrow> bucket option" where
  "live now b =
     (case b of None \<Rightarrow> None | Some (tokens, filled) \<Rightarrow> if now - filled \<ge> bucket_ttl then None else b)"

section \<open>The script\<close>

text \<open>The local function \<open>level\<close>.\<close>

definition lua_level :: "rat \<Rightarrow> rat \<Rightarrow> bucket option \<Rightarrow> rat \<Rightarrow> rat" where
  "lua_level cap rate b now =
     (case b of
        None \<Rightarrow> cap
      | Some (tokens, filled) \<Rightarrow>
          (let elapsed = now - filled; elapsed = (if elapsed < 0 then 0 else elapsed)
           in min cap (tokens + elapsed * rate)))"

definition bucket_script ::
  "buckets \<Rightarrow> string \<Rightarrow> string \<Rightarrow> rat \<Rightarrow> rat \<Rightarrow> rat \<Rightarrow> rat \<Rightarrow> rat \<Rightarrow> nat \<times> buckets" where
  "bucket_script bs key_m key_h now cap_m rate_m cap_h rate_h =
     (let tm = lua_level cap_m rate_m (live now (dget bs key_m)) now;
          th = lua_level cap_h rate_h (live now (dget bs key_h)) now;
          verdict = (if tm < 1 then 1 else if th < 1 then 2 else 0);
          tm = (if verdict = 0 then tm - 1 else tm);
          th = (if verdict = 0 then th - 1 else th)
      in (verdict, dset key_h (th, now) (dset key_m (tm, now) bs)))"

section \<open>The fallback\<close>

definition fallback_level :: "rat \<Rightarrow> rat \<Rightarrow> bucket option \<Rightarrow> rat \<Rightarrow> rat" where
  "fallback_level cap rate b now =
     (case b of None \<Rightarrow> cap | Some (tokens, filled) \<Rightarrow> min cap (tokens + (now - filled) * rate))"

definition check_token_bucket ::
  "buckets \<Rightarrow> string \<Rightarrow> rat \<Rightarrow> rat \<Rightarrow> rat \<Rightarrow> bool \<times> buckets" where
  "check_token_bucket bs key cap rate now =
     (let tokens = fallback_level cap rate (live now (dget bs key)) now
      in if tokens \<ge> 1 then (True, dset key (tokens - 1, now) bs)
         else (False, dset key (tokens, now) bs))"

section \<open>One window\<close>

text \<open>A history of one window: the time of each request and whether it took a token.\<close>

fun admits :: "('b \<Rightarrow> rat \<Rightarrow> rat) \<Rightarrow> ('b \<Rightarrow> rat \<Rightarrow> bool \<Rightarrow> 'b) \<Rightarrow> 'b \<Rightarrow> (rat \<times> bool) list \<Rightarrow> bool" where
  "admits level step b [] = True"
| "admits level step b ((t, a) # xs) \<longleftrightarrow> (a \<longrightarrow> 1 \<le> level b t) \<and> admits level step (step b t a) xs"

definition taken :: "(rat \<times> bool) list \<Rightarrow> nat" where
  "taken xs = length (filter snd xs)"

locale token_bucket =
  fixes level :: "'b \<Rightarrow> rat \<Rightarrow> rat"
    and step :: "'b \<Rightarrow> rat \<Rightarrow> bool \<Rightarrow> 'b"
    and good :: "'b \<Rightarrow> rat \<Rightarrow> bool"
    and cap :: rat
    and rate :: rat
  assumes level_le_cap: "level b t \<le> cap"
    and level_nonneg: "good b t \<Longrightarrow> 0 \<le> level b t"
    and good_step: "good b t \<Longrightarrow> (a \<Longrightarrow> 1 \<le> level b t) \<Longrightarrow> t \<le> t' \<Longrightarrow> good (step b t a) t'"
    and level_step: "good b t \<Longrightarrow> (a \<Longrightarrow> 1 \<le> level b t) \<Longrightarrow> t \<le> t' \<Longrightarrow>
      level (step b t a) t' \<le> level b t - (if a then 1 else 0) + (t' - t) * rate"
begin

lemma taken_le_level:
  "good b t \<Longrightarrow> admits level step b ((t, a) # xs) \<Longrightarrow> sorted (map fst ((t, a) # xs)) \<Longrightarrow>
   of_nat (taken ((t, a) # xs)) \<le> level b t + (fst (last ((t, a) # xs)) - t) * rate"
proof (induction xs arbitrary: b t a)
  case Nil
  then show ?case using level_nonneg[of b t] by (simp add: taken_def)
next
  case (Cons x xs)
  obtain t' a' where x: "x = (t', a')" by fastforce
  have tt: "t \<le> t'" using Cons.prems(3) x by simp
  have good': "good (step b t a) t'"
    using Cons.prems(1,2) tt by (intro good_step) auto
  have adm: "admits level step (step b t a) ((t', a') # xs)"
    using Cons.prems(2) x by simp
  have srt: "sorted (map fst ((t', a') # xs))" using Cons.prems(3) x by simp
  let ?l = "fst (last ((t', a') # xs))"
  have "of_nat (taken ((t', a') # xs)) \<le> level (step b t a) t' + (?l - t') * rate"
    using Cons.IH[OF good' adm srt] .
  also have "\<dots> \<le> level b t - (if a then 1 else 0) + (t' - t) * rate + (?l - t') * rate"
    using level_step[of b t a t'] Cons.prems(1,2) tt by simp
  also have "\<dots> = level b t - (if a then 1 else 0) + (?l - t) * rate"
    by (simp add: algebra_simps)
  finally have "of_nat (taken ((t', a') # xs)) \<le> level b t - (if a then 1 else 0) + (?l - t) * rate" .
  moreover have "of_nat (taken ((t, a) # x # xs)) = of_nat (taken ((t', a') # xs)) + (if a then 1 else (0::rat))"
    by (simp add: taken_def x)
  moreover have "last ((t, a) # x # xs) = last ((t', a') # xs)" by (simp add: x)
  ultimately show ?case by simp
qed

lemma taken_bound:
  assumes "good b t" and "admits level step b ((t, a) # xs)" and "sorted (map fst ((t, a) # xs))"
  shows "of_nat (taken ((t, a) # xs)) \<le> cap + (fst (last ((t, a) # xs)) - t) * rate"
  using taken_le_level[OF assms] level_le_cap[of b t] by linarith

end

text \<open>
  A bucket untouched for \<open>bucket_ttl\<close> seconds has refilled, so its expiry is not observable
  when the refill of that time covers the capacity.
\<close>

lemma expiry_unobservable:
  assumes "0 \<le> tokens" and "cap \<le> bucket_ttl * rate" and "0 \<le> rate"
  shows "lua_level cap rate (live now (Some (tokens, filled))) now =
         lua_level cap rate (Some (tokens, filled)) now"
proof (cases "now - filled \<ge> bucket_ttl")
  case True
  have "bucket_ttl * rate \<le> (now - filled) * rate"
    using True assms(3) by (rule mult_right_mono)
  then have "cap \<le> tokens + (now - filled) * rate" using assms(1,2) by linarith
  then show ?thesis using True by (simp add: live_def lua_level_def bucket_ttl_def)
next
  case False
  then show ?thesis by (simp add: live_def)
qed

section \<open>Both implementations are token buckets\<close>

definition lua_window :: "rat \<Rightarrow> rat \<Rightarrow> bucket option \<Rightarrow> rat \<Rightarrow> rat" where
  "lua_window cap rate b t = lua_level cap rate (live t b) t"

definition lua_step :: "rat \<Rightarrow> rat \<Rightarrow> bucket option \<Rightarrow> rat \<Rightarrow> bool \<Rightarrow> bucket option" where
  "lua_step cap rate b t a = Some (lua_window cap rate b t - (if a then 1 else 0), t)"

definition lua_good :: "rat \<Rightarrow> rat \<Rightarrow> bucket option \<Rightarrow> rat \<Rightarrow> bool" where
  "lua_good cap rate b t \<longleftrightarrow>
     0 \<le> cap \<and> 0 \<le> rate \<and> cap \<le> bucket_ttl * rate \<and>
     (case b of None \<Rightarrow> True | Some (tokens, filled) \<Rightarrow> 0 \<le> tokens)"

definition fallback_window :: "rat \<Rightarrow> rat \<Rightarrow> bucket option \<Rightarrow> rat \<Rightarrow> rat" where
  "fallback_window cap rate b t = fallback_level cap rate (live t b) t"

definition fallback_step :: "rat \<Rightarrow> rat \<Rightarrow> bucket option \<Rightarrow> rat \<Rightarrow> bool \<Rightarrow> bucket option" where
  "fallback_step cap rate b t a = Some (fallback_window cap rate b t - (if a then 1 else 0), t)"

text \<open>The fallback does not clamp a clock that ran backwards, so it needs the last refill past.\<close>

definition fallback_good :: "rat \<Rightarrow> rat \<Rightarrow> bucket option \<Rightarrow> rat \<Rightarrow> bool" where
  "fallback_good cap rate b t \<longleftrightarrow>
     lua_good cap rate b t \<and> (case b of None \<Rightarrow> True | Some (tokens, filled) \<Rightarrow> filled \<le> t)"

lemma fallback_window_eq:
  "fallback_good cap rate b t \<Longrightarrow> fallback_window cap rate b t = lua_window cap rate b t"
  by (auto simp: fallback_good_def fallback_window_def lua_window_def fallback_level_def
      lua_level_def live_def Let_def split: option.splits)

lemma lua_window_cap: "lua_window cap rate b t \<le> cap"
  by (auto simp: lua_window_def lua_level_def Let_def split: option.splits)

lemma lua_window_nonneg: "lua_good cap rate b t \<Longrightarrow> 0 \<le> lua_window cap rate b t"
  by (auto simp: lua_good_def lua_window_def lua_level_def live_def Let_def
      split: option.splits if_splits)

lemma lua_good_step:
  "lua_good cap rate b t \<Longrightarrow> (a \<Longrightarrow> 1 \<le> lua_window cap rate b t) \<Longrightarrow> lua_good cap rate (lua_step cap rate b t a) t'"
  using lua_window_nonneg[of cap rate b t] by (auto simp: lua_good_def lua_step_def)

lemma lua_window_step:
  assumes g: "lua_good cap rate b t" and a: "a \<Longrightarrow> 1 \<le> lua_window cap rate b t" and tt: "t \<le> t'"
  shows "lua_window cap rate (lua_step cap rate b t a) t' \<le>
         lua_window cap rate b t - (if a then 1 else 0) + (t' - t) * rate"
proof -
  let ?x = "lua_window cap rate b t - (if a then 1 else 0)"
  have x: "0 \<le> ?x" using lua_window_nonneg[OF g] a by auto
  have "lua_window cap rate (Some (?x, t)) t' = lua_level cap rate (Some (?x, t)) t'"
    unfolding lua_window_def[of cap rate "Some (?x, t)"]
    using expiry_unobservable[OF x] g by (auto simp: lua_good_def)
  also have "\<dots> \<le> ?x + (t' - t) * rate" using tt by (simp add: lua_level_def)
  finally show ?thesis by (simp add: lua_step_def)
qed

interpretation lua: token_bucket "lua_window cap rate" "lua_step cap rate" "lua_good cap rate" cap rate
  for cap rate
  by unfold_locales (blast intro: lua_window_cap lua_window_nonneg lua_good_step lua_window_step)+

lemma fallback_step_eq:
  "fallback_good cap rate b t \<Longrightarrow> fallback_step cap rate b t a = lua_step cap rate b t a"
  by (simp add: fallback_step_def lua_step_def fallback_window_eq)

lemma fallback_good_lua: "fallback_good cap rate b t \<Longrightarrow> lua_good cap rate b t"
  by (simp add: fallback_good_def)

lemma fallback_good_step:
  assumes "fallback_good cap rate b t" "a \<Longrightarrow> 1 \<le> fallback_window cap rate b t" "t \<le> t'"
  shows "fallback_good cap rate (fallback_step cap rate b t a) t'"
proof -
  have "lua_good cap rate (lua_step cap rate b t a) t'"
    using assms by (intro lua_good_step) (auto simp: fallback_good_lua fallback_window_eq)
  then show ?thesis
    unfolding fallback_step_eq[OF assms(1)] fallback_good_def using assms(3) by (simp add: lua_step_def)
qed

interpretation fallback: token_bucket "\<lambda>b t. min cap (fallback_window cap rate b t)"
  "fallback_step cap rate" "fallback_good cap rate" cap rate
  for cap rate
proof unfold_locales
  fix b t show "min cap (fallback_window cap rate b t) \<le> cap" by simp
next
  fix b t assume "fallback_good cap rate b t"
  then show "0 \<le> min cap (fallback_window cap rate b t)"
    using lua_window_nonneg[of cap rate b t]
    by (auto simp: fallback_window_eq fallback_good_def lua_good_def)
next
  fix b t a t'
  assume "fallback_good cap rate b t" "a \<Longrightarrow> 1 \<le> min cap (fallback_window cap rate b t)" "t \<le> t'"
  then show "fallback_good cap rate (fallback_step cap rate b t a) t'"
    by (intro fallback_good_step) auto
next
  fix b t a t'
  assume g: "fallback_good cap rate b t" and a: "a \<Longrightarrow> 1 \<le> min cap (fallback_window cap rate b t)"
    and tt: "t \<le> t'"
  have g': "fallback_good cap rate (fallback_step cap rate b t a) t'"
    using g a tt by (intro fallback_good_step) auto
  have "lua_window cap rate (lua_step cap rate b t a) t' \<le>
        lua_window cap rate b t - (if a then 1 else 0) + (t' - t) * rate"
    using g a tt by (intro lua_window_step) (auto simp: fallback_good_lua fallback_window_eq)
  then show "min cap (fallback_window cap rate (fallback_step cap rate b t a) t') \<le>
        min cap (fallback_window cap rate b t) - (if a then 1 else 0) + (t' - t) * rate"
    using fallback_window_eq[OF g] fallback_window_eq[OF g'] fallback_step_eq[OF g]
      lua_window_cap[of cap rate b t] by auto
qed

section \<open>Runs of the script\<close>

fun run_script ::
  "string \<Rightarrow> string \<Rightarrow> rat \<Rightarrow> rat \<Rightarrow> rat \<Rightarrow> rat \<Rightarrow> buckets \<Rightarrow> rat list \<Rightarrow> nat list" where
  "run_script km kh cm rm ch rh bs [] = []"
| "run_script km kh cm rm ch rh bs (t # ts) =
     (case bucket_script bs km kh t cm rm ch rh of
        (v, bs') \<Rightarrow> v # run_script km kh cm rm ch rh bs' ts)"

lemma bucket_script_verdict:
  assumes "bucket_script bs km kh t cm rm ch rh = (v, bs')"
  shows "v = 0 \<longleftrightarrow> 1 \<le> lua_window cm rm (dget bs km) t \<and> 1 \<le> lua_window ch rh (dget bs kh) t"
    and "v = 1 \<longleftrightarrow> lua_window cm rm (dget bs km) t < 1"
    and "v = 2 \<longleftrightarrow> 1 \<le> lua_window cm rm (dget bs km) t \<and> lua_window ch rh (dget bs kh) t < 1"
    and "v \<le> 2"
  using assms by (auto simp: bucket_script_def lua_window_def Let_def split: if_splits)

lemma bucket_script_state:
  assumes "bucket_script bs km kh t cm rm ch rh = (v, bs')" and "km \<noteq> kh"
  shows "dget bs' km = lua_step cm rm (dget bs km) t (v = 0)"
    and "dget bs' kh = lua_step ch rh (dget bs kh) t (v = 0)"
    and "k \<noteq> km \<Longrightarrow> k \<noteq> kh \<Longrightarrow> dget bs' k = dget bs k"
  using assms
  by (auto simp: bucket_script_def lua_step_def lua_window_def Let_def pd.lookup_put split: if_splits)

lemma run_script_admits:
  assumes "km \<noteq> kh"
  shows "admits (lua_window cm rm) (lua_step cm rm) (dget bs km)
           (zip ts (map (\<lambda>v. v = 0) (run_script km kh cm rm ch rh bs ts))) \<and>
         admits (lua_window ch rh) (lua_step ch rh) (dget bs kh)
           (zip ts (map (\<lambda>v. v = 0) (run_script km kh cm rm ch rh bs ts)))"
proof (induction ts arbitrary: bs)
  case Nil
  then show ?case by simp
next
  case (Cons t ts)
  obtain v bs' where s: "bucket_script bs km kh t cm rm ch rh = (v, bs')" by fastforce
  show ?case
    using Cons.IH[of bs'] bucket_script_state(1,2)[OF s assms] bucket_script_verdict(1)[OF s]
    by (simp add: s)
qed

lemma length_run_script [simp]: "length (run_script km kh cm rm ch rh bs ts) = length ts"
  by (induction ts arbitrary: bs) (auto split: prod.splits)

lemma taken_zip:
  "length ts = length vs \<Longrightarrow> taken (zip ts (map (\<lambda>v. v = 0) vs)) = length (filter (\<lambda>v. v = (0::nat)) vs)"
  by (induction ts vs rule: list_induct2) (auto simp: taken_def)

lemma run_script_bound:
  assumes k: "km \<noteq> kh" and good: "lua_good cap rate b t" and s: "sorted (t # ts)"
    and w: "cap = cm \<and> rate = rm \<and> b = dget bs km \<or> cap = ch \<and> rate = rh \<and> b = dget bs kh"
  shows "of_nat (length (filter (\<lambda>v. v = 0) (run_script km kh cm rm ch rh bs (t # ts)))) \<le>
         cap + (last (t # ts) - t) * rate"
proof -
  let ?vs = "map (\<lambda>v. v = 0) (run_script km kh cm rm ch rh bs (t # ts))"
  obtain a as where as: "?vs = a # as"
    by (cases "bucket_script bs km kh t cm rm ch rh") auto
  have la: "length as = length ts" using arg_cong[OF as, of length] by (simp del: run_script.simps)
  have ad: "admits (lua_window cap rate) (lua_step cap rate) b ((t, a) # zip ts as)"
    using run_script_admits[OF k, of cm rm bs "t # ts" ch rh] w as
    by (auto simp del: run_script.simps)
  have fs: "map fst (zip ts as) = ts" using la by simp
  have lst: "fst (last ((t, a) # zip ts as)) = last (t # ts)"
    using fs by (metis fst_conv last_map list.discI list.simps(9))
  have "taken ((t, a) # zip ts as) = length (filter (\<lambda>v. v = 0) (run_script km kh cm rm ch rh bs (t # ts)))"
    using taken_zip[of "t # ts" "run_script km kh cm rm ch rh bs (t # ts)"] as
    by (simp del: run_script.simps)
  then show ?thesis
    using lua.taken_bound[OF good ad] s lst fs
    by (simp del: run_script.simps)
qed

section \<open>Runs of the fallback\<close>

fun run_fallback :: "string \<Rightarrow> rat \<Rightarrow> rat \<Rightarrow> buckets \<Rightarrow> rat list \<Rightarrow> bool list" where
  "run_fallback k cap rate bs [] = []"
| "run_fallback k cap rate bs (t # ts) =
     (case check_token_bucket bs k cap rate t of
        (a, bs') \<Rightarrow> a # run_fallback k cap rate bs' ts)"

lemma check_token_bucket_step:
  assumes "check_token_bucket bs k cap rate t = (a, bs')"
  shows "a \<longleftrightarrow> 1 \<le> fallback_window cap rate (dget bs k) t"
    and "dget bs' k = fallback_step cap rate (dget bs k) t a"
    and "k' \<noteq> k \<Longrightarrow> dget bs' k' = dget bs k'"
  using assms
  by (auto simp: check_token_bucket_def fallback_step_def fallback_window_def Let_def pd.lookup_put
      split: if_splits)

lemma run_fallback_admits:
  "fallback_good cap rate (dget bs k) t \<Longrightarrow> sorted (t # ts) \<Longrightarrow>
   admits (\<lambda>b t. min cap (fallback_window cap rate b t)) (fallback_step cap rate) (dget bs k)
     (zip (t # ts) (run_fallback k cap rate bs (t # ts)))"
proof (induction ts arbitrary: bs t)
  case Nil
  obtain a bs' where s: "check_token_bucket bs k cap rate t = (a, bs')" by fastforce
  have "a \<longrightarrow> 1 \<le> min cap (fallback_window cap rate (dget bs k) t)"
    using check_token_bucket_step(1)[OF s] fallback_window_eq[OF Nil(1)]
      lua_window_cap[of cap rate "dget bs k" t] by auto
  then show ?case by (simp add: s)
next
  case (Cons u ts)
  obtain a bs' where s: "check_token_bucket bs k cap rate t = (a, bs')" by fastforce
  have tu: "t \<le> u" using Cons.prems(2) by simp
  have a: "a \<longrightarrow> 1 \<le> min cap (fallback_window cap rate (dget bs k) t)"
    using check_token_bucket_step(1)[OF s] fallback_window_eq[OF Cons.prems(1)]
      lua_window_cap[of cap rate "dget bs k" t] by auto
  have "fallback_good cap rate (dget bs' k) u"
    unfolding check_token_bucket_step(2)[OF s]
    using Cons.prems(1) a tu by (intro fallback_good_step) auto
  then have IH: "admits (\<lambda>b t. min cap (fallback_window cap rate b t)) (fallback_step cap rate) (dget bs' k)
     (zip (u # ts) (run_fallback k cap rate bs' (u # ts)))"
    using Cons.prems(2) by (intro Cons.IH) auto
  have run: "run_fallback k cap rate bs (t # u # ts) = a # run_fallback k cap rate bs' (u # ts)"
    unfolding run_fallback.simps(2)[of k cap rate bs t] s by simp
  show ?case
    unfolding run zip_Cons_Cons admits.simps(2)
    using a IH check_token_bucket_step(2)[OF s] by simp
qed

lemma length_run_fallback [simp]: "length (run_fallback k cap rate bs ts) = length ts"
  by (induction ts arbitrary: bs) (auto split: prod.splits)

lemma taken_zip_bools: "length ts = length as \<Longrightarrow> taken (zip ts as) = length (filter (\<lambda>a. a) as)"
  by (induction ts as rule: list_induct2) (auto simp: taken_def)

lemma run_fallback_bound:
  assumes good: "fallback_good cap rate (dget bs k) t" and s: "sorted (t # ts)"
  shows "of_nat (length (filter (\<lambda>a. a) (run_fallback k cap rate bs (t # ts)))) \<le>
         cap + (last (t # ts) - t) * rate"
proof -
  let ?as = "run_fallback k cap rate bs (t # ts)"
  obtain a as where as: "?as = a # as" by (cases "check_token_bucket bs k cap rate t") auto
  have la: "length as = length ts" using arg_cong[OF as, of length] by (simp del: run_fallback.simps)
  have ad: "admits (\<lambda>b t. min cap (fallback_window cap rate b t)) (fallback_step cap rate) (dget bs k)
      ((t, a) # zip ts as)"
    using run_fallback_admits[OF good s] as by (simp del: run_fallback.simps)
  have fs: "map fst (zip ts as) = ts" using la by simp
  have lst: "fst (last ((t, a) # zip ts as)) = last (t # ts)"
    using fs by (metis fst_conv last_map list.discI list.simps(9))
  have "taken ((t, a) # zip ts as) = length (filter (\<lambda>a. a) ?as)"
    unfolding as using taken_zip_bools[of "t # ts" "a # as"] la by simp
  then show ?thesis
    using fallback.taken_bound[OF good ad] s lst fs by (simp del: run_fallback.simps)
qed

section \<open>Properties\<close>

lemma bucket_script_levels:
  assumes "bucket_script bs km kh t cm rm ch rh = (v, bs')" and "km \<noteq> kh" and "v \<noteq> 0"
  shows "lua_window cm rm (dget bs' km) t = lua_window cm rm (dget bs km) t"
    and "lua_window ch rh (dget bs' kh) t = lua_window ch rh (dget bs kh) t"
  using assms(3) lua_window_cap[of cm rm "dget bs km" t] lua_window_cap[of ch rh "dget bs kh" t]
  unfolding bucket_script_state(1)[OF assms(1,2)] bucket_script_state(2)[OF assms(1,2)]
  by (simp_all add: lua_step_def lua_window_def[of _ _ "Some _"] live_def bucket_ttl_def lua_level_def)

text \<open>
  C12. Over any sequence of requests of one scope, at rising times, the script lets through at most the
  capacity of the minute window plus what refills in the time they span, and the same for the hour window.
\<close>

theorem script_never_exceeds_the_limits:
  assumes "km \<noteq> kh" and "sorted (t # ts)"
    and "0 \<le> rpm" and "0 \<le> rph" and "lua_good rpm (rpm / 60) (dget bs km) t"
    and "lua_good rph (rph / 3600) (dget bs kh) t"
  defines "n \<equiv> length (filter (\<lambda>v. v = 0) (run_script km kh rpm (rpm / 60) rph (rph / 3600) bs (t # ts)))"
  shows "of_nat n \<le> rpm + (last (t # ts) - t) * (rpm / 60) \<and>
         of_nat n \<le> rph + (last (t # ts) - t) * (rph / 3600)"
  unfolding n_def using run_script_bound[OF assms(1) assms(5) assms(2)]
    run_script_bound[OF assms(1) assms(6) assms(2)] by blast

lemma script_never_exceeds_the_limits_witness:
  "of_nat (length (filter (\<lambda>v. v = 0) (run_script ''m'' ''h'' 2 (2 / 60) 10 (10 / 3600) [] [0, 1, 2]))) \<le>
     (2 :: rat) + (2 - 0) * (2 / 60)"
  using script_never_exceeds_the_limits[of "''m''" "''h''" 0 "[1, 2]" 2 10 "[]"]
  by (simp add: lua_good_def bucket_ttl_def del: run_script.simps)

text \<open>
  The script is all or nothing: it lets a request through exactly when both windows hold a token, a
  refused request leaves the level of both as it was, and no other bucket is touched.
\<close>

lemma script_all_or_nothing:
  assumes "bucket_script bs km kh t cm rm ch rh = (v, bs')" and "km \<noteq> kh"
  shows "(v = 0 \<longleftrightarrow> 1 \<le> lua_window cm rm (dget bs km) t \<and> 1 \<le> lua_window ch rh (dget bs kh) t) \<and>
         (v \<noteq> 0 \<longrightarrow> lua_window cm rm (dget bs' km) t = lua_window cm rm (dget bs km) t \<and>
                   lua_window ch rh (dget bs' kh) t = lua_window ch rh (dget bs kh) t) \<and>
         (k \<noteq> km \<and> k \<noteq> kh \<longrightarrow> dget bs' k = dget bs k)"
  using bucket_script_verdict(1)[OF assms(1)] bucket_script_levels[OF assms] bucket_script_state(3)[OF assms]
  by blast

lemma script_all_or_nothing_witness:
  "lua_window 2 (1 / 30) (Some (2, 7)) 7 = lua_window 2 (1 / 30) None 7"
  using script_all_or_nothing[of "[(''h'', (0, 7))]" "''m''" "''h''" 7 2 "1 / 30" 5 "1 / 720" 2
      "[(''h'', (0, 7)), (''m'', (2, 7))]"]
  by (simp add: bucket_script_def lua_level_def live_def bucket_ttl_def Let_def)

text \<open>
  The fallback used where EVAL is refused keeps the same bound for each of its windows, for as long as the
  clock it is given does not run backwards.
\<close>

lemma fallback_never_exceeds_the_limit:
  assumes "sorted (t # ts)" and "fallback_good cap rate (dget bs k) t"
  shows "of_nat (length (filter (\<lambda>a. a) (run_fallback k cap rate bs (t # ts)))) \<le>
         cap + (last (t # ts) - t) * rate"
  using run_fallback_bound[OF assms(2,1)] .

lemma fallback_never_exceeds_the_limit_witness:
  "of_nat (length (filter (\<lambda>a. a) (run_fallback ''m'' 1 (1 / 60) [] [0, 30, 60]))) \<le> (1 :: rat) + 1"
  using fallback_never_exceeds_the_limit[of 0 "[30, 60]" 1 "1 / 60" "[]" "''m''"]
  by (simp add: fallback_good_def lua_good_def bucket_ttl_def del: run_fallback.simps)

end
