(* ===== verification/Rate_Limit.thy ===== *)
theory Rate_Limit
  imports Resolver Trial Token_Bucket
begin

text \<open>
  \<open>middleware/g00_rate_limit.py\<close>: the four gates a request passes before any work is done
  (free trial, monthly request quota, monthly spend cap, minute and hour buckets).
  Redis is explicit state: string keys, buckets, and a mode that says whether it answers,
  refuses EVAL or is down; the expiry of the one-shot flags (months) is not modelled. The
  clock, the current UTC month as text and the ISO parser are arguments; events are returned
  as a list. An exception carries its retry time and limit type; its human-readable scope is
  left out. The lemmas give the gates' order and exceptions, which gates fail open, whose
  limits apply, and which Redis keys the gates read and the counters write.
\<close>

section \<open>Redis\<close>

datatype redis_mode = Redis_Ok | Redis_No_Eval | Redis_Down

record redis =
  r_mode :: redis_mode
  r_strings :: "(string \<times> string) list"
  r_buckets :: buckets

definition redis_get :: "redis \<Rightarrow> string \<Rightarrow> pyexc + string option" where
  "redis_get r k = (if r_mode r = Redis_Down then Inl RedisError else Inr (dget (r_strings r) k))"

text \<open>\<open>SET k v NX\<close>: whether the key was new.\<close>

definition redis_setnx :: "redis \<Rightarrow> string \<Rightarrow> string \<Rightarrow> pyexc + bool \<times> redis" where
  "redis_setnx r k v =
     (if r_mode r = Redis_Down then Inl RedisError
      else if dget (r_strings r) k = None
           then Inr (True, r\<lparr>r_strings := dset k v (r_strings r)\<rparr>)
           else Inr (False, r))"

text \<open>\<open>int(await redis.get(k) or 0)\<close> and \<open>float(await redis.get(k) or 0.0)\<close>.\<close>

definition redis_number :: "(pyval \<Rightarrow> 'n option) \<Rightarrow> 'n \<Rightarrow> redis \<Rightarrow> string \<Rightarrow> pyexc + 'n" where
  "redis_number conv zero r k =
     (case redis_get r k of
        Inl e \<Rightarrow> Inl e
      | Inr None \<Rightarrow> Inr zero
      | Inr (Some s) \<Rightarrow>
          if s = [] then Inr zero
          else (case conv (PStr s) of None \<Rightarrow> Inl ValueError | Some n \<Rightarrow> Inr n))"

datatype event =
    Trial_Expired string string
  | Trial_Threshold int string
  | Spend_Cap_Reached rat rat
  | Budget_Threshold rat rat

datatype g00_exc =
    Rate_Limit_Exceeded nat string
  | Raised pyexc

record g00_ctx =
  gc_config :: pydict
  gc_tenant_id :: string
  gc_pricing_tier :: string
  gc_redis_prefix :: string
  gc_user_id :: string
  gc_principal :: string
  gc_team :: string

section \<open>Keys\<close>

definition quota_key :: "string \<Rightarrow> string \<Rightarrow> string" where
  "quota_key redis_prefix month = redis_prefix @ ''quota:'' @ month"

definition spend_key :: "string \<Rightarrow> string \<Rightarrow> string" where
  "spend_key redis_prefix month = redis_prefix @ ''spend:'' @ month"

definition trial_key :: "string \<Rightarrow> string" where
  "trial_key redis_prefix = redis_prefix @ ''trial_used''"

definition counter_prefix :: "g00_ctx \<Rightarrow> string" where
  "counter_prefix ctx =
     (if gc_redis_prefix ctx \<noteq> [] then gc_redis_prefix ctx
      else ''t:'' @ gc_tenant_id ctx @ '':'')"

text \<open>\<open>tenant_id in set(v or ["admin", "default"])\<close>: an unhashable item raises.\<close>

definition in_exempt :: "string \<Rightarrow> pyval \<Rightarrow> pyexc + bool" where
  "in_exempt tenant_id raw =
     bind_res (py_iter (py_or raw (PList [PStr ''admin'', PStr ''default''])))
       (\<lambda>xs. if list_all hashable xs then Inr (PStr tenant_id \<in> set xs) else Inl TypeError)"

text \<open>\<open>x.get(k) or {}\<close>, then used as a mapping.\<close>

definition sub_or_empty :: "pyval \<Rightarrow> string \<Rightarrow> pyexc + pyval" where
  "sub_or_empty x k = bind_res (py_get x k PNone) (\<lambda>v. Inr (py_or v (PDict [])))"

section \<open>The free-trial gate\<close>

definition warn_percentages :: "pyval \<Rightarrow> pyexc + int list" where
  "warn_percentages raw =
     bind_res (py_iter (py_or raw (PList [PInt 80, PInt 90])))
       (\<lambda>xs. if list_all (\<lambda>x. py_int x \<noteq> None) xs
             then Inr (sort (remdups (filter (\<lambda>p. p > 0) (map (\<lambda>x. the (py_int x)) xs))))
             else Inl ValueError)"

fun warn_loop :: "redis \<Rightarrow> string \<Rightarrow> int \<Rightarrow> rat \<Rightarrow> string \<Rightarrow> int list \<Rightarrow> redis \<times> event list" where
  "warn_loop r prefix generation pct_used dmn [] = (r, [])"
| "warn_loop r prefix generation pct_used dmn (p # ps) =
     (if pct_used < of_int p then warn_loop r prefix generation pct_used dmn ps
      else (case redis_setnx r (prefix @ ''trialwarn:'' @ int_str generation @ '':'' @ int_str p) ''1'' of
              Inl _ \<Rightarrow> warn_loop r prefix generation pct_used dmn ps
            | Inr (fresh, r') \<Rightarrow>
                (case warn_loop r' prefix generation pct_used dmn ps of
                   (r'', es) \<Rightarrow> (r'', (if fresh then [Trial_Threshold p dmn] else []) @ es))))"

definition maybe_warn_trial ::
  "redis \<Rightarrow> pyval \<Rightarrow> string \<Rightarrow> int \<Rightarrow> trial_numbers \<Rightarrow> (redis \<times> event list) \<times> (g00_exc + unit)" where
  "maybe_warn_trial r tcfg prefix generation v =
     (case bind_res (py_get tcfg ''warn_pcts'' PNone) warn_percentages of
        Inl e \<Rightarrow> ((r, []), Inl (Raised e))
      | Inr ps \<Rightarrow> (warn_loop r prefix generation (tn_pct_used v) (tn_dimension v) ps, Inr ()))"

text \<open>The end of an expired or cancelled trial: a one-shot event and the exception.\<close>

definition refuse_trial ::
  "redis \<Rightarrow> string \<Rightarrow> int \<Rightarrow> string \<Rightarrow> string \<Rightarrow> (redis \<times> event list) \<times> (g00_exc + unit)" where
  "refuse_trial r prefix generation reason dmn =
     ((case redis_setnx r (prefix @ ''trialexpired:'' @ int_str generation) ''1'' of
         Inl _ \<Rightarrow> (r, [Trial_Expired reason dmn])
       | Inr (fresh, r') \<Rightarrow> (r', if fresh then [Trial_Expired reason dmn] else [])),
      Inl (Rate_Limit_Exceeded 86400 ''trial_expired''))"

definition check_trial ::
  "(string \<Rightarrow> rat option) \<Rightarrow> rat \<Rightarrow> g00_ctx \<Rightarrow> redis \<Rightarrow> pyval
   \<Rightarrow> (redis \<times> event list) \<times> (g00_exc + unit)" where
  "check_trial fromiso now ctx r rl_cfg =
     (case bind_res (sub_or_empty rl_cfg ''trial'')
             (\<lambda>t. bind_res (py_get t ''enabled'' (PBool False))
             (\<lambda>en. bind_res (py_get t ''exempt_tenants'' PNone) (\<lambda>ex. Inr (t, en, ex)))) of
        Inl e \<Rightarrow> ((r, []), Inl (Raised e))
      | Inr (tcfg, enabled, exempt) \<Rightarrow>
          if \<not> py_truthy enabled then ((r, []), Inr ())
          else (case in_exempt (gc_tenant_id ctx) exempt of
            Inl e \<Rightarrow> ((r, []), Inl (Raised e))
          | Inr True \<Rightarrow> ((r, []), Inr ())
          | Inr False \<Rightarrow>
              (case py_or (dget_or (gc_config ctx) ''trial'' PNone) (PDict []) of
                 PDict trial \<Rightarrow>
                   (let status = dget_or trial ''status'' PNone in
                    if status \<notin> {PStr ''active'', PStr ''cancelled''} then ((r, []), Inr ())
                    else
                      (let prefix = gc_redis_prefix ctx;
                           max_requests = int_or_zero (dget_or trial ''max_requests'' PNone);
                           requests_used =
                             (if status = PStr ''active'' \<and> max_requests > 0
                              then (case redis_number py_int 0 r (trial_key prefix) of
                                      Inl _ \<Rightarrow> 0 | Inr n \<Rightarrow> n)
                              else 0);
                           generation = int_or_zero (dget_or trial ''generation'' PNone)
                       in case trial_summary fromiso trial requests_used now of
                            Ungated _ \<Rightarrow> ((r, []), Inr ())
                          | Cancelled_Trial _ _ _ _ \<Rightarrow>
                              refuse_trial r prefix generation ''cancelled'' ''cancelled''
                          | Trial_View v \<Rightarrow>
                              if tn_status v = ''expired''
                              then refuse_trial r prefix generation ''exhausted'' (tn_dimension v)
                              else if tn_valid v
                                   then maybe_warn_trial r tcfg prefix generation v
                                   else ((r, []), Inr ())))
               | _ \<Rightarrow> ((r, []), Inl (Raised AttributeError)))))"

section \<open>The request quota\<close>

text \<open>\<open>(getattr(ctx, "pricing_tier", "") or "free").lower()\<close>.\<close>

definition tier_of :: "g00_ctx \<Rightarrow> string" where
  "tier_of ctx = py_lower (if gc_pricing_tier ctx = [] then ''free'' else gc_pricing_tier ctx)"

text \<open>The tier's entry of \<open>billing.rate_card\<close>.\<close>

definition rate_card_entry :: "g00_ctx \<Rightarrow> pyexc + pyval" where
  "rate_card_entry ctx =
     bind_res (sub_or_empty (py_or (dget_or (gc_config ctx) ''billing'' (PDict [])) (PDict [])) ''rate_card'')
       (\<lambda>rc. sub_or_empty rc (tier_of ctx))"

text \<open>The gate's switch and exemption: whether it applies to this tenant.\<close>

definition gate_applies :: "g00_ctx \<Rightarrow> pyval \<Rightarrow> string \<Rightarrow> pyexc + pyval option" where
  "gate_applies ctx rl_cfg section =
     bind_res (sub_or_empty rl_cfg section)
       (\<lambda>c. bind_res (py_get c ''enabled'' (PBool False))
       (\<lambda>en. if \<not> py_truthy en then Inr None
             else bind_res (py_get c ''exempt_tenants'' PNone)
                  (\<lambda>ex. bind_res (in_exempt (gc_tenant_id ctx) ex)
                  (\<lambda>b. Inr (if b then None else Some c)))))"

definition grace_of :: "pyval \<Rightarrow> rat \<Rightarrow> pyexc + rat" where
  "grace_of c dflt =
     bind_res (py_get c ''grace_pct'' (PFloat dflt))
       (\<lambda>v. case py_float (py_or v (PInt 0)) of None \<Rightarrow> Inl ValueError | Some g \<Rightarrow> Inr g)"

definition check_quota :: "string \<Rightarrow> g00_ctx \<Rightarrow> redis \<Rightarrow> pyval \<Rightarrow> g00_exc + unit" where
  "check_quota month ctx r rl_cfg =
     (case gate_applies ctx rl_cfg ''quota'' of
        Inl e \<Rightarrow> Inl (Raised e)
      | Inr None \<Rightarrow> Inr ()
      | Inr (Some qcfg) \<Rightarrow>
          (case bind_res (rate_card_entry ctx) (\<lambda>e. py_get e ''included_requests'' PNone) of
             Inl e \<Rightarrow> Inl (Raised e)
           | Inr raw \<Rightarrow>
               (let included = int_or_zero (py_or raw (PInt 0)) in
                if included \<le> 0 then Inr ()
                else (case grace_of qcfg 10 of
                        Inl e \<Rightarrow> Inl (Raised e)
                      | Inr grace \<Rightarrow>
                          (let cap = trunc_rat (of_int included * (1 + grace / 100)) in
                           case redis_number py_int 0 r (quota_key (gc_redis_prefix ctx) month) of
                             Inl _ \<Rightarrow> Inr ()
                           | Inr used \<Rightarrow>
                               if used \<ge> cap then Inl (Rate_Limit_Exceeded 86400 ''quota_exceeded'')
                               else Inr ())))))"

section \<open>The spend cap\<close>

definition effective_spend_cap :: "g00_ctx \<Rightarrow> pyexc + rat option" where
  "effective_spend_cap ctx =
     bind_res (sub_or_empty (PDict (gc_config ctx)) ''limits'')
       (\<lambda>l. bind_res (py_get l ''monthly_spend_cap_usd'' PNone)
       (\<lambda>o1. bind_res (if o1 = PNone
                       then bind_res (rate_card_entry ctx)
                              (\<lambda>e. py_get e ''monthly_spend_cap_usd'' PNone)
                       else Inr o1)
       (\<lambda>override. Inr (case py_float override of
                          None \<Rightarrow> None
                        | Some cap \<Rightarrow> if cap > 0 then Some cap else None))))"

definition maybe_warn_budget ::
  "string \<Rightarrow> redis \<Rightarrow> pyval \<Rightarrow> string \<Rightarrow> rat \<Rightarrow> rat \<Rightarrow> (redis \<times> event list) \<times> (g00_exc + unit)" where
  "maybe_warn_budget month r scfg prefix cap spent =
     (case bind_res (py_get scfg ''warn_pct'' (PInt 0))
             (\<lambda>v. case py_float (py_or v (PInt 0)) of None \<Rightarrow> Inl ValueError | Some p \<Rightarrow> Inr p) of
        Inl e \<Rightarrow> ((r, []), Inl (Raised e))
      | Inr warn_pct \<Rightarrow>
          if warn_pct \<le> 0 \<or> spent < cap * (warn_pct / 100) then ((r, []), Inr ())
          else (case redis_setnx r (prefix @ ''budgetwarn:'' @ month) ''1'' of
                  Inl _ \<Rightarrow> ((r, []), Inr ())
                | Inr (fresh, r') \<Rightarrow>
                    ((r', if fresh then [Budget_Threshold cap warn_pct] else []), Inr ())))"

definition check_spend ::
  "string \<Rightarrow> g00_ctx \<Rightarrow> redis \<Rightarrow> pyval \<Rightarrow> (redis \<times> event list) \<times> (g00_exc + unit)" where
  "check_spend month ctx r rl_cfg =
     (case gate_applies ctx rl_cfg ''spend_cap'' of
        Inl e \<Rightarrow> ((r, []), Inl (Raised e))
      | Inr None \<Rightarrow> ((r, []), Inr ())
      | Inr (Some scfg) \<Rightarrow>
          (case effective_spend_cap ctx of
             Inl e \<Rightarrow> ((r, []), Inl (Raised e))
           | Inr None \<Rightarrow> ((r, []), Inr ())
           | Inr (Some cap) \<Rightarrow>
               (case grace_of scfg 0 of
                  Inl e \<Rightarrow> ((r, []), Inl (Raised e))
                | Inr grace \<Rightarrow>
                    (let ceiling = cap * (1 + grace / 100); prefix = gc_redis_prefix ctx in
                     case redis_number py_float 0 r (spend_key prefix month) of
                       Inl _ \<Rightarrow> ((r, []), Inr ())
                     | Inr spent \<Rightarrow>
                         if spent \<ge> ceiling
                         then ((r, [Spend_Cap_Reached (py_round 4 cap) (py_round 4 spent)]),
                               Inl (Rate_Limit_Exceeded 86400 ''spend_cap_exceeded''))
                         else maybe_warn_budget month r scfg prefix cap spent))))"

text \<open>
  \<open>add_to_spend\<close>: INCRBYFLOAT on the month's counter; a counter that holds no number is an
  error, which is swallowed. \<open>fmt\<close> is the text Redis stores for a number.
\<close>

definition add_to_spend :: "(rat \<Rightarrow> string) \<Rightarrow> string \<Rightarrow> redis \<Rightarrow> string \<Rightarrow> rat \<Rightarrow> redis" where
  "add_to_spend fmt month r redis_prefix cost_usd =
     (if \<not> cost_usd > 0 then r
      else (case redis_number py_float 0 r (spend_key redis_prefix month) of
              Inl _ \<Rightarrow> r
            | Inr cur \<Rightarrow>
                r\<lparr>r_strings := dset (spend_key redis_prefix month) (fmt (cur + cost_usd)) (r_strings r)\<rparr>))"

section \<open>Limits\<close>

record g00 =
  default_limits :: pydict
  per_user_limits :: pyval
  per_team_limits :: pyval

definition new_g00 :: g00 where
  "new_g00 = \<lparr>default_limits = [], per_user_limits = PDict [], per_team_limits = PDict []\<rparr>"

definition load_config :: "g00 \<Rightarrow> pydict \<Rightarrow> pyexc + g00" where
  "load_config g cfg =
     (let rl_cfg = dget_or cfg ''rate_limit'' (PDict []) in
      bind_res (py_get rl_cfg ''enabled'' (PBool False)) (\<lambda>en.
        if \<not> py_truthy en then Inr g
        else bind_res (py_get rl_cfg ''default'' (PDict [])) (\<lambda>d.
             bind_res (py_get d ''requests_per_minute'' (PInt 60)) (\<lambda>rpm.
             bind_res (py_get d ''requests_per_hour'' (PInt 1000)) (\<lambda>rph.
             bind_res (sub_or_empty rl_cfg ''per_user'') (\<lambda>pu.
             bind_res (sub_or_empty rl_cfg ''per_team'') (\<lambda>pt.
               Inr \<lparr>default_limits = [(''requests_per_minute'', rpm), (''requests_per_hour'', rph)],
                    per_user_limits = pu, per_team_limits = pt\<rparr>)))))))"

text \<open>\<open>{**a, **b}\<close>.\<close>

definition dict_update :: "pydict \<Rightarrow> pydict \<Rightarrow> pydict" where
  "dict_update a b = fold (\<lambda>(k, v). dset k v) b a"

text \<open>
  \<open>k in x and isinstance(x[k], dict)\<close>: the mapping found, if any. On a list or a string the
  test is membership, and the subscript after it raises.
\<close>

definition member_value :: "pyval \<Rightarrow> string \<Rightarrow> pyexc + pyval" where
  "member_value x k =
     (case x of
        PDict d \<Rightarrow> Inr (dget_or d k PNone)
      | PList xs \<Rightarrow> if PStr k \<in> set xs then Inl TypeError else Inr PNone
      | PStr s \<Rightarrow> if (\<exists>i \<in> set [0..<Suc (length s)]. take (length k) (drop i s) = k)
                  then Inl TypeError else Inr PNone
      | _ \<Rightarrow> Inl TypeError)"

definition get_limits_for_scope ::
  "g00 \<Rightarrow> string \<Rightarrow> string \<Rightarrow> string \<Rightarrow> string \<Rightarrow> pyval \<Rightarrow> pyexc + pydict" where
  "get_limits_for_scope g user_id team tenant_id tier rl_cfg =
     bind_res (py_get (per_user_limits g) user_id PNone) (\<lambda>per_user.
       case dict_of per_user of
         Some d \<Rightarrow> Inr (dict_update (default_limits g) d)
       | None \<Rightarrow>
     bind_res (py_get (per_team_limits g) team PNone) (\<lambda>per_team.
       case dict_of per_team of
         Some d \<Rightarrow> Inr (dict_update (default_limits g) d)
       | None \<Rightarrow>
     bind_res (sub_or_empty rl_cfg ''per_tenant'') (\<lambda>pt.
     bind_res (member_value pt tenant_id) (\<lambda>per_tenant.
       case dict_of per_tenant of
         Some d \<Rightarrow> Inr (dict_update (default_limits g) d)
       | None \<Rightarrow>
     bind_res (sub_or_empty rl_cfg ''tiers'') (\<lambda>tm.
       if tier = [] then Inr (default_limits g)
       else bind_res (member_value tm tier) (\<lambda>tv.
         case dict_of tv of
           Some d \<Rightarrow> Inr (dict_update (default_limits g) d)
         | None \<Rightarrow> Inr (default_limits g)))))))"

text \<open>\<open>float(limits[k])\<close>.\<close>

definition limit_of :: "pydict \<Rightarrow> string \<Rightarrow> pyexc + rat" where
  "limit_of limits k =
     (case dget limits k of
        None \<Rightarrow> Inl KeyError
      | Some v \<Rightarrow> (case py_float v of None \<Rightarrow> Inl TypeError | Some x \<Rightarrow> Inr x))"

definition consume ::
  "redis \<Rightarrow> string \<Rightarrow> string \<Rightarrow> pydict \<Rightarrow> rat \<Rightarrow> redis \<times> (pyexc + string option)" where
  "consume r minute_key hour_key limits now =
     (case (limit_of limits ''requests_per_minute'', limit_of limits ''requests_per_hour'') of
        (Inl e, _) \<Rightarrow> (r, Inl e)
      | (Inr cap_m, Inl e) \<Rightarrow> (r, Inl e)
      | (Inr cap_m, Inr cap_h) \<Rightarrow>
          (case r_mode r of
             Redis_Down \<Rightarrow> (r, Inl RedisError)
           | Redis_Ok \<Rightarrow>
               (case bucket_script (r_buckets r) minute_key hour_key now
                       cap_m (cap_m / 60) cap_h (cap_h / 3600) of
                  (verdict, bs) \<Rightarrow>
                    (r\<lparr>r_buckets := bs\<rparr>,
                     Inr (if verdict = 1 then Some ''minute''
                          else if verdict = 2 then Some ''hour'' else None)))
           | Redis_No_Eval \<Rightarrow>
               (case check_token_bucket (r_buckets r) minute_key cap_m (cap_m / 60) now of
                  (False, bs) \<Rightarrow> (r\<lparr>r_buckets := bs\<rparr>, Inr (Some ''minute''))
                | (True, bs) \<Rightarrow>
                    (case check_token_bucket bs hour_key cap_h (cap_h / 3600) now of
                       (False, bs') \<Rightarrow> (r\<lparr>r_buckets := bs'\<rparr>, Inr (Some ''hour''))
                     | (True, bs') \<Rightarrow> (r\<lparr>r_buckets := bs'\<rparr>, Inr None)))))"


section \<open>process_request\<close>

type_synonym g00_state = "g00 \<times> redis \<times> event list"

text \<open>
  One of the three gates: it runs when its section is switched on; a refusal ends the
  request, and anything else it raises is logged and the request goes on.
\<close>

definition run_gate ::
  "pyval \<Rightarrow> string \<Rightarrow> (redis \<Rightarrow> (redis \<times> event list) \<times> (g00_exc + unit)) \<Rightarrow> redis
   \<Rightarrow> (redis \<times> event list) \<times> (g00_exc + unit)" where
  "run_gate cfg section gate r =
     (case bind_res (py_get cfg section (PDict [])) (\<lambda>s. py_get s ''enabled'' (PBool False)) of
        Inl e \<Rightarrow> ((r, []), Inl (Raised e))
      | Inr en \<Rightarrow>
          if \<not> py_truthy en then ((r, []), Inr ())
          else (case gate r of
                  (re, Inl (Rate_Limit_Exceeded n l)) \<Rightarrow> (re, Inl (Rate_Limit_Exceeded n l))
                | (re, Inl (Raised _)) \<Rightarrow> (re, Inr ())
                | (re, Inr _) \<Rightarrow> (re, Inr ())))"

definition limiter_scope :: "(string \<Rightarrow> string) \<Rightarrow> g00_ctx \<Rightarrow> string" where
  "limiter_scope digest ctx =
     (let principal = (if gc_principal ctx \<noteq> [] then gc_principal ctx else gc_user_id ctx);
          team = (if gc_team ctx \<noteq> [] then gc_team ctx else default_team)
      in gc_tenant_id ctx @ '':'' @ principal @ '':'' @ team_tag digest team)"

definition minute_key :: "string \<Rightarrow> string" where
  "minute_key scope = ''tok_opt:rate_limit:minute:'' @ scope"

definition hour_key :: "string \<Rightarrow> string" where
  "hour_key scope = ''tok_opt:rate_limit:hour:'' @ scope"

text \<open>The minute and hour limiter, the last of the four checks.\<close>

definition limiter ::
  "(string \<Rightarrow> string) \<Rightarrow> rat \<Rightarrow> g00_ctx \<Rightarrow> g00 \<Rightarrow> redis \<Rightarrow> (g00 \<times> redis) \<times> (g00_exc + unit)" where
  "limiter digest now ctx g r =
     (let cfg = dget_or (gc_config ctx) ''rate_limit'' (PDict []) in
      case py_get cfg ''enabled'' (PBool False) of
        Inl e \<Rightarrow> ((g, r), Inl (Raised e))
      | Inr en \<Rightarrow>
          if \<not> py_truthy en then ((g, r), Inr ())
          else (case load_config g (gc_config ctx) of
                  Inl e \<Rightarrow> ((g, r), Inl (Raised e))
                | Inr g' \<Rightarrow>
                    (let principal = (if gc_principal ctx \<noteq> [] then gc_principal ctx else gc_user_id ctx);
                         team = (if gc_team ctx \<noteq> [] then gc_team ctx else default_team)
                     in case get_limits_for_scope g' principal team (gc_tenant_id ctx)
                               (py_lower (gc_pricing_tier ctx)) cfg of
                          Inl e \<Rightarrow> ((g', r), Inl (Raised e))
                        | Inr limits \<Rightarrow>
                            (let scope = limiter_scope digest ctx in
                             case consume r (minute_key scope) (hour_key scope) limits now of
                               (r', Inl _) \<Rightarrow> ((g', r'), Inr ())
                             | (r', Inr None) \<Rightarrow> ((g', r'), Inr ())
                             | (r', Inr (Some w)) \<Rightarrow>
                                 ((g', r'),
                                  Inl (Rate_Limit_Exceeded (if w = ''minute'' then 60 else 3600)
                                         (''requests_per_'' @ w)))))))"

definition g00_process_request ::
  "(string \<Rightarrow> rat option) \<Rightarrow> (string \<Rightarrow> string) \<Rightarrow> string \<Rightarrow> rat \<Rightarrow> g00_ctx \<Rightarrow> g00 \<Rightarrow> redis
   \<Rightarrow> g00_state \<times> (g00_exc + unit)" where
  "g00_process_request fromiso digest month now ctx g r =
     (let cfg = dget_or (gc_config ctx) ''rate_limit'' (PDict []) in
      case run_gate cfg ''trial'' (\<lambda>r. check_trial fromiso now ctx r cfg) r of
        ((r1, e1), Inl x) \<Rightarrow> ((g, r1, e1), Inl x)
      | ((r1, e1), Inr _) \<Rightarrow>
          (case run_gate cfg ''quota'' (\<lambda>r. ((r, []), check_quota month ctx r cfg)) r1 of
             ((r2, e2), Inl x) \<Rightarrow> ((g, r2, e1 @ e2), Inl x)
           | ((r2, e2), Inr _) \<Rightarrow>
               (case run_gate cfg ''spend_cap'' (\<lambda>r. check_spend month ctx r cfg) r2 of
                  ((r3, e3), Inl x) \<Rightarrow> ((g, r3, e1 @ e2 @ e3), Inl x)
                | ((r3, e3), Inr _) \<Rightarrow>
                    (case limiter digest now ctx g r3 of
                       ((g', r4), out) \<Rightarrow> ((g', r4, e1 @ e2 @ e3), out)))))"

section \<open>Who shares a bucket\<close>

text \<open>
  The scope determines its three parts: a tenant id and a team tag have no colon, so a
  principal that contains one cannot be mistaken for another caller.
\<close>

lemma scope_parts_inject:
  assumes t: "CHR '':'' \<notin> set t1" "CHR '':'' \<notin> set t2" and g: "CHR '':'' \<notin> set g1" "CHR '':'' \<notin> set g2"
    and eq: "t1 @ '':'' @ p1 @ '':'' @ g1 = t2 @ '':'' @ p2 @ '':'' @ g2"
  shows "t1 = t2 \<and> p1 = p2 \<and> g1 = g2"
proof -
  have "t1 = t2 \<and> p1 @ CHR '':'' # g1 = p2 @ CHR '':'' # g2"
    using append_sep_inject[OF t, of "p1 @ CHR '':'' # g1" "p2 @ CHR '':'' # g2"] eq by simp
  then have tt: "t1 = t2" and "rev (p1 @ CHR '':'' # g1) = rev (p2 @ CHR '':'' # g2)"
    by simp_all
  then have pg: "rev g1 @ CHR '':'' # rev p1 = rev g2 @ CHR '':'' # rev p2"
    by simp
  have "rev g1 = rev g2 \<and> rev p1 = rev p2"
    using append_sep_inject[of "CHR '':''" "rev g1" "rev g2" "rev p1" "rev p2"] g pg by simp
  then show ?thesis using tt by simp
qed

lemma minute_hour_key_distinct: "minute_key s \<noteq> hour_key s'"
  by (simp add: minute_key_def hour_key_def)

section \<open>Gates\<close>

lemma run_gate_off:
  "py_get cfg section (PDict []) = Inr s \<Longrightarrow> py_get s ''enabled'' (PBool False) = Inr en \<Longrightarrow>
   \<not> py_truthy en \<Longrightarrow> run_gate cfg section gate r = ((r, []), Inr ())"
  by (simp add: run_gate_def)

lemma refuse_trial_exc: "snd (refuse_trial r prefix generation reason dmn) =
    Inl (Rate_Limit_Exceeded 86400 ''trial_expired'')"
  by (simp add: refuse_trial_def)

lemma counter_prefix_namespaced: "gc_redis_prefix ctx \<noteq> [] \<Longrightarrow> counter_prefix ctx = gc_redis_prefix ctx"
  by (simp add: counter_prefix_def)

lemma warn_loop_down: "r_mode r = Redis_Down \<Longrightarrow> fst (warn_loop r p g pct d ps) = r"
  by (induction ps) (simp_all add: redis_setnx_def)

lemma redis_setnx_buckets: "redis_setnx r k v = Inr (fresh, r') \<Longrightarrow> r_buckets r' = r_buckets r"
  by (auto simp: redis_setnx_def split: if_splits)

lemma warn_loop_buckets: "r_buckets (fst (warn_loop r p g pct d ps)) = r_buckets r"
proof (induction ps arbitrary: r)
  case Nil
  then show ?case by simp
next
  case (Cons q ps)
  then show ?case
    using redis_setnx_buckets[of r "p @ ''trialwarn:'' @ int_str g @ '':'' @ int_str q" "''1''"]
    by (auto split: sum.splits prod.splits) (metis fst_conv)
qed

lemmas gate_splits = sum.splits prod.splits option.splits if_splits pyval.splits trial_view.splits

text \<open>What the trial gate can do: refuse with its own limit type, and leave the buckets alone.\<close>

lemma refuse_trial_frame:
  "r_buckets (fst (fst (refuse_trial r p g reason d))) = r_buckets r"
  "r_mode r = Redis_Down \<Longrightarrow> fst (fst (refuse_trial r p g reason d)) = r"
  using redis_setnx_buckets[of r]
  by (auto simp: refuse_trial_def split: gate_splits) (auto simp: redis_setnx_def)

lemma maybe_warn_trial_frame:
  "r_buckets (fst (fst (maybe_warn_trial r t p g v))) = r_buckets r"
  "r_mode r = Redis_Down \<Longrightarrow> fst (fst (maybe_warn_trial r t p g v)) = r"
  "snd (maybe_warn_trial r t p g v) \<noteq> Inl (Rate_Limit_Exceeded n l)"
  by (auto simp: maybe_warn_trial_def warn_loop_buckets warn_loop_down split: sum.splits)

inductive trial_outcome :: "redis \<Rightarrow> (redis \<times> event list) \<times> (g00_exc + unit) \<Rightarrow> bool"
  for r where
  passed: "trial_outcome r ((r, []), Inr ())"
| broken: "trial_outcome r ((r, []), Inl (Raised e))"
| refused: "trial_outcome r (refuse_trial r p g re d)"
| warned: "trial_outcome r (maybe_warn_trial r t p g v)"

lemma check_trial_shape: "trial_outcome r (check_trial fromiso now ctx r cfg)"
proof -
  let ?b = "bind_res (sub_or_empty cfg ''trial'')
             (\<lambda>t. bind_res (py_get t ''enabled'' (PBool False))
             (\<lambda>en. bind_res (py_get t ''exempt_tenants'' PNone) (\<lambda>ex. Inr (t, en, ex))))"
  show ?thesis
  proof (cases ?b)
    case (Inl e)
    then show ?thesis by (simp add: check_trial_def trial_outcome.intros)
  next
    case (Inr x)
    obtain t en ex where x: "x = (t, en, ex)" by (metis prod_cases3)
    show ?thesis
    proof (cases "in_exempt (gc_tenant_id ctx) ex")
      case (Inl e)
      then show ?thesis using Inr by (simp add: check_trial_def x trial_outcome.intros)
    next
      case in_ex: (Inr b)
      show ?thesis
        unfolding check_trial_def Inr x sum.case prod.case in_ex
        by (cases b; cases "py_truthy en"; cases "py_or (dget_or (gc_config ctx) ''trial'' PNone) (PDict [])")
           (simp_all add: Let_def trial_outcome.intros split: trial_view.split)
    qed
  qed
qed

lemma check_trial_frame:
  "r_buckets (fst (fst (check_trial fromiso now ctx r cfg))) = r_buckets r"
  "r_mode r = Redis_Down \<Longrightarrow> fst (fst (check_trial fromiso now ctx r cfg)) = r"
  "snd (check_trial fromiso now ctx r cfg) = Inl (Rate_Limit_Exceeded n l) \<Longrightarrow> l = ''trial_expired''"
  using check_trial_shape[of r fromiso now ctx cfg] refuse_trial_frame maybe_warn_trial_frame
  by (auto simp: refuse_trial_exc elim: trial_outcome.cases)

lemma check_quota_down: "r_mode r = Redis_Down \<Longrightarrow> check_quota month ctx r cfg \<noteq> Inl (Rate_Limit_Exceeded n l)"
  by (auto simp: check_quota_def redis_number_def redis_get_def Let_def split: gate_splits)

lemma check_quota_type: "check_quota month ctx r cfg = Inl (Rate_Limit_Exceeded n l) \<Longrightarrow> l = ''quota_exceeded''"
  by (auto simp: check_quota_def Let_def split: gate_splits)

lemma maybe_warn_budget_frame:
  "r_buckets (fst (fst (maybe_warn_budget month r c p cap spent))) = r_buckets r"
  "r_mode r = Redis_Down \<Longrightarrow> fst (fst (maybe_warn_budget month r c p cap spent)) = r"
  "snd (maybe_warn_budget month r c p cap spent) \<noteq> Inl (Rate_Limit_Exceeded n l)"
  by (auto simp: maybe_warn_budget_def redis_setnx_def split: sum.splits prod.splits if_splits)

lemma check_spend_frame:
  "r_buckets (fst (fst (check_spend month ctx r cfg))) = r_buckets r"
  "r_mode r = Redis_Down \<Longrightarrow> fst (fst (check_spend month ctx r cfg)) = r"
  "r_mode r = Redis_Down \<Longrightarrow> snd (check_spend month ctx r cfg) \<noteq> Inl (Rate_Limit_Exceeded n l)"
  "snd (check_spend month ctx r cfg) = Inl (Rate_Limit_Exceeded n l) \<Longrightarrow> l = ''spend_cap_exceeded''"
  using maybe_warn_budget_frame
  by (auto simp: check_spend_def Let_def split: sum.splits option.splits if_splits)
     (auto simp: redis_number_def redis_get_def split: sum.splits option.splits if_splits)

lemma run_gate_frame:
  assumes "run_gate cfg sec gate r = ((r', es), out)"
  shows "r' = r \<or> r' = fst (fst (gate r))"
    and "out = Inl (Rate_Limit_Exceeded n l) \<Longrightarrow> snd (gate r) = Inl (Rate_Limit_Exceeded n l)"
proof -
  obtain re o' where g: "gate r = (re, o')" by fastforce
  let ?b = "bind_res (py_get cfg sec (PDict [])) (\<lambda>s. py_get s ''enabled'' (PBool False))"
  have "(r' = r \<or> r' = fst re) \<and> (\<forall>n l. out = Inl (Rate_Limit_Exceeded n l) \<longrightarrow> o' = out)"
  proof (cases ?b)
    case (Inl e)
    then show ?thesis using assms by (auto simp: run_gate_def)
  next
    case (Inr en)
    show ?thesis
    proof (cases "py_truthy en")
      case True
      show ?thesis
      proof (cases o')
        case out: (Inl e)
        then show ?thesis using assms Inr True g by (cases e) (auto simp: run_gate_def)
      next
        case (Inr u)
        then have "((r', es), out) = (re, Inr ())"
          using assms \<open>?b = Inr en\<close> True unfolding run_gate_def g by (cases u) simp
        then show ?thesis by (metis Inl_Inr_False fst_conv prod.inject)
      qed
    qed (use assms Inr in \<open>auto simp: run_gate_def\<close>)
  qed
  then show "r' = r \<or> r' = fst (fst (gate r))"
    and "out = Inl (Rate_Limit_Exceeded n l) \<Longrightarrow> snd (gate r) = Inl (Rate_Limit_Exceeded n l)"
    using g by auto
qed

lemma limiter_down:
  "r_mode r = Redis_Down \<Longrightarrow> limiter digest now ctx g r = ((g', r'), out) \<Longrightarrow>
   r' = r \<and> out \<noteq> Inl (Rate_Limit_Exceeded n l)"
  by (auto simp: limiter_def consume_def Let_def split: sum.splits prod.splits if_splits option.splits)

lemma limiter_type:
  "limiter digest now ctx g r = ((g', r'), Inl (Rate_Limit_Exceeded n l)) \<Longrightarrow>
   l \<in> {''requests_per_minute'', ''requests_per_hour''}"
  by (auto simp: limiter_def consume_def Let_def
      split: sum.splits prod.splits if_splits option.splits redis_mode.splits bool.splits)

text \<open>The four steps of a request, and which of them ended it.\<close>

lemma g00_cases:
  assumes "g00_process_request fromiso digest month now ctx g r = ((g', r', es), out)"
  obtains
    (trial) x where "out = Inl x" "g' = g"
      "run_gate (dget_or (gc_config ctx) ''rate_limit'' (PDict [])) ''trial''
         (\<lambda>r. check_trial fromiso now ctx r (dget_or (gc_config ctx) ''rate_limit'' (PDict []))) r =
       ((r', es), Inl x)"
  | (quota) r1 e1 e2 x where "out = Inl x" "g' = g" "es = e1 @ e2"
      "run_gate (dget_or (gc_config ctx) ''rate_limit'' (PDict [])) ''trial''
         (\<lambda>r. check_trial fromiso now ctx r (dget_or (gc_config ctx) ''rate_limit'' (PDict []))) r =
       ((r1, e1), Inr ())"
      "run_gate (dget_or (gc_config ctx) ''rate_limit'' (PDict [])) ''quota''
         (\<lambda>r. ((r, []), check_quota month ctx r (dget_or (gc_config ctx) ''rate_limit'' (PDict [])))) r1 =
       ((r', e2), Inl x)"
  | (spend) r1 r2 e1 e2 e3 x where "out = Inl x" "g' = g" "es = e1 @ e2 @ e3"
      "run_gate (dget_or (gc_config ctx) ''rate_limit'' (PDict [])) ''trial''
         (\<lambda>r. check_trial fromiso now ctx r (dget_or (gc_config ctx) ''rate_limit'' (PDict []))) r =
       ((r1, e1), Inr ())"
      "run_gate (dget_or (gc_config ctx) ''rate_limit'' (PDict [])) ''quota''
         (\<lambda>r. ((r, []), check_quota month ctx r (dget_or (gc_config ctx) ''rate_limit'' (PDict [])))) r1 =
       ((r2, e2), Inr ())"
      "run_gate (dget_or (gc_config ctx) ''rate_limit'' (PDict [])) ''spend_cap''
         (\<lambda>r. check_spend month ctx r (dget_or (gc_config ctx) ''rate_limit'' (PDict []))) r2 =
       ((r', e3), Inl x)"
  | (bucket) r1 r2 r3 e1 e2 e3 where "es = e1 @ e2 @ e3"
      "run_gate (dget_or (gc_config ctx) ''rate_limit'' (PDict [])) ''trial''
         (\<lambda>r. check_trial fromiso now ctx r (dget_or (gc_config ctx) ''rate_limit'' (PDict []))) r =
       ((r1, e1), Inr ())"
      "run_gate (dget_or (gc_config ctx) ''rate_limit'' (PDict [])) ''quota''
         (\<lambda>r. ((r, []), check_quota month ctx r (dget_or (gc_config ctx) ''rate_limit'' (PDict [])))) r1 =
       ((r2, e2), Inr ())"
      "run_gate (dget_or (gc_config ctx) ''rate_limit'' (PDict [])) ''spend_cap''
         (\<lambda>r. check_spend month ctx r (dget_or (gc_config ctx) ''rate_limit'' (PDict []))) r2 =
       ((r3, e3), Inr ())"
      "limiter digest now ctx g r3 = ((g', r'), out)"
  using assms unfolding g00_process_request_def Let_def
  by (auto split: sum.splits prod.splits)

lemma trial_gate:
  assumes "run_gate c sec (\<lambda>r. check_trial fromiso now ctx r c) r = ((r', es), out)"
  shows "r_buckets r' = r_buckets r \<and> (r_mode r = Redis_Down \<longrightarrow> r' = r) \<and>
     (out = Inl (Rate_Limit_Exceeded n l) \<longrightarrow> l = ''trial_expired'')"
  using run_gate_frame[OF assms] check_trial_frame[where fromiso = fromiso and now = now and ctx = ctx and cfg = c and r = r] by auto

lemma quota_gate:
  assumes "run_gate c sec (\<lambda>r. ((r, []), check_quota month ctx r c)) r = ((r', es), out)"
  shows "r' = r \<and> (r_mode r = Redis_Down \<longrightarrow> out \<noteq> Inl (Rate_Limit_Exceeded n l))"
  using run_gate_frame[OF assms] check_quota_down[where month = month and ctx = ctx and cfg = c and r = r] by auto

lemma spend_gate:
  assumes "run_gate c sec (\<lambda>r. check_spend month ctx r c) r = ((r', es), out)"
  shows "r_buckets r' = r_buckets r \<and>
     (r_mode r = Redis_Down \<longrightarrow> r' = r \<and> out \<noteq> Inl (Rate_Limit_Exceeded n l))"
  using run_gate_frame[OF assms] check_spend_frame(1-3)[where month = month and ctx = ctx and cfg = c and r = r] by auto

lemma g00_down:
  assumes "g00_process_request fromiso digest month now ctx g r = ((g', r', es), out)"
    and down: "r_mode r = Redis_Down"
  shows "r' = r \<and> (out = Inl (Rate_Limit_Exceeded n l) \<longrightarrow> l = ''trial_expired'')"
  using assms(1)
proof (cases rule: g00_cases)
  case (trial x)
  then show ?thesis using trial_gate[OF trial(3)] down by simp
next
  case (quota r1 e1 e2 x)
  then show ?thesis using trial_gate[OF quota(4)] quota_gate[OF quota(5)] down by simp
next
  case (spend r1 r2 e1 e2 e3 x)
  then show ?thesis
    using trial_gate[OF spend(4)] quota_gate[OF spend(5)] spend_gate[OF spend(6)] down by simp
next
  case (bucket r1 r2 r3 e1 e2 e3)
  have "r3 = r"
    using trial_gate[OF bucket(2)] quota_gate[OF bucket(3)] spend_gate[OF bucket(4)] down by simp
  then show ?thesis using limiter_down[OF _ bucket(5)] down by simp
qed

lemma g00_early:
  assumes "g00_process_request fromiso digest month now ctx g r = ((g', r', es), Inl (Rate_Limit_Exceeded n l))"
    and "l \<notin> {''requests_per_minute'', ''requests_per_hour''}"
  shows "r_buckets r' = r_buckets r \<and> g' = g"
  using assms(1)
proof (cases rule: g00_cases)
  case (trial x)
  then show ?thesis using trial_gate[OF trial(3)] by simp
next
  case (quota r1 e1 e2 x)
  then show ?thesis using trial_gate[OF quota(4)] quota_gate[OF quota(5)] by simp
next
  case (spend r1 r2 e1 e2 e3 x)
  then show ?thesis using trial_gate[OF spend(4)] quota_gate[OF spend(5)] spend_gate[OF spend(6)] by simp
next
  case (bucket r1 r2 r3 e1 e2 e3)
  then show ?thesis using limiter_type[OF bucket(5)] assms(2) by simp
qed

section \<open>Whose limits apply\<close>

text \<open>The most specific mapping among those found for the user, the team, the tenant and the tier.\<close>

fun first_dict :: "pyval list \<Rightarrow> pydict" where
  "first_dict [] = []"
| "first_dict (PDict d # vs) = d"
| "first_dict (v # vs) = first_dict vs"

lemma dget_dict_update: "distinct (map fst d) \<Longrightarrow>
  dget (dict_update a d) k = (case dget d k of Some v \<Rightarrow> Some v | None \<Rightarrow> dget a k)"
proof (induction d arbitrary: a)
  case Nil
  then show ?case by (simp add: dict_update_def)
next
  case (Cons kv d)
  obtain k0 v where kv: "kv = (k0, v)" by fastforce
  have "dget d k0 = None" using Cons.prems kv by (auto simp: map_of_eq_None_iff)
  then show ?case
    using Cons.IH[of "dset k0 v a"] Cons.prems kv
    by (auto simp: dict_update_def dget_dset split: option.splits)
qed

lemma first_dict_other: "\<not> is_dict v \<Longrightarrow> first_dict (v # vs) = first_dict vs"
  by (cases v) auto

lemma dict_update_Nil [simp]: "dict_update a [] = a"
  by (simp add: dict_update_def)

definition sub_dict :: "pydict \<Rightarrow> string \<Rightarrow> pydict" where
  "sub_dict d k = (case dget d k of Some (PDict e) \<Rightarrow> e | _ \<Rightarrow> [])"

definition dict_or_absent :: "pydict \<Rightarrow> string \<Rightarrow> bool" where
  "dict_or_absent d k \<longleftrightarrow> (case dget d k of None \<Rightarrow> True | Some v \<Rightarrow> is_dict v)"

lemma sub_or_empty_dict:
  "dict_or_absent d k \<Longrightarrow> sub_or_empty (PDict d) k = Inr (PDict (sub_dict d k))"
  by (auto simp: dict_or_absent_def sub_or_empty_def sub_dict_def dget_or_def py_or_def is_dict_iff
      split: option.splits)

lemma limits_first_dict:
  assumes g: "per_user_limits g = PDict pu" "per_team_limits g = PDict pt"
    and c: "dict_or_absent rc ''per_tenant''" "dict_or_absent rc ''tiers''" "tier \<noteq> []"
  shows "get_limits_for_scope g user team tid tier (PDict rc) =
     Inr (dict_update (default_limits g)
       (first_dict [dget_or pu user PNone, dget_or pt team PNone,
          dget_or (sub_dict rc ''per_tenant'') tid PNone, dget_or (sub_dict rc ''tiers'') tier PNone]))"
    (is "?lhs = Inr (dict_update _ (first_dict [?u, ?t, ?n, ?r]))")
proof -
  have first: "first_dict (v # vs) = (case dict_of v of Some d \<Rightarrow> d | None \<Rightarrow> first_dict vs)" for v vs
    by (cases v) auto
  show ?thesis
    using c(3) g
    by (simp add: get_limits_for_scope_def first sub_or_empty_dict[OF c(1)] sub_or_empty_dict[OF c(2)]
        member_value_def split: option.split)
qed

section \<open>Properties\<close>

text \<open>
  The minute and hour buckets are private to a caller: two requests of sanitised tenants use the
  same bucket only if tenant, principal and team tag are the same, even when a principal
  contains the separator, and a minute bucket is never an hour bucket.
\<close>

lemma limiter_buckets_private:
  assumes "\<And>s. list_all hex_char (digest s)"
    and "safe_id (gc_tenant_id c1)" and "safe_id (gc_tenant_id c2)"
    and "minute_key (limiter_scope digest c1) = minute_key (limiter_scope digest c2) \<or>
         hour_key (limiter_scope digest c1) = hour_key (limiter_scope digest c2) \<or>
         minute_key (limiter_scope digest c1) = hour_key (limiter_scope digest c2)"
  shows "gc_tenant_id c1 = gc_tenant_id c2 \<and>
         (gc_principal c1 \<noteq> [] \<and> gc_principal c2 \<noteq> [] \<longrightarrow> gc_principal c1 = gc_principal c2) \<and>
         (gc_team c1 \<noteq> [] \<and> gc_team c2 \<noteq> [] \<longrightarrow>
            team_tag digest (gc_team c1) = team_tag digest (gc_team c2))"
proof -
  have eq: "limiter_scope digest c1 = limiter_scope digest c2"
    using assms(4) minute_hour_key_distinct by (auto simp: minute_key_def hour_key_def)
  show ?thesis
    using scope_parts_inject[OF safe_id_no_colon[OF assms(2)] safe_id_no_colon[OF assms(3)]
        team_tag_no_colon[OF assms(1)] team_tag_no_colon[OF assms(1)]
        eq[unfolded limiter_scope_def Let_def]] by auto
qed

definition sample_ctx :: "string \<Rightarrow> string \<Rightarrow> g00_ctx" where
  "sample_ctx tenant who =
     \<lparr>gc_config = [], gc_tenant_id = tenant, gc_pricing_tier = ''free'', gc_redis_prefix = [],
      gc_user_id = ''u'', gc_principal = who, gc_team = ''t''\<rparr>"

lemma limiter_buckets_private_witness:
  "minute_key (limiter_scope (\<lambda>_. ''0'') (sample_ctx ''a'' ''b:c'')) \<noteq>
   minute_key (limiter_scope (\<lambda>_. ''0'') (sample_ctx ''a'' ''b''))"
  using limiter_buckets_private[of "\<lambda>_. ''0''" "sample_ctx ''a'' ''b:c''" "sample_ctx ''a'' ''b''"]
  by (auto simp: sample_ctx_def safe_id_def hex_char_def is_digit_def id_char_def is_ascii_alnum_def
      is_ascii_alpha_def max_tenant_id_len_def)

text \<open>
  The most specific limits win, key by key: a limit comes from the mapping of the user, else of
  the team, else of the tenant, else of the tier (the first that is present), and what that mapping
  leaves out comes from the defaults.
\<close>

lemma most_specific_limits_win:
  assumes "per_user_limits g = PDict pu" and "per_team_limits g = PDict pt"
    and "dict_or_absent rc ''per_tenant''" and "dict_or_absent rc ''tiers''" and "tier \<noteq> []"
    and "ov = first_dict [dget_or pu user PNone, dget_or pt team PNone,
          dget_or (sub_dict rc ''per_tenant'') tid PNone, dget_or (sub_dict rc ''tiers'') tier PNone]"
    and "distinct (map fst ov)"
  shows "\<exists>limits. get_limits_for_scope g user team tid tier (PDict rc) = Inr limits \<and>
           (\<forall>k. dget limits k = (case dget ov k of Some v \<Rightarrow> Some v | None \<Rightarrow> dget (default_limits g) k))"
  using limits_first_dict[OF assms(1-5)] dget_dict_update[OF assms(7)] assms(6) by blast

lemma most_specific_limits_win_witness:
  "\<exists>limits. get_limits_for_scope
      \<lparr>default_limits = [(''requests_per_minute'', PInt 60), (''requests_per_hour'', PInt 1000)],
       per_user_limits = PDict [], per_team_limits = PDict [(''red'', PDict [(''requests_per_minute'', PInt 5)])]\<rparr>
      ''u'' ''red'' ''acme'' ''free'' (PDict [(''tiers'', PDict [(''free'', PDict [(''requests_per_minute'', PInt 1)])])])
      = Inr limits \<and> dget limits ''requests_per_minute'' = Some (PInt 5) \<and>
      dget limits ''requests_per_hour'' = Some (PInt 1000)"
  using most_specific_limits_win[of
      "\<lparr>default_limits = [(''requests_per_minute'', PInt 60), (''requests_per_hour'', PInt 1000)],
       per_user_limits = PDict [], per_team_limits = PDict [(''red'', PDict [(''requests_per_minute'', PInt 5)])]\<rparr>"
      "[]" "[(''red'', PDict [(''requests_per_minute'', PInt 5)])]"
      "[(''tiers'', PDict [(''free'', PDict [(''requests_per_minute'', PInt 1)])])]" "''free''"
      "[(''requests_per_minute'', PInt 5)]" "''u''" "''red''" "''acme''"]
  by (auto simp: dict_or_absent_def dget_or_def)


definition sample_limits_ctx :: g00_ctx where
  "sample_limits_ctx = (sample_ctx ''acme'' ''p'')\<lparr>gc_config := [(''rate_limit'', PDict [
     (''enabled'', PBool True), (''default'', PDict [(''requests_per_minute'', PInt 0)])])]\<rparr>"


text \<open>
  The gates are ordered: a request refused by the trial, the quota or the spend cap takes no token
  from any bucket and does not change the limiter's settings.
\<close>

lemma early_refusal_takes_no_token:
  assumes "g00_process_request fromiso digest month now ctx g r =
             ((g', r', es), Inl (Rate_Limit_Exceeded n l))"
    and "l \<noteq> ''requests_per_minute''" and "l \<noteq> ''requests_per_hour''"
  shows "r_buckets r' = r_buckets r \<and> g' = g"
  using g00_early[OF assms(1)] assms(2,3) by simp

definition sample_trial_ctx :: g00_ctx where
  "sample_trial_ctx = (sample_ctx ''acme'' ''p'')\<lparr>gc_config :=
     [(''rate_limit'', PDict [(''enabled'', PBool True), (''trial'', PDict [(''enabled'', PBool True)])]),
      (''trial'', PDict [(''status'', PStr ''cancelled'')])]\<rparr>"

lemma early_refusal_takes_no_token_witness:
  "\<exists>g' r' es. g00_process_request (\<lambda>_. None) (\<lambda>_. ''0'') ''202601'' 5 sample_trial_ctx new_g00
     \<lparr>r_mode = Redis_Ok, r_strings = [], r_buckets = [(''b'', (1, 0))]\<rparr> =
     ((g', r', es), Inl (Rate_Limit_Exceeded 86400 ''trial_expired'')) \<and> r_buckets r' = [(''b'', (1, 0))]"
proof -
  obtain g' r' es where s: "g00_process_request (\<lambda>_. None) (\<lambda>_. ''0'') ''202601'' 5 sample_trial_ctx new_g00
     \<lparr>r_mode = Redis_Ok, r_strings = [], r_buckets = [(''b'', (1, 0))]\<rparr> =
     ((g', r', es), Inl (Rate_Limit_Exceeded 86400 ''trial_expired''))"
    by (simp add: g00_process_request_def sample_trial_ctx_def sample_ctx_def run_gate_def check_trial_def
        dget_or_def sub_or_empty_def py_or_def in_exempt_def py_iter_def hashable_def trial_summary_def
        refuse_trial_def redis_setnx_def Let_def)
  show ?thesis using early_refusal_takes_no_token[OF s] s by simp
qed

text \<open>
  The quota and spend gates read the counters the accounting writes exactly for tenants with a
  namespace: for the default tenant, whose Redis prefix is empty, the counters go under
  \<open>t:default:\<close> and the gates look under the bare key.
\<close>

lemma counters_meet_gates_iff_namespaced:
  "(quota_key (counter_prefix ctx) month = quota_key (gc_redis_prefix ctx) month \<longleftrightarrow> gc_redis_prefix ctx \<noteq> []) \<and>
   (spend_key (counter_prefix ctx) month = spend_key (gc_redis_prefix ctx) month \<longleftrightarrow> gc_redis_prefix ctx \<noteq> [])"
  by (simp add: counter_prefix_def quota_key_def spend_key_def)

text \<open>
  The fallback is not all or nothing: when the hour window refuses, the minute window has already
  lost the token of the refused request.
\<close>

lemma fallback_hour_refusal_takes_minute_token:
  assumes "r_mode r = Redis_No_Eval"
    and "limit_of limits ''requests_per_minute'' = Inr cap_m" and "limit_of limits ''requests_per_hour'' = Inr cap_h"
    and "mk \<noteq> hk"
    and "1 \<le> fallback_window cap_m (cap_m / 60) (dget (r_buckets r) mk) now"
    and "fallback_window cap_h (cap_h / 3600) (dget (r_buckets r) hk) now < 1"
  shows "\<exists>r'. consume r mk hk limits now = (r', Inr (Some ''hour'')) \<and>
     dget (r_buckets r') mk =
       Some (fallback_window cap_m (cap_m / 60) (dget (r_buckets r) mk) now - 1, now)"
  using assms
  by (simp add: consume_def check_token_bucket_def fallback_window_def pd.lookup_put Let_def)

lemma fallback_hour_refusal_takes_minute_token_witness:
  "\<exists>r'. consume \<lparr>r_mode = Redis_No_Eval, r_strings = [], r_buckets = []\<rparr> ''m'' ''h''
      [(''requests_per_minute'', PInt 5), (''requests_per_hour'', PInt 0)] 7 = (r', Inr (Some ''hour'')) \<and>
     dget (r_buckets r') ''m'' = Some (4, 7)"
  using fallback_hour_refusal_takes_minute_token[of
      "\<lparr>r_mode = Redis_No_Eval, r_strings = [], r_buckets = []\<rparr>"
      "[(''requests_per_minute'', PInt 5), (''requests_per_hour'', PInt 0)]" 5 0 "''m''" "''h''" 7]
  by (simp add: limit_of_def fallback_window_def fallback_level_def live_def)

end
