(* ===== verification/Circuit_Breaker.thy ===== *)
theory Circuit_Breaker
  imports Py_Prelude
begin

text \<open>
  \<open>providers/resilience.py\<close>, first half: error classification, the circuit breaker, the
  resolved settings, and the per-worker store of breakers, model lockouts and tenant
  cooldowns. The monotonic clock is the argument \<open>now\<close>. The interface a caller relies on (a
  gate that opens for healthy traffic) is the locale \<open>health_gate\<close>, interpreted on the
  breaker; the lemmas add when a breaker trips, that a half-open breaker admits one probe at a
  time, and which keys of the store an operation touches.
\<close>

section \<open>Errors\<close>

record perr =
  status_code :: "int option"
  class_name :: string

definition retryable_non_5xx :: "int set" where
  "retryable_non_5xx = {408, 409, 425, 429}"

definition retryable_names :: "string set" where
  "retryable_names =
     {''RateLimitError'', ''Timeout'', ''APITimeoutError'', ''APIConnectionError'',
      ''InternalServerError'', ''ServiceUnavailableError'', ''APIError''}"

definition is_retryable_error :: "perr \<Rightarrow> bool" where
  "is_retryable_error e =
     (case status_code e of
        Some st \<Rightarrow> st \<ge> 500 \<or> st \<in> retryable_non_5xx
      | None \<Rightarrow> class_name e \<in> retryable_names)"

definition is_rate_limit_error :: "perr \<Rightarrow> bool" where
  "is_rate_limit_error e =
     (case status_code e of Some st \<Rightarrow> st = 429 | None \<Rightarrow> class_name e = ''RateLimitError'')"

definition describe_error :: "perr \<Rightarrow> string" where
  "describe_error e =
     (case status_code e of
        Some st \<Rightarrow> class_name e @ ''(status='' @ int_str st @ '')''
      | None \<Rightarrow> class_name e)"

lemma rate_limit_retryable: "is_rate_limit_error e \<Longrightarrow> is_retryable_error e"
  by (auto simp: is_rate_limit_error_def is_retryable_error_def retryable_non_5xx_def
      retryable_names_def split: option.splits)

text \<open>A provider-health failure: what feeds the breakers.\<close>

definition health_failure :: "perr \<Rightarrow> bool" where
  "health_failure e \<longleftrightarrow> is_retryable_error e \<and> \<not> is_rate_limit_error e"

section \<open>The breaker\<close>

datatype breaker_state = CLOSED | OPEN | HALF_OPEN

definition breaker_state_code :: "breaker_state \<Rightarrow> nat" where
  "breaker_state_code s = (case s of CLOSED \<Rightarrow> 0 | HALF_OPEN \<Rightarrow> 1 | OPEN \<Rightarrow> 2)"

record breaker =
  failure_threshold :: int
  cooldown_seconds :: rat
  failures :: int
  b_state :: breaker_state
  opened_at :: rat
  probe_started_at :: "rat option"

definition new_breaker :: "int \<Rightarrow> rat \<Rightarrow> breaker" where
  "new_breaker threshold cooldown =
     \<lparr>failure_threshold = threshold, cooldown_seconds = cooldown, failures = 0,
      b_state = CLOSED, opened_at = 0, probe_started_at = None\<rparr>"

definition configure :: "int \<Rightarrow> rat \<Rightarrow> breaker \<Rightarrow> breaker" where
  "configure threshold cooldown b =
     b\<lparr>failure_threshold := threshold, cooldown_seconds := cooldown\<rparr>"

definition allow_request :: "rat \<Rightarrow> breaker \<Rightarrow> bool \<times> breaker" where
  "allow_request now b =
     (case b_state b of
        OPEN \<Rightarrow>
          if now - opened_at b < cooldown_seconds b then (False, b)
          else (True, b\<lparr>b_state := HALF_OPEN, probe_started_at := Some now\<rparr>)
      | CLOSED \<Rightarrow> (True, b)
      | HALF_OPEN \<Rightarrow>
          (case probe_started_at b of
             Some p \<Rightarrow>
               if now - p < cooldown_seconds b then (False, b)
               else (True, b\<lparr>probe_started_at := Some now\<rparr>)
           | None \<Rightarrow> (True, b\<lparr>probe_started_at := Some now\<rparr>)))"

definition peek_state :: "rat \<Rightarrow> breaker \<Rightarrow> breaker_state" where
  "peek_state now b =
     (if b_state b = OPEN \<and> now - opened_at b \<ge> cooldown_seconds b then HALF_OPEN else b_state b)"

definition record_success :: "breaker \<Rightarrow> breaker" where
  "record_success b = b\<lparr>failures := 0, b_state := CLOSED\<rparr>"

definition record_failure :: "rat \<Rightarrow> breaker \<Rightarrow> breaker" where
  "record_failure now b =
     (if b_state b = HALF_OPEN then b\<lparr>b_state := OPEN, opened_at := now\<rparr>
      else (let b' = b\<lparr>failures := failures b + 1\<rparr>
            in if failures b' \<ge> failure_threshold b'
               then b'\<lparr>b_state := OPEN, opened_at := now\<rparr>
               else b'))"

section \<open>The contract of a health gate\<close>

datatype gate_event = Ask rat | Success | Failure rat

fun gate_step ::
  "(rat \<Rightarrow> 'g \<Rightarrow> bool \<times> 'g) \<Rightarrow> ('g \<Rightarrow> 'g) \<Rightarrow> (rat \<Rightarrow> 'g \<Rightarrow> 'g) \<Rightarrow> 'g \<Rightarrow> gate_event \<Rightarrow> 'g" where
  "gate_step ask ok bad g (Ask t) = snd (ask t g)"
| "gate_step ask ok bad g Success = ok g"
| "gate_step ask ok bad g (Failure t) = bad t g"

text \<open>No streak of failures without a success in between reaches \<open>c\<close>; \<open>k\<close> is the current one.\<close>

fun streaks_below :: "int \<Rightarrow> int \<Rightarrow> gate_event list \<Rightarrow> bool" where
  "streaks_below c k [] = True"
| "streaks_below c k (Ask t # es) = streaks_below c k es"
| "streaks_below c k (Success # es) = streaks_below c 0 es"
| "streaks_below c k (Failure t # es) = (k + 1 < c \<and> streaks_below c (k + 1) es)"

locale health_gate =
  fixes ask :: "rat \<Rightarrow> 'g \<Rightarrow> bool \<times> 'g"
    and ok :: "'g \<Rightarrow> 'g"
    and bad :: "rat \<Rightarrow> 'g \<Rightarrow> 'g"
    and healthy :: "'g \<Rightarrow> bool"
    and streak :: "'g \<Rightarrow> int"
    and limit :: "'g \<Rightarrow> int"
  assumes ask_healthy: "healthy g \<Longrightarrow> ask t g = (True, g)"
    and ok_healthy: "healthy (ok g) \<and> streak (ok g) = 0 \<and> limit (ok g) = limit g"
    and bad_healthy: "healthy g \<Longrightarrow> streak g + 1 < limit g \<Longrightarrow>
      healthy (bad t g) \<and> streak (bad t g) = streak g + 1 \<and> limit (bad t g) = limit g"
    and bad_trips: "healthy g \<Longrightarrow> limit g \<le> streak g + 1 \<Longrightarrow> \<not> healthy (bad t g)"
begin

lemma run_healthy:
  "healthy g \<Longrightarrow> streaks_below (limit g) (streak g) es \<Longrightarrow>
   healthy (foldl (gate_step ask ok bad) g es) \<and>
   limit (foldl (gate_step ask ok bad) g es) = limit g"
proof (induction es arbitrary: g)
  case Nil
  then show ?case by simp
next
  case (Cons e es)
  show ?case
  proof (cases e)
    case (Ask t)
    then show ?thesis using Cons by (simp add: ask_healthy)
  next
    case Success
    then show ?thesis using Cons.IH[of "ok g"] Cons.prems ok_healthy[of g] by simp
  next
    case (Failure t)
    then show ?thesis using Cons.IH[of "bad t g"] Cons.prems bad_healthy[of g t] by simp
  qed
qed

lemma run_allows:
  "healthy g \<Longrightarrow> streaks_below (limit g) (streak g) es \<Longrightarrow>
   fst (ask t (foldl (gate_step ask ok bad) g es))"
  using run_healthy[of g es] by (simp add: ask_healthy)

lemma full_streak_trips:
  "healthy g \<Longrightarrow> int (length ts) + streak g = limit g - 1 \<Longrightarrow>
   \<not> healthy (bad t (foldl (gate_step ask ok bad) g (map Failure ts)))"
proof (induction ts arbitrary: g)
  case Nil
  then show ?case using bad_trips[of g t] by simp
next
  case (Cons u ts)
  have "healthy (bad u g) \<and> streak (bad u g) = streak g + 1 \<and> limit (bad u g) = limit g"
    using Cons.prems by (intro bad_healthy) auto
  then show ?case using Cons.IH[of "bad u g"] Cons.prems by simp
qed

end

interpretation cb: health_gate allow_request record_success record_failure
  "\<lambda>b. b_state b = CLOSED" failures failure_threshold
  by unfold_locales (auto simp: allow_request_def record_success_def record_failure_def Let_def)

section \<open>Half-open breakers\<close>

lemma allow_request_half_open:
  "allow_request now b = (True, b') \<Longrightarrow> b_state b \<noteq> CLOSED \<Longrightarrow>
   b_state b' = HALF_OPEN \<and> probe_started_at b' = Some now \<and> cooldown_seconds b' = cooldown_seconds b"
  by (auto simp: allow_request_def split: breaker_state.splits option.splits if_splits)

lemma probe_in_flight:
  "b_state b = HALF_OPEN \<Longrightarrow> probe_started_at b = Some p \<Longrightarrow> now - p < cooldown_seconds b \<Longrightarrow>
   allow_request now b = (False, b)"
  by (simp add: allow_request_def)

lemma open_refuses:
  "b_state b = OPEN \<Longrightarrow> now - opened_at b < cooldown_seconds b \<Longrightarrow> allow_request now b = (False, b)"
  by (simp add: allow_request_def)

lemma asks_refused:
  "b_state b = HALF_OPEN \<Longrightarrow> probe_started_at b = Some p \<Longrightarrow>
   (\<And>u. u \<in> set ts \<Longrightarrow> u - p < cooldown_seconds b) \<Longrightarrow>
   foldl (gate_step allow_request record_success record_failure) b (map Ask ts) = b"
  by (induction ts) (auto simp: probe_in_flight)

lemma peek_state_allow:
  "peek_state now b = OPEN \<longleftrightarrow> b_state b = OPEN \<and> fst (allow_request now b) = False"
  by (auto simp: peek_state_def allow_request_def split: if_splits)

section \<open>Settings\<close>

definition default_request_timeout_seconds :: rat where
  "default_request_timeout_seconds = 300"

definition timeout_seconds :: "pyval \<Rightarrow> rat" where
  "timeout_seconds value =
     (case py_float value of
        None \<Rightarrow> default_request_timeout_seconds
      | Some s \<Rightarrow> if s > 0 then s else default_request_timeout_seconds)"

record resilience_config =
  rc_enabled :: bool
  rc_num_retries :: int
  rc_failure_threshold :: int
  rc_cooldown_seconds :: rat
  rc_retry_base_delay :: rat
  rc_fallbacks :: pydict
  rc_model_lockout :: bool
  rc_model_failure_threshold :: int
  rc_model_lockout_seconds :: rat
  rc_request_timeout_seconds :: rat

text \<open>The litellm arguments of one attempt: its timeout, and no client retries when enabled.\<close>

definition call_limits :: "resilience_config \<Rightarrow> rat \<times> nat option" where
  "call_limits cfg =
     (rc_request_timeout_seconds cfg, if rc_enabled cfg then Some 0 else None)"

definition get_int :: "pydict \<Rightarrow> string \<Rightarrow> int \<Rightarrow> pyexc + int" where
  "get_int d k dflt =
     (case py_int (dget_or d k (PInt dflt)) of None \<Rightarrow> Inl ValueError | Some i \<Rightarrow> Inr i)"

definition get_float :: "pydict \<Rightarrow> string \<Rightarrow> rat \<Rightarrow> pyexc + rat" where
  "get_float d k dflt =
     (case py_float (dget_or d k (PFloat dflt)) of None \<Rightarrow> Inl ValueError | Some x \<Rightarrow> Inr x)"

text \<open>\<open>dict(v or {})\<close>, and \<open>base.update(v or {})\<close> of the first provider with that name.\<close>

definition as_dict :: "pyval \<Rightarrow> pyexc + pydict" where
  "as_dict v = (case py_or v (PDict []) of PDict d \<Rightarrow> Inr d | _ \<Rightarrow> Inl TypeError)"

fun provider_override :: "string \<Rightarrow> pyval list \<Rightarrow> pyexc + pydict" where
  "provider_override provider [] = Inr []"
| "provider_override provider (p # ps) =
     (case py_get p ''name'' PNone of
        Inl e \<Rightarrow> Inl e
      | Inr n \<Rightarrow>
          if n = PStr provider
          then bind_res (py_get p ''resilience'' (PDict [])) as_dict
          else provider_override provider ps)"

definition providers_of :: "pydict \<Rightarrow> pyexc + pyval list" where
  "providers_of config =
     (case py_or (dget_or config ''providers'' (PList [])) (PList []) of
        PList ps \<Rightarrow> Inr ps
      | PStr _ \<Rightarrow> Inl AttributeError
      | PDict _ \<Rightarrow> Inl AttributeError
      | _ \<Rightarrow> Inl TypeError)"

definition resolve :: "pydict \<Rightarrow> string \<Rightarrow> pyexc + resilience_config" where
  "resolve config provider =
     bind_res (as_dict (dget_or config ''resilience'' (PDict []))) (\<lambda>base0.
     bind_res (if provider = [] then Inr []
               else bind_res (providers_of config) (provider_override provider)) (\<lambda>ov.
     (let base = fold (\<lambda>(k, v). dset k v) ov base0 in
     bind_res (get_float base ''cooldown_seconds'' 30) (\<lambda>cooldown.
     bind_res (get_int base ''num_retries'' 1) (\<lambda>retries.
     bind_res (get_int base ''failure_threshold'' 5) (\<lambda>threshold.
     bind_res (get_float base ''retry_base_delay'' (1 / 5)) (\<lambda>delay.
     bind_res (as_dict (dget_or base ''fallbacks'' (PDict []))) (\<lambda>fallbacks.
     bind_res (get_int base ''model_failure_threshold'' 3) (\<lambda>mthreshold.
     bind_res (get_float base ''model_lockout_seconds'' cooldown) (\<lambda>mlock.
       Inr \<lparr>rc_enabled = py_truthy (dget_or base ''enabled'' (PBool False)),
            rc_num_retries = retries, rc_failure_threshold = threshold,
            rc_cooldown_seconds = cooldown, rc_retry_base_delay = delay,
            rc_fallbacks = fallbacks,
            rc_model_lockout = py_truthy (dget_or base ''model_lockout'' (PBool False)),
            rc_model_failure_threshold = mthreshold, rc_model_lockout_seconds = mlock,
            rc_request_timeout_seconds =
              timeout_seconds (dget_or base ''request_timeout_seconds''
                                (PFloat default_request_timeout_seconds))\<rparr>))))))))))"

lemma timeout_seconds_pos: "0 < timeout_seconds v"
  by (auto simp: timeout_seconds_def default_request_timeout_seconds_def split: option.splits)

lemma resolve_timeout_pos: "resolve config provider = Inr cfg \<Longrightarrow> 0 < rc_request_timeout_seconds cfg"
  by (auto simp: resolve_def bind_res_Inr Let_def timeout_seconds_pos)

section \<open>The store\<close>

record rstore =
  breakers :: "(string \<times> breaker) list"
  model_breakers :: "(string \<times> breaker) list"
  cooldowns :: "(string \<times> rat) list"

definition new_store :: rstore where
  "new_store = \<lparr>breakers = [], model_breakers = [], cooldowns = []\<rparr>"

definition pair_key :: "string \<Rightarrow> string \<Rightarrow> string" where
  "pair_key a b = a @ ''|'' @ b"

text \<open>The breaker of a provider, created or reconfigured on every access.\<close>

definition get_breaker :: "rstore \<Rightarrow> string \<Rightarrow> resilience_config \<Rightarrow> breaker" where
  "get_breaker s provider cfg =
     (case dget (breakers s) provider of
        None \<Rightarrow> new_breaker (rc_failure_threshold cfg) (rc_cooldown_seconds cfg)
      | Some b \<Rightarrow> configure (rc_failure_threshold cfg) (rc_cooldown_seconds cfg) b)"

definition put_breaker :: "rstore \<Rightarrow> string \<Rightarrow> breaker \<Rightarrow> rstore" where
  "put_breaker s provider b = s\<lparr>breakers := dset provider b (breakers s)\<rparr>"

definition get_model_breaker :: "rstore \<Rightarrow> string \<Rightarrow> string \<Rightarrow> resilience_config \<Rightarrow> breaker" where
  "get_model_breaker s provider model cfg =
     (case dget (model_breakers s) (pair_key provider model) of
        None \<Rightarrow> new_breaker (rc_model_failure_threshold cfg) (rc_model_lockout_seconds cfg)
      | Some b \<Rightarrow> configure (rc_model_failure_threshold cfg) (rc_model_lockout_seconds cfg) b)"

definition put_model_breaker :: "rstore \<Rightarrow> string \<Rightarrow> string \<Rightarrow> breaker \<Rightarrow> rstore" where
  "put_model_breaker s provider model b =
     s\<lparr>model_breakers := dset (pair_key provider model) b (model_breakers s)\<rparr>"

definition allow_provider :: "rat \<Rightarrow> rstore \<Rightarrow> string \<Rightarrow> resilience_config \<Rightarrow> bool \<times> rstore" where
  "allow_provider now s provider cfg =
     (case allow_request now (get_breaker s provider cfg) of (a, b) \<Rightarrow> (a, put_breaker s provider b))"

definition record_provider_success :: "rstore \<Rightarrow> string \<Rightarrow> resilience_config \<Rightarrow> rstore" where
  "record_provider_success s provider cfg =
     put_breaker s provider (record_success (get_breaker s provider cfg))"

definition record_provider_failure ::
  "rat \<Rightarrow> rstore \<Rightarrow> string \<Rightarrow> resilience_config \<Rightarrow> breaker_state \<times> rstore" where
  "record_provider_failure now s provider cfg =
     (let b = record_failure now (get_breaker s provider cfg)
      in (b_state b, put_breaker s provider b))"

definition store_breaker_state :: "rstore \<Rightarrow> string \<Rightarrow> resilience_config \<Rightarrow> breaker_state \<times> rstore" where
  "store_breaker_state s provider cfg =
     (let b = get_breaker s provider cfg in (b_state b, put_breaker s provider b))"

definition peek_provider_state :: "rat \<Rightarrow> rstore \<Rightarrow> string \<Rightarrow> breaker_state" where
  "peek_provider_state now s provider =
     (case dget (breakers s) provider of None \<Rightarrow> CLOSED | Some b \<Rightarrow> peek_state now b)"

definition allow_model ::
  "rat \<Rightarrow> rstore \<Rightarrow> string \<Rightarrow> string \<Rightarrow> resilience_config \<Rightarrow> bool \<times> rstore" where
  "allow_model now s provider model cfg =
     (case allow_request now (get_model_breaker s provider model cfg) of
        (a, b) \<Rightarrow> (a, put_model_breaker s provider model b))"

definition record_model_success :: "rstore \<Rightarrow> string \<Rightarrow> string \<Rightarrow> resilience_config \<Rightarrow> rstore" where
  "record_model_success s provider model cfg =
     put_model_breaker s provider model (record_success (get_model_breaker s provider model cfg))"

definition record_model_failure ::
  "rat \<Rightarrow> rstore \<Rightarrow> string \<Rightarrow> string \<Rightarrow> resilience_config \<Rightarrow> breaker_state \<times> rstore" where
  "record_model_failure now s provider model cfg =
     (let b = record_failure now (get_model_breaker s provider model cfg)
      in (b_state b, put_model_breaker s provider model b))"

definition peek_model_state :: "rat \<Rightarrow> rstore \<Rightarrow> string \<Rightarrow> string \<Rightarrow> breaker_state" where
  "peek_model_state now s provider model =
     (case dget (model_breakers s) (pair_key provider model) of
        None \<Rightarrow> CLOSED | Some b \<Rightarrow> peek_state now b)"

definition has_model_breaker :: "rstore \<Rightarrow> string \<Rightarrow> string \<Rightarrow> bool" where
  "has_model_breaker s provider model \<longleftrightarrow> dget (model_breakers s) (pair_key provider model) \<noteq> None"

definition set_cooldown :: "rat \<Rightarrow> rstore \<Rightarrow> string \<Rightarrow> string \<Rightarrow> rat \<Rightarrow> rstore" where
  "set_cooldown now s redis_prefix provider ttl =
     s\<lparr>cooldowns := dset (pair_key redis_prefix provider) (now + ttl) (cooldowns s)\<rparr>"

definition in_cooldown :: "rat \<Rightarrow> rstore \<Rightarrow> string \<Rightarrow> string \<Rightarrow> bool \<times> rstore" where
  "in_cooldown now s redis_prefix provider =
     (case dget (cooldowns s) (pair_key redis_prefix provider) of
        None \<Rightarrow> (False, s)
      | Some expiry \<Rightarrow>
          if now \<ge> expiry
          then (False, s\<lparr>cooldowns := dpop (pair_key redis_prefix provider) (cooldowns s)\<rparr>)
          else (True, s))"

text \<open>
  \<open>note_provider_outcome\<close>: an outcome observed outside the caller. Settings that cannot be
  resolved are swallowed.
\<close>

definition note_provider_outcome ::
  "rat \<Rightarrow> rstore \<Rightarrow> string \<Rightarrow> perr option \<Rightarrow> pydict \<Rightarrow> rstore" where
  "note_provider_outcome now s provider exc config =
     (if provider = [] then s
      else (case resolve config provider of
              Inl _ \<Rightarrow> s
            | Inr cfg \<Rightarrow>
                if \<not> rc_enabled cfg then s
                else (case exc of
                        None \<Rightarrow> record_provider_success s provider cfg
                      | Some e \<Rightarrow>
                          if is_retryable_error e \<and> \<not> is_rate_limit_error e
                          then snd (record_provider_failure now s provider cfg)
                          else s)))"

lemma note_rate_limit: "is_rate_limit_error e \<Longrightarrow> note_provider_outcome now s p (Some e) config = s"
  by (simp add: note_provider_outcome_def split: sum.split)

lemma cooldown_lifetime:
  "0 \<le> t' - t \<Longrightarrow> fst (in_cooldown t' (set_cooldown t s pre prov ttl) pre prov) \<longleftrightarrow> t' - t < ttl"
  by (auto simp: in_cooldown_def set_cooldown_def pd.put_get)

text \<open>Tenants with disjoint namespaces have different cooldown keys.\<close>

lemma cooldown_frame:
  "pair_key pre prov \<noteq> pair_key pre' prov' \<Longrightarrow>
   fst (in_cooldown t (set_cooldown now s pre prov ttl) pre' prov') = fst (in_cooldown t s pre' prov')"
  by (simp add: in_cooldown_def set_cooldown_def dget_dset split: option.splits)

section \<open>Properties\<close>

lemma foldl_failures_state:
  "b_state b = CLOSED \<Longrightarrow> failures b + int (length ts) < failure_threshold b \<Longrightarrow>
   b_state (foldl (gate_step allow_request record_success record_failure) b (map Failure ts)) = CLOSED \<and>
   failures (foldl (gate_step allow_request record_success record_failure) b (map Failure ts)) =
     failures b + int (length ts) \<and>
   failure_threshold (foldl (gate_step allow_request record_success record_failure) b (map Failure ts)) =
     failure_threshold b \<and>
   cooldown_seconds (foldl (gate_step allow_request record_success record_failure) b (map Failure ts)) =
     cooldown_seconds b"
proof (induction ts arbitrary: b)
  case Nil
  then show ?case by simp
next
  case (Cons t ts)
  then show ?case using Cons.IH[of "record_failure t b"] by (simp add: record_failure_def Let_def)
qed

text \<open>
  A closed breaker stays closed and lets every request through, at any time, as long as no streak of
  failures without a success in between reaches the threshold.
\<close>

lemma breaker_tolerates_short_streaks:
  assumes "b_state b = CLOSED" and "streaks_below (failure_threshold b) (failures b) es"
  defines "b' \<equiv> foldl (gate_step allow_request record_success record_failure) b es"
  shows "b_state b' = CLOSED \<and> (\<forall>t. allow_request t b' = (True, b'))"
  unfolding b'_def using cb.run_healthy[OF assms(1,2)] cb.ask_healthy by blast

lemma breaker_tolerates_short_streaks_witness:
  "b_state (foldl (gate_step allow_request record_success record_failure) (new_breaker 3 30)
     [Failure 1, Failure 2, Success, Failure 3, Ask 4, Failure 5]) = CLOSED"
  using breaker_tolerates_short_streaks[of "new_breaker 3 30"
      "[Failure 1, Failure 2, Success, Failure 3, Ask 4, Failure 5]"]
  by (simp add: new_breaker_def)

text \<open>
  The failure that completes a streak of exactly the threshold opens the breaker: it refuses until the
  cooldown has passed since that failure, and the first request after it is let through as the probe.
\<close>

lemma breaker_trips_at_threshold:
  assumes "b_state b = CLOSED" and "failures b + int (length ts) = failure_threshold b - 1"
    and "b' = record_failure t (foldl (gate_step allow_request record_success record_failure) b (map Failure ts))"
  shows "b_state b' = OPEN \<and>
         (\<forall>u. fst (allow_request u b') \<longleftrightarrow> cooldown_seconds b \<le> u - t) \<and>
         (\<forall>u. cooldown_seconds b \<le> u - t \<longrightarrow> b_state (snd (allow_request u b')) = HALF_OPEN)"
proof -
  let ?c = "foldl (gate_step allow_request record_success record_failure) b (map Failure ts)"
  have "b' = ?c\<lparr>failures := failures ?c + 1, b_state := OPEN, opened_at := t\<rparr>"
    using foldl_failures_state[of b ts] assms by (simp add: record_failure_def Let_def)
  moreover have "cooldown_seconds ?c = cooldown_seconds b"
    using foldl_failures_state[of b ts] assms(1,2) by simp
  ultimately show ?thesis by (simp add: allow_request_def)
qed

lemma breaker_trips_at_threshold_witness:
  "b_state (record_failure 3 (foldl (gate_step allow_request record_success record_failure)
     (new_breaker 3 30) (map Failure [1, 2]))) = OPEN"
  using breaker_trips_at_threshold[OF _ _ refl, of "new_breaker 3 30" "[1, 2]" 3] by (simp add: new_breaker_def)

text \<open>
  One probe at a time: once an open or half-open breaker lets a request through, no other is
  admitted before the cooldown has passed or the probe's outcome is in; a success closes the
  breaker and a failure opens it again for a full cooldown.
\<close>

lemma half_open_admits_one_probe:
  assumes "allow_request p b = (True, b')" and "b_state b \<noteq> CLOSED"
    and "\<forall>u \<in> set ts. u - p < cooldown_seconds b" and "now - p < cooldown_seconds b"
  defines "b'' \<equiv> foldl (gate_step allow_request record_success record_failure) b' (map Ask ts)"
  shows "b'' = b' \<and> allow_request now b'' = (False, b') \<and>
         b_state (record_success b'') = CLOSED \<and> failures (record_success b'') = 0 \<and>
         (\<forall>u. u - now < cooldown_seconds b \<longrightarrow> \<not> fst (allow_request u (record_failure now b'')))"
proof -
  have h: "b_state b' = HALF_OPEN" "probe_started_at b' = Some p" "cooldown_seconds b' = cooldown_seconds b"
    using allow_request_half_open[OF assms(1,2)] by simp_all
  have "b'' = b'" unfolding b''_def using h assms(3) by (intro asks_refused[of _ p]) auto
  then show ?thesis
    using h assms(4) probe_in_flight[of b' p now]
    by (simp add: record_success_def record_failure_def allow_request_def)
qed

lemma half_open_admits_one_probe_witness:
  "fst (allow_request 45 (foldl (gate_step allow_request record_success record_failure)
     ((new_breaker 3 30)\<lparr>b_state := HALF_OPEN, probe_started_at := Some 40\<rparr>) (map Ask [41, 42]))) = False"
  using half_open_admits_one_probe[of 40 "(new_breaker 3 30)\<lparr>b_state := OPEN\<rparr>"
      "(new_breaker 3 30)\<lparr>b_state := HALF_OPEN, probe_started_at := Some 40\<rparr>" "[41, 42]" 45]
  by (simp add: new_breaker_def allow_request_def)

end
