(* ===== verification/Failover.thy ===== *)
theory Failover
  imports Circuit_Breaker
begin

text \<open>
  \<open>call_with_resilience\<close> of \<open>providers/resilience.py\<close>: the ordered attempt of several
  targets with gates, retries and failover. What the providers answer is a script: the
  \<open>k\<close>-th call of the \<open>i\<close>-th target returns \<open>script i k\<close>, an error or a value, and how long
  it took. Time is part of the state and advances by the calls and the back-off sleeps. The
  state also keeps the sequence of the calls made. Cancellation, which the code lets through, is outside
  the model.
\<close>

section \<open>State and results\<close>

record call_target =
  ct_model :: string
  ct_provider :: string
  ct_has_key :: bool

datatype outcome =
    Success_Outcome
  | Error_Outcome
  | Skipped_Breaker
  | Skipped_Cooldown
  | Skipped_No_Key
  | Skipped_Model_Lockout

record attempt =
  at_provider :: string
  at_model :: string
  at_outcome :: outcome
  at_error :: string
  at_transient :: bool

record call_state =
  cs_store :: rstore
  cs_now :: rat
  cs_attempts :: "attempt list"
  cs_last_error :: "perr option"
  cs_calls :: "(nat \<times> nat) list"

type_synonym 'a script = "nat \<Rightarrow> nat \<Rightarrow> (perr + 'a) \<times> rat"

datatype 'a target_result = Got 'a | Next_Target | Reraise perr

datatype 'a call_result =
    Served nat 'a
  | Reraised perr
  | All_Targets_Failed "attempt list" "perr option"

definition add_attempt :: "call_target \<Rightarrow> outcome \<Rightarrow> string \<Rightarrow> bool \<Rightarrow> call_state \<Rightarrow> call_state" where
  "add_attempt t oc err transient s =
     s\<lparr>cs_attempts := cs_attempts s @
         [\<lparr>at_provider = ct_provider t, at_model = ct_model t, at_outcome = oc,
           at_error = err, at_transient = transient\<rparr>]\<rparr>"

section \<open>One target\<close>

text \<open>The signals of a failed call: the provider's breaker and the model's lockout.\<close>

definition feed_failure :: "resilience_config \<Rightarrow> call_target \<Rightarrow> perr \<Rightarrow> rat \<Rightarrow> rstore \<Rightarrow> rstore" where
  "feed_failure cfg t e now st =
     (if rc_enabled cfg \<and> is_retryable_error e \<and> \<not> is_rate_limit_error e
      then (let st1 = snd (record_provider_failure now st (ct_provider t) cfg)
            in if rc_model_lockout cfg
               then snd (record_model_failure now st1 (ct_provider t) (ct_model t) cfg)
               else st1)
      else st)"

definition feed_success :: "resilience_config \<Rightarrow> call_target \<Rightarrow> rstore \<Rightarrow> rstore" where
  "feed_success cfg t st =
     (if rc_enabled cfg
      then (let st1 = record_provider_success st (ct_provider t) cfg
            in if rc_model_lockout cfg
               then record_model_success st1 (ct_provider t) (ct_model t) cfg
               else st1)
      else st)"

text \<open>The retry loop: \<open>left\<close> tries remain, \<open>k\<close> is \<open>attempt_i\<close>.\<close>

fun try_target ::
  "'a script \<Rightarrow> resilience_config \<Rightarrow> string \<Rightarrow> nat \<Rightarrow> call_target \<Rightarrow> nat \<Rightarrow> nat \<Rightarrow> call_state
   \<Rightarrow> call_state \<times> 'a target_result" where
  "try_target script cfg redis_prefix i t 0 k s = (s, Next_Target)"
| "try_target script cfg redis_prefix i t (Suc left) k s =
     (case script i k of (result, duration) \<Rightarrow>
       (let s1 = s\<lparr>cs_now := cs_now s + duration, cs_calls := cs_calls s @ [(i, k)]\<rparr> in
        case result of
          Inr v \<Rightarrow>
            (add_attempt t Success_Outcome [] False
               (s1\<lparr>cs_store := feed_success cfg t (cs_store s1)\<rparr>), Got v)
        | Inl e \<Rightarrow>
            (let retryable = is_retryable_error e;
                 rate_limited = is_rate_limit_error e;
                 s2 = s1\<lparr>cs_last_error := Some e,
                         cs_store := feed_failure cfg t e (cs_now s1) (cs_store s1)\<rparr>
             in if retryable \<and> left \<noteq> 0
                then try_target script cfg redis_prefix i t left (Suc k)
                       (s2\<lparr>cs_now := cs_now s2 + rc_retry_base_delay cfg * 2 ^ k\<rparr>)
                else
                  (let s3 = add_attempt t Error_Outcome (describe_error e)
                              (retryable \<and> \<not> rate_limited) s2;
                       s4 = (if rc_enabled cfg \<and> rate_limited
                             then s3\<lparr>cs_store := set_cooldown (cs_now s3) (cs_store s3) redis_prefix
                                                   (ct_provider t) (rc_cooldown_seconds cfg)\<rparr>
                             else s3)
                   in (s4, if \<not> retryable \<and> i = 0 then Reraise e else Next_Target)))))"

section \<open>The gates\<close>

text \<open>
  The three gates, evaluated lazily: a later one is asked only when the earlier ones let the
  target through, so a skipped target takes no probe.
\<close>

definition gate_target ::
  "resilience_config \<Rightarrow> string \<Rightarrow> call_target \<Rightarrow> call_state \<Rightarrow> call_state \<times> outcome option" where
  "gate_target cfg redis_prefix t s =
     (case in_cooldown (cs_now s) (cs_store s) redis_prefix (ct_provider t) of
        (True, st1) \<Rightarrow> (s\<lparr>cs_store := st1\<rparr>, Some Skipped_Cooldown)
      | (False, st1) \<Rightarrow>
          (case allow_provider (cs_now s) st1 (ct_provider t) cfg of
             (False, st2) \<Rightarrow> (s\<lparr>cs_store := st2\<rparr>, Some Skipped_Breaker)
           | (True, st2) \<Rightarrow>
               if \<not> rc_model_lockout cfg then (s\<lparr>cs_store := st2\<rparr>, None)
               else (case allow_model (cs_now s) st2 (ct_provider t) (ct_model t) cfg of
                       (False, st3) \<Rightarrow> (s\<lparr>cs_store := st3\<rparr>, Some Skipped_Model_Lockout)
                     | (True, st3) \<Rightarrow> (s\<lparr>cs_store := st3\<rparr>, None))))"

definition max_tries :: "resilience_config \<Rightarrow> nat" where
  "max_tries cfg = (if rc_enabled cfg then nat (rc_num_retries cfg + 1) else 1)"

section \<open>All targets\<close>

fun call_loop ::
  "'a script \<Rightarrow> resilience_config \<Rightarrow> string \<Rightarrow> nat \<Rightarrow> call_target list \<Rightarrow> call_state
   \<Rightarrow> call_state \<times> 'a call_result option" where
  "call_loop script cfg redis_prefix i [] s = (s, None)"
| "call_loop script cfg redis_prefix i (t # ts) s =
     (if \<not> ct_has_key t
      then call_loop script cfg redis_prefix (Suc i) ts (add_attempt t Skipped_No_Key [] False s)
      else
        (case (if rc_enabled cfg then gate_target cfg redis_prefix t s else (s, None)) of
           (s1, gate) \<Rightarrow>
             (if gate \<noteq> None \<and> (list_ex ct_has_key ts \<or> cs_last_error s1 \<noteq> None)
              then call_loop script cfg redis_prefix (Suc i) ts
                     (add_attempt t (the gate) [] False s1)
              else
                (case try_target script cfg redis_prefix i t (max_tries cfg) 0 s1 of
                   (s2, Got v) \<Rightarrow> (s2, Some (Served i v))
                 | (s2, Reraise e) \<Rightarrow> (s2, Some (Reraised e))
                 | (s2, Next_Target) \<Rightarrow> call_loop script cfg redis_prefix (Suc i) ts s2))))"

definition start_state :: "rstore \<Rightarrow> rat \<Rightarrow> call_state" where
  "start_state st now =
     \<lparr>cs_store = st, cs_now = now, cs_attempts = [], cs_last_error = None, cs_calls = []\<rparr>"

definition call_with_resilience ::
  "'a script \<Rightarrow> resilience_config \<Rightarrow> string \<Rightarrow> call_target list \<Rightarrow> rstore \<Rightarrow> rat
   \<Rightarrow> call_state \<times> 'a call_result" where
  "call_with_resilience script cfg redis_prefix targets st now =
     (case call_loop script cfg redis_prefix 0 targets (start_state st now) of
        (s, Some r) \<Rightarrow> (s, r)
      | (s, None) \<Rightarrow>
          (s, (case cs_last_error s of
                 Some e \<Rightarrow>
                   if length targets \<le> 1 then Reraised e
                   else All_Targets_Failed (cs_attempts s) (Some e)
               | None \<Rightarrow> All_Targets_Failed (cs_attempts s) None)))"

section \<open>What a target does\<close>

lemma add_attempt_simps [simp]:
  "cs_store (add_attempt t oc e tr s) = cs_store s"
  "cs_now (add_attempt t oc e tr s) = cs_now s"
  "cs_last_error (add_attempt t oc e tr s) = cs_last_error s"
  "cs_calls (add_attempt t oc e tr s) = cs_calls s"
  by (simp_all add: add_attempt_def)

lemma try_target_calls:
  "try_target script cfg pre i t n k s = (s', r) \<Longrightarrow>
   \<exists>m \<le> n. cs_calls s' = cs_calls s @ map (\<lambda>j. (i, j)) [k..<k + m] \<and> (0 < n \<longrightarrow> 0 < m)"
proof (induction script cfg pre i t n k s arbitrary: s' r rule: try_target.induct)
  case (1 script cfg pre i t k s)
  then show ?case by simp
next
  case (2 script cfg pre i t left k s)
  obtain result dur where sc: "script i k = (result, dur)" by fastforce
  have one: "\<exists>m\<le>Suc left. cs_calls s @ [(i, k)] = cs_calls s @ map (\<lambda>j. (i, j)) [k..<k + m] \<and> 0 < m"
    by (rule exI[of _ "Suc 0"]) simp
  show ?case
  proof (cases result)
    case (Inr v)
    then show ?thesis using "2.prems" sc one by auto
  next
    case (Inl e)
    show ?thesis
    proof (cases "is_retryable_error e \<and> left \<noteq> 0")
      case True
      let ?s = "s\<lparr>cs_calls := cs_calls s @ [(i, k)], cs_last_error := Some e,
                 cs_store := feed_failure cfg t e (cs_now s + dur) (cs_store s),
                 cs_now := cs_now s + dur + rc_retry_base_delay cfg * 2 ^ k\<rparr>"
      have rec: "try_target script cfg pre i t left (Suc k) ?s = (s', r)"
        using "2.prems" True sc Inl by (simp add: Let_def)
      obtain m where m: "m \<le> left" "0 < m"
        "cs_calls s' = cs_calls ?s @ map (\<lambda>j. (i, j)) [Suc k..<Suc k + m]"
        using "2.IH"[OF sc[symmetric] refl Inl refl refl refl True, of s' r] rec True by auto
      have "[k..<k + Suc m] = k # [Suc k..<Suc k + m]" by (simp add: upt_rec)
      then show ?thesis using m by (intro exI[of _ "Suc m"]) simp
    next
      case False
      then show ?thesis using "2.prems" sc Inl one by (auto simp: Let_def split: if_splits)
    qed
  qed
qed


lemma try_target_attempts:
  "try_target script cfg pre i t n k s = (s', r) \<Longrightarrow> 0 < n \<Longrightarrow>
   \<exists>a. cs_attempts s' = cs_attempts s @ [a] \<and> at_provider a = ct_provider t \<and> at_model a = ct_model t"
proof (induction script cfg pre i t n k s arbitrary: s' r rule: try_target.induct)
  case (1 script cfg pre i t k s)
  then show ?case by simp
next
  case (2 script cfg pre i t left k s)
  obtain result dur where sc: "script i k = (result, dur)" by fastforce
  show ?case
  proof (cases result)
    case (Inr v)
    then show ?thesis using "2.prems" sc by (auto simp: add_attempt_def Let_def)
  next
    case (Inl e)
    show ?thesis
    proof (cases "is_retryable_error e \<and> left \<noteq> 0")
      case True
      then show ?thesis
        using "2.IH"[OF sc[symmetric] refl Inl refl refl refl True, of s' r] "2.prems" sc Inl
        by (auto simp: Let_def)
    next
      case False
      then show ?thesis using "2.prems" sc Inl by (auto simp: add_attempt_def Let_def split: if_splits)
    qed
  qed
qed

text \<open>
  What the calls of a target returned: the last one a value when the target was served, an error that
  cannot be retried on the first target when it was re-raised, and an error otherwise; every
  earlier one an error. The error kept is that of the last call.
\<close>

definition call_error :: "'a script \<Rightarrow> nat \<times> nat \<Rightarrow> perr option" where
  "call_error script c = (case fst (script (fst c) (snd c)) of Inl e \<Rightarrow> Some e | Inr v \<Rightarrow> None)"

lemma call_error_simps:
  "fst (script i k) = Inl e \<Longrightarrow> call_error script (i, k) = Some e"
  "fst (script i k) = Inr v \<Longrightarrow> call_error script (i, k) = None"
  by (simp_all add: call_error_def)

lemma try_target_results:
  "try_target script cfg pre i t n k s = (s', r) \<Longrightarrow> 0 < n \<Longrightarrow>
   \<exists>cs c. cs_calls s' = cs_calls s @ cs @ [c] \<and> fst c = i \<and>
     (\<forall>d \<in> set cs. \<exists>e. call_error script d = Some e) \<and>
     (case r of
        Got v \<Rightarrow> fst (script i (snd c)) = Inr v
      | Reraise e \<Rightarrow> call_error script c = Some e \<and> \<not> is_retryable_error e \<and> i = 0
      | Next_Target \<Rightarrow> cs_last_error s' \<noteq> None \<and> cs_last_error s' = call_error script c \<and>
          (i = 0 \<longrightarrow> is_retryable_error (the (cs_last_error s'))))"
proof (induction script cfg pre i t n k s arbitrary: s' r rule: try_target.induct)
  case (1 script cfg pre i t k s)
  then show ?case by simp
next
  case (2 script cfg pre i t left k s)
  obtain result dur where sc: "script i k = (result, dur)" by fastforce
  show ?case
  proof (cases result)
    case (Inr v)
    then show ?thesis using "2.prems" sc
      by (intro exI[of _ "[]"] exI[of _ "(i, k)"]) (auto simp: Let_def)
  next
    case (Inl e)
    have err: "call_error script (i, k) = Some e" using sc Inl by (simp add: call_error_def)
    show ?thesis
    proof (cases "is_retryable_error e \<and> left \<noteq> 0")
      case True
      let ?s = "s\<lparr>cs_calls := cs_calls s @ [(i, k)], cs_last_error := Some e,
                 cs_store := feed_failure cfg t e (cs_now s + dur) (cs_store s),
                 cs_now := cs_now s + dur + rc_retry_base_delay cfg * 2 ^ k\<rparr>"
      have rec: "try_target script cfg pre i t left (Suc k) ?s = (s', r)"
        using "2.prems" True sc Inl by (simp add: Let_def)
      obtain cs c where IH: "cs_calls s' = cs_calls ?s @ cs @ [c]" "fst c = i"
        "\<forall>d \<in> set cs. \<exists>e. call_error script d = Some e"
        "case r of
           Got v \<Rightarrow> fst (script i (snd c)) = Inr v
         | Reraise e \<Rightarrow> call_error script c = Some e \<and> \<not> is_retryable_error e \<and> i = 0
         | Next_Target \<Rightarrow> cs_last_error s' \<noteq> None \<and> cs_last_error s' = call_error script c \<and>
          (i = 0 \<longrightarrow> is_retryable_error (the (cs_last_error s')))"
        using "2.IH"[OF sc[symmetric] refl Inl refl refl refl True, of s' r] rec True by auto
      show ?thesis using IH err
        by (intro exI[of _ "(i, k) # cs"] exI[of _ c]) (auto split: target_result.splits)
    next
      case False
      then show ?thesis using "2.prems" sc Inl err
        by (intro exI[of _ "[]"] exI[of _ "(i, k)"]) (auto simp: Let_def split: if_splits)
    qed
  qed
qed

text \<open>An invariant of the store that the recorded signals keep is kept by a target.\<close>

lemma try_target_store:
  assumes "\<And>st. P st \<Longrightarrow> P (feed_success cfg t st)"
    and "\<And>st now k e. P st \<Longrightarrow> fst (script i k) = Inl e \<Longrightarrow> P (feed_failure cfg t e now st)"
    and "\<And>st now. P st \<Longrightarrow> rc_enabled cfg \<Longrightarrow>
      P (set_cooldown now st pre (ct_provider t) (rc_cooldown_seconds cfg))"
  shows "try_target script cfg pre i t n k s = (s', r) \<Longrightarrow> P (cs_store s) \<Longrightarrow> P (cs_store s')"
  using assms
proof (induction script cfg pre i t n k s arbitrary: s' r rule: try_target.induct)
  case (1 script cfg pre i t k s)
  then show ?case by simp
next
  case (2 script cfg pre i t left k s)
  obtain result dur where sc: "script i k = (result, dur)" by fastforce
  show ?case
  proof (cases result)
    case (Inr v)
    then show ?thesis using "2.prems" sc by (auto simp: Let_def)
  next
    case (Inl e)
    have fed: "P (feed_failure cfg t e (cs_now s + dur) (cs_store s))"
      using "2.prems"(2,4) sc Inl by (metis fst_conv)
    show ?thesis
    proof (cases "is_retryable_error e \<and> left \<noteq> 0")
      case True
      then show ?thesis
        using "2.IH"[OF sc[symmetric] refl Inl refl refl refl True, of s' r] "2.prems" fed sc Inl
        by (auto simp: Let_def)
    next
      case False
      then show ?thesis using "2.prems" fed sc Inl by (auto simp: Let_def split: if_splits)
    qed
  qed
qed

section \<open>What the loop does\<close>

lemma gate_target_frame:
  "gate_target cfg pre t s = (s1, g) \<Longrightarrow> \<exists>st. s1 = s\<lparr>cs_store := st\<rparr>"
  by (auto simp: gate_target_def split: prod.splits bool.splits if_splits)

text \<open>
  One target of the loop: passed over with one attempt noted and no call, or tried. A
  target with a key is passed over only when enabled, and only when a later target has a key or an
  error is already at hand.
\<close>

lemma call_loop_cases:
  assumes "call_loop script cfg pre i (t # ts) s = (s', r)"
  obtains
    (skipped) s1 oc where
      "s1 = s \<or> (rc_enabled cfg \<and> ct_has_key t \<and> s1 = fst (gate_target cfg pre t s))"
      "call_loop script cfg pre (Suc i) ts (add_attempt t oc [] False s1) = (s', r)"
      "ct_has_key t \<Longrightarrow> rc_enabled cfg \<and> (list_ex ct_has_key ts \<or> cs_last_error s \<noteq> None)"
      "cs_calls s1 = cs_calls s" "cs_last_error s1 = cs_last_error s" "cs_attempts s1 = cs_attempts s"
  | (tried) s1 s2 tr where
      "s1 = s \<or> (rc_enabled cfg \<and> s1 = fst (gate_target cfg pre t s))"
      "ct_has_key t"
      "try_target script cfg pre i t (max_tries cfg) 0 s1 = (s2, tr)"
      "case tr of
         Got v \<Rightarrow> s' = s2 \<and> r = Some (Served i v)
       | Reraise e \<Rightarrow> s' = s2 \<and> r = Some (Reraised e)
       | Next_Target \<Rightarrow> call_loop script cfg pre (Suc i) ts s2 = (s', r)"
      "cs_calls s1 = cs_calls s" "cs_last_error s1 = cs_last_error s" "cs_attempts s1 = cs_attempts s"
proof (cases "ct_has_key t")
  case False
  then show ?thesis using assms that(1)[of s Skipped_No_Key] by simp
next
  case True
  obtain s1 g where g: "(if rc_enabled cfg then gate_target cfg pre t s else (s, None)) = (s1, g)"
    by fastforce
  have s1: "s1 = s \<or> (rc_enabled cfg \<and> s1 = fst (gate_target cfg pre t s))"
    using g by (auto split: if_splits)
  have fr: "cs_calls s1 = cs_calls s \<and> cs_last_error s1 = cs_last_error s \<and>
      cs_attempts s1 = cs_attempts s"
    using g by (auto split: if_splits dest!: gate_target_frame)
  show ?thesis
  proof (cases "g \<noteq> None \<and> (list_ex ct_has_key ts \<or> cs_last_error s1 \<noteq> None)")
    case skip: True
    then have "rc_enabled cfg" using g by (auto split: if_splits)
    then show ?thesis using that(1)[of s1 "the g"] assms True g s1 fr skip by simp
  next
    case False
    obtain s2 tr where t: "try_target script cfg pre i t (max_tries cfg) 0 s1 = (s2, tr)" by fastforce
    show ?thesis
      using that(2)[OF s1 True t] assms True g fr False t by (cases tr) auto
  qed
qed

lemma call_loop_calls:
  "call_loop script cfg pre i ts s = (s', r) \<Longrightarrow>
   \<exists>cs. cs_calls s' = cs_calls s @ cs \<and>
     sorted_wrt (\<lambda>c d. fst c < fst d \<or> fst c = fst d \<and> snd c < snd d) cs \<and>
     (\<forall>c \<in> set cs. i \<le> fst c \<and> fst c < i + length ts \<and> ct_has_key (ts ! (fst c - i)) \<and>
        snd c < max_tries cfg)"
proof (induction ts arbitrary: i s)
  case Nil
  then show ?case by simp
next
  case (Cons t ts)
  from Cons.prems show ?case
  proof (cases rule: call_loop_cases)
    case (skipped s1 oc)
    obtain cs where cs: "cs_calls s' = cs_calls s @ cs"
      "sorted_wrt (\<lambda>c d. fst c < fst d \<or> fst c = fst d \<and> snd c < snd d) cs"
      "\<forall>c \<in> set cs. Suc i \<le> fst c \<and> fst c < Suc i + length ts \<and> ct_has_key (ts ! (fst c - Suc i)) \<and>
        snd c < max_tries cfg"
      using Cons.IH[OF skipped(2)] skipped(4) by auto
    then show ?thesis by (intro exI[of _ cs]) (auto simp: nth_Cons' Suc_diff_Suc)
  next
    case (tried s1 s2 tr)
    obtain m where m: "m \<le> max_tries cfg"
      "cs_calls s2 = cs_calls s @ map (\<lambda>j. (i, j)) [0..<m]"
      using try_target_calls[OF tried(3)] tried(5) by auto
    have srt: "sorted_wrt (\<lambda>c d. fst c < fst d \<or> fst c = fst d \<and> snd c < snd d)
        (map (\<lambda>j. (i, j)) [0..<m])"
      by (simp add: sorted_wrt_map)
    show ?thesis
    proof (cases tr)
      case Next_Target
      then have rest: "call_loop script cfg pre (Suc i) ts s2 = (s', r)" using tried(4) by simp
      obtain cs where cs: "cs_calls s' = cs_calls s2 @ cs"
        "sorted_wrt (\<lambda>c d. fst c < fst d \<or> fst c = fst d \<and> snd c < snd d) cs"
        "\<forall>c \<in> set cs. Suc i \<le> fst c \<and> fst c < Suc i + length ts \<and> ct_has_key (ts ! (fst c - Suc i)) \<and>
          snd c < max_tries cfg"
        using Cons.IH[OF rest] by auto
      then show ?thesis using m srt tried(2)
        by (intro exI[of _ "map (\<lambda>j. (i, j)) [0..<m] @ cs"])
           (fastforce simp: sorted_wrt_append nth_Cons' Suc_diff_Suc)
    qed (use m srt tried in auto)
  qed
qed

lemma call_loop_grows: "call_loop script cfg pre i ts s = (s', r) \<Longrightarrow> cs_calls s \<noteq> [] \<Longrightarrow> cs_calls s' \<noteq> []"
  by (drule call_loop_calls) auto

text \<open>The gates never leave a request without an attempt.\<close>

lemma call_loop_attempts_some:
  "call_loop script cfg pre i ts s = (s', r) \<Longrightarrow> list_ex ct_has_key ts \<Longrightarrow> 0 < max_tries cfg \<Longrightarrow>
   (cs_last_error s \<noteq> None \<longrightarrow> cs_calls s \<noteq> []) \<Longrightarrow> cs_calls s' \<noteq> []"
proof (induction ts arbitrary: i s)
  case Nil
  then show ?case by simp
next
  case (Cons t ts)
  from Cons.prems(1) show ?case
  proof (cases rule: call_loop_cases)
    case (skipped s1 oc)
    show ?thesis
    proof (cases "list_ex ct_has_key ts")
      case True
      then show ?thesis using Cons.IH[OF skipped(2)] Cons.prems skipped by simp
    next
      case False
      then have "cs_calls s \<noteq> []" using Cons.prems skipped(3) by auto
      then show ?thesis using call_loop_grows[OF skipped(2)] skipped(4) by simp
    qed
  next
    case (tried s1 s2 tr)
    have "cs_calls s2 \<noteq> []" using try_target_calls[OF tried(3)] Cons.prems(3) by auto
    then show ?thesis
      using tried(4) call_loop_grows[of script cfg pre "Suc i" ts s2 s' r] by (cases tr) auto
  qed
qed

text \<open>What the answers were: every call but the last failed, and the last one decides.\<close>

definition all_failed :: "'a script \<Rightarrow> (nat \<times> nat) list \<Rightarrow> bool" where
  "all_failed script cs \<longleftrightarrow> (\<forall>c \<in> set cs. call_error script c \<noteq> None)"

lemma all_failed_simps [simp]:
  "all_failed script []"
  "all_failed script (c # cs) \<longleftrightarrow> call_error script c \<noteq> None \<and> all_failed script cs"
  "all_failed script (cs @ ds) \<longleftrightarrow> all_failed script cs \<and> all_failed script ds"
  by (auto simp: all_failed_def)

lemma call_loop_results:
  "call_loop script cfg pre i ts s = (s', r) \<Longrightarrow> 0 < max_tries cfg \<Longrightarrow>
   \<exists>cs. cs_calls s' = cs_calls s @ cs \<and>
     (case r of
        None \<Rightarrow> all_failed script cs \<and>
          cs_last_error s' = (if cs = [] then cs_last_error s else call_error script (last cs)) \<and>
          length (cs_attempts s') = length (cs_attempts s) + length ts
      | Some (Served j v) \<Rightarrow>
          (\<exists>ds k. cs = ds @ [(j, k)] \<and> all_failed script ds \<and> fst (script j k) = Inr v)
      | Some (Reraised e) \<Rightarrow>
          (\<exists>ds k. cs = ds @ [(0, k)] \<and> all_failed script ds \<and> call_error script (0, k) = Some e \<and>
             \<not> is_retryable_error e)
      | Some (All_Targets_Failed as le) \<Rightarrow> False)"
proof (induction ts arbitrary: i s)
  case Nil
  then show ?case by auto
next
  case (Cons t ts)
  from Cons.prems(1) show ?case
  proof (cases rule: call_loop_cases)
    case (skipped s1 oc)
    have fr: "cs_calls (add_attempt t oc [] False s1) = cs_calls s"
      "cs_last_error (add_attempt t oc [] False s1) = cs_last_error s"
      "length (cs_attempts (add_attempt t oc [] False s1)) = Suc (length (cs_attempts s))"
      using skipped(4-6) by (simp_all add: add_attempt_def)
    from Cons.IH[OF skipped(2) Cons.prems(2)] show ?thesis
      unfolding fr list.size(4) add_Suc add_Suc_right add_0_right .
  next
    case (tried s1 s2 tr)
    obtain cs c where t: "cs_calls s2 = cs_calls s @ cs @ [c]" "fst c = i"
      "\<forall>d \<in> set cs. \<exists>e. call_error script d = Some e"
      "case tr of
         Got v \<Rightarrow> fst (script i (snd c)) = Inr v
       | Reraise e \<Rightarrow> call_error script c = Some e \<and> \<not> is_retryable_error e \<and> i = 0
       | Next_Target \<Rightarrow> cs_last_error s2 \<noteq> None \<and> cs_last_error s2 = call_error script c \<and>
           (i = 0 \<longrightarrow> is_retryable_error (the (cs_last_error s2)))"
      using try_target_results[OF tried(3) Cons.prems(2)] tried(5) by auto
    obtain k where c: "c = (i, k)" using t(2) by (cases c) simp
    have cs: "all_failed script cs" using t(3) by (auto simp: all_failed_def)
    obtain a where a: "cs_attempts s2 = cs_attempts s @ [a]"
      using try_target_attempts[OF tried(3) Cons.prems(2)] tried(7) by auto
    show ?thesis
    proof (cases tr)
      case (Got v)
      then show ?thesis using tried(4) t(1,4) c cs
        by (intro exI[of _ "cs @ [c]"]) simp
    next
      case (Reraise e)
      then show ?thesis using tried(4) t(1,4) c cs
        by (intro exI[of _ "cs @ [c]"]) auto
    next
      case Next_Target
      then have rest: "call_loop script cfg pre (Suc i) ts s2 = (s', r)" using tried(4) by simp
      have ce: "call_error script c \<noteq> None" "cs_last_error s2 = call_error script c"
        using t(4) Next_Target by auto
      obtain es where es: "cs_calls s' = cs_calls s2 @ es"
        "case r of
        None \<Rightarrow> all_failed script es \<and>
          cs_last_error s' = (if es = [] then cs_last_error s2 else call_error script (last es)) \<and>
          length (cs_attempts s') = length (cs_attempts s2) + length ts
      | Some (Served j v) \<Rightarrow>
          (\<exists>ds k. es = ds @ [(j, k)] \<and> all_failed script ds \<and> fst (script j k) = Inr v)
      | Some (Reraised e) \<Rightarrow>
          (\<exists>ds k. es = ds @ [(0, k)] \<and> all_failed script ds \<and> call_error script (0, k) = Some e \<and>
             \<not> is_retryable_error e)
      | Some (All_Targets_Failed as le) \<Rightarrow> False"
        using Cons.IH[OF rest Cons.prems(2)] by auto
      show ?thesis
        using es t(1) cs ce a
        by (intro exI[of _ "cs @ c # es"])
           (auto split: option.splits call_result.splits)
    qed
  qed
qed

text \<open>Invariants of the store, from the signals and gates of every target.\<close>

lemma call_loop_store:
  assumes "\<And>st t. t \<in> set ts \<Longrightarrow> P st \<Longrightarrow> P (feed_success cfg t st)"
    and "\<And>st t now j k e. t \<in> set ts \<Longrightarrow> P st \<Longrightarrow> fst (script j k) = Inl e \<Longrightarrow>
      P (feed_failure cfg t e now st)"
    and "\<And>st t now. t \<in> set ts \<Longrightarrow> P st \<Longrightarrow> rc_enabled cfg \<Longrightarrow>
      P (set_cooldown now st pre (ct_provider t) (rc_cooldown_seconds cfg))"
    and "\<And>s t. t \<in> set ts \<Longrightarrow> P (cs_store s) \<Longrightarrow> rc_enabled cfg \<Longrightarrow>
      P (cs_store (fst (gate_target cfg pre t s)))"
  shows "call_loop script cfg pre i ts s = (s', r) \<Longrightarrow> P (cs_store s) \<Longrightarrow> P (cs_store s')"
  using assms
proof (induction ts arbitrary: i s)
  case Nil
  then show ?case by simp
next
  case (Cons t ts)
  have IH: "call_loop script cfg pre (Suc i) ts u = (s', r) \<Longrightarrow> P (cs_store u) \<Longrightarrow> P (cs_store s')" for u
    by (rule Cons.IH[of "Suc i" u]) (simp_all add: Cons.prems(3-6))
  from Cons.prems(1) show ?case
  proof (cases rule: call_loop_cases)
    case (skipped s1 oc)
    have "P (cs_store s1)" using skipped(1) Cons.prems(2) Cons.prems(6)[of t s] by auto
    then show ?thesis using IH[OF skipped(2)] by simp
  next
    case (tried s1 s2 tr)
    have s1: "P (cs_store s1)" using tried(1) Cons.prems(2) Cons.prems(6)[of t s] by auto
    have "P (cs_store s2)"
      by (rule try_target_store[where P = P, OF _ _ _ tried(3) s1]) (use Cons.prems(3-5) in auto)
    then show ?thesis using tried(4) IH[of s2] by (cases tr) auto
  qed
qed

lemma disabled_store: "\<not> rc_enabled cfg \<Longrightarrow> call_loop script cfg pre i ts s = (s', r) \<Longrightarrow>
   cs_store s' = cs_store s"
  by (rule call_loop_store[where P = "\<lambda>st. st = cs_store s" and ts = ts and cfg = cfg and script = script])
     (auto simp: feed_success_def feed_failure_def)

text \<open>A store none of whose breakers is open, which errors that say nothing of the provider keep.\<close>

definition entries_closed :: "(string \<times> breaker) list \<Rightarrow> bool" where
  "entries_closed d \<longleftrightarrow> list_all (\<lambda>kb. b_state (snd kb) = CLOSED) d"

definition all_closed :: "rstore \<Rightarrow> bool" where
  "all_closed st \<longleftrightarrow> entries_closed (breakers st) \<and> entries_closed (model_breakers st)"

lemma entries_closed_dset: "entries_closed d \<Longrightarrow> b_state b = CLOSED \<Longrightarrow> entries_closed (dset k b d)"
  by (induction d) (auto simp: entries_closed_def)

lemma entries_closed_dget: "entries_closed d \<Longrightarrow> dget d k = Some b \<Longrightarrow> b_state b = CLOSED"
  by (auto simp: entries_closed_def list_all_iff dest!: map_of_SomeD)

lemma closed_get:
  "all_closed st \<Longrightarrow> b_state (get_breaker st p cfg) = CLOSED"
  "all_closed st \<Longrightarrow> b_state (get_model_breaker st p m cfg) = CLOSED"
  by (auto simp: all_closed_def get_breaker_def get_model_breaker_def new_breaker_def configure_def
      split: option.split dest: entries_closed_dget)

lemma closed_put:
  "all_closed st \<Longrightarrow> b_state b = CLOSED \<Longrightarrow> all_closed (put_breaker st p b)"
  "all_closed st \<Longrightarrow> b_state b = CLOSED \<Longrightarrow> all_closed (put_model_breaker st p m b)"
  by (simp_all add: all_closed_def put_breaker_def put_model_breaker_def entries_closed_dset)

lemma closed_ops:
  assumes "all_closed st"
  shows "all_closed (record_provider_success st p cfg)"
    and "all_closed (record_model_success st p m cfg)"
    and "allow_provider now st p cfg = (True, put_breaker st p (get_breaker st p cfg))"
    and "allow_model now st p m cfg = (True, put_model_breaker st p m (get_model_breaker st p m cfg))"
    and "all_closed (set_cooldown now st pre p ttl)"
    and "all_closed (snd (in_cooldown now st pre p))"
  using assms
  by (auto simp: record_provider_success_def record_model_success_def record_success_def
      allow_provider_def allow_model_def allow_request_def closed_get intro!: closed_put)
     (auto simp: all_closed_def set_cooldown_def in_cooldown_def split: option.split)

lemma closed_feed:
  "all_closed st \<Longrightarrow> all_closed (feed_success cfg t st)"
  "all_closed st \<Longrightarrow> \<not> health_failure e \<Longrightarrow> feed_failure cfg t e now st = st"
  by (auto simp: feed_success_def feed_failure_def health_failure_def Let_def closed_ops)

lemma closed_gate: "all_closed (cs_store s) \<Longrightarrow> all_closed (cs_store (fst (gate_target cfg pre t s)))"
proof -
  assume c: "all_closed (cs_store s)"
  obtain b st1 where i: "in_cooldown (cs_now s) (cs_store s) pre (ct_provider t) = (b, st1)" by fastforce
  have c1: "all_closed st1" using closed_ops(6)[OF c, of "cs_now s" pre "ct_provider t"] i by simp
  show ?thesis
    using i c1
    by (cases b) (auto simp: gate_target_def closed_ops(3) closed_ops(4) closed_put closed_get)
qed

lemma call_loop_closed:
  assumes "call_loop script cfg pre i ts s = (s', r)"
    and "\<And>j k e. fst (script j k) = Inl e \<Longrightarrow> \<not> health_failure e"
    and "all_closed (cs_store s)"
  shows "all_closed (cs_store s')"
  by (rule call_loop_store[where P = all_closed, OF _ _ _ _ assms(1,3)])
     (auto simp: closed_feed closed_ops closed_gate assms(2))

text \<open>Cooldowns outside the keys of the request are not touched.\<close>

lemma feed_cooldowns:
  "cooldowns (feed_success cfg t st) = cooldowns st"
  "cooldowns (feed_failure cfg t e now st) = cooldowns st"
  by (simp_all add: feed_success_def feed_failure_def Let_def record_provider_success_def
      record_model_success_def record_provider_failure_def record_model_failure_def
      put_breaker_def put_model_breaker_def)

lemma gate_cooldowns:
  "k \<noteq> pair_key pre (ct_provider t) \<Longrightarrow>
   dget (cooldowns (cs_store (fst (gate_target cfg pre t s)))) k = dget (cooldowns (cs_store s)) k"
  by (auto simp: gate_target_def in_cooldown_def allow_provider_def allow_model_def put_breaker_def
      put_model_breaker_def dget_dpop split: option.splits prod.splits bool.splits)

lemma call_loop_cooldowns:
  assumes "call_loop script cfg pre i ts s = (s', r)"
    and "\<And>t. t \<in> set ts \<Longrightarrow> k \<noteq> pair_key pre (ct_provider t)"
  shows "dget (cooldowns (cs_store s')) k = dget (cooldowns (cs_store s)) k"
  by (rule call_loop_store[where P = "\<lambda>st. dget (cooldowns st) k = dget (cooldowns (cs_store s)) k",
        OF _ _ _ _ assms(1)])
     (auto simp: feed_cooldowns gate_cooldowns assms(2) set_cooldown_def dget_dset)

section \<open>Properties\<close>

text \<open>The run of \<open>call_with_resilience\<close>, from the loop.\<close>

lemma call_with_resilience_run:
  assumes "call_with_resilience script cfg pre targets st now = (s, res)"
  obtains r where "call_loop script cfg pre 0 targets (start_state st now) = (s, r)"
    "res = (case r of Some x \<Rightarrow> x
            | None \<Rightarrow> (case cs_last_error s of
                 Some e \<Rightarrow> if length targets \<le> 1 then Reraised e
                           else All_Targets_Failed (cs_attempts s) (Some e)
               | None \<Rightarrow> All_Targets_Failed (cs_attempts s) None))"
  using assms by (auto simp: call_with_resilience_def split: prod.splits option.splits)

lemma start_state_simps [simp]:
  "cs_store (start_state st now) = st" "cs_calls (start_state st now) = []"
  "cs_last_error (start_state st now) = None" "cs_attempts (start_state st now) = []"
  by (simp_all add: start_state_def)

text \<open>
  C10. Fail-open: whatever the breakers, lockouts and cooldowns say, a request with at least one target
  the tenant has a key for is attempted at least once, unless the retries are configured below zero.
\<close>

theorem gates_never_block_every_target:
  assumes "call_with_resilience script cfg pre targets st now = (s, res)"
    and "list_ex ct_has_key targets" and "\<not> rc_enabled cfg \<or> 0 \<le> rc_num_retries cfg"
  shows "cs_calls s \<noteq> []"
proof -
  obtain r where "call_loop script cfg pre 0 targets (start_state st now) = (s, r)"
    using call_with_resilience_run[OF assms(1)] .
  moreover have "0 < max_tries cfg" using assms(3) by (auto simp: max_tries_def)
  ultimately show ?thesis using call_loop_attempts_some assms(2) by fastforce
qed

definition sample_cfg :: resilience_config where
  "sample_cfg = \<lparr>rc_enabled = True, rc_num_retries = 0, rc_failure_threshold = 5, rc_cooldown_seconds = 30,
     rc_retry_base_delay = 0, rc_fallbacks = [], rc_model_lockout = False, rc_model_failure_threshold = 3,
     rc_model_lockout_seconds = 30, rc_request_timeout_seconds = 300\<rparr>"

definition open_store :: rstore where
  "open_store = \<lparr>breakers = [(''p'', (new_breaker 5 30)\<lparr>b_state := OPEN, opened_at := 90\<rparr>)],
     model_breakers = [], cooldowns = [(pair_key [] ''p'', 1000)]\<rparr>"

definition one_target :: call_target where
  "one_target = \<lparr>ct_model = ''m'', ct_provider = ''p'', ct_has_key = True\<rparr>"

lemma gates_never_block_every_target_witness:
  "cs_calls (fst (call_with_resilience (\<lambda>i k. (Inr (7 :: nat), 1)) sample_cfg [] [one_target] open_store 100)) \<noteq> []"
  by (rule gates_never_block_every_target[OF surjective_pairing])
     (simp_all add: one_target_def sample_cfg_def)

text \<open>
  The calls of a request: targets in order, tries of a target in order, never a target without a
  key, at most one try and the configured retries per target, and only one try when the
  feature is off.
\<close>

lemma calls_ordered_and_bounded:
  assumes "call_with_resilience script cfg pre targets st now = (s, res)"
  shows "sorted_wrt (\<lambda>c d. fst c < fst d \<or> fst c = fst d \<and> snd c < snd d) (cs_calls s) \<and>
         (\<forall>c \<in> set (cs_calls s). fst c < length targets \<and> ct_has_key (targets ! fst c) \<and>
            int (snd c) \<le> (if rc_enabled cfg then rc_num_retries cfg else 0))"
proof -
  obtain r where "call_loop script cfg pre 0 targets (start_state st now) = (s, r)"
    using call_with_resilience_run[OF assms(1)] .
  from call_loop_calls[OF this]
  have "sorted_wrt (\<lambda>c d. fst c < fst d \<or> fst c = fst d \<and> snd c < snd d) (cs_calls s)"
    "\<forall>c \<in> set (cs_calls s). fst c < length targets \<and> ct_has_key (targets ! fst c) \<and> snd c < max_tries cfg"
    by auto
  then show ?thesis by (fastforce simp: max_tries_def split: if_splits)
qed

lemma calls_ordered_and_bounded_witness:
  "sorted_wrt (\<lambda>c d. fst c < fst d \<or> fst c = fst d \<and> snd c < snd d)
     (cs_calls (fst (call_with_resilience (\<lambda>i k. (Inr (7 :: nat), 1)) sample_cfg [] [one_target] open_store 100)))"
  using calls_ordered_and_bounded[OF surjective_pairing,
      of "\<lambda>i k. (Inr (7 :: nat), 1)" sample_cfg "[]" "[one_target]" open_store 100] by blast



text \<open>
  Signal scoping: as long as the providers' failures are rate limits or errors of the
  request, no breaker and no model lockout ever opens, and with the feature off the store is not touched at all.
\<close>

lemma rate_limits_never_open_a_breaker:
  assumes "call_with_resilience script cfg pre targets st now = (s, res)"
    and "\<And>i k e. fst (script i k) = Inl e \<Longrightarrow> is_rate_limit_error e \<or> \<not> is_retryable_error e"
    and "all_closed st"
  shows "all_closed (cs_store s) \<and> (\<not> rc_enabled cfg \<longrightarrow> cs_store s = st)"
proof -
  obtain r where loop: "call_loop script cfg pre 0 targets (start_state st now) = (s, r)"
    using call_with_resilience_run[OF assms(1)] .
  have "all_closed (cs_store s)"
    using call_loop_closed[OF loop] assms(2,3) by (simp add: health_failure_def) blast
  then show ?thesis using disabled_store[OF _ loop] by auto
qed

lemma rate_limits_never_open_a_breaker_witness:
  "all_closed (cs_store (fst (call_with_resilience
     (\<lambda>i k. (Inl \<lparr>status_code = Some 429, class_name = ''RateLimitError''\<rparr> :: perr + nat, 1))
     sample_cfg [] [one_target] new_store 100)))"
  using rate_limits_never_open_a_breaker[OF surjective_pairing,
      where script = "\<lambda>i k. (Inl \<lparr>status_code = Some 429, class_name = ''RateLimitError''\<rparr> :: perr + nat, 1)"
        and cfg = sample_cfg and pre = "[]" and targets = "[one_target]" and st = new_store and now = 100]
  by (auto simp: is_rate_limit_error_def new_store_def all_closed_def entries_closed_def)

text \<open>
  A rate limit one tenant ran into never keeps another waiting: a request changes cooldowns only
  under the keys of its own Redis prefix and its own targets' providers.
\<close>

lemma cooldowns_stay_with_the_tenant:
  assumes "call_with_resilience script cfg pre targets st now = (s, res)"
    and "\<And>t. t \<in> set targets \<Longrightarrow> pair_key pre' prov' \<noteq> pair_key pre (ct_provider t)"
  shows "fst (in_cooldown u (cs_store s) pre' prov') = fst (in_cooldown u st pre' prov')"
proof -
  obtain r where loop: "call_loop script cfg pre 0 targets (start_state st now) = (s, r)"
    using call_with_resilience_run[OF assms(1)] .
  show ?thesis
    using call_loop_cooldowns[OF loop, of "pair_key pre' prov'"] assms(2)
    by (simp add: in_cooldown_def split: option.split)
qed

lemma cooldowns_stay_with_the_tenant_witness:
  "fst (in_cooldown 101 (cs_store (fst (call_with_resilience
     (\<lambda>i k. (Inl \<lparr>status_code = Some 429, class_name = ''RateLimitError''\<rparr> :: perr + nat, 1))
     sample_cfg ''t:a:'' [one_target] new_store 100))) ''t:b:'' ''p'') = False"
  using cooldowns_stay_with_the_tenant[OF surjective_pairing, where targets = "[one_target]" and pre' = "''t:b:''"
        and prov' = "''p''" and pre = "''t:a:''"
        and script = "\<lambda>i k. (Inl \<lparr>status_code = Some 429, class_name = ''RateLimitError''\<rparr> :: perr + nat, 1)"
        and cfg = sample_cfg and st = new_store and now = 100 and u = 101]
  by (simp add: pair_key_def one_target_def in_cooldown_def new_store_def)

section \<open>Two limits of the gates\<close>

text \<open>A retry count of -1 makes the target pass without a call: the request ends in the
  aggregate error with no attempt at all.\<close>

lemma negative_retries_make_no_attempt:
  assumes "rc_enabled cfg" and "rc_num_retries cfg = - 1" and "ct_has_key t"
  shows "\<exists>s. call_with_resilience script cfg pre [t] st now = (s, All_Targets_Failed [] None) \<and>
             cs_calls s = []"
proof -
  obtain s1 g where g: "gate_target cfg pre t (start_state st now) = (s1, g)" by fastforce
  have "cs_calls s1 = [] \<and> cs_last_error s1 = None \<and> cs_attempts s1 = []"
    using gate_target_frame[OF g] by auto
  then show ?thesis using assms g by (simp add: call_with_resilience_def max_tries_def)
qed

text \<open>A target passed over for its model's lockout has already taken the half-open probe of the
  provider's breaker, with no call to report its outcome.\<close>

lemma lockout_skip_spends_the_probe:
  assumes g: "gate_target cfg pre t s0 = (s1, Some Skipped_Model_Lockout)"
    and i: "in_cooldown (cs_now s0) (cs_store s0) pre (ct_provider t) = (False, st1)"
    and o: "b_state (get_breaker st1 (ct_provider t) cfg) = OPEN"
  shows "b_state (get_breaker (cs_store s1) (ct_provider t) cfg) = HALF_OPEN \<and>
         probe_started_at (get_breaker (cs_store s1) (ct_provider t) cfg) = Some (cs_now s0)"
proof -
  obtain st2 where a: "allow_provider (cs_now s0) st1 (ct_provider t) cfg = (True, st2)"
    using g i by (auto simp: gate_target_def split: prod.splits bool.splits)
  have st: "breakers (cs_store s1) = breakers st2"
    using g i a by (auto simp: gate_target_def allow_model_def put_model_breaker_def
        split: prod.splits bool.splits if_splits)
  obtain b where b: "allow_request (cs_now s0) (get_breaker st1 (ct_provider t) cfg) = (True, b)"
    "st2 = put_breaker st1 (ct_provider t) b"
    using a by (auto simp: allow_provider_def split: prod.splits)
  have "b_state b = HALF_OPEN \<and> probe_started_at b = Some (cs_now s0)"
    using allow_request_half_open[OF b(1)] o by simp
  then show ?thesis
    by (simp add: get_breaker_def[of "cs_store s1"] st b(2) put_breaker_def pd.put_get configure_def)
qed

end
