(* ===== verification/Tool_Policy.thy ===== *)
theory Tool_Policy
  imports Py_Prelude
begin

text \<open>
  \<open>guardrails/tool_policy.py\<close>: the allow and deny lists over tool names. \<open>fnmatch\<close> of the
  standard library is modelled as a parser of glob patterns and a matcher: \<open>*\<close>, \<open>?\<close>, literals
  and character classes with ranges, negation and the library's own conventions (a first
  \<open>]\<close> is a member, an unclosed bracket is a literal, a range that runs backwards is empty).
  The lemmas relate the matcher to the words a pattern denotes, the validation to the patterns that are read
  as written, and the verdict to the three rules of the policy.
\<close>

section \<open>Glob patterns\<close>

datatype class_item = Lit char | Rng char char

datatype glob = Any_Seq | Any_Char | One char | In_Class bool "class_item list"

fun class_items :: "string \<Rightarrow> class_item list" where
  "class_items (x # d # y # s) =
     (if d = CHR ''-'' then Rng x y # class_items s else Lit x # class_items (d # y # s))"
| "class_items [x, y] = [Lit x, Lit y]"
| "class_items [x] = [Lit x]"
| "class_items [] = []"

fun nonempty_item :: "class_item \<Rightarrow> bool" where
  "nonempty_item (Lit c) = True"
| "nonempty_item (Rng a b) = ((of_char a :: nat) \<le> of_char b)"

text \<open>
  The class of the text between the brackets. The library rewrites the text before it looks
  for the negation sign, so a sign that comes first only because an empty range before it was
  dropped negates too.
\<close>

definition class_of :: "string \<Rightarrow> glob" where
  "class_of stuff =
     (if stuff \<noteq> [] \<and> hd stuff = CHR ''!''
      then In_Class True (filter nonempty_item (class_items (tl stuff)))
      else (case filter nonempty_item (class_items stuff) of
              Lit c # r \<Rightarrow> if c = CHR ''!'' then In_Class True r else In_Class False (Lit c # r)
            | Rng a b # r \<Rightarrow> if a = CHR ''!'' then In_Class True (Lit CHR ''-'' # Lit b # r)
                            else In_Class False (Rng a b # r)
            | [] \<Rightarrow> In_Class False []))"

text \<open>How many characters belong to the class before its bracket is looked for.\<close>

definition class_skip :: "string \<Rightarrow> nat" where
  "class_skip s =
     (let p = (if s \<noteq> [] \<and> hd s = CHR ''!'' then 1 else 0)
      in if drop p s \<noteq> [] \<and> hd (drop p s) = CHR '']'' then p + 1 else p)"

text \<open>The text of a class that starts here and what follows its bracket; \<open>None\<close> when unclosed.\<close>

definition class_end :: "string \<Rightarrow> (string \<times> string) option" where
  "class_end s =
     (let p = class_skip s;
          rest = dropWhile (\<lambda>c. c \<noteq> CHR '']'') (drop p s)
      in if rest = [] then None
         else Some (take p s @ takeWhile (\<lambda>c. c \<noteq> CHR '']'') (drop p s), tl rest))"

lemma length_class_end: "class_end s = Some (stuff, rest) \<Longrightarrow> length rest < length s"
proof -
  let ?r = "dropWhile (\<lambda>c. c \<noteq> CHR '']'') (drop (class_skip s) s)"
  assume e: "class_end s = Some (stuff, rest)"
  have r: "?r \<noteq> [] \<and> rest = tl ?r" using e by (simp add: class_end_def Let_def split: if_splits)
  have "length ?r \<le> length s"
    using length_dropWhile_le[of "\<lambda>c. c \<noteq> CHR '']''" "drop (class_skip s) s"] by simp
  then show ?thesis using r by (cases ?r) auto
qed

function parse_glob :: "string \<Rightarrow> glob list" where
  "parse_glob [] = []"
| "parse_glob (c # s) =
     (if c = CHR ''*'' then Any_Seq # parse_glob s
      else if c = CHR ''?'' then Any_Char # parse_glob s
      else if c = CHR ''['' then
        (case class_end s of
           None \<Rightarrow> One c # parse_glob s
         | Some (stuff, rest) \<Rightarrow> class_of stuff # parse_glob rest)
      else One c # parse_glob s)"
  by pat_completeness auto
termination
  by (relation "measure length") (auto dest: length_class_end)

declare parse_glob.simps(2) [simp del]

fun in_item :: "char \<Rightarrow> class_item \<Rightarrow> bool" where
  "in_item c (Lit d) = (c = d)"
| "in_item c (Rng a b) = ((of_char a :: nat) \<le> of_char c \<and> (of_char c :: nat) \<le> of_char b)"

fun match_char :: "glob \<Rightarrow> char \<Rightarrow> bool" where
  "match_char Any_Char c = True"
| "match_char (One d) c = (c = d)"
| "match_char (In_Class neg items) c = (list_ex (in_item c) items \<noteq> neg)"
| "match_char Any_Seq c = False"

fun glob_match :: "glob list \<Rightarrow> string \<Rightarrow> bool" where
  "glob_match [] s = (s = [])"
| "glob_match (g # gs) [] = (g = Any_Seq \<and> glob_match gs [])"
| "glob_match (g # gs) (c # s) =
     (if g = Any_Seq then glob_match gs (c # s) \<or> glob_match (g # gs) s
      else match_char g c \<and> glob_match gs s)"

definition fnmatchcase :: "string \<Rightarrow> string \<Rightarrow> bool" where
  "fnmatchcase name pat = glob_match (parse_glob pat) name"

section \<open>Validation\<close>

datatype policy_error = Tool_Policy_Error

function classes_closed :: "string \<Rightarrow> bool" where
  "classes_closed [] = True"
| "classes_closed (c # s) =
     (if c \<noteq> CHR ''['' then classes_closed s
      else (case class_end s of None \<Rightarrow> False | Some (stuff, rest) \<Rightarrow> classes_closed rest))"
  by pat_completeness auto
termination
  by (relation "measure length") (auto dest: length_class_end)

declare classes_closed.simps(2) [simp del]

text \<open>The regular expression made from a pattern always compiles, so the third check never fails.\<close>

definition validate_pattern :: "pyval \<Rightarrow> policy_error + string" where
  "validate_pattern v =
     (case v of
        PStr s \<Rightarrow> if s = [] \<or> \<not> classes_closed s then Inl Tool_Policy_Error else Inr s
      | _ \<Rightarrow> Inl Tool_Policy_Error)"

fun coerce_list :: "string list \<Rightarrow> pyval list \<Rightarrow> policy_error + string list" where
  "coerce_list out [] = Inr out"
| "coerce_list out (v # vs) =
     bind_res (validate_pattern v) (\<lambda>s. coerce_list (if s \<in> set out then out else out @ [s]) vs)"

definition coerce_patterns :: "pyval \<Rightarrow> policy_error + string list" where
  "coerce_patterns raw =
     (case raw of
        PNone \<Rightarrow> Inr []
      | PStr s \<Rightarrow> coerce_list [] [PStr s]
      | PList vs \<Rightarrow> coerce_list [] vs
      | _ \<Rightarrow> Inl Tool_Policy_Error)"

record tool_policy =
  tp_allow :: "string list"
  tp_deny :: "string list"
  tp_default :: string

definition noop_policy :: tool_policy where
  "noop_policy = \<lparr>tp_allow = [], tp_deny = [], tp_default = ''allow''\<rparr>"

definition is_noop :: "tool_policy \<Rightarrow> bool" where
  "is_noop p \<longleftrightarrow> tp_allow p = [] \<and> tp_deny p = [] \<and> tp_default p = ''allow''"

text \<open>\<open>str(v).strip().lower()\<close>: a value that is no text is never one of the two words.\<close>

definition policy_default :: "pydict \<Rightarrow> policy_error + string" where
  "policy_default cfg =
     (case dget_or cfg ''default'' (PStr ''allow'') of
        PStr s \<Rightarrow> (let d = py_lower (py_strip s)
                  in if d \<in> {''allow'', ''deny''} then Inr d else Inl Tool_Policy_Error)
      | _ \<Rightarrow> Inl Tool_Policy_Error)"

definition normalize_policy :: "pyval \<Rightarrow> policy_error + tool_policy" where
  "normalize_policy raw =
     (case py_or raw (PDict []) of
        PDict cfg \<Rightarrow>
          bind_res (policy_default cfg) (\<lambda>d.
          bind_res (coerce_patterns (dget_or cfg ''allow'' PNone)) (\<lambda>a.
          bind_res (coerce_patterns (dget_or cfg ''deny'' PNone)) (\<lambda>n.
            Inr \<lparr>tp_allow = a, tp_deny = n, tp_default = d\<rparr>)))
      | _ \<Rightarrow> Inl Tool_Policy_Error)"

section \<open>The verdict\<close>

datatype verdict_reason = Deny_Match | Allow_Match | By_Default | Invalid_Name

record tool_verdict =
  tv_allowed :: bool
  tv_tool_name :: string
  tv_reason :: verdict_reason
  tv_pattern :: "string option"

definition evaluate_tool :: "tool_policy \<Rightarrow> pyval \<Rightarrow> tool_verdict" where
  "evaluate_tool p tool_name =
     (case tool_name of
        PStr n \<Rightarrow>
          if n = [] then \<lparr>tv_allowed = False, tv_tool_name = [], tv_reason = Invalid_Name, tv_pattern = None\<rparr>
          else (case find (fnmatchcase n) (tp_deny p) of
                  Some pat \<Rightarrow> \<lparr>tv_allowed = False, tv_tool_name = n, tv_reason = Deny_Match, tv_pattern = Some pat\<rparr>
                | None \<Rightarrow>
                    (case find (fnmatchcase n) (tp_allow p) of
                       Some pat \<Rightarrow> \<lparr>tv_allowed = True, tv_tool_name = n, tv_reason = Allow_Match, tv_pattern = Some pat\<rparr>
                     | None \<Rightarrow> \<lparr>tv_allowed = (tp_default p = ''allow''), tv_tool_name = n,
                                tv_reason = By_Default, tv_pattern = None\<rparr>))
      | _ \<Rightarrow> \<lparr>tv_allowed = False, tv_tool_name = [], tv_reason = Invalid_Name, tv_pattern = None\<rparr>)"

section \<open>What a pattern denotes\<close>

text \<open>The words of a pattern, as a language built from its parts.\<close>

fun glob_words :: "glob \<Rightarrow> string set" where
  "glob_words Any_Seq = UNIV"
| "glob_words g = {[c] | c. match_char g c}"

fun pattern_words :: "glob list \<Rightarrow> string set" where
  "pattern_words [] = {[]}"
| "pattern_words (g # gs) = {u @ v | u v. u \<in> glob_words g \<and> v \<in> pattern_words gs}"

lemma glob_words_char: "g \<noteq> Any_Seq \<Longrightarrow> glob_words g = {[c] | c. match_char g c}"
  by (cases g) auto

lemma glob_match_words: "glob_match gs s \<longleftrightarrow> s \<in> pattern_words gs"
proof (induction gs s rule: glob_match.induct)
  case (1 s)
  then show ?case by simp
next
  case (2 g gs)
  then show ?case by (cases "g = Any_Seq") (auto simp: glob_words_char)
next
  case (3 g gs c s)
  show ?case
  proof (cases "g = Any_Seq")
    case True
    have "c # s \<in> pattern_words (Any_Seq # gs) \<longleftrightarrow>
        c # s \<in> pattern_words gs \<or> s \<in> pattern_words (Any_Seq # gs)"
      by (auto simp: Cons_eq_append_conv)
    then show ?thesis using 3 True by simp
  next
    case False
    then have "c # s \<in> pattern_words (g # gs) \<longleftrightarrow> match_char g c \<and> s \<in> pattern_words gs"
      by (auto simp: glob_words_char Cons_eq_append_conv intro: exI[of _ "[c]"])
    then show ?thesis using 3 False by simp
  qed
qed

lemma pattern_words_append: "pattern_words (gs @ hs) = {u @ v | u v. u \<in> pattern_words gs \<and> v \<in> pattern_words hs}"
proof (induction gs)
  case Nil
  then show ?case by simp
next
  case (Cons g gs)
  show ?case
  proof (intro equalityI subsetI)
    fix w assume "w \<in> pattern_words ((g # gs) @ hs)"
    then obtain u v x where "w = u @ v @ x" "u \<in> glob_words g" "v \<in> pattern_words gs" "x \<in> pattern_words hs"
      using Cons by auto
    then show "w \<in> {u @ v | u v. u \<in> pattern_words (g # gs) \<and> v \<in> pattern_words hs}"
      by (intro CollectI exI[of _ "u @ v"] exI[of _ x]) auto
  next
    fix w assume "w \<in> {u @ v | u v. u \<in> pattern_words (g # gs) \<and> v \<in> pattern_words hs}"
    then obtain u v x where "w = u @ v @ x" "u \<in> glob_words g" "v \<in> pattern_words gs" "x \<in> pattern_words hs"
      by auto
    then show "w \<in> pattern_words ((g # gs) @ hs)" using Cons by auto
  qed
qed

lemma pattern_words_One: "pattern_words (map One p) = {p}"
  by (induction p) auto

definition plain_char :: "char \<Rightarrow> bool" where
  "plain_char c \<longleftrightarrow> c \<noteq> CHR ''*'' \<and> c \<noteq> CHR ''?'' \<and> c \<noteq> CHR ''[''"

lemma parse_plain: "list_all plain_char p \<Longrightarrow> parse_glob (p @ q) = map One p @ parse_glob q"
  by (induction p) (auto simp: parse_glob.simps(2) plain_char_def)

lemma match_plain: "list_all plain_char p \<Longrightarrow> fnmatchcase n p \<longleftrightarrow> n = p"
  using parse_plain[of p "[]"] by (simp add: fnmatchcase_def glob_match_words pattern_words_One)

lemma match_prefix:
  "list_all plain_char p \<Longrightarrow> fnmatchcase n (p @ ''*'') \<longleftrightarrow> (\<exists>t. n = p @ t)"
  by (simp add: fnmatchcase_def glob_match_words parse_plain parse_glob.simps(2) pattern_words_append
      pattern_words_One)

lemma match_suffix:
  "list_all plain_char p \<Longrightarrow> fnmatchcase n (CHR ''*'' # p) \<longleftrightarrow> (\<exists>t. n = t @ p)"
  using parse_plain[of p "[]"]
  by (simp add: fnmatchcase_def glob_match_words parse_glob.simps(2) pattern_words_One)

text \<open>A pattern passes the validation exactly when no bracket of it is read as a literal.\<close>

lemma class_of_not_One: "class_of stuff \<noteq> One c"
  by (auto simp: class_of_def split: list.splits class_item.splits)

lemma classes_closed_iff: "classes_closed p \<longleftrightarrow> One CHR ''['' \<notin> set (parse_glob p)"
proof (induction p rule: parse_glob.induct)
  case 1
  then show ?case by simp
next
  case (2 c s)
  show ?case
  proof (cases "class_end s")
    case None
    then show ?thesis using 2 by (auto simp: parse_glob.simps(2) classes_closed.simps(2))
  next
    case (Some x)
    obtain stuff rest where x: "x = (stuff, rest)" by fastforce
    show ?thesis
      using 2 Some class_of_not_One[of stuff] class_of_not_One[of stuff "CHR ''[''", symmetric]
      by (auto simp: parse_glob.simps(2) classes_closed.simps(2) x)
  qed
qed

section \<open>What a policy keeps\<close>

definition pattern_ok :: "string \<Rightarrow> bool" where
  "pattern_ok s \<longleftrightarrow> s \<noteq> [] \<and> One CHR ''['' \<notin> set (parse_glob s)"

lemma validate_pattern_Inr: "validate_pattern v = Inr s \<longleftrightarrow> v = PStr s \<and> pattern_ok s"
  by (auto simp: validate_pattern_def pattern_ok_def classes_closed_iff split: pyval.splits)

lemma coerce_list_ok:
  "coerce_list out vs = Inr r \<Longrightarrow> distinct out \<Longrightarrow>
   distinct r \<and> map PStr r \<noteq> [PNone] \<and> set (map PStr r) = set (map PStr out) \<union> set vs \<and>
   (\<forall>s \<in> set r - set out. pattern_ok s)"
proof (induction vs arbitrary: out)
  case Nil
  then show ?case by auto
next
  case (Cons v vs)
  obtain s where s: "validate_pattern v = Inr s"
    and r: "coerce_list (if s \<in> set out then out else out @ [s]) vs = Inr r"
    using Cons.prems(1) by (auto simp: bind_res_Inr)
  have v: "v = PStr s" "pattern_ok s" using s by (simp_all add: validate_pattern_Inr)
  have "distinct (if s \<in> set out then out else out @ [s])" using Cons.prems(2) by auto
  from Cons.IH[OF r this] show ?case using v by auto
qed

definition patterns_from :: "pyval \<Rightarrow> string list \<Rightarrow> bool" where
  "patterns_from raw r \<longleftrightarrow>
     distinct r \<and> list_all pattern_ok r \<and>
     PStr ` set r = (case raw of PNone \<Rightarrow> {} | PList vs \<Rightarrow> set vs | v \<Rightarrow> {v})"

lemma coerce_patterns_from: "coerce_patterns raw = Inr r \<Longrightarrow> patterns_from raw r"
  using coerce_list_ok[of "[]" _ r]
  by (cases raw) (auto simp: coerce_patterns_def patterns_from_def list_all_iff simp del: coerce_list.simps)

lemma evaluate_tool_allowed:
  "tv_allowed (evaluate_tool p v) \<longleftrightarrow>
     (\<exists>n. v = PStr n \<and> n \<noteq> [] \<and> \<not> (\<exists>d \<in> set (tp_deny p). fnmatchcase n d) \<and>
        ((\<exists>a \<in> set (tp_allow p). fnmatchcase n a) \<or> tp_default p = ''allow''))"
proof (cases v)
  case (PStr n)
  note S = find_Some_in[of "fnmatchcase n"] and N = find_None_all[of "fnmatchcase n"]
  show ?thesis
  proof (cases "find (fnmatchcase n) (tp_deny p)")
    case None
    then show ?thesis
      using N[OF None] S[of "tp_allow p"] N[of "tp_allow p"]
      by (cases "find (fnmatchcase n) (tp_allow p)") (auto simp: evaluate_tool_def PStr)
  next
    case (Some d)
    then show ?thesis using S[OF Some] by (auto simp: evaluate_tool_def PStr)
  qed
qed (simp_all add: evaluate_tool_def)

lemma evaluate_noop: "is_noop p \<Longrightarrow> tv_allowed (evaluate_tool p v) \<longleftrightarrow> (\<exists>n. v = PStr n \<and> n \<noteq> [])"
  by (auto simp: evaluate_tool_allowed is_noop_def)

lemma policy_default_word: "policy_default cfg = Inr d \<Longrightarrow> d \<in> {''allow'', ''deny''}"
proof (cases "dget_or cfg ''default'' (PStr ''allow'')")
  case (PStr s)
  define w where "w = py_lower (py_strip s)"
  have "policy_default cfg = (if w \<in> {''allow'', ''deny''} then Inr w else Inl Tool_Policy_Error)"
    by (simp only: policy_default_def PStr pyval.case Let_def w_def)
  then show "policy_default cfg = Inr d \<Longrightarrow> d \<in> {''allow'', ''deny''}"
    by (metis Inl_Inr_False sum.inject(2))
qed (simp_all add: policy_default_def)

section \<open>Properties\<close>

text \<open>
  A tool call is eligible exactly when its name is a text, no deny pattern matches it, and an allow
  pattern matches or the default is to allow: deny wins over allow, and a missing name is never eligible.
\<close>

lemma deny_wins:
  "tv_allowed (evaluate_tool p v) \<longleftrightarrow>
     (\<exists>n. v = PStr n \<and> n \<noteq> [] \<and> \<not> (\<exists>d \<in> set (tp_deny p). fnmatchcase n d) \<and>
        ((\<exists>a \<in> set (tp_allow p). fnmatchcase n a) \<or> tp_default p = ''allow''))"
  by (rule evaluate_tool_allowed)

lemma deny_wins_witness:
  "\<not> tv_allowed (evaluate_tool \<lparr>tp_allow = [''shell_exec''], tp_deny = [''shell_*''], tp_default = ''allow''\<rparr>
      (PStr ''shell_exec''))"
  using deny_wins[of "\<lparr>tp_allow = [''shell_exec''], tp_deny = [''shell_*''], tp_default = ''allow''\<rparr>" "PStr ''shell_exec''"]
    match_prefix[of "''shell_''" "''shell_exec''"]
  by (simp add: plain_char_def)

text \<open>
  A policy that is accepted is the one that was written: its lists hold exactly the texts of the
  configuration, none of them empty, and no bracket in any of them is silently read as a literal.
\<close>

lemma accepted_policy_is_as_written:
  assumes "normalize_policy (PDict cfg) = Inr p"
  shows "patterns_from (dget_or cfg ''allow'' PNone) (tp_allow p) \<and>
         patterns_from (dget_or cfg ''deny'' PNone) (tp_deny p) \<and>
         tp_default p \<in> {''allow'', ''deny''}"
proof -
  have "py_or (PDict cfg) (PDict []) = PDict cfg" by (simp add: py_or_def)
  then have "bind_res (policy_default cfg) (\<lambda>d.
          bind_res (coerce_patterns (dget_or cfg ''allow'' PNone)) (\<lambda>a.
          bind_res (coerce_patterns (dget_or cfg ''deny'' PNone)) (\<lambda>n.
            Inr \<lparr>tp_allow = a, tp_deny = n, tp_default = d\<rparr>))) = Inr p"
    using assms unfolding normalize_policy_def by (simp only: pyval.case)
  then obtain d a n where d: "policy_default cfg = Inr d" and
    a: "coerce_patterns (dget_or cfg ''allow'' PNone) = Inr a" and
    n: "coerce_patterns (dget_or cfg ''deny'' PNone) = Inr n" and
    p: "p = \<lparr>tp_allow = a, tp_deny = n, tp_default = d\<rparr>"
    by (auto simp: bind_res_Inr)
  then show ?thesis using policy_default_word[OF d] coerce_patterns_from[OF a] coerce_patterns_from[OF n] p by simp
qed

lemma accepted_policy_is_as_written_witness:
  "patterns_from (PStr ''shell_*'') [''shell_*'']"
  using accepted_policy_is_as_written[of "[(''deny'', PStr ''shell_*'')]"
      "\<lparr>tp_allow = [], tp_deny = [''shell_*''], tp_default = ''allow''\<rparr>"]
  by (simp add: normalize_policy_def py_or_def policy_default_def dget_or_def coerce_patterns_def
      validate_pattern_def classes_closed.simps(2) Let_def py_lower_def py_strip_def strip_with_def lower_char_def is_space_def)

text \<open>
  A deny list means what its author wrote: under a default of allow, a policy that denies \<open>p\<close> refuses the name
  \<open>p\<close> alone, one that denies \<open>p*\<close> refuses exactly the names that begin with \<open>p\<close>, and one that denies \<open>*p\<close> refuses
  exactly the names that end in \<open>p\<close>, for a \<open>p\<close> without wildcards.
\<close>

lemma star_patterns_mean_prefix_and_suffix:
  assumes "list_all plain_char p" and "n \<noteq> []"
  shows "(tv_allowed (evaluate_tool \<lparr>tp_allow = [], tp_deny = [p], tp_default = ''allow''\<rparr> (PStr n)) \<longleftrightarrow> n \<noteq> p) \<and>
         (tv_allowed (evaluate_tool \<lparr>tp_allow = [], tp_deny = [p @ ''*''], tp_default = ''allow''\<rparr> (PStr n)) \<longleftrightarrow>
            \<not> (\<exists>t. n = p @ t)) \<and>
         (tv_allowed (evaluate_tool \<lparr>tp_allow = [], tp_deny = [CHR ''*'' # p], tp_default = ''allow''\<rparr> (PStr n)) \<longleftrightarrow>
            \<not> (\<exists>t. n = t @ p))"
  using assms by (simp add: evaluate_tool_allowed match_plain match_prefix match_suffix)

lemma star_patterns_mean_prefix_and_suffix_witness:
  "\<not> tv_allowed (evaluate_tool \<lparr>tp_allow = [], tp_deny = [''*_delete''], tp_default = ''allow''\<rparr> (PStr ''user_delete''))"
proof -
  have "''user_delete'' = ''user'' @ ''_delete''" by simp
  then show ?thesis
    using star_patterns_mean_prefix_and_suffix[of "''_delete''" "''user_delete''"]
    by (auto simp: plain_char_def)
qed

end
