(* ===== verification/Tool_Gate.thy ===== *)
theory Tool_Gate
  imports Tool_Policy Config_Overlay "HOL-Library.Char_ord" "HOL-Library.List_Lexorder"
begin

text \<open>
  \<open>middleware/g32_tool_eligibility.py\<close>: the gate over the tools a model asks for. Responses
  are Python values; the handlers return the edited value and the fields of the request context they
  set. The signature of a policy, its JSON text with sorted keys, is the value itself with
  sorted keys. Metrics and log lines are left out. The lemmas show that in block mode no ineligible call is
  left, in flag mode nothing but the annotation changes, that the policy cache never serves another
  tenant's or an outdated policy, and that a streamed call is relayed only on a verdict.
\<close>

section \<open>Context and configuration\<close>

record tool_ctx =
  tg_config :: pyval
  tg_tenant :: string
  te_action :: "string option"
  te_denied :: "pyval list"
  te_count :: nat
  tg_no_cache :: bool
  ccr_tools_injected :: bool
  dispatch_blocked :: "string list"

definition valid_modes :: "string list" where
  "valid_modes = [''off'', ''flag'', ''block'']"

definition g32_config :: "tool_ctx \<Rightarrow> pydict" where
  "g32_config ctx = resolve_group_config (tg_config ctx) (tg_tenant ctx) ''G32_tool_eligibility''"

definition g32_enabled :: "pydict \<Rightarrow> bool" where
  "g32_enabled cfg = py_truthy (dget_or cfg ''enabled'' (PBool True))"

definition g32_mode :: "pydict \<Rightarrow> string" where
  "g32_mode cfg = coerce_mode (dget_or cfg ''mode'' PNone) valid_modes ''flag''"

section \<open>The policy cache\<close>

fun canon :: "pyval \<Rightarrow> pyval" where
  "canon (PDict d) = PDict (sort_key fst (map (\<lambda>kv. (fst kv, canon (snd kv))) d))"
| "canon (PList xs) = PList (map canon xs)"
| "canon v = v"

type_synonym policy_cache = "(string \<times> (pyval \<times> tool_policy)) list"

definition policy_cache_max :: nat where
  "policy_cache_max = 512"

definition get_policy :: "policy_cache \<Rightarrow> pydict \<Rightarrow> string \<Rightarrow> policy_cache \<times> tool_policy" where
  "get_policy cache cfg tenant_id =
     (let raw = py_or (dget_or cfg ''policy'' PNone) (PDict []);
          sig = canon raw;
          compiled =
            (case normalize_policy raw of
               Inl _ \<Rightarrow>
                 (cache, case dget cache tenant_id of Some (_, p) \<Rightarrow> p | None \<Rightarrow> noop_policy)
             | Inr p \<Rightarrow>
                 (if length cache \<ge> policy_cache_max \<and> dget cache tenant_id = None
                  then [(tenant_id, (sig, p))]
                  else dset tenant_id (sig, p) cache, p))
      in case dget cache tenant_id of
           Some (s, p) \<Rightarrow> if s = sig then (cache, p) else compiled
         | None \<Rightarrow> compiled)"

section \<open>Non-streamed responses\<close>

definition default_block_message :: string where
  "default_block_message =
     ''A tool the model requested is not permitted by this workspace's tool policy, so it was not carried out.''"

definition call_name :: "pyval \<Rightarrow> pyval" where
  "call_name call =
     (case call of
        PDict c \<Rightarrow>
          (case dget_dict c ''function'' of
             Some fn \<Rightarrow> py_or (dget_or fn ''name'' PNone) (PStr [])
           | None \<Rightarrow> PStr [])
      | _ \<Rightarrow> PStr [])"

definition call_allowed :: "tool_policy \<Rightarrow> pyval \<Rightarrow> bool" where
  "call_allowed p call = tv_allowed (evaluate_tool p (call_name call))"

text \<open>\<open>name or "<unnamed>"\<close>.\<close>

definition denied_name :: "pyval \<Rightarrow> pyval" where
  "denied_name name = py_or name (PStr ''<unnamed>'')"

text \<open>The list of calls of a message, when it is one and not empty.\<close>

definition message_calls :: "pydict \<Rightarrow> pyval list" where
  "message_calls msg = (case dget msg ''tool_calls'' of Some (PList cs) \<Rightarrow> cs | _ \<Rightarrow> [])"

text \<open>The message of a choice after all its calls were denied.\<close>

definition emptied_message :: "pydict \<Rightarrow> pydict \<Rightarrow> pydict" where
  "emptied_message cfg msg =
     (let msg1 = dpop ''tool_calls'' msg
      in if py_truthy (dget_or msg1 ''content'' PNone) then msg1
         else dset ''content'' (dget_or cfg ''block_message'' (PStr default_block_message)) msg1)"

definition apply_to_choice ::
  "tool_policy \<Rightarrow> string \<Rightarrow> pydict \<Rightarrow> pydict \<Rightarrow> pydict \<times> pyval list \<times> bool" where
  "apply_to_choice p mode cfg choice =
     (case dget_dict choice ''message'' of
        None \<Rightarrow> (choice, [], False)
      | Some msg \<Rightarrow>
          (let calls = message_calls msg in
           if calls = [] then (choice, [], False)
           else
             (let denied = map (\<lambda>c. denied_name (call_name c)) (filter (\<lambda>c. \<not> call_allowed p c) calls);
                  kept = (if mode = ''block'' then filter (call_allowed p) calls else calls)
              in if length kept = length calls then (choice, denied, False)
                 else if kept \<noteq> []
                 then (dset ''message'' (PDict (dset ''tool_calls'' (PList kept) msg)) choice, denied, True)
                 else
                   (let choice1 =
                          (if dget_or choice ''finish_reason'' PNone = PStr ''tool_calls''
                           then dset ''finish_reason'' (PStr ''stop'') choice else choice)
                    in (dset ''message'' (PDict (emptied_message cfg msg)) choice1, denied, True)))))"

fun apply_to_choices ::
  "tool_policy \<Rightarrow> string \<Rightarrow> pydict \<Rightarrow> pyval list \<Rightarrow> pyval list \<times> pyval list \<times> bool" where
  "apply_to_choices p mode cfg [] = ([], [], False)"
| "apply_to_choices p mode cfg (v # vs) =
     (case apply_to_choices p mode cfg vs of
        (vs', ds, stripped) \<Rightarrow>
          (case v of
             PDict choice \<Rightarrow>
               (case apply_to_choice p mode cfg choice of
                  (choice', d, st) \<Rightarrow> (PDict choice' # vs', d @ ds, st \<or> stripped))
           | _ \<Rightarrow> (v # vs', ds, stripped)))"

text \<open>\<open>dict.fromkeys\<close>: the first occurrences, in order.\<close>

fun first_occurrences :: "'a list \<Rightarrow> 'a list" where
  "first_occurrences [] = []"
| "first_occurrences (x # xs) = x # filter (\<lambda>y. y \<noteq> x) (first_occurrences xs)"

text \<open>\<open>setdefault("_token_opt", {})\<close>, whose value may be no mapping: the annotation is then left out.\<close>

definition annotate :: "string \<Rightarrow> pyval list \<Rightarrow> bool \<Rightarrow> pydict \<Rightarrow> pydict" where
  "annotate mode denied stripped response =
     (let note = PDict [(''mode'', PStr mode), (''denied'', PList denied), (''stripped'', PBool stripped)] in
      case dget response ''_token_opt'' of
        None \<Rightarrow> dset ''_token_opt'' (PDict [(''tool_eligibility'', note)]) response
      | Some (PDict t) \<Rightarrow> dset ''_token_opt'' (PDict (dset ''tool_eligibility'' note t)) response
      | Some _ \<Rightarrow> response)"

text \<open>What is recorded on the context, and whether the list of names could be made.\<close>

definition record_denied :: "tool_ctx \<Rightarrow> string \<Rightarrow> pyval list \<Rightarrow> bool \<Rightarrow> tool_ctx \<times> (pyexc + unit)" where
  "record_denied ctx mode denied stripped =
     (let ctx1 = ctx\<lparr>te_action := Some mode\<rparr>
      in if \<not> list_all hashable denied then (ctx1, Inl TypeError)
         else (ctx1\<lparr>te_denied := first_occurrences denied, te_count := length denied,
                    tg_no_cache := (stripped \<or> tg_no_cache ctx)\<rparr>, Inr ()))"

definition g32_process_response ::
  "policy_cache \<Rightarrow> tool_ctx \<Rightarrow> pyval \<Rightarrow> policy_cache \<times> tool_ctx \<times> (pyexc + pyval)" where
  "g32_process_response cache ctx response =
     (let cfg = g32_config ctx; mode = g32_mode cfg in
      if \<not> g32_enabled cfg \<or> mode = ''off'' then (cache, ctx, Inr response)
      else (case response of
              PDict r \<Rightarrow>
                (case get_policy cache cfg (tg_tenant ctx) of
                   (cache', p) \<Rightarrow>
                     if is_noop p then (cache', ctx, Inr response)
                     else (case py_or (dget_or r ''choices'' (PList [])) (PList []) of
                             PList cs \<Rightarrow>
                               (case apply_to_choices p mode cfg cs of
                                  (cs', denied, stripped) \<Rightarrow>
                                    if denied = [] then (cache', ctx, Inr response)
                                    else (case record_denied ctx mode denied stripped of
                                            (ctx', Inl e) \<Rightarrow> (cache', ctx', Inl e)
                                          | (ctx', Inr _) \<Rightarrow>
                                              (cache', ctx',
                                               Inr (PDict (annotate mode (te_denied ctx') stripped
                                                       (dset ''choices'' (PList cs') r))))))
                           | PStr _ \<Rightarrow> (cache', ctx, Inr response)
                           | PDict _ \<Rightarrow> (cache', ctx, Inr response)
                           | _ \<Rightarrow> (cache', ctx, Inl TypeError)))
            | _ \<Rightarrow> (cache, ctx, Inr response)))"

section \<open>Streamed responses\<close>

record stream_gate =
  sg_mode :: string
  sg_policy :: tool_policy
  sg_verdicts :: "((pyval \<times> pyval) \<times> bool) list"
  sg_held :: "((pyval \<times> pyval) \<times> pyval list) list"
  sg_denied :: "pyval list"
  sg_stripped :: bool

definition make_stream_gate :: "policy_cache \<Rightarrow> tool_ctx \<Rightarrow> policy_cache \<times> stream_gate option" where
  "make_stream_gate cache ctx =
     (let cfg = g32_config ctx; mode = g32_mode cfg in
      if \<not> g32_enabled cfg \<or> mode = ''off'' then (cache, None)
      else (case get_policy cache cfg (tg_tenant ctx) of
              (cache', p) \<Rightarrow>
                (cache', if is_noop p then None
                         else Some \<lparr>sg_mode = mode, sg_policy = p, sg_verdicts = [], sg_held = [],
                                    sg_denied = [], sg_stripped = False\<rparr>)))"

definition gate_allowed :: "stream_gate \<Rightarrow> pyval \<Rightarrow> stream_gate \<times> bool" where
  "gate_allowed g name =
     (if tv_allowed (evaluate_tool (sg_policy g) name) then (g, True)
      else (g\<lparr>sg_denied := sg_denied g @ [denied_name name]\<rparr>, False))"

text \<open>The name of a delta entry, when it has come.\<close>

definition entry_name :: "pydict \<Rightarrow> pyval" where
  "entry_name e =
     (case dget_dict e ''function'' of Some fn \<Rightarrow> dget_or fn ''name'' PNone | None \<Rightarrow> PNone)"

definition gate_keep :: "stream_gate \<Rightarrow> pyval \<Rightarrow> pyval \<Rightarrow> stream_gate \<times> (pyexc + bool)" where
  "gate_keep g choice_idx entry =
     (case entry of
        PDict e \<Rightarrow>
          (let idx = (choice_idx, dget_or e ''index'' (PInt 0)) in
           if \<not> hashable (fst idx) \<or> \<not> hashable (snd idx) then (g, Inl TypeError)
           else (case dget (sg_verdicts g) idx of
                   Some v \<Rightarrow> (g, Inr v)
                 | None \<Rightarrow>
                     if py_truthy (entry_name e)
                     then (case gate_allowed g (entry_name e) of
                             (g1, a) \<Rightarrow> (g1\<lparr>sg_verdicts := dset idx a (sg_verdicts g1)\<rparr>, Inr a))
                     else (g\<lparr>sg_held := dset idx
                               ((case dget (sg_held g) idx of Some es \<Rightarrow> es | None \<Rightarrow> []) @ [entry])
                               (sg_held g)\<rparr>, Inr False)))
      | _ \<Rightarrow> (g, Inr True))"

fun gate_keep_list :: "stream_gate \<Rightarrow> pyval \<Rightarrow> pyval list \<Rightarrow> stream_gate \<times> (pyexc + pyval list)" where
  "gate_keep_list g choice_idx [] = (g, Inr [])"
| "gate_keep_list g choice_idx (e # es) =
     (case gate_keep g choice_idx e of
        (g1, Inl x) \<Rightarrow> (g1, Inl x)
      | (g1, Inr keep) \<Rightarrow>
          (case gate_keep_list g1 choice_idx es of
             (g2, Inl x) \<Rightarrow> (g2, Inl x)
           | (g2, Inr kept) \<Rightarrow> (g2, Inr (if keep then e # kept else kept))))"

text \<open>One choice of a chunk: the choice after the gate and whether a call was held back.\<close>

definition filter_choice :: "stream_gate \<Rightarrow> pyval \<Rightarrow> stream_gate \<times> (pyexc + pyval \<times> bool)" where
  "filter_choice g v =
     (case v of
        PDict choice \<Rightarrow>
          (case dget_dict choice ''delta'' of
             None \<Rightarrow> (g, Inr (v, False))
           | Some delta \<Rightarrow>
               (let calls = message_calls delta in
                if calls = [] then (g, Inr (v, False))
                else (case gate_keep_list g (dget_or choice ''index'' (PInt 0)) calls of
                        (g1, Inl x) \<Rightarrow> (g1, Inl x)
                      | (g1, Inr kept) \<Rightarrow>
                          if length kept = length calls then (g1, Inr (v, False))
                          else if sg_mode g1 \<noteq> ''block'' then (g1, Inr (v, True))
                          else (g1\<lparr>sg_stripped := True\<rparr>,
                                Inr (PDict
                                  (if kept \<noteq> []
                                   then dset ''delta'' (PDict (dset ''tool_calls'' (PList kept) delta)) choice
                                   else dset ''delta'' (PDict (dpop ''tool_calls'' delta))
                                          (if dget_or choice ''finish_reason'' PNone = PStr ''tool_calls''
                                           then dset ''finish_reason'' (PStr ''stop'') choice else choice)),
                                     True)))))
      | _ \<Rightarrow> (g, Inr (v, False)))"

fun filter_choices :: "stream_gate \<Rightarrow> pyval list \<Rightarrow> stream_gate \<times> (pyexc + pyval list \<times> bool)" where
  "filter_choices g [] = (g, Inr ([], False))"
| "filter_choices g (v # vs) =
     (case filter_choice g v of
        (g1, Inl x) \<Rightarrow> (g1, Inl x)
      | (g1, Inr (v', t)) \<Rightarrow>
          (case filter_choices g1 vs of
             (g2, Inl x) \<Rightarrow> (g2, Inl x)
           | (g2, Inr (vs', t')) \<Rightarrow> (g2, Inr (v' # vs', t \<or> t'))))"

text \<open>Whether a stripped chunk still carries something.\<close>

fun chunk_carries :: "pyval list \<Rightarrow> pyexc + bool" where
  "chunk_carries [] = Inr False"
| "chunk_carries (v # vs) =
     (case v of
        PDict c \<Rightarrow>
          (case py_or (dget_or c ''delta'' PNone) (PDict []) of
             PDict d \<Rightarrow>
               if dget_or d ''content'' PNone \<noteq> PNone \<or> py_truthy (dget_or d ''tool_calls'' PNone) \<or>
                  py_truthy (dget_or c ''finish_reason'' PNone)
               then Inr True else chunk_carries vs
           | _ \<Rightarrow> Inl AttributeError)
      | _ \<Rightarrow> chunk_carries vs)"

definition filter_chunk :: "stream_gate \<Rightarrow> pyval \<Rightarrow> stream_gate \<times> (pyexc + pyval option)" where
  "filter_chunk g chunk =
     (case chunk of
        PDict c \<Rightarrow>
          if sg_mode g = ''off'' then (g, Inr (Some chunk))
          else (case dget c ''choices'' of
                  Some (PList cs) \<Rightarrow>
                    if cs = [] then (g, Inr (Some chunk))
                    else (case filter_choices g cs of
                            (g1, Inl x) \<Rightarrow> (g1, Inl x)
                          | (g1, Inr (cs', touched)) \<Rightarrow>
                              (let out = PDict (dset ''choices'' (PList cs') c) in
                               if \<not> touched \<or> sg_mode g1 \<noteq> ''block'' then (g1, Inr (Some out))
                               else (case chunk_carries cs' of
                                       Inl x \<Rightarrow> (g1, Inl x)
                                     | Inr b \<Rightarrow> (g1, Inr (if b then Some out else None)))))
                | _ \<Rightarrow> (g, Inr (Some chunk)))
      | _ \<Rightarrow> (g, Inr (Some chunk)))"

definition gate_finish :: "stream_gate \<Rightarrow> tool_ctx \<Rightarrow> stream_gate \<times> tool_ctx \<times> (pyexc + unit)" where
  "gate_finish g ctx =
     (let open_calls = filter (\<lambda>idx. dget (sg_verdicts g) idx = None) (map fst (sg_held g));
          g1 = g\<lparr>sg_denied := sg_denied g @ map (\<lambda>_. PStr ''<unnamed>'') open_calls,
                sg_stripped := (sg_stripped g \<or> (open_calls \<noteq> [] \<and> sg_mode g = ''block''))\<rparr>
      in if sg_denied g1 = [] then (g1, ctx, Inr ())
         else (case record_denied ctx (sg_mode g1) (sg_denied g1) (sg_stripped g1) of
                 (ctx', r) \<Rightarrow> (g1, ctx', r)))"

section \<open>Dispatch\<close>

datatype refusal = Not_Injected | Policy_Denied | Evaluation_Error

definition authorize_dispatch :: "tool_ctx \<Rightarrow> pyval \<Rightarrow> refusal option" where
  "authorize_dispatch ctx tool_name =
     (if \<not> ccr_tools_injected ctx then Some Not_Injected
      else (let cfg = g32_config ctx in
            if \<not> g32_enabled cfg then None
            else if g32_mode cfg = ''off'' then None
            else (case normalize_policy (py_or (dget_or cfg ''policy'' PNone) (PDict [])) of
                    Inl _ \<Rightarrow> Some Evaluation_Error
                  | Inr p \<Rightarrow>
                      if is_noop p then None
                      else if tv_allowed (evaluate_tool p tool_name) then None
                      else Some Policy_Denied)))"

definition record_dispatch_block :: "tool_ctx \<Rightarrow> string \<Rightarrow> tool_ctx" where
  "record_dispatch_block ctx tool_name =
     (if tool_name \<in> set (dispatch_blocked ctx) then ctx
      else ctx\<lparr>dispatch_blocked := dispatch_blocked ctx @ [tool_name]\<rparr>)"

section \<open>The cache serves the tenant's own current policy\<close>

lemma dget_sort: "distinct (map fst d) \<Longrightarrow> dget (sort_key fst d) k = dget d k"
proof -
  assume d: "distinct (map fst d)"
  then have "distinct (map fst (sort_key fst d))" by (simp add: distinct_map)
  then have "map_of (sort_key fst d) = map_of d" using d by (simp add: map_of_inject_set)
  then show ?thesis by simp
qed

lemma dget_map_snd: "dget (map (\<lambda>kv. (fst kv, h (snd kv))) d) k = map_option h (dget d k)"
  by (induction d) auto

lemma canon_dget:
  assumes "distinct (map fst d)"
  shows "dget (sort_key fst (map (\<lambda>kv. (fst kv, canon (snd kv))) d)) k = map_option canon (dget d k)"
proof -
  have "distinct (map fst (map (\<lambda>kv. (fst kv, canon (snd kv))) d))" using assms by (simp add: comp_def)
  then show ?thesis by (simp add: dget_sort dget_map_snd)
qed

lemma validate_canon: "validate_pattern (canon v) = validate_pattern v"
  by (cases v) (simp_all add: validate_pattern_def)

lemma coerce_list_canon: "coerce_list out (map canon vs) = coerce_list out vs"
  by (induction vs arbitrary: out) (auto simp: validate_canon)

lemma coerce_patterns_canon: "coerce_patterns (canon v) = coerce_patterns v"
  by (cases v) (simp_all add: coerce_patterns_def coerce_list_canon)

lemma dget_or_canon: "distinct (map fst d) \<Longrightarrow>
  dget_or (sort_key fst (map (\<lambda>kv. (fst kv, canon (snd kv))) d)) k (canon v) = canon (dget_or d k v)"
  by (simp add: dget_or_def canon_dget split: option.split)

lemma policy_default_canon:
  assumes "distinct (map fst d)"
  shows "policy_default (sort_key fst (map (\<lambda>kv. (fst kv, canon (snd kv))) d)) = policy_default d"
proof -
  have "dget_or (sort_key fst (map (\<lambda>kv. (fst kv, canon (snd kv))) d)) ''default'' (PStr ''allow'') =
        canon (dget_or d ''default'' (PStr ''allow''))"
    using dget_or_canon[OF assms, of "''default''" "PStr ''allow''"] by simp
  then show ?thesis
    unfolding policy_default_def by (cases "dget_or d ''default'' (PStr ''allow'')") simp_all
qed

lemma truthy_canon: "py_truthy (canon v) = py_truthy v"
proof (cases v)
  case (PDict d)
  have "sort_key fst (map (\<lambda>kv. (fst kv, canon (snd kv))) d) = [] \<longleftrightarrow> d = []"
    by (metis length_0_conv length_map length_sort)
  then show ?thesis by (simp add: PDict)
qed simp_all

lemma normalize_canon:
  assumes "wf_val v"
  shows "normalize_policy (canon v) = normalize_policy v"
proof -
  have e: "py_or (canon v) (PDict []) = canon (py_or v (PDict []))"
    by (simp add: py_or_def truthy_canon)
  show ?thesis
  proof (cases "py_or v (PDict [])")
    case (PDict d)
    have "wf_val (PDict d)" using assms PDict by (auto simp: py_or_def split: if_splits)
    then have dist: "distinct (map fst d)" by simp
    have a: "coerce_patterns (dget_or (sort_key fst (map (\<lambda>kv. (fst kv, canon (snd kv))) d)) k PNone) =
        coerce_patterns (dget_or d k PNone)" for k
      using dget_or_canon[OF dist, of k PNone] coerce_patterns_canon by simp
    show ?thesis
      unfolding normalize_policy_def e PDict canon.simps pyval.case policy_default_canon[OF dist] a ..
  qed (simp_all add: normalize_policy_def e)
qed

definition cache_ok :: "policy_cache \<Rightarrow> bool" where
  "cache_ok cache \<longleftrightarrow> (\<forall>t s p. dget cache t = Some (s, p) \<longrightarrow> normalize_policy s = Inr p)"

lemma get_policy_served:
  assumes ok: "cache_ok cache" and wf: "wf_val (py_or (dget_or cfg ''policy'' PNone) (PDict []))"
  shows "snd (get_policy cache cfg t) =
     (case normalize_policy (py_or (dget_or cfg ''policy'' PNone) (PDict [])) of
        Inr p \<Rightarrow> p
      | Inl _ \<Rightarrow> (case dget cache t of Some (_, p) \<Rightarrow> p | None \<Rightarrow> noop_policy))"
proof (cases "dget cache t")
  case None
  then show ?thesis by (simp add: get_policy_def Let_def split: sum.split)
next
  case (Some x)
  obtain s p where x: "x = (s, p)" by fastforce
  have "normalize_policy s = Inr p" using ok Some x by (simp add: cache_ok_def)
  then show ?thesis
    using Some x normalize_canon[OF wf] by (auto simp: get_policy_def Let_def split: sum.splits)
qed

lemma get_policy_cache:
  assumes ok: "cache_ok cache" and wf: "wf_val (py_or (dget_or cfg ''policy'' PNone) (PDict []))"
  shows "cache_ok (fst (get_policy cache cfg t))"
    and "t' \<noteq> t \<Longrightarrow> dget (fst (get_policy cache cfg t)) t' \<in> {dget cache t', None}"
    and "length cache \<le> policy_cache_max \<Longrightarrow> length (fst (get_policy cache cfg t)) \<le> policy_cache_max"
proof -
  let ?raw = "py_or (dget_or cfg ''policy'' PNone) (PDict [])"
  have cases: "fst (get_policy cache cfg t) = cache \<or>
     (\<exists>p. normalize_policy ?raw = Inr p \<and>
        (fst (get_policy cache cfg t) = [(t, (canon ?raw, p))] \<or>
         fst (get_policy cache cfg t) = dset t (canon ?raw, p) cache \<and>
           (length cache < policy_cache_max \<or> dget cache t \<noteq> None)))"
    by (auto simp: get_policy_def Let_def split: sum.splits option.splits prod.splits)
  show "cache_ok (fst (get_policy cache cfg t))"
    using cases ok normalize_canon[OF wf] by (auto simp: cache_ok_def dget_dset split: if_splits)
  show "t' \<noteq> t \<Longrightarrow> dget (fst (get_policy cache cfg t)) t' \<in> {dget cache t', None}"
    using cases by (auto simp: pd.put_frame)
  have len: "length (dset t v cache) = (if dget cache t = None then Suc (length cache) else length cache)" for v
    by (induction cache) auto
  show "length cache \<le> policy_cache_max \<Longrightarrow> length (fst (get_policy cache cfg t)) \<le> policy_cache_max"
    using cases by (auto simp: len policy_cache_max_def split: if_splits)
qed

section \<open>What the gate leaves of a response\<close>

definition choice_calls :: "pyval \<Rightarrow> pyval list" where
  "choice_calls v =
     (case v of
        PDict c \<Rightarrow> (case dget_dict c ''message'' of Some m \<Rightarrow> message_calls m | None \<Rightarrow> [])
      | _ \<Rightarrow> [])"

definition response_calls :: "pydict \<Rightarrow> pyval list" where
  "response_calls r =
     (case py_or (dget_or r ''choices'' (PList [])) (PList []) of
        PList cs \<Rightarrow> concat (map choice_calls cs)
      | _ \<Rightarrow> [])"

lemma emptied_message_calls: "message_calls (emptied_message cfg msg) = []"
  by (simp add: emptied_message_def message_calls_def Let_def dget_dset dget_dpop)

lemma filter_full: "length (filter P xs) = length xs \<Longrightarrow> filter P xs = xs"
  by (metis filter_id_conv length_filter_less nat_less_le)

lemma apply_to_choice_cases:
  obtains (none) "choice_calls (PDict choice) = []" "apply_to_choice p mode cfg choice = (choice, [], False)"
  | (same) msg where "dget_dict choice ''message'' = Some msg"
      "apply_to_choice p mode cfg choice =
        (choice, map (\<lambda>c. denied_name (call_name c)) (filter (\<lambda>c. \<not> call_allowed p c) (message_calls msg)), False)"
      "mode \<noteq> ''block'' \<or> filter (call_allowed p) (message_calls msg) = message_calls msg"
  | (cut) msg msg' choice1 where "dget_dict choice ''message'' = Some msg" "mode = ''block''"
      "apply_to_choice p mode cfg choice =
        (dset ''message'' (PDict msg') choice1,
         map (\<lambda>c. denied_name (call_name c)) (filter (\<lambda>c. \<not> call_allowed p c) (message_calls msg)), True)"
      "message_calls msg' = filter (call_allowed p) (message_calls msg)"
proof (cases "dget_dict choice ''message''")
  case None
  then show thesis using none by (simp add: apply_to_choice_def choice_calls_def del: dget_dict.simps)
next
  case (Some msg)
  let ?cs = "message_calls msg"
  let ?d = "map (\<lambda>c. denied_name (call_name c)) (filter (\<lambda>c. \<not> call_allowed p c) ?cs)"
  show thesis
  proof (cases "?cs = []")
    case True
    then show thesis using Some none by (simp add: apply_to_choice_def choice_calls_def del: dget_dict.simps)
  next
    case ne: False
    show thesis
    proof (cases "mode \<noteq> ''block'' \<or> length (filter (call_allowed p) ?cs) = length ?cs")
      case True
      then show thesis
        using Some ne same[of msg] filter_full[of "call_allowed p" ?cs]
        by (auto simp: apply_to_choice_def Let_def simp del: dget_dict.simps)
    next
      case False
      then have m: "mode = ''block''" "length (filter (call_allowed p) ?cs) \<noteq> length ?cs" by auto
      show thesis
      proof (cases "filter (call_allowed p) ?cs = []")
        case True
        then show thesis
          using Some ne m emptied_message_calls[of cfg msg]
            cut[of msg "emptied_message cfg msg"
              "if dget_or choice ''finish_reason'' PNone = PStr ''tool_calls''
               then dset ''finish_reason'' (PStr ''stop'') choice else choice"]
          by (simp add: apply_to_choice_def Let_def del: dget_dict.simps)
      next
        case f: False
        have "message_calls (dset ''tool_calls'' (PList (filter (call_allowed p) ?cs)) msg) =
              filter (call_allowed p) ?cs"
          by (simp add: message_calls_def dget_dset)
        then show thesis
          using Some ne m f cut[of msg "dset ''tool_calls'' (PList (filter (call_allowed p) ?cs)) msg" choice]
          by (simp add: apply_to_choice_def Let_def del: dget_dict.simps)
      qed
    qed
  qed
qed

lemma apply_to_choice_block:
  assumes "apply_to_choice p ''block'' cfg choice = (choice', ds, st)"
  shows "choice_calls (PDict choice') = filter (call_allowed p) (choice_calls (PDict choice)) \<and>
         length ds = length (filter (\<lambda>c. \<not> call_allowed p c) (choice_calls (PDict choice))) \<and>
         (st \<longleftrightarrow> ds \<noteq> [])"
proof (cases rule: apply_to_choice_cases[of choice p "''block''" cfg])
  case none
  then show ?thesis using assms by simp
next
  case (same msg)
  have "filter (\<lambda>c. \<not> call_allowed p c) (message_calls msg) = []"
    using same(3) by (metis filter_False filter_id_conv)
  then show ?thesis using same assms by (simp add: choice_calls_def)
next
  case (cut msg msg' choice1)
  have "dget_dict (dset ''message'' (PDict msg') choice1) ''message'' = Some msg'"
    by (simp add: dget_dset)
  moreover have "filter (\<lambda>c. \<not> call_allowed p c) (message_calls msg) \<noteq> []"
  proof
    assume e: "filter (\<lambda>c. \<not> call_allowed p c) (message_calls msg) = []"
    then have "filter (call_allowed p) (message_calls msg) = message_calls msg"
      by (metis (mono_tags, lifting) empty_filter_conv filter_True)
    then show False using cut(2,3) cut(1) e assms
      by (auto simp: apply_to_choice_def Let_def simp del: dget_dict.simps split: if_splits)
  qed
  ultimately show ?thesis
    using cut assms by (auto simp: choice_calls_def simp del: dget_dict.simps)
qed

lemma apply_to_choice_flag:
  assumes "apply_to_choice p mode cfg choice = (choice', ds, st)" and "mode \<noteq> ''block''"
  shows "choice' = choice \<and> \<not> st \<and>
         length ds = length (filter (\<lambda>c. \<not> call_allowed p c) (choice_calls (PDict choice)))"
  using assms
  by (cases rule: apply_to_choice_cases[of choice p mode cfg]) (auto simp: choice_calls_def)

lemma apply_to_choices_block:
  "apply_to_choices p ''block'' cfg cs = (cs', ds, st) \<Longrightarrow>
   concat (map choice_calls cs') = filter (call_allowed p) (concat (map choice_calls cs)) \<and>
   length ds = length (filter (\<lambda>c. \<not> call_allowed p c) (concat (map choice_calls cs))) \<and> (st \<longleftrightarrow> ds \<noteq> [])"
proof (induction cs arbitrary: cs' ds st)
  case Nil
  then show ?case by simp
next
  case (Cons v vs)
  obtain vs' ds' st' where r: "apply_to_choices p ''block'' cfg vs = (vs', ds', st')" by (metis prod_cases3)
  show ?case
  proof (cases v)
    case (PDict choice)
    obtain c' d s where a: "apply_to_choice p ''block'' cfg choice = (c', d, s)" by (metis prod_cases3)
    show ?thesis
      using Cons.prems Cons.IH[OF r] apply_to_choice_block[OF a] r a PDict by auto
  qed (use Cons.prems Cons.IH[OF r] r in \<open>auto simp: choice_calls_def\<close>)
qed

lemma apply_to_choices_flag:
  "apply_to_choices p mode cfg cs = (cs', ds, st) \<Longrightarrow> mode \<noteq> ''block'' \<Longrightarrow>
   cs' = cs \<and> \<not> st \<and> length ds = length (filter (\<lambda>c. \<not> call_allowed p c) (concat (map choice_calls cs)))"
proof (induction cs arbitrary: cs' ds st)
  case Nil
  then show ?case by simp
next
  case (Cons v vs)
  obtain vs' ds' st' where r: "apply_to_choices p mode cfg vs = (vs', ds', st')" by (metis prod_cases3)
  show ?case
  proof (cases v)
    case (PDict choice)
    obtain c' d s where a: "apply_to_choice p mode cfg choice = (c', d, s)" by (metis prod_cases3)
    show ?thesis
      using Cons.prems Cons.IH[OF r] apply_to_choice_flag[OF a] r a PDict by auto
  qed (use Cons.prems Cons.IH[OF r] r in \<open>auto simp: choice_calls_def\<close>)
qed

lemma annotate_other: "k \<noteq> ''_token_opt'' \<Longrightarrow> dget (annotate mode ds st r) k = dget r k"
  by (auto simp: annotate_def Let_def dget_dset split: option.splits pyval.splits)

lemma response_calls_choices:
  "dget r ''choices'' = dget r' ''choices'' \<Longrightarrow> response_calls r = response_calls r'"
  by (simp add: response_calls_def dget_or_def)

lemma response_calls_dset: "response_calls (dset ''choices'' (PList cs) r) = concat (map choice_calls cs)"
  by (simp add: response_calls_def dget_or_def dget_dset py_or_def)

text \<open>The run of the handler on a mapping, when the group is on and the policy can deny.\<close>

lemma g32_run:
  assumes "g32_enabled (g32_config ctx)" and "g32_mode (g32_config ctx) \<noteq> ''off''"
    and "get_policy cache (g32_config ctx) (tg_tenant ctx) = (c1, p)" and "\<not> is_noop p"
    and "py_or (dget_or r ''choices'' (PList [])) (PList []) = PList cs"
    and "apply_to_choices p (g32_mode (g32_config ctx)) (g32_config ctx) cs = (cs', ds, st)"
  shows "g32_process_response cache ctx (PDict r) =
        (if ds = [] then (c1, ctx, Inr (PDict r))
         else (case record_denied ctx (g32_mode (g32_config ctx)) ds st of
                 (c, Inl e) \<Rightarrow> (c1, c, Inl e)
               | (c, Inr _) \<Rightarrow> (c1, c, Inr (PDict (annotate (g32_mode (g32_config ctx)) (te_denied c) st
                                                (dset ''choices'' (PList cs') r))))))"
  using assms(1,2,4)
  by (simp only: g32_process_response_def Let_def assms(3,5,6) pyval.case prod.case simp_thms if_False)

lemma g32_cases:
  assumes "g32_process_response cache ctx (PDict r) = (cache', ctx', Inr res)"
    and "g32_enabled (g32_config ctx)" and "g32_mode (g32_config ctx) \<noteq> ''off''"
    and "\<not> is_noop (snd (get_policy cache (g32_config ctx) (tg_tenant ctx)))"
  obtains (none) "response_calls r = []" "res = PDict r" "ctx' = ctx"
  | (clean) cs cs' st where "py_or (dget_or r ''choices'' (PList [])) (PList []) = PList cs"
      "apply_to_choices (snd (get_policy cache (g32_config ctx) (tg_tenant ctx))) (g32_mode (g32_config ctx))
         (g32_config ctx) cs = (cs', [], st)" "res = PDict r" "ctx' = ctx"
  | (denied) cs cs' ds st where "py_or (dget_or r ''choices'' (PList [])) (PList []) = PList cs"
      "apply_to_choices (snd (get_policy cache (g32_config ctx) (tg_tenant ctx))) (g32_mode (g32_config ctx))
         (g32_config ctx) cs = (cs', ds, st)" "ds \<noteq> []"
      "res = PDict (annotate (g32_mode (g32_config ctx)) (te_denied ctx') st (dset ''choices'' (PList cs') r))"
      "te_count ctx' = length ds" "tg_no_cache ctx' = (st \<or> tg_no_cache ctx)"
proof -
  obtain c1 p where gp: "get_policy cache (g32_config ctx) (tg_tenant ctx) = (c1, p)" by fastforce
  have np: "\<not> is_noop p" using assms(4) gp by simp
  have other: thesis if no: "\<not> (\<exists>cs. py_or (dget_or r ''choices'' (PList [])) (PList []) = PList cs)"
  proof -
    have "response_calls r = []"
      using no by (cases "py_or (dget_or r ''choices'' (PList [])) (PList [])") (simp_all add: response_calls_def)
    moreover have "res = PDict r \<and> ctx' = ctx"
      using assms(1-3) no np
      by (cases "py_or (dget_or r ''choices'' (PList [])) (PList [])")
         (simp_all add: g32_process_response_def Let_def gp)
    ultimately show thesis using none by blast
  qed
  show thesis
  proof (cases "py_or (dget_or r ''choices'' (PList [])) (PList [])")
    case (PList cs)
    obtain cs' ds st where a: "apply_to_choices p (g32_mode (g32_config ctx)) (g32_config ctx) cs = (cs', ds, st)"
      by (metis prod_cases3)
    note run = g32_run[OF assms(2,3) gp np PList a]
    show thesis
    proof (cases "ds = []")
      case True
      have "res = PDict r" "ctx' = ctx" using assms(1) True unfolding run by simp_all
      then show thesis by (intro clean[OF PList, of cs' st]) (simp_all add: gp a[unfolded True])
    next
      case False
      obtain c2 rr where rd: "record_denied ctx (g32_mode (g32_config ctx)) ds st = (c2, rr)" by fastforce
      obtain u where u: "rr = Inr u"
        using assms(1) False unfolding run rd by (cases rr) simp_all
      have c: "c2 = ctx'" "res = PDict (annotate (g32_mode (g32_config ctx)) (te_denied ctx') st
          (dset ''choices'' (PList cs') r))"
        using assms(1) False unfolding run rd u by (simp_all, elim conjE, simp)
      have "te_count ctx' = length ds \<and> tg_no_cache ctx' = (st \<or> tg_no_cache ctx)"
        using rd u c(1) by (auto simp: record_denied_def Let_def split: if_splits)
      then show thesis by (intro denied[OF PList, of cs' ds st]) (simp_all add: gp a False c(2))
    qed
  qed (rule other; simp)+
qed

section \<open>What the stream gate relays\<close>

text \<open>The named entries of the chunks so far, in order: whose call, and under which name.\<close>

type_synonym name_log = "((pyval \<times> pyval) \<times> pyval) list"

definition entry_index :: "pydict \<Rightarrow> pyval" where
  "entry_index e = dget_or e ''index'' (PInt 0)"

definition entry_log :: "pyval \<Rightarrow> pyval \<Rightarrow> name_log" where
  "entry_log ci v =
     (case v of
        PDict e \<Rightarrow> if py_truthy (entry_name e) then [((ci, entry_index e), entry_name e)] else []
      | _ \<Rightarrow> [])"

text \<open>The verdicts are those of the first name of every call.\<close>

definition verdicts_ok :: "stream_gate \<Rightarrow> name_log \<Rightarrow> bool" where
  "verdicts_ok g names \<longleftrightarrow>
     (\<forall>idx. dget (sg_verdicts g) idx =
        map_option (\<lambda>n. tv_allowed (evaluate_tool (sg_policy g) n)) (dget names idx))"

lemma verdicts_okD:
  "verdicts_ok g names \<Longrightarrow>
   dget (sg_verdicts g) idx = map_option (\<lambda>n. tv_allowed (evaluate_tool (sg_policy g) n)) (dget names idx)"
  unfolding verdicts_ok_def by blast

definition same_gate :: "stream_gate \<Rightarrow> stream_gate \<Rightarrow> bool" where
  "same_gate g g' \<longleftrightarrow> sg_policy g' = sg_policy g \<and> sg_mode g' = sg_mode g"

lemma same_gate_refl [simp]: "same_gate g g"
  by (simp add: same_gate_def)

lemma same_gate_trans: "same_gate g g1 \<Longrightarrow> same_gate g1 g2 \<Longrightarrow> same_gate g g2"
  by (simp add: same_gate_def)

lemma gate_keep_ok:
  assumes "verdicts_ok g names" and "gate_keep g ci v = (g', Inr keep)"
  shows "verdicts_ok g' (names @ entry_log ci v) \<and> same_gate g g' \<and>
         (keep \<longrightarrow> (\<forall>e. v = PDict e \<longrightarrow> dget (sg_verdicts g') (ci, entry_index e) = Some True))"
proof (cases v)
  case (PDict e)
  let ?idx = "(ci, entry_index e)"
  have h: "hashable ci" "hashable (entry_index e)"
    using assms(2) by (auto simp: gate_keep_def PDict entry_index_def Let_def split: if_splits)
  show ?thesis
  proof (cases "dget (sg_verdicts g) ?idx")
    case (Some a)
    then have r: "g' = g" "keep = a"
      using assms(2) h by (auto simp: gate_keep_def PDict entry_index_def Let_def)
    have "dget names ?idx \<noteq> None" using assms(1) Some by (auto simp: verdicts_ok_def)
    then have "dget (names @ entry_log ci v) idx = dget names idx" for idx
      by (auto simp: entry_log_def PDict map_add_def split: option.splits)
    then have "verdicts_ok g (names @ entry_log ci v)" using assms(1) unfolding verdicts_ok_def by metis
    then show ?thesis using r Some by (simp add: PDict)
  next
    case None
    have nn: "dget names ?idx = None" using assms(1) None by (auto simp: verdicts_ok_def)
    show ?thesis
    proof (cases "py_truthy (entry_name e)")
      case True
      let ?a = "tv_allowed (evaluate_tool (sg_policy g) (entry_name e))"
      have r: "sg_verdicts g' = dset ?idx ?a (sg_verdicts g)" "sg_policy g' = sg_policy g"
        "sg_mode g' = sg_mode g" "keep = ?a"
        using assms(2) h None True
        by (auto simp: gate_keep_def PDict entry_index_def Let_def gate_allowed_def split: if_splits)
      have "dget (sg_verdicts g') idx =
          map_option (\<lambda>n. tv_allowed (evaluate_tool (sg_policy g') n)) (dget (names @ entry_log ci v) idx)" for idx
        using verdicts_okD[OF assms(1), of idx] nn True
        by (cases "idx = ?idx") (auto simp: r dget_dset entry_log_def PDict map_add_def split: option.splits)
      then show ?thesis using r by (auto simp: verdicts_ok_def same_gate_def PDict dget_dset)
    next
      case False
      then obtain hd' where r: "g' = g\<lparr>sg_held := hd'\<rparr>" "keep = False"
        using assms(2) h None by (auto simp: gate_keep_def PDict entry_index_def Let_def)
      then show ?thesis using assms(1) False by (simp add: verdicts_ok_def same_gate_def entry_log_def PDict)
    qed
  qed
qed (use assms in \<open>auto simp: gate_keep_def entry_log_def\<close>)

text \<open>A verdict, once given, stays.\<close>

lemma verdicts_ok_extend:
  "verdicts_ok g names \<Longrightarrow> verdicts_ok g' (names @ later) \<Longrightarrow> same_gate g g' \<Longrightarrow>
   dget (sg_verdicts g) idx = Some a \<Longrightarrow> dget (sg_verdicts g') idx = Some a"
  using verdicts_okD[of g names idx] verdicts_okD[of g' "names @ later" idx]
  by (auto simp: same_gate_def map_add_def)

lemma gate_keep_list_ok:
  "gate_keep_list g ci vs = (g', Inr kept) \<Longrightarrow> verdicts_ok g names \<Longrightarrow>
   verdicts_ok g' (names @ concat (map (entry_log ci) vs)) \<and> same_gate g g' \<and> set kept \<subseteq> set vs \<and>
   (\<forall>e. PDict e \<in> set kept \<longrightarrow> dget (sg_verdicts g') (ci, entry_index e) = Some True)"
proof (induction vs arbitrary: g names kept)
  case Nil
  then show ?case by simp
next
  case (Cons v vs)
  obtain g1 keep where k: "gate_keep g ci v = (g1, Inr keep)"
    using Cons.prems(1) by (auto split: prod.splits sum.splits)
  obtain kept' where r: "gate_keep_list g1 ci vs = (g', Inr kept')" "kept = (if keep then v # kept' else kept')"
    using Cons.prems(1) k by (auto split: prod.splits sum.splits)
  note K = gate_keep_ok[OF Cons.prems(2) k]
  note IH = Cons.IH[OF r(1) conjunct1[OF K]]
  have "dget (sg_verdicts g') (ci, entry_index e) = Some True" if "keep" "v = PDict e" for e
    using verdicts_ok_extend[OF conjunct1[OF K] conjunct1[OF IH]] IH K that by blast
  then show ?case using IH K r(2) same_gate_trans by (auto split: if_splits)
qed

definition choice_log :: "pyval \<Rightarrow> name_log" where
  "choice_log v =
     (case v of
        PDict c \<Rightarrow>
          (case dget_dict c ''delta'' of
             Some d \<Rightarrow> concat (map (entry_log (dget_or c ''index'' (PInt 0))) (message_calls d))
           | None \<Rightarrow> [])
      | _ \<Rightarrow> [])"

text \<open>The call entries of a choice of a chunk, each with the key of its call.\<close>

definition choice_entries :: "pyval \<Rightarrow> (pyval \<times> pyval) list" where
  "choice_entries v =
     (case v of
        PDict c \<Rightarrow>
          (case dget_dict c ''delta'' of
             Some d \<Rightarrow> map (\<lambda>e. (dget_or c ''index'' (PInt 0), entry_index e))
                         (List.map_filter dict_of (message_calls d))
           | None \<Rightarrow> [])
      | _ \<Rightarrow> [])"

lemma dict_of_Some: "dict_of v = Some e \<longleftrightarrow> v = PDict e"
  by (cases v) auto

lemma map_filter_dicts: "e \<in> set (List.map_filter dict_of vs) \<longleftrightarrow> PDict e \<in> set vs"
  by (force simp: List.map_filter_def dict_of_Some)

lemma gate_keep_list_all:
  "gate_keep_list g ci vs = (g', Inr kept) \<Longrightarrow> length kept \<le> length vs \<and> (length kept = length vs \<longrightarrow> kept = vs)"
proof (induction vs arbitrary: g kept)
  case Nil
  then show ?case by simp
next
  case (Cons v vs)
  obtain g1 keep where k: "gate_keep g ci v = (g1, Inr keep)"
    using Cons.prems(1) by (auto split: prod.splits sum.splits)
  obtain kept' where r: "gate_keep_list g1 ci vs = (g', Inr kept')" "kept = (if keep then v # kept' else kept')"
    using Cons.prems(1) k by (auto split: prod.splits sum.splits)
  show ?case using Cons.IH[OF r(1)] r(2) by auto
qed

lemma verdicts_ok_stripped [simp]:
  "verdicts_ok (g\<lparr>sg_stripped := b\<rparr>) names \<longleftrightarrow> verdicts_ok g names"
  by (simp add: verdicts_ok_def)

lemma same_gate_stripped [simp]: "same_gate g (g1\<lparr>sg_stripped := b\<rparr>) \<longleftrightarrow> same_gate g g1"
  by (simp add: same_gate_def)

lemma choice_entries_delta:
  "dget_dict c ''delta'' = Some d \<Longrightarrow>
   x \<in> set (choice_entries (PDict c)) \<longleftrightarrow>
     (\<exists>e. PDict e \<in> set (message_calls d) \<and> x = (dget_or c ''index'' (PInt 0), entry_index e))"
  by (auto simp: choice_entries_def map_filter_dicts simp del: dget_dict.simps)

lemma choice_entries_none:
  "dget_dict c ''delta'' = None \<Longrightarrow> choice_entries (PDict c) = [] \<and> choice_log (PDict c) = []"
  by (simp add: choice_entries_def choice_log_def del: dget_dict.simps)

lemma dget_dict_dset_other: "k' \<noteq> k \<Longrightarrow> dget_dict (dset k v d) k' = dget_dict d k'"
  by (simp add: dget_dset)

lemma filter_choice_ok:
  assumes "verdicts_ok g names" and "sg_mode g = ''block''" and "filter_choice g v = (g', Inr (v', t))"
  shows "verdicts_ok g' (names @ choice_log v) \<and> same_gate g g' \<and>
         (\<forall>x \<in> set (choice_entries v'). dget (sg_verdicts g') x = Some True)"
proof (cases v)
  case (PDict c)
  show ?thesis
  proof (cases "dget_dict c ''delta''")
    case None
    then show ?thesis
      using assms choice_entries_none[OF None] by (simp add: filter_choice_def PDict del: dget_dict.simps)
  next
    case (Some d)
    let ?ci = "dget_or c ''index'' (PInt 0)"
    have lg: "choice_log v = concat (map (entry_log ?ci) (message_calls d))"
      using Some by (simp add: choice_log_def PDict del: dget_dict.simps)
    show ?thesis
    proof (cases "message_calls d = []")
      case True
      have "g' = g \<and> v' = PDict c"
        using assms(3) Some True by (simp add: filter_choice_def PDict del: dget_dict.simps)
      then show ?thesis using assms(1) lg True choice_entries_delta[OF Some] by auto
    next
      case ne: False
      obtain g1 kept where k: "gate_keep_list g ?ci (message_calls d) = (g1, Inr kept)"
        using assms(3) Some ne
        by (cases "gate_keep_list g ?ci (message_calls d)"; cases "snd (gate_keep_list g ?ci (message_calls d))")
           (auto simp: filter_choice_def PDict Let_def simp del: dget_dict.simps)
      note K = gate_keep_list_ok[OF k assms(1)]
      have m1: "sg_mode g1 = ''block''" using K assms(2) by (simp add: same_gate_def)
      show ?thesis
      proof (cases "length kept = length (message_calls d)")
        case True
        then have r: "g' = g1" "v' = PDict c"
          using assms(3) Some ne k by (simp_all add: filter_choice_def PDict del: dget_dict.simps)
        have "kept = message_calls d" using gate_keep_list_all[OF k] True by simp
        then show ?thesis using K r lg choice_entries_delta[OF Some] by auto
      next
        case cut: False
        let ?c1 = "if dget_or c ''finish_reason'' PNone = PStr ''tool_calls''
                   then dset ''finish_reason'' (PStr ''stop'') c else c"
        have r: "g' = g1\<lparr>sg_stripped := True\<rparr>"
          "v' = PDict (if kept \<noteq> [] then dset ''delta'' (PDict (dset ''tool_calls'' (PList kept) d)) c
                       else dset ''delta'' (PDict (dpop ''tool_calls'' d)) ?c1)"
          using assms(3) Some ne k m1 cut by (simp_all add: filter_choice_def PDict del: dget_dict.simps)
        have idx: "dget_or (dset ''delta'' w c) ''index'' (PInt 0) = ?ci" for w
          by (simp add: dget_or_def dget_dset)
        have mc: "message_calls (dset ''tool_calls'' (PList kept) d) = kept"
          "message_calls (dpop ''tool_calls'' d) = []"
          by (simp_all add: message_calls_def dget_dset dget_dpop)
        have dd: "dget_dict (dset ''delta'' (PDict w) u) ''delta'' = Some w" for w u
          by (simp add: dget_dset)
        have "\<forall>x \<in> set (choice_entries v'). dget (sg_verdicts g1) x = Some True"
          unfolding r(2)
          using K choice_entries_delta[OF dd] mc idx by (cases "kept = []") auto
        then show ?thesis using K r(1) lg by simp
      qed
    qed
  qed
qed (use assms in \<open>auto simp: filter_choice_def choice_log_def choice_entries_def\<close>)

lemma filter_choices_ok:
  "filter_choices g vs = (g', Inr (vs', t)) \<Longrightarrow> verdicts_ok g names \<Longrightarrow> sg_mode g = ''block'' \<Longrightarrow>
   verdicts_ok g' (names @ concat (map choice_log vs)) \<and> same_gate g g' \<and>
   (\<forall>x \<in> set (concat (map choice_entries vs')). dget (sg_verdicts g') x = Some True)"
proof (induction vs arbitrary: g names vs' t)
  case Nil
  then show ?case by simp
next
  case (Cons v vs)
  obtain g1 v1 t1 where k: "filter_choice g v = (g1, Inr (v1, t1))"
    using Cons.prems(1) by (auto split: prod.splits sum.splits)
  obtain vs1 t2 where r: "filter_choices g1 vs = (g', Inr (vs1, t2))" "vs' = v1 # vs1"
    using Cons.prems(1) k by (auto split: prod.splits sum.splits)
  note K = filter_choice_ok[OF Cons.prems(2,3) k]
  have m: "sg_mode g1 = ''block''" using K Cons.prems(3) by (simp add: same_gate_def)
  note IH = Cons.IH[OF r(1) conjunct1[OF K] m]
  have "dget (sg_verdicts g') x = Some True" if "x \<in> set (choice_entries v1)" for x
    using verdicts_ok_extend[OF conjunct1[OF K] conjunct1[OF IH]] IH K that by blast
  then show ?case using IH K r(2) same_gate_trans by auto
qed

text \<open>The choices of a chunk that has some, and the runs of the gate over a stream.\<close>

definition chunk_choices :: "pyval \<Rightarrow> pyval list" where
  "chunk_choices chunk =
     (case chunk of PDict c \<Rightarrow> (case dget c ''choices'' of Some (PList cs) \<Rightarrow> cs | _ \<Rightarrow> []) | _ \<Rightarrow> [])"

definition chunk_log :: "pyval \<Rightarrow> name_log" where
  "chunk_log chunk = concat (map choice_log (chunk_choices chunk))"

definition chunk_entries :: "pyval \<Rightarrow> (pyval \<times> pyval) list" where
  "chunk_entries chunk = concat (map choice_entries (chunk_choices chunk))"

lemma filter_chunk_ok:
  assumes "verdicts_ok g names" and "sg_mode g = ''block''" and "filter_chunk g chunk = (g', Inr out)"
  shows "verdicts_ok g' (names @ chunk_log chunk) \<and> same_gate g g' \<and>
         (\<forall>x. out \<noteq> None \<and> x \<in> set (chunk_entries (the out)) \<longrightarrow> dget (sg_verdicts g') x = Some True)"
proof (cases "chunk_choices chunk = []")
  case True
  then have "g' = g \<and> out = Some chunk"
    using assms(3) by (auto simp: filter_chunk_def chunk_choices_def split: pyval.splits option.splits if_splits)
  then show ?thesis using assms(1) True by (simp add: chunk_log_def chunk_entries_def)
next
  case False
  obtain c cs where c: "chunk = PDict c" "dget c ''choices'' = Some (PList cs)" "cs \<noteq> []"
    using False by (auto simp: chunk_choices_def split: pyval.splits option.splits)
  obtain g1 cs' t where f: "filter_choices g cs = (g1, Inr (cs', t))"
    using assms c by (cases "filter_choices g cs"; cases "snd (filter_choices g cs)") (auto simp: filter_chunk_def)
  have o: "g' = g1 \<and> (out = None \<or> out = Some (PDict (dset ''choices'' (PList cs') c)))"
    using assms c f by (auto simp: filter_chunk_def Let_def split: sum.splits if_splits)
  have e: "chunk_entries (PDict (dset ''choices'' (PList cs') c)) = concat (map choice_entries cs')"
    by (simp add: chunk_entries_def chunk_choices_def dget_dset)
  have l: "chunk_log chunk = concat (map choice_log cs)"
    using c(1,2) by (simp add: chunk_log_def chunk_choices_def)
  have x: "x \<in> set (concat (map choice_entries cs'))" if "out \<noteq> None" "x \<in> set (chunk_entries (the out))" for x
    using that o e by auto
  show ?thesis
    unfolding l using filter_choices_ok[OF f assms(1,2)] o x by blast
qed

fun run_stream :: "stream_gate \<Rightarrow> pyval list \<Rightarrow> pyexc + stream_gate \<times> pyval list" where
  "run_stream g [] = Inr (g, [])"
| "run_stream g (chunk # chunks) =
     (case filter_chunk g chunk of
        (g1, Inl e) \<Rightarrow> Inl e
      | (g1, Inr out) \<Rightarrow>
          (case run_stream g1 chunks of
             Inl e \<Rightarrow> Inl e
           | Inr (g2, outs) \<Rightarrow> Inr (g2, (case out of Some x \<Rightarrow> x # outs | None \<Rightarrow> outs))))"

lemma run_stream_ok:
  "run_stream g chunks = Inr (g', outs) \<Longrightarrow> verdicts_ok g names \<Longrightarrow> sg_mode g = ''block'' \<Longrightarrow>
   verdicts_ok g' (names @ concat (map chunk_log chunks)) \<and> same_gate g g' \<and>
   (\<forall>x \<in> set (concat (map chunk_entries outs)). dget (sg_verdicts g') x = Some True)"
proof (induction chunks arbitrary: g names outs)
  case Nil
  then show ?case by simp
next
  case (Cons chunk chunks)
  obtain g1 out where k: "filter_chunk g chunk = (g1, Inr out)"
    using Cons.prems(1) by (auto split: prod.splits sum.splits)
  obtain outs1 where r: "run_stream g1 chunks = Inr (g', outs1)"
    "outs = (case out of Some x \<Rightarrow> x # outs1 | None \<Rightarrow> outs1)"
    using Cons.prems(1) k by (auto split: prod.splits sum.splits)
  note K = filter_chunk_ok[OF Cons.prems(2,3) k]
  have m: "sg_mode g1 = ''block''" using K Cons.prems(3) by (simp add: same_gate_def)
  note IH = Cons.IH[OF r(1) conjunct1[OF K] m]
  have "dget (sg_verdicts g') x = Some True" if "out \<noteq> None" "x \<in> set (chunk_entries (the out))" for x
    using verdicts_ok_extend[OF conjunct1[OF K] conjunct1[OF IH]] IH K that by blast
  then show ?case using IH K r(2) same_gate_trans by (auto split: option.splits)
qed

text \<open>
  An entry that names no call counts as call 0 of its choice, so behind a permitted call without an index any other
  one without an index is relayed, whatever its name.
\<close>

lemma missing_index_inherits_verdict:
  assumes "gate_keep g ci (PDict e1) = (g1, Inr True)"
    and "dget e1 ''index'' = None" and "dget e2 ''index'' = None"
    and "dget (sg_verdicts g) (ci, PInt 0) = None"
  shows "gate_keep g1 ci (PDict e2) = (g1, Inr True)"
  using assms by (auto simp: gate_keep_def dget_or_def Let_def dget_dset split: if_splits prod.splits)

section \<open>Properties\<close>

text \<open>
  C17. In block mode no ineligible tool call is left: the calls of the returned response are exactly the
  eligible ones of the provider's response, in order, and no other part of the response than its choices and
  the annotation changes.
\<close>

theorem block_mode_strips_exactly_the_denied:
  assumes "g32_process_response cache ctx (PDict r) = (cache', ctx', Inr res)"
    and "g32_enabled (g32_config ctx)" and "g32_mode (g32_config ctx) = ''block''"
    and "p = snd (get_policy cache (g32_config ctx) (tg_tenant ctx))" and "\<not> is_noop p"
  shows "\<exists>r'. res = PDict r' \<and> response_calls r' = filter (call_allowed p) (response_calls r) \<and>
           (\<forall>k. k \<noteq> ''choices'' \<and> k \<noteq> ''_token_opt'' \<longrightarrow> dget r' k = dget r k) \<and>
           (response_calls r' \<noteq> response_calls r \<longrightarrow> tg_no_cache ctx')"
proof -
  have "g32_mode (g32_config ctx) \<noteq> ''off''" using assms(3) by simp
  from assms(1,2) this assms(5)[unfolded assms(4)] show ?thesis
  proof (cases rule: g32_cases)
    case none
    then show ?thesis by auto
  next
    case (clean cs cs' st)
    have rc: "response_calls r = concat (map choice_calls cs)" using clean(1) by (simp add: response_calls_def)
    have "filter (\<lambda>c. \<not> call_allowed p c) (response_calls r) = []"
      using apply_to_choices_block[of p "g32_config ctx" cs cs' "[]" st] clean(2) assms(3,4) rc by simp
    then have "filter (call_allowed p) (response_calls r) = response_calls r"
      by (metis (mono_tags, lifting) empty_filter_conv filter_True)
    then show ?thesis using clean(3) by auto
  next
    case (denied cs cs' ds st)
    have rc: "response_calls r = concat (map choice_calls cs)" using denied(1) by (simp add: response_calls_def)
    let ?r' = "annotate (g32_mode (g32_config ctx)) (te_denied ctx') st (dset ''choices'' (PList cs') r)"
    have "response_calls ?r' = response_calls (dset ''choices'' (PList cs') r)"
      by (rule response_calls_choices) (simp add: annotate_other)
    then have "response_calls ?r' = filter (call_allowed p) (response_calls r) \<and> st"
      using apply_to_choices_block[of p "g32_config ctx" cs cs' ds st] denied(2,3) assms(3,4) rc
      by (simp add: response_calls_dset)
    then show ?thesis using denied(4,6) by (auto simp: annotate_other dget_dset)
  qed
qed

definition sample_tool_ctx :: "string \<Rightarrow> tool_ctx" where
  "sample_tool_ctx mode =
     \<lparr>tg_config = PDict [(''groups'', PDict [(''G32_tool_eligibility'', PDict [(''mode'', PStr mode),
        (''policy'', PDict [(''deny'', PList [PStr ''rm'']), (''allow'', PList [PStr ''ls''])])])])],
      tg_tenant = ''acme'', te_action = None, te_denied = [], te_count = 0, tg_no_cache = False,
      ccr_tools_injected = True, dispatch_blocked = []\<rparr>"

definition sample_policy :: tool_policy where
  "sample_policy = \<lparr>tp_allow = [''ls''], tp_deny = [''rm''], tp_default = ''allow''\<rparr>"

definition tool_call :: "string \<Rightarrow> pyval" where
  "tool_call name = PDict [(''function'', PDict [(''name'', PStr name)])]"

definition sample_response :: pydict where
  "sample_response = [(''choices'', PList [PDict [(''message'',
     PDict [(''tool_calls'', PList [tool_call ''rm'', tool_call ''ls''])])]])]"

lemma sample_g32:
  "g32_config (sample_tool_ctx m) = [(''mode'', PStr m), (''policy'', PDict [(''deny'', PList [PStr ''rm'']), (''allow'', PList [PStr ''ls''])])]"
  "g32_enabled (g32_config (sample_tool_ctx m))"
  "snd (get_policy [] (g32_config (sample_tool_ctx m)) ''acme'') = sample_policy"
  by (simp_all add: g32_config_def sample_tool_ctx_def resolve_group_config_def g32_enabled_def dget_or_def
      get_policy_def Let_def py_or_def normalize_policy_def policy_default_def coerce_patterns_def
      validate_pattern_def classes_closed.simps(2) py_lower_def py_strip_def strip_with_def lower_char_def
      is_space_def sample_policy_def policy_cache_max_def)

lemma sample_allowed:
  "\<not> call_allowed sample_policy (tool_call ''rm'')" "call_allowed sample_policy (tool_call ''ls'')"
  using match_plain[of "''rm''"] match_plain[of "''ls''"]
  by (auto simp: call_allowed_def evaluate_tool_allowed sample_policy_def call_name_def tool_call_def dget_or_def
      py_or_def plain_char_def)

lemma sample_block_mode: "g32_mode (g32_config (sample_tool_ctx ''block'')) = ''block''"
  by (simp add: sample_g32(1) g32_mode_def valid_modes_def dget_or_def py_lower_def py_strip_def strip_with_def
      lower_char_def is_space_def)

lemma sample_policy_not_noop: "\<not> is_noop sample_policy"
  by (simp add: is_noop_def sample_policy_def)

lemma sample_get_policy:
  obtains c where "get_policy [] (g32_config (sample_tool_ctx m)) (tg_tenant (sample_tool_ctx m)) = (c, sample_policy)"
proof -
  have "tg_tenant (sample_tool_ctx m) = ''acme''" by (simp add: sample_tool_ctx_def)
  then show thesis using that sample_g32(3)[of m] by (metis prod.collapse)
qed

lemma sample_block_run:
  "\<exists>c x r'. g32_process_response [] (sample_tool_ctx ''block'') (PDict sample_response) = (c, x, Inr r')"
proof -
  obtain c1 where gp: "get_policy [] (g32_config (sample_tool_ctx ''block'')) (tg_tenant (sample_tool_ctx ''block''))
      = (c1, sample_policy)" by (rule sample_get_policy)
  have ch: "py_or (dget_or sample_response ''choices'' (PList [])) (PList []) =
      PList [PDict [(''message'', PDict [(''tool_calls'', PList [tool_call ''rm'', tool_call ''ls''])])]]"
    by (simp add: sample_response_def dget_or_def py_or_def)
  have cn: "denied_name (call_name (tool_call ''rm'')) = PStr ''rm''"
    by (simp add: call_name_def tool_call_def dget_or_def py_or_def denied_name_def)
  obtain cs' where ap: "apply_to_choices sample_policy (g32_mode (g32_config (sample_tool_ctx ''block'')))
      (g32_config (sample_tool_ctx ''block''))
      [PDict [(''message'', PDict [(''tool_calls'', PList [tool_call ''rm'', tool_call ''ls''])])]] =
      (cs', [PStr ''rm''], True)"
    by (simp add: apply_to_choice_def message_calls_def sample_allowed cn sample_block_mode)
  have "g32_mode (g32_config (sample_tool_ctx ''block'')) \<noteq> ''off''" by (simp add: sample_block_mode)
  from g32_run[OF sample_g32(2) this gp sample_policy_not_noop ch ap] show ?thesis
    by (simp add: record_denied_def hashable_def)
qed

lemma block_mode_strips_exactly_the_denied_witness:
  "\<exists>c x r'. g32_process_response [] (sample_tool_ctx ''block'') (PDict sample_response) = (c, x, Inr (PDict r')) \<and>
     response_calls r' = [tool_call ''ls''] \<and> tg_no_cache x"
proof -
  obtain c x res where run: "g32_process_response [] (sample_tool_ctx ''block'') (PDict sample_response) = (c, x, Inr res)"
    using sample_block_run by blast
  have rc: "response_calls sample_response = [tool_call ''rm'', tool_call ''ls'']"
    by (simp add: response_calls_def sample_response_def dget_or_def py_or_def choice_calls_def message_calls_def)
  obtain c1 where "get_policy [] (g32_config (sample_tool_ctx ''block'')) (tg_tenant (sample_tool_ctx ''block''))
      = (c1, sample_policy)" by (rule sample_get_policy)
  then have pol: "sample_policy =
      snd (get_policy [] (g32_config (sample_tool_ctx ''block'')) (tg_tenant (sample_tool_ctx ''block'')))" by simp
  obtain r' where r: "res = PDict r'" "response_calls r' = filter (call_allowed sample_policy) (response_calls sample_response)"
    "response_calls r' \<noteq> response_calls sample_response \<longrightarrow> tg_no_cache x"
    using block_mode_strips_exactly_the_denied[OF run sample_g32(2) sample_block_mode pol sample_policy_not_noop] by blast
  have "response_calls r' = [tool_call ''ls'']" using r(2) by (simp add: rc sample_allowed)
  then show ?thesis using run r(1,3) rc by (intro exI[of _ c] exI[of _ x] exI[of _ r']) simp
qed

text \<open>
  Flag mode records and changes nothing else: every part of the response but the annotation is as it came,
  the answer stays cacheable, and the count is the number of ineligible calls.
\<close>

lemma flag_mode_only_annotates:
  assumes "g32_process_response cache ctx (PDict r) = (cache', ctx', Inr res)"
    and "g32_enabled (g32_config ctx)" and "g32_mode (g32_config ctx) = ''flag''"
    and "p = snd (get_policy cache (g32_config ctx) (tg_tenant ctx))" and "\<not> is_noop p"
  shows "\<exists>r'. res = PDict r' \<and> (\<forall>k. k \<noteq> ''_token_opt'' \<longrightarrow> dget r' k = dget r k) \<and>
           tg_no_cache ctx' = tg_no_cache ctx \<and>
           (let n = length (filter (\<lambda>c. \<not> call_allowed p c) (response_calls r))
            in if n = 0 then r' = r \<and> ctx' = ctx else te_count ctx' = n)"
proof -
  have "g32_mode (g32_config ctx) \<noteq> ''off''" using assms(3) by simp
  from assms(1,2) this assms(5)[unfolded assms(4)] show ?thesis
  proof (cases rule: g32_cases)
    case none
    then show ?thesis by auto
  next
    case (clean cs cs' st)
    have rc: "response_calls r = concat (map choice_calls cs)" using clean(1) by (simp add: response_calls_def)
    show ?thesis
      using apply_to_choices_flag[OF clean(2)] assms(3,4) rc clean(3,4) by (auto simp: Let_def)
  next
    case (denied cs cs' ds st)
    have rc: "response_calls r = concat (map choice_calls cs)" using denied(1) by (simp add: response_calls_def)
    have F: "cs' = cs" "\<not> st" "length ds = length (filter (\<lambda>c. \<not> call_allowed p c) (response_calls r))"
      using apply_to_choices_flag[OF denied(2)] assms(3,4) rc by auto
    have "cs \<noteq> []" using denied(2,3) by auto
    then have "dget r ''choices'' = Some (PList cs)"
      using denied(1) by (auto simp: dget_or_def py_or_def split: option.splits if_splits)
    then show ?thesis
      using denied(3-6) F by (auto simp: annotate_other dget_dset Let_def)
  qed
qed

lemma flag_mode_only_annotates_witness:
  "\<exists>c x r'. g32_process_response [] (sample_tool_ctx ''flag'') (PDict [(''choices'', PList [])]) = (c, x, Inr (PDict r')) \<and>
     r' = [(''choices'', PList [])] \<and> x = sample_tool_ctx ''flag''"
proof -
  obtain c1 where gp: "get_policy [] (g32_config (sample_tool_ctx ''flag'')) (tg_tenant (sample_tool_ctx ''flag''))
      = (c1, sample_policy)" by (rule sample_get_policy)
  have m: "g32_mode (g32_config (sample_tool_ctx ''flag'')) = ''flag''"
    by (simp add: sample_g32(1) g32_mode_def valid_modes_def dget_or_def py_lower_def py_strip_def strip_with_def
        lower_char_def is_space_def)
  have mo: "g32_mode (g32_config (sample_tool_ctx ''flag'')) \<noteq> ''off''" using m by simp
  have e: "py_or (dget_or [(''choices'', PList [])] ''choices'' (PList [])) (PList []) = PList []"
    by (simp add: dget_or_def py_or_def)
  have ap: "apply_to_choices sample_policy (g32_mode (g32_config (sample_tool_ctx ''flag'')))
      (g32_config (sample_tool_ctx ''flag'')) [] = ([], [], False)" by simp
  have run: "g32_process_response [] (sample_tool_ctx ''flag'') (PDict [(''choices'', PList [])]) =
      (c1, sample_tool_ctx ''flag'', Inr (PDict [(''choices'', PList [])]))"
    using g32_run[OF sample_g32(2) mo gp sample_policy_not_noop e ap] by simp
  have "response_calls [(''choices'', PList [])] = []" by (simp add: response_calls_def e)
  then show ?thesis
    using flag_mode_only_annotates[OF run sample_g32(2) m refl] gp sample_policy_not_noop run
    by (simp add: Let_def)
qed

text \<open>
  The policy cache is transparent and private: a tenant whose configured policy is valid is served that
  policy, never an earlier one or another tenant's; one whose policy is malformed keeps its own last good one. The
  cache stays consistent and below its bound, and other tenants' entries are kept or dropped, never changed.
\<close>

lemma policy_cache_transparent:
  assumes "cache_ok cache" and "length cache \<le> policy_cache_max"
    and "wf_val (py_or (dget_or cfg ''policy'' PNone) (PDict []))"
  shows "snd (get_policy cache cfg t) =
           (case normalize_policy (py_or (dget_or cfg ''policy'' PNone) (PDict [])) of
              Inr p \<Rightarrow> p
            | Inl _ \<Rightarrow> (case dget cache t of Some (_, p) \<Rightarrow> p | None \<Rightarrow> noop_policy)) \<and>
         cache_ok (fst (get_policy cache cfg t)) \<and> length (fst (get_policy cache cfg t)) \<le> policy_cache_max \<and>
         (t' \<noteq> t \<longrightarrow> dget (fst (get_policy cache cfg t)) t' \<in> {dget cache t', None})"
  using get_policy_served[OF assms(1,3)] get_policy_cache[OF assms(1,3)] assms(2) by blast

lemma policy_cache_transparent_witness:
  "snd (get_policy [(''acme'', (PDict [], noop_policy))] [(''policy'', PDict [(''deny'', PInt 3)])] ''acme'') = noop_policy"
proof -
  have w: "policy_default [] = Inr ''allow''"
    by (simp add: policy_default_def dget_or_def py_lower_def py_strip_def strip_with_def lower_char_def is_space_def)
  have n0: "normalize_policy (PDict []) = Inr noop_policy"
    by (simp add: normalize_policy_def py_or_def w coerce_patterns_def noop_policy_def) (simp add: dget_or_def)
  have w3: "policy_default [(''deny'', PInt 3)] = Inr ''allow''"
    by (simp add: policy_default_def dget_or_def py_lower_def py_strip_def strip_with_def lower_char_def is_space_def)
  have n1: "normalize_policy (PDict [(''deny'', PInt 3)]) = Inl Tool_Policy_Error"
    by (simp add: normalize_policy_def py_or_def w3 dget_or_def coerce_patterns_def)
  have raw: "py_or (dget_or [(''policy'', PDict [(''deny'', PInt 3)])] ''policy'' PNone) (PDict []) = PDict [(''deny'', PInt 3)]"
    by (simp add: dget_or_def py_or_def)
  have "cache_ok [(''acme'', (PDict [], noop_policy))]" by (simp add: cache_ok_def n0)
  from policy_cache_transparent[OF this, of "[(''policy'', PDict [(''deny'', PInt 3)])]" "''acme''" "''other''"]
  show ?thesis by (simp add: raw n1 policy_cache_max_def)
qed

text \<open>
  The proxy never executes a tool it did not advertise nor, in flag or block mode, one the tenant's policy
  denies; a policy it cannot read refuses everything.
\<close>

lemma dispatch_fails_closed:
  assumes "authorize_dispatch ctx name = None"
  shows "ccr_tools_injected ctx \<and>
         (g32_enabled (g32_config ctx) \<and> g32_mode (g32_config ctx) \<noteq> ''off'' \<longrightarrow>
            (\<exists>p. normalize_policy (py_or (dget_or (g32_config ctx) ''policy'' PNone) (PDict [])) = Inr p \<and>
                 (is_noop p \<or> (\<exists>n. name = PStr n \<and> n \<noteq> [] \<and> (\<forall>d \<in> set (tp_deny p). \<not> fnmatchcase n d)))))"
  using assms
  by (auto simp: authorize_dispatch_def Let_def evaluate_tool_allowed split: if_splits sum.splits)

lemma dispatch_fails_closed_witness:
  "authorize_dispatch (sample_tool_ctx ''off'') (PStr ''rm'') = None \<and> ccr_tools_injected (sample_tool_ctx ''off'')"
proof -
  have a: "authorize_dispatch (sample_tool_ctx ''off'') (PStr ''rm'') = None"
    by (simp add: authorize_dispatch_def sample_g32(2) Let_def)
       (simp add: sample_tool_ctx_def sample_g32(1)[unfolded sample_tool_ctx_def] g32_mode_def valid_modes_def
         dget_or_def py_lower_def py_strip_def strip_with_def lower_char_def is_space_def)
  show ?thesis using dispatch_fails_closed[OF a] a by blast
qed

text \<open>
  C18. A streamed tool call reaches the client only under a permitted name: for every call entry that a gate in block
  mode relays, the first name that came for that call (its choice and index) is one the policy allows; an
  entry whose call has had no name is held back.
\<close>

theorem stream_relays_only_permitted_calls:
  assumes "run_stream \<lparr>sg_mode = ''block'', sg_policy = p, sg_verdicts = [], sg_held = [], sg_denied = [],
             sg_stripped = False\<rparr> chunks = Inr (g', outs)"
    and "out \<in> set outs" and "idx \<in> set (chunk_entries out)"
  shows "\<exists>name. dget (concat (map chunk_log chunks)) idx = Some name \<and> tv_allowed (evaluate_tool p name)"
proof -
  let ?g = "\<lparr>sg_mode = ''block'', sg_policy = p, sg_verdicts = [], sg_held = [], sg_denied = [], sg_stripped = False\<rparr>"
  have "verdicts_ok ?g []" by (simp add: verdicts_ok_def)
  from run_stream_ok[OF assms(1) this]
  have ok: "verdicts_ok g' (concat (map chunk_log chunks))" "sg_policy g' = p"
    and "dget (sg_verdicts g') idx = Some True"
    using assms(2,3) by (auto simp: same_gate_def)
  then show ?thesis using verdicts_okD[OF ok(1), of idx] by auto
qed

definition delta_chunk :: "pyval list \<Rightarrow> pyval" where
  "delta_chunk calls = PDict [(''choices'', PList [PDict [(''index'', PInt 0),
     (''delta'', PDict [(''tool_calls'', PList calls)])]])]"

definition delta_call :: "int \<Rightarrow> string \<Rightarrow> pyval" where
  "delta_call i name = PDict [(''index'', PInt i), (''function'', PDict [(''name'', PStr name)])]"

lemma stream_relays_only_permitted_calls_witness:
  "\<exists>g' outs. run_stream \<lparr>sg_mode = ''block'', sg_policy = sample_policy, sg_verdicts = [], sg_held = [], sg_denied = [],
       sg_stripped = False\<rparr> [delta_chunk [delta_call 0 ''ls'']] = Inr (g', outs) \<and>
     (\<exists>name. dget (concat (map chunk_log [delta_chunk [delta_call 0 ''ls'']])) (PInt 0, PInt 0) = Some name \<and>
             tv_allowed (evaluate_tool sample_policy name))"
proof -
  have a: "tv_allowed (evaluate_tool sample_policy (PStr ''ls''))"
    using sample_allowed(2) by (simp add: call_allowed_def call_name_def tool_call_def dget_or_def py_or_def)
  obtain g' where run: "run_stream \<lparr>sg_mode = ''block'', sg_policy = sample_policy, sg_verdicts = [], sg_held = [],
      sg_denied = [], sg_stripped = False\<rparr> [delta_chunk [delta_call 0 ''ls'']] =
      Inr (g', [delta_chunk [delta_call 0 ''ls'']])"
    using a by (simp add: delta_chunk_def delta_call_def filter_chunk_def filter_choice_def message_calls_def
        gate_keep_def gate_allowed_def entry_name_def hashable_def dget_or_def Let_def)
  have e: "(PInt 0, PInt 0) \<in> set (chunk_entries (delta_chunk [delta_call 0 ''ls'']))"
    by (simp add: chunk_entries_def chunk_choices_def delta_chunk_def delta_call_def choice_entries_def
        message_calls_def entry_index_def dget_or_def List.map_filter_def)
  show ?thesis
    using stream_relays_only_permitted_calls[OF run _ e] run by auto
qed

end
