(* ===== verification/Savings.thy ===== *)
theory Savings
  imports Py_Prelude
begin

text \<open>
  \<open>savings/calculator.py\<close> and \<open>savings/models.py\<close>: the token estimate of a request, the price
  lookup, the cost of a call with the provider's cache discount, and the savings record with the
  percentages it reports. Money and rates are exact rationals. The tokenizer library is a parameter:
  \<open>enc\<close> is the encoder the settings select, if any, and the length of the text in characters is used
  otherwise. The lemmas show which price row applies, that the cache spans partition the input, that the
  cost with no cache activity is the plain cost, how far the two reported cache halves can exceed the
  total, and that every reported percentage is between 0 and 100.
\<close>

section \<open>Token estimates\<close>

definition chars_per_token :: int where "chars_per_token = 4"
definition per_message_overhead :: int where "per_message_overhead = 4"

text \<open>\<open>len(x)\<close>.\<close>

definition py_len :: "pyval \<Rightarrow> pyexc + int" where
  "py_len v =
     (case v of
        PStr s \<Rightarrow> Inr (int (length s))
      | PList xs \<Rightarrow> Inr (int (length xs))
      | PDict d \<Rightarrow> Inr (int (length d))
      | _ \<Rightarrow> Inl TypeError)"

definition estimate_tokens :: "(string \<Rightarrow> nat) option \<Rightarrow> pyval \<Rightarrow> pyexc + int" where
  "estimate_tokens enc text_v =
     (if \<not> py_truthy text_v then Inr 0
      else (case enc of
              Some e \<Rightarrow> (case text_v of PStr s \<Rightarrow> Inr (int (e s)) | _ \<Rightarrow> Inl TypeError)
            | None \<Rightarrow> bind_res (py_len text_v)
                       (\<lambda>n. Inr (max 1 ((n + chars_per_token - 1) div chars_per_token)))))"

text \<open>The sum of the estimates of a list of values.\<close>

fun estimate_all :: "(string \<Rightarrow> nat) option \<Rightarrow> pyval list \<Rightarrow> pyexc + int" where
  "estimate_all enc [] = Inr 0"
| "estimate_all enc (v # vs) =
     bind_res (estimate_tokens enc v) (\<lambda>n. bind_res (estimate_all enc vs) (\<lambda>m. Inr (n + m)))"

definition text_part :: "pyval \<Rightarrow> pyval list" where
  "text_part part =
     (case part of
        PDict p \<Rightarrow> if dget_or p ''type'' PNone = PStr ''text'' then [dget_or p ''text'' (PStr [])] else []
      | _ \<Rightarrow> [])"

definition call_texts :: "pyval \<Rightarrow> pyval list" where
  "call_texts tc =
     (case tc of
        PDict c \<Rightarrow>
          dget_or c ''id'' (PStr []) #
          (case dget_or c ''function'' (PDict []) of
             PDict fn \<Rightarrow> [dget_or fn ''name'' (PStr []), dget_or fn ''arguments'' (PStr [])]
           | _ \<Rightarrow> [])
      | _ \<Rightarrow> [])"

text \<open>One message: its texts, its tool calls, its role and the fixed overhead.\<close>

definition message_tokens :: "(string \<Rightarrow> nat) option \<Rightarrow> pyval \<Rightarrow> pyexc + int" where
  "message_tokens enc msg =
     (case msg of
        PDict m \<Rightarrow>
          bind_res (case dget_or m ''content'' (PStr []) of
                      PStr s \<Rightarrow> estimate_tokens enc (PStr s)
                    | PList parts \<Rightarrow> estimate_all enc (concat (map text_part parts))
                    | _ \<Rightarrow> Inr 0) (\<lambda>a.
          bind_res (py_iter (dget_or m ''tool_calls'' (PList []))) (\<lambda>tcs.
          bind_res (estimate_all enc (concat (map call_texts tcs))) (\<lambda>b.
          bind_res (estimate_tokens enc (dget_or m ''role'' (PStr []))) (\<lambda>c.
            Inr (a + b + c + per_message_overhead)))))
      | _ \<Rightarrow> Inl AttributeError)"

fun count_messages_tokens :: "(string \<Rightarrow> nat) option \<Rightarrow> pyval list \<Rightarrow> pyexc + int" where
  "count_messages_tokens enc [] = Inr 0"
| "count_messages_tokens enc (m # ms) =
     bind_res (message_tokens enc m) (\<lambda>n. bind_res (count_messages_tokens enc ms) (\<lambda>k. Inr (n + k)))"

text \<open>A request: its messages, and its tools when it has any, as \<open>count_tools_tokens\<close> renders them.\<close>

definition count_request_tokens ::
  "(string \<Rightarrow> nat) option \<Rightarrow> (pyval \<Rightarrow> pyexc + int) \<Rightarrow> pyval list \<Rightarrow> pyval \<Rightarrow> pyexc + int" where
  "count_request_tokens enc count_tools_tokens messages tools =
     bind_res (count_messages_tokens enc messages) (\<lambda>total.
       if py_truthy tools then map_sum id (\<lambda>n. total + n) (count_tools_tokens tools) else Inr total)"

text \<open>A tool-call field that is there and null has no items to count.\<close>

lemma null_tool_calls_uncountable:
  assumes "PDict m \<in> set ms" and "dget m ''tool_calls'' = Some PNone"
  shows "\<exists>e. count_messages_tokens enc ms = Inl e"
  using assms
proof (induction ms)
  case (Cons x ms)
  show ?case
  proof (cases "x = PDict m")
    case True
    then have "\<exists>e. message_tokens enc x = Inl e"
      using Cons.prems(2) by (simp add: message_tokens_def dget_or_def py_iter_def bind_res_def split: sum.split)
    then show ?thesis by (auto simp: bind_res_def)
  next
    case False
    then have "\<exists>e. count_messages_tokens enc ms = Inl e" using Cons by auto
    then show ?thesis by (auto simp: bind_res_def split: sum.split)
  qed
qed simp

section \<open>Prices\<close>

type_synonym price_row = "(string \<times> rat) list"
type_synonym pricing = "(string \<times> price_row) list"

definition row_costs :: "price_row \<Rightarrow> rat \<times> rat" where
  "row_costs row =
     ((case dget row ''input'' of Some x \<Rightarrow> x | None \<Rightarrow> 5 / 1000),
      (case dget row ''output'' of Some x \<Rightarrow> x | None \<Rightarrow> 15 / 1000))"

text \<open>The loop over the table: the best key so far and its row.\<close>

fun best_row :: "string \<Rightarrow> (string \<times> price_row) option \<Rightarrow> pricing \<Rightarrow> (string \<times> price_row) option" where
  "best_row model_lower best [] = best"
| "best_row model_lower best ((key, costs) # rows) =
     best_row model_lower
       (if key \<noteq> ''default'' \<and> py_in (py_lower key) model_lower \<and>
           (case best of None \<Rightarrow> True | Some (k, _) \<Rightarrow> length key > length k)
        then Some (key, costs) else best) rows"

definition get_cost_per_1k :: "pricing \<Rightarrow> string \<Rightarrow> rat \<times> rat" where
  "get_cost_per_1k pricing model =
     (case best_row (py_lower model) None pricing of
        Some (_, costs) \<Rightarrow> row_costs costs
      | None \<Rightarrow> row_costs (case dget pricing ''default'' of Some row \<Rightarrow> row | None \<Rightarrow> []))"

section \<open>Costs\<close>

definition estimate_cost :: "pricing \<Rightarrow> int \<Rightarrow> int \<Rightarrow> string \<Rightarrow> rat" where
  "estimate_cost pricing input_tokens output_tokens model =
     (case get_cost_per_1k pricing model of
        (inp, outp) \<Rightarrow> py_round 8 (of_int input_tokens / 1000 * inp + of_int output_tokens / 1000 * outp))"

text \<open>The plain, cache-read, five-minute-write and one-hour-write spans.\<close>

definition partition_input_tokens :: "int \<Rightarrow> int \<Rightarrow> int \<Rightarrow> int \<Rightarrow> int \<times> int \<times> int \<times> int" where
  "partition_input_tokens input_tokens cached_tokens cache_write_tokens cache_write_1h_tokens =
     (let cached = max 0 (min cached_tokens input_tokens);
          written = max 0 (min cache_write_tokens (input_tokens - cached));
          written_1h = max 0 (min cache_write_1h_tokens written)
      in (input_tokens - cached - written, cached, written - written_1h, written_1h))"

record cache_use =
  cu_read :: int
  cu_write :: int
  cu_write_1h :: int
  cu_read_mult :: rat
  cu_write_mult :: rat
  cu_write_1h_mult :: rat

definition no_cache_use :: cache_use where
  "no_cache_use = \<lparr>cu_read = 0, cu_write = 0, cu_write_1h = 0, cu_read_mult = 1, cu_write_mult = 1,
                   cu_write_1h_mult = 1\<rparr>"

definition cache_cost_split :: "pricing \<Rightarrow> string \<Rightarrow> int \<Rightarrow> cache_use \<Rightarrow> rat \<Rightarrow> rat \<times> rat" where
  "cache_cost_split pricing model input_tokens u batch_discount =
     (let inp = fst (get_cost_per_1k pricing model) in
      case partition_input_tokens input_tokens (cu_read u) (cu_write u) (cu_write_1h u) of
        (_, cached, w5, w1) \<Rightarrow>
          (py_round 8 (of_int cached / 1000 * inp * cu_read_mult u * batch_discount),
           py_round 8 ((of_int w5 / 1000 * inp * cu_write_mult u +
                        of_int w1 / 1000 * inp * cu_write_1h_mult u) * batch_discount)))"

definition estimate_cost_with_cache ::
  "pricing \<Rightarrow> string \<Rightarrow> int \<Rightarrow> int \<Rightarrow> cache_use \<Rightarrow> rat \<Rightarrow> int \<Rightarrow> rat \<Rightarrow> rat" where
  "estimate_cost_with_cache pricing model input_tokens output_tokens u batch_discount
      reasoning_tokens reasoning_mult =
     (case get_cost_per_1k pricing model of
        (inp, outp) \<Rightarrow>
          (case partition_input_tokens input_tokens (cu_read u) (cu_write u) (cu_write_1h u) of
             (plain, cached, w5, w1) \<Rightarrow>
               (let base = of_int plain / 1000 * inp + of_int cached / 1000 * inp * cu_read_mult u +
                           of_int w5 / 1000 * inp * cu_write_mult u +
                           of_int w1 / 1000 * inp * cu_write_1h_mult u + of_int output_tokens / 1000 * outp;
                    reasoning = max 0 (min reasoning_tokens output_tokens);
                    base = base + of_int reasoning / 1000 * outp * (reasoning_mult - 1)
                in py_round 8 (base * batch_discount))))"

definition effective_token_cost :: "int \<Rightarrow> int \<Rightarrow> int \<Rightarrow> rat \<Rightarrow> rat" where
  "effective_token_cost input_tokens cache_read_tokens output_tokens model_mult =
     model_mult * (of_int input_tokens + of_int cache_read_tokens / 10 + 4 * of_int output_tokens)"

section \<open>The savings record\<close>

record step_saving =
  ss_group :: string
  ss_description :: string
  ss_before :: int
  ss_after :: int

definition absolute_saving :: "step_saving \<Rightarrow> int" where
  "absolute_saving s = max 0 (ss_before s - ss_after s)"

record savings_record =
  sr_baseline :: int
  sr_steps :: "step_saving list"
  sr_final_sent :: int
  sr_proxy_optimised :: int
  sr_provider_prompt :: "int option"
  sr_cost_baseline :: rat
  sr_cost_actual :: rat
  sr_cache_read :: "int option"
  sr_cache_write :: "int option"
  sr_cost_cache_read :: "rat option"
  sr_cost_cache_write :: "rat option"
  sr_call_count :: int
  sr_call_prompt_tokens :: int

definition add_step :: "savings_record \<Rightarrow> string \<Rightarrow> string \<Rightarrow> int \<Rightarrow> int \<Rightarrow> savings_record" where
  "add_step r grp description tokens_before tokens_after =
     r\<lparr>sr_steps := sr_steps r @
        [\<lparr>ss_group = grp, ss_description = description, ss_before = tokens_before, ss_after = tokens_after\<rparr>]\<rparr>"

definition total_absolute_saving :: "savings_record \<Rightarrow> int" where
  "total_absolute_saving r = max 0 (sr_baseline r - sr_final_sent r)"

definition total_pct_saving :: "savings_record \<Rightarrow> rat" where
  "total_pct_saving r =
     (if sr_baseline r = 0 then 0
      else py_round 2 (of_int (total_absolute_saving r) / of_int (sr_baseline r) * 100))"

definition proxy_tokens_saved :: "savings_record \<Rightarrow> int" where
  "proxy_tokens_saved r = max 0 (sr_baseline r - sr_proxy_optimised r)"

definition proxy_pct_saving :: "savings_record \<Rightarrow> rat" where
  "proxy_pct_saving r =
     (if sr_baseline r = 0 then 0
      else py_round 2 (of_int (proxy_tokens_saved r) / of_int (sr_baseline r) * 100))"

definition cost_saving_usd :: "savings_record \<Rightarrow> rat" where
  "cost_saving_usd r = py_round 6 (sr_cost_baseline r - sr_cost_actual r)"

definition cache_share_of_bill_pct :: "savings_record \<Rightarrow> rat option" where
  "cache_share_of_bill_pct r =
     (if sr_cost_cache_read r = None \<and> sr_cost_cache_write r = None then None
      else if sr_cost_actual r \<le> 0 then None
      else (let cache_usd = (case sr_cost_cache_read r of Some x \<Rightarrow> x | None \<Rightarrow> 0) +
                            (case sr_cost_cache_write r of Some x \<Rightarrow> x | None \<Rightarrow> 0)
            in Some (py_round 2 (min 100 (cache_usd / sr_cost_actual r * 100)))))"

text \<open>The entry of a step in the metadata; a later step of a group replaces an earlier one.\<close>

definition step_entry :: "savings_record \<Rightarrow> step_saving \<Rightarrow> pyval" where
  "step_entry r s =
     PDict [(''description'', PStr (ss_description s)), (''tokens_before'', PInt (ss_before s)),
       (''tokens_after'', PInt (ss_after s)), (''abs_saving'', PInt (absolute_saving s)),
       (''pct_saving_vs_baseline'',
         PFloat (if sr_baseline r > 0
                 then py_round 2 (of_int (absolute_saving s) / of_int (sr_baseline r) * 100) else 0))]"

definition steps_data :: "savings_record \<Rightarrow> pydict" where
  "steps_data r = fold (\<lambda>s. dset (ss_group s) (step_entry r s)) (sr_steps r) []"

definition opt_entry :: "string \<Rightarrow> pyval option \<Rightarrow> pydict" where
  "opt_entry k v = (case v of Some x \<Rightarrow> [(k, x)] | None \<Rightarrow> [])"

text \<open>\<open>to_langfuse_metadata\<close>, its token and cost entries.\<close>

definition to_langfuse_metadata :: "savings_record \<Rightarrow> pydict" where
  "to_langfuse_metadata r =
     [(''baseline_tokens'', PInt (sr_baseline r)), (''final_tokens_sent'', PInt (sr_final_sent r)),
      (''total_abs_saving'', PInt (total_absolute_saving r)), (''total_pct_saving'', PFloat (total_pct_saving r)),
      (''tokens_user_sent'', PInt (sr_baseline r)), (''tokens_after_proxy'', PInt (sr_proxy_optimised r)),
      (''tokens_provider_billed'', case sr_provider_prompt r of Some n \<Rightarrow> PInt n | None \<Rightarrow> PNone),
      (''proxy_savings_abs'', PInt (proxy_tokens_saved r)), (''proxy_savings_pct'', PFloat (proxy_pct_saving r)),
      (''actual_savings_abs'', PInt (total_absolute_saving r)), (''actual_savings_pct'', PFloat (total_pct_saving r)),
      (''cost_baseline_usd'', PFloat (py_round 6 (sr_cost_baseline r))),
      (''cost_actual_usd'', PFloat (py_round 6 (sr_cost_actual r))),
      (''cost_saving_usd'', PFloat (cost_saving_usd r)), (''step_savings'', PDict (steps_data r))] @
     opt_entry ''cache_read_tokens'' (map_option PInt (sr_cache_read r)) @
     opt_entry ''cache_write_tokens'' (map_option PInt (sr_cache_write r)) @
     opt_entry ''cost_cache_read_usd'' (map_option (\<lambda>x. PFloat (py_round 6 x)) (sr_cost_cache_read r)) @
     opt_entry ''cost_cache_write_usd'' (map_option (\<lambda>x. PFloat (py_round 6 x)) (sr_cost_cache_write r)) @
     opt_entry ''cache_share_of_bill_pct'' (map_option PFloat (cache_share_of_bill_pct r)) @
     (if sr_call_count r > 1
      then [(''provider_call_count'', PInt (sr_call_count r)),
            (''provider_call_prompt_tokens'', PInt (sr_call_prompt_tokens r))] else [])"

section \<open>Which price applies\<close>

text \<open>A row matches a model when its key, not \<open>default\<close>, is part of the model's name.\<close>

definition row_matches :: "string \<Rightarrow> string \<Rightarrow> bool" where
  "row_matches model key \<longleftrightarrow> key \<noteq> ''default'' \<and> py_in (py_lower key) (py_lower model)"

lemma best_row_max:
  "best_row (py_lower model) best rows = Some (k, c) \<Longrightarrow>
   ((k, c) \<in> set rows \<and> row_matches model k \<or> best = Some (k, c)) \<and>
   (\<forall>key \<in> fst ` set rows. row_matches model key \<longrightarrow> length key \<le> length k) \<and>
   (\<forall>kb cb. best = Some (kb, cb) \<longrightarrow> length kb \<le> length k)"
proof (induction rows arbitrary: best)
  case Nil
  then show ?case by simp
next
  case (Cons row rows)
  obtain key costs where row: "row = (key, costs)" by fastforce
  show ?case
  proof (cases "row_matches model key \<and> (case best of None \<Rightarrow> True | Some (kb, _) \<Rightarrow> length key > length kb)")
    case True
    then have "best_row (py_lower model) (Some (key, costs)) rows = Some (k, c)"
      using Cons.prems row by (simp add: row_matches_def)
    from Cons.IH[OF this] True show ?thesis by (auto simp: row split: option.splits)
  next
    case False
    then have "best_row (py_lower model) best rows = Some (k, c)"
      using Cons.prems row by (auto simp: row_matches_def split: if_splits)
    from Cons.IH[OF this] False show ?thesis by (auto simp: row split: option.splits)
  qed
qed

lemma best_row_None:
  "best_row (py_lower model) best rows = None \<longleftrightarrow> best = None \<and> (\<forall>key \<in> fst ` set rows. \<not> row_matches model key)"
proof (induction rows arbitrary: best)
  case Nil
  then show ?case by simp
next
  case (Cons row rows)
  obtain key costs where row: "row = (key, costs)" by fastforce
  show ?case using Cons.IH by (auto simp: row row_matches_def split: option.splits)
qed

section \<open>Cache spans\<close>

lemma partition_spans:
  assumes "0 \<le> n" and "partition_input_tokens n c w h = (p, r, w5, w1)"
  shows "p + r + w5 + w1 = n \<and> 0 \<le> p \<and> 0 \<le> r \<and> 0 \<le> w5 \<and> 0 \<le> w1 \<and>
         r \<le> max 0 c \<and> w5 + w1 \<le> max 0 w \<and> w1 \<le> max 0 h"
proof -
  define ww where "ww = max 0 (min w (n - max 0 (min c n)))"
  have eq: "(n - max 0 (min c n) - ww, max 0 (min c n), ww - max 0 (min h ww), max 0 (min h ww)) = (p, r, w5, w1)"
    using assms(2) by (simp only: partition_input_tokens_def Let_def ww_def)
  have r: "r = max 0 (min c n)" and w1: "w1 = max 0 (min h ww)" using eq by simp_all
  have w5: "w5 = ww - w1" and p: "p = n - r - ww" using eq by auto
  have wr: "ww = max 0 (min w (n - r))" by (simp only: ww_def r)
  have "0 \<le> r" "r \<le> n" "r \<le> max 0 c" using assms(1) unfolding r by linarith+
  moreover have "0 \<le> ww" "ww \<le> n - r" "ww \<le> max 0 w" using \<open>r \<le> n\<close> unfolding wr by linarith+
  moreover have "0 \<le> w1" "w1 \<le> ww" "w1 \<le> max 0 h" using \<open>0 \<le> ww\<close> unfolding w1 by linarith+
  ultimately show ?thesis using w5 p by linarith
qed

lemma partition_exact:
  assumes "0 \<le> c" "0 \<le> h" "h \<le> w" "c + w \<le> n"
  shows "partition_input_tokens n c w h = (n - c - w, c, w - h, h)"
proof -
  have "max 0 (min c n) = c" "max 0 (min w (n - c)) = w" "max 0 (min h w) = h" using assms by linarith+
  then show ?thesis by (simp add: partition_input_tokens_def Let_def)
qed

lemma partition_none: "0 \<le> n \<Longrightarrow> partition_input_tokens n 0 0 0 = (n, 0, 0, 0)"
  by (simp add: partition_input_tokens_def)

lemma pct_range:
  "0 \<le> a \<Longrightarrow> a \<le> b \<Longrightarrow> 0 < b \<Longrightarrow>
   py_round 2 (of_int a / of_int b * 100) \<in> {0 .. (100 :: rat)}" for a b :: int
proof -
  assume ab: "0 \<le> a" "a \<le> b" "0 < b"
  then have "0 \<le> (of_int a :: rat) / of_int b * 100" "(of_int a :: rat) / of_int b * 100 \<le> 100"
    by (simp_all add: pos_divide_le_eq)
  then show ?thesis using py_round_bounds[of 0 "of_int a / of_int b * 100" 100 2] by simp
qed

section \<open>Properties\<close>

text \<open>
  The most specific price applies, whatever the order of the table: the row used for a model has a
  key contained in its name and no contained key is longer; the default row is used only when no
  key is contained.
\<close>

lemma most_specific_price_applies:
  "(\<exists>k row. (k, row) \<in> set pricing \<and> row_matches model k \<and>
      (\<forall>key \<in> fst ` set pricing. row_matches model key \<longrightarrow> length key \<le> length k) \<and>
      get_cost_per_1k pricing model = row_costs row) \<or>
   ((\<forall>key \<in> fst ` set pricing. \<not> row_matches model key) \<and>
    get_cost_per_1k pricing model =
      row_costs (case dget pricing ''default'' of Some row \<Rightarrow> row | None \<Rightarrow> []))"
proof (cases "best_row (py_lower model) None pricing")
  case None
  then show ?thesis using best_row_None[of model None pricing] by (simp add: get_cost_per_1k_def)
next
  case (Some x)
  obtain k c where x: "x = (k, c)" by fastforce
  show ?thesis
    using best_row_max[of model None pricing k c] Some x by (auto simp: get_cost_per_1k_def)
qed

lemma most_specific_price_applies_witness:
  "get_cost_per_1k [(''gpt-4o'', [(''input'', 5)]), (''gpt-4o-mini'', [(''input'', 1)])] ''gpt-4o-mini'' = (1, 15 / 1000)"
proof -
  have m: "row_matches ''gpt-4o-mini'' ''gpt-4o-mini''"
    by (simp add: row_matches_def py_in_def py_lower_def lower_char_def upt_rec)
  show ?thesis
    using most_specific_price_applies[of "[(''gpt-4o'', [(''input'', 5)]), (''gpt-4o-mini'', [(''input'', 1)])]" "''gpt-4o-mini''"] m
    by (auto simp: row_costs_def)
qed

text \<open>
  No token is billed twice: the plain, cache-read and cache-write spans are not negative, add up to the
  input and never exceed what the provider reported, however its counts overrun the total; and with no cache
  activity the cost is the plain cost of the call.
\<close>

lemma cache_spans_partition_the_input:
  assumes "0 \<le> input_tokens"
  shows "(case partition_input_tokens input_tokens c w h of
            (plain, r, w5, w1) \<Rightarrow>
              plain + r + w5 + w1 = input_tokens \<and> 0 \<le> plain \<and> 0 \<le> r \<and> 0 \<le> w5 \<and> 0 \<le> w1 \<and>
              r \<le> max 0 c \<and> w5 + w1 \<le> max 0 w \<and> w1 \<le> max 0 h) \<and>
         estimate_cost_with_cache pricing model input_tokens output_tokens no_cache_use 1 0 1 =
         estimate_cost pricing input_tokens output_tokens model"
  using partition_spans[OF assms, of c w h] partition_none[OF assms]
  by (auto simp: estimate_cost_with_cache_def estimate_cost_def no_cache_use_def Let_def split: prod.split)

lemma cache_spans_partition_the_input_witness:
  "estimate_cost_with_cache [] ''m'' 1000 0 no_cache_use 1 0 1 = 5 / 1000"
  using cache_spans_partition_the_input[of 1000 0 0 0 "[]" "''m''" 0]
  by (simp add: estimate_cost_def get_cost_per_1k_def row_costs_def py_round_def round_half_even_def)

text \<open>
  The two cache halves of a bill can exceed its total by rounding only: each amount is rounded to eight
  digits on its own, so read plus write is at most the total and one and a half units of the last digit.
\<close>

lemma cache_halves_within_rounding_of_total:
  assumes "0 \<le> input_tokens" and "0 \<le> output_tokens"
    and "0 \<le> fst (get_cost_per_1k pricing model)" and "0 \<le> snd (get_cost_per_1k pricing model)"
    and "0 \<le> cu_read_mult u" and "0 \<le> cu_write_mult u" and "0 \<le> cu_write_1h_mult u"
    and "0 \<le> batch_discount" and "1 \<le> reasoning_mult"
    and "cache_cost_split pricing model input_tokens u batch_discount = (read_usd, write_usd)"
  shows "read_usd + write_usd \<le>
         estimate_cost_with_cache pricing model input_tokens output_tokens u batch_discount reasoning_tokens reasoning_mult
         + 15 / 10 ^ 9"
proof -
  obtain inp outp where g: "get_cost_per_1k pricing model = (inp, outp)" by fastforce
  obtain p r w5 w1 where P: "partition_input_tokens input_tokens (cu_read u) (cu_write u) (cu_write_1h u) = (p, r, w5, w1)"
    by (metis prod_cases4)
  note N = partition_spans[OF assms(1) P]
  define R where "R = of_int r / 1000 * inp * cu_read_mult u * batch_discount"
  define W where "W = (of_int w5 / 1000 * inp * cu_write_mult u + of_int w1 / 1000 * inp * cu_write_1h_mult u) * batch_discount"
  define q where "q = max 0 (min reasoning_tokens output_tokens)"
  define A where "A = of_int p / 1000 * inp + of_int output_tokens / 1000 * outp + of_int q / 1000 * outp * (reasoning_mult - 1)"
  have "0 \<le> of_int p / 1000 * inp" "0 \<le> of_int output_tokens / 1000 * outp"
    "0 \<le> of_int q / 1000 * outp * (reasoning_mult - 1)"
    using N assms g by (simp_all add: q_def)
  then have A: "0 \<le> A * batch_discount" using assms(8) by (simp add: A_def)
  have T: "estimate_cost_with_cache pricing model input_tokens output_tokens u batch_discount reasoning_tokens reasoning_mult =
      py_round 8 (A * batch_discount + R + W)"
    by (simp add: estimate_cost_with_cache_def g P Let_def A_def R_def W_def q_def algebra_simps)
  have "read_usd = py_round 8 R" "write_usd = py_round 8 W"
    using assms(10) by (simp_all add: cache_cost_split_def g P R_def W_def)
  moreover have "py_round 8 R \<le> R + 1 / (2 * 10 ^ 8)" "py_round 8 W \<le> W + 1 / (2 * 10 ^ 8)"
    "A * batch_discount + R + W - 1 / (2 * 10 ^ 8) \<le> py_round 8 (A * batch_discount + R + W)"
    using py_round_near[of 8 R] py_round_near[of 8 W] py_round_near[of 8 "A * batch_discount + R + W"]
    by (simp_all only: abs_le_iff) linarith+
  ultimately show ?thesis unfolding T using A by simp
qed

definition tiny_pricing :: pricing where
  "tiny_pricing = [(''tiny'', [(''input'', 6 / 10 ^ 6), (''output'', 0)])]"

definition tiny_use :: cache_use where
  "tiny_use = no_cache_use\<lparr>cu_read := 1, cu_write := 1\<rparr>"

lemma tiny_costs: "get_cost_per_1k tiny_pricing ''tiny'' = (6 / 10 ^ 6, 0)"
  by (simp add: get_cost_per_1k_def tiny_pricing_def py_in_def py_lower_def lower_char_def row_costs_def upt_rec)

lemma tiny_rounding: "round_half_even (3 / 5) = 1" "round_half_even (6 / 5) = 1"
proof -
  have "\<lfloor>3 / 5 :: rat\<rfloor> = 0" "\<lfloor>6 / 5 :: rat\<rfloor> = 1" by (simp_all add: floor_eq_iff)
  then show "round_half_even (3 / 5) = 1" "round_half_even (6 / 5) = 1"
    by (simp_all add: round_half_even_def)
qed

text \<open>The bound is needed: here both halves round up and their sum is twice the total.\<close>

lemma cache_halves_exceed_total:
  "cache_cost_split tiny_pricing ''tiny'' 2 tiny_use 1 = (1 / 10 ^ 8, 1 / 10 ^ 8) \<and>
   estimate_cost_with_cache tiny_pricing ''tiny'' 2 0 tiny_use 1 0 1 = 1 / 10 ^ 8"
  by (simp add: cache_cost_split_def estimate_cost_with_cache_def tiny_costs tiny_use_def no_cache_use_def
      partition_input_tokens_def py_round_def tiny_rounding Let_def)

lemma cache_halves_within_rounding_of_total_witness:
  "(1 / 10 ^ 8 + 1 / 10 ^ 8 :: rat) \<le> estimate_cost_with_cache tiny_pricing ''tiny'' 2 0 tiny_use 1 0 1 + 15 / 10 ^ 9"
  by (rule cache_halves_within_rounding_of_total[OF _ _ _ _ _ _ _ _ _ cache_halves_exceed_total[THEN conjunct1]])
     (simp_all add: tiny_costs tiny_use_def no_cache_use_def)

text \<open>
  Every percentage of a savings record is between 0 and 100, and an optional entry of its metadata is
  present exactly when the provider reported it: a zero is never made of an unknown.
\<close>

lemma reported_percentages_in_range:
  assumes "0 \<le> sr_baseline r" and "0 \<le> sr_final_sent r" and "0 \<le> sr_proxy_optimised r"
    and "\<forall>x. sr_cost_cache_read r = Some x \<longrightarrow> 0 \<le> x" and "\<forall>x. sr_cost_cache_write r = Some x \<longrightarrow> 0 \<le> x"
  shows "total_pct_saving r \<in> {0..100} \<and> proxy_pct_saving r \<in> {0..100} \<and>
         (\<forall>x. cache_share_of_bill_pct r = Some x \<longrightarrow> x \<in> {0..100}) \<and>
         (dget (to_langfuse_metadata r) ''cache_read_tokens'' = map_option PInt (sr_cache_read r)) \<and>
         (dget (to_langfuse_metadata r) ''cache_write_tokens'' = map_option PInt (sr_cache_write r))"
proof -
  have t: "total_pct_saving r \<in> {0..100}"
    using pct_range[of "total_absolute_saving r" "sr_baseline r"] assms(1,2)
    by (auto simp: total_pct_saving_def total_absolute_saving_def)
  have p: "proxy_pct_saving r \<in> {0..100}"
    using pct_range[of "proxy_tokens_saved r" "sr_baseline r"] assms(1,3)
    by (auto simp: proxy_pct_saving_def proxy_tokens_saved_def)
  have c: "x \<in> {0..100}" if "cache_share_of_bill_pct r = Some x" for x
  proof -
    let ?u = "(case sr_cost_cache_read r of Some x \<Rightarrow> x | None \<Rightarrow> 0) + (case sr_cost_cache_write r of Some x \<Rightarrow> x | None \<Rightarrow> 0)"
    have x: "x = py_round 2 (min 100 (?u / sr_cost_actual r * 100))" "0 < sr_cost_actual r"
      using that by (auto simp: cache_share_of_bill_pct_def Let_def split: if_splits)
    have "0 \<le> ?u" using assms(4,5) by (auto split: option.split)
    then show ?thesis
      using x py_round_bounds[of 0 "min 100 (?u / sr_cost_actual r * 100)" 100 2] by (simp add: min_def)
  qed
  have m: "dget (to_langfuse_metadata r) ''cache_read_tokens'' = map_option PInt (sr_cache_read r)"
    "dget (to_langfuse_metadata r) ''cache_write_tokens'' = map_option PInt (sr_cache_write r)"
    by (auto simp: to_langfuse_metadata_def opt_entry_def map_of_append map_add_def split: option.split)
  show ?thesis using t p c m by blast
qed

definition sample_record :: savings_record where
  "sample_record = \<lparr>sr_baseline = 100, sr_steps = [], sr_final_sent = 40, sr_proxy_optimised = 50,
     sr_provider_prompt = None, sr_cost_baseline = 1, sr_cost_actual = 1 / 2, sr_cache_read = None,
     sr_cache_write = Some 0, sr_cost_cache_read = None, sr_cost_cache_write = Some 0, sr_call_count = 1,
     sr_call_prompt_tokens = 40\<rparr>"

lemma reported_percentages_in_range_witness:
  "dget (to_langfuse_metadata sample_record) ''cache_read_tokens'' = None \<and>
   dget (to_langfuse_metadata sample_record) ''cache_write_tokens'' = Some (PInt 0)"
  using reported_percentages_in_range[of sample_record] by (simp add: sample_record_def)

end
