(* ===== verification/Ingress.thy ===== *)
theory Ingress
  imports Py_Prelude "HOL-Library.Sublist"
begin

text \<open>
  \<open>protocols/base.py\<close>: which fields of a request body and which headers become parameters of a
  request, the markers a caller puts on a prompt it wants cached, and how one inbound message of
  another protocol is assembled into OpenAI messages. A body is decoded JSON, so its keys are
  texts. Log lines are left out, except the warnings about dropped fields, whose set
  (\<open>_WARNED_DROPPED\<close>) is a state of the module. \<open>sse_line\<close> and \<open>safe_json_dumps\<close> only print JSON
  and are not modelled. The lemmas show that a client can never set an internal flag, that the
  fields are split without loss, and that the set of warnings stays bounded.
\<close>

section \<open>The parameters a client may send\<close>

definition openai_chat_params :: "string list" where
  "openai_chat_params =
     [''audio'', ''frequency_penalty'', ''function_call'', ''functions'', ''logit_bias'', ''logprobs'',
      ''max_completion_tokens'', ''max_tokens'', ''modalities'', ''n'', ''parallel_tool_calls'',
      ''prediction'', ''presence_penalty'', ''prompt_cache_key'', ''prompt_cache_retention'',
      ''reasoning_effort'', ''response_format'', ''safety_identifier'', ''seed'', ''service_tier'',
      ''stop'', ''store'', ''stream'', ''stream_options'', ''temperature'', ''tool_choice'', ''tools'',
      ''top_logprobs'', ''top_p'', ''user'', ''verbosity'', ''web_search_options'',
      ''thinking'', ''thinking_config'', ''top_k'']"

definition tokenlean_client_params :: "string list" where
  "tokenlean_client_params =
     [''batch_topic'', ''complexity'', ''complexity_tier'', ''dataset_id'', ''json_schema'',
      ''rag_collection'', ''rag_query'', ''session_id'', ''template_id'', ''token_opt_state'',
      ''user_id'', ''workflow_id'']"

definition client_param_prefix :: string where "client_param_prefix = ''x_''"

definition request_header_params :: "string list" where
  "request_header_params =
     [''x_complexity'', ''x_complexity_tier'', ''x_compress_user'', ''x_confidence_score'', ''x_dataset'',
      ''x_echo_prompt'', ''x_feature'', ''x_jit_retrieval'', ''x_json_output'', ''x_no_cache'',
      ''x_prefix_profile'', ''x_rag_collection'', ''x_rag_top_k'', ''x_route_to'', ''x_session_id'',
      ''x_step_inputs_hash'', ''x_step_name'', ''x_team'', ''x_template_id'', ''x_template_version'',
      ''x_workflow_id'']"

definition non_param_headers :: "string list" where
  "non_param_headers = [''x-user-id'', ''x-scenario-tag'', ''x-api-key'', ''x-goog-api-key'']"

definition internal_param_prefix :: string where "internal_param_prefix = ''_''"

definition caller_cache_markers :: string where
  "caller_cache_markers = internal_param_prefix @ ''caller_cache_markers''"

definition cache_marker_name :: string where "cache_marker_name = ''cache_control''"

fun str_names :: "pyval list \<Rightarrow> string list" where
  "str_names [] = []"
| "str_names (PStr s # vs) = s # str_names vs"
| "str_names (_ # vs) = str_names vs"

definition admitted :: "pyval list \<Rightarrow> string \<Rightarrow> bool" where
  "admitted extra_allowed k \<longleftrightarrow>
     \<not> prefix internal_param_prefix k \<and>
     (k \<in> set (openai_chat_params @ tokenlean_client_params @ str_names extra_allowed) \<or>
      prefix client_param_prefix k)"

definition envelope_field :: "string \<Rightarrow> bool" where
  "envelope_field k \<longleftrightarrow> k \<in> {''messages'', ''model''}"

fun split_params :: "pyval list \<Rightarrow> pydict \<Rightarrow> pydict \<times> string list" where
  "split_params extra [] = ([], [])"
| "split_params extra ((k, v) # body) =
     (case split_params extra body of
        (kept, dropped) \<Rightarrow>
          if envelope_field k then (kept, dropped)
          else if admitted extra k then ((k, v) # kept, dropped)
          else (kept, k # dropped))"

definition filter_client_params :: "pydict \<Rightarrow> pyval list \<Rightarrow> pydict \<times> string list" where
  "filter_client_params body extra_allowed = split_params extra_allowed body"

section \<open>The headers\<close>

definition dash_to_underscore :: "string \<Rightarrow> string" where
  "dash_to_underscore s = map (\<lambda>c. if c = CHR ''-'' then CHR ''_'' else c) s"

definition routing_header_params :: "(string \<times> string) list \<Rightarrow> (string \<times> string) list" where
  "routing_header_params hdrs =
     fold (\<lambda>(name, v) out.
             let l = py_lower name in
             if prefix ''x-'' l \<and> l \<notin> set non_param_headers then dset (dash_to_underscore l) v out else out)
          hdrs []"

definition header_params :: "(string \<times> string) list \<Rightarrow> (string \<times> string) list" where
  "header_params hdrs = filter (\<lambda>kv. fst kv \<in> set request_header_params) (routing_header_params hdrs)"

section \<open>Warnings about dropped fields\<close>

definition max_warned_dropped :: nat where "max_warned_dropped = 256"
definition max_logged_name :: nat where "max_logged_name = 64"

text \<open>The new set of names warned about, and the warnings this request logs.\<close>

fun warn_names :: "string list \<Rightarrow> string list \<Rightarrow> string list \<times> string list" where
  "warn_names warned [] = (warned, [])"
| "warn_names warned (n # ns) =
     (if n \<in> set warned \<or> length warned \<ge> max_warned_dropped then warn_names warned ns
      else (case warn_names (warned @ [n]) ns of (w, out) \<Rightarrow> (w, n # out)))"

definition log_dropped :: "string list \<Rightarrow> string list \<Rightarrow> string list \<times> string list" where
  "log_dropped warned dropped = warn_names warned (map (take max_logged_name) dropped)"

section \<open>Prompt-cache markers\<close>

definition cache_marker :: "pyval \<Rightarrow> pydict option" where
  "cache_marker item =
     (case item of
        PDict d \<Rightarrow> (case dget d cache_marker_name of Some (PDict m) \<Rightarrow> Some m | _ \<Rightarrow> None)
      | _ \<Rightarrow> None)"

definition marked_item :: "pyval \<Rightarrow> bool" where
  "marked_item item \<longleftrightarrow> cache_marker item \<noteq> None"

definition content_of :: "pyval \<Rightarrow> pyval" where
  "content_of item = (case item of PDict d \<Rightarrow> dget_or d ''content'' PNone | _ \<Rightarrow> PNone)"

definition any_marked_flat :: "pyval \<Rightarrow> bool" where
  "any_marked_flat items \<longleftrightarrow> (case items of PList xs \<Rightarrow> list_ex marked_item xs | _ \<Rightarrow> False)"

text \<open>\<open>_any_marked\<close>: \<open>nested\<close> looks one level into the content blocks of each item.\<close>

definition any_marked :: "bool \<Rightarrow> pyval \<Rightarrow> bool" where
  "any_marked nested items \<longleftrightarrow>
     (case items of
        PList xs \<Rightarrow> list_ex (\<lambda>item. is_dict item \<and>
                       (marked_item item \<or> nested \<and> any_marked_flat (content_of item))) xs
      | _ \<Rightarrow> False)"

definition carries_cache_markers :: "pyval \<Rightarrow> bool" where
  "carries_cache_markers body \<longleftrightarrow>
     (case body of
        PDict b \<Rightarrow>
          marked_item body \<or> any_marked False (dget_or b ''system'' PNone) \<or>
          any_marked False (dget_or b ''tools'' PNone) \<or>
          (case dget_or b ''messages'' PNone of
             PList ms \<Rightarrow> any_marked False (PList ms) \<or>
                         list_ex (\<lambda>m. is_dict m \<and> any_marked True (content_of m)) ms
           | _ \<Rightarrow> False)
      | _ \<Rightarrow> False)"

section \<open>The OpenAI adapter and the shared assembly\<close>

definition parse_request :: "pydict \<Rightarrow> pyval list \<Rightarrow> string list \<Rightarrow> (pyval \<times> pyval \<times> pydict) \<times> string list" where
  "parse_request body extra_allowed warned =
     (let messages = dget_or body ''messages'' (PList []);
          model = py_or (dget_or body ''model'' PNone) (PStr []);
          (params, dropped) = filter_client_params body extra_allowed;
          warned' = fst (log_dropped warned dropped)
      in ((messages, model,
           if carries_cache_markers (PDict body) then dset caller_cache_markers (PBool True) params else params),
          warned'))"

definition serialise_error :: "int \<Rightarrow> string \<Rightarrow> string \<Rightarrow> pyval \<times> int" where
  "serialise_error status message code =
     (PDict [(''error'', PDict [(''message'', PStr message), (''type'', PStr ''invalid_request_error''),
                               (''code'', if code = [] then PNone else PStr code)])], status)"

definition finalize_fanout :: "string \<Rightarrow> pyval \<Rightarrow> pyval list \<Rightarrow> pyval list \<Rightarrow> pyval list" where
  "finalize_fanout role collapsed tool_calls tool_msgs =
     tool_msgs @
     (if role = ''assistant'' \<and> tool_calls \<noteq> [] then
        [PDict [(''role'', PStr ''assistant''), (''content'', py_or collapsed PNone),
                (''tool_calls'', PList tool_calls)]]
      else if py_truthy collapsed \<or> tool_msgs = [] then
        [PDict [(''role'', PStr role), (''content'', collapsed)]]
      else [])"

section \<open>Lemmas\<close>

lemma split_params_dget:
  "dget (fst (split_params extra body)) k =
     (if envelope_field k \<or> \<not> admitted extra k then None else dget body k)"
proof (induction body)
  case (Cons kv body)
  obtain k' v where kv: "kv = (k', v)" by (cases kv)
  obtain kept dropped where s: "split_params extra body = (kept, dropped)" by (cases "split_params extra body")
  show ?case using Cons.IH by (auto simp: kv s)
qed simp

lemma split_params_dropped:
  "k \<in> set (snd (split_params extra body)) \<longleftrightarrow>
     k \<in> fst ` set body \<and> \<not> envelope_field k \<and> \<not> admitted extra k"
proof (induction body)
  case (Cons kv body)
  obtain k' v where kv: "kv = (k', v)" by (cases kv)
  obtain kept dropped where s: "split_params extra body = (kept, dropped)" by (cases "split_params extra body")
  show ?case using Cons.IH by (auto simp: kv s)
qed simp

lemma parse_request_params:
  "parse_request body extra warned = ((msgs, model, params), warned') \<Longrightarrow>
   params = (if carries_cache_markers (PDict body)
             then dset caller_cache_markers (PBool True) (fst (split_params extra body))
             else fst (split_params extra body))"
  by (cases "split_params extra body") (auto simp: parse_request_def filter_client_params_def)

lemma marker_is_internal: "prefix internal_param_prefix caller_cache_markers"
  by (simp add: caller_cache_markers_def)

lemma internal_not_admitted: "prefix internal_param_prefix k \<Longrightarrow> \<not> admitted extra k"
  by (simp add: admitted_def)

lemma warn_names_inv:
  assumes "warn_names warned ns = (w, out)"
  shows "w = warned @ out \<and> (distinct warned \<longrightarrow> distinct w) \<and>
         (length warned \<le> max_warned_dropped \<longrightarrow> length w \<le> max_warned_dropped)"
  using assms
proof (induction warned ns arbitrary: out rule: warn_names.induct)
  case (2 warned n ns)
  show ?case
  proof (cases "n \<in> set warned \<or> length warned \<ge> max_warned_dropped")
    case True
    then have "warn_names warned ns = (w, out)" using 2(3) by auto
    from 2(1)[OF True this] show ?thesis .
  next
    case False
    then obtain out' where o: "warn_names (warned @ [n]) ns = (w, out')" "out = n # out'"
      using 2(3) by (auto split: prod.splits)
    from 2(2)[OF False o(1)] show ?thesis using False o(2) by auto
  qed
qed simp

text \<open>The warnings of a whole series of requests.\<close>

fun warn_run :: "string list \<Rightarrow> string list list \<Rightarrow> string list" where
  "warn_run warned [] = []"
| "warn_run warned (dropped # rest) =
     (case log_dropped warned dropped of (w, out) \<Rightarrow> out @ warn_run w rest)"

lemma warn_run_inv:
  "distinct warned \<Longrightarrow> length warned \<le> max_warned_dropped \<Longrightarrow>
   distinct (warned @ warn_run warned ds) \<and> length (warned @ warn_run warned ds) \<le> max_warned_dropped"
proof (induction ds arbitrary: warned)
  case (Cons d ds)
  obtain w out where L: "log_dropped warned d = (w, out)" by (cases "log_dropped warned d")
  then have "w = warned @ out" "distinct w" "length w \<le> max_warned_dropped"
    using warn_names_inv Cons.prems unfolding log_dropped_def by metis+
  then show ?case using Cons.IH[of w] L by simp
qed simp

lemma routing_fold_skip:
  "py_lower n \<in> set non_param_headers \<Longrightarrow>
   routing_header_params (hs1 @ (n, v) # hs2) = routing_header_params (hs1 @ hs2)"
  by (simp add: routing_header_params_def Let_def)

lemma routing_keys:
  "k \<in> fst ` set (fold (\<lambda>(name, v) out.
             let l = py_lower name in
             if prefix ''x-'' l \<and> l \<notin> set non_param_headers then dset (dash_to_underscore l) v out else out)
          hs out) \<Longrightarrow>
   k \<in> fst ` set out \<or> prefix client_param_prefix k"
proof (induction hs arbitrary: out)
  case (Cons h hs)
  obtain n v where h: "h = (n, v)" by (cases h)
  have x: "prefix client_param_prefix (dash_to_underscore l)" if "prefix ''x-'' l" for l
    using that by (auto simp: prefix_def dash_to_underscore_def client_param_prefix_def)
  have dk: "fst ` set (dset a v out) = insert a (fst ` set out)" for a
    using dom_update[of a v out] by (simp add: dom_map_of_conv_image_fst)
  show ?case
    using Cons.IH[of out] Cons.IH[of "dset (dash_to_underscore (py_lower n)) v out"] Cons.prems x dk
    by (auto simp: h Let_def split: if_splits)
qed simp

section \<open>Properties\<close>

text \<open>
  A client never sets an internal flag: after parsing, a parameter with the internal prefix is the
  proxy's own cache-marker flag, which is there exactly when the body carries a marker; every other
  parameter is the body's value under an admitted name, whatever the operator admits besides.
\<close>

lemma client_sets_no_internal_flag:
  assumes "parse_request body extra warned = ((msgs, model, params), warned')"
  shows "(prefix internal_param_prefix k \<longrightarrow>
            dget params k = (if k = caller_cache_markers \<and> carries_cache_markers (PDict body)
                             then Some (PBool True) else None)) \<and>
         (\<not> prefix internal_param_prefix k \<longrightarrow>
            dget params k = (if envelope_field k \<or> \<not> admitted extra k then None
                             else dget body k))"
  using marker_is_internal internal_not_admitted[of k extra]
  by (auto simp: parse_request_params[OF assms] dget_dset split_params_dget)

lemma client_sets_no_internal_flag_witness:
  "dget (fst (filter_client_params [(''_auth_admin'', PBool True), (''temperature'', PInt 1)] [PStr ''_auth_admin'']))
     ''_auth_admin'' = None"
  using client_sets_no_internal_flag[of "[(''_auth_admin'', PBool True), (''temperature'', PInt 1)]"
      "[PStr ''_auth_admin'']" "[]" "PList []" "PStr []"
      "fst (filter_client_params [(''_auth_admin'', PBool True), (''temperature'', PInt 1)] [PStr ''_auth_admin''])"
      "[''_auth_admin'']" "''_auth_admin''"]
  by (simp add: parse_request_def filter_client_params_def Let_def dget_or_def py_or_def admitted_def envelope_field_def
      internal_param_prefix_def log_dropped_def max_logged_name_def max_warned_dropped_def
      carries_cache_markers_def marked_item_def cache_marker_def cache_marker_name_def any_marked_def
      openai_chat_params_def tokenlean_client_params_def caller_cache_markers_def)

text \<open>
  A header that carries a credential or an identity never becomes a parameter, not even for the
  routing rules: the parameters are the same as if it had not been sent, and every header parameter
  is in the client's own namespace.
\<close>

lemma credentials_never_become_parameters:
  assumes "py_lower name \<in> set non_param_headers"
  shows "routing_header_params (hs1 @ (name, secret) # hs2) = routing_header_params (hs1 @ hs2) \<and>
         header_params (hs1 @ (name, secret) # hs2) = header_params (hs1 @ hs2) \<and>
         fst ` set (header_params hdrs) \<subseteq> set request_header_params \<and>
         (k \<in> fst ` set (routing_header_params hdrs) \<longrightarrow> prefix client_param_prefix k)"
proof -
  have "prefix client_param_prefix k" if "k \<in> fst ` set (routing_header_params hdrs)"
    using routing_keys[of k hdrs "[]"] that unfolding routing_header_params_def by simp
  then show ?thesis
    using routing_fold_skip[OF assms] by (auto simp: header_params_def)
qed

lemma credentials_never_become_parameters_witness:
  "routing_header_params [(''X-Api-Key'', ''secret'')] = routing_header_params []"
proof -
  have "py_lower ''X-Api-Key'' \<in> set non_param_headers" by code_simp
  from credentials_never_become_parameters[OF this, of "[]" "''secret''" "[]"] show ?thesis by simp
qed

text \<open>
  However many requests with unknown fields arrive, each name is warned about at most once and at
  most 256 warnings are logged in the life of the process.
\<close>

lemma dropped_field_warnings_bounded:
  "distinct (warn_run [] ds) \<and> length (warn_run [] ds) \<le> max_warned_dropped"
  using warn_run_inv[of "[]" ds] by simp

end
