(* ===== verification/Providers.thy ===== *)
theory Providers
  imports Ingress
begin

text \<open>
  \<open>providers/__init__.py\<close> and \<open>providers/generic_adapter.py\<close>: which provider a model belongs to, how
  a call to it is routed, and the parameters and messages that are sent to it. An adapter is an
  object whose class may override any method; the methods the modelled code calls are the fields of
  \<open>adapter_ops\<close>, \<open>base_ops\<close> are the defaults of \<open>ProviderAdapter\<close> and \<open>generic_ops\<close> those of
  \<open>GenericLiteLLMAdapter\<close>. \<open>fstr\<close> is Python's \<open>str\<close> on a value that is no text. The registry is
  the set of names the adapter files of the repository register. The lemmas show that an internal
  flag or an argument of the upstream call never leaves as a parameter, that markers are removed
  without another change, and that every model has an adapter.
\<close>

section \<open>Which provider\<close>

definition registry :: "string list" where
  "registry = [''anthropic'', ''azure'', ''bedrock'', ''cohere'', ''deepseek'', ''gemini'', ''groq'',
               ''mistral'', ''openai'', ''xai'']"

datatype adapter = Registered string | Generic pyval pydict

datatype adapter_error = Unsupported_Provider pyval | Adapter_Py pyexc

fun any_prefix :: "string \<Rightarrow> pyval list \<Rightarrow> pyexc + bool" where
  "any_prefix model [] = Inr False"
| "any_prefix model (PStr p # ps) = (if prefix p model then Inr True else any_prefix model ps)"
| "any_prefix model (_ # ps) = Inl TypeError"

definition owns_model :: "string \<Rightarrow> pyval \<Rightarrow> pyexc + bool" where
  "owns_model model provider =
     bind_res (py_get provider ''model_prefixes'' (PList [])) (\<lambda>ps.
       bind_res (py_iter ps) (any_prefix model))"

fun find_owner :: "string \<Rightarrow> pyval list \<Rightarrow> pyexc + pyval option" where
  "find_owner model [] = Inr None"
| "find_owner model (p # ps) =
     bind_res (owns_model model p) (\<lambda>b. if b then Inr (Some p) else find_owner model ps)"

fun find_named :: "pyval \<Rightarrow> pyval list \<Rightarrow> pyexc + pyval option" where
  "find_named name [] = Inr None"
| "find_named name (p # ps) =
     bind_res (py_get p ''name'' PNone) (\<lambda>n. if n = name then Inr (Some p) else find_named name ps)"

text \<open>\<open>default_provider\<close> is what \<open>config_loader.get_default_provider\<close> returns or raises.\<close>

definition match_entry :: "pyexc + pyval \<Rightarrow> string \<Rightarrow> pyval \<Rightarrow> pyexc + pyval option" where
  "match_entry default_provider model providers_config =
     bind_res (py_iter providers_config) (\<lambda>ps.
       bind_res (find_owner model ps) (\<lambda>r.
         case r of
           Some p \<Rightarrow> Inr (Some p)
         | None \<Rightarrow> find_named (case default_provider of Inr n \<Rightarrow> n | Inl _ \<Rightarrow> PStr ''openai'') ps))"

definition get_adapter_by_name :: "pyval \<Rightarrow> adapter_error + adapter" where
  "get_adapter_by_name name =
     (case name of
        PStr n \<Rightarrow> if n \<in> set registry then Inr (Registered n) else Inl (Unsupported_Provider name)
      | _ \<Rightarrow> if hashable name then Inl (Unsupported_Provider name) else Inl (Adapter_Py TypeError))"

definition in_registry :: "pyval \<Rightarrow> bool" where
  "in_registry name \<longleftrightarrow> (case name of PStr n \<Rightarrow> n \<in> set registry | _ \<Rightarrow> False)"

definition adapter_for_entry :: "pydict \<Rightarrow> adapter_error + adapter" where
  "adapter_for_entry entry =
     (let name = dget_or entry ''name'' (PStr []) in
      if dget entry ''adapter'' = Some (PStr ''generic'') \<or> py_truthy (dget_or entry ''openai_compatible'' PNone)
      then Inr (Generic name entry)
      else if \<not> hashable name then Inl (Adapter_Py TypeError)
      else if \<not> in_registry name then Inr (Generic name entry)
      else get_adapter_by_name name)"

text \<open>Only a mapping answers \<open>.get\<close>, so an entry that was found is one.\<close>

definition lift_py :: "pyexc + 'a \<Rightarrow> adapter_error + 'a" where
  "lift_py r = (case r of Inl e \<Rightarrow> Inl (Adapter_Py e) | Inr x \<Rightarrow> Inr x)"

definition get_adapter :: "pyexc + pyval \<Rightarrow> string \<Rightarrow> pyval \<Rightarrow> adapter_error + adapter" where
  "get_adapter default_provider model providers_config =
     bind_res (lift_py (match_entry default_provider model providers_config)) (\<lambda>r.
       case r of
         Some (PDict entry) \<Rightarrow> adapter_for_entry entry
       | _ \<Rightarrow> (case bind_res (lift_py default_provider) get_adapter_by_name of
                Inr a \<Rightarrow> Inr a
              | Inl _ \<Rightarrow> get_adapter_by_name (PStr ''openai'')))"

section \<open>Adapters\<close>

record adapter_ops =
  ao_supports_reasoning :: "string \<Rightarrow> pyval \<Rightarrow> bool"
  ao_reasoning_param_keys :: "string list"
  ao_supports_service_tier :: bool
  ao_unsupported_params :: "string list"
  ao_needs_marker :: bool
  ao_requires_api_key :: bool
  ao_cap_reasoning :: "pydict \<Rightarrow> pyval \<Rightarrow> pyexc + pydict"
  ao_reserve_headroom :: "pydict \<Rightarrow> string \<Rightarrow> pyval \<Rightarrow> pyval \<Rightarrow> pydict \<times> (pyexc + pyval)"
  ao_context_management :: "pydict \<Rightarrow> pydict \<Rightarrow> pyexc + pydict"

definition reasoning_off :: string where "reasoning_off = ''off''"

definition reasoning_tiers :: "string list" where
  "reasoning_tiers = [reasoning_off, ''low'', ''medium'', ''high'']"

definition is_named :: "string \<Rightarrow> pyval \<Rightarrow> bool" where
  "is_named name p \<longleftrightarrow> (case p of PDict d \<Rightarrow> dget d ''name'' = Some (PStr name) | _ \<Rightarrow> False)"

text \<open>\<open>_provider_entry\<close>: a malformed block reads as absent.\<close>

definition provider_entry :: "string \<Rightarrow> pyval \<Rightarrow> pydict" where
  "provider_entry name config =
     (case config of
        PDict c \<Rightarrow>
          (case py_or (dget_or c ''providers'' PNone) (PDict []) of
             PDict e \<Rightarrow> (case dget_or e name PNone of PDict d \<Rightarrow> d | _ \<Rightarrow> [])
           | v \<Rightarrow> (case py_iter v of
                    Inl _ \<Rightarrow> []
                  | Inr ps \<Rightarrow> (case find (is_named name) ps of Some (PDict d) \<Rightarrow> d | _ \<Rightarrow> [])))
      | _ \<Rightarrow> [])"

text \<open>Whether the operator's list names the model; no list, or an empty one, names every model.\<close>

definition names_model :: "pydict \<Rightarrow> string \<Rightarrow> bool" where
  "names_model entry model \<longleftrightarrow>
     (case dget_or entry ''reasoning_models'' PNone of
        PList ms \<Rightarrow> ms = [] \<or>
          list_ex (\<lambda>m. case m of PStr s \<Rightarrow> py_in (py_lower s) (py_lower model) | _ \<Rightarrow> False) ms
      | _ \<Rightarrow> True)"

definition base_supports_reasoning :: "string \<Rightarrow> string \<Rightarrow> pyval \<Rightarrow> bool" where
  "base_supports_reasoning name model config \<longleftrightarrow> names_model (provider_entry name config) model"

definition tier_of :: "pydict \<Rightarrow> string option" where
  "tier_of entry =
     (case dget_or entry ''default_reasoning_effort'' PNone of
        PStr s \<Rightarrow> if py_lower s \<in> set reasoning_tiers then Some (py_lower s) else None
      | _ \<Rightarrow> None)"

definition default_reasoning_effort :: "string \<Rightarrow> pyval \<Rightarrow> string" where
  "default_reasoning_effort name config =
     (case tier_of (provider_entry name config) of Some t \<Rightarrow> t | None \<Rightarrow> reasoning_off)"

definition base_reasoning_param_keys :: "string list" where
  "base_reasoning_param_keys = [''reasoning_effort'', ''thinking'', ''thinking_config'']"

definition base_ops :: "string \<Rightarrow> adapter_ops" where
  "base_ops name =
     \<lparr>ao_supports_reasoning = base_supports_reasoning name,
      ao_reasoning_param_keys = base_reasoning_param_keys,
      ao_supports_service_tier = False, ao_unsupported_params = [], ao_needs_marker = False,
      ao_requires_api_key = True, ao_cap_reasoning = (\<lambda>params mt. Inr params),
      ao_reserve_headroom = (\<lambda>params model cfg eff. (params, Inr PNone)),
      ao_context_management = (\<lambda>params cfg. Inr params)\<rparr>"

definition generic_ops :: "string \<Rightarrow> pydict \<Rightarrow> adapter_ops" where
  "generic_ops name entry =
     (base_ops name)
       \<lparr>ao_supports_reasoning :=
          (\<lambda>model cfg. py_truthy (dget_or entry ''supports_reasoning'' (PBool False)) \<and> names_model entry model),
        ao_requires_api_key := py_truthy (dget_or entry ''requires_api_key'' (PBool True)),
        ao_unsupported_params :=
          (case py_iter (py_or (dget_or entry ''unsupported_params'' (PList [])) (PList [])) of
             Inr vs \<Rightarrow> str_names vs | Inl _ \<Rightarrow> [])\<rparr>"

section \<open>The smallest prompt a provider caches\<close>

definition rstrip_star :: "string \<Rightarrow> string" where
  "rstrip_star s = rev (dropWhile (\<lambda>c. c = CHR ''*'') (rev s))"

definition non_negative_int :: "pyval \<Rightarrow> int option" where
  "non_negative_int v = map_option (max 0) (py_int (py_or v (PInt 0)))"

fun first_pattern :: "string \<Rightarrow> (string \<times> pyval) list \<Rightarrow> (string \<times> pyval) option" where
  "first_pattern lowered [] = None"
| "first_pattern lowered ((pattern, v) # rest) =
     (let pat = rstrip_star (py_lower pattern) in
      if pat \<noteq> [] \<and> prefix pat lowered then Some (pattern, v) else first_pattern lowered rest)"

definition longest_first :: "pydict \<Rightarrow> pydict" where
  "longest_first d = sort_key (\<lambda>kv. - int (length (fst kv))) d"

definition min_cacheable_prompt_tokens :: "string \<Rightarrow> pyval \<Rightarrow> string \<Rightarrow> int" where
  "min_cacheable_prompt_tokens name config model =
     (let entry = provider_entry name config;
          flat = (case non_negative_int (dget_or entry ''min_cacheable_tokens'' (PInt 0)) of Some n \<Rightarrow> n | None \<Rightarrow> 0);
          matched = (case dget_or entry ''min_cacheable_tokens_by_model'' PNone of
                       PDict d \<Rightarrow> if model = [] then None else first_pattern (py_lower model) (longest_first d)
                     | _ \<Rightarrow> None)
      in case matched of
           Some (_, v) \<Rightarrow> (case non_negative_int v of Some n \<Rightarrow> n | None \<Rightarrow> flat)
         | None \<Rightarrow> flat)"

section \<open>Prompt-cache markers\<close>

definition unmarked :: "pydict \<Rightarrow> pydict" where
  "unmarked item = filter (\<lambda>kv. fst kv \<noteq> cache_marker_name) item"

definition part_unmarked :: "pyval \<Rightarrow> pyval" where
  "part_unmarked p = (case p of PDict d \<Rightarrow> PDict (unmarked d) | _ \<Rightarrow> p)"

definition parts_unmarked :: "pyval \<Rightarrow> pyval" where
  "parts_unmarked v = (case v of PList ps \<Rightarrow> PList (map part_unmarked ps) | _ \<Rightarrow> v)"

definition at_key :: "string \<Rightarrow> (pyval \<Rightarrow> pyval) \<Rightarrow> pydict \<Rightarrow> pydict" where
  "at_key k f d = (case dget d k of None \<Rightarrow> d | Some v \<Rightarrow> dset k (f v) d)"

definition message_unmarked :: "pyval \<Rightarrow> pyval" where
  "message_unmarked m =
     (case m of
        PDict d \<Rightarrow> PDict (at_key ''tool_calls'' parts_unmarked (at_key ''content'' parts_unmarked (unmarked d)))
      | _ \<Rightarrow> m)"

definition without_cache_markers :: "pyval \<Rightarrow> pyval" where
  "without_cache_markers messages =
     (case messages of PList ms \<Rightarrow> PList (map message_unmarked ms) | _ \<Rightarrow> messages)"

definition tool_unmarked :: "pyval \<Rightarrow> pyval" where
  "tool_unmarked t =
     (case t of PDict d \<Rightarrow> PDict (at_key ''function'' part_unmarked (unmarked d)) | _ \<Rightarrow> t)"

definition tools_without_cache_markers :: "pyval \<Rightarrow> pyval" where
  "tools_without_cache_markers tools =
     (case tools of PList ts \<Rightarrow> PList (map tool_unmarked ts) | _ \<Rightarrow> tools)"

definition outgoing_messages_for :: "adapter_ops option \<Rightarrow> pyval \<Rightarrow> pyval" where
  "outgoing_messages_for ops messages =
     (case ops of
        Some a \<Rightarrow> if ao_needs_marker a then messages else without_cache_markers messages
      | None \<Rightarrow> without_cache_markers messages)"

section \<open>The parameters of a call\<close>

definition internal_param_keys :: "string list" where
  "internal_param_keys = [''template_id'', ''workflow_id'', ''rag_query'', ''batch_id'', ''burst_block'']"

definition litellm_control_keys :: "string list" where
  "litellm_control_keys =
     [''additional_drop_params'', ''allowed_openai_params'', ''api_base'', ''api_key'', ''api_type'',
      ''api_version'', ''base_url'', ''cache'', ''caching'', ''client'', ''client_id'', ''client_secret'',
      ''context_window_fallback_dict'', ''custom_llm_provider'', ''deployment_id'', ''drop_params'',
      ''extra_body'', ''extra_headers'', ''fallbacks'', ''headers'', ''input_cost_per_second'',
      ''input_cost_per_token'', ''max_retries'', ''model_list'', ''no-log'', ''num_retries'',
      ''organization'', ''output_cost_per_second'', ''output_cost_per_token'', ''preset_cache_key'',
      ''project'', ''proxy_server_request'', ''region_name'', ''request_timeout'', ''ssl_verify'',
      ''stream_timeout'', ''tenant_id'', ''timeout'', ''user_continue_message'']"

definition litellm_control_prefixes :: "string list" where
  "litellm_control_prefixes = [''aws_'', ''azure_'', ''litellm_'', ''mock_'', ''vertex_'', ''watsonx_'']"

definition is_litellm_control_key :: "string \<Rightarrow> bool" where
  "is_litellm_control_key k \<longleftrightarrow>
     k \<in> set litellm_control_keys \<or> list_ex (\<lambda>p. prefix p k) litellm_control_prefixes"

definition forwardable :: "string \<Rightarrow> bool" where
  "forwardable k \<longleftrightarrow> \<not> prefix ''_'' k \<and> \<not> prefix ''x_'' k \<and> k \<notin> set internal_param_keys \<and>
     \<not> is_litellm_control_key k"

definition pop_all :: "string list \<Rightarrow> pydict \<Rightarrow> pydict" where
  "pop_all ks d = fold dpop ks d"

text \<open>\<open>{**base, **tenant}\<close>: only mappings can be unpacked.\<close>

definition merge_cfg :: "pyval \<Rightarrow> pyval \<Rightarrow> pyexc + pydict" where
  "merge_cfg base over =
     (case (base, over) of
        (PDict b, PDict t) \<Rightarrow> Inr (fold (\<lambda>(k, v) d. dset k v d) t b)
      | _ \<Rightarrow> Inl TypeError)"

definition get_path :: "pyval \<Rightarrow> string list \<Rightarrow> pyexc + pyval" where
  "get_path v ks = fold (\<lambda>k r. bind_res r (\<lambda>x. py_get x k (PDict []))) ks (Inr v)"

definition context_editing_config :: "pyval \<Rightarrow> string \<Rightarrow> pyexc + pydict" where
  "context_editing_config config tenant_id =
     bind_res (get_path config [''groups'', ''context_editing'']) (\<lambda>base.
       bind_res (get_path config [''tenants'', tenant_id, ''groups'', ''context_editing'']) (\<lambda>t.
         merge_cfg base t))"

text \<open>
  The parameters sent, and the raise of the output budget that was disclosed (\<open>PNone\<close> when there
  was none). A failure of \<open>reserve_reasoning_headroom\<close> is swallowed with whatever it had changed.
\<close>

definition without_reasoning :: "adapter_ops \<Rightarrow> string \<Rightarrow> pyval \<Rightarrow> pydict \<Rightarrow> pydict" where
  "without_reasoning ops model cfg params =
     (let p = (if ao_supports_reasoning ops model cfg then params
               else pop_all (ao_reasoning_param_keys ops) params)
      in if dget p ''reasoning_effort'' = Some (PStr reasoning_off) then dpop ''reasoning_effort'' p else p)"

definition without_markers :: "adapter_ops \<Rightarrow> pydict \<Rightarrow> pydict" where
  "without_markers ops params =
     (if ao_needs_marker ops then params
      else at_key ''tools'' tools_without_cache_markers (dpop cache_marker_name params))"

definition hygienic :: "adapter_ops \<Rightarrow> string \<Rightarrow> pyval \<Rightarrow> pydict \<Rightarrow> pydict" where
  "hygienic ops model cfg params =
     (let p1 = filter (\<lambda>kv. forwardable (fst kv)) params;
          p2 = without_reasoning ops model cfg p1;
          p3 = (if ao_supports_service_tier ops then p2 else dpop ''service_tier'' p2);
          p4 = pop_all (ao_unsupported_params ops) p3
      in without_markers ops p4)"

definition outgoing_params_for ::
  "adapter_ops \<Rightarrow> pydict \<Rightarrow> string \<Rightarrow> pyval \<Rightarrow> string \<Rightarrow> pyval \<times> (pyexc + pydict)" where
  "outgoing_params_for ops params model eff_cfg tenant_id =
     (let requested_effort = dget_or (filter (\<lambda>kv. forwardable (fst kv)) params) ''reasoning_effort'' PNone;
          p5 = hygienic ops model eff_cfg params
      in case ao_cap_reasoning ops p5 (dget_or p5 ''max_tokens'' PNone) of
           Inl e \<Rightarrow> (PNone, Inl e)
         | Inr p6 \<Rightarrow>
             (let (p7, reserved) = ao_reserve_headroom ops p6 model eff_cfg requested_effort;
                  raised = (case reserved of Inr v \<Rightarrow> if py_truthy v then v else PNone | Inl _ \<Rightarrow> PNone)
              in (raised, bind_res (context_editing_config eff_cfg tenant_id) (ao_context_management ops p7))))"

section \<open>The call\<close>

definition py_str :: "(pyval \<Rightarrow> string) \<Rightarrow> pyval \<Rightarrow> string" where
  "py_str fstr v = (case v of PStr s \<Rightarrow> s | _ \<Rightarrow> fstr v)"

definition opt_field :: "string \<Rightarrow> pyval \<Rightarrow> pydict" where
  "opt_field k v = (if py_truthy v then [(k, v)] else [])"

definition build_call ::
  "(pyval \<Rightarrow> string) \<Rightarrow> adapter_ops \<Rightarrow> string \<Rightarrow> pydict \<Rightarrow> pyval \<Rightarrow> pyexc + string \<times> pydict" where
  "build_call fstr ops model provider_cfg api_key =
     (let key = (if ao_requires_api_key ops then opt_field ''api_key'' api_key else []) in
      if py_truthy (dget_or provider_cfg ''openai_compatible'' PNone) then
        (let kwargs = key @ opt_field ''base_url'' (dget_or provider_cfg ''api_base'' PNone)
                          @ [(''custom_llm_provider'', PStr ''openai'')];
             route = dget_or provider_cfg ''route_prefix'' PNone
         in if \<not> py_truthy route then Inr (model, kwargs)
            else (case route of
                    PStr r \<Rightarrow> Inr (if prefix r model then drop (length r) model else model, kwargs)
                  | _ \<Rightarrow> Inl TypeError))
      else (let pre = dget_or provider_cfg ''litellm_prefix'' PNone; lead = py_str fstr pre @ ''/'' in
            if py_truthy pre \<and> \<not> prefix lead model then Inr (lead @ model, key) else Inr (model, key)))"

text \<open>\<open>build_litellm_call\<close>: the entry, its adapter, and the call \<open>build\<close> of that adapter.\<close>

definition build_litellm_call ::
  "(adapter \<Rightarrow> string \<Rightarrow> pydict \<Rightarrow> pyval \<Rightarrow> pyexc + string \<times> pydict) \<Rightarrow> pyexc + pyval \<Rightarrow> string
   \<Rightarrow> pyval \<Rightarrow> pyval \<Rightarrow> adapter_error + string \<times> pydict" where
  "build_litellm_call build default_provider model providers_config api_key =
     bind_res (lift_py (match_entry default_provider model providers_config)) (\<lambda>r.
       let entry = (case r of Some (PDict e) \<Rightarrow> e | _ \<Rightarrow> []) in
       bind_res (if entry \<noteq> [] then adapter_for_entry entry
                 else get_adapter default_provider model providers_config) (\<lambda>a.
         lift_py (build a model entry api_key)))"

section \<open>Usage\<close>

fun first_in :: "pydict \<Rightarrow> string list \<Rightarrow> int option" where
  "first_in source [] = None"
| "first_in source (k # ks) =
     (case dget source k of
        None \<Rightarrow> first_in source ks
      | Some PNone \<Rightarrow> first_in source ks
      | Some v \<Rightarrow> py_int v)"

definition first_present :: "pyval \<Rightarrow> string list \<Rightarrow> int option" where
  "first_present source ks = (case source of PDict d \<Rightarrow> first_in d ks | _ \<Rightarrow> None)"

record usage_counts =
  u_cached :: pyval
  u_reasoning :: pyval
  u_cache_read :: "int option"
  u_cache_write :: "int option"

definition extract_usage :: "pyval \<Rightarrow> pyexc + usage_counts" where
  "extract_usage response =
     bind_res (py_get response ''usage'' (PDict [])) (\<lambda>u0.
       let usage = py_or u0 (PDict []) in
       bind_res (py_get usage ''prompt_tokens_details'' PNone) (\<lambda>d0.
         let details = py_or d0 (PDict []) in
         bind_res (py_get details ''cached_tokens'' (PInt 0)) (\<lambda>c0.
         bind_res (py_get usage ''completion_tokens_details'' PNone) (\<lambda>cd0.
         bind_res (py_get (py_or cd0 (PDict [])) ''reasoning_tokens'' (PInt 0)) (\<lambda>r0.
         bind_res (py_get usage ''thinking_tokens'' PNone) (\<lambda>t0.
           let reasoning = py_or r0 (PInt 0) in
           Inr \<lparr>u_cached = py_or c0 (PInt 0),
                u_reasoning = (if \<not> py_truthy reasoning \<and> py_truthy t0 then t0 else reasoning),
                u_cache_read = first_present details [''cached_tokens''],
                u_cache_write = first_present details [''cache_write_tokens'', ''cache_creation_tokens'']\<rparr>))))))"

section \<open>Lemmas\<close>

lemma dget_filter_key: "dget (filter (\<lambda>kv. P (fst kv)) d) k = (if P k then dget d k else None)"
  by (induction d) auto

lemma dget_pop_all: "dget (pop_all ks d) k = (if k \<in> set ks then None else dget d k)"
  unfolding pop_all_def by (induction ks arbitrary: d) (auto simp: dget_dpop)

lemma dget_at_key: "dget (at_key k f d) k' = (if k' = k then map_option f (dget d k) else dget d k')"
  by (auto simp: at_key_def dget_dset split: option.splits)

lemma keys_iff_dget: "k \<in> fst ` set d \<longleftrightarrow> dget d k \<noteq> None"
  by (metis dom_map_of_conv_image_fst domIff)

definition stripped :: "adapter_ops \<Rightarrow> string \<Rightarrow> pyval \<Rightarrow> pydict \<Rightarrow> string \<Rightarrow> bool" where
  "stripped ops model cfg params k \<longleftrightarrow>
     \<not> forwardable k \<or>
     (\<not> ao_supports_reasoning ops model cfg \<and> k \<in> set (ao_reasoning_param_keys ops)) \<or>
     (k = ''reasoning_effort'' \<and> dget params k = Some (PStr reasoning_off)) \<or>
     (k = ''service_tier'' \<and> \<not> ao_supports_service_tier ops) \<or>
     k \<in> set (ao_unsupported_params ops) \<or>
     (k = cache_marker_name \<and> \<not> ao_needs_marker ops)"

lemma strip_chain:
  "(if e then None
    else if t then map_option f (if d then None else if c then None else if a \<or> b then None
                                 else if ok then x else None)
    else if d then None else if c then None else if a \<or> b then None else if ok then x else None) =
   (if \<not> ok \<or> a \<or> b \<or> c \<or> d \<or> e then None else if t then map_option f x else x)"
  by simp

lemma dget_hygienic:
  "dget (hygienic ops model cfg params) k =
     (if stripped ops model cfg params k then None
      else if k = ''tools'' \<and> \<not> ao_needs_marker ops then map_option tools_without_cache_markers (dget params k)
      else dget params k)"
proof -
  define p1 where "p1 = filter (\<lambda>kv. forwardable (fst kv)) params"
  define p2 where "p2 = without_reasoning ops model cfg p1"
  define p3 where "p3 = (if ao_supports_service_tier ops then p2 else dpop ''service_tier'' p2)"
  define p4 where "p4 = pop_all (ao_unsupported_params ops) p3"
  have 1: "dget p1 j = (if forwardable j then dget params j else None)" for j
    by (simp add: p1_def dget_filter_key)
  have 2: "dget p2 j = (if (\<not> ao_supports_reasoning ops model cfg \<and> j \<in> set (ao_reasoning_param_keys ops)) \<or>
                          (j = ''reasoning_effort'' \<and> dget params j = Some (PStr reasoning_off))
                       then None else dget p1 j)" for j
    by (auto simp: p2_def without_reasoning_def Let_def dget_pop_all dget_dpop 1 simp del: char_of_integer_code)
  have 3: "dget p3 j = (if j = ''service_tier'' \<and> \<not> ao_supports_service_tier ops then None else dget p2 j)" for j
    by (simp add: p3_def dget_dpop)
  have 4: "dget p4 j = (if j \<in> set (ao_unsupported_params ops) then None else dget p3 j)" for j
    by (simp add: p4_def dget_pop_all)
  have n: "cache_marker_name \<noteq> ''tools''" by (simp add: cache_marker_name_def)
  have "dget (without_markers ops p4) k =
    (if k = cache_marker_name \<and> \<not> ao_needs_marker ops then None
     else if k = ''tools'' \<and> \<not> ao_needs_marker ops then map_option tools_without_cache_markers (dget p4 k)
     else dget p4 k)"
    using n by (simp add: without_markers_def dget_at_key dget_dpop)
  then show ?thesis
    unfolding hygienic_def Let_def p1_def[symmetric] p2_def[symmetric] p3_def[symmetric] p4_def[symmetric]
    by (simp only: 4 3 2 1 stripped_def strip_chain)
qed

lemma hygienic_forwardable: "k \<in> fst ` set (hygienic ops model cfg params) \<Longrightarrow> forwardable k"
  by (auto simp: keys_iff_dget dget_hygienic stripped_def split: if_splits)

lemma outgoing_base:
  assumes "outgoing_params_for (base_ops name) params model cfg tenant = (raised, Inr out)"
  shows "out = hygienic (base_ops name) model cfg params \<and> raised = PNone"
  using assms by (auto simp: outgoing_params_for_def Let_def base_ops_def bind_res_def split: sum.splits)

lemma dget_unmarked: "dget (unmarked d) k = (if k = cache_marker_name then None else dget d k)"
  unfolding unmarked_def by (induction d) auto

lemma part_unmarked_clean: "\<not> marked_item (part_unmarked p)"
  by (cases p) (simp_all add: part_unmarked_def marked_item_def cache_marker_def dget_unmarked)

lemma marker_is_no_field:
  "cache_marker_name \<noteq> ''content''" "cache_marker_name \<noteq> ''tool_calls''" "cache_marker_name \<noteq> ''function''"
  by (simp_all add: cache_marker_name_def)

lemma message_unmarked_fields:
  assumes "message_unmarked (PDict d) = PDict d'"
  shows "dget d' k = (if k = cache_marker_name then None
                else if k = ''content'' \<or> k = ''tool_calls'' then map_option parts_unmarked (dget d k)
                else dget d k)"
proof -
  have "d' = at_key ''tool_calls'' parts_unmarked (at_key ''content'' parts_unmarked (unmarked d))"
    using assms by (simp add: message_unmarked_def)
  then show ?thesis using marker_is_no_field by (simp add: dget_at_key dget_unmarked)
qed

lemma parts_unmarked_clean: "\<not> any_marked False (parts_unmarked v)"
  by (cases v) (auto simp: parts_unmarked_def any_marked_def list_ex_iff part_unmarked_clean)

lemma carries_content_clean:
  "message_unmarked m = PDict d \<Longrightarrow> \<not> any_marked False (content_of (PDict d)) \<and> \<not> marked_item (PDict d) \<and>
   \<not> any_marked False (dget_or d ''tool_calls'' PNone)"
proof (cases m)
  case (PDict d0)
  assume "message_unmarked m = PDict d"
  note F = message_unmarked_fields[OF this[unfolded PDict]]
  have P: "\<not> any_marked False (case map_option parts_unmarked x of None \<Rightarrow> PNone | Some w \<Rightarrow> w)" for x
    using parts_unmarked_clean by (cases x) (simp_all add: any_marked_def)
  have n: "''content'' \<noteq> cache_marker_name" "''tool_calls'' \<noteq> cache_marker_name"
    by (simp_all add: cache_marker_name_def)
  have "dget d cache_marker_name = None" using F[of cache_marker_name] by simp
  moreover have "dget d ''content'' = map_option parts_unmarked (dget d0 ''content'')"
    using F[of "''content''"] n by simp
  moreover have "dget d ''tool_calls'' = map_option parts_unmarked (dget d0 ''tool_calls'')"
    using F[of "''tool_calls''"] n by simp
  ultimately show ?thesis
    using P by (simp add: content_of_def dget_or_def marked_item_def cache_marker_def)
qed (simp_all add: message_unmarked_def)

lemma dset_present_commute:
  "dget d k = Some v \<Longrightarrow> map_of (at_key k f d) = (map_of d)(k \<mapsto> f v)"
  by (simp add: at_key_def update_conv')

lemma unmarked_id: "dget d cache_marker_name = None \<Longrightarrow> unmarked d = d"
  unfolding unmarked_def by (induction d) (auto split: if_splits)

lemma part_unmarked_id: "\<not> (\<exists>d. p = PDict d \<and> dget d cache_marker_name \<noteq> None) \<Longrightarrow> part_unmarked p = p"
  by (cases p) (auto simp: part_unmarked_def unmarked_id)

lemma find_owner_first:
  assumes "\<And>p. p \<in> set ps \<Longrightarrow> \<exists>b. owns_model model p = Inr b"
  shows "find_owner model ps = Inr (find (\<lambda>p. owns_model model p = Inr True) ps)"
  using assms
proof (induction ps)
  case (Cons p ps)
  obtain b where "owns_model model p = Inr b" using Cons.prems by fastforce
  then show ?case using Cons by (cases b) auto
qed simp

lemma any_prefix_strs: "any_prefix model (map PStr ss) = Inr (list_ex (\<lambda>s. prefix s model) ss)"
  by (induction ss) auto

text \<open>What an operator's entry must look like: a name and a list of prefixes, all of them texts.\<close>

definition entry_ok :: "pyval \<Rightarrow> bool" where
  "entry_ok p \<longleftrightarrow>
     (case p of
        PDict d \<Rightarrow> hashable (dget_or d ''name'' (PStr [])) \<and>
                   (case dget_or d ''model_prefixes'' (PList []) of
                      PList vs \<Rightarrow> list_all (\<lambda>v. case v of PStr _ \<Rightarrow> True | _ \<Rightarrow> False) vs | _ \<Rightarrow> False)
      | _ \<Rightarrow> False)"

lemma strs_of_list: "list_all (\<lambda>v. case v of PStr _ \<Rightarrow> True | _ \<Rightarrow> False) vs \<Longrightarrow> \<exists>ss. vs = map PStr ss"
proof (induction vs)
  case (Cons v vs)
  then obtain ss where "vs = map PStr ss" by auto
  then show ?case using Cons.prems by (cases v) (auto intro: exI[of _ "_ # ss"])
qed simp

lemma entry_ok_owns: "entry_ok p \<Longrightarrow> \<exists>b. owns_model model p = Inr b"
proof (cases p)
  case (PDict d)
  assume "entry_ok p"
  then obtain ss where "dget_or d ''model_prefixes'' (PList []) = PList (map PStr ss)"
    using strs_of_list by (auto simp: entry_ok_def PDict split: pyval.splits)
  then show ?thesis by (simp add: owns_model_def PDict py_iter_def any_prefix_strs)
qed (simp_all add: entry_ok_def)

lemma entry_ok_adapter: "entry_ok (PDict d) \<Longrightarrow> \<exists>a. adapter_for_entry d = Inr a"
  by (auto simp: entry_ok_def adapter_for_entry_def Let_def get_adapter_by_name_def in_registry_def
      split: pyval.splits)

lemma find_named_ok:
  "(\<And>p. p \<in> set ps \<Longrightarrow> is_dict p) \<Longrightarrow> \<exists>r. find_named n ps = Inr r \<and> (\<forall>p. r = Some p \<longrightarrow> p \<in> set ps)"
proof (induction ps)
  case (Cons p ps)
  obtain d where d: "p = PDict d" using Cons.prems[of p] by (cases p) auto
  obtain r where "find_named n ps = Inr r" "\<forall>p. r = Some p \<longrightarrow> p \<in> set ps" using Cons by auto
  then show ?case by (auto simp: d)
qed simp

section \<open>What the proxy relies on in an adapter\<close>

text \<open>
  The three hooks that rewrite the parameters of a call after the strips. \<open>own\<close> are the parameters
  the adapter may add itself: no hook brings back another one that was stripped.
\<close>

locale adapter_contract =
  fixes ops :: adapter_ops and own :: "string set"
  assumes cap_keys: "ao_cap_reasoning ops p mt = Inr p' \<Longrightarrow> fst ` set p' \<subseteq> fst ` set p"
    and reserve_keys: "fst ` set (fst (ao_reserve_headroom ops p model cfg effort)) \<subseteq> fst ` set p"
    and context_keys: "ao_context_management ops p ce = Inr p' \<Longrightarrow> fst ` set p' \<subseteq> fst ` set p \<union> own"
begin

lemma outgoing_keys:
  assumes "outgoing_params_for ops params model cfg tenant = (raised, Inr out)" and "k \<in> fst ` set out"
  shows "k \<in> fst ` set (hygienic ops model cfg params) \<or> k \<in> own"
proof -
  define p5 where "p5 = hygienic ops model cfg params"
  define eff where "eff = dget_or (filter (\<lambda>kv. forwardable (fst kv)) params) ''reasoning_effort'' PNone"
  obtain p6 where p6: "ao_cap_reasoning ops p5 (dget_or p5 ''max_tokens'' PNone) = Inr p6"
    using assms(1) unfolding p5_def outgoing_params_for_def Let_def by (auto split: sum.splits)
  obtain p7 v where r: "ao_reserve_headroom ops p6 model cfg eff = (p7, v)"
    by (meson surj_pair)
  have "bind_res (context_editing_config cfg tenant) (ao_context_management ops p7) = Inr out"
    using assms(1) p6 r unfolding p5_def eff_def outgoing_params_for_def Let_def by simp
  then obtain ce where "ao_context_management ops p7 ce = Inr out" unfolding bind_res_Inr by blast
  then have "k \<in> fst ` set p7 \<or> k \<in> own" using context_keys assms(2) by blast
  then have "k \<in> fst ` set p6 \<or> k \<in> own" using reserve_keys[of p6 model cfg eff] r by auto
  then show ?thesis using cap_keys[OF p6] unfolding p5_def by blast
qed

lemma outgoing_forwardable:
  assumes "outgoing_params_for ops params model cfg tenant = (raised, Inr out)" and "k \<in> fst ` set out"
  shows "forwardable k \<or> k \<in> own"
  using outgoing_keys[OF assms] hygienic_forwardable by blast

end

text \<open>The defaults of \<open>ProviderAdapter\<close> and the config-driven adapter add nothing.\<close>

interpretation base_adapter: adapter_contract "base_ops name" "{}"
  by unfold_locales (simp_all add: base_ops_def)

interpretation generic_adapter: adapter_contract "generic_ops name entry" "{}"
  by unfold_locales (simp_all add: base_ops_def generic_ops_def)

section \<open>Properties\<close>

text \<open>
  What a client can get to a provider through the default adapter: a field of the body arrives
  exactly when the ingress admits it, it is no argument of the call, and the provider takes it; then
  it arrives unchanged, apart from the markers on the tools, and nothing else arrives.
\<close>

lemma client_fields_that_reach_a_provider:
  assumes "parse_request body extra warned = ((msgs, m, params), warned')"
    and "outgoing_params_for (base_ops name) params model cfg tenant = (raised, Inr out)"
  shows "dget out k =
    (if envelope_field k \<or> \<not> admitted extra k \<or> stripped (base_ops name) model cfg params k then None
     else if k = ''tools'' then map_option tools_without_cache_markers (dget body k)
     else dget body k)"
proof -
  have f: "forwardable k \<Longrightarrow> \<not> prefix internal_param_prefix k"
    by (simp add: forwardable_def internal_param_prefix_def)
  have out: "out = hygienic (base_ops name) model cfg params" using outgoing_base[OF assms(2)] by simp
  have nm: "ao_needs_marker (base_ops name) = False" by (simp add: base_ops_def)
  show ?thesis
  proof (cases "stripped (base_ops name) model cfg params k")
    case True
    then show ?thesis by (simp only: out dget_hygienic if_True simp_thms)
  next
    case False
    then have "\<not> prefix internal_param_prefix k" using f by (auto simp: stripped_def)
    then have "dget params k = (if envelope_field k \<or> \<not> admitted extra k then None else dget body k)"
      using marker_is_internal
      by (auto simp: parse_request_params[OF assms(1)] dget_dset split_params_dget)
    moreover have "dget out k =
        (if k = ''tools'' then map_option tools_without_cache_markers (dget params k) else dget params k)"
      using False nm by (simp only: out dget_hygienic if_False simp_thms)
    ultimately show ?thesis using False by auto
  qed
qed

lemma client_fields_that_reach_a_provider_witness:
  "dget (hygienic (base_ops ''mistral'') ''m'' (PDict []) [(''top_p'', PInt 1)]) ''top_p'' = Some (PInt 1)"
proof -
  have p: "parse_request [(''api_base'', PStr ''http://evil''), (''top_p'', PInt 1)] [] [] =
      ((PList [], PStr [], [(''top_p'', PInt 1)]), [''api_base''])" by code_simp
  have o: "outgoing_params_for (base_ops ''mistral'') [(''top_p'', PInt 1)] ''m'' (PDict []) ''default'' =
      (PNone, Inr [(''top_p'', PInt 1)])" by code_simp
  have s: "\<not> (envelope_field ''top_p'' \<or> \<not> admitted [] ''top_p'' \<or>
      stripped (base_ops ''mistral'') ''m'' (PDict []) [(''top_p'', PInt 1)] ''top_p'')" by code_simp
  have "dget [(''top_p'', PInt 1)] ''top_p'' = Some (PInt 1)"
    using client_fields_that_reach_a_provider[OF p o, of "''top_p''"] s by simp
  then show ?thesis using outgoing_base[OF o] by simp
qed

text \<open>
  A provider that does not cache by marker gets no marker on a message, on its content parts or on
  its tool calls; every other field of every message is what the client sent.
\<close>

lemma markers_reach_only_marker_providers:
  assumes "outgoing_messages_for ops (PList ms) = PList ms'"
    and "ops = None \<or> \<not> ao_needs_marker (the ops)"
    and "i < length ms'" and "ms' ! i = PDict d'"
  shows "\<not> marked_item (PDict d') \<and> \<not> any_marked False (content_of (PDict d')) \<and>
         \<not> any_marked False (dget_or d' ''tool_calls'' PNone) \<and>
         (\<exists>d. ms ! i = PDict d \<and>
            (\<forall>k. k \<notin> {cache_marker_name, ''content'', ''tool_calls''} \<longrightarrow> dget d' k = dget d k))"
proof -
  have "ms' = map message_unmarked ms"
    using assms(1,2) by (cases ops) (auto simp: outgoing_messages_for_def without_cache_markers_def)
  then have i: "message_unmarked (ms ! i) = PDict d'" using assms(3,4) by simp
  then obtain d where d: "ms ! i = PDict d" by (cases "ms ! i") (auto simp: message_unmarked_def)
  then show ?thesis
    using carries_content_clean[OF i] message_unmarked_fields[OF i[unfolded d]] by auto
qed

lemma markers_reach_only_marker_providers_witness:
  "\<not> marked_item (PDict [(''role'', PStr ''user''), (''content'', PStr ''hi'')])"
proof -
  have "outgoing_messages_for None (PList [PDict [(''role'', PStr ''user''), (''content'', PStr ''hi''),
      (''cache_control'', PDict [])]]) = PList [PDict [(''role'', PStr ''user''), (''content'', PStr ''hi'')]]"
    by code_simp
  from markers_reach_only_marker_providers[OF this, of 0 "[(''role'', PStr ''user''), (''content'', PStr ''hi'')]"]
  show ?thesis by simp
qed

text \<open>
  Every model has an adapter: with a well-formed list of providers the lookup never fails, and the
  first entry in the list that owns a prefix of the model decides, whatever the default provider is.
\<close>

lemma every_model_has_an_adapter:
  assumes "\<And>p. p \<in> set ps \<Longrightarrow> entry_ok p"
  shows "(\<exists>a. get_adapter default_provider model (PList ps) = Inr a) \<and>
         (find (\<lambda>p. owns_model model p = Inr True) ps = Some (PDict d) \<longrightarrow>
            get_adapter default_provider model (PList ps) = adapter_for_entry d)"
proof -
  have dct: "is_dict p" if "p \<in> set ps" for p
    using assms[OF that] by (cases p) (simp_all add: entry_ok_def)
  have F: "find_owner model ps = Inr (find (\<lambda>p. owns_model model p = Inr True) ps)"
    by (rule find_owner_first) (use assms entry_ok_owns in blast)
  let ?n = "case default_provider of Inr n \<Rightarrow> n | Inl _ \<Rightarrow> PStr ''openai''"
  have M: "match_entry default_provider model (PList ps) =
           (case find (\<lambda>p. owns_model model p = Inr True) ps of Some p \<Rightarrow> Inr (Some p) | None \<Rightarrow> find_named ?n ps)"
    by (simp add: match_entry_def py_iter_def F)
  have openai: "get_adapter_by_name (PStr ''openai'') = Inr (Registered ''openai'')"
    by (simp add: get_adapter_by_name_def registry_def)
  obtain r where r: "match_entry default_provider model (PList ps) = Inr r" "\<forall>p. r = Some p \<longrightarrow> p \<in> set ps"
    using find_named_ok[of ps ?n] dct M by (auto split: option.splits dest: find_Some_in)
  have "\<exists>a. get_adapter default_provider model (PList ps) = Inr a"
  proof (cases r)
    case None
    then show ?thesis using r openai
      by (auto simp: get_adapter_def lift_py_def split: sum.splits)
  next
    case (Some p)
    then have p: "p \<in> set ps" using r(2) by simp
    obtain e where "p = PDict e" using dct[OF p] by (cases p rule: pyval.exhaust) auto
    then show ?thesis using r Some assms[OF p] entry_ok_adapter by (simp add: get_adapter_def lift_py_def)
  qed
  then show ?thesis using M by (simp add: get_adapter_def lift_py_def)
qed

lemma every_model_has_an_adapter_witness:
  "get_adapter (Inr (PStr ''openai'')) ''claude-3'' (PList [PDict [(''name'', PStr ''anthropic''),
      (''model_prefixes'', PList [PStr ''claude'']) ]]) = Inr (Registered ''anthropic'')"
proof -
  let ?d = "[(''name'', PStr ''anthropic''), (''model_prefixes'', PList [PStr ''claude''])]"
  have ok: "entry_ok p" if "p \<in> set [PDict ?d]" for p
    using that by (simp add: entry_ok_def dget_or_def hashable_def)
  have f: "find (\<lambda>p. owns_model ''claude-3'' p = Inr True) [PDict ?d] = Some (PDict ?d)"
    by (simp add: owns_model_def dget_or_def py_iter_def)
  have a: "adapter_for_entry ?d = Inr (Registered ''anthropic'')" by code_simp
  have "get_adapter (Inr (PStr ''openai'')) ''claude-3'' (PList [PDict ?d]) = adapter_for_entry ?d"
    by (rule every_model_has_an_adapter[THEN conjunct2, THEN mp, OF _ f]) (rule ok)
  then show ?thesis using a by simp
qed

text \<open>
  An unknown count is never reported as zero: the cache counts of a usage are the numbers the
  provider gave, the write count under either of its two names, and absent when it gave none.
\<close>

lemma unknown_usage_is_not_zero:
  assumes "extract_usage (PDict [(''usage'', PDict usage)]) = Inr u"
    and "dget usage ''prompt_tokens_details'' = Some (PDict details)"
  shows "(u_cache_read u = None \<longleftrightarrow>
            (case dget details ''cached_tokens'' of None \<Rightarrow> True | Some v \<Rightarrow> py_int v = None)) \<and>
         (\<forall>n. dget details ''cache_write_tokens'' = Some (PInt n) \<longrightarrow> u_cache_write u = Some n) \<and>
         (dget details ''cache_write_tokens'' = None \<longrightarrow>
            u_cache_write u = (case dget details ''cache_creation_tokens'' of None \<Rightarrow> None | Some v \<Rightarrow> py_int v))"
proof -
  have ne: "usage \<noteq> []" using assms(2) by auto
  have d: "py_or (PDict details) (PDict []) = PDict details" by (simp add: py_or_def)
  have u: "u_cache_read u = first_present (PDict details) [''cached_tokens'']"
          "u_cache_write u = first_present (PDict details) [''cache_write_tokens'', ''cache_creation_tokens'']"
    using assms ne d by (auto simp: extract_usage_def dget_or_def py_or_def bind_res_Inr Let_def)
  show ?thesis unfolding u by (auto simp: first_present_def split: option.splits pyval.splits)
qed

lemma unknown_usage_is_not_zero_witness:
  "u_cache_write \<lparr>u_cached = PInt 5, u_reasoning = PInt 0, u_cache_read = Some 5, u_cache_write = None\<rparr> = None"
proof -
  have "extract_usage (PDict [(''usage'', PDict [(''prompt_tokens_details'', PDict [(''cached_tokens'', PInt 5)])])]) =
    Inr \<lparr>u_cached = PInt 5, u_reasoning = PInt 0, u_cache_read = Some 5, u_cache_write = None\<rparr>" by code_simp
  from unknown_usage_is_not_zero[OF this, of "[(''cached_tokens'', PInt 5)]"] show ?thesis by simp
qed

end
