(* ===== verification/Pipeline.thy ===== *)
theory Pipeline
  imports Config_Loader Resolver Providers
begin

text \<open>
  \<open>OptimisationPipeline\<close> of \<open>middleware/pipeline.py\<close>: how a request is prepared (tenant, caller,
  configuration, default model, adapter), which stages run on it and in which order, where it leaves
  early, and what becomes of an answer whose stage fails. The stages themselves are a parameter: \<open>run\<close>
  takes the name of a stage and the context to the context after it and the exception it raised, if
  any; on the response path \<open>rrun\<close> also takes the answer, and returns both what it left of the object
  it was given and what it returned. The log is the sequence of stage durations \<open>_run_timed\<close>
  records, failures included. Spans, log lines and the trace are left out. The lemmas show that the
  stages run in the documented order, which of them can be skipped, that a block ends the request, and
  that only the three safety stages can withhold an answer.
\<close>

section \<open>The context\<close>

record pipe_ctx =
  px_user :: string
  px_params :: pydict
  px_config :: pyval
  px_model :: string
  px_routed :: string
  px_routing_headers :: "(string \<times> string) list"
  px_tenant :: string
  px_redis_prefix :: string
  px_qdrant :: string
  px_tier :: string
  px_admin :: bool
  px_identity :: caller_identity
  px_impersonator :: "string option"
  px_overrides :: "pyval option"
  px_adapter :: "adapter option"
  px_blocked :: bool
  px_bypassed :: bool
  px_cache_hit :: bool
  px_dispatched :: bool
  px_skip :: "string list"
  px_optimised_tokens :: int
  px_final_tokens :: int
  px_provider_response :: pyval

text \<open>What surrounds a request: \<open>json.loads\<close>, the clock, the row the override query returns, the legacy
  registry of keys and the default provider.\<close>

record pipe_env =
  pe_loads :: "string \<Rightarrow> pyexc + pyval"
  pe_now :: rat
  pe_fetched :: fetch_result
  pe_registry :: "(string \<times> tenant_context) list"
  pe_default_provider :: "pyexc + pyval"

section \<open>Preparing the request\<close>

definition lower_headers :: "headers \<Rightarrow> headers" where
  "lower_headers hs = fold (\<lambda>(k, v) d. dset (py_lower k) v d) hs []"

definition text_param :: "pydict \<Rightarrow> string \<Rightarrow> string option" where
  "text_param params k = (case dget params k of Some (PStr s) \<Rightarrow> Some s | _ \<Rightarrow> None)"

definition key_facts_of :: "pydict \<Rightarrow> key_facts" where
  "key_facts_of params =
     \<lparr>auth_gateway = py_truthy (dget_or params ''_auth_gateway'' (PBool False)),
      auth_principal = text_param params ''_auth_principal'',
      auth_tenant_id = text_param params ''_auth_tenant_id''\<rparr>"

definition auth_admin :: "pydict \<Rightarrow> bool" where
  "auth_admin params = py_truthy (dget_or params ''_auth_admin'' (PBool False))"

definition tier_param :: "pydict \<Rightarrow> string" where
  "tier_param params = (case dget params ''_auth_tier'' of None \<Rightarrow> ''free'' | Some (PStr s) \<Rightarrow> s | Some _ \<Rightarrow> [])"

text \<open>The overrides the loader applied, when it applied any.\<close>

definition override_or :: "pyval option \<Rightarrow> pyval option \<Rightarrow> pyval option" where
  "override_or ov old = (case ov of None \<Rightarrow> old | Some v \<Rightarrow> Some v)"

definition resolve_caller ::
  "pipe_env \<Rightarrow> headers \<Rightarrow> 'm pipe_ctx_scheme \<Rightarrow> 'm pipe_ctx_scheme \<times> tenant_context" where
  "resolve_caller env request_headers ctx =
     (let hdrs = lower_headers request_headers;
          params = px_params ctx;
          key_tenant = text_param params ''_auth_tenant_id'';
          admin = auth_admin params;
          tier = tier_param params;
          tenant = resolve_tenant hdrs key_tenant tier admin (text_param params ''_api_key_hash'') (pe_registry env);
          header_tenant = py_strip (header_or_empty hdrs ''x-tenant-id'')
      in (ctx\<lparr>px_routing_headers := routing_header_params hdrs,
              px_tenant := tc_tenant_id tenant, px_redis_prefix := tc_redis_prefix tenant,
              px_qdrant := tc_qdrant_collection tenant, px_tier := tc_pricing_tier tenant,
              px_admin := admin, px_identity := apply_caller_identity (key_facts_of params) (px_user ctx) hdrs,
              px_impersonator :=
                (if admin \<and> header_tenant \<noteq> [] \<and> header_tenant \<noteq> str_or key_tenant []
                 then Some (str_or key_tenant ''unknown'') else px_impersonator ctx)\<rparr>, tenant))"

definition merge_tenant :: "tenant_context \<Rightarrow> pyval \<Rightarrow> pyexc + pyval" where
  "merge_tenant tenant config =
     (if tc_config_overrides tenant = [] then Inr config
      else (case config of
              PDict c \<Rightarrow> Inr (PDict (deep_merge c (tc_config_overrides tenant)))
            | _ \<Rightarrow> Inl AttributeError))"

text \<open>The tenant's default model, when the request named none. A default that is no text has no
  \<open>startswith\<close>, and is refused here with the exception the adapter lookup raises on it.\<close>

definition default_model :: "'m pipe_ctx_scheme \<Rightarrow> pyexc + 'm pipe_ctx_scheme" where
  "default_model ctx =
     (if \<not> py_truthy (dget_or (px_params ctx) ''_model_defaulted'' PNone) then Inr ctx
      else bind_res (py_get (px_config ctx) ''proxy'' (PDict [])) (\<lambda>p.
             let pcfg = py_or p (PDict []) in
             bind_res (py_get pcfg ''fallback_request_model'' PNone) (\<lambda>f.
             bind_res (py_get pcfg ''default_model'' PNone) (\<lambda>d.
               case py_or f d of
                 PStr m \<Rightarrow> if m \<noteq> [] \<and> m \<noteq> px_model ctx then Inr (ctx\<lparr>px_model := m, px_routed := m\<rparr>) else Inr ctx
               | v \<Rightarrow> if py_truthy v then Inl AttributeError else Inr ctx))))"

definition pin_adapter :: "pipe_env \<Rightarrow> 'm pipe_ctx_scheme \<Rightarrow> adapter_error + 'm pipe_ctx_scheme" where
  "pin_adapter env ctx =
     bind_res (lift_py (py_get (px_config ctx) ''providers'' (PList []))) (\<lambda>ps.
       bind_res (get_adapter (pe_default_provider env) (px_routed ctx) ps) (\<lambda>a.
         Inr (ctx\<lparr>px_adapter := Some a\<rparr>)))"

definition prepare ::
  "pipe_env \<Rightarrow> loader \<Rightarrow> headers \<Rightarrow> 'm pipe_ctx_scheme \<Rightarrow> loader \<times> (adapter_error + 'm pipe_ctx_scheme)" where
  "prepare env L request_headers ctx =
     (case resolve_caller env request_headers ctx of
        (c1, tenant) \<Rightarrow>
          (case merge_tenant tenant (px_config c1) of
             Inl e \<Rightarrow> (L, Inl (Adapter_Py e))
           | Inr cfg1 \<Rightarrow>
               (case load (pe_loads env) L (pe_now env) (px_tenant c1) (pe_fetched env) cfg1 of
                  (L', Inl e) \<Rightarrow> (L', Inl (Adapter_Py e))
                | (L', Inr (cfg2, overrides)) \<Rightarrow>
                    (let c2 = c1\<lparr>px_config := apply_operator_overlay cfg2 (px_tenant c1),
                                 px_overrides := override_or overrides (px_overrides c1)\<rparr>
                     in (L', bind_res (lift_py (default_model c2)) (pin_adapter env))))))"

section \<open>Running stages\<close>

text \<open>
  A step takes the context and the log on, and says whether the request goes on (\<open>Inr True\<close>), is
  returned (\<open>Inr False\<close>) or ends in an exception.
\<close>

type_synonym ('c, 'e) pipe_step = "'c \<times> string list \<Rightarrow> ('c \<times> string list) \<times> ('e + bool)"

datatype 'e pipe_error = Stage_Raised 'e | Entry_Raised adapter_error

definition and_then :: "('c, 'e) pipe_step \<Rightarrow> ('c, 'e) pipe_step \<Rightarrow> ('c, 'e) pipe_step" where
  "and_then f g = (\<lambda>s. case f s of (s', Inr True) \<Rightarrow> g s' | r \<Rightarrow> r)"

definition run_timed :: "(string \<Rightarrow> 'c \<Rightarrow> 'c \<times> 'e option) \<Rightarrow> string \<Rightarrow> ('c, 'e pipe_error) pipe_step" where
  "run_timed run name =
     (\<lambda>(c, lg). case run name c of
                  (c', None) \<Rightarrow> ((c', lg @ [name]), Inr True)
                | (c', Some e) \<Rightarrow> ((c', lg @ [name]), Inl (Stage_Raised e)))"

definition return_if :: "('c \<Rightarrow> bool) \<Rightarrow> ('c, 'e) pipe_step" where
  "return_if p = (\<lambda>(c, lg). ((c, lg), Inr (\<not> p c)))"

definition untimed :: "('c \<Rightarrow> 'c \<times> 'e option) \<Rightarrow> ('c, 'e pipe_error) pipe_step" where
  "untimed f = (\<lambda>(c, lg). case f c of
                             (c', None) \<Rightarrow> ((c', lg), Inr True)
                           | (c', Some e) \<Rightarrow> ((c', lg), Inl (Stage_Raised e)))"

definition repin :: "pipe_env \<Rightarrow> ('m pipe_ctx_scheme, 'e pipe_error) pipe_step" where
  "repin env = (\<lambda>(c, lg). case pin_adapter env c of
                             Inl e \<Rightarrow> ((c, lg), Inl (Entry_Raised e))
                           | Inr c' \<Rightarrow> ((c', lg), Inr True))"

fun gate_loop :: "(string \<Rightarrow> 'm pipe_ctx_scheme \<Rightarrow> 'm pipe_ctx_scheme \<times> 'e option) \<Rightarrow> string list
    \<Rightarrow> ('m pipe_ctx_scheme, 'e pipe_error) pipe_step" where
  "gate_loop run [] = (\<lambda>s. (s, Inr True))"
| "gate_loop run (name # names) =
     and_then (run_timed run name) (and_then (return_if px_bypassed)
       (and_then (return_if px_cache_hit) (gate_loop run names)))"

fun group_loop :: "(string \<Rightarrow> 'm pipe_ctx_scheme \<Rightarrow> 'm pipe_ctx_scheme \<times> 'e option) \<Rightarrow> (string \<times> string) list
    \<Rightarrow> ('m pipe_ctx_scheme, 'e pipe_error) pipe_step" where
  "group_loop run [] = (\<lambda>s. (s, Inr True))"
| "group_loop run ((name, group_name) # rest) =
     (\<lambda>s. if group_name \<in> set (px_skip (fst s)) then group_loop run rest s
          else and_then (run_timed run name) (group_loop run rest) s)"

definition gate_stages :: "string list" where
  "gate_stages = [''G04-bypass'', ''G05-cache'']"

definition stage3 :: "(string \<times> string) list" where
  "stage3 =
     [(''G01-compression'', ''G01''), (''G27-multimodal-optimizer'', ''G27''),
      (''G02-template-registry'', ''G02''), (''G20-prompt-optimizer'', ''G20''),
      (''G07-retrieval'', ''G07''), (''G08-tool-loading'', ''G08''), (''G28-ccr'', ''G28''),
      (''G19-headroom'', ''G19''), (''G09-context-schema'', ''G09''), (''G10-memory'', ''G10''),
      (''G22-deduplication'', ''G22''), (''G26-context-budget'', ''G26'')]"

definition stage4 :: "(string \<times> string) list" where
  "stage4 =
     [(''G16-agent-arch'', ''G16''), (''G11-output-format'', ''G11''), (''G25-adaptive-reasoning'', ''G25''),
      (''G12-reasoning-budget'', ''G12''), (''G13-batch'', ''G13''), (''G17-loop-control'', ''G17'')]"

text \<open>The request path; \<open>reserve\<close> is \<open>cache_floor.reserve\<close>, \<open>count\<close> the token count of the request.\<close>

definition record_estimate :: "('m pipe_ctx_scheme \<Rightarrow> int) \<Rightarrow> 'm pipe_ctx_scheme \<Rightarrow> 'm pipe_ctx_scheme" where
  "record_estimate count c = c\<lparr>px_optimised_tokens := count c, px_final_tokens := count c\<rparr>"

definition request_stages ::
  "pipe_env \<Rightarrow> (string \<Rightarrow> 'm pipe_ctx_scheme \<Rightarrow> 'm pipe_ctx_scheme \<times> 'e option)
   \<Rightarrow> ('m pipe_ctx_scheme \<Rightarrow> 'm pipe_ctx_scheme \<times> 'e option) \<Rightarrow> ('m pipe_ctx_scheme \<Rightarrow> int)
   \<Rightarrow> ('m pipe_ctx_scheme, 'e pipe_error) pipe_step" where
  "request_stages env run reserve count =
     and_then (run_timed run ''G00-rate-limit'')
     (and_then (run_timed run ''G24-adaptive-bypass'')
     (and_then (run_timed run ''G30-guardrails'')
     (and_then (return_if px_blocked)
     (and_then (run_timed run ''G29-pii-redaction'')
     (and_then (return_if px_blocked)
     (and_then (gate_loop run gate_stages)
     (and_then (run_timed run ''G06-routing'')
     (and_then (repin env)
     (and_then (run_timed run ''G24-adaptive-bypass-post-routing'')
     (and_then (run_timed run ''F2-intent-orchestration'')
     (and_then (return_if px_dispatched)
     (and_then (untimed reserve)
     (and_then (group_loop run stage3)
     (and_then (run_timed run ''G31-context-trust'')
     (and_then (return_if px_blocked)
     (and_then (group_loop run stage4)
     (and_then (run_timed run ''G21-cache-alignment'')
               (untimed (\<lambda>c. (record_estimate count c, None))))))))))))))))))))"

definition process_request ::
  "pipe_env \<Rightarrow> (string \<Rightarrow> 'm pipe_ctx_scheme \<Rightarrow> 'm pipe_ctx_scheme \<times> 'e option)
   \<Rightarrow> ('m pipe_ctx_scheme \<Rightarrow> 'm pipe_ctx_scheme \<times> 'e option) \<Rightarrow> ('m pipe_ctx_scheme \<Rightarrow> int)
   \<Rightarrow> loader \<Rightarrow> headers \<Rightarrow> 'm pipe_ctx_scheme
   \<Rightarrow> loader \<times> ('m pipe_ctx_scheme \<times> string list) \<times> ('e pipe_error + bool)" where
  "process_request env run reserve count L request_headers ctx =
     (case prepare env L request_headers ctx of
        (L', Inl e) \<Rightarrow> (L', (ctx, []), Inl (Entry_Raised e))
      | (L', Inr c) \<Rightarrow> (L', request_stages env run reserve count (c, [])))"

section \<open>The response path\<close>

type_synonym ('c, 'e) response_run = "string \<Rightarrow> 'c \<Rightarrow> pyval \<Rightarrow> 'c \<times> pyval \<times> ('e + pyval)"

text \<open>The context, the answer, the log, and the stages counted as failed.\<close>

type_synonym 'c response_state = "'c \<times> pyval \<times> string list \<times> string list"

definition safety_response_stages :: "string list" where
  "safety_response_stages = [''G29-pii-redaction-resp'', ''G30-guardrails-resp'', ''G32-tool-eligibility'']"

definition run_safety_stage ::
  "('c, 'e) response_run \<Rightarrow> string \<Rightarrow> 'c response_state \<Rightarrow> 'c response_state \<times> 'e option" where
  "run_safety_stage rrun name =
     (\<lambda>(c, r, lg, errs). case rrun name c r of
         (c', r', Inr out) \<Rightarrow> ((c', out, lg @ [name], errs), None)
       | (c', r', Inl e) \<Rightarrow> ((c', r', lg @ [name], errs @ [name]), Some e))"

definition run_skippable ::
  "('c, 'e) response_run \<Rightarrow> string \<Rightarrow> 'c response_state \<Rightarrow> 'c response_state" where
  "run_skippable rrun name =
     (\<lambda>(c, r, lg, errs). case rrun name c r of
         (c', r', Inr out) \<Rightarrow> (c', out, lg @ [name], errs)
       | (c', r', Inl e) \<Rightarrow> (c', r', lg @ [name], errs @ [name]))"

fun response_loop ::
  "('c, 'e) response_run \<Rightarrow> string list \<Rightarrow> 'c response_state \<Rightarrow> 'c response_state \<times> 'e option" where
  "response_loop rrun [] s = (s, None)"
| "response_loop rrun (name # names) s =
     (if name \<in> set safety_response_stages
      then (case run_safety_stage rrun name s of
              (s', None) \<Rightarrow> response_loop rrun names s'
            | (s', Some e) \<Rightarrow> (s', Some e))
      else response_loop rrun names (run_skippable rrun name s))"

definition loop_stages :: "string list" where
  "loop_stages =
     [''G29-pii-redaction-resp'', ''G30-guardrails-resp'', ''G32-tool-eligibility'', ''G14-tool-output'',
      ''G28-ccr-resp'', ''G23-streaming-compression'', ''G19-headroom-resp'', ''G15-server-compute'']"

text \<open>
  A stage that returns nothing (G18, the cache store) keeps the object it was given; \<open>note_called\<close> is
  \<open>record_called_tools\<close> and \<open>price\<close> is \<open>price_billed_call\<close>, whose failures are swallowed.
\<close>

definition run_recorder ::
  "('c, 'e) response_run \<Rightarrow> string \<Rightarrow> ('c \<Rightarrow> pyval \<Rightarrow> 'c) \<Rightarrow> 'c response_state \<Rightarrow> 'c response_state" where
  "run_recorder rrun name on_error =
     (\<lambda>(c, r, lg, errs). case rrun name c r of
         (c', r', Inr _) \<Rightarrow> (c', r', lg @ [name], errs)
       | (c', r', Inl _) \<Rightarrow> (on_error c' r', r', lg @ [name], errs @ [name]))"

definition process_response ::
  "('m pipe_ctx_scheme, 'e) response_run \<Rightarrow> ('m pipe_ctx_scheme \<Rightarrow> pyval \<Rightarrow> 'm pipe_ctx_scheme)
   \<Rightarrow> ('m pipe_ctx_scheme \<Rightarrow> pyval \<Rightarrow> 'm pipe_ctx_scheme) \<Rightarrow> 'm pipe_ctx_scheme \<Rightarrow> pyval
   \<Rightarrow> 'm pipe_ctx_scheme response_state \<times> 'e option" where
  "process_response rrun note_called price ctx response =
     (let c0 = note_called (ctx\<lparr>px_provider_response := response\<rparr>) response in
      case response_loop rrun loop_stages (c0, response, [], []) of
        (s, Some e) \<Rightarrow> (s, Some e)
      | (s, None) \<Rightarrow>
          (let s1 = run_skippable rrun ''G11-output-format-resp'' s;
               s2 = run_recorder rrun ''G18-observability'' price s1;
               s3 = run_recorder rrun ''G05-store-response'' (\<lambda>c r. c) s2
           in (s3, None)))"

section \<open>The order of the request stages\<close>

text \<open>
  The documented order. A stage with a group name may be left out, by that group's presence in
  \<open>skip_groups\<close>; the others may not. \<open>ran plan done log\<close> holds when the log is a run of the plan from
  its beginning, complete or cut short.
\<close>

type_synonym stage_plan = "(string \<times> string option) list"

inductive ran :: "stage_plan \<Rightarrow> bool \<Rightarrow> string list \<Rightarrow> bool" where
  ran_complete: "ran [] True []"
| ran_cut: "ran plan False []"
| ran_stage: "ran plan fin lg \<Longrightarrow> ran ((name, g) # plan) fin (name # lg)"
| ran_skipped: "ran plan fin lg \<Longrightarrow> ran ((name, Some g) # plan) fin lg"

code_pred ran .

inductive_cases ran_NilE: "ran [] fin lg"
inductive_cases ran_ConsE: "ran (p # plan) fin lg"
inductive_simps ran_Nil_simp: "ran [] fin lg"

lemmas ran_intros = ran_complete ran_cut ran_stage ran_skipped

definition always :: "string \<Rightarrow> string \<times> string option" where
  "always name = (name, None)"

definition request_plan :: stage_plan where
  "request_plan =
     map always [''G00-rate-limit'', ''G24-adaptive-bypass'', ''G30-guardrails'', ''G29-pii-redaction'',
                 ''G04-bypass'', ''G05-cache'', ''G06-routing'', ''G24-adaptive-bypass-post-routing'',
                 ''F2-intent-orchestration''] @
     map (\<lambda>(n, g). (n, Some g)) stage3 @
     [always ''G31-context-trust''] @
     map (\<lambda>(n, g). (n, Some g)) stage4 @
     [always ''G21-cache-alignment'']"

lemma ran_append_complete:
  "ran p1 True l1 \<Longrightarrow> ran p2 fin l2 \<Longrightarrow> ran (p1 @ p2) fin (l1 @ l2)"
  by (induction p1 True l1 rule: ran.induct) (auto intro: ran_intros)

lemma ran_append_cut: "ran p1 False l1 \<Longrightarrow> ran (p1 @ p2) False l1"
  by (induction p1 False l1 rule: ran.induct) (auto intro: ran_intros)

lemma ran_names: "ran plan fin lg \<Longrightarrow> set lg \<subseteq> fst ` set plan"
  by (induction rule: ran.induct) auto

text \<open>A stage that cannot be skipped has run before every stage that comes after it in the plan.\<close>

lemma ran_mandatory_before:
  assumes "ran (p1 @ (n, None) # p2) fin (l1 @ m # l2)"
    and "m \<in> fst ` set p2" "m \<notin> fst ` set p1" "m \<noteq> n"
  shows "n \<in> set l1"
  using assms
proof (induction p1 arbitrary: l1)
  case Nil
  then show ?case
    by (cases l1) (auto elim!: ran_ConsE)
next
  case (Cons p p1)
  obtain a g where p: "p = (a, g)" by (cases p)
  have R: "ran ((a, g) # (p1 @ (n, None) # p2)) fin (l1 @ m # l2)" using Cons.prems(1) p by simp
  have ne: "m \<noteq> a" "m \<notin> fst ` set p1" using Cons.prems(3) p by auto
  from R show ?case
  proof (rule ran_ConsE)
    fix lg' name g' assume 3: "(a, g) = (name, g')" "l1 @ m # l2 = name # lg'" "ran (p1 @ (n, None) # p2) fin lg'"
    then obtain l1' where l1': "l1 = a # l1'" "lg' = l1' @ m # l2"
      using ne(1) by (cases l1) auto
    then have "n \<in> set l1'" using Cons.IH[of l1'] 3(3) Cons.prems(2,4) ne(2) by simp
    then show ?thesis using l1' by simp
  next
    fix name g' assume "(a, g) = (name, Some g')" "ran (p1 @ (n, None) # p2) fin (l1 @ m # l2)"
    then show ?thesis using Cons.IH[of l1] Cons.prems(2,4) ne(2) by simp
  qed simp_all
qed

text \<open>What a step adds to the log.\<close>

definition follows :: "stage_plan \<Rightarrow> ('c, 'e) pipe_step \<Rightarrow> bool" where
  "follows plan f \<longleftrightarrow>
     (\<forall>s s' out. f s = (s', out) \<longrightarrow>
        (\<exists>lg. snd s' = snd s @ lg \<and> ran plan (out = Inr True) lg))"

lemma followsI:
  "(\<And>c l s' out. f (c, l) = (s', out) \<Longrightarrow> \<exists>lg. snd s' = l @ lg \<and> ran plan (out = Inr True) lg) \<Longrightarrow> follows plan f"
  by (auto simp: follows_def)

lemma followsD:
  "follows plan f \<Longrightarrow> f s = (s', out) \<Longrightarrow> \<exists>lg. snd s' = snd s @ lg \<and> ran plan (out = Inr True) lg"
  unfolding follows_def by blast

lemma follows_and_then:
  assumes f: "follows p1 f" and g: "follows p2 g"
  shows "follows (p1 @ p2) (and_then f g)"
proof (rule followsI)
  fix c l s' out assume A: "and_then f g (c, l) = (s', out)"
  obtain s1 o1 where F: "f (c, l) = (s1, o1)" by (cases "f (c, l)")
  obtain l1 where l1: "snd s1 = l @ l1" "ran p1 (o1 = Inr True) l1" using followsD[OF f F] by auto
  show "\<exists>lg. snd s' = l @ lg \<and> ran (p1 @ p2) (out = Inr True) lg"
  proof (cases "o1 = Inr True")
    case True
    then have G: "g s1 = (s', out)" using A F by (simp add: and_then_def)
    obtain l2 where "snd s' = snd s1 @ l2" "ran p2 (out = Inr True) l2" using followsD[OF g G] by auto
    then show ?thesis using l1 True ran_append_complete by fastforce
  next
    case False
    then have "s' = s1" "out = o1" using A F by (auto simp: and_then_def split: sum.splits bool.splits)
    then show ?thesis using l1 False ran_append_cut by fastforce
  qed
qed

lemma follows_timed: "follows [(name, g)] (run_timed run name)"
proof (rule followsI)
  fix c l s' out assume A: "run_timed run name (c, l) = (s', out)"
  then have "snd s' = l @ [name]" by (auto simp: run_timed_def split: prod.splits option.splits)
  moreover have "ran [(name, g)] b [name]" for b
    by (cases b) (auto intro: ran_intros)
  ultimately show "\<exists>lg. snd s' = l @ lg \<and> ran [(name, g)] (out = Inr True) lg" by blast
qed

lemma follows_silent:
  "(\<And>c l. snd (fst (f (c, l))) = l) \<Longrightarrow> follows [] f"
proof (rule followsI)
  fix c l s' out assume "\<And>c l. snd (fst (f (c, l))) = l" and "f (c, l) = (s', out)"
  then have "snd s' = l @ []" by (metis append_Nil2 fst_conv)
  moreover have "ran [] b []" for b by (cases b) (auto intro: ran_intros)
  ultimately show "\<exists>lg. snd s' = l @ lg \<and> ran [] (out = Inr True) lg" by blast
qed

lemma follows_return_if: "follows [] (return_if p)"
  by (rule follows_silent) (simp add: return_if_def)

lemma follows_untimed: "follows [] (untimed f)"
  by (rule follows_silent) (simp add: untimed_def split: prod.splits option.splits)

lemma follows_repin: "follows [] (repin env)"
  by (rule follows_silent) (simp add: repin_def split: sum.splits)

lemma follows_and_then_silent: "follows p1 f \<Longrightarrow> follows [] g \<Longrightarrow> follows p1 (and_then f g)"
  using follows_and_then[of p1 f "[]" g] by simp

lemma follows_silent_and_then: "follows [] f \<Longrightarrow> follows p2 g \<Longrightarrow> follows p2 (and_then f g)"
  using follows_and_then[of "[]" f p2 g] by simp

lemma follows_Cons: "follows [p] f \<Longrightarrow> follows ps g \<Longrightarrow> follows (p # ps) (and_then f g)"
  using follows_and_then[of "[p]" f ps g] by simp

lemma follows_gate_loop: "follows (map always names) (gate_loop run names)"
proof (induction names)
  case Nil
  show ?case by (simp, rule follows_silent, simp)
next
  case (Cons n ns)
  show ?case
    unfolding gate_loop.simps list.map
    by (intro follows_Cons follows_silent_and_then follows_return_if Cons.IH)
       (simp add: always_def follows_timed)
qed

lemma follows_group_loop: "follows (map (\<lambda>(n, g). (n, Some g)) plan) (group_loop run plan)"
proof (induction plan)
  case Nil
  show ?case by (simp, rule follows_silent, simp)
next
  case (Cons p ps)
  obtain n g where p: "p = (n, g)" by (cases p)
  have step: "follows ((n, Some g) # map (\<lambda>(n, g). (n, Some g)) ps) (and_then (run_timed run n) (group_loop run ps))"
    by (rule follows_Cons[OF follows_timed Cons.IH])
  show ?case
  proof (rule followsI)
    fix c l s' out assume A: "group_loop run (p # ps) (c, l) = (s', out)"
    show "\<exists>lg. snd s' = l @ lg \<and> ran (map (\<lambda>(n, g). (n, Some g)) (p # ps)) (out = Inr True) lg"
    proof (cases "g \<in> set (px_skip c)")
      case True
      then have "group_loop run ps (c, l) = (s', out)" using A by (simp add: p)
      from followsD[OF Cons.IH this] show ?thesis by (auto simp: p intro: ran_skipped)
    next
      case False
      then have "and_then (run_timed run n) (group_loop run ps) (c, l) = (s', out)" using A by (simp add: p)
      from followsD[OF step this] show ?thesis by (simp add: p)
    qed
  qed
qed

lemma follows_request_stages: "follows request_plan (request_stages env run reserve count)"
proof -
  have plan: "request_plan =
    ([(''G00-rate-limit'', None)] @ [(''G24-adaptive-bypass'', None)] @ [(''G30-guardrails'', None)] @ [] @
     [(''G29-pii-redaction'', None)] @ [] @ map always gate_stages @ [(''G06-routing'', None)] @ [] @
     [(''G24-adaptive-bypass-post-routing'', None)] @ [(''F2-intent-orchestration'', None)] @ [] @ [] @
     map (\<lambda>(n, g). (n, Some g)) stage3 @ [(''G31-context-trust'', None)] @ [] @
     map (\<lambda>(n, g). (n, Some g)) stage4 @ [(''G21-cache-alignment'', None)] @ [])"
    by (simp add: request_plan_def always_def gate_stages_def)
  show ?thesis
    unfolding plan request_stages_def
    by (intro follows_and_then follows_timed follows_return_if follows_gate_loop follows_group_loop
        follows_repin follows_untimed)
qed

lemma process_request_log:
  assumes "process_request env run reserve count L hdrs ctx = (L', (c', lg), out)"
  shows "ran request_plan (out = Inr True) lg"
proof (cases "prepare env L hdrs ctx")
  case (Pair L1 r)
  show ?thesis
  proof (cases r)
    case (Inl e)
    then show ?thesis using assms Pair by (auto simp: process_request_def intro: ran_cut)
  next
    case (Inr c)
    then have "request_stages env run reserve count (c, []) = ((c', lg), out)"
      using assms Pair by (simp add: process_request_def)
    from followsD[OF follows_request_stages this] show ?thesis by simp
  qed
qed

section \<open>Early returns\<close>

text \<open>A step whose stage \<open>n\<close>, when it runs, is the last one.\<close>

definition ends_at :: "string \<Rightarrow> ('c, 'e) pipe_step \<Rightarrow> bool" where
  "ends_at n f \<longleftrightarrow>
     (\<forall>s s' out. f s = (s', out) \<longrightarrow>
        (\<exists>lg. snd s' = snd s @ lg \<and>
          (n \<in> set lg \<longrightarrow> out \<noteq> Inr True \<and> (\<exists>l1. lg = l1 @ [n] \<and> n \<notin> set l1))))"

lemma ends_atD:
  "ends_at n f \<Longrightarrow> f s = (s', out) \<Longrightarrow>
   \<exists>lg. snd s' = snd s @ lg \<and> (n \<in> set lg \<longrightarrow> out \<noteq> Inr True \<and> (\<exists>l1. lg = l1 @ [n] \<and> n \<notin> set l1))"
  unfolding ends_at_def by blast

lemma ends_at_other:
  assumes "follows plan f" and "n \<notin> fst ` set plan"
  shows "ends_at n f"
  unfolding ends_at_def
proof (intro allI impI)
  fix s s' out assume "f s = (s', out)"
  then obtain lg where "snd s' = snd s @ lg" "ran plan (out = Inr True) lg" using followsD[OF assms(1)] by blast
  moreover from this(2) have "n \<notin> set lg" using ran_names assms(2) by blast
  ultimately show "\<exists>lg. snd s' = snd s @ lg \<and>
      (n \<in> set lg \<longrightarrow> out \<noteq> Inr True \<and> (\<exists>l1. lg = l1 @ [n] \<and> n \<notin> set l1))" by blast
qed

lemma ends_at_and_then:
  assumes f: "ends_at n f" and g: "ends_at n g"
  shows "ends_at n (and_then f g)"
  unfolding ends_at_def
proof (intro allI impI)
  fix s s' out assume A: "and_then f g s = (s', out)"
  obtain s1 o1 where F: "f s = (s1, o1)" by (cases "f s")
  obtain l1 where l1: "snd s1 = snd s @ l1"
    "n \<in> set l1 \<longrightarrow> o1 \<noteq> Inr True \<and> (\<exists>l. l1 = l @ [n] \<and> n \<notin> set l)" using ends_atD[OF f F] by blast
  show "\<exists>lg. snd s' = snd s @ lg \<and>
      (n \<in> set lg \<longrightarrow> out \<noteq> Inr True \<and> (\<exists>l1. lg = l1 @ [n] \<and> n \<notin> set l1))"
  proof (cases "o1 = Inr True")
    case True
    then have "g s1 = (s', out)" using A F by (simp add: and_then_def)
    then obtain l2 where l2: "snd s' = snd s1 @ l2"
      "n \<in> set l2 \<longrightarrow> out \<noteq> Inr True \<and> (\<exists>l. l2 = l @ [n] \<and> n \<notin> set l)" using ends_atD[OF g] by blast
    have "n \<notin> set l1" using l1(2) True by blast
    then have "snd s' = snd s @ (l1 @ l2)"
      "n \<in> set (l1 @ l2) \<longrightarrow> out \<noteq> Inr True \<and> (\<exists>l. l1 @ l2 = l @ [n] \<and> n \<notin> set l)"
      using l1(1) l2 by (simp, metis Un_iff append.assoc set_append)
    then show ?thesis by blast
  next
    case False
    then have "s' = s1" "out = o1" using A F by (auto simp: and_then_def split: sum.splits bool.splits)
    then show ?thesis using l1 by blast
  qed
qed

lemma ends_at_blocking:
  assumes "\<And>c c'. run n c = (c', None) \<Longrightarrow> p c'"
  shows "ends_at n (and_then (run_timed run n) (and_then (return_if p) g))"
  unfolding ends_at_def
proof (intro allI impI)
  fix s s' out assume A: "and_then (run_timed run n) (and_then (return_if p) g) s = (s', out)"
  obtain c l where s: "s = (c, l)" by (cases s)
  obtain c' e where r: "run n c = (c', e)" by (cases "run n c")
  have "snd s' = l @ [n] \<and> out \<noteq> Inr True"
    using A r assms[of c c'] by (cases e) (auto simp: s and_then_def run_timed_def return_if_def)
  then show "\<exists>lg. snd s' = snd s @ lg \<and>
      (n \<in> set lg \<longrightarrow> out \<noteq> Inr True \<and> (\<exists>l1. lg = l1 @ [n] \<and> n \<notin> set l1))"
    by (intro exI[of _ "[n]"]) (simp add: s)
qed

lemmas ends_at_timed = ends_at_other[OF follows_timed]
lemmas ends_at_silent =
  ends_at_other[OF follows_return_if] ends_at_other[OF follows_untimed] ends_at_other[OF follows_repin]

lemma ends_at_G30:
  "(\<And>c c'. run ''G30-guardrails'' c = (c', None) \<Longrightarrow> px_blocked c') \<Longrightarrow>
   ends_at ''G30-guardrails'' (request_stages env run reserve count)"
  unfolding request_stages_def
  by (rule ends_at_and_then[OF ends_at_timed], simp, rule ends_at_and_then[OF ends_at_timed], simp,
      rule ends_at_blocking)

lemma ends_at_G29:
  "(\<And>c c'. run ''G29-pii-redaction'' c = (c', None) \<Longrightarrow> px_blocked c') \<Longrightarrow>
   ends_at ''G29-pii-redaction'' (request_stages env run reserve count)"
  unfolding request_stages_def
  by (rule ends_at_and_then[OF ends_at_timed], simp, rule ends_at_and_then[OF ends_at_timed], simp,
      rule ends_at_and_then[OF ends_at_timed], simp, rule ends_at_and_then[OF ends_at_silent(1)], simp,
      rule ends_at_blocking)

lemma ends_at_G31:
  assumes "\<And>c c'. run ''G31-context-trust'' c = (c', None) \<Longrightarrow> px_blocked c'"
  shows "ends_at ''G31-context-trust'' (request_stages env run reserve count)"
proof -
  have g: "ends_at ''G31-context-trust'' (gate_loop run gate_stages)"
    by (rule ends_at_other[OF follows_gate_loop]) (simp add: gate_stages_def always_def)
  have h: "ends_at ''G31-context-trust'' (group_loop run stage3)"
    by (rule ends_at_other[OF follows_group_loop]) (simp add: stage3_def)
  show ?thesis
    unfolding request_stages_def
    by (intro ends_at_and_then[OF ends_at_timed] ends_at_and_then[OF ends_at_silent(1)]
        ends_at_and_then[OF ends_at_silent(2)] ends_at_and_then[OF ends_at_silent(3)]
        ends_at_and_then[OF g] ends_at_and_then[OF h] ends_at_blocking) (use assms in simp_all)
qed

lemma mandatory_first:
  assumes "ran plan fin (l1 @ m # l2)" and "plan = p1 @ (n, None) # p2"
    and "m \<notin> fst ` set p1" "m \<noteq> n"
  shows "n \<in> set l1"
proof -
  have "m \<in> fst ` set plan" using ran_names[OF assms(1)] by auto
  then have "m \<in> fst ` set p2" using assms(2-4) by auto
  then show ?thesis using ran_mandatory_before assms by blast
qed

section \<open>The response path in terms of its stages\<close>

definition response_order :: "string list" where
  "response_order = loop_stages @ [''G11-output-format-resp'', ''G18-observability'', ''G05-store-response'']"

definition after_stage :: "('c, 'e) response_run \<Rightarrow> string \<Rightarrow> 'c \<times> pyval \<Rightarrow> 'c \<times> pyval" where
  "after_stage rrun name = (\<lambda>(c, r). case rrun name c r of (c', r', Inr out) \<Rightarrow> (c', out) | (c', r', Inl _) \<Rightarrow> (c', r'))"

definition after_recorder ::
  "('c, 'e) response_run \<Rightarrow> string \<Rightarrow> ('c \<Rightarrow> pyval \<Rightarrow> 'c) \<Rightarrow> 'c \<times> pyval \<Rightarrow> 'c \<times> pyval" where
  "after_recorder rrun name on_error =
     (\<lambda>(c, r). case rrun name c r of (c', r', Inr _) \<Rightarrow> (c', r') | (c', r', Inl _) \<Rightarrow> (on_error c' r', r'))"

definition safe_stage :: "string \<Rightarrow> bool" where
  "safe_stage n \<longleftrightarrow> n \<in> set safety_response_stages"

lemma skippable_effect:
  assumes "after_stage rrun n (c, r) = (c1, r1)"
  obtains es where "run_skippable rrun n (c, r, lg, errs) = (c1, r1, lg @ [n], errs @ es)" "set es \<subseteq> {n}"
proof -
  obtain c' r' x where R: "rrun n c r = (c', r', x)" by (cases "rrun n c r")
  show ?thesis using that[of "[]"] that[of "[n]"] assms
    by (cases x) (auto simp: R run_skippable_def after_stage_def)
qed

lemma recorder_effect:
  assumes "after_recorder rrun n f (c, r) = (c1, r1)"
  obtains es where "run_recorder rrun n f (c, r, lg, errs) = (c1, r1, lg @ [n], errs @ es)" "set es \<subseteq> {n}"
proof -
  obtain c' r' x where R: "rrun n c r = (c', r', x)" by (cases "rrun n c r")
  show ?thesis using that[of "[]"] that[of "[n]"] assms
    by (cases x) (auto simp: R run_recorder_def after_recorder_def)
qed

lemma safety_effect:
  assumes "run_safety_stage rrun n (c, r, lg, errs) = (s', out)"
  shows "(out = None \<longrightarrow>
            s' = (fst (after_stage rrun n (c, r)), snd (after_stage rrun n (c, r)), lg @ [n], errs)) \<and>
         (out \<noteq> None \<longrightarrow> (\<exists>c' r'. s' = (c', r', lg @ [n], errs @ [n])))"
proof -
  obtain c' r' x where R: "rrun n c r = (c', r', x)" by (cases "rrun n c r")
  show ?thesis using assms by (cases x) (auto simp: R run_safety_stage_def after_stage_def)
qed

text \<open>How the loop ends: either every stage ran and no safety stage is among the failures, or the last
  stage that ran is a safety stage and the last failure.\<close>

definition withheld :: "string list \<Rightarrow> string list \<Rightarrow> string list \<Rightarrow> bool" where
  "withheld names lg errs \<longleftrightarrow>
     (\<exists>ns1 n ns2. names = ns1 @ n # ns2 \<and> safe_stage n \<and> lg = ns1 @ [n] \<and> errs \<noteq> [] \<and> last errs = n)"

lemma response_loop_effect:
  assumes "response_loop rrun names (c, r, lg, errs) = (s', out)"
  shows "(out = None \<longrightarrow> (\<exists>es. s' = (fst (fold (after_stage rrun) names (c, r)),
                    snd (fold (after_stage rrun) names (c, r)), lg @ names, errs @ es) \<and>
                    (\<forall>n \<in> set es. \<not> safe_stage n))) \<and>
         (out \<noteq> None \<longrightarrow> (\<exists>c' r' l es. s' = (c', r', lg @ l, errs @ es) \<and> withheld names l es))"
  using assms
proof (induction names arbitrary: c r lg errs)
  case Nil
  then show ?case by auto
next
  case (Cons n ns)
  have push: "withheld (n # ns) (n # l) (es1 @ es2)" if w: "withheld ns l es2" for l es1 es2
  proof -
    obtain ns1 m ns2 where "ns = ns1 @ m # ns2" "safe_stage m" "l = ns1 @ [m]" "es2 \<noteq> []" "last es2 = m"
      using w unfolding withheld_def by blast
    then show ?thesis unfolding withheld_def by (intro exI[of _ "n # ns1"] exI[of _ m] exI[of _ ns2]) simp
  qed
  obtain c1 r1 where a: "after_stage rrun n (c, r) = (c1, r1)" by (cases "after_stage rrun n (c, r)")
  show ?case
  proof (cases "n \<in> set safety_response_stages")
    case True
    obtain s1 o1 where S: "run_safety_stage rrun n (c, r, lg, errs) = (s1, o1)"
      by (cases "run_safety_stage rrun n (c, r, lg, errs)")
    show ?thesis
    proof (cases o1)
      case None
      then have "s1 = (c1, r1, lg @ [n], errs)" using safety_effect[OF S] a by simp
      then have "response_loop rrun ns (c1, r1, lg @ [n], errs) = (s', out)"
        using Cons.prems True S None by simp
      note IH = Cons.IH[OF this]
      show ?thesis
      proof (cases out)
        case None
        then show ?thesis using IH a by auto
      next
        case (Some e)
        then obtain c' r' l es' where "s' = (c', r', (lg @ [n]) @ l, errs @ es')" "withheld ns l es'"
          using IH by blast
        then show ?thesis using Some push[of l es' "[]"] by fastforce
      qed
    next
      case (Some e)
      then obtain c' r' where s1: "s1 = (c', r', lg @ [n], errs @ [n])" using safety_effect[OF S] by auto
      moreover have "s' = s1" "out = Some e" using Cons.prems True S Some by simp_all
      moreover have "withheld (n # ns) [n] [n]"
        unfolding withheld_def safe_stage_def using True
        by (intro exI[of _ "[]"] exI[of _ n] exI[of _ ns]) simp
      ultimately show ?thesis by blast
    qed
  next
    case False
    obtain es where S: "run_skippable rrun n (c, r, lg, errs) = (c1, r1, lg @ [n], errs @ es)" "set es \<subseteq> {n}"
      by (rule skippable_effect[OF a])
    then have "response_loop rrun ns (c1, r1, lg @ [n], errs @ es) = (s', out)"
      using Cons.prems False by simp
    note IH = Cons.IH[OF this]
    have f: "\<not> safe_stage m" if "m \<in> set es" for m using that S(2) False by (auto simp: safe_stage_def)
    show ?thesis
    proof (cases out)
      case None
      then obtain es' where "s' = (fst (fold (after_stage rrun) ns (c1, r1)),
          snd (fold (after_stage rrun) ns (c1, r1)), (lg @ [n]) @ ns, (errs @ es) @ es')"
        "\<forall>n \<in> set es'. \<not> safe_stage n" using IH by blast
      then show ?thesis using None a f by auto
    next
      case (Some e)
      then obtain c' r' l es' where "s' = (c', r', (lg @ [n]) @ l, (errs @ es) @ es')" "withheld ns l es'"
        using IH by blast
      then show ?thesis using Some push[of l es' es] by fastforce
    qed
  qed
qed

definition answer_spec ::
  "('m pipe_ctx_scheme, 'e) response_run \<Rightarrow> ('m pipe_ctx_scheme \<Rightarrow> pyval \<Rightarrow> 'm pipe_ctx_scheme)
   \<Rightarrow> ('m pipe_ctx_scheme \<Rightarrow> pyval \<Rightarrow> 'm pipe_ctx_scheme) \<Rightarrow> 'm pipe_ctx_scheme \<Rightarrow> pyval
   \<Rightarrow> 'm pipe_ctx_scheme \<times> pyval" where
  "answer_spec rrun note_called price ctx response =
     after_recorder rrun ''G05-store-response'' (\<lambda>c r. c)
       (after_recorder rrun ''G18-observability'' price
         (fold (after_stage rrun) (loop_stages @ [''G11-output-format-resp''])
           (note_called (ctx\<lparr>px_provider_response := response\<rparr>) response, response)))"

lemma late_stages_unsafe:
  "\<not> safe_stage ''G11-output-format-resp''" "\<not> safe_stage ''G18-observability''" "\<not> safe_stage ''G05-store-response''"
  by (simp_all add: safe_stage_def safety_response_stages_def)

lemma process_response_effect:
  assumes "process_response rrun note_called price ctx response = ((c, r, lg, errs), out)"
  shows "(out = None \<longrightarrow> (c, r) = answer_spec rrun note_called price ctx response \<and> lg = response_order \<and>
                          (\<forall>n \<in> set errs. \<not> safe_stage n)) \<and>
         (out \<noteq> None \<longrightarrow> withheld loop_stages lg errs)"
proof -
  define c0 where "c0 = note_called (ctx\<lparr>px_provider_response := response\<rparr>) response"
  obtain s1 o1 where L: "response_loop rrun loop_stages (c0, response, [], []) = (s1, o1)"
    by (cases "response_loop rrun loop_stages (c0, response, [], [])")
  show ?thesis
  proof (cases o1)
    case (Some e)
    then show ?thesis
      using assms response_loop_effect[OF L] L by (auto simp: process_response_def c0_def)
  next
    case None
    then obtain es c1 r1 where s1: "s1 = (c1, r1, loop_stages, es)" "\<forall>n \<in> set es. \<not> safe_stage n"
      "(c1, r1) = fold (after_stage rrun) loop_stages (c0, response)"
      using response_loop_effect[OF L] by auto
    obtain c2 r2 where a2: "after_stage rrun ''G11-output-format-resp'' (c1, r1) = (c2, r2)"
      by (cases "after_stage rrun ''G11-output-format-resp'' (c1, r1)")
    obtain c3 r3 where a3: "after_recorder rrun ''G18-observability'' price (c2, r2) = (c3, r3)"
      by (cases "after_recorder rrun ''G18-observability'' price (c2, r2)")
    obtain e2 where 2: "run_skippable rrun ''G11-output-format-resp'' (c1, r1, loop_stages, es) =
        (c2, r2, loop_stages @ [''G11-output-format-resp''], es @ e2)" "set e2 \<subseteq> {''G11-output-format-resp''}"
      by (rule skippable_effect[OF a2])
    obtain e3 where 3: "run_recorder rrun ''G18-observability'' price (c2, r2, loop_stages @ [''G11-output-format-resp''], es @ e2) =
        (c3, r3, (loop_stages @ [''G11-output-format-resp'']) @ [''G18-observability''], (es @ e2) @ e3)"
      "set e3 \<subseteq> {''G18-observability''}"
      by (rule recorder_effect[OF a3])
    obtain c4 r4 where a4: "after_recorder rrun ''G05-store-response'' (\<lambda>c r. c) (c3, r3) = (c4, r4)"
      by (cases "after_recorder rrun ''G05-store-response'' (\<lambda>c r. c) (c3, r3)")
    obtain e4 where 4: "run_recorder rrun ''G05-store-response'' (\<lambda>c r. c)
        (c3, r3, (loop_stages @ [''G11-output-format-resp'']) @ [''G18-observability''], (es @ e2) @ e3) =
        (c4, r4, ((loop_stages @ [''G11-output-format-resp'']) @ [''G18-observability'']) @ [''G05-store-response''],
         ((es @ e2) @ e3) @ e4)" "set e4 \<subseteq> {''G05-store-response''}"
      by (rule recorder_effect[OF a4])
    have P: "(c, r, lg, errs) = (c4, r4, ((loop_stages @ [''G11-output-format-resp'']) @ [''G18-observability'']) @
        [''G05-store-response''], ((es @ e2) @ e3) @ e4)" "out = None"
      using assms L None 2(1) 3(1) 4(1) by (simp_all add: process_response_def c0_def[symmetric] s1(1))
    have "answer_spec rrun note_called price ctx response = (c4, r4)"
      using s1(3) a2 a3 a4 by (simp add: answer_spec_def c0_def[symmetric] flip: s1(3))
    moreover have "\<forall>n \<in> set errs. \<not> safe_stage n"
      using P(1) s1(2) 2(2) 3(2) 4(2) late_stages_unsafe by auto
    ultimately show ?thesis using P by (simp add: response_order_def)
  qed
qed

section \<open>What headers can choose\<close>

definition forget_hints :: "'m pipe_ctx_scheme \<Rightarrow> 'm pipe_ctx_scheme" where
  "forget_hints c = c\<lparr>px_routing_headers := []\<rparr>"

lemma default_model_hints:
  "default_model (c\<lparr>px_routing_headers := h\<rparr>) = map_sum id (\<lambda>c. c\<lparr>px_routing_headers := h\<rparr>) (default_model c)"
  by (simp add: default_model_def bind_res_def Let_def split: sum.split pyval.split)

lemma pin_adapter_hints:
  "pin_adapter env (c\<lparr>px_routing_headers := h\<rparr>) = map_sum id (\<lambda>c. c\<lparr>px_routing_headers := h\<rparr>) (pin_adapter env c)"
  by (simp add: pin_adapter_def bind_res_def split: sum.split)

lemma resolve_caller_hints:
  assumes "\<not> auth_admin (px_params ctx)" and "\<not> auth_gateway (key_facts_of (px_params ctx))"
  shows "resolve_caller env hdrs ctx =
    (case resolve_caller env [] ctx of
       (c, t) \<Rightarrow> (c\<lparr>px_routing_headers := routing_header_params (lower_headers hdrs)\<rparr>, t))"
proof -
  have "apply_caller_identity (key_facts_of (px_params ctx)) (px_user ctx) (lower_headers hdrs) =
        apply_caller_identity (key_facts_of (px_params ctx)) (px_user ctx) (lower_headers [])"
    using assms(2) by (simp add: apply_caller_identity_def resolve_team_def)
  then show ?thesis
    using assms(1) resolve_tenant_no_admin[of "lower_headers hdrs"]
      resolve_tenant_no_admin[of "lower_headers []"]
    by (cases ctx) (simp add: resolve_caller_def Let_def)
qed

lemma prepare_hints:
  assumes "\<not> auth_admin (px_params ctx)" and "\<not> auth_gateway (key_facts_of (px_params ctx))"
  shows "prepare env L hdrs ctx =
    (case prepare env L [] ctx of
       (L', r) \<Rightarrow> (L', map_sum id (\<lambda>c. c\<lparr>px_routing_headers := routing_header_params (lower_headers hdrs)\<rparr>) r))"
proof -
  define h where "h = routing_header_params (lower_headers hdrs)"
  obtain c t where C: "resolve_caller env [] ctx = (c, t)" by (cases "resolve_caller env [] ctx")
  have C': "resolve_caller env hdrs ctx = (c\<lparr>px_routing_headers := h\<rparr>, t)"
    using resolve_caller_hints[OF assms, of env hdrs] C by (simp add: h_def)
  show ?thesis
  proof (cases "merge_tenant t (px_config c)")
    case (Inl e)
    then show ?thesis by (simp add: prepare_def C C')
  next
    case (Inr cfg)
    obtain L1 x where X: "load (pe_loads env) L (pe_now env) (px_tenant c) (pe_fetched env) cfg = (L1, x)"
      by (cases "load (pe_loads env) L (pe_now env) (px_tenant c) (pe_fetched env) cfg")
    show ?thesis
    proof (cases x)
      case (Inl e)
      then show ?thesis by (simp add: prepare_def C C' Inr X)
    next
      case (Inr y)
      obtain cfg2 ov where y: "y = (cfg2, ov)" by (cases y)
      define c2 where "c2 = c\<lparr>px_config := apply_operator_overlay cfg2 (px_tenant c),
          px_overrides := override_or ov (px_overrides c)\<rparr>"
      have u: "c\<lparr>px_routing_headers := h, px_config := apply_operator_overlay cfg2 (px_tenant c),
          px_overrides := override_or ov (px_overrides c)\<rparr> = c2\<lparr>px_routing_headers := h\<rparr>"
        by (cases c) (simp add: c2_def)
      have "bind_res (lift_py (default_model (c2\<lparr>px_routing_headers := h\<rparr>))) (pin_adapter env) =
            map_sum id (\<lambda>c. c\<lparr>px_routing_headers := h\<rparr>) (bind_res (lift_py (default_model c2)) (pin_adapter env))"
        by (cases "default_model c2") (simp_all add: default_model_hints lift_py_def pin_adapter_hints)
      then show ?thesis
        using \<open>merge_tenant t (px_config c) = Inr cfg\<close>
        by (simp add: prepare_def C C' X Inr y Let_def u c2_def[symmetric] h_def[symmetric])
    qed
  qed
qed

definition with_default :: "'m pipe_ctx_scheme \<Rightarrow> pyval \<Rightarrow> pyexc + 'm pipe_ctx_scheme" where
  "with_default ctx v =
     (case v of
        PStr m \<Rightarrow> if m \<noteq> [] \<and> m \<noteq> px_model ctx then Inr (ctx\<lparr>px_model := m, px_routed := m\<rparr>) else Inr ctx
      | v \<Rightarrow> if py_truthy v then Inl AttributeError else Inr ctx)"

lemma with_default_frame:
  "with_default c v = Inr c' \<Longrightarrow> px_tenant c' = px_tenant c \<and> px_redis_prefix c' = px_redis_prefix c"
  by (cases v) (auto simp: with_default_def split: if_splits)

lemma default_model_frame:
  assumes "default_model c = Inr c'"
  shows "px_tenant c' = px_tenant c \<and> px_redis_prefix c' = px_redis_prefix c"
proof (cases "py_truthy (dget_or (px_params c) ''_model_defaulted'' PNone)")
  case True
  then have "\<exists>v. with_default c v = Inr c'"
    using assms unfolding default_model_def Let_def with_default_def[symmetric]
    by (simp only: if_False simp_thms bind_res_Inr) blast
  then show ?thesis using with_default_frame by blast
next
  case False
  then have "c' = c" using assms unfolding default_model_def by (simp only: if_True simp_thms sum.inject)
  then show ?thesis by simp
qed

lemma pin_adapter_frame:
  "pin_adapter env c = Inr c' \<Longrightarrow> px_tenant c' = px_tenant c \<and> px_redis_prefix c' = px_redis_prefix c"
  by (auto simp: pin_adapter_def bind_res_Inr)

lemma prepare_tenant:
  assumes "prepare env L hdrs ctx = (L', Inr c)"
  shows "px_tenant c = tc_tenant_id (snd (resolve_caller env hdrs ctx)) \<and>
         px_redis_prefix c = tc_redis_prefix (snd (resolve_caller env hdrs ctx))"
proof -
  obtain c1 t where C: "resolve_caller env hdrs ctx = (c1, t)" by (cases "resolve_caller env hdrs ctx")
  then have t: "px_tenant c1 = tc_tenant_id t" "px_redis_prefix c1 = tc_redis_prefix t"
    by (auto simp: resolve_caller_def Let_def)
  obtain cfg where M: "merge_tenant t (px_config c1) = Inr cfg"
    using assms C by (cases "merge_tenant t (px_config c1)") (auto simp: prepare_def)
  obtain cfg2 ov where X: "load (pe_loads env) L (pe_now env) (px_tenant c1) (pe_fetched env) cfg = (L', Inr (cfg2, ov))"
    using assms C M by (auto simp: prepare_def split: prod.splits sum.splits)
  define c2 where "c2 = c1\<lparr>px_config := apply_operator_overlay cfg2 (px_tenant c1),
      px_overrides := override_or ov (px_overrides c1)\<rparr>"
  have "bind_res (lift_py (default_model c2)) (pin_adapter env) = Inr c"
    using assms C M X by (simp add: prepare_def Let_def c2_def)
  then obtain c3 where "default_model c2 = Inr c3" "pin_adapter env c3 = Inr c"
    by (auto simp: bind_res_Inr lift_py_def split: sum.splits)
  then show ?thesis
    using default_model_frame[of c2 c3] pin_adapter_frame[of env c3 c] t by (simp add: C c2_def)
qed

section \<open>Properties\<close>

text \<open>
  C19. Whatever the stages do and whatever \<open>skip_groups\<close> holds, the guards come first: a stage other than
  rate limiting, the first bypass pass and the injection guard runs only after the injection guard, one
  that is also not PII redaction only after redaction, and the stages that shape the call only after the
  scan of injected context. In a finished run only the optimisation groups can be missing.
\<close>

theorem guards_precede_everything_they_guard:
  assumes "process_request env run reserve count L hdrs ctx = (L', (c', l1 @ m # l2), out)"
  shows "(m \<notin> {''G00-rate-limit'', ''G24-adaptive-bypass'', ''G30-guardrails''} \<longrightarrow>
            ''G30-guardrails'' \<in> set l1 \<and> (m \<noteq> ''G29-pii-redaction'' \<longrightarrow> ''G29-pii-redaction'' \<in> set l1)) \<and>
         (m \<in> fst ` set stage4 \<union> {''G21-cache-alignment''} \<longrightarrow> ''G31-context-trust'' \<in> set l1) \<and>
         ran request_plan (out = Inr True) (l1 @ m # l2)"
proof -
  note R = process_request_log[OF assms]
  let ?p = "map always [''G00-rate-limit'', ''G24-adaptive-bypass'']"
  obtain p2 where p2: "request_plan = ?p @ (''G30-guardrails'', None) # p2"
    "request_plan = (?p @ [(''G30-guardrails'', None)]) @ (''G29-pii-redaction'', None) # tl p2"
    by (simp add: request_plan_def always_def)
  let ?q = "map always [''G00-rate-limit'', ''G24-adaptive-bypass'', ''G30-guardrails'', ''G29-pii-redaction'',
                 ''G04-bypass'', ''G05-cache'', ''G06-routing'', ''G24-adaptive-bypass-post-routing'',
                 ''F2-intent-orchestration''] @ map (\<lambda>(n, g). (n, Some g)) stage3"
  have q: "request_plan = ?q @ (''G31-context-trust'', None) #
      (map (\<lambda>(n, g). (n, Some g)) stage4 @ [always ''G21-cache-alignment''])"
    by (simp add: request_plan_def always_def)
  have "''G30-guardrails'' \<in> set l1"
    if "m \<notin> {''G00-rate-limit'', ''G24-adaptive-bypass'', ''G30-guardrails''}"
    by (rule mandatory_first[OF R p2(1)]) (use that in \<open>auto simp: always_def\<close>)
  moreover have "''G29-pii-redaction'' \<in> set l1"
    if "m \<notin> {''G00-rate-limit'', ''G24-adaptive-bypass'', ''G30-guardrails'', ''G29-pii-redaction''}"
    by (rule mandatory_first[OF R p2(2)]) (use that in \<open>auto simp: always_def\<close>)
  moreover have "''G31-context-trust'' \<in> set l1"
    if "m \<in> fst ` set stage4 \<union> {''G21-cache-alignment''}"
  proof (rule mandatory_first[OF R q])
    have "(fst ` set stage4 \<union> {''G21-cache-alignment''}) \<inter> (fst ` set ?q \<union> {''G31-context-trust''}) = {}"
      by code_simp
    then show "m \<notin> fst ` set ?q" "m \<noteq> ''G31-context-trust''" using that by blast+
  qed
  ultimately show ?thesis using R by auto
qed

definition sample_ctx :: pipe_ctx where
  "sample_ctx =
     \<lparr>px_user = ''u'', px_params = [(''_auth_tenant_id'', PStr ''acme'')], px_config = PDict [],
      px_model = ''gpt-4o'', px_routed = ''gpt-4o'', px_routing_headers = [], px_tenant = ''default'',
      px_redis_prefix = [], px_qdrant = ''rag_docs'', px_tier = ''free'', px_admin = False,
      px_identity = \<lparr>ci_is_gateway = False, ci_principal = [], ci_team = []\<rparr>, px_impersonator = None,
      px_overrides = None, px_adapter = None, px_blocked = False, px_bypassed = False, px_cache_hit = False,
      px_dispatched = False, px_skip = [''G30'', ''G01''], px_optimised_tokens = 0, px_final_tokens = 0,
      px_provider_response = PNone\<rparr>"

definition sample_env :: pipe_env where
  "sample_env = \<lparr>pe_loads = (\<lambda>_. Inl ValueError), pe_now = 0, pe_fetched = Inr None, pe_registry = [],
                 pe_default_provider = Inr (PStr ''openai'')\<rparr>"

definition idle_stage :: "string \<Rightarrow> pipe_ctx \<Rightarrow> pipe_ctx \<times> unit option" where
  "idle_stage name c = (c, None)"

definition idle_log :: "string list" where
  "idle_log = filter (\<lambda>n. n \<noteq> ''G01-compression'') (map fst request_plan)"

lemma sample_prepare:
  "map_sum id px_redis_prefix (snd (prepare sample_env (new_loader False 60) [] sample_ctx)) = Inr ''t:acme:''"
  by code_simp

lemma sample_run:
  "snd (fst (snd (process_request sample_env idle_stage (\<lambda>c. (c, None)) (\<lambda>_. 7) (new_loader False 60) [] sample_ctx)))
   = idle_log"
  by code_simp

lemma guards_precede_everything_they_guard_witness:
  "''G31-context-trust'' \<in> set (butlast idle_log)"
proof -
  obtain L' c' lg out where P: "process_request sample_env idle_stage (\<lambda>c. (c, None)) (\<lambda>_. 7) (new_loader False 60) []
      sample_ctx = (L', (c', lg), out)" by (metis prod.collapse)
  then have "lg = butlast idle_log @ ''G21-cache-alignment'' # []" using sample_run by (simp, code_simp)
  from guards_precede_everything_they_guard[OF P[unfolded this]] show ?thesis by simp
qed

text \<open>
  A guard that blocks ends the request: if the injection guard, PII redaction or the context scan
  blocks whatever it is given, no stage runs after it and the request never reaches the model.
\<close>

lemma blocked_request_goes_no_further:
  assumes "n \<in> {''G30-guardrails'', ''G29-pii-redaction'', ''G31-context-trust''}"
    and "\<And>c c'. run n c = (c', None) \<Longrightarrow> px_blocked c'"
    and "process_request env run reserve count L hdrs ctx = (L', (c', l1 @ n # l2), out)"
  shows "l2 = [] \<and> out \<noteq> Inr True"
proof -
  have E: "ends_at n (request_stages env run reserve count)"
    using assms(1,2) ends_at_G30[of run env reserve count] ends_at_G29[of run env reserve count]
      ends_at_G31[of run env reserve count] by auto
  obtain L1 c where "prepare env L hdrs ctx = (L1, Inr c)"
    using assms(3) by (cases "prepare env L hdrs ctx"; cases "snd (prepare env L hdrs ctx)")
      (auto simp: process_request_def)
  then have "request_stages env run reserve count (c, []) = ((c', l1 @ n # l2), out)"
    using assms(3) by (simp add: process_request_def)
  from ends_atD[OF E this] obtain l where "out \<noteq> Inr True" "l1 @ n # l2 = l @ [n]" "n \<notin> set l" by auto
  then show ?thesis
    by (metis append_butlast_last_id butlast_append butlast_snoc in_set_conv_decomp list.distinct(1) butlast.simps(2) )
qed

definition blocking_stage :: "string \<Rightarrow> pipe_ctx \<Rightarrow> pipe_ctx \<times> unit option" where
  "blocking_stage name c = (c\<lparr>px_blocked := (name = ''G29-pii-redaction'')\<rparr>, None)"

lemma blocked_run:
  "snd (fst (snd (process_request sample_env blocking_stage (\<lambda>c. (c, None)) (\<lambda>_. 7) (new_loader False 60) [] sample_ctx)))
   = [''G00-rate-limit'', ''G24-adaptive-bypass'', ''G30-guardrails'', ''G29-pii-redaction'']"
  by code_simp

lemma blocked_request_goes_no_further_witness:
  "snd (snd (process_request sample_env blocking_stage (\<lambda>c. (c, None)) (\<lambda>_. 7) (new_loader False 60) [] sample_ctx))
   \<noteq> Inr True"
proof -
  obtain L' c' lg out where P: "process_request sample_env blocking_stage (\<lambda>c. (c, None)) (\<lambda>_. 7) (new_loader False 60) []
      sample_ctx = (L', (c', lg), out)" by (metis prod.collapse)
  then have lg: "lg = [''G00-rate-limit'', ''G24-adaptive-bypass'', ''G30-guardrails''] @ ''G29-pii-redaction'' # []"
    using blocked_run by simp
  have "out \<noteq> Inr True"
    using blocked_request_goes_no_further[OF _ _ P[unfolded lg]] by (simp add: blocking_stage_def)
  then show ?thesis using P by simp
qed

text \<open>
  C20. Only the three safety stages withhold an answer. If none of them fails, every response stage runs,
  in the documented order, and the answer is what they make of it one after the other, a failing stage
  leaving what it had completed. If one fails, it is the last stage that ran, and the request ends.
\<close>

theorem only_safety_stages_withhold_an_answer:
  assumes "process_response rrun note_called price ctx response = ((c, r, lg, errs), out)"
  shows "(out = None \<longrightarrow> (c, r) = answer_spec rrun note_called price ctx response \<and> lg = response_order \<and>
                          set errs \<inter> set safety_response_stages = {}) \<and>
         (out \<noteq> None \<longrightarrow> last errs \<in> set safety_response_stages \<and> last lg = last errs \<and>
                          (\<exists>k. lg = take k loop_stages))"
proof -
  note E = process_response_effect[OF assms]
  have "last errs \<in> set safety_response_stages \<and> last lg = last errs \<and> (\<exists>k. lg = take k loop_stages)"
    if w0: "withheld loop_stages lg errs"
  proof -
    obtain ns1 n ns2 where w: "loop_stages = ns1 @ n # ns2" "safe_stage n" "lg = ns1 @ [n]" "last errs = n"
      using w0 unfolding withheld_def by blast
    have "take (Suc (length ns1)) (ns1 @ n # ns2) = ns1 @ [n]" by simp
    then have "lg = take (Suc (length ns1)) loop_stages" unfolding w(1) w(3) by (rule sym)
    moreover have "last lg = n" by (simp add: w(3))
    ultimately show ?thesis using w(2,4) by (auto simp: safe_stage_def)
  qed
  then show ?thesis using E by (auto simp: safe_stage_def)
qed

definition failing_stage :: "string \<Rightarrow> string \<Rightarrow> pipe_ctx \<Rightarrow> pyval \<Rightarrow> pipe_ctx \<times> pyval \<times> (unit + pyval)" where
  "failing_stage bad name c r = (c, r, if name = bad then Inl () else Inr r)"

lemma only_safety_stages_withhold_an_answer_witness:
  "fst (process_response (failing_stage ''G15-server-compute'') (\<lambda>c r. c) (\<lambda>c r. c) sample_ctx (PStr ''a'')) =
   (sample_ctx\<lparr>px_provider_response := PStr ''a''\<rparr>, PStr ''a'', response_order, [''G15-server-compute''])"
proof -
  obtain c r lg errs out where P: "process_response (failing_stage ''G15-server-compute'') (\<lambda>c r. c) (\<lambda>c r. c) sample_ctx
      (PStr ''a'') = ((c, r, lg, errs), out)" by (metis prod.collapse)
  moreover have "snd (process_response (failing_stage ''G15-server-compute'') (\<lambda>c r. c) (\<lambda>c r. c) sample_ctx (PStr ''a'')) = None"
    "snd (snd (snd (fst (process_response (failing_stage ''G15-server-compute'') (\<lambda>c r. c) (\<lambda>c r. c) sample_ctx (PStr ''a'')))))
     = [''G15-server-compute'']"
    by code_simp+
  moreover have "answer_spec (failing_stage ''G15-server-compute'') (\<lambda>c r. c) (\<lambda>c r. c) sample_ctx (PStr ''a'') =
      (sample_ctx\<lparr>px_provider_response := PStr ''a''\<rparr>, PStr ''a'')"
    by (simp add: answer_spec_def loop_stages_def after_stage_def after_recorder_def failing_stage_def)
  ultimately show ?thesis using only_safety_stages_withhold_an_answer[OF P] by simp
qed

text \<open>
  For a key without the admin scope and without the gateway flag the headers choose nothing but
  routing hints: the tenant, its namespace, the caller, the team, the configuration, the model and the
  adapter are the ones an empty set of headers gives, and the namespace is the one of the tenant.
\<close>

lemma headers_choose_only_routing_hints:
  assumes "\<not> auth_admin (px_params ctx)" and "\<not> auth_gateway (key_facts_of (px_params ctx))"
    and "\<And>h tc. dget (pe_registry env) h = Some tc \<Longrightarrow> context_ok tc"
  shows "fst (prepare env L hdrs ctx) = fst (prepare env L hdrs' ctx) \<and>
         map_sum id forget_hints (snd (prepare env L hdrs ctx)) =
         map_sum id forget_hints (snd (prepare env L hdrs' ctx)) \<and>
         (\<forall>c. snd (prepare env L hdrs ctx) = Inr c \<longrightarrow>
            safe_id (px_tenant c) \<and> px_redis_prefix c = redis_prefix_of (px_tenant c))"
proof -
  have f: "map_sum id forget_hints (map_sum id (\<lambda>c. c\<lparr>px_routing_headers := h\<rparr>) r) = map_sum id forget_hints r"
    for h and r :: "adapter_error + 'a pipe_ctx_scheme"
    by (cases r) (simp_all add: forget_hints_def)
  have "safe_id (px_tenant c) \<and> px_redis_prefix c = redis_prefix_of (px_tenant c)"
    if "snd (prepare env L hdrs ctx) = Inr c" for c
  proof -
    have "prepare env L hdrs ctx = (fst (prepare env L hdrs ctx), Inr c)" using that by (metis prod.collapse)
    moreover have "context_ok (snd (resolve_caller env hdrs ctx))"
      using resolve_tenant_ok[of "pe_registry env"] assms(3) by (simp add: resolve_caller_def Let_def)
    ultimately show ?thesis using prepare_tenant[of env L hdrs ctx] by (simp add: context_ok_def)
  qed
  then show ?thesis
    using prepare_hints[OF assms(1,2), of env L hdrs] prepare_hints[OF assms(1,2), of env L hdrs'] f
    by (simp split: prod.splits)
qed

lemma headers_choose_only_routing_hints_witness:
  "map_sum id px_redis_prefix (snd (prepare sample_env (new_loader False 60) [(''X-Tenant-ID'', ''victim'')] sample_ctx))
   = Inr ''t:acme:''"
proof -
  have "map_sum id forget_hints (snd (prepare sample_env (new_loader False 60) [(''X-Tenant-ID'', ''victim'')] sample_ctx)) =
        map_sum id forget_hints (snd (prepare sample_env (new_loader False 60) [] sample_ctx))"
    by (rule headers_choose_only_routing_hints[THEN conjunct2, THEN conjunct1])
      (simp_all add: sample_ctx_def sample_env_def auth_admin_def key_facts_of_def dget_or_def)
  moreover have "map_sum id px_redis_prefix (r :: adapter_error + pipe_ctx) =
      map_sum id px_redis_prefix (map_sum id forget_hints r)" for r
    by (cases r) (simp_all add: forget_hints_def)
  ultimately show ?thesis using sample_prepare by metis
qed

end
