(* ===== verification/Adaptive_Bypass.thy ===== *)
theory Adaptive_Bypass
  imports Pipeline
begin

text \<open>
  \<open>middleware/g24_adaptive_bypass.py\<close>: the rules that put optimisation groups of a request on
  \<open>skip_groups\<close>, in a first pass before routing and a second one after it, and the reload of the rules
  on a timer. Where the rules come from is a parameter (\<open>rules_source\<close>: the file, or else the bucket
  when one is set); so are the clock and the token count. A failed reload keeps the old rules for the
  interval. The log line of a match joins the groups and the reasons, so a matched rule whose group or
  reason is no text raises, as in the code; the savings step it records saves nothing and is left out.
\<close>

section \<open>Loading the rules\<close>

record g24 =
  g24_rules :: pyval
  g24_last_loaded :: rat

definition new_g24 :: g24 where
  "new_g24 = \<lparr>g24_rules = PList [], g24_last_loaded = 0\<rparr>"

definition reload_interval :: rat where "reload_interval = 60"

definition due :: "g24 \<Rightarrow> rat \<Rightarrow> bool" where
  "due g now \<longleftrightarrow> g24_last_loaded g = 0 \<or> now - g24_last_loaded g \<ge> reload_interval"

text \<open>The rules file, or without one what the bucket gives when \<open>CONFIG_GCS_BUCKET\<close> is set: the parsed
  document or an exception.\<close>

datatype rules_source = Rules_File "pyexc + pyval" | No_File "(pyexc + pyval) option"

definition rules_of :: "pyval \<Rightarrow> pyexc + pyval" where
  "rules_of document =
     bind_res (py_get (py_or document (PDict [])) ''adaptive_bypass'' (PDict [])) (\<lambda>ab.
       bind_res (py_get ab ''enabled'' (PBool True)) (\<lambda>en.
         if py_truthy en then py_get ab ''rules'' (PList []) else Inr (PList [])))"

definition load_rules :: "g24 \<Rightarrow> rat \<Rightarrow> rules_source \<Rightarrow> g24" where
  "load_rules g now src =
     (let loaded = (case src of
                      Rules_File r \<Rightarrow> (case bind_res r rules_of of Inr v \<Rightarrow> v | Inl _ \<Rightarrow> g24_rules g)
                    | No_File None \<Rightarrow> PList []
                    | No_File (Some r) \<Rightarrow> (case bind_res r rules_of of Inr v \<Rightarrow> v | Inl _ \<Rightarrow> PList []))
      in \<lparr>g24_rules = loaded, g24_last_loaded = now\<rparr>)"

definition refresh_rules :: "g24 \<Rightarrow> rat \<Rightarrow> rules_source \<Rightarrow> g24" where
  "refresh_rules g now src = (if due g now then load_rules g now src else g)"

section \<open>Matching\<close>

definition below_min :: "int \<Rightarrow> pyval \<Rightarrow> pyexc + bool" where
  "below_min tokens v = bind_res (py_num v) (\<lambda>n. Inr (0 < n \<and> of_int tokens < n))"

definition above_max :: "int \<Rightarrow> pyval \<Rightarrow> pyexc + bool" where
  "above_max tokens v = bind_res (py_num v) (\<lambda>n. Inr (0 < n \<and> n < of_int tokens))"

text \<open>Neither name is listed; an empty list restricts nothing.\<close>

definition none_listed :: "string list \<Rightarrow> pyval \<Rightarrow> pyexc + bool" where
  "none_listed names listed =
     (if \<not> py_truthy listed then Inr False
      else fold (\<lambda>n r. bind_res r (\<lambda>b. if b then map_sum id Not (contains (PStr n) listed) else Inr False))
             names (Inr True))"

definition request_dataset :: "pydict \<Rightarrow> pyval" where
  "request_dataset params = dget_or params ''x_dataset'' (dget_or params ''dataset_id'' (PStr []))"

definition other_dataset :: "pydict \<Rightarrow> pyval \<Rightarrow> pyexc + bool" where
  "other_dataset params datasets =
     (if \<not> py_truthy datasets then Inr False
      else if \<not> py_truthy (request_dataset params) then Inr True
      else map_sum id Not (contains (request_dataset params) datasets))"

fun first_refusal :: "(pyexc + bool) list \<Rightarrow> pyexc + bool" where
  "first_refusal [] = Inr True"
| "first_refusal (c # cs) = bind_res c (\<lambda>b. if b then Inr False else first_refusal cs)"

definition matches :: "int \<Rightarrow> 'm pipe_ctx_scheme \<Rightarrow> pyval \<Rightarrow> pyexc + bool" where
  "matches tokens ctx rule =
     bind_res (py_get rule ''conditions'' (PDict [])) (\<lambda>conditions.
       if \<not> py_truthy conditions then Inr True
       else first_refusal
         [bind_res (py_get conditions ''min_prompt_tokens'' (PInt 0)) (below_min tokens),
          bind_res (py_get conditions ''max_prompt_tokens'' (PInt 0)) (above_max tokens),
          bind_res (py_get conditions ''models'' (PList [])) (none_listed [px_model ctx, px_routed ctx]),
          bind_res (py_get conditions ''tenants'' (PList [])) (none_listed [px_tenant ctx]),
          bind_res (py_get conditions ''datasets'' (PList [])) (other_dataset (px_params ctx))])"

section \<open>The two passes\<close>

text \<open>\<open>skip_groups\<close> holds texts; a truthy group that is no text is noted as matched and raises later.\<close>

definition add_group :: "pyval \<Rightarrow> string list \<Rightarrow> string list" where
  "add_group g skip = (case g of PStr s \<Rightarrow> skip @ [s] | _ \<Rightarrow> skip)"

definition already :: "pyval \<Rightarrow> string list \<Rightarrow> bool" where
  "already g skip \<longleftrightarrow> (case g of PStr s \<Rightarrow> s \<in> set skip | _ \<Rightarrow> False)"

definition rule_enabled :: "pyval \<Rightarrow> pyexc + bool" where
  "rule_enabled rule = map_sum id py_truthy (py_get rule ''enabled'' (PBool True))"

definition rule_group :: "pyval \<Rightarrow> pyexc + pyval" where
  "rule_group rule = py_get rule ''group'' (PStr [])"

text \<open>The groups to skip and the rules that matched, in the order of the rules.\<close>

fun first_pass :: "int \<Rightarrow> 'm pipe_ctx_scheme \<Rightarrow> string list \<Rightarrow> pyval list \<Rightarrow> pyexc + string list \<times> pyval list" where
  "first_pass tokens ctx skip [] = Inr (skip, [])"
| "first_pass tokens ctx skip (rule # rules) =
     bind_res (rule_enabled rule) (\<lambda>en.
       if \<not> en then first_pass tokens ctx skip rules
       else bind_res (matches tokens ctx rule) (\<lambda>m.
         if \<not> m then first_pass tokens ctx skip rules
         else bind_res (rule_group rule) (\<lambda>g.
           if py_truthy g \<and> \<not> already g skip
           then map_sum id (\<lambda>(sk, ms). (sk, rule # ms)) (first_pass tokens ctx (add_group g skip) rules)
           else first_pass tokens ctx skip rules)))"

fun second_pass :: "int \<Rightarrow> 'm pipe_ctx_scheme \<Rightarrow> string list \<Rightarrow> pyval list \<Rightarrow> pyexc + string list \<times> pyval list" where
  "second_pass tokens ctx skip [] = Inr (skip, [])"
| "second_pass tokens ctx skip (rule # rules) =
     bind_res (rule_enabled rule) (\<lambda>en.
       if \<not> en then second_pass tokens ctx skip rules
       else bind_res (rule_group rule) (\<lambda>g.
         if \<not> py_truthy g \<or> already g skip then second_pass tokens ctx skip rules
         else bind_res (matches tokens ctx rule) (\<lambda>m.
           if m then map_sum id (\<lambda>(sk, ms). (sk, rule # ms)) (second_pass tokens ctx (add_group g skip) rules)
           else second_pass tokens ctx skip rules)))"

text \<open>The line that logs a match joins texts.\<close>

definition is_text :: "pyval \<Rightarrow> bool" where
  "is_text v \<longleftrightarrow> (case v of PStr _ \<Rightarrow> True | _ \<Rightarrow> False)"

definition loggable :: "pyval \<Rightarrow> bool" where
  "loggable rule \<longleftrightarrow>
     (case rule of
        PDict d \<Rightarrow> is_text (dget_or d ''reason'' (PStr ''adaptive bypass'')) \<and> is_text (dget_or d ''group'' PNone)
      | _ \<Rightarrow> False)"

definition g24_enabled :: "pyval \<Rightarrow> pyexc + bool" where
  "g24_enabled config =
     bind_res (get_path config [''groups'', ''G24_adaptive_bypass'']) (\<lambda>cfg.
       map_sum id py_truthy (py_get cfg ''enabled'' (PBool True)))"

definition run_pass ::
  "(string list \<Rightarrow> pyval list \<Rightarrow> pyexc + string list \<times> pyval list) \<Rightarrow> g24 \<Rightarrow> rat \<Rightarrow> rules_source
   \<Rightarrow> 'm pipe_ctx_scheme \<Rightarrow> g24 \<times> (pyexc + 'm pipe_ctx_scheme)" where
  "run_pass pass g now src ctx =
     (case g24_enabled (px_config ctx) of
        Inl e \<Rightarrow> (g, Inl e)
      | Inr False \<Rightarrow> (g, Inr ctx)
      | Inr True \<Rightarrow>
          (let g' = refresh_rules g now src in
           if \<not> py_truthy (g24_rules g') then (g', Inr ctx)
           else (g', bind_res (py_iter (g24_rules g')) (\<lambda>rules.
                       bind_res (pass (px_skip ctx) rules) (\<lambda>(skip, matched).
                         if list_all loggable matched then Inr (ctx\<lparr>px_skip := skip\<rparr>) else Inl TypeError)))))"

definition g24_process_request ::
  "('m pipe_ctx_scheme \<Rightarrow> int) \<Rightarrow> g24 \<Rightarrow> rat \<Rightarrow> rules_source \<Rightarrow> 'm pipe_ctx_scheme
   \<Rightarrow> g24 \<times> (pyexc + 'm pipe_ctx_scheme)" where
  "g24_process_request count g now src ctx = run_pass (first_pass (count ctx) ctx) g now src ctx"

definition reevaluate_post_routing ::
  "('m pipe_ctx_scheme \<Rightarrow> int) \<Rightarrow> g24 \<Rightarrow> rat \<Rightarrow> rules_source \<Rightarrow> 'm pipe_ctx_scheme
   \<Rightarrow> g24 \<times> (pyexc + 'm pipe_ctx_scheme)" where
  "reevaluate_post_routing count g now src ctx = run_pass (second_pass (count ctx) ctx) g now src ctx"

section \<open>Lemmas\<close>

text \<open>What a rule asks for: its group, when it is enabled and matches.\<close>

definition asks_for :: "int \<Rightarrow> 'm pipe_ctx_scheme \<Rightarrow> pyval \<Rightarrow> string \<Rightarrow> bool" where
  "asks_for tokens ctx rule s \<longleftrightarrow>
     rule_enabled rule = Inr True \<and> matches tokens ctx rule = Inr True \<and> rule_group rule = Inr (PStr s) \<and> s \<noteq> []"

lemma add_group_set: "set (add_group g skip) = set skip \<union> {s. g = PStr s}"
  by (cases g) (auto simp: add_group_def)

lemma first_pass_skip:
  assumes "first_pass tokens ctx skip rules = Inr (skip', ms)"
  shows "set skip' = set skip \<union> {s. \<exists>rule \<in> set rules. asks_for tokens ctx rule s}"
  using assms
proof (induction rules arbitrary: skip ms)
  case (Cons rule rules)
  obtain en where en: "rule_enabled rule = Inr en" using Cons.prems by (auto simp: bind_res_Inr)
  show ?case
  proof (cases en)
    case False
    then show ?thesis using Cons en by (auto simp: asks_for_def)
  next
    case True
    obtain m where m: "matches tokens ctx rule = Inr m" using Cons.prems en True by (auto simp: bind_res_Inr)
    show ?thesis
    proof (cases m)
      case False
      then show ?thesis using Cons en m \<open>en\<close> by (auto simp: asks_for_def)
    next
      case True
      obtain g where g: "rule_group rule = Inr g" using Cons.prems en \<open>en\<close> m True by (auto simp: bind_res_Inr)
      have a: "asks_for tokens ctx rule s \<longleftrightarrow> g = PStr s \<and> s \<noteq> []" for s
        using en m g \<open>en\<close> True by (auto simp: asks_for_def)
      show ?thesis
      proof (cases "py_truthy g \<and> \<not> already g skip")
        case True
        then obtain ms' where "first_pass tokens ctx (add_group g skip) rules = Inr (skip', ms')"
          using Cons.prems en \<open>en\<close> m \<open>m\<close> g by (cases "first_pass tokens ctx (add_group g skip) rules") auto
        from Cons.IH[OF this] show ?thesis using a True by (cases g) (auto simp: add_group_set)
      next
        case False
        then have "first_pass tokens ctx skip rules = Inr (skip', ms)"
          using Cons.prems en \<open>en\<close> m \<open>m\<close> g by auto
        from Cons.IH[OF this] show ?thesis using a False by (cases g) (auto simp: already_def)
      qed
    qed
  qed
qed simp

lemma second_pass_skip:
  assumes "second_pass tokens ctx skip rules = Inr (skip', ms)"
  shows "set skip' = set skip \<union> {s. \<exists>rule \<in> set rules. asks_for tokens ctx rule s}"
  using assms
proof (induction rules arbitrary: skip ms)
  case (Cons rule rules)
  obtain en where en: "rule_enabled rule = Inr en" using Cons.prems by (auto simp: bind_res_Inr)
  show ?case
  proof (cases en)
    case False
    then show ?thesis using Cons en by (auto simp: asks_for_def)
  next
    case True
    obtain g where g: "rule_group rule = Inr g" using Cons.prems en True by (auto simp: bind_res_Inr)
    show ?thesis
    proof (cases "\<not> py_truthy g \<or> already g skip")
      case True
      then have P: "second_pass tokens ctx skip rules = Inr (skip', ms)"
        using Cons.prems en \<open>en\<close> g by auto
      have "\<And>s. asks_for tokens ctx rule s \<Longrightarrow> s \<in> set skip"
        using g True by (auto simp: asks_for_def already_def)
      then show ?thesis using Cons.IH[OF P] by auto
    next
      case False
      obtain m where m: "matches tokens ctx rule = Inr m"
        using Cons.prems en \<open>en\<close> g False by (auto simp: bind_res_Inr)
      have a: "asks_for tokens ctx rule s \<longleftrightarrow> m \<and> g = PStr s \<and> s \<noteq> []" for s
        using en m g \<open>en\<close> by (auto simp: asks_for_def)
      show ?thesis
      proof (cases m)
        case True
        then obtain ms' where "second_pass tokens ctx (add_group g skip) rules = Inr (skip', ms')"
          using Cons.prems en \<open>en\<close> m False g by (cases "second_pass tokens ctx (add_group g skip) rules") auto
        from Cons.IH[OF this] show ?thesis using a True False by (cases g) (auto simp: add_group_set)
      next
        case nm: False
        then have "second_pass tokens ctx skip rules = Inr (skip', ms)"
          using Cons.prems en \<open>en\<close> m False g by auto
        from Cons.IH[OF this] show ?thesis using a nm by auto
      qed
    qed
  qed
qed simp

lemma run_pass_skip:
  assumes "run_pass pass g now src ctx = (g', Inr ctx')"
    and pass: "\<And>rules sk ms. pass (px_skip ctx) rules = Inr (sk, ms) \<Longrightarrow>
      set sk = set (px_skip ctx) \<union> {s. \<exists>rule \<in> set rules. P rule s}"
  shows "ctx'\<lparr>px_skip := px_skip ctx\<rparr> = ctx \<and>
         set (px_skip ctx') = set (px_skip ctx) \<union>
           (case (g24_enabled (px_config ctx), py_iter (g24_rules g')) of
              (Inr True, Inr rules) \<Rightarrow> {s. \<exists>rule \<in> set rules. P rule s} | _ \<Rightarrow> {})"
proof (cases "g24_enabled (px_config ctx)")
  case (Inr en)
  show ?thesis
  proof (cases en)
    case True
    define g1 where "g1 = refresh_rules g now src"
    show ?thesis
    proof (cases "py_truthy (g24_rules g1)")
      case False
      then have "g' = g1" "ctx' = ctx" using assms(1) Inr True by (auto simp: run_pass_def Let_def g1_def)
      moreover have "py_iter (g24_rules g1) = Inr [] \<or> (\<exists>e. py_iter (g24_rules g1) = Inl e)"
        using False by (cases "g24_rules g1") (auto simp: py_iter_def)
      ultimately show ?thesis using Inr True by auto
    next
      case truthy: True
      have "g' = g1" using assms(1) Inr True truthy by (auto simp: run_pass_def Let_def g1_def)
      have B: "bind_res (py_iter (g24_rules g1)) (\<lambda>rules. bind_res (pass (px_skip ctx) rules)
          (\<lambda>(skip, matched). if list_all loggable matched then Inr (ctx\<lparr>px_skip := skip\<rparr>) else Inl TypeError)) = Inr ctx'"
        using assms(1) Inr True truthy by (auto simp: run_pass_def Let_def g1_def)
      then obtain rules sk ms where "py_iter (g24_rules g1) = Inr rules" "pass (px_skip ctx) rules = Inr (sk, ms)"
        "ctx' = ctx\<lparr>px_skip := sk\<rparr>"
        by (auto simp: bind_res_Inr split: if_splits)
      then show ?thesis using pass \<open>g' = g1\<close> Inr True by simp
    qed
  next
    case False
    then show ?thesis using assms(1) Inr by (auto simp: run_pass_def)
  qed
qed (use assms(1) in \<open>simp add: run_pass_def\<close>)

text \<open>The times at which a series of refreshes reads the rules.\<close>

fun load_times :: "g24 \<Rightarrow> (rat \<times> rules_source) list \<Rightarrow> rat list" where
  "load_times g [] = []"
| "load_times g ((now, src) # passes) =
     (if due g now then now # load_times (refresh_rules g now src) passes
      else load_times (refresh_rules g now src) passes)"

lemma load_times_apart:
  "(\<And>t src. (t, src) \<in> set passes \<Longrightarrow> 0 < t) \<Longrightarrow> g24_last_loaded g \<noteq> 0 \<Longrightarrow>
   sorted_wrt (\<lambda>a b. a + reload_interval \<le> b) (g24_last_loaded g # load_times g passes)"
proof (induction passes arbitrary: g)
  case (Cons p passes)
  obtain t src where p: "p = (t, src)" by (cases p)
  show ?case
  proof (cases "due g t")
    case True
    have l: "g24_last_loaded (refresh_rules g t src) = t" using True by (simp add: refresh_rules_def load_rules_def)
    moreover have "t \<noteq> 0" using Cons.prems(1)[of t src] p by auto
    ultimately have S: "sorted_wrt (\<lambda>a b. a + reload_interval \<le> b) (t # load_times (refresh_rules g t src) passes)"
      using Cons.IH[of "refresh_rules g t src"] Cons.prems(1) by auto
    have g: "g24_last_loaded g + reload_interval \<le> t" using True Cons.prems(2) by (simp add: due_def)
    have "g24_last_loaded g + reload_interval \<le> b" if "b \<in> set (load_times (refresh_rules g t src) passes)" for b
    proof -
      have "t + reload_interval \<le> b" using S that by simp
      then show ?thesis using g by (simp add: reload_interval_def)
    qed
    then show ?thesis using S g True by (simp add: p)
  next
    case False
    have "\<And>t src. (t, src) \<in> set passes \<Longrightarrow> 0 < t" using Cons.prems(1) by auto
    from Cons.IH[OF this Cons.prems(2)] show ?thesis using False by (simp add: p refresh_rules_def)
  qed
qed simp

section \<open>Properties\<close>

text \<open>
  Adaptive bypass skips exactly the groups the rules ask for: after either pass \<open>skip_groups\<close> holds
  what it held and the groups of the enabled rules that match the request, nothing else of the context
  changes, and the second pass differs from the first only in the model the request was routed to.
\<close>

lemma bypass_skips_exactly_what_rules_ask:
  assumes "f = g24_process_request \<or> f = reevaluate_post_routing"
    and "f count g now src ctx = (g', Inr ctx')"
  shows "ctx'\<lparr>px_skip := px_skip ctx\<rparr> = ctx \<and>
         set (px_skip ctx') = set (px_skip ctx) \<union>
           (case (g24_enabled (px_config ctx), py_iter (g24_rules g')) of
              (Inr True, Inr rules) \<Rightarrow> {s. \<exists>rule \<in> set rules. asks_for (count ctx) ctx rule s} | _ \<Rightarrow> {})"
proof -
  have "\<exists>pass. run_pass pass g now src ctx = (g', Inr ctx') \<and>
      (\<forall>rules sk ms. pass (px_skip ctx) rules = Inr (sk, ms) \<longrightarrow>
         set sk = set (px_skip ctx) \<union> {s. \<exists>rule \<in> set rules. asks_for (count ctx) ctx rule s})"
    using assms first_pass_skip[of "count ctx" ctx "px_skip ctx"] second_pass_skip[of "count ctx" ctx "px_skip ctx"]
    unfolding g24_process_request_def[abs_def] reevaluate_post_routing_def[abs_def] by blast
  then show ?thesis using run_pass_skip by blast
qed

definition sample_rule :: pyval where
  "sample_rule = PDict [(''group'', PStr ''G07''), (''conditions'', PDict [(''models'', PList [PStr ''gpt-4o''])])]"

lemma bypass_skips_exactly_what_rules_ask_witness:
  "set [''G30'', ''G01'', ''G07''] = set [''G30'', ''G01''] \<union> {s. asks_for 10 sample_ctx sample_rule s}"
proof -
  have "g24_process_request (\<lambda>_. 10) \<lparr>g24_rules = PList [sample_rule], g24_last_loaded = 1\<rparr> 2 (No_File None) sample_ctx =
    (\<lparr>g24_rules = PList [sample_rule], g24_last_loaded = 1\<rparr>, Inr (sample_ctx\<lparr>px_skip := [''G30'', ''G01'', ''G07'']\<rparr>))"
    by code_simp
  from bypass_skips_exactly_what_rules_ask[OF disjI1[OF refl] this]
  have "set (px_skip (sample_ctx\<lparr>px_skip := [''G30'', ''G01'', ''G07'']\<rparr>)) = set (px_skip sample_ctx) \<union>
      {s. \<exists>rule \<in> set [sample_rule]. asks_for 10 sample_ctx rule s}"
    by (simp add: g24_enabled_def get_path_def sample_ctx_def dget_or_def py_iter_def)
  then show ?thesis by (simp add: sample_ctx_def)
qed

text \<open>
  The rules are read at most once a minute, whatever was found: two reloads of a series of passes
  are at least sixty seconds apart, also when the rules file is empty, missing or malformed.
\<close>

lemma rules_reload_at_most_once_a_minute:
  assumes "\<And>t src. (t, src) \<in> set passes \<Longrightarrow> 0 < t"
  shows "sorted_wrt (\<lambda>a b. a + 60 \<le> b) (load_times new_g24 passes)"
proof (cases passes)
  case (Cons p ps)
  obtain t src where p: "p = (t, src)" by (cases p)
  then have "0 < t" using assms[of t src] Cons by simp
  moreover have "due new_g24 t" by (simp add: due_def new_g24_def)
  ultimately have "load_times new_g24 passes = t # load_times (refresh_rules new_g24 t src) ps"
    "g24_last_loaded (refresh_rules new_g24 t src) = t" "t \<noteq> 0"
    by (simp_all add: Cons p refresh_rules_def load_rules_def)
  then show ?thesis
    using load_times_apart[of ps "refresh_rules new_g24 t src"] assms Cons
    by (auto simp: reload_interval_def)
qed simp

lemma rules_reload_at_most_once_a_minute_witness:
  "sorted_wrt (\<lambda>a b. a + 60 \<le> b) (load_times new_g24 [(1, No_File None), (5, No_File None), (61, No_File None)])"
  by (rule rules_reload_at_most_once_a_minute) auto

end
