(* ===== verification/Client_IP.thy ===== *)
theory Client_IP
  imports Py_Prelude "HOL-Library.Word" "HOL-Library.Sublist"
begin

text \<open>
  \<open>net/client_ip.py\<close> and \<open>net/ip_allowlist.py\<close>: which address a request came from, and whether that
  address may use the proxy. The first section is the part of Python's \<open>ipaddress\<close> the code calls:
  addresses are words of 32 or 128 bits (an IPv6 address may carry a scope), networks a word and a mask.
  The signature check of a forwarder's token is a parameter (\<open>token_ok\<close>: what decoding against the
  held certificates says of it), as are the clock and the certificate fetch. Environment variables are
  arguments. The lemmas show that nothing a client writes in front of the trusted entries is believed,
  that the forwarding headers never reach a handler, and what the allowlist lets through.
\<close>

unbundle bit_operations_syntax

section \<open>Addresses\<close>

definition the_default :: "'a \<Rightarrow> 'a option \<Rightarrow> 'a" where
  "the_default d x = (case x of None \<Rightarrow> d | Some y \<Rightarrow> y)"

datatype ip_addr = V4 "32 word" | V6 "128 word" "string option"

fun split_on :: "char \<Rightarrow> string \<Rightarrow> string list" where
  "split_on c [] = [[]]"
| "split_on c (x # xs) =
     (if x = c then [] # split_on c xs
      else (case split_on c xs of [] \<Rightarrow> [[x]] | w # ws \<Rightarrow> (x # w) # ws))"

definition all_digits :: "string \<Rightarrow> bool" where
  "all_digits s \<longleftrightarrow> s \<noteq> [] \<and> list_all is_digit s"

definition digit_nat :: "char \<Rightarrow> nat" where
  "digit_nat c = of_char c - 48"

definition dec_value :: "string \<Rightarrow> nat" where
  "dec_value s = foldl (\<lambda>n c. n * 10 + digit_nat c) 0 s"

definition parse_octet :: "string \<Rightarrow> nat option" where
  "parse_octet s =
     (if \<not> all_digits s \<or> length s > 3 \<or> (s \<noteq> ''0'' \<and> hd s = CHR ''0'') then None
      else if dec_value s > 255 then None else Some (dec_value s))"

definition word_of_octets :: "nat list \<Rightarrow> 32 word" where
  "word_of_octets os = of_nat (foldl (\<lambda>n b. n * 256 + b) 0 os)"

fun parse_all :: "('a \<Rightarrow> 'b option) \<Rightarrow> 'a list \<Rightarrow> 'b list option" where
  "parse_all f [] = Some []"
| "parse_all f (x # xs) =
     (case f x of None \<Rightarrow> None | Some y \<Rightarrow> (case parse_all f xs of None \<Rightarrow> None | Some ys \<Rightarrow> Some (y # ys)))"

definition parse_v4 :: "string \<Rightarrow> 32 word option" where
  "parse_v4 s =
     (let parts = split_on CHR ''.'' s in
      if length parts \<noteq> 4 then None else map_option word_of_octets (parse_all parse_octet parts))"

definition hex_val :: "char \<Rightarrow> nat option" where
  "hex_val c =
     (let n = (of_char c :: nat) in
      if 48 \<le> n \<and> n \<le> 57 then Some (n - 48) else if 97 \<le> n \<and> n \<le> 102 then Some (n - 87)
      else if 65 \<le> n \<and> n \<le> 70 then Some (n - 55) else None)"

definition parse_hextet :: "string \<Rightarrow> nat option" where
  "parse_hextet s =
     (if s = [] \<or> length s > 4 then None
      else map_option (foldl (\<lambda>n d. n * 16 + d) 0) (parse_all hex_val s))"

fun to_base :: "nat \<Rightarrow> (nat \<Rightarrow> char) \<Rightarrow> nat \<Rightarrow> string" where
  "to_base b d n = (if b < 2 \<or> n < b then [d n] else to_base b d (n div b) @ [d (n mod b)])"

declare to_base.simps [simp del]

definition hex_digit :: "nat \<Rightarrow> char" where
  "hex_digit n = (if n < 10 then char_of (48 + n) else char_of (87 + n))"

definition to_hex :: "nat \<Rightarrow> string" where "to_hex n = to_base 16 hex_digit n"

definition to_dec :: "nat \<Rightarrow> string" where "to_dec n = to_base 10 hex_digit n"

text \<open>A dotted suffix is turned into two hextets first.\<close>

definition hextet_parts :: "string \<Rightarrow> string list option" where
  "hextet_parts s =
     (let parts = split_on CHR '':'' s in
      if length parts < 3 then None
      else if CHR ''.'' \<in> set (last parts)
      then map_option (\<lambda>w. butlast parts @ [to_hex (unat w div 65536), to_hex (unat w mod 65536)])
             (parse_v4 (last parts))
      else Some parts)"

definition word_of_hextets :: "nat list \<Rightarrow> 128 word" where
  "word_of_hextets hs = of_nat (foldl (\<lambda>n h. n * 65536 + h) 0 hs)"

definition empty_inside :: "string list \<Rightarrow> nat list" where
  "empty_inside parts = filter (\<lambda>i. parts ! i = []) [1..<length parts - 1]"

text \<open>\<open>_ip_int_from_string\<close>: at most one double colon, which stands for at least one zero.\<close>

definition v6_of_parts :: "string list \<Rightarrow> 128 word option" where
  "v6_of_parts parts =
     (if length parts > 9 then None
      else (case empty_inside parts of
              [] \<Rightarrow> if length parts \<noteq> 8 \<or> hd parts = [] \<or> last parts = [] then None
                    else map_option word_of_hextets (parse_all parse_hextet parts)
            | [k] \<Rightarrow>
                (let hi = (if hd parts = [] then k - 1 else k);
                     lo = (if last parts = [] then length parts - k - 2 else length parts - k - 1)
                 in if (hd parts = [] \<and> hi \<noteq> 0) \<or> (last parts = [] \<and> lo \<noteq> 0) \<or> hi + lo > 7 then None
                    else (case (parse_all parse_hextet (take hi parts),
                                parse_all parse_hextet (drop (length parts - lo) parts)) of
                            (Some hs, Some ls) \<Rightarrow> Some (word_of_hextets (hs @ replicate (8 - (hi + lo)) 0 @ ls))
                          | _ \<Rightarrow> None))
            | _ \<Rightarrow> None))"

definition split_scope :: "string \<Rightarrow> (string \<times> string option) option" where
  "split_scope s =
     (case split_on CHR ''%'' s of
        [a] \<Rightarrow> Some (a, None)
      | [a, scope] \<Rightarrow> if scope = [] then None else Some (a, Some scope)
      | _ \<Rightarrow> None)"

definition parse_v6 :: "string \<Rightarrow> (128 word \<times> string option) option" where
  "parse_v6 s =
     (if CHR ''/'' \<in> set s then None
      else (case split_scope s of
              None \<Rightarrow> None
            | Some (a, scope) \<Rightarrow>
                (case hextet_parts a of
                   None \<Rightarrow> None
                 | Some parts \<Rightarrow> map_option (\<lambda>w. (w, scope)) (v6_of_parts parts))))"

definition ip_address :: "string \<Rightarrow> ip_addr option" where
  "ip_address s =
     (case parse_v4 s of
        Some w \<Rightarrow> Some (V4 w)
      | None \<Rightarrow> map_option (\<lambda>(w, scope). V6 w scope) (parse_v6 s))"

definition join_with :: "string \<Rightarrow> string list \<Rightarrow> string" where
  "join_with sep ws = (case ws of [] \<Rightarrow> [] | w # rest \<Rightarrow> w @ concat (map (\<lambda>x. sep @ x) rest))"

definition str_v4 :: "32 word \<Rightarrow> string" where
  "str_v4 w = (let n = unat w in
     join_with ''.'' (map to_dec [n div 16777216, n div 65536 mod 256, n div 256 mod 256, n mod 256]))"

definition hextets :: "128 word \<Rightarrow> nat list" where
  "hextets w = map (\<lambda>i. unat w div 65536 ^ (7 - i) mod 65536) [0..<8]"

text \<open>The first longest run of zeros: its start and length.\<close>

fun zero_run :: "nat \<Rightarrow> nat list \<Rightarrow> nat \<times> nat \<Rightarrow> nat \<times> nat" where
  "zero_run i [] best = best"
| "zero_run i (h # hs) best =
     (let n = length (takeWhile (\<lambda>x. x = 0) (h # hs))
      in zero_run (Suc i) hs (if snd best < n then (i, n) else best))"

definition str_v6 :: "128 word \<Rightarrow> string" where
  "str_v6 w =
     (let hs = hextets w; (start, n) = zero_run 0 hs (0, 0); ws = map to_hex hs
      in if n \<le> 1 then join_with '':'' ws
         else join_with '':'' ((if start = 0 then [[]] else []) @ take start ws @ [[]] @ drop (start + n) ws @
                               (if start + n = 8 then [[]] else [])))"

definition str_ip :: "ip_addr \<Rightarrow> string" where
  "str_ip a =
     (case a of
        V4 w \<Rightarrow> str_v4 w
      | V6 w None \<Rightarrow> str_v6 w
      | V6 w (Some scope) \<Rightarrow> str_v6 w @ ''%'' @ scope)"

text \<open>\<open>addr.ipv4_mapped\<close>, applied where the address has one.\<close>

definition unmap_v4 :: "ip_addr \<Rightarrow> ip_addr" where
  "unmap_v4 a =
     (case a of
        V4 w \<Rightarrow> V4 w
      | V6 w scope \<Rightarrow> if drop_bit 32 w = 65535 then V4 (ucast w) else V6 w scope)"

section \<open>Networks\<close>

datatype ip_net = Net4 "32 word" "32 word" | Net6 "128 word" "128 word"

definition prefix_mask :: "nat \<Rightarrow> 'a::len word" where
  "prefix_mask n = NOT (mask (LENGTH('a) - n))"

definition prefix_len :: "nat \<Rightarrow> string \<Rightarrow> nat option" where
  "prefix_len bits s = (if all_digits s \<and> dec_value s \<le> bits then Some (dec_value s) else None)"

text \<open>A dotted mask is a netmask, or else a host mask.\<close>

definition dotted_mask :: "string \<Rightarrow> 32 word option" where
  "dotted_mask s =
     (case parse_v4 s of
        None \<Rightarrow> None
      | Some w \<Rightarrow> if \<exists>n \<in> {0..32}. w = prefix_mask n then Some w
                  else if \<exists>n \<in> {0..32}. NOT w = prefix_mask n then Some (NOT w) else None)"

definition net4 :: "string list \<Rightarrow> ip_net option" where
  "net4 parts =
     (case parts of
        [a] \<Rightarrow> map_option (\<lambda>w. Net4 w (prefix_mask 32)) (parse_v4 a)
      | [a, m] \<Rightarrow>
          (case (parse_v4 a, (case prefix_len 32 m of Some n \<Rightarrow> Some (prefix_mask n) | None \<Rightarrow> dotted_mask m)) of
             (Some w, Some k) \<Rightarrow> Some (Net4 (w AND k) k)
           | _ \<Rightarrow> None)
      | _ \<Rightarrow> None)"

definition net6 :: "string list \<Rightarrow> ip_net option" where
  "net6 parts =
     (case parts of
        [a] \<Rightarrow> map_option (\<lambda>(w, _). Net6 w (prefix_mask 128)) (parse_v6 a)
      | [a, m] \<Rightarrow>
          (case (parse_v6 a, prefix_len 128 m) of
             (Some (w, _), Some n) \<Rightarrow> Some (Net6 (w AND prefix_mask n) (prefix_mask n))
           | _ \<Rightarrow> None)
      | _ \<Rightarrow> None)"

text \<open>\<open>ip_network(s, strict=False)\<close>.\<close>

definition ip_network :: "string \<Rightarrow> ip_net option" where
  "ip_network s =
     (let parts = split_on CHR ''/'' s in
      case net4 parts of Some n \<Rightarrow> Some n | None \<Rightarrow> net6 parts)"

text \<open>\<open>addr in net\<close>, for an address and a network of one version.\<close>

fun in_net :: "ip_addr \<Rightarrow> ip_net \<Rightarrow> bool" where
  "in_net (V4 w) (Net4 n k) \<longleftrightarrow> w AND k = n"
| "in_net (V6 w _) (Net6 n k) \<longleftrightarrow> w AND k = n"
| "in_net _ _ \<longleftrightarrow> False"

section \<open>The allowlist\<close>

fun parse_networks :: "string list \<Rightarrow> ip_net list" where
  "parse_networks [] = []"
| "parse_networks (c # cs) =
     (case ip_network (py_strip c) of Some n \<Rightarrow> n # parse_networks cs | None \<Rightarrow> parse_networks cs)"

definition ip_allowed :: "string \<Rightarrow> string list \<Rightarrow> string list \<Rightarrow> bool" where
  "ip_allowed ip global_cidrs tenant_cidrs \<longleftrightarrow>
     (if global_cidrs = [] \<and> tenant_cidrs = [] then True
      else (case ip_address (py_strip ip) of
              None \<Rightarrow> False
            | Some a \<Rightarrow> list_ex (in_net (unmap_v4 a)) (parse_networks (global_cidrs @ tenant_cidrs))))"

section \<open>The client's address\<close>

definition invalid_ip :: string where "invalid_ip = ''invalid''"

definition unbracketed :: "string \<Rightarrow> string option" where
  "unbracketed v =
     (if v \<noteq> [] \<and> hd v = CHR ''['' then
        (if CHR '']'' \<in> set v then Some (takeWhile (\<lambda>c. c \<noteq> CHR '']'') (tl v)) else None)
      else if length (filter (\<lambda>c. c = CHR '':'') v) = 1 then Some (takeWhile (\<lambda>c. c \<noteq> CHR '':'') v)
      else Some v)"

definition normalise_ip :: "string option \<Rightarrow> string option" where
  "normalise_ip value =
     (case unbracketed (py_strip (the_default [] value)) of
        None \<Rightarrow> None
      | Some v \<Rightarrow> map_option (\<lambda>a. str_ip (unmap_v4 a)) (ip_address v))"

definition peer_ip :: "string option \<Rightarrow> string" where
  "peer_ip peer =
     (if peer = None \<or> peer = Some [] then ''unknown''
      else (case normalise_ip peer of Some s \<Rightarrow> s | None \<Rightarrow> the peer))"

datatype ip_source = From_Peer | Forwarded | Invalid_Entry | Vouched | Observed

definition entries :: "string \<Rightarrow> string list" where
  "entries line = filter (\<lambda>e. e \<noteq> []) (map py_strip (split_on CHR '','' line))"

definition resolve_ip :: "string list \<Rightarrow> string option \<Rightarrow> int \<Rightarrow> string \<times> ip_source" where
  "resolve_ip xff_lines peer hops =
     (if hops \<le> 0 \<or> length xff_lines \<noteq> 1 then (peer_ip peer, From_Peer)
      else (let es = entries (hd xff_lines) in
            if int (length es) < hops then (peer_ip peer, From_Peer)
            else (case normalise_ip (Some (es ! (length es - nat hops))) of
                    Some ip \<Rightarrow> (ip, Forwarded)
                  | None \<Rightarrow> (invalid_ip, Invalid_Entry))))"

definition resolve_forwarded :: "string list \<Rightarrow> string option \<Rightarrow> int \<Rightarrow> string" where
  "resolve_forwarded xff_lines peer hops = fst (resolve_ip xff_lines peer hops)"

definition first_entry :: "string list \<Rightarrow> string option \<Rightarrow> int \<Rightarrow> string" where
  "first_entry xff_lines peer hops =
     (let first = (case xff_lines of [] \<Rightarrow> [] | l # _ \<Rightarrow> py_strip (hd (split_on CHR '','' l))) in
      if hops > 0 \<and> first \<noteq> [] then first else peer_ip peer)"

section \<open>Settings\<close>

text \<open>\<open>k_service\<close> is whether \<open>K_SERVICE\<close> is set, which it is on Cloud Run.\<close>

definition auto_hops :: "bool \<Rightarrow> int" where
  "auto_hops k_service = (if k_service then 1 else 0)"

definition as_bool :: "pyval \<Rightarrow> bool" where
  "as_bool v =
     (case v of
        PStr s \<Rightarrow> py_lower (py_strip s) \<in> {''1'', ''true'', ''yes'', ''on''}
      | _ \<Rightarrow> py_truthy v)"

definition section_of :: "pyval \<Rightarrow> string \<Rightarrow> pyexc + pyval" where
  "section_of cfg name = map_sum id (\<lambda>v. py_or v (PDict [])) (py_get (py_or cfg (PDict [])) name PNone)"

definition trusted_proxy_hops :: "bool \<Rightarrow> pyval \<Rightarrow> pyexc + int" where
  "trusted_proxy_hops k_service cfg =
     bind_res (section_of cfg ''network'') (\<lambda>n.
     bind_res (py_get n ''trusted_proxy_hops'' PNone) (\<lambda>raw.
       case raw of
         PNone \<Rightarrow>
           bind_res (section_of cfg ''ip_allowlist'') (\<lambda>a.
           bind_res (py_get a ''trust_x_forwarded_for'' PNone) (\<lambda>legacy.
             Inr (if legacy = PNone then auto_hops k_service else if as_bool legacy then 1 else 0)))
       | PInt i \<Rightarrow> Inr (if 0 \<le> i then i else auto_hops k_service)
       | _ \<Rightarrow> Inr (auto_hops k_service)))"

definition client_ip_mode :: "string \<Rightarrow> pyval \<Rightarrow> pyexc + string" where
  "client_ip_mode env cfg =
     (let mode_of = (\<lambda>v. case v of PStr s \<Rightarrow> if py_lower (py_strip s) = ''observe'' then ''observe'' else ''enforce''
                                 | _ \<Rightarrow> ''enforce'')
      in if env \<noteq> [] then Inr (mode_of (PStr env))
         else bind_res (section_of cfg ''network'') (\<lambda>n. map_sum id mode_of (py_get n ''client_ip_mode'' PNone)))"

section \<open>The trusted forwarder\<close>

definition refetch_certs_seconds :: rat where "refetch_certs_seconds = 60"
definition retry_no_certs_seconds :: rat where "retry_no_certs_seconds = 5"

text \<open>Certificates by key id; \<open>None\<close> as the time of the last attempt stands for minus infinity.\<close>

type_synonym certs = "(string \<times> string) list"

record forwarder =
  fv_sa_email :: string
  fv_certs :: "certs option"
  fv_expires :: rat
  fv_fetched_at :: "rat option"

definition new_forwarder :: "string \<Rightarrow> forwarder" where
  "new_forwarder email = \<lparr>fv_sa_email = email, fv_certs = None, fv_expires = 0, fv_fetched_at = None\<rparr>"

definition since_at_least :: "forwarder \<Rightarrow> rat \<Rightarrow> rat \<Rightarrow> bool" where
  "since_at_least f now secs \<longleftrightarrow> (case fv_fetched_at f of None \<Rightarrow> True | Some t \<Rightarrow> now - t \<ge> secs)"

definition needs_fetch :: "forwarder \<Rightarrow> rat \<Rightarrow> string option \<Rightarrow> bool" where
  "needs_fetch f now kid \<longleftrightarrow>
     (case fv_certs f of
        None \<Rightarrow> since_at_least f now retry_no_certs_seconds
      | Some cs \<Rightarrow> since_at_least f now refetch_certs_seconds \<and>
          (fv_expires f \<le> now \<or> (case kid of None \<Rightarrow> False | Some k \<Rightarrow> dget cs k = None)))"

text \<open>\<open>fetched\<close>: what a fetch made now would return, \<open>None\<close> for an exception.\<close>

definition certs_for :: "forwarder \<Rightarrow> rat \<Rightarrow> string option \<Rightarrow> (certs \<times> rat) option \<Rightarrow> forwarder" where
  "certs_for f now kid fetched =
     (if \<not> needs_fetch f now kid then f
      else (let f' = f\<lparr>fv_fetched_at := Some now\<rparr>
            in case fetched of
                 None \<Rightarrow> f'
               | Some (cs, max_age) \<Rightarrow> f'\<lparr>fv_certs := Some cs, fv_expires := now + max_age\<rparr>))"

record claims =
  cl_iss :: string
  cl_email :: string
  cl_email_verified :: "bool option"

definition google_issuers :: "string list" where
  "google_issuers = [''accounts.google.com'', ''https://accounts.google.com'']"

text \<open>\<open>decode\<close>: the claims of a token whose signature, expiry and audience check out.\<close>

definition verify_token ::
  "(certs \<Rightarrow> string \<Rightarrow> claims option) \<Rightarrow> (string \<Rightarrow> string option) \<Rightarrow> forwarder \<Rightarrow> rat
   \<Rightarrow> (certs \<times> rat) option \<Rightarrow> string \<Rightarrow> forwarder \<times> bool" where
  "verify_token decode token_kid f now fetched token =
     (let f' = certs_for f now (token_kid token) fetched in
      (f', case fv_certs f' of
             None \<Rightarrow> False
           | Some cs \<Rightarrow> cs \<noteq> [] \<and>
               (case decode cs token of
                  None \<Rightarrow> False
                | Some c \<Rightarrow> cl_iss c \<in> set google_issuers \<and> cl_email c = fv_sa_email f' \<and>
                            cl_email_verified c \<noteq> Some False)))"

section \<open>The middleware\<close>

definition client_ip_header :: string where "client_ip_header = ''tokenlean-client-ip''"
definition forwarder_token_header :: string where "forwarder_token_header = ''tokenlean-forwarder-token''"

definition stripped_headers :: "string list" where
  "stripped_headers = [''x-forwarded-for'', ''x-real-ip'', ''forwarded'', client_ip_header, forwarder_token_header]"

text \<open>\<open>verify\<close> is the check of the configured verifier, absent when none is. The last component tells
  whether a vouch was refused.\<close>

definition resolve_request ::
  "bool \<Rightarrow> string \<Rightarrow> (string \<Rightarrow> bool) option \<Rightarrow> string list \<Rightarrow> string option \<Rightarrow> string option
   \<Rightarrow> string option \<Rightarrow> pyval \<Rightarrow> pyexc + string \<times> ip_source" where
  "resolve_request k_service env verify xff_lines peer vouched_ip token cfg =
     bind_res (trusted_proxy_hops k_service cfg) (\<lambda>hops.
       let seen = resolve_ip xff_lines peer hops;
           found = (case (token, vouched_ip, verify) of
                      (Some t, Some v, Some ok) \<Rightarrow>
                        if ok t then (the_default invalid_ip (normalise_ip (Some v)), Vouched) else seen
                    | _ \<Rightarrow> seen)
       in bind_res (client_ip_mode env cfg) (\<lambda>mode.
            Inr (if mode = ''observe'' then (first_entry xff_lines peer hops, Observed) else found)))"

type_synonym raw_headers = "(string \<times> string) list"

definition values_of :: "string \<Rightarrow> raw_headers \<Rightarrow> string list" where
  "values_of name hs = map snd (filter (\<lambda>h. py_lower (fst h) = name) hs)"

definition last_value :: "string \<Rightarrow> raw_headers \<Rightarrow> string option" where
  "last_value name hs = (case rev (values_of name hs) of [] \<Rightarrow> None | v # _ \<Rightarrow> Some v)"

definition kept_headers :: "raw_headers \<Rightarrow> raw_headers" where
  "kept_headers hs = filter (\<lambda>h. py_lower (fst h) \<notin> set stripped_headers) hs"

definition client_ip_middleware ::
  "bool \<Rightarrow> string \<Rightarrow> (string \<Rightarrow> bool) option \<Rightarrow> pyval \<Rightarrow> string option \<Rightarrow> raw_headers
   \<Rightarrow> pyexc + (string \<times> ip_source) \<times> raw_headers" where
  "client_ip_middleware k_service env verify cfg peer hs =
     map_sum id (\<lambda>r. (r, kept_headers hs))
       (resolve_request k_service env verify (values_of ''x-forwarded-for'' hs) peer
          (last_value client_ip_header hs) (last_value forwarder_token_header hs) cfg)"

text \<open>A request that passed the middleware carries its answer; any other is resolved without a vouch.\<close>

definition request_client_ip ::
  "bool \<Rightarrow> string \<Rightarrow> string option \<Rightarrow> string list \<Rightarrow> string option \<Rightarrow> pyval \<Rightarrow> pyexc + string" where
  "request_client_ip k_service env resolved xff_lines peer cfg =
     (case resolved of
        Some (c # cs) \<Rightarrow> Inr (c # cs)
      | _ \<Rightarrow> bind_res (trusted_proxy_hops k_service cfg) (\<lambda>hops.
             bind_res (client_ip_mode env cfg) (\<lambda>mode.
               Inr (if mode = ''observe'' then first_entry xff_lines peer hops
                    else resolve_forwarded xff_lines peer hops))))"

section \<open>Lemmas\<close>

lemma split_on_ne: "split_on c s \<noteq> []"
  by (induction s) (auto split: list.splits)

lemma split_on_append: "split_on c (u @ c # v) = split_on c u @ split_on c v"
proof (induction u)
  case (Cons x u)
  then show ?case using split_on_ne[of c u] by (auto split: list.splits)
qed simp

lemma split_on_none: "c \<notin> set s \<Longrightarrow> split_on c s = [s]"
  by (induction s) auto

lemma entries_append: "entries (client @ CHR '','' # trusted) = entries client @ entries trusted"
  by (simp add: entries_def split_on_append)

lemma prefix_mask_and:
  "w AND prefix_mask n = (x AND prefix_mask n :: 'a::len word) \<longleftrightarrow>
   drop_bit (LENGTH('a) - n) w = drop_bit (LENGTH('a) - n) x"
proof -
  define k where "k = LENGTH('a) - n"
  have "w AND NOT (mask k) = x AND NOT (mask k) \<longleftrightarrow> (\<forall>i. bit w (k + i) = bit x (k + i))"
  proof
    assume A: "w AND NOT (mask k) = x AND NOT (mask k)"
    show "\<forall>i. bit w (k + i) = bit x (k + i)"
    proof
      fix i
      have "bit (w AND NOT (mask k)) (k + i) = bit (x AND NOT (mask k)) (k + i)" using A by simp
      then show "bit w (k + i) = bit x (k + i)"
        by (cases "k + i < LENGTH('a)") (auto simp: bit_and_iff bit_not_iff bit_mask_iff dest: bit_imp_le_length)
    qed
  next
    assume "\<forall>i. bit w (k + i) = bit x (k + i)"
    then have "\<And>j. k \<le> j \<Longrightarrow> bit w j = bit x j" using le_Suc_ex by blast
    then show "w AND NOT (mask k) = x AND NOT (mask k)"
      by (intro bit_eqI) (auto simp: bit_and_iff bit_not_iff bit_mask_iff)
  qed
  also have "\<dots> \<longleftrightarrow> drop_bit k w = drop_bit k x"
  proof
    assume "\<forall>i. bit w (k + i) = bit x (k + i)"
    then show "drop_bit k w = drop_bit k x" by (intro bit_eqI) (simp add: bit_drop_bit_eq)
  next
    assume D: "drop_bit k w = drop_bit k x"
    show "\<forall>i. bit w (k + i) = bit x (k + i)"
    proof
      fix i
      have "bit (drop_bit k w) i = bit (drop_bit k x) i" using D by simp
      then show "bit w (k + i) = bit x (k + i)" by (simp add: bit_drop_bit_eq)
    qed
  qed
  finally show ?thesis by (simp add: prefix_mask_def k_def)
qed

lemma parse_networks_set:
  "set (parse_networks cs) = {n. \<exists>c \<in> set cs. ip_network (py_strip c) = Some n}"
  by (induction cs) (auto split: option.splits)

lemma hex_digit_dec:
  assumes "d < 10"
  shows "is_digit (hex_digit d)" "digit_nat (hex_digit d) = d" "hex_digit d = CHR ''0'' \<longleftrightarrow> d = 0"
    "CHR ''.'' \<noteq> hex_digit d"
proof -
  have c: "of_char (hex_digit d) = 48 + d" using assms by (simp add: hex_digit_def)
  show dig: "is_digit (hex_digit d)" using c assms by (simp add: is_digit_def)
  have "\<not> is_digit CHR ''.''" by (simp add: is_digit_def)
  then show "CHR ''.'' \<noteq> hex_digit d" using dig by auto
  show "digit_nat (hex_digit d) = d" using c by (simp add: digit_nat_def)
  have "of_char CHR ''0'' = (48 :: nat)" by simp
  then have "hex_digit d = CHR ''0'' \<longleftrightarrow> (of_char (hex_digit d) :: nat) = 48"
    by (metis of_char_eq_iff)
  then show "hex_digit d = CHR ''0'' \<longleftrightarrow> d = 0" using c by simp
qed

lemma to_dec_cases:
  assumes "n < 256"
  shows "to_dec n = (if n < 10 then [hex_digit n]
                     else if n < 100 then [hex_digit (n div 10), hex_digit (n mod 10)]
                     else [hex_digit (n div 10 div 10), hex_digit (n div 10 mod 10), hex_digit (n mod 10)])"
proof -
  have "n div 10 < 10 \<longleftrightarrow> n < 100" "n div 10 div 10 < 10" using assms by auto
  then show ?thesis
    by (simp add: to_dec_def to_base.simps[of 10 _ n] to_base.simps[of 10 _ "n div 10"]
        to_base.simps[of 10 _ "n div 10 div 10"])
qed

lemma octet_roundtrip: "n < 256 \<Longrightarrow> parse_octet (to_dec n) = Some n \<and> CHR ''.'' \<notin> set (to_dec n)"
proof -
  assume n: "n < 256"
  have small: "n mod 10 < 10" "n div 10 mod 10 < 10" by simp_all
  consider "n < 10" | "10 \<le> n" "n < 100" | "100 \<le> n" by linarith
  then show ?thesis
  proof cases
    case 1
    then have e: "to_dec n = [hex_digit n]" using n by (simp add: to_dec_cases)
    show ?thesis
      using 1 n hex_digit_dec[OF 1]
      by (auto simp: e parse_octet_def all_digits_def dec_value_def)
  next
    case 2
    then have d: "n div 10 < 10" "n div 10 \<noteq> 0" by auto
    have e: "to_dec n = [hex_digit (n div 10), hex_digit (n mod 10)]" using 2 n by (simp add: to_dec_cases)
    show ?thesis
      using n hex_digit_dec[OF d(1)] hex_digit_dec[OF small(1)] d(2)
      by (auto simp: e parse_octet_def all_digits_def dec_value_def)
  next
    case 3
    then have d: "n div 10 div 10 < 10" "n div 10 div 10 \<noteq> 0" using n by auto
    have e: "to_dec n = [hex_digit (n div 10 div 10), hex_digit (n div 10 mod 10), hex_digit (n mod 10)]"
      using 3 n by (simp add: to_dec_cases)
    show ?thesis
      using n hex_digit_dec[OF d(1)] hex_digit_dec[OF small(1)] hex_digit_dec[OF small(2)] d(2)
      by (auto simp: e parse_octet_def all_digits_def dec_value_def)
  qed
qed

lemma octets_of_nat:
  "((n div 16777216 * 256 + n div 65536 mod 256) * 256 + n div 256 mod 256) * 256 + n mod 256 = (n :: nat)"
proof -
  have "n div 16777216 = n div 65536 div 256" "n div 65536 = n div 256 div 256"
    by (simp_all add: div_mult2_eq[symmetric])
  then have "n div 16777216 * 256 + n div 65536 mod 256 = n div 65536"
    "n div 65536 * 256 + n div 256 mod 256 = n div 256"
    by (metis div_mult_mod_eq)+
  then show ?thesis by simp
qed

lemma parse_v4_str_v4: "parse_v4 (str_v4 w) = Some w"
proof -
  define n where "n = unat w"
  have "unat w < 2 ^ LENGTH(32)" by (rule unsigned_less)
  then have lt: "n < 4294967296" by (simp add: n_def)
  define a b c d where "a = n div 16777216" and "b = n div 65536 mod 256" and "c = n div 256 mod 256" and "d = n mod 256"
  have bounds: "a < 256" "b < 256" "c < 256" "d < 256"
    using lt by (simp_all add: a_def b_def c_def d_def)
  note O = octet_roundtrip[OF bounds(1)] octet_roundtrip[OF bounds(2)] octet_roundtrip[OF bounds(3)]
    octet_roundtrip[OF bounds(4)]
  have s: "str_v4 w = to_dec a @ CHR ''.'' # to_dec b @ CHR ''.'' # to_dec c @ CHR ''.'' # to_dec d"
    by (simp add: str_v4_def Let_def join_with_def n_def a_def b_def c_def d_def)
  have "split_on CHR ''.'' (str_v4 w) = [to_dec a, to_dec b, to_dec c, to_dec d]"
    unfolding s using O by (simp add: split_on_append split_on_none)
  then have "parse_v4 (str_v4 w) = Some (word_of_octets [a, b, c, d])"
    using O by (simp add: parse_v4_def)
  moreover have "foldl (\<lambda>n b. n * 256 + b) 0 [a, b, c, d] = n"
    using octets_of_nat[of n] by (simp add: a_def b_def c_def d_def)
  ultimately have "parse_v4 (str_v4 w) = Some (of_nat n)" unfolding word_of_octets_def by (simp only:)
  then show ?thesis by (simp add: n_def)
qed

text \<open>A series of token checks: the times at which certificates were fetched, latest last.\<close>

fun fetch_times :: "forwarder \<Rightarrow> (rat \<times> string option \<times> (certs \<times> rat) option) list \<Rightarrow> rat list" where
  "fetch_times f [] = []"
| "fetch_times f ((now, kid, fetched) # checks) =
     (if needs_fetch f now kid then now # fetch_times (certs_for f now kid fetched) checks
      else fetch_times (certs_for f now kid fetched) checks)"

definition gap_of :: "forwarder \<Rightarrow> rat" where
  "gap_of f = (if fv_certs f = None then retry_no_certs_seconds else refetch_certs_seconds)"

lemma needs_fetch_gap: "needs_fetch f now kid \<Longrightarrow> fv_fetched_at f = Some t \<Longrightarrow> t + gap_of f \<le> now"
  by (auto simp: needs_fetch_def since_at_least_def gap_of_def split: option.splits)

lemma certs_for_keeps: "fv_certs f = Some cs \<Longrightarrow> fv_certs (certs_for f now kid fetched) \<noteq> None"
  by (auto simp: certs_for_def Let_def split: option.splits prod.splits)

lemma fetch_times_apart:
  "fv_certs f = Some cs \<Longrightarrow> fv_fetched_at f = Some t \<Longrightarrow>
   sorted_wrt (\<lambda>a b. a + refetch_certs_seconds \<le> b) (t # fetch_times f checks)"
proof (induction checks arbitrary: f cs t)
  case (Cons x checks)
  obtain now kid fetched where x: "x = (now, kid, fetched)" by (cases x)
  show ?case
  proof (cases "needs_fetch f now kid")
    case True
    have g: "t + refetch_certs_seconds \<le> now" using needs_fetch_gap[OF True Cons.prems(2)] Cons.prems(1) by (simp add: gap_of_def)
    obtain cs' where "fv_certs (certs_for f now kid fetched) = Some cs'" using certs_for_keeps Cons.prems(1) by blast
    moreover have "fv_fetched_at (certs_for f now kid fetched) = Some now"
      using True by (auto simp: certs_for_def Let_def split: option.splits prod.splits)
    ultimately have S: "sorted_wrt (\<lambda>a b. a + refetch_certs_seconds \<le> b) (now # fetch_times (certs_for f now kid fetched) checks)"
      by (rule Cons.IH)
    have "t + refetch_certs_seconds \<le> b" if "b \<in> set (fetch_times (certs_for f now kid fetched) checks)" for b
    proof -
      have "now + refetch_certs_seconds \<le> b" using S that by simp
      then show ?thesis using g by (simp add: refetch_certs_seconds_def)
    qed
    then show ?thesis using S g True by (simp add: x)
  next
    case False
    then show ?thesis using Cons.IH[OF Cons.prems] by (simp add: x certs_for_def)
  qed
qed simp

section \<open>Properties\<close>


lemma sample_v4: "parse_v4 ''203.0.113.9'' = Some 3405803785" "str_v4 3405803785 = ''203.0.113.9''"
proof -
  have "split_on CHR ''.'' ''203.0.113.9'' = [''203'', ''0'', ''113'', ''9'']" by code_simp
  moreover have "parse_all parse_octet [''203'', ''0'', ''113'', ''9''] = Some [203, 0, 113, 9]" by code_simp
  ultimately show "parse_v4 ''203.0.113.9'' = Some 3405803785" by (simp add: parse_v4_def word_of_octets_def)
  have "to_dec 203 = ''203''" "to_dec 0 = ''0''" "to_dec 113 = ''113''" "to_dec 9 = ''9''" by code_simp+
  then show "str_v4 3405803785 = ''203.0.113.9''" by (simp add: str_v4_def join_with_def)
qed


text \<open>
  The forwarding headers end at the middleware: no header it passes on is one of them, every other
  header is passed on in its place, and an address is taken as vouched only when the forwarder's token
  was sent and checked out.
\<close>

lemma forwarding_headers_stop_at_the_middleware:
  assumes "client_ip_middleware k_service env verify cfg peer hs = Inr ((ip, src), kept)"
  shows "kept = filter (\<lambda>h. py_lower (fst h) \<notin> set stripped_headers) hs \<and>
         (src = Vouched \<longrightarrow>
            (\<exists>v t ok. last_value client_ip_header hs = Some v \<and> last_value forwarder_token_header hs = Some t \<and>
               verify = Some ok \<and> ok t \<and> ip = the_default invalid_ip (normalise_ip (Some v))))"
proof -
  have kept: "kept = kept_headers hs"
    and R: "resolve_request k_service env verify (values_of ''x-forwarded-for'' hs) peer
          (last_value client_ip_header hs) (last_value forwarder_token_header hs) cfg = Inr (ip, src)"
    using assms
    by (cases "resolve_request k_service env verify (values_of ''x-forwarded-for'' hs) peer
          (last_value client_ip_header hs) (last_value forwarder_token_header hs) cfg";
        simp add: client_ip_middleware_def)+
  have seen: "resolve_ip xs p h \<noteq> (i, Vouched)" for xs p h i
    by (auto simp: resolve_ip_def Let_def split: option.splits)
  have "\<exists>v t ok. last_value client_ip_header hs = Some v \<and> last_value forwarder_token_header hs = Some t \<and>
               verify = Some ok \<and> ok t \<and> ip = the_default invalid_ip (normalise_ip (Some v))" if "src = Vouched"
  proof (cases "last_value forwarder_token_header hs"; cases "last_value client_ip_header hs"; cases verify)
    fix t v ok
    assume S: "last_value forwarder_token_header hs = Some t" "last_value client_ip_header hs = Some v" "verify = Some ok"
    then show ?thesis
      using R that seen by (cases "ok t") (auto simp: resolve_request_def bind_res_Inr Let_def split: if_splits)
  qed (use R that seen in \<open>auto simp: resolve_request_def bind_res_Inr Let_def split: if_splits\<close>)
  then show ?thesis using kept by (simp add: kept_headers_def)
qed

lemma forwarding_headers_stop_at_the_middleware_witness:
  "filter (\<lambda>h. py_lower (fst h) \<notin> set stripped_headers)
     [(''host'', ''h''), (''TokenLean-Client-IP'', ''1.2.3.4''), (''X-Forwarded-For'', ''9.9.9.9'')] = [(''host'', ''h'')]"
proof -
  have "client_ip_middleware False [] None (PDict []) None
     [(''host'', ''h''), (''TokenLean-Client-IP'', ''1.2.3.4''), (''X-Forwarded-For'', ''9.9.9.9'')] =
     Inr ((''unknown'', From_Peer), [(''host'', ''h'')])" by code_simp
  from forwarding_headers_stop_at_the_middleware[OF this] show ?thesis by simp
qed

lemma sample_net: "ip_network (py_strip ''203.0.0.0/8'') = Some (Net4 (3405774848 AND prefix_mask 8) (prefix_mask 8))"
proof -
  have "split_on CHR ''.'' ''203.0.0.0'' = [''203'', ''0'', ''0'', ''0'']" by code_simp
  moreover have "parse_all parse_octet [''203'', ''0'', ''0'', ''0''] = Some [203, 0, 0, 0]" by code_simp
  ultimately have v: "parse_v4 ''203.0.0.0'' = Some 3405774848" by (simp add: parse_v4_def word_of_octets_def)
  have n: "prefix_len 32 ''8'' = Some 8" "split_on CHR ''/'' ''203.0.0.0/8'' = [''203.0.0.0'', ''8'']"
    "py_strip ''203.0.0.0/8'' = ''203.0.0.0/8''" by code_simp+
  show ?thesis unfolding n(3) ip_network_def Let_def n(2) by (simp add: net4_def v n(1))
qed

lemma sample_addr: "ip_address (py_strip ''203.0.113.9'') = Some (V4 3405803785)"
proof -
  have "py_strip ''203.0.113.9'' = ''203.0.113.9''" by code_simp
  then show ?thesis using sample_v4 by (simp add: ip_address_def)
qed

lemma sample_in_net: "in_net (unmap_v4 (V4 3405803785)) (Net4 (3405774848 AND prefix_mask 8) (prefix_mask 8))"
proof -
  have "in_net (V4 3405803785) (Net4 (3405774848 AND prefix_mask 8) (prefix_mask 8))"
    using prefix_mask_and[of "3405803785 :: 32 word" 8 3405774848] by simp
  then show ?thesis by (simp add: unmap_v4_def)
qed

lemma sample_ip_allowed: "ip_allowed ''203.0.113.9'' [] [''203.0.0.0/8'']"
  using sample_addr sample_net sample_in_net by (simp add: ip_allowed_def)

text \<open>
  The allowlist lets through exactly the addresses in one of its networks, an IPv4-mapped address as
  the IPv4 address it is: with no network configured everything passes, otherwise an unreadable address
  is refused and a network that cannot be read admits nothing. A network \<open>x/n\<close> holds the addresses whose
  first \<open>n\<close> bits are those of \<open>x\<close>.
\<close>

lemma allowlist_admits_exactly_its_networks:
  "(ip_allowed ip gs ts \<longleftrightarrow>
      (gs = [] \<and> ts = []) \<or>
      (\<exists>a c n. ip_address (py_strip ip) = Some a \<and> c \<in> set (gs @ ts) \<and> ip_network (py_strip c) = Some n \<and>
               in_net (unmap_v4 a) n)) \<and>
   (in_net (V4 w) (Net4 (x AND prefix_mask k) (prefix_mask k)) \<longleftrightarrow> drop_bit (32 - k) w = drop_bit (32 - k) x) \<and>
   (in_net (V6 w6 scope) (Net6 (x6 AND prefix_mask k) (prefix_mask k)) \<longleftrightarrow>
      drop_bit (128 - k) w6 = drop_bit (128 - k) x6) \<and>
   (ip_allowed invalid_ip gs ts \<longleftrightarrow> gs = [] \<and> ts = [])"
proof -
  have A: "ip_allowed ip gs ts \<longleftrightarrow>
      (gs = [] \<and> ts = []) \<or>
      (\<exists>a c n. ip_address (py_strip ip) = Some a \<and> c \<in> set (gs @ ts) \<and> ip_network (py_strip c) = Some n \<and>
               in_net (unmap_v4 a) n)" for ip
    by (cases "ip_address (py_strip ip)") (auto simp: ip_allowed_def list_ex_iff parse_networks_set)
  have "ip_address (py_strip invalid_ip) = None" by code_simp
  then have "ip_allowed invalid_ip gs ts \<longleftrightarrow> gs = [] \<and> ts = []" using A[of invalid_ip] by simp
  then show ?thesis using A prefix_mask_and[of w k x] prefix_mask_and[of w6 k x6] by simp
qed

lemma allowlist_admits_exactly_its_networks_witness:
  "ip_allowed ''203.0.113.9'' [''203.0.0.0/8'', ''not-a-network''] []"
  using allowlist_admits_exactly_its_networks[of "''203.0.113.9''" "[''203.0.0.0/8'', ''not-a-network'']" "[]"]
    sample_addr sample_net sample_in_net by auto

text \<open>
  Every IPv4 address survives the round trip through its text, so the address the middleware stores
  for a request is read back as the same one by the allowlist.
\<close>

lemma ipv4_text_roundtrip:
  "ip_address (str_ip (V4 w)) = Some (V4 w)"
  by (simp add: ip_address_def str_ip_def parse_v4_str_v4)

text \<open>
  The signing certificates are not fetched more often than once a minute once some are held, whatever
  tokens arrive, and a failed refresh keeps the certificates that were held.
\<close>

lemma certificate_fetches_are_bounded:
  assumes "fv_certs f = Some cs" and "fv_fetched_at f = Some t"
  shows "sorted_wrt (\<lambda>a b. a + 60 \<le> b) (t # fetch_times f checks) \<and>
         fv_certs (certs_for f now kid None) = Some cs"
  using fetch_times_apart[OF assms, of checks] assms(1)
  by (simp add: refetch_certs_seconds_def certs_for_def Let_def)

lemma certificate_fetches_are_bounded_witness:
  "sorted_wrt (\<lambda>a b. a + 60 \<le> b) (0 # fetch_times \<lparr>fv_sa_email = ''s'', fv_certs = Some [(''k'', ''pem'')], fv_expires = 100,
      fv_fetched_at = Some 0\<rparr> [(10, Some ''new'', None), (70, Some ''new'', None), (80, Some ''new'', None)])"
  by (rule certificate_fetches_are_bounded[THEN conjunct1]) simp_all

end
