(* ===== verification/Adapters.thy ===== *)
theory Adapters
  imports Providers
begin

text \<open>
  The provider adapters of \<open>providers/openai_adapter.py\<close>, \<open>anthropic_adapter.py\<close>, \<open>gemini_adapter.py\<close>,
  \<open>azure_adapter.py\<close>, \<open>bedrock_adapter.py\<close> and the thin classes over \<open>GenericLiteLLMAdapter\<close>: what each
  overrides of \<open>ProviderAdapter\<close>, as the record \<open>adapter_ops\<close> that \<open>outgoing_params_for\<close> calls, and as
  functions of their own where the pipeline stages call them. Every adapter satisfies
  \<open>adapter_contract\<close>; Anthropic is the only one that adds a parameter of the call itself. A dictionary
  that is changed in place is returned changed. \<open>fstr\<close> is \<open>str\<close> on a value that is no text.
\<close>

section \<open>Shared shapes\<close>

text \<open>The output budgets a tier maps to when the operator gives none.\<close>

definition thinking_defaults :: pydict where
  "thinking_defaults = [(''low'', PInt 1024), (''medium'', PInt 4096), (''high'', PInt 16000)]"

text \<open>\<open>d.get(key)\<close> where the key need not be a text.\<close>

definition get_key :: "pyval \<Rightarrow> pyval \<Rightarrow> pyval \<Rightarrow> pyexc + pyval" where
  "get_key d key dflt =
     (case key of
        PStr s \<Rightarrow> py_get d s dflt
      | _ \<Rightarrow> if \<not> is_dict d then Inl AttributeError else if hashable key then Inr dflt else Inl TypeError)"

definition effort_map :: "pyval \<Rightarrow> pyval \<Rightarrow> pyexc + pyval" where
  "effort_map config tier =
     bind_res (get_path config [''groups'', ''G12_reasoning'', ''effort_map'']) (\<lambda>m. get_key m tier (PDict []))"

text \<open>A tier is any value a request or a configuration holds; only four texts are tiers.\<close>

definition known_tier :: "pyval \<Rightarrow> bool" where
  "known_tier t \<longleftrightarrow> t \<in> PStr ` set reasoning_tiers"

definition is_off :: "pyval \<Rightarrow> bool" where
  "is_off t \<longleftrightarrow> t = PStr reasoning_off"

definition tier_default :: "pyval \<Rightarrow> pyval" where
  "tier_default t = (case t of PStr s \<Rightarrow> dget_or thinking_defaults s (PInt 1024) | _ \<Rightarrow> PInt 1024)"

text \<open>\<open>x - 1\<close> on a number.\<close>

definition minus_one :: "pyval \<Rightarrow> pyexc + pyval" where
  "minus_one v = (case v of PInt i \<Rightarrow> Inr (PInt (i - 1)) | PBool b \<Rightarrow> Inr (PInt (if b then 0 else -1))
                          | PFloat r \<Rightarrow> Inr (PFloat (r - 1)) | _ \<Rightarrow> Inl TypeError)"

definition json_mode :: "string \<Rightarrow> pyval \<Rightarrow> pydict" where
  "json_mode format_type schema =
     (if format_type = ''json_object'' then [(''response_format'', PDict [(''type'', PStr ''json_object'')])]
      else if format_type = ''json_schema'' \<and> py_truthy schema
      then [(''response_format'', PDict [(''type'', PStr ''json_schema''), (''json_schema'', schema)])]
      else [])"

text \<open>\<open>float(...)\<close> of a price multiplier of \<open>groups.G21_cache_alignment.providers.<name>\<close>.\<close>

definition multiplier :: "string \<Rightarrow> string \<Rightarrow> rat \<Rightarrow> pyval \<Rightarrow> pyexc + rat" where
  "multiplier name key dflt config =
     bind_res (get_path config [''groups'', ''G21_cache_alignment'', ''providers'', name]) (\<lambda>pcfg.
       bind_res (py_get pcfg key (PFloat dflt)) (\<lambda>v.
         case py_float v of Some r \<Rightarrow> Inr r
         | None \<Rightarrow> Inl (case v of PStr _ \<Rightarrow> ValueError | _ \<Rightarrow> TypeError)))"

section \<open>OpenAI\<close>

definition reasoning_model_families :: "string list" where
  "reasoning_model_families = [''o1'', ''o3'', ''o4'']"

definition openai_supports_reasoning :: "string \<Rightarrow> string \<Rightarrow> pyval \<Rightarrow> bool" where
  "openai_supports_reasoning name model config \<longleftrightarrow>
     list_ex (\<lambda>f. py_in f model) reasoning_model_families \<and> names_model (provider_entry name config) model"

definition openai_default_effort :: "string \<Rightarrow> string \<Rightarrow> pyval \<Rightarrow> string" where
  "openai_default_effort name model config =
     (case tier_of (provider_entry name config) of
        Some t \<Rightarrow> t
      | None \<Rightarrow> if openai_supports_reasoning name model config then ''medium'' else reasoning_off)"

definition openai_can_disable :: "string \<Rightarrow> string \<Rightarrow> bool" where
  "openai_can_disable name model \<longleftrightarrow> \<not> openai_supports_reasoning name model PNone"

definition openai_map_effort :: "pyval \<Rightarrow> pyval \<Rightarrow> pyexc + pydict" where
  "openai_map_effort tier config =
     (if \<not> known_tier tier \<or> is_off tier then Inr []
      else bind_res (effort_map config tier) (\<lambda>tier_cfg.
             bind_res (py_get tier_cfg ''openai'' tier) (\<lambda>v. Inr [(''reasoning_effort'', v)])))"

definition default_allowances :: pydict where
  "default_allowances = [(reasoning_off, PInt 1024), (''low'', PInt 1024), (''medium'', PInt 4096), (''high'', PInt 16384)]"

definition output_budget_keys :: "string list" where
  "output_budget_keys = [''max_completion_tokens'', ''max_tokens'']"

text \<open>\<open>((config or {}).get("groups", {})...) or {}\<close>.\<close>

definition headroom_cfg :: "pyval \<Rightarrow> pyexc + pyval" where
  "headroom_cfg config =
     bind_res (get_path (py_or config (PDict [])) [''groups'', ''G12_reasoning'', ''reasoning_headroom'']) (\<lambda>v.
       Inr (py_or v (PDict [])))"

text \<open>\<open>str(effort or hcfg.get("assumed_effort", "medium")).lower()\<close>.\<close>

definition effort_tier :: "(pyval \<Rightarrow> string) \<Rightarrow> pyval \<Rightarrow> pyval \<Rightarrow> pyexc + string" where
  "effort_tier fstr effort hcfg =
     (if py_truthy effort then Inr (py_lower (py_str fstr effort))
      else bind_res (py_get hcfg ''assumed_effort'' (PStr ''medium'')) (\<lambda>v. Inr (py_lower (py_str fstr v))))"

definition headroom_sum :: "string \<Rightarrow> pydict \<Rightarrow> pyval \<Rightarrow> int option" where
  "headroom_sum tier allowances answer_floor =
     (case py_int (dget_or allowances tier (dget_or allowances ''medium'' (PInt 4096))) of
        None \<Rightarrow> None
      | Some a \<Rightarrow> map_option ((+) a) (py_int answer_floor))"

definition headroom_needed ::
  "(pyval \<Rightarrow> string) \<Rightarrow> string \<Rightarrow> string \<Rightarrow> pyval \<Rightarrow> pyval \<Rightarrow> pyexc + int option" where
  "headroom_needed fstr name model config effort =
     (if \<not> openai_supports_reasoning name model config then Inr None
      else bind_res (headroom_cfg config) (\<lambda>hcfg.
             bind_res (py_get hcfg ''enabled'' (PBool True)) (\<lambda>en.
               if \<not> py_truthy en then Inr None
               else bind_res (effort_tier fstr effort hcfg) (\<lambda>tier.
                      bind_res (py_get hcfg ''allowance_tokens'' PNone) (\<lambda>over.
                        bind_res (dict_update default_allowances (py_or over (PDict []))) (\<lambda>allowances.
                          bind_res (py_get hcfg ''answer_floor_tokens'' (PInt 512)) (\<lambda>answer_floor.
                            Inr (headroom_sum tier allowances answer_floor))))))))"

definition headroom_ceiling :: "string \<Rightarrow> pyval \<Rightarrow> pyexc + int" where
  "headroom_ceiling model hcfg =
     bind_res (py_get hcfg ''max_output_tokens_by_model'' PNone) (\<lambda>b.
       case py_or b (PDict []) of
         PDict by_model \<Rightarrow>
           bind_res (py_get hcfg ''max_output_tokens'' (PInt 32768)) (\<lambda>dflt.
             let raw = (case find (\<lambda>(m, v). py_in (py_lower m) (py_lower model)) by_model of
                          Some (m, v) \<Rightarrow> v | None \<Rightarrow> dflt)
             in Inr (case py_int raw of Some n \<Rightarrow> n | None \<Rightarrow> 32768))
       | _ \<Rightarrow> Inl AttributeError)"

definition headroom_cap :: "string \<Rightarrow> string \<Rightarrow> pyval \<Rightarrow> pyexc + int option" where
  "headroom_cap name model config =
     (if \<not> openai_supports_reasoning name model config then Inr None
      else bind_res (headroom_cfg config) (\<lambda>hcfg.
             bind_res (py_get hcfg ''enabled'' (PBool True)) (\<lambda>en.
               if \<not> py_truthy en then Inr None
               else map_sum id Some (headroom_ceiling model hcfg))))"

definition budget_key :: "pydict \<Rightarrow> string option" where
  "budget_key params = find (\<lambda>k. dget_or params k PNone \<noteq> PNone) output_budget_keys"

definition disclosure :: "string \<Rightarrow> int \<Rightarrow> int \<Rightarrow> string \<Rightarrow> pyval" where
  "disclosure key from to effort =
     PDict [(''param'', PStr key), (''from'', PInt from), (''to'', PInt to), (''effort'', PStr effort),
            (''reason'', PStr ''reasoning_headroom'')]"

text \<open>The raise of a budget that is a positive number: the new budget and its tier.\<close>

definition raise_of ::
  "(pyval \<Rightarrow> string) \<Rightarrow> string \<Rightarrow> string \<Rightarrow> pyval \<Rightarrow> pyval \<Rightarrow> pyval \<Rightarrow> int \<Rightarrow> pyexc + (int \<times> string) option" where
  "raise_of fstr name model config hcfg effort budget =
     bind_res (effort_tier fstr effort hcfg) (\<lambda>tier.
       bind_res (headroom_needed fstr name model config (PStr tier)) (\<lambda>needed.
         case needed of
           None \<Rightarrow> Inr None
         | Some n \<Rightarrow>
             if n \<le> budget then Inr None
             else bind_res (headroom_ceiling model hcfg) (\<lambda>cap.
                    Inr (if min n cap \<le> budget then None else Some (min n cap, tier)))))"

definition openai_reserve ::
  "(pyval \<Rightarrow> string) \<Rightarrow> string \<Rightarrow> pydict \<Rightarrow> string \<Rightarrow> pyval \<Rightarrow> pyval \<Rightarrow> pydict \<times> (pyexc + pyval)" where
  "openai_reserve fstr name params model config requested_effort =
     (if \<not> openai_supports_reasoning name model config then (params, Inr PNone)
      else case bind_res (headroom_cfg config) (\<lambda>hcfg. map_sum id (\<lambda>en. (hcfg, en)) (py_get hcfg ''enabled'' (PBool True))) of
        Inl e \<Rightarrow> (params, Inl e)
      | Inr (hcfg, en) \<Rightarrow>
          if \<not> py_truthy en then (params, Inr PNone)
          else (case budget_key params of
             None \<Rightarrow> (params, Inr PNone)
           | Some key \<Rightarrow>
               (case py_int (dget_or params key PNone) of
                  None \<Rightarrow> (params, Inr PNone)
                | Some budget \<Rightarrow>
                    if budget \<le> 0 then (params, Inr PNone)
                    else (case raise_of fstr name model config hcfg
                                 (py_or requested_effort (dget_or params ''reasoning_effort'' PNone)) budget of
                            Inl e \<Rightarrow> (params, Inl e)
                          | Inr None \<Rightarrow> (params, Inr PNone)
                          | Inr (Some (new_budget, tier)) \<Rightarrow>
                              (dset key (PInt new_budget) params, Inr (disclosure key budget new_budget tier))))))"

definition openai_ops :: "(pyval \<Rightarrow> string) \<Rightarrow> string \<Rightarrow> adapter_ops" where
  "openai_ops fstr name =
     (base_ops name)
       \<lparr>ao_supports_reasoning := openai_supports_reasoning name,
        ao_supports_service_tier := True,
        ao_unsupported_params := [''thinking''],
        ao_reserve_headroom := openai_reserve fstr name\<rparr>"

section \<open>Azure and Bedrock\<close>

text \<open>Azure takes its own key whenever there is one; Bedrock reads credentials from the environment.\<close>

definition routed :: "string \<Rightarrow> string \<Rightarrow> string" where
  "routed namespace model = (if prefix (namespace @ ''/'') model then model else namespace @ ''/'' @ model)"

definition azure_build_call :: "string \<Rightarrow> pydict \<Rightarrow> pyval \<Rightarrow> string \<times> pydict" where
  "azure_build_call model provider_cfg api_key =
     (routed ''azure'' model,
      (''custom_llm_provider'', PStr ''azure'') # opt_field ''api_key'' api_key
        @ opt_field ''api_base'' (dget_or provider_cfg ''api_base'' PNone)
        @ opt_field ''api_version'' (dget_or provider_cfg ''api_version'' PNone))"

definition bedrock_build_call :: "string \<Rightarrow> pydict \<Rightarrow> pyval \<Rightarrow> string \<times> pydict" where
  "bedrock_build_call model provider_cfg api_key =
     (routed ''bedrock'' model,
      (''custom_llm_provider'', PStr ''bedrock'')
        # opt_field ''aws_region_name''
            (py_or (dget_or provider_cfg ''aws_region_name'' PNone)
               (py_or (dget_or provider_cfg ''aws_region'' PNone) (dget_or provider_cfg ''region'' PNone))))"

definition bedrock_ops :: adapter_ops where
  "bedrock_ops = (generic_ops ''bedrock'' [])\<lparr>ao_requires_api_key := False, ao_needs_marker := True\<rparr>"

section \<open>Anthropic\<close>

definition anthropic_map_effort :: "pyval \<Rightarrow> pyval \<Rightarrow> pyexc + pydict" where
  "anthropic_map_effort tier config =
     (if \<not> known_tier tier \<or> is_off tier then Inr []
      else bind_res (effort_map config tier) (\<lambda>tier_cfg.
             bind_res (py_get tier_cfg ''anthropic_tokens'' (tier_default tier)) (\<lambda>v.
               Inr (case py_int v of
                      None \<Rightarrow> []
                    | Some budget \<Rightarrow>
                        if budget \<le> 0 then []
                        else [(''thinking'', PDict [(''type'', PStr ''enabled''), (''budget_tokens'', PInt budget)])]))))"

definition thinking_incompatible_params :: "string list" where
  "thinking_incompatible_params = [''temperature'', ''top_p'', ''top_k'']"

definition reconcile_thinking_sampling :: "pydict \<Rightarrow> pydict" where
  "reconcile_thinking_sampling params =
     (if is_dict (dget_or params ''thinking'' PNone) then pop_all thinking_incompatible_params params else params)"

definition anthropic_cap :: "pydict \<Rightarrow> pyval \<Rightarrow> pyexc + pydict" where
  "anthropic_cap params max_tokens =
     (if \<not> py_truthy max_tokens then Inr (reconcile_thinking_sampling params)
      else bind_res (py_num max_tokens) (\<lambda>m.
        if m \<le> 1024 then Inr (dpop ''reasoning_effort'' (dpop ''thinking'' params))
        else (case dict_of (dget_or params ''thinking'' PNone) of
                None \<Rightarrow> Inr params
              | Some th \<Rightarrow>
                  (let p = reconcile_thinking_sampling params; budget = dget_or th ''budget_tokens'' PNone in
                   if budget = PNone then Inr p
                   else bind_res (py_lt budget max_tokens) (\<lambda>below.
                     if below then Inr p
                     else bind_res (minus_one max_tokens) (\<lambda>b.
                            Inr (dset ''thinking'' (PDict (dset ''budget_tokens'' b th)) p)))))))"

definition context_mgmt_beta :: string where
  "context_mgmt_beta = ''context-management-2025-06-27''"

definition clear_tool_uses :: string where
  "clear_tool_uses = ''clear_tool_uses_20250919''"

definition editing_strategy :: "pydict \<Rightarrow> pydict" where
  "editing_strategy cfg =
     (let t = dget_or cfg ''strategy'' (PStr clear_tool_uses) in
      (''type'', t) # (if t = PStr clear_tool_uses \<and> py_truthy (dget_or cfg ''clear_tool_inputs'' (PBool False))
                     then [(''clear_tool_inputs'', PBool True)] else []))"

definition with_beta :: "(pyval \<Rightarrow> string) \<Rightarrow> pyval \<Rightarrow> pyval" where
  "with_beta fstr existing =
     PStr (if py_truthy existing then py_str fstr existing @ '','' @ context_mgmt_beta else context_mgmt_beta)"

definition anthropic_context :: "(pyval \<Rightarrow> string) \<Rightarrow> pydict \<Rightarrow> pydict \<Rightarrow> pyexc + pydict" where
  "anthropic_context fstr params cfg =
     (if \<not> py_truthy (dget_or cfg ''enabled'' (PBool False)) then Inr params
      else (let out = dset ''context_management'' (PDict [(''edits'', PList [PDict (editing_strategy cfg)])]) params in
            bind_res (dict_update [] (py_or (dget_or out ''extra_headers'' PNone) (PDict []))) (\<lambda>extra.
              let existing = dget_or extra ''anthropic-beta'' (PStr []) in
              bind_res (contains (PStr context_mgmt_beta) existing) (\<lambda>has.
                let extra' = (if has then extra else dset ''anthropic-beta'' (with_beta fstr existing) extra)
                in Inr (dset ''extra_headers'' (PDict extra') out)))))"

definition anthropic_ops :: "(pyval \<Rightarrow> string) \<Rightarrow> adapter_ops" where
  "anthropic_ops fstr =
     (base_ops ''anthropic'')
       \<lparr>ao_unsupported_params := [''parallel_tool_calls'', ''logprobs'', ''top_logprobs'', ''reasoning_effort''],
        ao_needs_marker := True,
        ao_cap_reasoning := anthropic_cap,
        ao_context_management := anthropic_context fstr\<rparr>"

section \<open>Gemini\<close>

definition gemini_map_effort :: "pyval \<Rightarrow> pyval \<Rightarrow> pyexc + pydict" where
  "gemini_map_effort tier config =
     (if is_off tier then Inr [(''thinking_config'', PDict [(''thinking_budget'', PInt 0)])]
      else if \<not> known_tier tier then Inr []
      else bind_res (effort_map config tier) (\<lambda>tier_cfg.
             bind_res (py_get tier_cfg ''gemini_thinking_budget'' (tier_default tier)) (\<lambda>v.
               Inr (case py_int v of
                      None \<Rightarrow> []
                    | Some budget \<Rightarrow> [(''thinking_config'', PDict [(''thinking_budget'', PInt (max 0 budget))])]))))"

definition gemini_default_effort :: "string \<Rightarrow> pyval \<Rightarrow> string" where
  "gemini_default_effort name config =
     (case tier_of (provider_entry name config) of Some t \<Rightarrow> t | None \<Rightarrow> ''medium'')"

text \<open>\<open>max(0, v)\<close> keeps the 0 unless \<open>v\<close> is greater.\<close>

definition floor_zero :: "pyval \<Rightarrow> pyval" where
  "floor_zero v = (if py_lt (PInt 0) v = Inr True then v else PInt 0)"

definition gemini_cap :: "pydict \<Rightarrow> pyval \<Rightarrow> pyexc + pydict" where
  "gemini_cap params max_tokens =
     (if \<not> py_truthy max_tokens then Inr params
      else (case dict_of (dget_or params ''thinking_config'' PNone) of
              None \<Rightarrow> Inr params
            | Some tc \<Rightarrow>
                (let budget = dget_or tc ''thinking_budget'' PNone in
                 if budget = PNone then Inr params
                 else bind_res (py_lt budget max_tokens) (\<lambda>below.
                   if below then Inr params
                   else bind_res (minus_one max_tokens) (\<lambda>b.
                          Inr (dset ''thinking_config'' (PDict (dset ''thinking_budget'' (floor_zero b) tc)) params))))))"

definition gemini_build_call ::
  "(pyval \<Rightarrow> string) \<Rightarrow> string \<Rightarrow> pydict \<Rightarrow> pyval \<Rightarrow> pyexc + string \<times> pydict" where
  "gemini_build_call fstr model provider_cfg api_key =
     build_call fstr (base_ops ''gemini'') model
       (if dget provider_cfg ''litellm_prefix'' = None then dset ''litellm_prefix'' (PStr ''gemini'') provider_cfg
        else provider_cfg) api_key"

definition gemini_ops :: adapter_ops where
  "gemini_ops =
     (base_ops ''gemini'')
       \<lparr>ao_unsupported_params := [''parallel_tool_calls'', ''logprobs'', ''top_logprobs'', ''thinking'', ''reasoning_effort''],
        ao_cap_reasoning := gemini_cap\<rparr>"

section \<open>Every adapter\<close>

text \<open>The name of an adapter and its class, as the registry or the entry makes it.\<close>

definition adapter_name :: "adapter \<Rightarrow> pyval" where
  "adapter_name a = (case a of Registered n \<Rightarrow> PStr n | Generic name entry \<Rightarrow> py_or name (PStr ''generic''))"

definition is_openai_family :: "string \<Rightarrow> bool" where
  "is_openai_family n \<longleftrightarrow> n = ''openai'' \<or> n = ''azure''"

definition ops_for :: "(pyval \<Rightarrow> string) \<Rightarrow> adapter \<Rightarrow> adapter_ops" where
  "ops_for fstr a =
     (case a of
        Registered n \<Rightarrow>
          if is_openai_family n then openai_ops fstr n
          else if n = ''anthropic'' then anthropic_ops fstr
          else if n = ''gemini'' then gemini_ops
          else if n = ''bedrock'' then bedrock_ops
          else generic_ops n []
      | Generic name entry \<Rightarrow> generic_ops (py_str fstr (py_or name (PStr ''generic''))) entry)"

text \<open>The thin adapters route under their own namespace unless the entry says otherwise.\<close>

definition generic_build_call ::
  "(pyval \<Rightarrow> string) \<Rightarrow> adapter_ops \<Rightarrow> string option \<Rightarrow> string \<Rightarrow> pydict \<Rightarrow> pyval \<Rightarrow> pyexc + string \<times> pydict" where
  "generic_build_call fstr ops own_prefix model provider_cfg api_key =
     build_call fstr ops model
       (case own_prefix of
          Some p \<Rightarrow>
            if \<not> py_truthy (dget_or provider_cfg ''litellm_prefix'' PNone) \<and>
               \<not> py_truthy (dget_or provider_cfg ''openai_compatible'' PNone)
            then dset ''litellm_prefix'' (PStr p) provider_cfg else provider_cfg
        | None \<Rightarrow> provider_cfg) api_key"

definition call_of ::
  "(pyval \<Rightarrow> string) \<Rightarrow> adapter \<Rightarrow> string \<Rightarrow> pydict \<Rightarrow> pyval \<Rightarrow> pyexc + string \<times> pydict" where
  "call_of fstr a model provider_cfg api_key =
     (case a of
        Registered n \<Rightarrow>
          if n = ''azure'' then Inr (azure_build_call model provider_cfg api_key)
          else if n = ''bedrock'' then Inr (bedrock_build_call model provider_cfg api_key)
          else if n = ''gemini'' then gemini_build_call fstr model provider_cfg api_key
          else if n = ''openai'' \<or> n = ''anthropic'' then build_call fstr (ops_for fstr a) model provider_cfg api_key
          else generic_build_call fstr (ops_for fstr a) (Some n) model provider_cfg api_key
      | Generic name entry \<Rightarrow> generic_build_call fstr (ops_for fstr a) None model provider_cfg api_key)"

definition generic_map_effort :: "pyval \<Rightarrow> pyval \<Rightarrow> pyval \<Rightarrow> pyexc + pydict" where
  "generic_map_effort name tier config =
     (if is_off tier then Inr []
      else bind_res (effort_map config tier) (\<lambda>tier_cfg.
             bind_res (get_key tier_cfg name PNone) (\<lambda>v.
               Inr (if v = PNone then [] else [(''reasoning_effort'', v)]))))"

definition map_effort :: "adapter \<Rightarrow> pyval \<Rightarrow> pyval \<Rightarrow> pyexc + pydict" where
  "map_effort a tier config =
     (case a of
        Registered n \<Rightarrow>
          if is_openai_family n then openai_map_effort tier config
          else if n = ''anthropic'' then anthropic_map_effort tier config
          else if n = ''gemini'' then gemini_map_effort tier config
          else generic_map_effort (PStr n) tier config
      | Generic name entry \<Rightarrow> generic_map_effort (adapter_name a) tier config)"

definition default_effort_of :: "adapter \<Rightarrow> string \<Rightarrow> pyval \<Rightarrow> string" where
  "default_effort_of a model config =
     (case a of
        Registered n \<Rightarrow>
          if is_openai_family n then openai_default_effort n model config
          else if n = ''anthropic'' then default_reasoning_effort n config
          else if n = ''gemini'' then gemini_default_effort n config
          else reasoning_off
      | Generic name entry \<Rightarrow> (case tier_of entry of Some t \<Rightarrow> t | None \<Rightarrow> reasoning_off))"

definition can_disable_reasoning :: "adapter \<Rightarrow> string \<Rightarrow> bool" where
  "can_disable_reasoning a model =
     (case a of
        Registered n \<Rightarrow>
          if is_openai_family n then openai_can_disable n model
          else n = ''anthropic'' \<or> n = ''gemini''
      | Generic name entry \<Rightarrow> py_truthy (dget_or entry ''can_disable_reasoning'' (PBool False)))"

definition structured_output :: "adapter \<Rightarrow> string \<Rightarrow> pyval \<Rightarrow> pydict" where
  "structured_output a format_type schema =
     (if a = Registered ''anthropic'' then
        (if format_type \<in> {''json_object'', ''json_schema''} then
           [(''tools'', PList [PDict [(''name'', PStr ''structured_output''),
               (''description'', PStr ''Return the response as structured JSON''),
               (''input_schema'', py_or schema (PDict [(''type'', PStr ''object'')]))]]),
            (''tool_choice'', PDict [(''type'', PStr ''tool''), (''name'', PStr ''structured_output'')])]
         else [])
      else if a = Registered ''gemini'' then
        (if format_type = ''json_schema'' \<and> py_truthy schema
         then [(''response_schema'', schema), (''response_mime_type'', PStr ''application/json'')]
         else if format_type = ''json_object'' then [(''response_mime_type'', PStr ''application/json'')]
         else [])
      else json_mode format_type schema)"

section \<open>What a cached token costs\<close>

definition cache_read_multiplier :: "adapter \<Rightarrow> pyval \<Rightarrow> pyexc + rat" where
  "cache_read_multiplier a config =
     (case a of
        Registered n \<Rightarrow>
          if is_openai_family n then multiplier ''openai'' ''cache_read_multiplier'' (1 / 2) config
          else if n = ''anthropic'' then multiplier n ''cache_read_multiplier'' (1 / 10) config
          else if n = ''gemini'' then multiplier n ''cache_read_multiplier'' (1 / 4) config
          else multiplier n ''cache_read_multiplier'' 1 config
      | Generic name entry \<Rightarrow>
          (case adapter_name a of
             PStr n \<Rightarrow> multiplier n ''cache_read_multiplier'' 1 config
           | k \<Rightarrow> bind_res (get_path config [''groups'', ''G21_cache_alignment'', ''providers'']) (\<lambda>p.
                   bind_res (get_key p k (PDict [])) (\<lambda>_. Inr 1))))"

definition cache_write_multiplier :: "adapter \<Rightarrow> pyval \<Rightarrow> pyexc + rat" where
  "cache_write_multiplier a config =
     (case a of
        Registered n \<Rightarrow>
          if is_openai_family n then multiplier ''openai'' ''cache_write_multiplier'' 1 config
          else if n = ''anthropic'' then multiplier n ''cache_write_multiplier'' (5 / 4) config
          else if n = ''gemini'' then Inr 1
          else multiplier n ''cache_write_multiplier'' 1 config
      | Generic name entry \<Rightarrow>
          (case adapter_name a of
             PStr n \<Rightarrow> multiplier n ''cache_write_multiplier'' 1 config
           | k \<Rightarrow> bind_res (get_path config [''groups'', ''G21_cache_alignment'', ''providers'']) (\<lambda>p.
                   bind_res (get_key p k (PDict [])) (\<lambda>_. Inr 1))))"

definition cache_write_1h_multiplier :: "adapter \<Rightarrow> pyval \<Rightarrow> pyexc + rat" where
  "cache_write_1h_multiplier a config =
     (if a = Registered ''anthropic'' then multiplier ''anthropic'' ''cache_write_multiplier_1h'' 2 config
      else cache_write_multiplier a config)"

section \<open>Usage in a provider's own shape\<close>

definition write_1h_split :: "pyval \<Rightarrow> pydict option" where
  "write_1h_split source =
     (case source of PDict d \<Rightarrow> dict_of (dget_or d ''cache_creation_token_details'' PNone) | _ \<Rightarrow> None)"

definition cache_write_1h_tokens :: "pyval \<Rightarrow> pyval \<Rightarrow> int option" where
  "cache_write_1h_tokens usage details =
     (case write_1h_split details of
        Some split \<Rightarrow> first_in split [''ephemeral_1h_input_tokens'']
      | None \<Rightarrow> (case write_1h_split usage of
                  Some split \<Rightarrow> first_in split [''ephemeral_1h_input_tokens'']
                | None \<Rightarrow> None))"

definition or_first :: "int option \<Rightarrow> pyval \<Rightarrow> string list \<Rightarrow> int option" where
  "or_first v source ks = (case v of Some n \<Rightarrow> Some n | None \<Rightarrow> first_present source ks)"

definition anthropic_usage :: "pyval \<Rightarrow> pyexc + usage_counts \<times> int option" where
  "anthropic_usage response =
     bind_res (py_get response ''usage'' (PDict [])) (\<lambda>u0.
       let usage = py_or u0 (PDict []) in
       bind_res (py_get usage ''prompt_tokens_details'' PNone) (\<lambda>d0.
         let details = py_or d0 (PDict []) in
         bind_res (py_get details ''cached_tokens'' (PInt 0)) (\<lambda>c0.
         bind_res (py_get usage ''cache_read_input_tokens'' (PInt 0)) (\<lambda>c1.
         bind_res (py_get usage ''thinking_tokens'' (PInt 0)) (\<lambda>r0.
         bind_res (if py_truthy r0 then Inr r0
                   else bind_res (py_get usage ''completion_tokens_details'' PNone) (\<lambda>cd.
                          bind_res (py_get (py_or cd (PDict [])) ''reasoning_tokens'' (PInt 0)) (\<lambda>r.
                            Inr (py_or r (PInt 0))))) (\<lambda>reasoning.
           Inr (\<lparr>u_cached = (if py_truthy c0 then c0 else py_or c1 (PInt 0)),
                 u_reasoning = reasoning,
                 u_cache_read = or_first (first_present details [''cached_tokens'']) usage [''cache_read_input_tokens''],
                 u_cache_write = or_first (first_present details [''cache_write_tokens'', ''cache_creation_tokens''])
                                   usage [''cache_creation_input_tokens'']\<rparr>,
                cache_write_1h_tokens usage details)))))))"

definition gemini_usage :: "pyval \<Rightarrow> pyexc + usage_counts" where
  "gemini_usage response =
     bind_res (py_get response ''usage'' (PDict [])) (\<lambda>u0.
       let usage = py_or u0 (PDict []) in
       bind_res (py_get usage ''prompt_tokens_details'' PNone) (\<lambda>d0.
         let details = py_or d0 (PDict []) in
         bind_res (py_get details ''cached_tokens'' (PInt 0)) (\<lambda>c0.
         bind_res (py_get usage ''cached_content_token_count'' (PInt 0)) (\<lambda>c1.
         bind_res (py_get usage ''cached_content_input_tokens'' (PInt 0)) (\<lambda>c2.
         bind_res (py_get usage ''completion_tokens_details'' PNone) (\<lambda>cd.
         bind_res (py_get (py_or cd (PDict [])) ''reasoning_tokens'' (PInt 0)) (\<lambda>r0.
         bind_res (py_get usage ''thinking_tokens'' (PInt 0)) (\<lambda>r1.
           Inr \<lparr>u_cached = (if py_truthy c0 then c0 else py_or c1 (py_or c2 (PInt 0))),
                u_reasoning = (if py_truthy r0 then r0 else py_or r1 (PInt 0)),
                u_cache_read = or_first (first_present details [''cached_tokens''])
                                 usage [''cached_content_token_count'', ''cached_content_input_tokens''],
                u_cache_write = first_present details [''cache_write_tokens'', ''cache_creation_tokens'']\<rparr>))))))))"

section \<open>Lemmas: the contract of every adapter\<close>

lemma keys_dset: "fst ` set (dset k v d) = insert k (fst ` set d)"
  by (simp add: dom_update)

lemma keys_pop_all: "fst ` set (pop_all ks d) = fst ` set d - set ks"
  by (rule set_eqI) (simp only: Diff_iff keys_iff_dget dget_pop_all, simp)

lemma keys_dpop: "fst ` set (dpop k d) = fst ` set d - {k}"
  by (rule set_eqI) (simp only: Diff_iff keys_iff_dget dget_dpop, simp)

lemma field_key: "dict_of (dget_or d k PNone) = Some th \<Longrightarrow> dget d k = Some (PDict th)"
  by (cases "dget d k") (auto simp: dget_or_def elim: dict_of.elims)

lemma dict_of_is_dict: "dict_of v = Some d \<Longrightarrow> is_dict v"
  by (cases v) simp_all

lemma reconcile_dget:
  "dget (reconcile_thinking_sampling p) k =
     (if is_dict (dget_or p ''thinking'' PNone) \<and> k \<in> set thinking_incompatible_params then None else dget p k)"
  by (auto simp: reconcile_thinking_sampling_def dget_pop_all)

text \<open>What the cap makes of the parameters, case by case.\<close>

lemma anthropic_cap_cases:
  assumes "anthropic_cap p mt = Inr p'"
  shows "(\<not> py_truthy mt \<and> p' = reconcile_thinking_sampling p) \<or>
    (\<exists>m. py_truthy mt \<and> py_num mt = Inr m \<and>
       (m \<le> 1024 \<and> p' = dpop ''reasoning_effort'' (dpop ''thinking'' p) \<or>
        1024 < m \<and> (dict_of (dget_or p ''thinking'' PNone) = None \<and> p' = p \<or>
          (\<exists>th. dict_of (dget_or p ''thinking'' PNone) = Some th \<and>
             (p' = reconcile_thinking_sampling p \<and>
                (dget_or th ''budget_tokens'' PNone = PNone \<or> py_lt (dget_or th ''budget_tokens'' PNone) mt = Inr True) \<or>
              (\<exists>b. minus_one mt = Inr b \<and>
                 p' = dset ''thinking'' (PDict (dset ''budget_tokens'' b th)) (reconcile_thinking_sampling p)))))))"
proof (cases "py_truthy mt")
  case True
  then obtain m where m: "py_num mt = Inr m" using assms by (cases "py_num mt") (auto simp: anthropic_cap_def)
  show ?thesis
  proof (cases "m \<le> 1024")
    case True
    then show ?thesis using assms m \<open>py_truthy mt\<close> by (simp add: anthropic_cap_def)
  next
    case False
    show ?thesis
    proof (cases "dict_of (dget_or p ''thinking'' PNone)")
      case None
      then show ?thesis using assms m \<open>py_truthy mt\<close> False by (simp add: anthropic_cap_def)
    next
      case (Some th)
      let ?b = "dget_or th ''budget_tokens'' PNone"
      have "(if ?b = PNone then Inr (reconcile_thinking_sampling p)
             else bind_res (py_lt ?b mt) (\<lambda>below. if below then Inr (reconcile_thinking_sampling p)
               else bind_res (minus_one mt) (\<lambda>b. Inr (dset ''thinking'' (PDict (dset ''budget_tokens'' b th))
                      (reconcile_thinking_sampling p))))) = Inr p'"
        using assms m \<open>py_truthy mt\<close> False Some by (simp add: anthropic_cap_def Let_def)
      then have "(p' = reconcile_thinking_sampling p \<and> (?b = PNone \<or> py_lt ?b mt = Inr True)) \<or>
          (\<exists>b. minus_one mt = Inr b \<and>
             p' = dset ''thinking'' (PDict (dset ''budget_tokens'' b th)) (reconcile_thinking_sampling p))"
        by (auto simp: bind_res_Inr split: if_splits)
      then show ?thesis using m \<open>py_truthy mt\<close> False Some by auto
    qed
  qed
qed (use assms in \<open>simp add: anthropic_cap_def\<close>)

lemma keys_reconcile: "fst ` set (reconcile_thinking_sampling p) \<subseteq> fst ` set p"
  by (auto simp: reconcile_thinking_sampling_def keys_pop_all)

lemma keys_reconcile_set:
  "dict_of (dget_or p k PNone) = Some th \<Longrightarrow>
   fst ` set (dset k v (reconcile_thinking_sampling p)) \<subseteq> fst ` set p"
  using keys_reconcile[of p] field_key[of p k th] keys_iff_dget[of k p] by (auto simp: keys_dset)

lemma anthropic_cap_keys:
  assumes "anthropic_cap p mt = Inr p'"
  shows "fst ` set p' \<subseteq> fst ` set p"
  using anthropic_cap_cases[OF assms] keys_reconcile[of p] keys_reconcile_set[of p "''thinking''"]
    Diff_subset[of "fst ` set p"]
  by (elim disjE exE conjE) (simp_all add: keys_dpop subset_iff)

lemma dset_keys_subset: "k \<in> fst ` set d \<Longrightarrow> fst ` set (dset k v d) \<subseteq> fst ` set d"
  by (simp add: keys_dset)

lemma gemini_cap_keys: "gemini_cap p mt = Inr p' \<Longrightarrow> fst ` set p' \<subseteq> fst ` set p"
proof -
  assume a: "gemini_cap p mt = Inr p'"
  show ?thesis
  proof (cases "\<not> py_truthy mt \<or> dict_of (dget_or p ''thinking_config'' PNone) = None")
    case True
    then show ?thesis using a by (auto simp: gemini_cap_def split: if_splits)
  next
    case False
    then obtain tc where t: "dict_of (dget_or p ''thinking_config'' PNone) = Some tc" "py_truthy mt" by auto
    then have k: "''thinking_config'' \<in> fst ` set p" using field_key[of p "''thinking_config''"] by (simp add: keys_iff_dget)
    have "p' = p \<or> (\<exists>v. p' = dset ''thinking_config'' v p)"
      using a t by (auto simp: gemini_cap_def Let_def bind_res_Inr split: if_splits)
    then show ?thesis using dset_keys_subset[OF k] by blast
  qed
qed

lemma budget_key_present: "budget_key p = Some k \<Longrightarrow> dget p k \<noteq> None \<and> k \<in> set output_budget_keys"
  unfolding budget_key_def by (drule find_Some_in) (auto simp: dget_or_def split: option.splits)

text \<open>What the reservation did: nothing, or one disclosed raise of the budget the caller gave.\<close>

lemma openai_reserve_cases:
  assumes "openai_reserve fstr name p model cfg eff = (p', r)"
  shows "p' = p \<and> (\<forall>v. r = Inr v \<longrightarrow> v = PNone) \<or>
    (\<exists>hcfg key budget new tier. openai_supports_reasoning name model cfg \<and> headroom_cfg cfg = Inr hcfg \<and>
       budget_key p = Some key \<and>
       py_int (dget_or p key PNone) = Some budget \<and> 0 < budget \<and>
       raise_of fstr name model cfg hcfg (py_or eff (dget_or p ''reasoning_effort'' PNone)) budget = Inr (Some (new, tier)) \<and>
       p' = dset key (PInt new) p \<and> r = Inr (disclosure key budget new tier))"
proof (cases "bind_res (headroom_cfg cfg) (\<lambda>hcfg. map_sum id (\<lambda>en. (hcfg, en)) (py_get hcfg ''enabled'' (PBool True)))")
  case (Inl e)
  then show ?thesis using assms by (cases "openai_supports_reasoning name model cfg") (auto simp: openai_reserve_def)
next
  case (Inr x)
  then obtain hcfg en where x: "x = (hcfg, en)" "headroom_cfg cfg = Inr hcfg"
    by (cases "headroom_cfg cfg"; cases "py_get (projr (headroom_cfg cfg)) ''enabled'' (PBool True)") auto
  consider (off) "\<not> openai_supports_reasoning name model cfg \<or> \<not> py_truthy en"
    | (no_key) "openai_supports_reasoning name model cfg" "py_truthy en" "budget_key p = None"
    | (key) k where "openai_supports_reasoning name model cfg" "py_truthy en" "budget_key p = Some k"
    by (cases "budget_key p") auto
  then show ?thesis
  proof cases
    case (key k)
    define rs where "rs b = raise_of fstr name model cfg hcfg (py_or eff (dget_or p ''reasoning_effort'' PNone)) b" for b
    have R: "(case py_int (dget_or p k PNone) of None \<Rightarrow> (p, Inr PNone)
       | Some b \<Rightarrow> if b \<le> 0 then (p, Inr PNone)
           else (case rs b of Inl e \<Rightarrow> (p, Inl e) | Inr None \<Rightarrow> (p, Inr PNone)
                 | Inr (Some (nb, t)) \<Rightarrow> (dset k (PInt nb) p, Inr (disclosure k b nb t)))) = (p', r)"
      using assms Inr x key unfolding rs_def by (simp add: openai_reserve_def)
    show ?thesis
    proof (cases "py_int (dget_or p k PNone)")
      case (Some b)
      show ?thesis
      proof (cases "b \<le> 0")
        case False
        show ?thesis
        proof (cases "\<exists>nb t. rs b = Inr (Some (nb, t))")
          case True
          then obtain nb t where "rs b = Inr (Some (nb, t))" by blast
          then show ?thesis using R Some key x(2) False unfolding rs_def by simp
        next
          case no: False
          then show ?thesis using R Some False by (cases "rs b") (auto split: option.splits)
        qed
      qed (use R Some in auto)
    qed (use R in auto)
  next
    case off
    then have "(p, Inr PNone) = (p', r)"
      unfolding assms[symmetric] openai_reserve_def Inr x(1) by (cases "openai_supports_reasoning name model cfg") simp_all
    then show ?thesis by auto
  next
    case no_key
    then have "(p, Inr PNone) = (p', r)" unfolding assms[symmetric] openai_reserve_def Inr x(1) by simp
    then show ?thesis by auto
  qed
qed

lemma openai_reserve_keys: "fst ` set (fst (openai_reserve fstr name p model cfg eff)) \<subseteq> fst ` set p"
proof -
  obtain p' r where e: "openai_reserve fstr name p model cfg eff = (p', r)" by force
  have k: "k \<in> fst ` set p" if "budget_key p = Some k" for k
    using budget_key_present[OF that] by (simp add: keys_iff_dget)
  from openai_reserve_cases[OF e] show ?thesis
  proof (elim disjE exE conjE)
    fix key n assume "budget_key p = Some key" "p' = dset key (PInt n) p"
    then show ?thesis using dset_keys_subset k e by simp
  qed (use e in simp)
qed

text \<open>Context editing writes two parameters.\<close>

lemma anthropic_context_cases:
  assumes "anthropic_context fstr p ce = Inr p'"
  shows "p' = p \<or> (\<exists>s h. p' = dset ''extra_headers'' (PDict h) (dset ''context_management'' s p) \<and>
           (dget p ''extra_headers'' = None \<longrightarrow> h = [(''anthropic-beta'', PStr context_mgmt_beta)]))"
proof (cases "py_truthy (dget_or ce ''enabled'' (PBool False))")
  case True
  define s where "s = PDict [(''edits'', PList [PDict (editing_strategy ce)])]"
  have "dget_or (dset ''context_management'' s p) ''extra_headers'' PNone = dget_or p ''extra_headers'' PNone"
    by (simp add: dget_or_def dget_dset)
  moreover obtain extra where e: "dict_update [] (py_or (dget_or (dset ''context_management'' s p) ''extra_headers'' PNone) (PDict [])) = Inr extra"
    using assms True unfolding anthropic_context_def s_def Let_def by (auto simp: bind_res_Inr)
  ultimately have none: "dget p ''extra_headers'' = None \<Longrightarrow> extra = []"
    by (simp add: dget_or_def py_or_def dict_update_def)
  obtain has where h: "contains (PStr context_mgmt_beta) (dget_or extra ''anthropic-beta'' (PStr [])) = Inr has"
    and p': "p' = dset ''extra_headers'' (PDict (if has then extra
        else dset ''anthropic-beta'' (with_beta fstr (dget_or extra ''anthropic-beta'' (PStr []))) extra))
      (dset ''context_management'' s p)"
    using assms True e unfolding anthropic_context_def s_def Let_def by (auto simp: bind_res_Inr)
  have "\<not> has" if "extra = []"
    using h that by (auto simp: contains_def dget_or_def py_in_def context_mgmt_beta_def)
  then have "extra = [] \<Longrightarrow> p' = dset ''extra_headers'' (PDict [(''anthropic-beta'', PStr context_mgmt_beta)])
      (dset ''context_management'' s p)"
    using p' by (simp add: with_beta_def dget_or_def)
  moreover obtain h where "p' = dset ''extra_headers'' (PDict h) (dset ''context_management'' s p)"
    using p' by blast
  ultimately have "\<exists>h. p' = dset ''extra_headers'' (PDict h) (dset ''context_management'' s p) \<and>
      (dget p ''extra_headers'' = None \<longrightarrow> h = [(''anthropic-beta'', PStr context_mgmt_beta)])"
    using none by (cases "dget p ''extra_headers''") (simp_all, blast)
  then show ?thesis by (intro disjI2) (rule exI[of _ s])
qed (use assms in \<open>simp add: anthropic_context_def\<close>)

interpretation openai_adapter: adapter_contract "openai_ops fstr name" "{}"
  by unfold_locales (simp_all add: openai_ops_def base_ops_def openai_reserve_keys)

interpretation bedrock_adapter: adapter_contract bedrock_ops "{}"
  by unfold_locales (simp_all add: bedrock_ops_def generic_ops_def base_ops_def)

interpretation gemini_adapter: adapter_contract gemini_ops "{}"
  by unfold_locales (simp_all add: gemini_ops_def base_ops_def gemini_cap_keys)

interpretation anthropic_adapter: adapter_contract "anthropic_ops fstr" "{''context_management'', ''extra_headers''}"
proof unfold_locales
  show "fst ` set p' \<subseteq> fst ` set p" if "ao_cap_reasoning (anthropic_ops fstr) p mt = Inr p'" for p mt p'
    using that anthropic_cap_keys by (simp add: anthropic_ops_def base_ops_def)
  show "fst ` set (fst (ao_reserve_headroom (anthropic_ops fstr) p model cfg effort)) \<subseteq> fst ` set p" for p model cfg effort
    by (simp add: anthropic_ops_def base_ops_def)
  show "fst ` set p' \<subseteq> fst ` set p \<union> {''context_management'', ''extra_headers''}"
    if "ao_context_management (anthropic_ops fstr) p ce = Inr p'" for p ce p'
  proof -
    have "anthropic_context fstr p ce = Inr p'" using that by (simp add: anthropic_ops_def base_ops_def)
    from anthropic_context_cases[OF this] show ?thesis by (elim disjE exE conjE) (simp_all only: keys_dset, blast+)
  qed
qed

lemma anthropic_hooks:
  "ao_cap_reasoning (anthropic_ops fstr) = anthropic_cap"
  "ao_reserve_headroom (anthropic_ops fstr) = (\<lambda>p m c e. (p, Inr PNone))"
  "ao_context_management (anthropic_ops fstr) = anthropic_context fstr"
  by (simp_all add: anthropic_ops_def base_ops_def)

lemma openai_hooks:
  "ao_cap_reasoning (openai_ops fstr n) = (\<lambda>p mt. Inr p)"
  "ao_reserve_headroom (openai_ops fstr n) = openai_reserve fstr n"
  "ao_context_management (openai_ops fstr n) = (\<lambda>p ce. Inr p)"
  by (simp_all add: openai_ops_def base_ops_def)

section \<open>Properties\<close>

lemma ops_for_contract:
  "adapter_contract (ops_for fstr a)
     (if a = Registered ''anthropic'' then {''context_management'', ''extra_headers''} else {})"
proof (cases a)
  case (Registered n)
  consider "is_openai_family n" | "n = ''anthropic''" | "n = ''gemini''" | "n = ''bedrock''"
    | "\<not> is_openai_family n" "n \<noteq> ''anthropic''" "n \<noteq> ''gemini''" "n \<noteq> ''bedrock''"
    by blast
  then show ?thesis
    by cases (simp_all add: Registered ops_for_def is_openai_family_def openai_adapter.adapter_contract_axioms
      anthropic_adapter.adapter_contract_axioms gemini_adapter.adapter_contract_axioms
      bedrock_adapter.adapter_contract_axioms generic_adapter.adapter_contract_axioms, auto
      intro: openai_adapter.adapter_contract_axioms)
next
  case (Generic name entry)
  then show ?thesis by (simp add: ops_for_def generic_adapter.adapter_contract_axioms)
qed

text \<open>Where the outgoing parameters come from: three hooks after the strips.\<close>

lemma outgoing_steps:
  assumes "outgoing_params_for ops params model cfg tenant = (raised, Inr out)"
  obtains p6 p7 v ce where
    "ao_cap_reasoning ops (hygienic ops model cfg params)
       (dget_or (hygienic ops model cfg params) ''max_tokens'' PNone) = Inr p6"
    and "ao_reserve_headroom ops p6 model cfg
       (dget_or (filter (\<lambda>kv. forwardable (fst kv)) params) ''reasoning_effort'' PNone) = (p7, v)"
    and "raised = (case v of Inr w \<Rightarrow> if py_truthy w then w else PNone | Inl _ \<Rightarrow> PNone)"
    and "ao_context_management ops p7 ce = Inr out"
proof -
  define p5 where "p5 = hygienic ops model cfg params"
  define eff where "eff = dget_or (filter (\<lambda>kv. forwardable (fst kv)) params) ''reasoning_effort'' PNone"
  obtain p6 where p6: "ao_cap_reasoning ops p5 (dget_or p5 ''max_tokens'' PNone) = Inr p6"
    using assms unfolding p5_def outgoing_params_for_def Let_def by (auto split: sum.splits)
  obtain p7 v where r: "ao_reserve_headroom ops p6 model cfg eff = (p7, v)" by (meson surj_pair)
  have e: "raised = (case v of Inr w \<Rightarrow> if py_truthy w then w else PNone | Inl _ \<Rightarrow> PNone)"
    "bind_res (context_editing_config cfg tenant) (ao_context_management ops p7) = Inr out"
    using assms p6 r unfolding p5_def eff_def outgoing_params_for_def Let_def by simp_all
  then obtain ce where "ao_context_management ops p7 ce = Inr out" unfolding bind_res_Inr by blast
  then show ?thesis using that p6 r e(1) unfolding p5_def eff_def by blast
qed

text \<open>
  C21. Through every adapter of the repository, whatever a request holds, no internal flag and no
  argument of the upstream call leaves as a parameter. The single exception is the one the proxy
  writes itself: with context editing on, Anthropic gets \<open>extra_headers\<close>, and its value is the beta flag
  alone, so nothing of a header the request tried to set can be in it.
\<close>

theorem no_internal_flag_leaves:
  assumes "outgoing_params_for (ops_for fstr a) params model cfg tenant = (raised, Inr out)"
    and "k \<in> fst ` set out"
  shows "forwardable k \<or>
    (a = Registered ''anthropic'' \<and> k = ''extra_headers'' \<and>
     dget out k = Some (PDict [(''anthropic-beta'', PStr context_mgmt_beta)]))"
proof (cases "a = Registered ''anthropic''")
  case False
  then have contract: "adapter_contract (ops_for fstr a) {}" using ops_for_contract[of fstr a] by simp
  show ?thesis using adapter_contract.outgoing_forwardable[OF contract assms] by simp
next
  case True
  have ops: "ops_for fstr a = anthropic_ops fstr" using True by (simp add: ops_for_def is_openai_family_def)
  have cm: "forwardable ''context_management''" by code_simp
  have eh: "\<not> forwardable ''extra_headers''" by code_simp
  show ?thesis
  proof (cases "forwardable k")
    case nf: False
    then have k: "k = ''extra_headers''"
      using adapter_contract.outgoing_forwardable[OF ops_for_contract assms] True cm by auto
    obtain p6 p7 v ce where
      c: "ao_cap_reasoning (ops_for fstr a) (hygienic (ops_for fstr a) model cfg params)
        (dget_or (hygienic (ops_for fstr a) model cfg params) ''max_tokens'' PNone) = Inr p6"
      and r: "ao_reserve_headroom (ops_for fstr a) p6 model cfg
        (dget_or (filter (\<lambda>kv. forwardable (fst kv)) params) ''reasoning_effort'' PNone) = (p7, v)"
      and "raised = (case v of Inr w \<Rightarrow> if py_truthy w then w else PNone | Inl _ \<Rightarrow> PNone)"
      and x: "ao_context_management (ops_for fstr a) p7 ce = Inr out"
      by (rule outgoing_steps[OF assms(1)])
    note x = x[unfolded ops anthropic_hooks]
    have "p7 = p6" using r unfolding ops anthropic_hooks by (simp only: prod.inject)
    have "''extra_headers'' \<notin> fst ` set p7"
      using anthropic_cap_keys[OF c[unfolded ops anthropic_hooks]] hygienic_forwardable[unfolded ops] hygienic_forwardable eh \<open>p7 = p6\<close> by blast
    then have "dget p7 ''extra_headers'' = None" by (simp add: keys_iff_dget)
    have "out \<noteq> p7" using assms(2) k \<open>''extra_headers'' \<notin> fst ` set p7\<close> by metis
    then obtain s where "out = dset ''extra_headers'' (PDict [(''anthropic-beta'', PStr context_mgmt_beta)])
        (dset ''context_management'' s p7)"
      using anthropic_context_cases[OF x] \<open>dget p7 ''extra_headers'' = None\<close> by metis
    then have "dget out k = Some (PDict [(''anthropic-beta'', PStr context_mgmt_beta)])"
      by (simp only: k dget_dset if_True simp_thms)
    then show ?thesis using True k by blast
  qed simp
qed

lemma no_internal_flag_leaves_witness:
  "forwardable ''temperature'' \<and>
   snd (outgoing_params_for (ops_for (\<lambda>_. []) (Registered ''mistral''))
     [(''_auth_admin'', PBool True), (''api_base'', PStr ''http://evil''), (''temperature'', PInt 1)]
     ''m'' (PDict []) ''default'') = Inr [(''temperature'', PInt 1)]"
proof -
  have out: "outgoing_params_for (ops_for (\<lambda>_. []) (Registered ''mistral''))
     [(''_auth_admin'', PBool True), (''api_base'', PStr ''http://evil''), (''temperature'', PInt 1)]
     ''m'' (PDict []) ''default'' = (PNone, Inr [(''temperature'', PInt 1)])"
    by code_simp
  have "forwardable ''temperature''"
    using no_internal_flag_leaves[OF out, of "''temperature''"] by auto
  then show ?thesis using out by simp
qed

lemma context_keeps:
  assumes "anthropic_context fstr p ce = Inr p'" and "k \<noteq> ''extra_headers''" and "k \<noteq> ''context_management''"
  shows "dget p' k = dget p k"
  using anthropic_context_cases[OF assms(1)] assms(2,3) by (elim disjE exE conjE) (simp_all only: dget_dset if_False)

lemma anthropic_cap_max_tokens: "anthropic_cap p mt = Inr p' \<Longrightarrow> dget p' ''max_tokens'' = dget p ''max_tokens''"
  by (drule anthropic_cap_cases)
    (elim disjE exE conjE, simp_all add: reconcile_dget thinking_incompatible_params_def dget_dset dget_dpop)

text \<open>
  Anthropic refuses a request whose thinking budget reaches its output budget, or that sets
  sampling parameters next to thinking. Whenever the proxy sends it a thinking budget with an output
  budget, the thinking budget is below the output budget, the output budget is above the smallest
  that can hold thinking, and none of the forbidden sampling parameters is sent.
\<close>

lemma thinking_fits_its_output_budget:
  assumes "outgoing_params_for (ops_for fstr (Registered ''anthropic'')) params model cfg tenant = (raised, Inr out)"
    and "dget out ''thinking'' = Some (PDict th)" and "dget out ''max_tokens'' = Some (PInt m)" and "m \<noteq> 0"
  shows "1024 < m \<and> dget out ''temperature'' = None \<and> dget out ''top_p'' = None \<and> dget out ''top_k'' = None \<and>
         (case dget th ''budget_tokens'' of Some (PInt b) \<Rightarrow> b < m | _ \<Rightarrow> True)"
proof -
  have ops: "ops_for fstr (Registered ''anthropic'') = anthropic_ops fstr"
    by (simp add: ops_for_def is_openai_family_def)
  define p5 where "p5 = hygienic (anthropic_ops fstr) model cfg params"
  obtain p6 p7 v ce where
    c: "ao_cap_reasoning (anthropic_ops fstr) p5 (dget_or p5 ''max_tokens'' PNone) = Inr p6"
    and r: "ao_reserve_headroom (anthropic_ops fstr) p6 model cfg
      (dget_or (filter (\<lambda>kv. forwardable (fst kv)) params) ''reasoning_effort'' PNone) = (p7, v)"
    and "raised = (case v of Inr w \<Rightarrow> if py_truthy w then w else PNone | Inl _ \<Rightarrow> PNone)"
    and x: "ao_context_management (anthropic_ops fstr) p7 ce = Inr out"
    by (rule outgoing_steps[OF assms(1)[unfolded ops], folded p5_def])
  have "p7 = p6" using r unfolding anthropic_hooks by (simp only: prod.inject)
  then have same: "k \<noteq> ''extra_headers'' \<Longrightarrow> k \<noteq> ''context_management'' \<Longrightarrow> dget out k = dget p6 k" for k
    using context_keeps[of fstr p6 ce out k] x unfolding anthropic_hooks by simp
  note cap = c[unfolded anthropic_hooks]
  have th: "dget p6 ''thinking'' = Some (PDict th)" using assms(2) same[of "''thinking''"] by simp
  have "dget p6 ''max_tokens'' = Some (PInt m)" using assms(3) same[of "''max_tokens''"] by simp
  then have mt: "dget_or p5 ''max_tokens'' PNone = PInt m"
    using anthropic_cap_max_tokens[OF cap] by (simp add: dget_or_def)
  have fits: "1024 < m \<and> (\<forall>k \<in> set thinking_incompatible_params. dget p6 k = None) \<and>
      (case dget th ''budget_tokens'' of Some (PInt b) \<Rightarrow> b < m | _ \<Rightarrow> True)"
    using anthropic_cap_cases[OF cap] th assms(4) unfolding mt
    by (elim disjE exE conjE)
      (auto simp: py_num_def reconcile_dget dget_dset dget_dpop dget_or_def thinking_incompatible_params_def
        minus_one_def split: option.splits pyval.splits dest: dict_of_is_dict)
  then show ?thesis
    using same[of "''temperature''"] same[of "''top_p''"] same[of "''top_k''"]
    by (simp add: thinking_incompatible_params_def)
qed

lemma thinking_fits_its_output_budget_witness:
  "(1024 :: int) < 2000 \<and>
   snd (outgoing_params_for (ops_for (\<lambda>_. []) (Registered ''anthropic''))
     [(''thinking'', PDict [(''type'', PStr ''enabled''), (''budget_tokens'', PInt 4096)]), (''max_tokens'', PInt 2000),
      (''temperature'', PInt 0)] ''claude'' (PDict []) ''default'') =
   Inr [(''thinking'', PDict [(''type'', PStr ''enabled''), (''budget_tokens'', PInt 1999)]), (''max_tokens'', PInt 2000)]"
proof -
  have out: "outgoing_params_for (ops_for (\<lambda>_. []) (Registered ''anthropic''))
     [(''thinking'', PDict [(''type'', PStr ''enabled''), (''budget_tokens'', PInt 4096)]), (''max_tokens'', PInt 2000),
      (''temperature'', PInt 0)] ''claude'' (PDict []) ''default'' =
     (PNone, Inr [(''thinking'', PDict [(''type'', PStr ''enabled''), (''budget_tokens'', PInt 1999)]), (''max_tokens'', PInt 2000)])"
    by code_simp
  show ?thesis
    using thinking_fits_its_output_budget[OF out, of "[(''type'', PStr ''enabled''), (''budget_tokens'', PInt 1999)]" 2000]
      out by simp
qed

text \<open>
  On the o-series the answer and the hidden thinking share one output budget. The proxy changes
  nothing of the request but that budget, only when the caller set one, and only to the smaller of what
  the effort needs and the operator's ceiling, the two numbers routing asks the adapter for; every
  change raises the budget and is disclosed with its old and new value.
\<close>

lemma output_budget_raises_are_disclosed:
  assumes "outgoing_params_for (openai_ops fstr n) params model cfg tenant = (raised, Inr out)"
  shows "(raised = PNone \<and> out = hygienic (openai_ops fstr n) model cfg params) \<or>
    (\<exists>key old new effort needed cap.
       raised = disclosure key old new effort \<and> key \<in> set output_budget_keys \<and>
       py_int (dget_or (hygienic (openai_ops fstr n) model cfg params) key PNone) = Some old \<and>
       0 < old \<and> old < new \<and> new = min needed cap \<and>
       headroom_needed fstr n model cfg (PStr effort) = Inr (Some needed) \<and>
       headroom_cap n model cfg = Inr (Some cap) \<and>
       out = dset key (PInt new) (hygienic (openai_ops fstr n) model cfg params))"
proof -
  define p5 where "p5 = hygienic (openai_ops fstr n) model cfg params"
  define eff where "eff = dget_or (filter (\<lambda>kv. forwardable (fst kv)) params) ''reasoning_effort'' PNone"
  obtain p6 p7 v ce where
    c: "ao_cap_reasoning (openai_ops fstr n) p5 (dget_or p5 ''max_tokens'' PNone) = Inr p6"
    and r: "ao_reserve_headroom (openai_ops fstr n) p6 model cfg eff = (p7, v)"
    and raised: "raised = (case v of Inr w \<Rightarrow> if py_truthy w then w else PNone | Inl _ \<Rightarrow> PNone)"
    and x: "ao_context_management (openai_ops fstr n) p7 ce = Inr out"
    by (rule outgoing_steps[OF assms(1), folded p5_def eff_def])
  have e: "p6 = p5" "out = p7" using c x unfolding openai_hooks by simp_all
  note R = r[unfolded openai_hooks e]
  from openai_reserve_cases[OF R] show ?thesis
  proof (elim disjE exE conjE)
    assume "p7 = p5" "\<forall>w. v = Inr w \<longrightarrow> w = PNone"
    then show ?thesis using raised e unfolding p5_def[symmetric] by (cases v) auto
  next
    fix hcfg key old new tier
    assume s: "openai_supports_reasoning n model cfg" and h: "headroom_cfg cfg = Inr hcfg"
      and k: "budget_key p5 = Some key" and b: "py_int (dget_or p5 key PNone) = Some old" "0 < old"
      and ro: "raise_of fstr n model cfg hcfg (py_or eff (dget_or p5 ''reasoning_effort'' PNone)) old = Inr (Some (new, tier))"
      and p7: "p7 = dset key (PInt new) p5" and v: "v = Inr (disclosure key old new tier)"
    obtain needed cap where n: "headroom_needed fstr n model cfg (PStr tier) = Inr (Some needed)" "old < needed"
      and cap: "headroom_ceiling model hcfg = Inr cap" and new: "new = min needed cap" "old < new"
      using ro by (auto simp: raise_of_def bind_res_Inr split: option.splits if_splits)
    have "headroom_cap n model cfg = Inr (Some cap)"
      using n(1) s h cap by (auto simp: headroom_needed_def headroom_cap_def bind_res_Inr split: if_splits)
    then show ?thesis using raised v k b n new p7 e budget_key_present[OF k] unfolding p5_def[symmetric]
      by (intro disjI2 exI[of _ key] exI[of _ old] exI[of _ new] exI[of _ tier] exI[of _ needed] exI[of _ cap])
        (simp add: disclosure_def)
  qed
qed

lemma output_budget_raises_are_disclosed_witness:
  "snd (outgoing_params_for (openai_ops (\<lambda>_. []) ''openai'')
     [(''max_completion_tokens'', PInt 1024)] ''o4-mini'' (PDict []) ''default'') =
     Inr [(''max_completion_tokens'', PInt 4608)] \<and>
   (\<exists>needed cap. headroom_needed (\<lambda>_. []) ''openai'' ''o4-mini'' (PDict []) (PStr ''medium'') = Inr (Some needed) \<and>
      headroom_cap ''openai'' ''o4-mini'' (PDict []) = Inr (Some cap) \<and> 4608 = min needed cap)"
proof -
  have out: "outgoing_params_for (openai_ops (\<lambda>_. []) ''openai'')
     [(''max_completion_tokens'', PInt 1024)] ''o4-mini'' (PDict []) ''default'' =
     (disclosure ''max_completion_tokens'' 1024 4608 ''medium'', Inr [(''max_completion_tokens'', PInt 4608)])"
    by code_simp
  show ?thesis
    using output_budget_raises_are_disclosed[OF out] out by (auto simp: disclosure_def)
qed

end
