(* ===== verification/Reasoning.thy ===== *)
theory Reasoning
  imports Adapters Pipeline
begin

text \<open>
  How much a model is asked to think: the stages \<open>middleware/g25_adaptive_reasoning.py\<close> (which picks a
  tier) and \<open>middleware/g12_reasoning_budget.py\<close> (which writes it in the provider's own parameter), with
  \<open>append_to_system_prompt\<close> of \<open>middleware/__init__.py\<close>. Arguments of the model: \<open>fstr\<close> is \<open>str\<close> on a value
  that is no text; \<open>rx\<close> compiles a pattern of the operator to the test \<open>re.search\<close> makes of a text, or
  fails. The cache of compiled patterns, the saving step, the trace and the log lines are left out. The
  lemmas show that the proxy on its own never asks for more thinking than the provider would have done.
\<close>

record reason_ctx = pipe_ctx +
  rx_messages :: "pyval list"
  rx_complexity :: "string option"
  rx_mode :: pyval

section \<open>Shared by both stages\<close>

definition stage_config :: "pyval \<Rightarrow> string \<Rightarrow> pyexc + pydict option" where
  "stage_config config block =
     bind_res (get_path config [''groups'', block]) (\<lambda>v.
       case v of
         PDict d \<Rightarrow> Inr (if py_truthy (dget_or d ''enabled'' (PBool False)) then Some d else None)
       | _ \<Rightarrow> Inl AttributeError)"

fun index_of :: "'a \<Rightarrow> 'a list \<Rightarrow> nat option" where
  "index_of x [] = None"
| "index_of x (y # ys) = (if x = y then Some 0 else map_option Suc (index_of x ys))"

definition tier_index :: "string \<Rightarrow> nat option" where
  "tier_index t = index_of t reasoning_tiers"

definition rank_or :: "nat \<Rightarrow> string \<Rightarrow> nat" where
  "rank_or n t = (case tier_index t of Some i \<Rightarrow> i | None \<Rightarrow> n)"

section \<open>Adaptive reasoning (G25)\<close>

definition default_ceiling :: string where "default_ceiling = ''medium''"

definition compile_all :: "(string \<Rightarrow> (string \<Rightarrow> bool) option) \<Rightarrow> pyval list \<Rightarrow> pyexc + (string \<Rightarrow> bool) list" where
  "compile_all rx kws =
     foldr (\<lambda>kw r. case kw of
                PStr s \<Rightarrow> (case rx s of Some p \<Rightarrow> map_sum id (\<lambda>ps. p # ps) r | None \<Rightarrow> Inl ReError)
              | _ \<Rightarrow> Inl TypeError) kws (Inr [])"

definition keyword_values :: "pydict \<Rightarrow> string \<Rightarrow> string list \<Rightarrow> pyexc + pyval list" where
  "keyword_values cfg key dflt = py_iter (dget_or cfg key (PList (map PStr dflt)))"

record keyword_sets =
  kw_high :: "string list"
  kw_medium :: "string list"
  kw_low :: "string list"

definition get_patterns ::
  "(string \<Rightarrow> (string \<Rightarrow> bool) option) \<Rightarrow> keyword_sets \<Rightarrow> pydict
   \<Rightarrow> pyexc + (string \<Rightarrow> bool) list \<times> (string \<Rightarrow> bool) list \<times> (string \<Rightarrow> bool) list" where
  "get_patterns rx defaults cfg =
     bind_res (keyword_values cfg ''high_keywords'' (kw_high defaults)) (\<lambda>high.
     bind_res (keyword_values cfg ''medium_keywords'' (kw_medium defaults)) (\<lambda>medium.
     bind_res (keyword_values cfg ''low_keywords'' (kw_low defaults)) (\<lambda>low.
       if \<not> list_all hashable (high @ medium @ low) then Inl TypeError
       else bind_res (compile_all rx high) (\<lambda>h.
            bind_res (compile_all rx medium) (\<lambda>m.
            bind_res (compile_all rx low) (\<lambda>l. Inr (h, m, l)))))))"

definition join_lines :: "string list \<Rightarrow> string" where
  "join_lines ls = concat (case ls of [] \<Rightarrow> [] | l # rest \<Rightarrow> l # map (\<lambda>s. CHR 0x0A # s) rest)"

fun user_parts :: "string list \<Rightarrow> pyval list \<Rightarrow> pyexc + string list" where
  "user_parts roles [] = Inr []"
| "user_parts roles (PDict m # ms) =
     bind_res (user_parts roles ms) (\<lambda>rest.
       Inr (if dget_or m ''role'' (PStr []) \<in> PStr ` set roles then
              (case dget_or m ''content'' (PStr []) of PStr s \<Rightarrow> s # rest | _ \<Rightarrow> rest)
            else rest))"
| "user_parts roles (_ # ms) = Inl AttributeError"

definition extract_user_text :: "string list \<Rightarrow> pyval list \<Rightarrow> pyexc + string" where
  "extract_user_text roles messages = map_sum id join_lines (user_parts roles messages)"

definition classify_complexity ::
  "string \<Rightarrow> (string \<Rightarrow> bool) list \<Rightarrow> (string \<Rightarrow> bool) list \<Rightarrow> (string \<Rightarrow> bool) list \<Rightarrow> string \<Rightarrow> string" where
  "classify_complexity text high medium low default_effort =
     (if list_ex (\<lambda>p. p text) high then ''high''
      else if list_ex (\<lambda>p. p text) medium then ''medium''
      else if list_ex (\<lambda>p. p text) low then ''low''
      else if default_effort \<in> set reasoning_tiers then default_effort else ''medium'')"

text \<open>The stage asks the adapter without a configuration.\<close>

definition is_reasoning_model ::
  "(pyval \<Rightarrow> string) \<Rightarrow> string \<Rightarrow> pyval \<Rightarrow> adapter option \<Rightarrow> pyexc + bool" where
  "is_reasoning_model fstr model extra_prefixes a =
     (if (case a of Some x \<Rightarrow> ao_supports_reasoning (ops_for fstr x) model PNone | None \<Rightarrow> False) then Inr True
      else bind_res (py_iter extra_prefixes) (any_prefix (py_lower model)))"

text \<open>The configured ceiling, or the default of the code for a value that is no tier.\<close>

definition resolve_ceiling :: "(pyval \<Rightarrow> string) \<Rightarrow> pydict \<Rightarrow> string" where
  "resolve_ceiling fstr cfg =
     (let v = py_lower (py_str fstr (dget_or cfg ''effort_ceiling'' (PStr default_ceiling)))
      in if v \<in> set reasoning_tiers then v else default_ceiling)"

definition provider_ceiling :: "pydict \<Rightarrow> 'm pipe_ctx_scheme \<Rightarrow> string" where
  "provider_ceiling cfg ctx =
     (if py_truthy (dget_or cfg ''escalate_above_provider_default'' (PBool False)) then ''high''
      else (case px_adapter ctx of
              None \<Rightarrow> ''high''
            | Some a \<Rightarrow>
                (let v = py_lower (default_effort_of a (px_routed ctx) (px_config ctx))
                 in if v \<in> set reasoning_tiers then v else ''high'')))"

text \<open>What routing already decided about the request, when the map has an answer for it.\<close>

definition routed_effort :: "pydict \<Rightarrow> string option \<Rightarrow> string option" where
  "routed_effort cfg complexity =
     (if \<not> py_truthy (dget_or cfg ''use_routing_complexity'' (PBool True)) then None
      else (let tier_map = (case dget_or cfg ''routing_complexity_map'' PNone of
                              PDict d \<Rightarrow> d | _ \<Rightarrow> [(''simple'', PStr reasoning_off)])
            in case complexity of
                 Some t \<Rightarrow>
                   (if t = [] then None
                    else case dget tier_map t of
                           Some (PStr s) \<Rightarrow> if py_lower s \<in> set reasoning_tiers then Some (py_lower s) else None
                         | _ \<Rightarrow> None)
               | None \<Rightarrow> None))"

definition clamp_effort :: "(pyval \<Rightarrow> string) \<Rightarrow> pydict \<Rightarrow> string \<Rightarrow> string \<Rightarrow> string" where
  "clamp_effort fstr cfg provider effort =
     (let floor_idx = rank_or 0 (py_lower (py_str fstr (dget_or cfg ''effort_floor'' (PStr reasoning_off))));
          chosen = rank_or 2 effort
      in reasoning_tiers ! max floor_idx
           (min (rank_or 2 (resolve_ceiling fstr cfg)) (min (rank_or 2 provider) chosen)))"

definition g25_process_request ::
  "(pyval \<Rightarrow> string) \<Rightarrow> (string \<Rightarrow> (string \<Rightarrow> bool) option) \<Rightarrow> keyword_sets \<Rightarrow> 'm reason_ctx_scheme
   \<Rightarrow> pyexc + 'm reason_ctx_scheme" where
  "g25_process_request fstr rx defaults ctx =
     bind_res (stage_config (px_config ctx) ''G25_adaptive_reasoning'') (\<lambda>c.
       case c of
         None \<Rightarrow> Inr ctx
       | Some cfg \<Rightarrow>
           if py_truthy (dget_or (px_params ctx) ''reasoning_effort'' PNone) then Inr ctx
           else bind_res (is_reasoning_model fstr (px_routed ctx)
                            (dget_or cfg ''extra_reasoning_prefixes'' (PList [])) (px_adapter ctx)) (\<lambda>reasons.
             if \<not> reasons then Inr ctx
             else bind_res (get_patterns rx defaults cfg) (\<lambda>(high, medium, low).
                  bind_res (py_iter (dget_or cfg ''scan_roles'' (PList [PStr ''user'']))) (\<lambda>raw_roles.
                    let roles = (if str_names raw_roles = [] then [''user''] else str_names raw_roles) in
                    bind_res (extract_user_text roles (rx_messages ctx)) (\<lambda>text.
                      let effort = (case routed_effort cfg (rx_complexity ctx) of
                                      Some e \<Rightarrow> e
                                    | None \<Rightarrow> classify_complexity text high medium low
                                               (py_lower (py_str fstr (dget_or cfg ''default_effort'' (PStr ''medium'')))));
                          final = clamp_effort fstr cfg (provider_ceiling cfg ctx) effort
                      in Inr (ctx\<lparr>px_params := dset ''reasoning_effort'' (PStr final) (px_params ctx)\<rparr>))))))"

section \<open>Reasoning budget (G12)\<close>

definition retrieved_marker :: string where "retrieved_marker = ''[Retrieved context]''"

definition is_retrieved :: "pydict \<Rightarrow> bool" where
  "is_retrieved m \<longleftrightarrow> dget_or m ''role'' PNone = PStr ''system'' \<and>
     (case dget_or m ''content'' PNone of PStr s \<Rightarrow> prefix retrieved_marker (dropWhile is_space s) | _ \<Rightarrow> False)"

definition own_system :: "pyval \<Rightarrow> bool" where
  "own_system m \<longleftrightarrow>
     (case m of PDict d \<Rightarrow> dget_or d ''role'' PNone = PStr ''system'' \<and> \<not> is_retrieved d | _ \<Rightarrow> False)"

definition appended :: "(pyval \<Rightarrow> string) \<Rightarrow> pyval \<Rightarrow> pyval \<Rightarrow> pyval" where
  "appended fstr text m =
     (case m of
        PDict d \<Rightarrow>
          (let content = dget_or d ''content'' PNone in
           PDict (dset ''content''
             (case content of
                PList ps \<Rightarrow> PList (ps @ [PDict [(''type'', PStr ''text''), (''text'', text)]])
              | _ \<Rightarrow> if py_truthy content then PStr (py_str fstr content @ CHR 0x0A # py_str fstr text) else text) d))
      | _ \<Rightarrow> m)"

text \<open>The scan runs from the last message to the first.\<close>

fun append_last :: "(pyval \<Rightarrow> string) \<Rightarrow> pyval \<Rightarrow> pyval list \<Rightarrow> pyval list option" where
  "append_last fstr text [] = None"
| "append_last fstr text (m # ms) =
     (case append_last fstr text ms of
        Some ms' \<Rightarrow> Some (m # ms')
      | None \<Rightarrow> if own_system m then Some (appended fstr text m # ms) else None)"

definition append_to_system_prompt :: "(pyval \<Rightarrow> string) \<Rightarrow> pyval list \<Rightarrow> pyval \<Rightarrow> pyval list" where
  "append_to_system_prompt fstr messages text =
     (case append_last fstr text messages of
        Some ms \<Rightarrow> ms
      | None \<Rightarrow> PDict [(''role'', PStr ''system''), (''content'', text)] # messages)"

text \<open>A default effort of the tenant's own, in the portal's overrides or the operator's block.\<close>

fun walk_dicts :: "pyval \<Rightarrow> string list \<Rightarrow> pyval" where
  "walk_dicts v [] = v"
| "walk_dicts v (k # ks) = walk_dicts (case v of PDict d \<Rightarrow> dget_or d k PNone | _ \<Rightarrow> PNone) ks"

definition tenant_chose_effort :: "'m pipe_ctx_scheme \<Rightarrow> bool" where
  "tenant_chose_effort ctx \<longleftrightarrow>
     list_ex (\<lambda>node. case walk_dicts node [''groups'', ''G12_reasoning''] of
                       PDict d \<Rightarrow> py_truthy (dget_or d ''default_effort'' PNone) | _ \<Rightarrow> False)
       [case px_overrides ctx of Some v \<Rightarrow> v | None \<Rightarrow> PNone,
        walk_dicts (px_config ctx) [''tenants'', px_tenant ctx]]"

definition capped_at_provider_default :: "pyval \<Rightarrow> adapter \<Rightarrow> 'm pipe_ctx_scheme \<Rightarrow> pyval" where
  "capped_at_provider_default effort a ctx =
     (let dflt = py_lower (default_effort_of a (px_routed ctx) (px_config ctx)) in
      case effort of
        PStr e \<Rightarrow>
          (case (tier_index e, tier_index dflt) of
             (Some i, Some j) \<Rightarrow> if i \<le> j then effort else PStr dflt
           | _ \<Rightarrow> effort)
      | _ \<Rightarrow> effort)"

text \<open>Parameters a request already has are kept; the flag says whether one was added.\<close>

definition add_missing :: "pydict \<Rightarrow> pydict \<Rightarrow> pydict \<times> bool" where
  "add_missing new params =
     fold (\<lambda>(k, v) (p, applied). if dget p k = None then (dset k v p, True) else (p, applied)) new (params, False)"

definition write_effort ::
  "adapter_ops \<Rightarrow> pydict \<Rightarrow> pyval \<Rightarrow> pydict \<Rightarrow> pydict" where
  "write_effort ops mapped sent params =
     (let (p1, applied) = add_missing mapped params;
          p2 = (if applied \<and> dget mapped ''reasoning_effort'' = None then dpop ''reasoning_effort'' p1 else p1)
      in if is_off sent then pop_all (filter (\<lambda>k. dget mapped k = None) (ao_reasoning_param_keys ops)) p2 else p2)"

definition reasoning_mode_of :: "adapter \<Rightarrow> string \<Rightarrow> pyval \<Rightarrow> pyval" where
  "reasoning_mode_of a model sent =
     (if is_off sent then PStr (if can_disable_reasoning a model then ''off_honoured'' else ''off_unsupported'')
      else sent)"

definition suppression_for :: "pydict \<Rightarrow> pyval \<Rightarrow> pyexc + pyval" where
  "suppression_for cfg effort =
     (let prompts = dget_or cfg ''reasoning_suppression_prompts'' (PDict []) in
      if py_truthy prompts then get_key prompts effort PNone else Inr PNone)"

definition sent_effort :: "adapter_ops \<Rightarrow> adapter \<Rightarrow> pyval \<Rightarrow> 'm pipe_ctx_scheme \<Rightarrow> pyval" where
  "sent_effort ops a effort ctx =
     (if \<not> list_ex (\<lambda>k. py_truthy (dget_or (px_params ctx) k PNone)) (ao_reasoning_param_keys ops) \<and>
         \<not> tenant_chose_effort ctx
      then capped_at_provider_default effort a ctx else effort)"

definition g12_process_request ::
  "(pyval \<Rightarrow> string) \<Rightarrow> 'm reason_ctx_scheme \<Rightarrow> pyexc + 'm reason_ctx_scheme" where
  "g12_process_request fstr ctx =
     bind_res (stage_config (px_config ctx) ''G12_reasoning'') (\<lambda>c.
       case c of
         None \<Rightarrow> Inr ctx
       | Some cfg \<Rightarrow>
           (let effort = py_or (dget_or (px_params ctx) ''reasoning_effort'' PNone)
                           (dget_or cfg ''default_effort'' (PStr ''medium''));
                a = (case px_adapter ctx of Some x \<Rightarrow> x | None \<Rightarrow> Registered ''openai'');
                ops = ops_for fstr a
            in bind_res
                 (if ao_supports_reasoning ops (py_lower (px_routed ctx)) (px_config ctx) then
                    (let sent = sent_effort ops a effort ctx in
                     bind_res (map_effort a sent (px_config ctx)) (\<lambda>mapped.
                       Inr (ctx\<lparr>px_params := write_effort ops mapped sent (px_params ctx),
                                rx_mode := reasoning_mode_of a (px_routed ctx) sent\<rparr>)))
                  else Inr ctx) (\<lambda>ctx'.
               bind_res (suppression_for cfg effort) (\<lambda>s.
                 Inr (if py_truthy s
                      then ctx'\<lparr>rx_messages := append_to_system_prompt fstr (rx_messages ctx') s\<rparr> else ctx')))))"

section \<open>Lemmas\<close>

lemma tier_cases: "t \<in> set reasoning_tiers \<longleftrightarrow> t = ''off'' \<or> t = ''low'' \<or> t = ''medium'' \<or> t = ''high''"
  by (simp add: reasoning_tiers_def reasoning_off_def)

lemma rank_tiers [simp]:
  "tier_index ''off'' = Some 0" "tier_index ''low'' = Some 1" "tier_index ''medium'' = Some 2" "tier_index ''high'' = Some 3"
  by (simp_all add: tier_index_def reasoning_tiers_def reasoning_off_def)

lemma index_of_less: "index_of x ys = Some i \<Longrightarrow> i < length ys \<and> ys ! i = x"
  by (induction ys arbitrary: i) (auto split: if_splits)

lemma index_of_None: "index_of x ys = None \<longleftrightarrow> x \<notin> set ys"
  by (induction ys) auto

lemma tier_index_Some: "tier_index t = Some i \<Longrightarrow> i < 4 \<and> reasoning_tiers ! i = t"
  unfolding tier_index_def by (drule index_of_less) (simp add: reasoning_tiers_def)

lemma rank_of_nth: "i < 4 \<Longrightarrow> rank_or n (reasoning_tiers ! i) = i"
proof -
  assume "i < 4"
  then consider "i = 0" | "i = 1" | "i = 2" | "i = 3" by linarith
  then show ?thesis
    by cases (simp_all add: rank_or_def reasoning_tiers_def reasoning_off_def)
qed

lemma rank_or_less: "n < 4 \<Longrightarrow> rank_or n t < 4"
  using tier_index_Some by (auto simp: rank_or_def split: option.split)

lemma rank_known: "t \<in> set reasoning_tiers \<Longrightarrow> rank_or n t = rank_or m t"
  by (auto simp: rank_or_def tier_index_def index_of_None split: option.split)

lemma py_lower_tier: "t \<in> set reasoning_tiers \<Longrightarrow> py_lower t = t"
  unfolding tier_cases by (elim disjE) (simp_all, code_simp+)

lemma tier_of_tier: "tier_of entry = Some t \<Longrightarrow> t \<in> set reasoning_tiers"
  by (auto simp: tier_of_def split: pyval.splits if_splits)

lemma default_effort_tier: "default_effort_of a model config \<in> set reasoning_tiers"
proof -
  have o: "reasoning_off \<in> set reasoning_tiers" "''medium'' \<in> set reasoning_tiers"
    by (simp_all add: reasoning_tiers_def)
  show ?thesis
    using o tier_of_tier
    by (cases a) (auto simp: default_effort_of_def openai_default_effort_def default_reasoning_effort_def
        gemini_default_effort_def split: option.split)
qed

text \<open>What G25 leaves: nothing changed, or one parameter set to a tier within the two ceilings.\<close>

definition effort_bound :: "(pyval \<Rightarrow> string) \<Rightarrow> pydict \<Rightarrow> 'm pipe_ctx_scheme \<Rightarrow> nat" where
  "effort_bound fstr cfg ctx =
     max (rank_or 0 (py_lower (py_str fstr (dget_or cfg ''effort_floor'' (PStr reasoning_off)))))
       (min (rank_or 2 (resolve_ceiling fstr cfg)) (rank_or 2 (provider_ceiling cfg ctx)))"

lemma clamp_effort_bound:
  "\<exists>i < 4. clamp_effort fstr cfg provider e = reasoning_tiers ! i \<and>
     i \<le> max (rank_or 0 (py_lower (py_str fstr (dget_or cfg ''effort_floor'' (PStr reasoning_off)))))
             (min (rank_or 2 (resolve_ceiling fstr cfg)) (rank_or 2 provider))"
proof -
  define f where "f = rank_or 0 (py_lower (py_str fstr (dget_or cfg ''effort_floor'' (PStr reasoning_off))))"
  have l: "f < 4" "rank_or 2 (resolve_ceiling fstr cfg) < 4" by (simp_all add: f_def rank_or_less)
  then show ?thesis unfolding clamp_effort_def Let_def f_def[symmetric]
    by (intro exI[of _ "max f (min (rank_or 2 (resolve_ceiling fstr cfg)) (min (rank_or 2 provider) (rank_or 2 e)))"])
      (auto simp: max_def min_def)
qed

lemma g25_effect:
  assumes "g25_process_request fstr rx defaults ctx = Inr c'"
  shows "c' = ctx \<or>
    (\<exists>cfg i. stage_config (px_config ctx) ''G25_adaptive_reasoning'' = Inr (Some cfg) \<and>
       \<not> py_truthy (dget_or (px_params ctx) ''reasoning_effort'' PNone) \<and>
       i < 4 \<and> i \<le> effort_bound fstr cfg ctx \<and>
       c' = ctx\<lparr>px_params := dset ''reasoning_effort'' (PStr (reasoning_tiers ! i)) (px_params ctx)\<rparr>)"
proof (cases "c' = ctx")
  case False
  obtain cfg where cfg: "stage_config (px_config ctx) ''G25_adaptive_reasoning'' = Inr (Some cfg)"
    using assms False unfolding g25_process_request_def by (auto simp: bind_res_Inr split: option.splits)
  then have n: "\<not> py_truthy (dget_or (px_params ctx) ''reasoning_effort'' PNone)"
    using assms False unfolding g25_process_request_def by (auto split: if_splits)
  obtain e where "c' = ctx\<lparr>px_params := dset ''reasoning_effort''
      (PStr (clamp_effort fstr cfg (provider_ceiling cfg ctx) e)) (px_params ctx)\<rparr>"
    using assms False cfg n unfolding g25_process_request_def Let_def
    by (auto simp: bind_res_Inr split: if_splits)
  then show ?thesis using clamp_effort_bound[of fstr cfg "provider_ceiling cfg ctx" e] cfg n
    unfolding effort_bound_def by auto
qed simp

lemma g12_effect:
  assumes "g12_process_request fstr ctx = Inr c'" and "px_adapter ctx = Some a"
  shows "px_params c' = px_params ctx \<or>
    (\<exists>cfg mapped sent. stage_config (px_config ctx) ''G12_reasoning'' = Inr (Some cfg) \<and>
       sent = sent_effort (ops_for fstr a) a
                (py_or (dget_or (px_params ctx) ''reasoning_effort'' PNone) (dget_or cfg ''default_effort'' (PStr ''medium''))) ctx \<and>
       map_effort a sent (px_config ctx) = Inr mapped \<and>
       px_params c' = write_effort (ops_for fstr a) mapped sent (px_params ctx))"
proof (cases "stage_config (px_config ctx) ''G12_reasoning''")
  case (Inr o1)
  show ?thesis
  proof (cases o1)
    case (Some cfg)
    define E where "E = py_or (dget_or (px_params ctx) ''reasoning_effort'' PNone) (dget_or cfg ''default_effort'' (PStr ''medium''))"
    define S where "S = sent_effort (ops_for fstr a) a E ctx"
    have c': "\<exists>c1. (if ao_supports_reasoning (ops_for fstr a) (py_lower (px_routed ctx)) (px_config ctx)
        then bind_res (map_effort a S (px_config ctx)) (\<lambda>mapped.
               Inr (ctx\<lparr>px_params := write_effort (ops_for fstr a) mapped S (px_params ctx),
                        rx_mode := reasoning_mode_of a (px_routed ctx) S\<rparr>))
        else Inr ctx) = Inr c1 \<and> px_params c' = px_params c1"
      using assms(1) Inr Some assms(2) unfolding g12_process_request_def S_def E_def Let_def
      by (auto simp: bind_res_Inr split: if_splits)
    then show ?thesis
    proof (cases "ao_supports_reasoning (ops_for fstr a) (py_lower (px_routed ctx)) (px_config ctx)")
      case True
      then obtain mapped where "map_effort a S (px_config ctx) = Inr mapped"
        "px_params c' = write_effort (ops_for fstr a) mapped S (px_params ctx)"
        using c' by (auto simp: bind_res_Inr)
      then show ?thesis using Inr Some unfolding S_def E_def by blast
    qed (use c' in simp)
  qed (use assms Inr in \<open>simp add: g12_process_request_def\<close>)
qed (use assms in \<open>simp add: g12_process_request_def\<close>)

lemma write_nothing_keeps_absent:
  "dget params k = None \<Longrightarrow> dget (write_effort ops [] sent params) k = None"
  by (simp add: write_effort_def add_missing_def Let_def dget_pop_all)

section \<open>Properties\<close>

text \<open>
  Adaptive reasoning sets one parameter of a request and only when the request names no effort of
  its own; what it sets is a tier, and unless the operator opted into escalation the tier is not above
  the operator's ceiling nor above what the routed provider does by default, except where the operator's
  floor demands more. A ceiling that is no tier counts as \<open>medium\<close>, never as the most expensive tier.
\<close>

lemma adaptive_effort_stays_under_both_ceilings:
  assumes "g25_process_request fstr rx defaults ctx = Inr c'" and "px_adapter ctx = Some a"
    and "stage_config (px_config ctx) ''G25_adaptive_reasoning'' = Inr (Some cfg)"
    and "\<not> py_truthy (dget_or cfg ''escalate_above_provider_default'' (PBool False))"
  shows "c' = ctx \<or>
    (\<exists>t \<in> set reasoning_tiers.
       c' = ctx\<lparr>px_params := dset ''reasoning_effort'' (PStr t) (px_params ctx)\<rparr> \<and>
       \<not> py_truthy (dget_or (px_params ctx) ''reasoning_effort'' PNone) \<and>
       rank_or 0 t \<le> max (rank_or 0 (py_lower (py_str fstr (dget_or cfg ''effort_floor'' (PStr reasoning_off)))))
         (min (rank_or 2 (py_lower (py_str fstr (dget_or cfg ''effort_ceiling'' (PStr default_ceiling)))))
              (rank_or 0 (default_effort_of a (px_routed ctx) (px_config ctx)))))"
proof (cases "c' = ctx")
  case False
  then obtain i where i: "i < 4" "i \<le> effort_bound fstr cfg ctx"
    and n: "\<not> py_truthy (dget_or (px_params ctx) ''reasoning_effort'' PNone)"
    and c': "c' = ctx\<lparr>px_params := dset ''reasoning_effort'' (PStr (reasoning_tiers ! i)) (px_params ctx)\<rparr>"
    using g25_effect[OF assms(1)] assms(3) by auto
  define d where "d = default_effort_of a (px_routed ctx) (px_config ctx)"
  have d: "d \<in> set reasoning_tiers" using default_effort_tier by (simp add: d_def)
  then have "rank_or 2 (provider_ceiling cfg ctx) = rank_or 0 d"
    using assms(2,4) py_lower_tier[OF d] rank_known[OF d, of 2 0]
    by (simp add: provider_ceiling_def d_def[symmetric] Let_def)
  moreover have "rank_or 2 (resolve_ceiling fstr cfg) =
      rank_or 2 (py_lower (py_str fstr (dget_or cfg ''effort_ceiling'' (PStr default_ceiling))))"
    by (auto simp: resolve_ceiling_def Let_def default_ceiling_def rank_or_def tier_index_def index_of_None
        reasoning_tiers_def reasoning_off_def split: option.split)
  ultimately have "i \<le> max (rank_or 0 (py_lower (py_str fstr (dget_or cfg ''effort_floor'' (PStr reasoning_off)))))
      (min (rank_or 2 (py_lower (py_str fstr (dget_or cfg ''effort_ceiling'' (PStr default_ceiling))))) (rank_or 0 d))"
    using i(2) unfolding effort_bound_def by simp
  moreover have "reasoning_tiers ! i \<in> set reasoning_tiers"
    by (rule nth_mem) (use i(1) in \<open>simp add: reasoning_tiers_def\<close>)
  ultimately show ?thesis using c' n i(1) unfolding d_def by (auto simp: rank_of_nth)
qed simp

definition eager_config :: pyval where
  "eager_config = PDict [(''groups'', PDict [
     (''G25_adaptive_reasoning'', PDict [(''enabled'', PBool True), (''effort_ceiling'', PStr ''high'')]),
     (''G12_reasoning'', PDict [(''enabled'', PBool True), (''default_effort'', PStr ''high'')])])]"

definition claude_ctx :: reason_ctx where
  "claude_ctx = pipe_ctx.extend
     (sample_ctx\<lparr>px_params := [(''max_tokens'', PInt 4000)], px_routed := ''claude'', px_config := eager_config,
        px_adapter := Some (Registered ''anthropic'')\<rparr>)
     \<lparr>rx_messages = [PDict [(''role'', PStr ''user''), (''content'', PStr ''prove it'')]],
      rx_complexity = None, rx_mode = PNone\<rparr>"

lemma claude_fields:
  "px_config claude_ctx = eager_config" "px_adapter claude_ctx = Some (Registered ''anthropic'')"
  "px_params claude_ctx = [(''max_tokens'', PInt 4000)]" "px_routed claude_ctx = ''claude''"
  by (simp_all add: claude_ctx_def pipe_ctx.defs)

lemma eager_stages:
  "stage_config eager_config ''G25_adaptive_reasoning'' =
     Inr (Some [(''enabled'', PBool True), (''effort_ceiling'', PStr ''high'')])"
  "stage_config eager_config ''G12_reasoning'' =
     Inr (Some [(''enabled'', PBool True), (''default_effort'', PStr ''high'')])"
  by (simp_all add: eager_config_def stage_config_def get_path_def dget_or_def)

definition no_keywords :: keyword_sets where
  "no_keywords = \<lparr>kw_high = [''prove''], kw_medium = [], kw_low = []\<rparr>"

lemma claude_g25:
  "g25_process_request (\<lambda>_. []) (\<lambda>p. Some (py_in p)) no_keywords claude_ctx =
   Inr (claude_ctx\<lparr>px_params := [(''max_tokens'', PInt 4000), (''reasoning_effort'', PStr ''off'')]\<rparr>)"
  by code_simp

lemma adaptive_effort_stays_under_both_ceilings_witness:
  "\<exists>t \<in> set reasoning_tiers. Inr (claude_ctx\<lparr>px_params := dset ''reasoning_effort'' (PStr t) (px_params claude_ctx)\<rparr>) =
      g25_process_request (\<lambda>_. []) (\<lambda>p. Some (py_in p)) no_keywords claude_ctx"
proof -
  have e: "\<not> py_truthy (dget_or [(''enabled'', PBool True), (''effort_ceiling'', PStr ''high'')]
      ''escalate_above_provider_default'' (PBool False))"
    by (simp add: dget_or_def)
  have "claude_ctx\<lparr>px_params := [(''max_tokens'', PInt 4000), (''reasoning_effort'', PStr ''off'')]\<rparr> \<noteq> claude_ctx"
    by (simp add: claude_ctx_def pipe_ctx.defs)
  then show ?thesis
    using adaptive_effort_stays_under_both_ceilings[OF claude_g25 claude_fields(2) eager_stages(1)[folded claude_fields(1)] e]
    unfolding claude_g25 by auto
qed

lemma anthropic_cap_absent: "anthropic_cap p mt = Inr p' \<Longrightarrow> dget p k = None \<Longrightarrow> dget p' k = None"
  using anthropic_cap_keys[of p mt p'] keys_iff_dget[of k p] keys_iff_dget[of k p'] by auto

lemma outgoing_anthropic_absent:
  assumes "outgoing_params_for (ops_for fstr (Registered ''anthropic'')) params model cfg tenant = (raised, Inr out)"
    and "k = ''reasoning_effort'' \<or> dget params k = None" and "k \<noteq> ''extra_headers''" and "k \<noteq> ''context_management''"
  shows "dget out k = None"
proof -
  have ops: "ops_for fstr (Registered ''anthropic'') = anthropic_ops fstr"
    by (simp add: ops_for_def is_openai_family_def)
  define p5 where "p5 = hygienic (anthropic_ops fstr) model cfg params"
  obtain p6 p7 v ce where
    c: "ao_cap_reasoning (anthropic_ops fstr) p5 (dget_or p5 ''max_tokens'' PNone) = Inr p6"
    and r: "ao_reserve_headroom (anthropic_ops fstr) p6 model cfg
      (dget_or (filter (\<lambda>kv. forwardable (fst kv)) params) ''reasoning_effort'' PNone) = (p7, v)"
    and "raised = (case v of Inr w \<Rightarrow> if py_truthy w then w else PNone | Inl _ \<Rightarrow> PNone)"
    and x: "ao_context_management (anthropic_ops fstr) p7 ce = Inr out"
    by (rule outgoing_steps[OF assms(1)[unfolded ops], folded p5_def])
  have "''reasoning_effort'' \<in> set (ao_unsupported_params (anthropic_ops fstr))" by (simp add: anthropic_ops_def)
  then have s: "stripped (anthropic_ops fstr) model cfg params ''reasoning_effort''"
    unfolding stripped_def by blast
  have "dget p5 k = None"
    unfolding p5_def dget_hygienic using assms(2) s by (elim disjE) auto
  then have "dget p6 k = None" using anthropic_cap_absent c unfolding anthropic_hooks by blast
  moreover have "p7 = p6" using r unfolding anthropic_hooks by (simp only: prod.inject)
  ultimately show ?thesis using context_keeps[of fstr p7 ce out k] x assms(3,4) unfolding anthropic_hooks by simp
qed

lemma anthropic_unasked:
  assumes "sent = PStr reasoning_off \<or> \<not> known_tier sent"
  shows "map_effort (Registered ''anthropic'') sent config = Inr []"
  using assms by (auto simp: map_effort_def is_openai_family_def anthropic_map_effort_def is_off_def)

lemma capped_at_off:
  assumes "default_effort_of a (px_routed ctx) (px_config ctx) = reasoning_off"
  shows "capped_at_provider_default effort a ctx = PStr reasoning_off \<or>
         \<not> known_tier (capped_at_provider_default effort a ctx)"
proof (cases effort)
  case (PStr e)
  have d: "tier_index (py_lower (default_effort_of a (px_routed ctx) (px_config ctx))) = Some 0"
    using assms rank_tiers(1) by (simp add: reasoning_off_def py_lower_def lower_char_def)
  have o: "py_lower (default_effort_of a (px_routed ctx) (px_config ctx)) = reasoning_off"
    using assms by (simp add: reasoning_off_def py_lower_def lower_char_def)
  show ?thesis
  proof (cases "tier_index e")
    case None
    moreover have "e \<notin> set reasoning_tiers" using None by (simp add: tier_index_def index_of_None)
    ultimately show ?thesis by (simp add: PStr capped_at_provider_default_def d known_tier_def Let_def image_iff)
  next
    case (Some i)
    moreover have "e = reasoning_off" if "i = 0"
      using tier_index_Some[OF Some] that by (simp add: reasoning_tiers_def)
    ultimately show ?thesis using d by (simp add: PStr capped_at_provider_default_def o Let_def)
  qed
qed (auto simp: capped_at_provider_default_def known_tier_def)

text \<open>
  Anthropic thinks only when asked to, and thinking is billed. A request that names no reasoning
  parameter, of a tenant that chose no effort, is sent without one whichever of the two stages is
  switched on and whatever tier the classifier or the platform's default picks, as long as the operator
  neither escalates above the provider's default, nor sets a floor, nor changed that default.
\<close>

lemma thinking_is_never_switched_on:
  assumes "g25_process_request fstr rx defaults ctx = Inr c1" and "g12_process_request fstr c1 = Inr c2"
    and "outgoing_params_for (ops_for fstr (Registered ''anthropic'')) (px_params c2) model cfg tenant = (raised, Inr out)"
    and "px_adapter ctx = Some (Registered ''anthropic'')"
    and "tier_of (provider_entry ''anthropic'' (px_config ctx)) = None" and "\<not> tenant_chose_effort ctx"
    and "\<And>k. k \<in> set base_reasoning_param_keys \<Longrightarrow> dget (px_params ctx) k = None"
    and "\<And>g25. stage_config (px_config ctx) ''G25_adaptive_reasoning'' = Inr (Some g25) \<Longrightarrow>
           \<not> py_truthy (dget_or g25 ''escalate_above_provider_default'' (PBool False)) \<and>
           dget_or g25 ''effort_floor'' (PStr reasoning_off) = PStr reasoning_off"
  shows "dget out ''thinking'' = None \<and> dget out ''thinking_config'' = None \<and> dget out ''reasoning_effort'' = None"
proof -
  let ?a = "Registered ''anthropic''"
  have off: "default_effort_of ?a m (px_config ctx) = reasoning_off" for m
    using assms(5) by (simp add: default_effort_of_def is_openai_family_def default_reasoning_effort_def)
  have absent: "dget (px_params ctx) ''thinking'' = None" "dget (px_params ctx) ''thinking_config'' = None"
    "dget (px_params ctx) ''reasoning_effort'' = None"
    using assms(7) by (simp_all add: base_reasoning_param_keys_def)
  have keys: "ao_reasoning_param_keys (ops_for fstr ?a) = base_reasoning_param_keys"
    by (simp add: ops_for_def is_openai_family_def anthropic_ops_def base_ops_def)
  have c1: "c1 = ctx \<or> c1 = ctx\<lparr>px_params := dset ''reasoning_effort'' (PStr reasoning_off) (px_params ctx)\<rparr>"
    using g25_effect[OF assms(1)]
  proof (elim disjE exE conjE)
    fix g25 i
    assume g: "stage_config (px_config ctx) ''G25_adaptive_reasoning'' = Inr (Some g25)"
      and i: "i < 4" "i \<le> effort_bound fstr g25 ctx"
      and c: "c1 = ctx\<lparr>px_params := dset ''reasoning_effort'' (PStr (reasoning_tiers ! i)) (px_params ctx)\<rparr>"
    have "effort_bound fstr g25 ctx = 0"
      using assms(8)[OF g] off assms(4)
      by (simp add: effort_bound_def provider_ceiling_def py_str_def reasoning_off_def py_lower_def lower_char_def
          rank_or_def reasoning_tiers_def)
    then show ?thesis using i c by (simp add: reasoning_tiers_def)
  qed simp
  then have f: "px_config c1 = px_config ctx" "px_routed c1 = px_routed ctx" "px_adapter c1 = Some ?a"
    "dget (px_params c1) ''thinking'' = None" "dget (px_params c1) ''thinking_config'' = None"
    using assms(4) absent by (auto simp: dget_dset)
  have quiet: "sent_effort (ops_for fstr ?a) ?a (py_or (dget_or (px_params c1) ''reasoning_effort'' PNone) dflt) c1
      = PStr reasoning_off \<or>
    \<not> known_tier (sent_effort (ops_for fstr ?a) ?a (py_or (dget_or (px_params c1) ''reasoning_effort'' PNone) dflt) c1)" for dflt
  proof (cases "c1 = ctx")
    case True
    then have "\<not> list_ex (\<lambda>k. py_truthy (dget_or (px_params c1) k PNone)) base_reasoning_param_keys"
      using absent by (simp add: base_reasoning_param_keys_def dget_or_def)
    then show ?thesis using capped_at_off[of ?a c1] off f assms(6) True by (simp add: sent_effort_def keys)
  next
    case False
    then have "dget (px_params c1) ''reasoning_effort'' = Some (PStr reasoning_off)" using c1 by (auto simp: dget_dset)
    then show ?thesis
      by (simp add: sent_effort_def keys base_reasoning_param_keys_def dget_or_def py_or_def reasoning_off_def)
  qed
  have "dget (px_params c2) ''thinking'' = None \<and> dget (px_params c2) ''thinking_config'' = None"
    using g12_effect[OF assms(2) f(3)]
  proof (elim disjE exE conjE)
    fix g12 mapped sent
    assume s: "sent = sent_effort (ops_for fstr ?a) ?a
        (py_or (dget_or (px_params c1) ''reasoning_effort'' PNone) (dget_or g12 ''default_effort'' (PStr ''medium''))) c1"
      and m: "map_effort ?a sent (px_config c1) = Inr mapped"
      and p: "px_params c2 = write_effort (ops_for fstr ?a) mapped sent (px_params c1)"
    have "sent = PStr reasoning_off \<or> \<not> known_tier sent" unfolding s by (rule quiet)
    then have "mapped = []" using anthropic_unasked m by simp
    then show ?thesis
      unfolding p by (simp only: write_nothing_keeps_absent[OF f(4)] write_nothing_keeps_absent[OF f(5)] simp_thms)
  qed (use f in simp)
  then show ?thesis using outgoing_anthropic_absent[OF assms(3)] by simp
qed

definition claude_ctx_sent :: reason_ctx where
  "claude_ctx_sent = claude_ctx\<lparr>px_params := [(''max_tokens'', PInt 4000)], rx_mode := PStr ''off_honoured''\<rparr>"

lemma claude_g12:
  "g12_process_request (\<lambda>_. [])
     (claude_ctx\<lparr>px_params := [(''max_tokens'', PInt 4000), (''reasoning_effort'', PStr ''off'')]\<rparr>) = Inr claude_ctx_sent"
  by code_simp

lemma thinking_is_never_switched_on_witness:
  "dget [(''max_tokens'', PInt 4000)] ''thinking'' = None \<and>
   snd (outgoing_params_for (ops_for (\<lambda>_. []) (Registered ''anthropic'')) (px_params claude_ctx_sent)
     ''claude'' eager_config ''default'') = Inr [(''max_tokens'', PInt 4000)]"
proof -
  have out: "outgoing_params_for (ops_for (\<lambda>_. []) (Registered ''anthropic'')) (px_params claude_ctx_sent)
     ''claude'' eager_config ''default'' = (PNone, Inr [(''max_tokens'', PInt 4000)])" by code_simp
  have t: "tier_of (provider_entry ''anthropic'' (px_config claude_ctx)) = None" by code_simp
  have n: "\<not> tenant_chose_effort claude_ctx" by code_simp
  have p: "dget (px_params claude_ctx) k = None" if "k \<in> set base_reasoning_param_keys" for k
    using that by (auto simp: claude_fields base_reasoning_param_keys_def)
  have g: "\<not> py_truthy (dget_or g25 ''escalate_above_provider_default'' (PBool False)) \<and>
      dget_or g25 ''effort_floor'' (PStr reasoning_off) = PStr reasoning_off"
    if "stage_config (px_config claude_ctx) ''G25_adaptive_reasoning'' = Inr (Some g25)" for g25
    using that by (auto simp: claude_fields eager_stages dget_or_def)
  have "dget [(''max_tokens'', PInt 4000)] ''thinking'' = None"
    using thinking_is_never_switched_on[OF claude_g25 claude_g12 out claude_fields(2) t n p g] by blast
  then show ?thesis using out by simp
qed

end
