(* ===== verification/Key_Store.thy ===== *)
theory Key_Store
  imports Py_Prelude
begin

text \<open>
  The store of proxy keys of \<open>auth/api_key_manager.py\<close>: the lifecycle operations (issue, suspend,
  contract, allowlist, delete, rotate), the write path they share, and the lookup of a key through the
  cache of a process. A store maps the hash of a key to its record, or to a user id in the legacy
  format, so it is a dictionary of the prelude. Arguments of the model: \<open>sha\<close> is the hash, \<open>fstr\<close> is
  \<open>str\<close> on a value that is no text, \<open>now_iso\<close> the time stamp of a record. One lookup reads the clock once;
  lookups and writes of one process are taken one after another, as its locks order them. The log
  lines, the Secret Manager client and the platform keys of providers are left out.
\<close>

section \<open>Records\<close>

type_synonym key_record = pydict

definition flag :: "string \<Rightarrow> pyval \<Rightarrow> bool" where
  "flag k metadata \<longleftrightarrow> (case metadata of PDict d \<Rightarrow> py_truthy (dget_or d k PNone) | _ \<Rightarrow> False)"

definition is_admin_key :: "pyval \<Rightarrow> bool" where "is_admin_key m \<longleftrightarrow> flag ''admin'' m"

definition is_suspended :: "pyval \<Rightarrow> bool" where "is_suspended m \<longleftrightarrow> flag ''suspended'' m"

definition is_contract_inactive :: "pyval \<Rightarrow> bool" where "is_contract_inactive m \<longleftrightarrow> flag ''contract_inactive'' m"

definition is_gateway_key :: "pyval \<Rightarrow> bool" where
  "is_gateway_key m \<longleftrightarrow> (case m of PDict d \<Rightarrow> dget d ''gateway'' = Some (PBool True) | _ \<Rightarrow> False)"

definition get_ip_allowlist :: "(pyval \<Rightarrow> string) \<Rightarrow> pyval \<Rightarrow> string list" where
  "get_ip_allowlist fstr m =
     (case m of
        PDict d \<Rightarrow> (case dget_or d ''ip_allowlist'' PNone of
                     PList cs \<Rightarrow> map (\<lambda>c. case c of PStr s \<Rightarrow> s | _ \<Rightarrow> fstr c) cs | _ \<Rightarrow> [])
      | _ \<Rightarrow> [])"

definition owned :: "string \<Rightarrow> pyval \<Rightarrow> bool" where
  "owned t e \<longleftrightarrow> (case e of PDict d \<Rightarrow> dget d ''tenant_id'' = Some (PStr t) | _ \<Rightarrow> False)"

definition created_at :: "key_record \<Rightarrow> pyval" where
  "created_at d = py_or (dget_or d ''created_at'' PNone) (PStr [])"

text \<open>\<open>max(xs, key=...)\<close>: the first of the greatest.\<close>

fun max_from :: "('a \<Rightarrow> pyval) \<Rightarrow> 'a \<Rightarrow> 'a list \<Rightarrow> pyexc + 'a" where
  "max_from key b [] = Inr b"
| "max_from key b (x # xs) = bind_res (py_lt (key b) (key x)) (\<lambda>lt. max_from key (if lt then x else b) xs)"

definition records_of :: "string \<Rightarrow> pydict \<Rightarrow> key_record list" where
  "records_of t store = List.map_filter (\<lambda>(h, e). if owned t e then dict_of e else None) store"

definition cidrs_of :: "key_record \<Rightarrow> pyval list" where
  "cidrs_of d = (case dget_or d ''ip_allowlist'' PNone of PList cs \<Rightarrow> cs | _ \<Rightarrow> [])"

text \<open>The newest list that is not empty.\<close>

definition tenant_allowlist :: "(pyval \<Rightarrow> string) \<Rightarrow> pydict \<Rightarrow> string \<Rightarrow> pyexc + pyval list" where
  "tenant_allowlist fstr store t =
     (case filter (\<lambda>d. cidrs_of d \<noteq> []) (records_of t store) of
        [] \<Rightarrow> Inr []
      | d # ds \<Rightarrow> map_sum id (\<lambda>m. map (\<lambda>c. PStr (case c of PStr s \<Rightarrow> s | _ \<Rightarrow> fstr c)) (cidrs_of m))
                     (max_from created_at d ds))"

section \<open>The lifecycle operations\<close>

text \<open>What an operation makes of the store: whether it changed, the store, the answer.\<close>

type_synonym 'r mutation = "pydict \<Rightarrow> pyexc + bool \<times> pydict \<times> 'r"

definition reserved_fields :: "string list" where
  "reserved_fields = [''tenant_id'', ''tier'', ''created_at'', ''admin'', ''suspended'', ''contract_inactive'',
                      ''ip_allowlist'', ''gateway'']"

definition merged :: "pydict \<Rightarrow> pydict \<Rightarrow> pydict" where
  "merged new d = fold (\<lambda>(k, v) e. dset k v e) new d"

definition new_record ::
  "string \<Rightarrow> pyval \<Rightarrow> bool \<Rightarrow> bool \<Rightarrow> pyval \<Rightarrow> string \<Rightarrow> key_record" where
  "new_record t tier admin gateway extra now_iso =
     (let base = merged (case extra of PDict x \<Rightarrow> filter (\<lambda>kv. fst kv \<notin> set reserved_fields) x | _ \<Rightarrow> []) [];
          m = merged [(''tenant_id'', PStr t), (''tier'', tier), (''created_at'', PStr now_iso)] base;
          m = (if admin then dset ''admin'' (PBool True) m else m)
      in if gateway then dset ''gateway'' (PBool True) m else m)"

definition clean_tier :: "string \<Rightarrow> pyval" where
  "clean_tier tier = PStr (py_lower (py_strip (if tier = [] then ''free'' else tier)))"

definition add_key :: "(pyval \<Rightarrow> string) \<Rightarrow> string \<Rightarrow> string \<Rightarrow> key_record \<Rightarrow> key_record mutation" where
  "add_key fstr key_hash t metadata store =
     (if dget store key_hash \<noteq> None then Inl ValueError
      else bind_res (tenant_allowlist fstr store t) (\<lambda>cidrs.
             let m = (if cidrs \<noteq> [] then dset ''ip_allowlist'' (PList cidrs) metadata else metadata)
             in Inr (True, dset key_hash (PDict m) store, m)))"

definition create_key ::
  "(string \<Rightarrow> string) \<Rightarrow> (pyval \<Rightarrow> string) \<Rightarrow> string \<Rightarrow> string \<Rightarrow> string \<Rightarrow> bool \<Rightarrow> bool \<Rightarrow> pyval \<Rightarrow> string
   \<Rightarrow> key_record mutation" where
  "create_key sha fstr raw tenant_id tier admin gateway extra now_iso store =
     (let t = py_strip tenant_id in
      if t = [] then Inl ValueError
      else add_key fstr (sha raw) t (new_record t (clean_tier tier) admin gateway extra now_iso) store)"

text \<open>Operations that rewrite the records of one tenant in place.\<close>

definition rewrite_owned :: "string \<Rightarrow> (key_record \<Rightarrow> bool) \<Rightarrow> (key_record \<Rightarrow> key_record) \<Rightarrow> nat mutation" where
  "rewrite_owned t differs f store =
     (let hit = (\<lambda>e. owned t e \<and> (case e of PDict d \<Rightarrow> differs d | _ \<Rightarrow> False));
          changed = length (filter (\<lambda>kv. hit (snd kv)) store)
      in Inr (0 < changed,
              map (\<lambda>(h, e). (h, if hit e then (case e of PDict d \<Rightarrow> PDict (f d) | _ \<Rightarrow> e) else e)) store,
              changed))"

definition set_flag :: "string \<Rightarrow> string \<Rightarrow> bool \<Rightarrow> nat mutation" where
  "set_flag k t wanted =
     rewrite_owned t (\<lambda>d. py_truthy (dget_or d k PNone) \<noteq> wanted)
       (\<lambda>d. if wanted then dset k (PBool True) d else dpop k d)"

definition set_suspended :: "string \<Rightarrow> bool \<Rightarrow> nat mutation" where
  "set_suspended tenant_id suspended = set_flag ''suspended'' (py_strip tenant_id) suspended"

definition set_contract_active :: "string \<Rightarrow> bool \<Rightarrow> nat mutation" where
  "set_contract_active tenant_id active = set_flag ''contract_inactive'' (py_strip tenant_id) (\<not> active)"

text \<open>\<open>list(entry.get("ip_allowlist") or [])\<close>: a record with a value that is no iterable raises.\<close>

definition current_cidrs :: "key_record \<Rightarrow> pyexc + pyval list" where
  "current_cidrs d = py_iter (py_or (dget_or d ''ip_allowlist'' PNone) (PList []))"

definition set_ip_allowlist :: "string \<Rightarrow> string list \<Rightarrow> nat mutation" where
  "set_ip_allowlist tenant_id cidrs store =
     (let t = py_strip tenant_id; new_val = map PStr cidrs in
      if list_ex (\<lambda>d. isl (current_cidrs d)) (records_of t store) then Inl TypeError
      else rewrite_owned t (\<lambda>d. current_cidrs d \<noteq> Inr new_val)
             (\<lambda>d. if new_val \<noteq> [] then dset ''ip_allowlist'' (PList new_val) d else dpop ''ip_allowlist'' d) store)"

definition delete_tenant_keys :: "string \<Rightarrow> nat mutation" where
  "delete_tenant_keys tenant_id store =
     (let t = py_strip tenant_id; kept = filter (\<lambda>kv. \<not> owned t (snd kv)) store in
      Inr (length kept < length store, kept, length store - length kept))"

text \<open>Rotation: one record for all of the tenant's.\<close>

definition rotated_record ::
  "string \<Rightarrow> key_record \<Rightarrow> key_record list \<Rightarrow> pyval list \<Rightarrow> string \<Rightarrow> key_record" where
  "rotated_record t newest old cidrs now_iso =
     (let base = [(''tenant_id'', PStr t), (''tier'', py_or (dget_or newest ''tier'' PNone) (PStr ''free'')),
                  (''created_at'', PStr now_iso)];
          m = fold (\<lambda>(k, v) m. if dget m k = None \<and> k \<notin> {''admin'', ''suspended'', ''gateway'', ''ip_allowlist''}
                               then dset k v m else m) newest base;
          m = (if cidrs \<noteq> [] then dset ''ip_allowlist'' (PList cidrs) m else m);
          m = (if is_admin_key (PDict newest) then dset ''admin'' (PBool True) m else m);
          m = (if is_gateway_key (PDict newest) then dset ''gateway'' (PBool True) m else m)
      in if list_ex (\<lambda>d. is_suspended (PDict d)) old then dset ''suspended'' (PBool True) m else m)"

definition rotate_tenant_keys ::
  "(string \<Rightarrow> string) \<Rightarrow> (pyval \<Rightarrow> string) \<Rightarrow> string \<Rightarrow> string \<Rightarrow> string \<Rightarrow> (key_record \<times> nat) mutation" where
  "rotate_tenant_keys sha fstr raw tenant_id now_iso store =
     (let t = py_strip tenant_id; old = records_of t store in
      if t = [] then Inl ValueError
      else (case old of
              [] \<Rightarrow> Inl ValueError
            | d # ds \<Rightarrow>
                bind_res (max_from created_at d ds) (\<lambda>newest.
                bind_res (tenant_allowlist fstr store t) (\<lambda>cidrs.
                  let m = rotated_record t newest old cidrs now_iso
                  in Inr (True, dset (sha raw) (PDict m) (filter (\<lambda>kv. \<not> owned t (snd kv)) store), (m, length old))))))"

section \<open>The write path\<close>

text \<open>
  What a process sees: the store all instances share and its own cache of it. A backend with a
  transaction hook hands back the store after every call, a blob store only after a change.
\<close>

record key_cache =
  kc_keys :: pydict
  kc_loaded_at :: rat
  kc_forced_at :: rat
  kc_attempt_at :: rat
  kc_version :: "string option"
  kc_checked_at :: rat

definition new_cache :: key_cache where
  "new_cache = \<lparr>kc_keys = [], kc_loaded_at = 0, kc_forced_at = 0, kc_attempt_at = 0, kc_version = None, kc_checked_at = 0\<rparr>"

definition replace_cache :: "pydict \<Rightarrow> rat \<Rightarrow> key_cache \<Rightarrow> key_cache" where
  "replace_cache store now c = c\<lparr>kc_keys := store, kc_loaded_at := now, kc_checked_at := now\<rparr>"

definition replace_tenants_in_cache :: "string list \<Rightarrow> pydict \<Rightarrow> key_cache \<Rightarrow> key_cache" where
  "replace_tenants_in_cache tenant_ids entries c =
     c\<lparr>kc_keys := merged entries (filter (\<lambda>kv. \<not> list_ex (\<lambda>t. owned t (snd kv)) tenant_ids) (kc_keys c))\<rparr>"

definition mutate_store ::
  "bool \<Rightarrow> rat \<Rightarrow> 'r mutation \<Rightarrow> pydict \<times> key_cache \<Rightarrow> (pydict \<times> key_cache) \<times> (pyexc + 'r)" where
  "mutate_store transact now op w =
     (case w of (store, c) \<Rightarrow>
        (case op store of
           Inl e \<Rightarrow> (w, Inl e)
         | Inr (changed, store', r) \<Rightarrow>
             (let store'' = (if changed then store' else store) in
              ((store'', if changed \<or> transact then c\<lparr>kc_keys := store'', kc_loaded_at := now\<rparr> else c), Inr r))))"

section \<open>The lookup\<close>

text \<open>The deployment's intervals, and what a load and a version check give now.\<close>

record key_times =
  kt_ttl :: rat
  kt_forced :: rat
  kt_check :: rat

record store_view =
  sv_backend :: bool
  sv_load :: "pydict option"
  sv_version :: "string option"

definition load_key_cache :: "store_view \<Rightarrow> rat \<Rightarrow> key_cache \<Rightarrow> key_cache" where
  "load_key_cache v now c =
     (case sv_load v of
        None \<Rightarrow> c
      | Some d \<Rightarrow>
          if sv_backend v then c\<lparr>kc_keys := d, kc_loaded_at := now\<rparr>
          else c\<lparr>kc_keys := d, kc_loaded_at := now, kc_version := sv_version v, kc_checked_at := now\<rparr>)"

definition reload_keys :: "key_times \<Rightarrow> store_view \<Rightarrow> rat \<Rightarrow> bool \<Rightarrow> bool \<Rightarrow> key_cache \<Rightarrow> key_cache" where
  "reload_keys kt v now miss still_needed c =
     (if \<not> still_needed \<or> now \<le> kc_attempt_at c then c
      else if miss \<and> now - kc_forced_at c < kt_forced kt then c
      else (let c = (if miss then c\<lparr>kc_forced_at := now\<rparr> else c)
            in load_key_cache v now (c\<lparr>kc_attempt_at := now\<rparr>)))"

definition version_check_due :: "key_times \<Rightarrow> store_view \<Rightarrow> rat \<Rightarrow> key_cache \<Rightarrow> bool" where
  "version_check_due kt v now c \<longleftrightarrow> \<not> sv_backend v \<and> kc_keys c \<noteq> [] \<and> kt_check kt \<le> now - kc_checked_at c"

definition check_store_version :: "key_times \<Rightarrow> store_view \<Rightarrow> rat \<Rightarrow> key_cache \<Rightarrow> key_cache" where
  "check_store_version kt v now c =
     (if now \<le> kc_checked_at c then c
      else (let c = c\<lparr>kc_checked_at := now\<rparr> in
            if sv_version v \<noteq> None \<and> sv_version v \<noteq> kc_version c then reload_keys kt v now False True c else c))"

definition cold_or_stale :: "key_times \<Rightarrow> rat \<Rightarrow> key_cache \<Rightarrow> bool" where
  "cold_or_stale kt now c \<longleftrightarrow> kc_keys c = [] \<or> kt_ttl kt < now - kc_loaded_at c"

definition refreshed :: "key_times \<Rightarrow> store_view \<Rightarrow> rat \<Rightarrow> key_cache \<Rightarrow> key_cache" where
  "refreshed kt v now c =
     (let c1 = (if kc_keys c = [] \<or> (kt_ttl kt < now - kc_loaded_at c \<and> kt_forced kt \<le> now - kc_attempt_at c)
                then reload_keys kt v now False (cold_or_stale kt now c) c else c)
      in if version_check_due kt v now c1 then check_store_version kt v now c1 else c1)"

definition present :: "pydict \<Rightarrow> string \<Rightarrow> bool" where
  "present store h \<longleftrightarrow> dget_or store h PNone \<noteq> PNone"

definition validate_proxy_key ::
  "(string \<Rightarrow> string) \<Rightarrow> key_times \<Rightarrow> store_view \<Rightarrow> rat \<Rightarrow> string \<Rightarrow> key_cache
   \<Rightarrow> key_cache \<times> (pyval \<times> pyval) option" where
  "validate_proxy_key sha kt v now api_key c =
     (let h = sha api_key;
          c1 = refreshed kt v now c;
          c2 = (if present (kc_keys c1) h then c1
                else reload_keys kt v now True (dget (kc_keys c1) h = None) c1);
          entry = dget_or (kc_keys c2) h PNone
      in (c2, case entry of
                PNone \<Rightarrow> None
              | PDict d \<Rightarrow> Some (dget_or d ''tenant_id'' (PStr ''default''), entry)
              | _ \<Rightarrow> Some (entry, PNone)))"

section \<open>Histories\<close>

text \<open>One lifecycle call on the shared store; a call that raises writes nothing.\<close>

datatype key_call =
    Issue string string string bool bool pyval string
  | Suspend string bool
  | Contract string bool
  | Allowlist string "string list"
  | Delete string
  | Rotate string string string

definition run_call :: "(string \<Rightarrow> string) \<Rightarrow> (pyval \<Rightarrow> string) \<Rightarrow> key_call \<Rightarrow> pydict \<Rightarrow> pyexc + pydict" where
  "run_call sha fstr call store =
     (case call of
        Issue raw t tier adm gw extra now_iso \<Rightarrow> map_sum id (fst \<circ> snd) (create_key sha fstr raw t tier adm gw extra now_iso store)
      | Suspend t b \<Rightarrow> map_sum id (fst \<circ> snd) (set_suspended t b store)
      | Contract t b \<Rightarrow> map_sum id (fst \<circ> snd) (set_contract_active t b store)
      | Allowlist t cs \<Rightarrow> map_sum id (fst \<circ> snd) (set_ip_allowlist t cs store)
      | Delete t \<Rightarrow> map_sum id (fst \<circ> snd) (delete_tenant_keys t store)
      | Rotate raw t now_iso \<Rightarrow> map_sum id (fst \<circ> snd) (rotate_tenant_keys sha fstr raw t now_iso store))"

text \<open>A rotation draws the new key at random; the history takes it to be none the store holds.\<close>

definition fresh_key :: "(string \<Rightarrow> string) \<Rightarrow> key_call \<Rightarrow> pydict \<Rightarrow> bool" where
  "fresh_key sha call store \<longleftrightarrow> (case call of Rotate raw _ _ \<Rightarrow> dget store (sha raw) = None | _ \<Rightarrow> True)"

inductive key_history :: "(string \<Rightarrow> string) \<Rightarrow> (pyval \<Rightarrow> string) \<Rightarrow> pydict \<Rightarrow> key_call list \<Rightarrow> pydict \<Rightarrow> bool"
  for sha fstr where
  history_Nil: "key_history sha fstr store [] store"
| history_done: "fresh_key sha call store \<Longrightarrow> run_call sha fstr call store = Inr store1 \<Longrightarrow>
     key_history sha fstr store1 calls store' \<Longrightarrow>
     key_history sha fstr store (call # calls) store'"
| history_refused: "run_call sha fstr call store = Inl e \<Longrightarrow> key_history sha fstr store calls store' \<Longrightarrow>
     key_history sha fstr store (call # calls) store'"

inductive_cases key_history_ConsE: "key_history sha fstr store (call # calls) store'"

definition tenant_of_call :: "key_call \<Rightarrow> string" where
  "tenant_of_call call = py_strip (case call of Issue _ t _ _ _ _ _ \<Rightarrow> t | Suspend t _ \<Rightarrow> t | Contract t _ \<Rightarrow> t
     | Allowlist t _ \<Rightarrow> t | Delete t \<Rightarrow> t | Rotate _ t _ \<Rightarrow> t)"

text \<open>A check of every key a tenant holds.\<close>

definition all_keys :: "string \<Rightarrow> (key_record \<Rightarrow> bool) \<Rightarrow> pydict \<Rightarrow> bool" where
  "all_keys t P store \<longleftrightarrow> list_all P (records_of t store)"

section \<open>What an operation does to the records of a tenant\<close>

lemma owned_dict: "owned t (PDict d) \<longleftrightarrow> dget d ''tenant_id'' = Some (PStr t)"
  by (simp add: owned_def)

lemma owned_is_dict: "owned t e \<Longrightarrow> \<exists>d. e = PDict d"
  by (cases e) (auto simp: owned_def)

lemma owned_unique: "owned t e \<Longrightarrow> owned u e \<Longrightarrow> t = u"
  by (auto simp: owned_def split: pyval.splits)

lemma records_of_simps [simp]:
  "records_of t [] = []"
  "records_of t ((h, e) # s) = (case e of PDict d \<Rightarrow> if owned t e then d # records_of t s else records_of t s | _ \<Rightarrow> records_of t s)"
  by (auto simp: records_of_def owned_def map_filter_simps split: pyval.splits)

lemma records_of_append [simp]: "records_of t (a @ b) = records_of t a @ records_of t b"
  by (simp add: records_of_def map_filter_def)

lemma records_of_owned: "d \<in> set (records_of t store) \<Longrightarrow> owned t (PDict d)"
  by (induction store) (auto split: pyval.splits if_splits)

lemma records_of_dget: "dget store h = Some (PDict d) \<Longrightarrow> owned t (PDict d) \<Longrightarrow> d \<in> set (records_of t store)"
  by (induction store) (auto split: if_splits pyval.splits)

lemma dset_fresh: "dget d k = None \<Longrightarrow> dset k v d = d @ [(k, v)]"
  by (induction d) (auto split: if_splits)

lemma records_of_drop_owned:
  "records_of u (filter (\<lambda>kv. \<not> owned t (snd kv)) store) = (if u = t then [] else records_of u store)"
proof (induction store)
  case (Cons kv s)
  then show ?case by (cases kv) (auto split: pyval.splits dest: owned_unique)
qed simp

lemma dget_drop_owned_None: "dget store h = None \<Longrightarrow> dget (filter (\<lambda>kv. \<not> owned t (snd kv)) store) h = None"
  by (induction store) (auto split: if_splits)

definition rewritten :: "string \<Rightarrow> (key_record \<Rightarrow> bool) \<Rightarrow> (key_record \<Rightarrow> key_record) \<Rightarrow> pydict \<Rightarrow> pydict" where
  "rewritten t differs f store =
     map (\<lambda>(h, e). (h, case e of PDict d \<Rightarrow> if owned t e \<and> differs d then PDict (f d) else e | _ \<Rightarrow> e)) store"

lemma rewrite_owned_alt:
  "rewrite_owned t differs f store =
     Inr (list_ex differs (records_of t store), rewritten t differs f store, length (filter differs (records_of t store)))"
proof -
  let ?hit = "\<lambda>e. owned t e \<and> (case e of PDict d \<Rightarrow> differs d | _ \<Rightarrow> False)"
  have l: "length (filter (\<lambda>kv. ?hit (snd kv)) store) = length (filter differs (records_of t store))" for store
    by (induction store) (auto split: pyval.splits)
  have e: "0 < length (filter differs xs) \<longleftrightarrow> list_ex differs xs" for xs
    by (induction xs) auto
  show ?thesis
    unfolding rewrite_owned_def Let_def rewritten_def l e
    by (auto split: pyval.splits)
qed

lemma records_of_rewritten:
  assumes "\<And>d. dget (f d) ''tenant_id'' = dget d ''tenant_id''"
  shows "records_of u (rewritten t differs f store) =
           (if u = t then map (\<lambda>d. if differs d then f d else d) (records_of t store) else records_of u store)"
proof (induction store)
  case Nil
  then show ?case by (simp add: rewritten_def)
next
  case (Cons kv s)
  obtain h e where kv: "kv = (h, e)" by (cases kv)
  have step: "rewritten t differs f ((h, e) # s) =
      (h, case e of PDict d \<Rightarrow> if owned t e \<and> differs d then PDict (f d) else e | _ \<Rightarrow> e) # rewritten t differs f s"
    for h e s by (simp add: rewritten_def)
  show ?case
  proof (cases e)
    case (PDict d)
    have "owned u (PDict (f d)) = owned u (PDict d)" using assms by (simp add: owned_dict)
    then show ?thesis using Cons.IH PDict kv owned_unique[of t "PDict d" u] by (auto simp: step)
  qed (use Cons.IH kv step in auto)
qed

lemma others_rewritten:
  assumes "\<And>d. dget (f d) ''tenant_id'' = dget d ''tenant_id''"
  shows "filter (\<lambda>kv. \<not> owned t (snd kv)) (rewritten t differs f store) = filter (\<lambda>kv. \<not> owned t (snd kv)) store"
proof (induction store)
  case (Cons kv s)
  obtain h e where kv: "kv = (h, e)" by (cases kv)
  show ?case
  proof (cases e)
    case (PDict d)
    have "owned t (PDict (f d)) = owned t (PDict d)" using assms by (simp add: owned_dict)
    then show ?thesis using Cons.IH PDict kv by (auto simp: rewritten_def)
  qed (use Cons.IH kv in \<open>auto simp: rewritten_def\<close>)
qed (simp add: rewritten_def)

lemma keys_rewritten: "map fst (rewritten t differs f store) = map fst store"
  by (induction store) (auto simp: rewritten_def)

lemma dget_merged: "dget (merged new d) k = (case dget (rev new) k of None \<Rightarrow> dget d k | Some v \<Rightarrow> Some v)"
proof (induction new arbitrary: d)
  case (Cons kv new)
  obtain a b where "kv = (a, b)" by (cases kv)
  then show ?case using Cons.IH[of "dset a b d"]
    by (auto simp: merged_def dget_dset map_add_def split: option.splits)
qed (simp add: merged_def)

lemma dget_filtered_out: "k \<notin> K \<Longrightarrow> dget (rev (filter (\<lambda>kv. fst kv \<in> K) x)) k = None"
  by (auto simp: map_of_eq_None_iff)

lemma dget_merged_filtered_out:
  "k \<notin> K \<Longrightarrow> dget (merged (filter (\<lambda>kv. fst kv \<in> K) x) d) k = dget d k"
  by (simp add: dget_merged dget_filtered_out)

text \<open>The fields of an issued record that its arguments fix.\<close>

lemma new_record_fields:
  fixes t tier admin gateway extra now_iso
  defines "m \<equiv> new_record t tier admin gateway extra now_iso"
  shows "dget m ''tenant_id'' = Some (PStr t)" and "dget m ''tier'' = Some tier"
    and "dget m ''created_at'' = Some (PStr now_iso)"
    and "dget m ''admin'' = (if admin then Some (PBool True) else None)"
    and "dget m ''gateway'' = (if gateway then Some (PBool True) else None)"
    and "dget m ''suspended'' = None" and "dget m ''contract_inactive'' = None" and "dget m ''ip_allowlist'' = None"
proof -
  define base where "base = merged (case extra of PDict x \<Rightarrow> filter (\<lambda>kv. fst kv \<notin> set reserved_fields) x | _ \<Rightarrow> []) []"
  have b: "dget base k = None" if "k \<in> set reserved_fields" for k
    unfolding base_def using dget_merged_filtered_out[of k "- set reserved_fields" _ "[]"] that
    by (cases extra) (simp_all add: merged_def)
  have r: "''admin'' \<in> set reserved_fields" "''gateway'' \<in> set reserved_fields" "''suspended'' \<in> set reserved_fields"
      "''contract_inactive'' \<in> set reserved_fields" "''ip_allowlist'' \<in> set reserved_fields"
    by (simp_all add: reserved_fields_def)
  have m: "dget m k = (if k = ''gateway'' \<and> gateway then Some (PBool True) else
             if k = ''admin'' \<and> admin then Some (PBool True) else
             if k = ''created_at'' then Some (PStr now_iso) else
             if k = ''tier'' then Some tier else
             if k = ''tenant_id'' then Some (PStr t) else dget base k)" for k
    by (simp add: m_def new_record_def Let_def base_def[symmetric] dget_dset dget_merged)
  show "dget m ''tenant_id'' = Some (PStr t)" "dget m ''tier'' = Some tier"
      "dget m ''created_at'' = Some (PStr now_iso)"
      "dget m ''admin'' = (if admin then Some (PBool True) else None)"
      "dget m ''gateway'' = (if gateway then Some (PBool True) else None)"
      "dget m ''suspended'' = None" "dget m ''contract_inactive'' = None" "dget m ''ip_allowlist'' = None"
    using b[OF r(1)] b[OF r(2)] b[OF r(3)] b[OF r(4)] b[OF r(5)] by (simp_all add: m)
qed

lemma create_key_effect:
  assumes "create_key sha fstr raw tenant_id tier admin gateway extra now_iso store = Inr (b, store', m)"
  obtains cidrs where "tenant_allowlist fstr store (py_strip tenant_id) = Inr cidrs"
    and "m = (let r = new_record (py_strip tenant_id) (clean_tier tier) admin gateway extra now_iso
              in if cidrs \<noteq> [] then dset ''ip_allowlist'' (PList cidrs) r else r)"
    and "dget store (sha raw) = None" and "store' = store @ [(sha raw, PDict m)]" and b
    and "owned (py_strip tenant_id) (PDict m)"
  using assms
  by (auto simp: create_key_def add_key_def Let_def bind_res_Inr dset_fresh owned_dict new_record_fields(1) dget_dset
           split: if_splits)

lemma max_from_in: "max_from key b xs = Inr m \<Longrightarrow> m \<in> set (b # xs)"
  by (induction xs arbitrary: b) (auto simp: bind_res_Inr split: if_splits)

lemma dget_carried:
  "dget (fold (\<lambda>(k, v) m. if dget m k = None \<and> k \<notin> K then dset k v m else m) xs d) k =
     (case dget d k of None \<Rightarrow> if k \<in> K then None else dget xs k | Some v \<Rightarrow> Some v)"
proof (induction xs arbitrary: d)
  case (Cons kv xs)
  obtain a b where kv: "kv = (a, b)" by (cases kv)
  have one: "dget (if dget d a = None \<and> a \<notin> K then dset a b d else d) k =
      (case dget d k of None \<Rightarrow> if k = a \<and> k \<notin> K then Some b else None | Some v \<Rightarrow> Some v)"
    by (auto simp: dget_dset split: option.splits)
  show ?case using Cons.IH[of "if dget d a = None \<and> a \<notin> K then dset a b d else d"]
    unfolding kv by (simp only: one fold_simps prod.case comp_apply) (auto split: option.splits)
qed (simp split: option.splits)

lemma rotated_record_fields:
  fixes t newest old cidrs now_iso
  defines "m \<equiv> rotated_record t newest old cidrs now_iso"
  shows "dget m ''tenant_id'' = Some (PStr t)"
    and "dget m ''admin'' = (if is_admin_key (PDict newest) then Some (PBool True) else None)"
    and "dget m ''gateway'' = (if is_gateway_key (PDict newest) then Some (PBool True) else None)"
    and "dget m ''suspended'' = (if list_ex (\<lambda>d. is_suspended (PDict d)) old then Some (PBool True) else None)"
    and "dget m ''contract_inactive'' = dget newest ''contract_inactive''"
    and "dget m ''ip_allowlist'' = (if cidrs \<noteq> [] then Some (PList cidrs) else None)"
proof -
  define base where "base = fold (\<lambda>(k, v) m. if dget m k = None \<and> k \<notin> {''admin'', ''suspended'', ''gateway'', ''ip_allowlist''}
      then dset k v m else m) newest
     [(''tenant_id'', PStr t), (''tier'', py_or (dget_or newest ''tier'' PNone) (PStr ''free'')), (''created_at'', PStr now_iso)]"
  have b: "dget base ''tenant_id'' = Some (PStr t)" "dget base ''admin'' = None" "dget base ''suspended'' = None"
      "dget base ''gateway'' = None" "dget base ''ip_allowlist'' = None"
      "dget base ''contract_inactive'' = dget newest ''contract_inactive''"
    unfolding base_def dget_carried by simp_all
  have m: "dget m k = (if k = ''suspended'' \<and> list_ex (\<lambda>d. is_suspended (PDict d)) old then Some (PBool True) else
             if k = ''gateway'' \<and> is_gateway_key (PDict newest) then Some (PBool True) else
             if k = ''admin'' \<and> is_admin_key (PDict newest) then Some (PBool True) else
             if k = ''ip_allowlist'' \<and> cidrs \<noteq> [] then Some (PList cidrs) else dget base k)" for k
    unfolding m_def rotated_record_def Let_def base_def[symmetric] by (simp add: dget_dset)
  show "dget m ''tenant_id'' = Some (PStr t)"
    "dget m ''admin'' = (if is_admin_key (PDict newest) then Some (PBool True) else None)"
    "dget m ''gateway'' = (if is_gateway_key (PDict newest) then Some (PBool True) else None)"
    "dget m ''suspended'' = (if list_ex (\<lambda>d. is_suspended (PDict d)) old then Some (PBool True) else None)"
    "dget m ''contract_inactive'' = dget newest ''contract_inactive''"
    "dget m ''ip_allowlist'' = (if cidrs \<noteq> [] then Some (PList cidrs) else None)"
    using b by (simp_all add: m)
qed

lemma rotate_effect:
  assumes "rotate_tenant_keys sha fstr raw tenant_id now_iso store = Inr (b, store', m, n)"
  obtains newest cidrs where "newest \<in> set (records_of (py_strip tenant_id) store)"
    and "tenant_allowlist fstr store (py_strip tenant_id) = Inr cidrs"
    and "m = rotated_record (py_strip tenant_id) newest (records_of (py_strip tenant_id) store) cidrs now_iso"
    and "store' = dset (sha raw) (PDict m) (filter (\<lambda>kv. \<not> owned (py_strip tenant_id) (snd kv)) store)" and b
    and "n = length (records_of (py_strip tenant_id) store)" and "owned (py_strip tenant_id) (PDict m)"
proof -
  let ?t = "py_strip tenant_id"
  obtain d ds where o: "records_of ?t store = d # ds" and ne: "?t \<noteq> []"
    using assms by (auto simp: rotate_tenant_keys_def Let_def split: if_splits list.splits)
  obtain newest cidrs where n: "max_from created_at d ds = Inr newest" and c: "tenant_allowlist fstr store ?t = Inr cidrs"
      and r: "b" "m = rotated_record ?t newest (d # ds) cidrs now_iso" "n = length (d # ds)"
        "store' = dset (sha raw) (PDict m) (filter (\<lambda>kv. \<not> owned ?t (snd kv)) store)"
    using assms o ne by (auto simp: rotate_tenant_keys_def Let_def bind_res_Inr)
  show ?thesis
    by (rule that[of newest cidrs]) (use n c r o max_from_in[OF n] rotated_record_fields(1) in \<open>auto simp: owned_dict\<close>)
qed

section \<open>The contract of a lifecycle operation\<close>

text \<open>
  An operation for a tenant leaves the entries of all others as they are, in their order, and keeps
  the hashes distinct. What another tenant's keys hold, and what a lookup of them gives, follows.
\<close>

locale tenant_op =
  fixes t :: string and ready :: "pydict \<Rightarrow> bool" and step :: "pydict \<Rightarrow> pyexc + pydict"
  assumes others: "ready s \<Longrightarrow> step s = Inr s' \<Longrightarrow>
      filter (\<lambda>kv. \<not> owned t (snd kv)) s' = filter (\<lambda>kv. \<not> owned t (snd kv)) s"
    and hashes: "ready s \<Longrightarrow> step s = Inr s' \<Longrightarrow> distinct (map fst s) \<Longrightarrow> distinct (map fst s')"
begin

lemma entries_frame:
  assumes "ready s" and "step s = Inr s'" and "\<And>e. Q e \<Longrightarrow> \<not> owned t e"
  shows "filter (Q \<circ> snd) s' = filter (Q \<circ> snd) s"
proof -
  have "filter (Q \<circ> snd) (filter (\<lambda>kv. \<not> owned t (snd kv)) xs) = filter (Q \<circ> snd) xs" for xs
    by (induction xs) (use assms(3) in auto)
  then show ?thesis using others[OF assms(1,2)] by metis
qed

lemma records_frame:
  assumes "ready s" and "step s = Inr s'" and "u \<noteq> t"
  shows "records_of u s' = records_of u s"
  using records_of_drop_owned[of u t s'] records_of_drop_owned[of u t s] others[OF assms(1,2)] assms(3) by simp

end

lemma rewritten_op:
  assumes "\<And>d. dget (f d) ''tenant_id'' = dget d ''tenant_id''"
    and "s' = rewritten t differs f s"
  shows "filter (\<lambda>kv. \<not> owned t (snd kv)) s' = filter (\<lambda>kv. \<not> owned t (snd kv)) s \<and>
    (distinct (map fst s) \<longrightarrow> distinct (map fst s'))"
  using assms others_rewritten[OF assms(1)] by (simp add: keys_rewritten)

definition flag_set :: "string \<Rightarrow> bool \<Rightarrow> key_record \<Rightarrow> key_record" where
  "flag_set k wanted d = (if py_truthy (dget_or d k PNone) \<noteq> wanted then
     (if wanted then dset k (PBool True) d else dpop k d) else d)"

lemma set_flag_effect:
  "set_flag k t wanted store =
     Inr (list_ex (\<lambda>d. py_truthy (dget_or d k PNone) \<noteq> wanted) (records_of t store),
          rewritten t (\<lambda>d. py_truthy (dget_or d k PNone) \<noteq> wanted)
            (\<lambda>d. if wanted then dset k (PBool True) d else dpop k d) store,
          length (filter (\<lambda>d. py_truthy (dget_or d k PNone) \<noteq> wanted) (records_of t store)))"
  by (simp add: set_flag_def rewrite_owned_alt)

lemma records_of_set_flag:
  assumes "k \<noteq> ''tenant_id''" and "set_flag k t wanted store = Inr (b, store', n)"
  shows "records_of u store' = (if u = t then map (flag_set k wanted) (records_of t store) else records_of u store)"
proof -
  have tid: "dget (if wanted then dset k (PBool True) d else dpop k d) ''tenant_id'' = dget d ''tenant_id''" for d
    using assms(1) by (simp add: dget_dset dget_dpop)
  have "store' = rewritten t (\<lambda>d. py_truthy (dget_or d k PNone) \<noteq> wanted)
            (\<lambda>d. if wanted then dset k (PBool True) d else dpop k d) store"
    using assms(2) by (simp add: set_flag_effect)
  then show ?thesis
    by (simp add: records_of_rewritten[OF tid] flag_set_def[abs_def])
qed

definition allowlist_set :: "pyval list \<Rightarrow> key_record \<Rightarrow> key_record" where
  "allowlist_set new_val d = (if current_cidrs d \<noteq> Inr new_val then
     (if new_val \<noteq> [] then dset ''ip_allowlist'' (PList new_val) d else dpop ''ip_allowlist'' d) else d)"

lemma set_ip_allowlist_effect:
  assumes "set_ip_allowlist tenant_id cidrs store = Inr (b, store', n)"
  shows "store' = rewritten (py_strip tenant_id) (\<lambda>d. current_cidrs d \<noteq> Inr (map PStr cidrs))
     (\<lambda>d. if map PStr cidrs \<noteq> [] then dset ''ip_allowlist'' (PList (map PStr cidrs)) d else dpop ''ip_allowlist'' d) store"
  using assms by (simp add: set_ip_allowlist_def Let_def rewrite_owned_alt split: if_splits)

lemma records_of_set_ip_allowlist:
  assumes "set_ip_allowlist tenant_id cidrs store = Inr (b, store', n)"
  shows "records_of u store' = (if u = py_strip tenant_id then map (allowlist_set (map PStr cidrs)) (records_of u store)
           else records_of u store)"
proof -
  have tid: "dget (if map PStr cidrs \<noteq> [] then dset ''ip_allowlist'' (PList (map PStr cidrs)) d
      else dpop ''ip_allowlist'' d) ''tenant_id'' = dget d ''tenant_id''" for d
    by (simp add: dget_dset dget_dpop)
  show ?thesis
    unfolding set_ip_allowlist_effect[OF assms] records_of_rewritten[OF tid] by (simp add: allowlist_set_def[abs_def])
qed

lemma run_call_op:
  assumes "fresh_key sha call s" and "run_call sha fstr call s = Inr s'" and "t = tenant_of_call call"
  shows "filter (\<lambda>kv. \<not> owned t (snd kv)) s' = filter (\<lambda>kv. \<not> owned t (snd kv)) s \<and>
    (distinct (map fst s) \<longrightarrow> distinct (map fst s'))"
proof (cases call)
  case (Issue raw u tier adm gw extra now_iso)
  then obtain m b where "create_key sha fstr raw u tier adm gw extra now_iso s = Inr (b, s', m)"
    using assms(2) by (auto simp: run_call_def map_sum_def split: sum.splits)
  then obtain cidrs where e: "dget s (sha raw) = None" "s' = s @ [(sha raw, PDict m)]" "owned (py_strip u) (PDict m)"
    by (rule create_key_effect)
  then show ?thesis using assms(3) Issue by (auto simp: tenant_of_call_def map_of_eq_None_iff)
next
  case (Rotate raw u now_iso)
  then obtain m b n where "rotate_tenant_keys sha fstr raw u now_iso s = Inr (b, s', m, n)"
    using assms(2) by (auto simp: run_call_def map_sum_def split: sum.splits)
  then obtain newest cidrs where e: "s' = dset (sha raw) (PDict m) (filter (\<lambda>kv. \<not> owned (py_strip u) (snd kv)) s)"
      "owned (py_strip u) (PDict m)"
    by (rule rotate_effect)
  have "dget s (sha raw) = None" using assms(1) Rotate by (simp add: fresh_key_def)
  then have "dget (filter (\<lambda>kv. \<not> owned (py_strip u) (snd kv)) s) (sha raw) = None" by (rule dget_drop_owned_None)
  then show ?thesis using e assms(3) Rotate
    by (auto simp: tenant_of_call_def dset_fresh distinct_update distinct_map_filter)
next
  case (Delete u)
  then show ?thesis using assms(2,3)
    by (auto simp: run_call_def delete_tenant_keys_def Let_def tenant_of_call_def distinct_map_filter)
next
  case (Suspend u b)
  have "t = py_strip u" using assms(3) Suspend by (simp add: tenant_of_call_def)
  then show ?thesis using assms(2) Suspend
    by (intro rewritten_op[where f = "\<lambda>d. if b then dset ''suspended'' (PBool True) d else dpop ''suspended'' d"
          and differs = "\<lambda>d. py_truthy (dget_or d ''suspended'' PNone) \<noteq> b"])
      (simp_all add: run_call_def set_suspended_def set_flag_effect dget_dset dget_dpop)
next
  case (Contract u b)
  have "t = py_strip u" using assms(3) Contract by (simp add: tenant_of_call_def)
  then show ?thesis using assms(2) Contract
    by (intro rewritten_op[where f = "\<lambda>d. if \<not> b then dset ''contract_inactive'' (PBool True) d else dpop ''contract_inactive'' d"
          and differs = "\<lambda>d. py_truthy (dget_or d ''contract_inactive'' PNone) \<noteq> (\<not> b)"])
      (simp_all add: run_call_def set_contract_active_def set_flag_effect dget_dset dget_dpop)
next
  case (Allowlist u cs)
  then obtain b n where "set_ip_allowlist u cs s = Inr (b, s', n)"
    using assms(2) by (auto simp: run_call_def map_sum_def split: sum.splits)
  from set_ip_allowlist_effect[OF this] show ?thesis
    using assms(3) Allowlist by (intro rewritten_op) (simp_all add: tenant_of_call_def dget_dset dget_dpop)
qed

interpretation kc: tenant_op "tenant_of_call call" "fresh_key sha call" "run_call sha fstr call" for sha fstr call
  by unfold_locales (use run_call_op in blast)+

section \<open>Histories keep tenants apart\<close>

lemma history_invariant:
  assumes "key_history sha fstr s calls s'" and "I s"
    and "\<And>call s s1. call \<in> set calls \<Longrightarrow> fresh_key sha call s \<Longrightarrow> run_call sha fstr call s = Inr s1 \<Longrightarrow> I s \<Longrightarrow> I s1"
  shows "I s'"
  using assms
proof (induction rule: key_history.induct)
  case (history_done call s s1 calls s')
  show ?case
  proof (rule history_done.IH)
    show "I s1" using history_done.hyps(1,2) history_done.prems by (metis list.set_intros(1))
  next
    fix c a b
    assume "c \<in> set calls" "fresh_key sha c a" "run_call sha fstr c a = Inr b" "I a"
    then show "I b" using history_done.prems(2) by (metis list.set_intros(2))
  qed
next
  case (history_refused call s e calls s')
  then show ?case by (metis list.set_intros(2))
qed simp

text \<open>
  C23. Tenant isolation of the key lifecycle: any history of issuing, suspending, contract changes,
  allowlist changes, deletions and rotations leaves every entry of the store that belongs to none of
  the tenants its calls name as it was, and in its place: no key of another tenant appears, is changed,
  is revoked or moves, whatever the calls answer.
\<close>

theorem lifecycle_is_tenant_scoped:
  assumes "key_history sha fstr store calls store'"
  shows "filter (\<lambda>kv. list_all (\<lambda>call. \<not> owned (tenant_of_call call) (snd kv)) calls) store' =
         filter (\<lambda>kv. list_all (\<lambda>call. \<not> owned (tenant_of_call call) (snd kv)) calls) store"
proof -
  define Q where "Q = (\<lambda>e. list_all (\<lambda>call. \<not> owned (tenant_of_call call) e) calls)"
  have "filter (Q \<circ> snd) store' = filter (Q \<circ> snd) store"
  proof (rule history_invariant[OF assms])
    fix call s s1
    assume c: "call \<in> set calls" and r: "fresh_key sha call s" "run_call sha fstr call s = Inr s1"
      and i: "filter (Q \<circ> snd) s = filter (Q \<circ> snd) store"
    have "Q e \<Longrightarrow> \<not> owned (tenant_of_call call) e" for e using c by (auto simp: Q_def list_all_iff)
    from kc.entries_frame[OF r this] show "filter (Q \<circ> snd) s1 = filter (Q \<circ> snd) store" using i by simp
  qed simp
  then show ?thesis by (simp add: Q_def comp_def)
qed

definition demo_keys :: pydict where
  "demo_keys = [(''h1'', PDict [(''tenant_id'', PStr ''acme''), (''admin'', PBool True)]), (''h2'', PStr ''old user''),
                (''h3'', PDict [(''tenant_id'', PStr ''globex''), (''ip_allowlist'', PList [PStr ''10.0.0.0/8''])])]"

lemma demo_history:
  "key_history (\<lambda>s. CHR ''#'' # s) (\<lambda>v. []) demo_keys [Suspend ''acme'' True, Rotate ''r'' ''acme'' ''2026'']
     [(''h2'', PStr ''old user''),
      (''h3'', PDict [(''tenant_id'', PStr ''globex''), (''ip_allowlist'', PList [PStr ''10.0.0.0/8''])]),
      (''#r'', PDict [(''tenant_id'', PStr ''acme''), (''tier'', PStr ''free''), (''created_at'', PStr ''2026''),
                     (''admin'', PBool True), (''suspended'', PBool True)])]"
proof -
  let ?s1 = "[(''h1'', PDict [(''tenant_id'', PStr ''acme''), (''admin'', PBool True), (''suspended'', PBool True)]), (''h2'', PStr ''old user''),
                (''h3'', PDict [(''tenant_id'', PStr ''globex''), (''ip_allowlist'', PList [PStr ''10.0.0.0/8''])])]"
  have a: "run_call (\<lambda>s. CHR ''#'' # s) (\<lambda>v. []) (Suspend ''acme'' True) demo_keys = Inr ?s1"
    by code_simp
  have b: "run_call (\<lambda>s. CHR ''#'' # s) (\<lambda>v. []) (Rotate ''r'' ''acme'' ''2026'') ?s1 = Inr [(''h2'', PStr ''old user''),
      (''h3'', PDict [(''tenant_id'', PStr ''globex''), (''ip_allowlist'', PList [PStr ''10.0.0.0/8''])]),
      (''#r'', PDict [(''tenant_id'', PStr ''acme''), (''tier'', PStr ''free''), (''created_at'', PStr ''2026''),
                     (''admin'', PBool True), (''suspended'', PBool True)])]"
    by code_simp
  show ?thesis
    by (rule history_done[OF _ a], simp add: fresh_key_def, rule history_done[OF _ b])
      (simp_all add: fresh_key_def history_Nil)
qed

lemma lifecycle_is_tenant_scoped_witness:
  "filter (\<lambda>kv. list_all (\<lambda>call. \<not> owned (tenant_of_call call) (snd kv)) [Suspend ''acme'' True, Rotate ''r'' ''acme'' ''2026''])
     demo_keys =
   [(''h2'', PStr ''old user''),
    (''h3'', PDict [(''tenant_id'', PStr ''globex''), (''ip_allowlist'', PList [PStr ''10.0.0.0/8''])])]"
  unfolding lifecycle_is_tenant_scoped[OF demo_history, symmetric] by code_simp

section \<open>Blocked tenants, allowlists and trust\<close>

text \<open>The calls that lift a block of a tenant, by its flag; issuing a key is one of them.\<close>

definition unblocks :: "string \<Rightarrow> string \<Rightarrow> key_call \<Rightarrow> bool" where
  "unblocks k t call \<longleftrightarrow> tenant_of_call call = t \<and>
     (case call of Issue _ _ _ _ _ _ _ \<Rightarrow> True | Suspend _ b \<Rightarrow> k = ''suspended'' \<and> \<not> b
      | Contract _ b \<Rightarrow> k = ''contract_inactive'' \<and> b | _ \<Rightarrow> False)"

lemma all_keys_Nil [simp]: "all_keys t P [] = True"
  by (simp add: all_keys_def)

lemma all_keys_frame:
  assumes "fresh_key sha call s" and "run_call sha fstr call s = Inr s1" and "t \<noteq> tenant_of_call call"
  shows "all_keys t P s1 = all_keys t P s"
  using kc.records_frame[OF assms] by (simp add: all_keys_def)

lemma records_after_rotation:
  assumes "rotate_tenant_keys sha fstr raw u now_iso s = Inr (b, s', m, n)" and "dget s (sha raw) = None"
  shows "records_of (py_strip u) s' = [m]" and "n = length (records_of (py_strip u) s)"
proof -
  obtain newest cidrs where e: "s' = dset (sha raw) (PDict m) (filter (\<lambda>kv. \<not> owned (py_strip u) (snd kv)) s)"
      "owned (py_strip u) (PDict m)" "n = length (records_of (py_strip u) s)"
    using assms(1) by (rule rotate_effect)
  have "s' = filter (\<lambda>kv. \<not> owned (py_strip u) (snd kv)) s @ [(sha raw, PDict m)]"
    unfolding e(1) by (rule dset_fresh[OF dget_drop_owned_None[OF assms(2)]])
  then show "records_of (py_strip u) s' = [m]" "n = length (records_of (py_strip u) s)"
    using e by (simp_all add: records_of_drop_owned)
qed

lemma flag_flag_set:
  "flag k (PDict (flag_set k' wanted d)) = (if k = k' then wanted else flag k (PDict d))"
  by (auto simp: flag_def flag_set_def dget_or_def dget_dset dget_dpop split: option.splits)

lemma flag_allowlist_set: "k \<noteq> ''ip_allowlist'' \<Longrightarrow> flag k (PDict (allowlist_set c d)) = flag k (PDict d)"
  by (simp add: flag_def allowlist_set_def dget_or_def dget_dset dget_dpop)

lemma flag_None: "dget d k = None \<Longrightarrow> \<not> flag k (PDict d)"
  by (simp add: flag_def dget_or_def)

lemma flag_True: "dget d k = Some (PBool True) \<Longrightarrow> flag k (PDict d)"
  by (simp add: flag_def dget_or_def)

text \<open>How a call changes the records of its tenant.\<close>

lemma run_call_records:
  assumes "fresh_key sha call s" and "run_call sha fstr call s = Inr s1" and "t = tenant_of_call call"
  shows "(case call of
      Issue raw u tier adm gw extra now_iso \<Rightarrow>
        (\<exists>cidrs. tenant_allowlist fstr s t = Inr cidrs \<and>
           records_of t s1 = records_of t s @
             [let r = new_record t (clean_tier tier) adm gw extra now_iso
              in if cidrs \<noteq> [] then dset ''ip_allowlist'' (PList cidrs) r else r])
    | Suspend u b \<Rightarrow> records_of t s1 = map (flag_set ''suspended'' b) (records_of t s)
    | Contract u b \<Rightarrow> records_of t s1 = map (flag_set ''contract_inactive'' (\<not> b)) (records_of t s)
    | Allowlist u cs \<Rightarrow> records_of t s1 = map (allowlist_set (map PStr cs)) (records_of t s)
    | Delete u \<Rightarrow> records_of t s1 = []
    | Rotate raw u now_iso \<Rightarrow>
        (\<exists>newest \<in> set (records_of t s). \<exists>cidrs. tenant_allowlist fstr s t = Inr cidrs \<and>
           records_of t s1 = [rotated_record t newest (records_of t s) cidrs now_iso]))"
proof (cases call)
  case (Issue raw u tier adm gw extra now_iso)
  then obtain m b where r: "create_key sha fstr raw u tier adm gw extra now_iso s = Inr (b, s1, m)"
    using assms(2) by (auto simp: run_call_def map_sum_def split: sum.splits)
  have t: "t = py_strip u" using assms(3) Issue by (simp add: tenant_of_call_def)
  from r obtain cidrs where "tenant_allowlist fstr s (py_strip u) = Inr cidrs"
      "m = (let r = new_record (py_strip u) (clean_tier tier) adm gw extra now_iso
              in if cidrs \<noteq> [] then dset ''ip_allowlist'' (PList cidrs) r else r)"
      "s1 = s @ [(sha raw, PDict m)]" "owned (py_strip u) (PDict m)"
    by (rule create_key_effect)
  then show ?thesis using Issue t by auto
next
  case (Rotate raw u now_iso)
  then obtain m b n where r: "rotate_tenant_keys sha fstr raw u now_iso s = Inr (b, s1, m, n)"
    using assms(2) by (auto simp: run_call_def map_sum_def split: sum.splits)
  have t: "t = py_strip u" using assms(3) Rotate by (simp add: tenant_of_call_def)
  have f: "dget s (sha raw) = None" using assms(1) Rotate by (simp add: fresh_key_def)
  from r obtain newest cidrs where "newest \<in> set (records_of (py_strip u) s)" "tenant_allowlist fstr s (py_strip u) = Inr cidrs"
      "m = rotated_record (py_strip u) newest (records_of (py_strip u) s) cidrs now_iso"
    by (rule rotate_effect)
  then show ?thesis using Rotate t records_after_rotation(1)[OF r f] by auto
next
  case (Delete u)
  then show ?thesis using assms(2,3) records_of_drop_owned[of "py_strip u" "py_strip u" s]
    by (auto simp: run_call_def delete_tenant_keys_def Let_def tenant_of_call_def)
next
  case (Suspend u b)
  then obtain b' n where "set_flag ''suspended'' (py_strip u) b s = Inr (b', s1, n)"
    using assms(2) by (auto simp: run_call_def set_suspended_def map_sum_def split: sum.splits)
  from records_of_set_flag[OF _ this] show ?thesis using Suspend assms(3) by (simp add: tenant_of_call_def)
next
  case (Contract u b)
  then obtain b' n where "set_flag ''contract_inactive'' (py_strip u) (\<not> b) s = Inr (b', s1, n)"
    using assms(2) by (auto simp: run_call_def set_contract_active_def map_sum_def split: sum.splits)
  from records_of_set_flag[OF _ this] show ?thesis using Contract assms(3) by (simp add: tenant_of_call_def)
next
  case (Allowlist u cs)
  then obtain b n where "set_ip_allowlist u cs s = Inr (b, s1, n)"
    using assms(2) by (auto simp: run_call_def map_sum_def split: sum.splits)
  from records_of_set_ip_allowlist[OF this] show ?thesis using Allowlist assms(3) by (simp add: tenant_of_call_def)
qed

text \<open>
  C24. A blocked tenant stays blocked: once every key of a tenant carries \<open>suspended\<close> (or
  \<open>contract_inactive\<close>), every key it holds after any history of calls for any tenants carries it, as
  long as none of them lifts that block of this tenant or issues it a key. Rotation, in particular, is
  no way out.
\<close>

theorem blocked_tenants_stay_blocked:
  assumes "key_history sha fstr store calls store'"
    and "k = ''suspended'' \<or> k = ''contract_inactive''"
    and "all_keys t (\<lambda>d. flag k (PDict d)) store"
    and "list_all (\<lambda>call. \<not> unblocks k t call) calls"
  shows "all_keys t (\<lambda>d. flag k (PDict d)) store'"
proof (rule history_invariant[where I = "all_keys t (\<lambda>d. flag k (PDict d))", OF assms(1,3)])
  fix call s s1
  assume c: "call \<in> set calls" and r: "fresh_key sha call s" "run_call sha fstr call s = Inr s1"
    and i: "all_keys t (\<lambda>d. flag k (PDict d)) s"
  have nu: "\<not> unblocks k t call" using assms(4) c by (simp add: list_all_iff)
  show "all_keys t (\<lambda>d. flag k (PDict d)) s1"
  proof (cases "t = tenant_of_call call")
    case False
    then show ?thesis using all_keys_frame[OF r] i by blast
  next
    case True
    have rot: "flag k (PDict (rotated_record t n (records_of t s) cs now))" if "n \<in> set (records_of t s)" for n cs now
    proof -
      have f: "flag k (PDict n)" using i that by (simp add: all_keys_def list_all_iff)
      show ?thesis
      proof (cases "k = ''suspended''")
        case True
        then have "list_ex (\<lambda>d. is_suspended (PDict d)) (records_of t s)"
          using f that by (auto simp: list_ex_iff is_suspended_def)
        then show ?thesis unfolding True by (intro flag_True) (simp add: rotated_record_fields)
      next
        case False
        then have "k = ''contract_inactive''" using assms(2) by simp
        then show ?thesis using f by (simp add: flag_def dget_or_def rotated_record_fields)
      qed
    qed
    from run_call_records[OF r True] show ?thesis
      using nu i rot True assms(2)
      by (cases call) (auto simp: unblocks_def all_keys_def list_all_iff flag_flag_set flag_allowlist_set)
  qed
qed

lemma blocked_tenants_stay_blocked_witness:
  "all_keys ''acme'' (\<lambda>d. flag ''suspended'' (PDict d))
     [(''h2'', PStr ''old user''),
      (''h3'', PDict [(''tenant_id'', PStr ''globex''), (''ip_allowlist'', PList [PStr ''10.0.0.0/8''])]),
      (''#r'', PDict [(''tenant_id'', PStr ''acme''), (''tier'', PStr ''free''), (''created_at'', PStr ''2026''),
                     (''suspended'', PBool True)])]"
proof -
  let ?s = "[(''h1'', PDict [(''tenant_id'', PStr ''acme''), (''suspended'', PBool True)]), (''h2'', PStr ''old user''),
             (''h3'', PDict [(''tenant_id'', PStr ''globex''), (''ip_allowlist'', PList [PStr ''10.0.0.0/8''])])]"
  have a: "run_call (\<lambda>s. CHR ''#'' # s) (\<lambda>v. []) (Rotate ''r'' ''acme'' ''2026'') ?s =
     Inr [(''h2'', PStr ''old user''),
      (''h3'', PDict [(''tenant_id'', PStr ''globex''), (''ip_allowlist'', PList [PStr ''10.0.0.0/8''])]),
      (''#r'', PDict [(''tenant_id'', PStr ''acme''), (''tier'', PStr ''free''), (''created_at'', PStr ''2026''),
                     (''suspended'', PBool True)])]"
    by code_simp
  have h: "key_history (\<lambda>s. CHR ''#'' # s) (\<lambda>v. []) ?s [Rotate ''r'' ''acme'' ''2026'']
     [(''h2'', PStr ''old user''),
      (''h3'', PDict [(''tenant_id'', PStr ''globex''), (''ip_allowlist'', PList [PStr ''10.0.0.0/8''])]),
      (''#r'', PDict [(''tenant_id'', PStr ''acme''), (''tier'', PStr ''free''), (''created_at'', PStr ''2026''),
                     (''suspended'', PBool True)])]"
    by (rule history_done[OF _ a]) (simp_all add: fresh_key_def history_Nil)
  have i: "all_keys ''acme'' (\<lambda>d. flag ''suspended'' (PDict d)) ?s" by code_simp
  have u: "list_all (\<lambda>call. \<not> unblocks ''suspended'' ''acme'' call) [Rotate ''r'' ''acme'' ''2026'']" by code_simp
  show ?thesis by (rule blocked_tenants_stay_blocked[OF h disjI1[OF refl] i u])
qed

text \<open>
  What issuing does to a block: the fresh record carries neither flag, whatever the other keys of the
  tenant say, and rotation copies \<open>contract_inactive\<close> from the newest record alone.
\<close>

lemma issued_key_is_not_blocked:
  assumes "create_key sha fstr raw tenant_id tier admin gateway extra now_iso store = Inr (b, store', m)"
  shows "\<not> is_suspended (PDict m) \<and> \<not> is_contract_inactive (PDict m)"
proof -
  from assms obtain cidrs where m: "m = (let r = new_record (py_strip tenant_id) (clean_tier tier) admin gateway extra now_iso
              in if cidrs \<noteq> [] then dset ''ip_allowlist'' (PList cidrs) r else r)"
    by (rule create_key_effect)
  have "dget m ''suspended'' = None" "dget m ''contract_inactive'' = None"
    unfolding m by (simp_all add: Let_def dget_dset new_record_fields)
  then show ?thesis by (simp add: is_suspended_def is_contract_inactive_def flag_None)
qed

lemma uniform_allowlist:
  assumes "cs \<noteq> []" and "list_all (\<lambda>d. dget d ''ip_allowlist'' = Some (PList (map PStr cs))) (records_of t s)"
    and "records_of t s \<noteq> []" and "tenant_allowlist fstr s t = Inr cidrs"
  shows "cidrs = map PStr cs"
proof -
  have c: "cidrs_of d = map PStr cs" if "d \<in> set (records_of t s)" for d
    using assms(2) that by (simp add: list_all_iff cidrs_of_def dget_or_def)
  then have f: "filter (\<lambda>d. cidrs_of d \<noteq> []) (records_of t s) = records_of t s"
    using assms(1) by (simp add: filter_id_conv)
  obtain d ds where dds: "records_of t s = d # ds" using assms(3) by (cases "records_of t s") auto
  have f': "filter (\<lambda>d. cidrs_of d \<noteq> []) (records_of t s) = d # ds" using f dds by simp
  obtain m where m: "max_from created_at d ds = Inr m"
      "cidrs = map (\<lambda>c. PStr (case c of PStr s \<Rightarrow> s | _ \<Rightarrow> fstr c)) (cidrs_of m)"
    using assms(4) unfolding tenant_allowlist_def f' list.case
    by (cases "max_from created_at d ds") auto
  have "m \<in> set (records_of t s)" using max_from_in[OF m(1)] dds by simp
  from c[OF this] show ?thesis using m(2) by simp
qed

text \<open>The calls that change the restriction of a tenant on purpose, or drop every record that carries it.\<close>

definition drops_allowlist :: "string \<Rightarrow> key_call \<Rightarrow> bool" where
  "drops_allowlist t call \<longleftrightarrow> tenant_of_call call = t \<and> (case call of Allowlist _ _ \<Rightarrow> True | Delete _ \<Rightarrow> True | _ \<Rightarrow> False)"

text \<open>
  A restriction of a tenant to source addresses outlives its keys: when every key of a tenant
  carries the same list of CIDRs, every key it holds after any history carries that list and is checked
  against it, keys issued or rotated meanwhile included, as long as no call sets its allowlist or deletes
  all its keys.
\<close>

lemma allowlist_covers_every_later_key:
  assumes "key_history sha fstr store calls store'"
    and "cs \<noteq> []" and "records_of t store \<noteq> []"
    and "all_keys t (\<lambda>d. dget d ''ip_allowlist'' = Some (PList (map PStr cs))) store"
    and "list_all (\<lambda>call. \<not> drops_allowlist t call) calls"
  shows "all_keys t (\<lambda>d. get_ip_allowlist fstr (PDict d) = cs) store'"
proof -
  let ?P = "\<lambda>d. dget d ''ip_allowlist'' = Some (PList (map PStr cs))"
  let ?I = "\<lambda>s. records_of t s \<noteq> [] \<and> all_keys t ?P s"
  have "?I store'"
  proof (rule history_invariant[where I = ?I, OF assms(1)])
    fix call s s1
    assume c: "call \<in> set calls" and r: "fresh_key sha call s" "run_call sha fstr call s = Inr s1" and i: "?I s"
    have nd: "\<not> drops_allowlist t call" using assms(5) c by (simp add: list_all_iff)
    have al: "cidrs = map PStr cs" if "tenant_allowlist fstr s t = Inr cidrs" for cidrs
      by (rule uniform_allowlist[OF assms(2) _ _ that]) (use i in \<open>simp_all add: all_keys_def\<close>)
    have fl: "k \<noteq> ''ip_allowlist'' \<Longrightarrow> dget (flag_set k b d) ''ip_allowlist'' = dget d ''ip_allowlist''" for k b d
      by (simp add: flag_set_def dget_dset dget_dpop)
    show "?I s1"
    proof (cases "t = tenant_of_call call")
      case False
      then show ?thesis using all_keys_frame[OF r] kc.records_frame[OF r] i by simp
    next
      case True
      have nd': "case call of Allowlist _ _ \<Rightarrow> False | Delete _ \<Rightarrow> False | _ \<Rightarrow> True"
        using nd True by (simp add: drops_allowlist_def split: key_call.splits)
      from run_call_records[OF r True] show ?thesis
        using nd' i assms(2)
        by (cases call)
          (auto simp: all_keys_def list_all_iff fl dget_dset rotated_record_fields Let_def dest!: al)
    qed
  qed (use assms(3,4) in simp)
  moreover have "?P d \<Longrightarrow> get_ip_allowlist fstr (PDict d) = cs" for d
    by (simp add: get_ip_allowlist_def dget_or_def comp_def)
  ultimately show ?thesis by (auto simp: all_keys_def list_all_iff)
qed

lemma demo_issue:
  "key_history (\<lambda>s. CHR ''#'' # s) (\<lambda>v. []) demo_keys [Issue ''n'' ''globex'' ''Pro'' False False PNone ''2026'']
     (demo_keys @ [(''#n'', PDict [(''tenant_id'', PStr ''globex''), (''tier'', PStr ''pro''), (''created_at'', PStr ''2026''),
                                  (''ip_allowlist'', PList [PStr ''10.0.0.0/8''])])])"
proof -
  have a: "run_call (\<lambda>s. CHR ''#'' # s) (\<lambda>v. []) (Issue ''n'' ''globex'' ''Pro'' False False PNone ''2026'') demo_keys =
     Inr (demo_keys @ [(''#n'', PDict [(''tenant_id'', PStr ''globex''), (''tier'', PStr ''pro''), (''created_at'', PStr ''2026''),
                                  (''ip_allowlist'', PList [PStr ''10.0.0.0/8''])])])"
    by code_simp
  show ?thesis by (rule history_done[OF _ a]) (simp_all add: fresh_key_def history_Nil)
qed

lemma allowlist_covers_every_later_key_witness:
  "all_keys ''globex'' (\<lambda>d. get_ip_allowlist (\<lambda>v. []) (PDict d) = [''10.0.0.0/8''])
     (demo_keys @ [(''#n'', PDict [(''tenant_id'', PStr ''globex''), (''tier'', PStr ''pro''), (''created_at'', PStr ''2026''),
                                  (''ip_allowlist'', PList [PStr ''10.0.0.0/8''])])])"
proof -
  have r: "records_of ''globex'' demo_keys \<noteq> []" by code_simp
  have i: "all_keys ''globex'' (\<lambda>d. dget d ''ip_allowlist'' = Some (PList (map PStr [''10.0.0.0/8'']))) demo_keys" by code_simp
  have u: "list_all (\<lambda>call. \<not> drops_allowlist ''globex'' call) [Issue ''n'' ''globex'' ''Pro'' False False PNone ''2026'']"
    by code_simp
  show ?thesis by (rule allowlist_covers_every_later_key[OF demo_issue list.discI[OF refl] r i u])
qed

text \<open>
  C25. Trust is granted at issuance alone: a tenant without an admin key and without a gateway key has
  none after any history in which no key is issued to it as admin or gateway. No extra field of an
  issued key, no rotation and no call for another tenant grants either.
\<close>

theorem trust_is_only_issued:
  assumes "key_history sha fstr store calls store'"
    and "all_keys t (\<lambda>d. \<not> is_admin_key (PDict d) \<and> \<not> is_gateway_key (PDict d)) store"
    and "list_all (\<lambda>call. case call of Issue _ u _ adm gw _ _ \<Rightarrow> py_strip u \<noteq> t \<or> (adm, gw) = (False, False) | _ \<Rightarrow> True) calls"
  shows "all_keys t (\<lambda>d. \<not> is_admin_key (PDict d) \<and> \<not> is_gateway_key (PDict d)) store'"
proof (rule history_invariant[where I = "all_keys t (\<lambda>d. \<not> is_admin_key (PDict d) \<and> \<not> is_gateway_key (PDict d))", OF assms(1,2)])
  fix call s s1
  assume c: "call \<in> set calls" and r: "fresh_key sha call s" "run_call sha fstr call s = Inr s1"
    and i: "all_keys t (\<lambda>d. \<not> is_admin_key (PDict d) \<and> \<not> is_gateway_key (PDict d)) s"
  have nt: "case call of Issue _ u _ adm gw _ _ \<Rightarrow> py_strip u \<noteq> t \<or> (adm, gw) = (False, False) | _ \<Rightarrow> True"
    using assms(3) c by (auto simp: list_all_iff)
  have same: "dget e ''admin'' = dget d ''admin'' \<Longrightarrow> is_admin_key (PDict e) = is_admin_key (PDict d)"
     "dget e ''gateway'' = dget d ''gateway'' \<Longrightarrow> is_gateway_key (PDict e) = is_gateway_key (PDict d)" for d e
    by (simp_all add: is_admin_key_def flag_def dget_or_def is_gateway_key_def)
  have fs: "is_admin_key (PDict (flag_set k b d)) = is_admin_key (PDict d)"
      "is_gateway_key (PDict (flag_set k b d)) = is_gateway_key (PDict d)"
    if "k = ''suspended'' \<or> k = ''contract_inactive''" for k b d
    using that by (intro same; auto simp: flag_set_def dget_dset dget_dpop)+
  have as: "is_admin_key (PDict (allowlist_set w d)) = is_admin_key (PDict d)"
      "is_gateway_key (PDict (allowlist_set w d)) = is_gateway_key (PDict d)" for w d
    by (intro same; simp add: allowlist_set_def dget_dset dget_dpop)+
  have none: "\<not> is_admin_key (PDict d) \<and> \<not> is_gateway_key (PDict d)"
    if "dget d ''admin'' = None" "dget d ''gateway'' = None" for d
    using that by (simp add: is_admin_key_def is_gateway_key_def flag_None)
  show "all_keys t (\<lambda>d. \<not> is_admin_key (PDict d) \<and> \<not> is_gateway_key (PDict d)) s1"
  proof (cases "t = tenant_of_call call")
    case False
    then show ?thesis using all_keys_frame[OF r] i by blast
  next
    case True
    have iss: "\<not> is_admin_key (PDict m) \<and> \<not> is_gateway_key (PDict m)"
      if "m = (let r = new_record t ti False False x now in if cidrs \<noteq> [] then dset ''ip_allowlist'' (PList cidrs) r else r)"
      for m ti x now cidrs
      by (rule none) (simp_all add: that Let_def dget_dset new_record_fields)
    have rot: "\<not> is_admin_key (PDict (rotated_record t n (records_of t s) cs now)) \<and>
        \<not> is_gateway_key (PDict (rotated_record t n (records_of t s) cs now))" if "n \<in> set (records_of t s)" for n cs now
      using i that by (intro none) (simp_all add: rotated_record_fields all_keys_def list_all_iff)
    from run_call_records[OF r True] show ?thesis
      using nt i True iss rot
      by (cases call) (auto simp: tenant_of_call_def all_keys_def list_all_iff fs as)
  qed
qed

lemma trust_is_only_issued_witness:
  "all_keys ''globex'' (\<lambda>d. \<not> is_admin_key (PDict d) \<and> \<not> is_gateway_key (PDict d))
     (demo_keys @ [(''#n'', PDict [(''tenant_id'', PStr ''globex''), (''tier'', PStr ''pro''), (''created_at'', PStr ''2026''),
                                  (''ip_allowlist'', PList [PStr ''10.0.0.0/8''])])])"
proof -
  have i: "all_keys ''globex'' (\<lambda>d. \<not> is_admin_key (PDict d) \<and> \<not> is_gateway_key (PDict d)) demo_keys" by code_simp
  have u: "list_all (\<lambda>call. case call of Issue _ u _ adm gw _ _ \<Rightarrow> py_strip u \<noteq> ''globex'' \<or> (adm, gw) = (False, False) | _ \<Rightarrow> True)
     [Issue ''n'' ''globex'' ''Pro'' False False PNone ''2026'']"
    by code_simp
  show ?thesis by (rule trust_is_only_issued[OF demo_issue i u])
qed

section \<open>Rotation\<close>

lemma str_lt_Nil [simp]: "\<not> str_lt a []"
  by (cases a) simp_all

lemma str_lt_split: "str_lt a c \<Longrightarrow> str_lt a b \<or> str_lt b c"
proof (induction a b arbitrary: c rule: str_lt.induct)
  case (3 x a y b)
  then show ?case by (cases c) (auto simp: not_less order_le_less split: if_splits)
next
  case (1 b)
  then show ?case by (cases b; cases c) auto
next
  case (2 x a)
  then show ?case by (cases c) auto
qed

lemma str_lt_irrefl [simp]: "\<not> str_lt a a"
  by (induction a) auto

lemma str_lt_asym: "str_lt a b \<Longrightarrow> \<not> str_lt b a"
  by (induction a b rule: str_lt.induct) (auto split: if_splits)

lemma max_from_greatest:
  assumes "max_from key b xs = Inr m" and "\<And>x. x \<in> set (b # xs) \<Longrightarrow> \<exists>s. key x = PStr s"
    and "x \<in> set (b # xs)"
  shows "py_lt (key m) (key x) = Inr False"
  using assms
proof (induction xs arbitrary: b x)
  case Nil
  then show ?case by auto
next
  case (Cons y ys)
  obtain sb sy where s: "key b = PStr sb" "key y = PStr sy" using Cons.prems(2) by (metis list.set_intros)
  define b' where "b' = (if str_lt sb sy then y else b)"
  have m: "max_from key b' ys = Inr m" using Cons.prems(1) s by (simp add: b'_def)
  have t: "z \<in> set (b' # ys) \<Longrightarrow> \<exists>s. key z = PStr s" for z using Cons.prems(2) by (auto simp: b'_def split: if_splits)
  obtain sm where sm: "key m = PStr sm" using t max_from_in[OF m] by blast
  have ge: "py_lt (key m) (key b') = Inr False" by (rule Cons.IH[OF m t]) simp_all
  have "\<not> str_lt sm sb \<and> \<not> str_lt sm sy"
    using ge s sm str_lt_split[of sm sb sy] str_lt_split[of sm sy sb] str_lt_split[of sb sy sm] str_lt_asym[of sb sy]
    by (auto simp: b'_def split: if_splits)
  moreover have "x = b \<or> x = y \<or> x \<in> set ys" using Cons.prems(3) by auto
  ultimately show ?case using s sm Cons.IH[OF m t] by auto
qed

text \<open>
  Rotation replaces all keys of a tenant by one: afterwards it holds exactly the fresh record, under
  the hash of the fresh key; the count is that of the keys revoked. The record is suspended if any of
  them was, and the trust flags are those of the newest of them by creation time.
\<close>

lemma rotation_leaves_one_key:
  assumes "rotate_tenant_keys sha fstr raw tenant_id now_iso store = Inr (b, store', m, n)"
    and "t = py_strip tenant_id" and "dget store (sha raw) = None"
    and "list_all (\<lambda>d. case created_at d of PStr _ \<Rightarrow> True | _ \<Rightarrow> False) (records_of t store)"
  shows "records_of t store' = [m] \<and> dget store' (sha raw) = Some (PDict m) \<and> n = length (records_of t store) \<and>
    is_suspended (PDict m) = list_ex (\<lambda>d. is_suspended (PDict d)) (records_of t store) \<and>
    list_ex (\<lambda>newest. list_all (\<lambda>d. py_lt (created_at newest) (created_at d) = Inr False) (records_of t store) \<and>
       is_admin_key (PDict m) = is_admin_key (PDict newest) \<and> is_gateway_key (PDict m) = is_gateway_key (PDict newest))
      (records_of t store)"
proof -
  obtain d ds where o: "records_of t store = d # ds" and ne: "t \<noteq> []"
    using assms(1,2) by (auto simp: rotate_tenant_keys_def Let_def split: if_splits list.splits)
  obtain newest cidrs where nw: "max_from created_at d ds = Inr newest"
      and m: "m = rotated_record t newest (d # ds) cidrs now_iso"
      and s': "store' = dset (sha raw) (PDict m) (filter (\<lambda>kv. \<not> owned t (snd kv)) store)"
    using assms(1,2) o ne by (auto simp: rotate_tenant_keys_def Let_def bind_res_Inr)
  have rec: "records_of t store' = [m]" "n = length (records_of t store)"
    using records_after_rotation[OF assms(1,3)] assms(2) by simp_all
  have strs: "\<exists>s. created_at x = PStr s" if "x \<in> set (d # ds)" for x
  proof -
    have "case created_at x of PStr _ \<Rightarrow> True | _ \<Rightarrow> False" using assms(4) that unfolding o list_all_iff by blast
    then show ?thesis by (cases "created_at x") simp_all
  qed
  have mx: "list_all (\<lambda>d. py_lt (created_at newest) (created_at d) = Inr False) (records_of t store)"
    using max_from_greatest[OF nw strs] unfolding o list_all_iff by blast
  have fl: "is_admin_key (PDict m) = is_admin_key (PDict newest)" "is_gateway_key (PDict m) = is_gateway_key (PDict newest)"
      "is_suspended (PDict m) = list_ex (\<lambda>d. is_suspended (PDict d)) (d # ds)"
    unfolding is_admin_key_def is_gateway_key_def is_suspended_def
    using rotated_record_fields[of t newest "d # ds" cidrs now_iso, folded m]
    by (auto simp: flag_def dget_or_def is_admin_key_def is_gateway_key_def is_suspended_def split: if_splits)
  have g: "dget store' (sha raw) = Some (PDict m)" unfolding s' by (simp add: dget_dset)
  have ex: "list_ex (\<lambda>newest. list_all (\<lambda>d. py_lt (created_at newest) (created_at d) = Inr False) (records_of t store) \<and>
       is_admin_key (PDict m) = is_admin_key (PDict newest) \<and> is_gateway_key (PDict m) = is_gateway_key (PDict newest))
      (records_of t store)"
    unfolding list_ex_iff using mx fl(1,2) max_from_in[OF nw] o by metis
  show ?thesis using rec g ex fl(3) o by simp
qed

lemma rotation_leaves_one_key_witness:
  "records_of ''acme''
     [(''h3'', PDict [(''tenant_id'', PStr ''globex''), (''ip_allowlist'', PList [PStr ''10.0.0.0/8''])]), (''h2'', PStr ''old user''),
      (''#r'', PDict [(''tenant_id'', PStr ''acme''), (''tier'', PStr ''pro''), (''created_at'', PStr ''2027''),
                     (''suspended'', PBool True)])] =
   [[(''tenant_id'', PStr ''acme''), (''tier'', PStr ''pro''), (''created_at'', PStr ''2027''), (''suspended'', PBool True)]]"
proof -
  let ?s = "[(''h1'', PDict [(''tenant_id'', PStr ''acme''), (''created_at'', PStr ''2025''), (''admin'', PBool True), (''suspended'', PBool True)]),
             (''h3'', PDict [(''tenant_id'', PStr ''globex''), (''ip_allowlist'', PList [PStr ''10.0.0.0/8''])]), (''h2'', PStr ''old user''),
             (''h4'', PDict [(''tenant_id'', PStr ''acme''), (''created_at'', PStr ''2026''), (''tier'', PStr ''pro'')])]"
  have r: "rotate_tenant_keys (\<lambda>s. CHR ''#'' # s) (\<lambda>v. []) ''r'' '' acme'' ''2027'' ?s =
     Inr (True, [(''h3'', PDict [(''tenant_id'', PStr ''globex''), (''ip_allowlist'', PList [PStr ''10.0.0.0/8''])]), (''h2'', PStr ''old user''),
      (''#r'', PDict [(''tenant_id'', PStr ''acme''), (''tier'', PStr ''pro''), (''created_at'', PStr ''2027''),
                     (''suspended'', PBool True)])],
      [(''tenant_id'', PStr ''acme''), (''tier'', PStr ''pro''), (''created_at'', PStr ''2027''), (''suspended'', PBool True)], 2)"
    by code_simp
  have t: "''acme'' = py_strip '' acme''" by code_simp
  have f: "dget ?s (CHR ''#'' # ''r'') = None" by simp
  have c: "list_all (\<lambda>d. case created_at d of PStr _ \<Rightarrow> True | _ \<Rightarrow> False) (records_of ''acme'' ?s)" by code_simp
  show ?thesis using rotation_leaves_one_key[OF r t f c] by (rule conjunct1)
qed

section \<open>Revocation through the cache\<close>

text \<open>What a lookup on the store itself answers.\<close>

definition lookup_answer :: "(string \<Rightarrow> string) \<Rightarrow> pydict \<Rightarrow> string \<Rightarrow> (pyval \<times> pyval) option" where
  "lookup_answer sha store api_key =
     (case dget_or store (sha api_key) PNone of
        PNone \<Rightarrow> None
      | PDict d \<Rightarrow> Some (dget_or d ''tenant_id'' (PStr ''default''), PDict d)
      | e \<Rightarrow> Some (e, PNone))"

text \<open>Lookups of one process, each with what the store and its clock show then.\<close>

definition after_lookups ::
  "(string \<Rightarrow> string) \<Rightarrow> key_times \<Rightarrow> (store_view \<times> rat \<times> string) list \<Rightarrow> key_cache \<Rightarrow> key_cache" where
  "after_lookups sha kt lookups c = fold (\<lambda>(v, now, key) c. fst (validate_proxy_key sha kt v now key c)) lookups c"

text \<open>The cache is the store, or as old as the moment \<open>T\<close> and not reloaded since.\<close>

definition synced :: "pydict \<Rightarrow> rat \<Rightarrow> key_cache \<Rightarrow> bool" where
  "synced store T c \<longleftrightarrow> kc_keys c = store \<or> kc_loaded_at c \<le> T \<and> kc_attempt_at c \<le> T"

lemma load_key_cache_keys: "sv_load v = Some store \<Longrightarrow> kc_keys (load_key_cache v now c) = store"
  by (simp add: load_key_cache_def)

lemma synced_reload:
  assumes "sv_load v = Some store" and "synced store T c"
  shows "synced store T (reload_keys kt v now miss needed c)"
  using assms by (auto simp: reload_keys_def Let_def synced_def load_key_cache_keys)

lemma synced_check:
  assumes "sv_load v = Some store" and "synced store T c"
  shows "synced store T (check_store_version kt v now c)"
proof -
  have "synced store T (c\<lparr>kc_checked_at := now\<rparr>)" using assms(2) by (simp add: synced_def)
  then show ?thesis using assms synced_reload by (simp add: check_store_version_def Let_def)
qed

lemma synced_refreshed:
  assumes "sv_load v = Some store" and "synced store T c"
  shows "synced store T (refreshed kt v now c)"
  using assms synced_reload synced_check by (simp add: refreshed_def Let_def)

lemma synced_lookup:
  assumes "sv_load v = Some store" and "synced store T c"
  shows "synced store T (fst (validate_proxy_key sha kt v now key c))"
  using assms synced_reload synced_refreshed by (simp add: validate_proxy_key_def Let_def)

lemma kept_reload: "sv_load v = Some store \<Longrightarrow> kc_keys c = store \<Longrightarrow> kc_keys (reload_keys kt v now miss needed c) = store"
  by (simp add: reload_keys_def Let_def load_key_cache_keys)

lemma kept_check: "sv_load v = Some store \<Longrightarrow> kc_keys c = store \<Longrightarrow> kc_keys (check_store_version kt v now c) = store"
  by (simp add: check_store_version_def Let_def kept_reload)

lemma refreshed_in_time:
  assumes "sv_load v = Some store" and "synced store T c" and "T + kt_ttl kt < now" and "T + kt_forced kt \<le> now" and "T < now"
  shows "kc_keys (refreshed kt v now c) = store"
proof -
  let ?stale = "kc_keys c = [] \<or> (kt_ttl kt < now - kc_loaded_at c \<and> kt_forced kt \<le> now - kc_attempt_at c)"
  have "kc_keys (if ?stale then reload_keys kt v now False (cold_or_stale kt now c) c else c) = store"
  proof (cases "kc_keys c = store")
    case True
    then show ?thesis using kept_reload[OF assms(1)] by simp
  next
    case False
    then have old: "kc_loaded_at c \<le> T" "kc_attempt_at c \<le> T" using assms(2) by (simp_all add: synced_def)
    then have "kt_ttl kt < now - kc_loaded_at c" "kt_forced kt \<le> now - kc_attempt_at c" "\<not> now \<le> kc_attempt_at c"
      using assms(3-5) by simp_all
    then show ?thesis by (simp add: reload_keys_def cold_or_stale_def load_key_cache_keys[OF assms(1)])
  qed
  then show ?thesis using kept_check[OF assms(1)] by (simp add: refreshed_def Let_def)
qed

lemma change_reaches_lookup:
  assumes "kc_loaded_at c \<le> T" and "kc_attempt_at c \<le> T"
    and "list_all (\<lambda>(v, _, _). sv_load v = Some store) lookups"
    and "sv_load v = Some store" and "T + kt_ttl kt < now" and "T + kt_forced kt \<le> now" and "T < now"
  shows "snd (validate_proxy_key sha kt v now api_key (after_lookups sha kt lookups c)) = lookup_answer sha store api_key"
proof -
  have "synced store T (after_lookups sha kt lookups c)"
    using assms(3) unfolding after_lookups_def
  proof (induction lookups rule: rev_induct)
    case Nil
    then show ?case using assms(1,2) by (simp add: synced_def)
  next
    case (snoc l ls)
    obtain v n k where "l = (v, n, k)" by (cases l)
    then show ?case using snoc synced_lookup by simp
  qed
  from refreshed_in_time[OF assms(4) this assms(5,6,7)]
  have k: "kc_keys (refreshed kt v now (after_lookups sha kt lookups c)) = store" .
  have "kc_keys (if present (kc_keys (refreshed kt v now (after_lookups sha kt lookups c))) (sha api_key)
      then refreshed kt v now (after_lookups sha kt lookups c)
      else reload_keys kt v now True (dget (kc_keys (refreshed kt v now (after_lookups sha kt lookups c))) (sha api_key) = None)
        (refreshed kt v now (after_lookups sha kt lookups c))) = store"
    using k kept_reload[OF assms(4) k] by simp
  then show ?thesis
    unfolding validate_proxy_key_def Let_def snd_conv lookup_answer_def
    by (cases "dget_or store (sha api_key) PNone") (simp_all only: pyval.case)
qed

text \<open>
  A change of the store reaches every process in bounded time: take a process whose cache was last
  loaded, and last tried, at or before the moment \<open>T\<close> of the change, whatever it holds, and any lookups it
  answers after \<open>T\<close> while the store can be read. A lookup later than the time to live and the reload
  interval after \<open>T\<close> answers what the store itself says: a revoked key is refused, a new one is let in, and
  the record is the current one.
\<close>

lemma key_changes_reach_every_process:
  assumes "kc_loaded_at c \<le> T" and "kc_attempt_at c \<le> T"
    and "list_all (\<lambda>(v, _, _). sv_load v = Some store) lookups"
    and "sv_load v = Some store" and "T + kt_ttl kt < now" and "T + kt_forced kt \<le> now" and "T < now"
  shows "snd (validate_proxy_key sha kt v now api_key (after_lookups sha kt lookups c)) = lookup_answer sha store api_key"
  by (rule change_reaches_lookup[OF assms])

lemma key_changes_reach_every_process_witness:
  "snd (validate_proxy_key (\<lambda>s. s) \<lparr>kt_ttl = 300, kt_forced = 5, kt_check = 30\<rparr>
      \<lparr>sv_backend = False, sv_load = Some [(''k2'', PStr ''bob'')], sv_version = Some ''v2''\<rparr> 701 ''k1''
      (after_lookups (\<lambda>s. s) \<lparr>kt_ttl = 300, kt_forced = 5, kt_check = 30\<rparr>
        [(\<lparr>sv_backend = False, sv_load = Some [(''k2'', PStr ''bob'')], sv_version = Some ''v1''\<rparr>, 410, ''k1'')]
        \<lparr>kc_keys = [(''k1'', PStr ''ann''), (''k2'', PStr ''bob'')], kc_loaded_at = 390, kc_forced_at = 0, kc_attempt_at = 390,
         kc_version = Some ''v1'', kc_checked_at = 390\<rparr>)) = None"
proof -
  let ?c = "\<lparr>kc_keys = [(''k1'', PStr ''ann''), (''k2'', PStr ''bob'')], kc_loaded_at = 390, kc_forced_at = 0, kc_attempt_at = 390,
         kc_version = Some ''v1'', kc_checked_at = 390\<rparr>"
  have "lookup_answer (\<lambda>s. s) [(''k2'', PStr ''bob'')] ''k1'' = None"
    by (simp add: lookup_answer_def dget_or_def)
  then show ?thesis
    by (subst key_changes_reach_every_process[where store = "[(''k2'', PStr ''bob'')]" and T = 400]) simp_all
qed

end
