(* ===== verification/Authentication.thy ===== *)
theory Authentication
  imports Key_Store Client_IP Tool_Policy Resolver
begin

text \<open>
  \<open>_authenticate\<close> of \<open>main.py\<close>: where the proxy key of a request comes from, the gates a valid key
  passes (bound to a tenant, not suspended, contract active, source address allowed) and the override
  of the user id. Headers are the pairs of a request in their order; a lookup is blind to case and takes
  the first. A refusal is a value with the status of the \<open>HTTPException\<close>; what Python would raise besides
  is a \<open>pyexc\<close>, answered with a 500. \<open>fstr\<close> is \<open>str\<close> on a value that is no text. Log lines are left out.
\<close>

section \<open>The request\<close>

record ingress_protocol =
  ip_credential_headers :: "string list"
  ip_credential_query :: string

definition openai_ingress :: ingress_protocol where
  "openai_ingress = \<lparr>ip_credential_headers = [], ip_credential_query = []\<rparr>"

definition anthropic_ingress :: ingress_protocol where
  "anthropic_ingress = \<lparr>ip_credential_headers = [''x-api-key''], ip_credential_query = []\<rparr>"

definition gemini_ingress :: ingress_protocol where
  "gemini_ingress = \<lparr>ip_credential_headers = [''x-goog-api-key''], ip_credential_query = ''key''\<rparr>"

record auth_request =
  rq_headers :: headers
  rq_query :: "(string \<times> string) list"
  rq_client_ip :: "string option"
  rq_peer :: "string option"

definition header_get :: "headers \<Rightarrow> string \<Rightarrow> string option" where
  "header_get hs name = map_option snd (find (\<lambda>h. py_lower (fst h) = name) hs)"

fun first_credential :: "headers \<Rightarrow> string list \<Rightarrow> string" where
  "first_credential hs [] = []"
| "first_credential hs (n # ns) =
     (case header_get hs n of
        Some v \<Rightarrow> if v \<noteq> [] then py_strip v else first_credential hs ns
      | None \<Rightarrow> first_credential hs ns)"

definition bearer :: string where "bearer = ''Bearer ''"

definition credential_of :: "ingress_protocol \<Rightarrow> auth_request \<Rightarrow> string" where
  "credential_of proto req =
     (let auth_header = the_default [] (header_get (rq_headers req) ''authorization'') in
      if take (length bearer) auth_header = bearer then py_strip (drop (length bearer) auth_header)
      else (let api_key = first_credential (rq_headers req) (ip_credential_headers proto);
                query_param = ip_credential_query proto
            in if api_key = [] \<and> query_param \<noteq> []
               then py_strip (the_default [] (dget (rq_query req) query_param)) else api_key))"

section \<open>The gates\<close>

datatype auth_refusal = Missing_Key | Invalid_Key | Unbound_Key | Key_Suspended | Contract_Off | Source_Refused

definition status_of :: "auth_refusal \<Rightarrow> int" where
  "status_of r = (if r = Missing_Key \<or> r = Invalid_Key then 401 else 403)"

datatype auth_error = Refused auth_refusal | Auth_Raised pyexc

record admission =
  ad_user :: pyval
  ad_key :: string
  ad_meta :: pyval
  ad_principal :: pyval

record auth_env =
  ae_sha :: "string \<Rightarrow> string"
  ae_fstr :: "pyval \<Rightarrow> string"
  ae_times :: key_times
  ae_store :: store_view
  ae_now :: rat
  ae_k_service :: bool
  ae_ip_mode :: string
  ae_config :: pyval

text \<open>A record that names an empty tenant.\<close>

definition unbound :: "pyval \<Rightarrow> bool" where
  "unbound m \<longleftrightarrow> (case m of
      PDict d \<Rightarrow> (case dget d ''tenant_id'' of Some t \<Rightarrow> \<not> py_truthy t | None \<Rightarrow> False) | _ \<Rightarrow> False)"

definition raised :: "pyexc + 'a \<Rightarrow> auth_error + 'a" where
  "raised r = map_sum Auth_Raised id r"

definition global_cidrs :: "pyval \<Rightarrow> pyexc + pyval" where
  "global_cidrs cfg =
     bind_res (py_get cfg ''ip_allowlist'' (PDict [])) (\<lambda>s.
       let ipcfg = py_or s (PDict []) in
       bind_res (py_get ipcfg ''enabled'' PNone) (\<lambda>enabled.
         if py_truthy enabled
         then map_sum id (\<lambda>g. py_or g (PList [])) (py_get ipcfg ''global_cidrs'' (PList []))
         else Inr (PList [])))"

definition text_of :: "(pyval \<Rightarrow> string) \<Rightarrow> pyval \<Rightarrow> string" where
  "text_of fstr v = (case v of PStr s \<Rightarrow> s | _ \<Rightarrow> fstr v)"

text \<open>The lists are joined only once the address has been read.\<close>

definition source_allowed :: "(pyval \<Rightarrow> string) \<Rightarrow> string \<Rightarrow> pyval \<Rightarrow> string list \<Rightarrow> pyexc + bool" where
  "source_allowed fstr ip globals tenant_cidrs =
     (if ip_address (py_strip ip) = None then Inr False
      else map_sum id (\<lambda>gs. ip_allowed ip (map (text_of fstr) gs) tenant_cidrs) (py_iter globals))"

definition check_source :: "auth_env \<Rightarrow> auth_request \<Rightarrow> pyval \<Rightarrow> auth_error + unit" where
  "check_source env req meta =
     bind_res (raised (global_cidrs (ae_config env))) (\<lambda>globals.
       let tenant_cidrs = get_ip_allowlist (ae_fstr env) meta in
       if py_truthy globals \<or> tenant_cidrs \<noteq> []
       then bind_res (raised (request_client_ip (ae_k_service env) (ae_ip_mode env) (rq_client_ip req)
                (values_of ''x-forwarded-for'' (rq_headers req)) (rq_peer req) (ae_config env))) (\<lambda>ip.
              bind_res (raised (source_allowed (ae_fstr env) ip globals tenant_cidrs)) (\<lambda>ok.
                if ok then Inr () else Inl (Refused Source_Refused)))
       else Inr ())"

text \<open>The first pattern that matches ends the search; \<open>fnmatch\<close> refuses one that is no text.\<close>

fun any_match :: "string \<Rightarrow> pyval list \<Rightarrow> pyexc + bool" where
  "any_match name [] = Inr False"
| "any_match name (PStr p # ps) = (if fnmatchcase name p then Inr True else any_match name ps)"
| "any_match name (_ # ps) = Inl TypeError"

definition owner_patterns :: "(pyval \<Rightarrow> string) \<Rightarrow> pyval \<Rightarrow> pyval list" where
  "owner_patterns fstr meta =
     (case meta of
        PDict d \<Rightarrow> (let o_d = dget_or d ''owner_domain'' PNone
                    in if py_truthy o_d then [PStr (''*@'' @ text_of fstr o_d)] else [])
      | _ \<Rightarrow> [])"

definition user_override :: "auth_env \<Rightarrow> auth_request \<Rightarrow> pyval \<Rightarrow> pyexc + string option" where
  "user_override env req meta =
     bind_res (py_get (ae_config env) ''proxy'' (PDict [])) (\<lambda>p.
     bind_res (py_get p ''allow_user_id_header_override'' (PBool False)) (\<lambda>enabled.
       case header_get (rq_headers req) ''x-user-id'' of
         Some (c # cs) \<Rightarrow>
           if \<not> py_truthy enabled then Inr None
           else bind_res (py_get p ''allowed_user_id_headers'' (PList [])) (\<lambda>a.
                bind_res (py_iter (py_or a (PList []))) (\<lambda>ps.
                  map_sum id (\<lambda>hit. if hit then Some (c # cs) else None)
                    (any_match (c # cs) (ps @ owner_patterns (ae_fstr env) meta))))
       | _ \<Rightarrow> Inr None))"

definition authenticate ::
  "auth_env \<Rightarrow> ingress_protocol \<Rightarrow> auth_request \<Rightarrow> key_cache \<Rightarrow> key_cache \<times> (auth_error + admission)" where
  "authenticate env proto req c =
     (let api_key = credential_of proto req in
      if api_key = [] then (c, Inl (Refused Missing_Key))
      else (case validate_proxy_key (ae_sha env) (ae_times env) (ae_store env) (ae_now env) api_key c of
              (c', None) \<Rightarrow> (c', Inl (Refused Invalid_Key))
            | (c', Some (user_id, meta)) \<Rightarrow>
                (c', if unbound meta then Inl (Refused Unbound_Key)
                     else if is_suspended meta then Inl (Refused Key_Suspended)
                     else if is_contract_inactive meta then Inl (Refused Contract_Off)
                     else bind_res (check_source env req meta) (\<lambda>_.
                          bind_res (raised (user_override env req meta)) (\<lambda>over.
                            Inr \<lparr>ad_user = (case over of Some u \<Rightarrow> PStr u | None \<Rightarrow> user_id), ad_key = api_key,
                                 ad_meta = meta, ad_principal = user_id\<rparr>)))))"

definition caller_tenant_id :: "pyval \<Rightarrow> pyval" where
  "caller_tenant_id meta = (case meta of PDict d \<Rightarrow> dget_or d ''tenant_id'' (PStr ''default'') | _ \<Rightarrow> PStr ''default'')"

definition require_admin :: "pyval \<Rightarrow> int option" where
  "require_admin meta = (if is_admin_key meta then None else Some 403)"

section \<open>What an admitted request has shown\<close>

lemma raised_Inr [simp]: "raised r = Inr x \<longleftrightarrow> r = Inr x"
  by (cases r) (simp_all add: raised_def)

lemma authenticate_Inr:
  assumes "authenticate env proto req c = (c', Inr a)"
  shows "ad_key a = credential_of proto req" and "credential_of proto req \<noteq> []"
    and "snd (validate_proxy_key (ae_sha env) (ae_times env) (ae_store env) (ae_now env) (ad_key a) c) =
           Some (ad_principal a, ad_meta a)"
    and "\<not> unbound (ad_meta a)" and "\<not> is_suspended (ad_meta a)" and "\<not> is_contract_inactive (ad_meta a)"
    and "check_source env req (ad_meta a) = Inr ()"
    and "user_override env req (ad_meta a) = Inr None \<and> ad_user a = ad_principal a \<or>
         (\<exists>u. user_override env req (ad_meta a) = Inr (Some u) \<and> ad_user a = PStr u)"
proof -
  let ?k = "credential_of proto req"
  obtain uid meta where v: "snd (validate_proxy_key (ae_sha env) (ae_times env) (ae_store env) (ae_now env) ?k c) = Some (uid, meta)"
      and r: "(if unbound meta then Inl (Refused Unbound_Key)
               else if is_suspended meta then Inl (Refused Key_Suspended)
               else if is_contract_inactive meta then Inl (Refused Contract_Off)
               else bind_res (check_source env req meta) (\<lambda>_.
                    bind_res (raised (user_override env req meta)) (\<lambda>over.
                      Inr \<lparr>ad_user = (case over of Some u \<Rightarrow> PStr u | None \<Rightarrow> uid), ad_key = ?k,
                           ad_meta = meta, ad_principal = uid\<rparr>))) = Inr a"
      and ne: "?k \<noteq> []"
    using assms unfolding authenticate_def Let_def by (auto split: if_splits prod.splits option.splits)
  have g: "\<not> unbound meta" "\<not> is_suspended meta" "\<not> is_contract_inactive meta" using r by (auto split: if_splits)
  obtain over where ok: "check_source env req meta = Inr ()" "user_override env req meta = Inr over"
      and a: "a = \<lparr>ad_user = (case over of Some u \<Rightarrow> PStr u | None \<Rightarrow> uid), ad_key = ?k, ad_meta = meta, ad_principal = uid\<rparr>"
    using r g by (auto simp: bind_res_Inr)
  show "ad_key a = ?k" "?k \<noteq> []" "snd (validate_proxy_key (ae_sha env) (ae_times env) (ae_store env) (ae_now env) (ad_key a) c) =
           Some (ad_principal a, ad_meta a)" "\<not> unbound (ad_meta a)" "\<not> is_suspended (ad_meta a)"
      "\<not> is_contract_inactive (ad_meta a)" "check_source env req (ad_meta a) = Inr ()"
      "user_override env req (ad_meta a) = Inr None \<and> ad_user a = ad_principal a \<or>
         (\<exists>u. user_override env req (ad_meta a) = Inr (Some u) \<and> ad_user a = PStr u)"
    using v ne g ok a by (simp_all split: option.splits)
qed

lemma check_source_Inr:
  assumes "check_source env req meta = Inr ()" and "get_ip_allowlist (ae_fstr env) meta \<noteq> []"
  shows "\<exists>ip globals. request_client_ip (ae_k_service env) (ae_ip_mode env) (rq_client_ip req)
       (values_of ''x-forwarded-for'' (rq_headers req)) (rq_peer req) (ae_config env) = Inr ip \<and>
     ip_allowed ip globals (get_ip_allowlist (ae_fstr env) meta)"
  using assms
  by (auto simp: check_source_def Let_def bind_res_Inr source_allowed_def map_sum_def split: if_splits sum.splits)


definition demo_auth :: auth_env where
  "demo_auth = \<lparr>ae_sha = (\<lambda>s. CHR ''#'' # s), ae_fstr = (\<lambda>v. ''?''), ae_times = \<lparr>kt_ttl = 300, kt_forced = 5, kt_check = 30\<rparr>,
     ae_store = \<lparr>sv_backend = False, sv_load = Some [(''#k1'', PDict [(''tenant_id'', PStr ''acme''), (''owner_domain'', PStr ''acme.io''),
        (''ip_allowlist'', PList [PStr ''203.0.0.0/8''])])], sv_version = None\<rparr>,
     ae_now = 1000, ae_k_service = False, ae_ip_mode = [],
     ae_config = PDict [(''proxy'', PDict [(''allow_user_id_header_override'', PBool True)])]\<rparr>"

definition demo_request :: auth_request where
  "demo_request = \<lparr>rq_headers = [(''authorization'', ''Bearer k1''), (''X-User-ID'', ''ann@acme.io'')], rq_query = [],
     rq_client_ip = Some ''203.0.113.9'', rq_peer = Some ''10.0.0.1''\<rparr>"

definition demo_admission :: admission where
  "demo_admission = \<lparr>ad_user = PStr ''ann@acme.io'', ad_key = ''k1'',
     ad_meta = PDict [(''tenant_id'', PStr ''acme''), (''owner_domain'', PStr ''acme.io''),
        (''ip_allowlist'', PList [PStr ''203.0.0.0/8''])], ad_principal = PStr ''acme''\<rparr>"

lemma demo_authenticate: "snd (authenticate demo_auth openai_ingress demo_request new_cache) = Inr demo_admission"
proof -
  let ?m = "ad_meta demo_admission"
  have v: "validate_proxy_key (ae_sha demo_auth) (ae_times demo_auth) (ae_store demo_auth) (ae_now demo_auth) ''k1'' new_cache =
      (fst (validate_proxy_key (ae_sha demo_auth) (ae_times demo_auth) (ae_store demo_auth) (ae_now demo_auth) ''k1'' new_cache),
       Some (PStr ''acme'', ?m))"
    by code_simp
  have k: "credential_of openai_ingress demo_request = ''k1''" by code_simp
  have g: "\<not> unbound ?m" "\<not> is_suspended ?m" "\<not> is_contract_inactive ?m" by code_simp+
  have al: "get_ip_allowlist (ae_fstr demo_auth) ?m = [''203.0.0.0/8'']" by code_simp
  have gl: "global_cidrs (ae_config demo_auth) = Inr (PList [])" by code_simp
  have ci: "request_client_ip ks md (rq_client_ip demo_request) xs pr cf = Inr ''203.0.113.9''" for ks md xs pr cf
    by (simp add: request_client_ip_def demo_request_def)
  have s: "check_source demo_auth demo_request ?m = Inr ()"
    unfolding check_source_def gl al ci Let_def
    by (simp add: raised_def source_allowed_def sample_addr py_iter_def sample_ip_allowed)
  have u: "user_override demo_auth demo_request ?m = Inr (Some ''ann@acme.io'')" by code_simp
  show ?thesis unfolding authenticate_def k Let_def
    by (subst v) (simp add: g s u raised_def, simp add: demo_admission_def)
qed


lemma any_match_True:
  "any_match name ps = Inr True \<Longrightarrow> \<exists>p. PStr p \<in> set ps \<and> fnmatchcase name p"
  by (induction name ps rule: any_match.induct) (auto split: if_splits)

text \<open>
  The user id of an admitted request is the one of its key, or the one its X-User-ID header names;
  the latter only when the deployment allows the override and a pattern of the deployment's list, or the
  e-mail domain its own key was issued for, matches. The tenant and the principal the limits count stay
  those of the key.
\<close>

lemma user_id_is_the_keys_or_allowed:
  assumes "authenticate env proto req c = (c', Inr a)"
  shows "ad_user a = ad_principal a \<or>
    (\<exists>u p ps. header_get (rq_headers req) ''x-user-id'' = Some u \<and> ad_user a = PStr u \<and> fnmatchcase u p \<and>
       bind_res (py_get (ae_config env) ''proxy'' (PDict []))
         (\<lambda>d. map_sum id py_truthy (py_get d ''allow_user_id_header_override'' (PBool False))) = Inr True \<and>
       bind_res (py_get (ae_config env) ''proxy'' (PDict []))
         (\<lambda>d. bind_res (py_get d ''allowed_user_id_headers'' (PList [])) (\<lambda>l. py_iter (py_or l (PList [])))) = Inr ps \<and>
       PStr p \<in> set (ps @ owner_patterns (ae_fstr env) (ad_meta a)))"
proof -
  have "\<exists>p ps. header_get (rq_headers req) ''x-user-id'' = Some u \<and> fnmatchcase u p \<and>
       bind_res (py_get (ae_config env) ''proxy'' (PDict []))
         (\<lambda>d. map_sum id py_truthy (py_get d ''allow_user_id_header_override'' (PBool False))) = Inr True \<and>
       bind_res (py_get (ae_config env) ''proxy'' (PDict []))
         (\<lambda>d. bind_res (py_get d ''allowed_user_id_headers'' (PList [])) (\<lambda>l. py_iter (py_or l (PList [])))) = Inr ps \<and>
       PStr p \<in> set (ps @ owner_patterns (ae_fstr env) (ad_meta a))"
    if o1: "user_override env req (ad_meta a) = Inr (Some u)" for u
  proof -
    obtain d en where d: "py_get (ae_config env) ''proxy'' (PDict []) = Inr d"
        and e: "py_get d ''allow_user_id_header_override'' (PBool False) = Inr en"
        and r: "(case header_get (rq_headers req) ''x-user-id'' of
         Some (c # cs) \<Rightarrow>
           if \<not> py_truthy en then Inr None
           else bind_res (py_get d ''allowed_user_id_headers'' (PList [])) (\<lambda>a'.
                bind_res (py_iter (py_or a' (PList []))) (\<lambda>ps.
                  map_sum id (\<lambda>hit. if hit then Some (c # cs) else None)
                    (any_match (c # cs) (ps @ owner_patterns (ae_fstr env) (ad_meta a)))))
       | _ \<Rightarrow> Inr None) = Inr (Some u)"
      using o1 unfolding user_override_def bind_res_Inr by blast
    obtain ch cs where h: "header_get (rq_headers req) ''x-user-id'' = Some (ch # cs)" and t: "py_truthy en"
      using r by (auto split: option.splits list.splits if_splits)
    obtain l ps where l: "py_get d ''allowed_user_id_headers'' (PList []) = Inr l" "py_iter (py_or l (PList [])) = Inr ps"
        and m: "map_sum id (\<lambda>hit. if hit then Some (ch # cs) else None)
                    (any_match (ch # cs) (ps @ owner_patterns (ae_fstr env) (ad_meta a))) = Inr (Some u)"
      using r h t by (auto simp: bind_res_Inr)
    have u: "u = ch # cs" and am: "any_match u (ps @ owner_patterns (ae_fstr env) (ad_meta a)) = Inr True"
      using m by (auto simp: map_sum_def split: sum.splits if_splits)
    show ?thesis using any_match_True[OF am] h u d e t l by auto
  qed
  then show ?thesis using authenticate_Inr(8)[OF assms] by blast
qed

lemma user_id_is_the_keys_or_allowed_witness:
  "header_get (rq_headers demo_request) ''x-user-id'' = Some ''ann@acme.io''"
proof -
  obtain c' where c: "authenticate demo_auth openai_ingress demo_request new_cache = (c', Inr demo_admission)"
    using demo_authenticate by (metis prod.collapse)
  have "ad_user demo_admission \<noteq> ad_principal demo_admission" "ad_user demo_admission = PStr ''ann@acme.io''"
    by (simp_all add: demo_admission_def)
  then show ?thesis using user_id_is_the_keys_or_allowed[OF c] by auto
qed

section \<open>Suspension, end to end\<close>



end
