(* ===== verification/Prompt_Cache.thy ===== *)
theory Prompt_Cache
  imports Config_Overlay Tenancy "HOL-Library.Sublist"
begin

text \<open>
  \<open>middleware/g05_cache.py\<close>: the exact cache (L1) and the step cache in Redis, the semantic cache (L2) in
  Postgres, the keys and scopes of both and the adaptive lifetimes. A stored answer is the value its JSON
  text stands for. Messages are objects, as validation leaves them, a lifetime is a whole number, and the
  memos the stage keeps in the parameters are texts. Arguments: SHA-256, \<open>json.dumps\<close> with sorted keys,
  \<open>str\<close>, the verbosity tag of G11, the embedding, and which row the index returns. Spans, savings and
  counters are left out, and so is the deletion of expired rows, which are never served.
\<close>

section \<open>The request and the stores\<close>

record cache_ctx =
  kc_messages :: "pydict list"
  kc_original :: "pydict list"
  kc_params :: pydict
  kc_config :: pyval
  kc_model :: string
  kc_tenant :: string
  kc_prefix :: string
  kc_no_cache :: bool
  kc_hit :: bool
  kc_level :: "string option"
  kc_response :: pyval
  kc_bypassed :: bool
  kc_dispatched :: bool

record l2_row =
  lr_hash :: string
  lr_embedding :: "rat list"
  lr_response :: pyval
  lr_expires :: rat
  lr_tenant :: string
  lr_scope :: string

record cache_state =
  ca_redis :: "(string \<times> (pyval \<times> rat)) list"
  ca_stats :: "((string \<times> string) \<times> int) list"
  ca_rows :: "l2_row list"

record cache_env =
  ke_sha :: "string \<Rightarrow> string"
  ke_dumps :: "pyval \<Rightarrow> string"
  ke_fstr :: "pyval \<Rightarrow> string"
  ke_verbosity :: "cache_ctx \<Rightarrow> string"
  ke_embed :: "string \<Rightarrow> pyval \<Rightarrow> string \<Rightarrow> pyexc + rat list"
  ke_pick :: "rat list \<Rightarrow> l2_row list \<Rightarrow> l2_row option"
  ke_close :: "rat list \<Rightarrow> l2_row \<Rightarrow> pyval \<Rightarrow> bool"
  ke_redis_up :: bool
  ke_database :: bool
  ke_database_up :: bool
  ke_now :: rat

definition as_text :: "cache_env \<Rightarrow> pyval \<Rightarrow> string" where
  "as_text env v = (case v of PStr s \<Rightarrow> s | _ \<Rightarrow> ke_fstr env v)"

definition joined :: "string \<Rightarrow> string list \<Rightarrow> string" where
  "joined sep parts = concat (case parts of [] \<Rightarrow> [] | p # ps \<Rightarrow> p # map (\<lambda>x. sep @ x) ps)"

section \<open>The text of a request\<close>

text \<open>Every run of white space becomes one space.\<close>

fun collapse :: "bool \<Rightarrow> string \<Rightarrow> string" where
  "collapse in_space [] = []"
| "collapse in_space (c # s) =
     (if is_space c then (if in_space then collapse True s else CHR '' '' # collapse True s) else c # collapse False s)"

definition squeezed :: "string \<Rightarrow> string" where
  "squeezed s = py_strip (collapse False s)"

definition turn_fields :: "string list" where
  "turn_fields = [''tool_calls'', ''function_call'', ''tool_call_id'', ''name'']"

definition turn_text :: "cache_env \<Rightarrow> pydict \<Rightarrow> string" where
  "turn_text env m =
     (let content = (case dget_or m ''content'' (PStr []) of PStr s \<Rightarrow> py_lower (squeezed s) | v \<Rightarrow> ke_fstr env v);
          fields = List.map_filter (\<lambda>k. case dget m k of Some v \<Rightarrow> if py_truthy v then Some (k, v) else None | None \<Rightarrow> None) turn_fields
      in as_text env (dget_or m ''role'' (PStr [])) @ '':'' @ content
         @ (if fields = [] then [] else '' '' @ ke_dumps env (PDict fields)))"

definition normalise :: "cache_env \<Rightarrow> pydict list \<Rightarrow> string" where
  "normalise env messages = joined ''|'' (map (turn_text env) messages)"

section \<open>The scope of a key\<close>

definition cache_scopes :: "(string \<times> string) list" where
  "cache_scopes =
     [(''tenant'', ''tenant''), (''tenant+model'', ''tenant+model''), (''tenant_model'', ''tenant+model''),
      (''model'', ''tenant+model''), (''tenant+system'', ''tenant+system''), (''tenant_system'', ''tenant+system''),
      (''system'', ''tenant+system''), (''tenant+model+system'', ''tenant+model+system''),
      (''tenant+system+model'', ''tenant+model+system''), (''tenant_model_system'', ''tenant+model+system''),
      (''model+system'', ''tenant+model+system''), (''system+model'', ''tenant+model+system'')]"

definition resolve_cache_scope :: "cache_env \<Rightarrow> cache_ctx \<Rightarrow> string" where
  "resolve_cache_scope env c =
     (let raw = py_strip (py_lower (as_text env
            (dget_or (resolve_group_config (kc_config c) (kc_tenant c) ''G5_cache'') ''cache_scope'' (PStr ''tenant''))))
      in case dget cache_scopes raw of Some s \<Rightarrow> s | None \<Rightarrow> ''tenant'')"

definition model_scope_tag :: "cache_env \<Rightarrow> cache_ctx \<Rightarrow> string" where
  "model_scope_tag env c =
     (if \<not> py_in ''+model'' (resolve_cache_scope env c) then []
      else if kc_model c \<noteq> [] then kc_model c
      else (let v = dget_or (kc_params c) ''model'' PNone in if py_truthy v then as_text env v else []))"

text \<open>A tag is computed once and read from the parameters afterwards.\<close>

definition memo_tag :: "string \<Rightarrow> string \<Rightarrow> cache_ctx \<Rightarrow> string" where
  "memo_tag k computed c = (case dget (kc_params c) k of Some (PStr s) \<Rightarrow> s | Some _ \<Rightarrow> [] | None \<Rightarrow> computed)"

definition system_texts :: "pydict \<Rightarrow> string list" where
  "system_texts m =
     (if dget_or m ''role'' PNone \<noteq> PStr ''system'' then []
      else (case dget_or m ''content'' PNone of
              PStr s \<Rightarrow> [s]
            | PList ps \<Rightarrow> List.map_filter (\<lambda>p. case p of
                 PDict d \<Rightarrow> (case (dget_or d ''type'' PNone, dget_or d ''text'' PNone) of
                              (PStr t, PStr s) \<Rightarrow> if t = ''text'' then Some s else None | _ \<Rightarrow> None)
               | _ \<Rightarrow> None) ps
            | _ \<Rightarrow> []))"

definition system_scope_tag :: "cache_env \<Rightarrow> cache_ctx \<Rightarrow> string" where
  "system_scope_tag env c =
     memo_tag ''_g05_system_tag''
       (if py_in ''+system'' (resolve_cache_scope env c)
        then take 12 (ke_sha env (squeezed (joined [CHR 0x0A] (concat (map system_texts (kc_messages c)))))) else []) c"

definition verbosity_scope_tag :: "cache_env \<Rightarrow> cache_ctx \<Rightarrow> string" where
  "verbosity_scope_tag env c = memo_tag ''_g05_verbosity_tag'' (ke_verbosity env c) c"

definition answer_params :: "string list" where
  "answer_params =
     [''audio'', ''frequency_penalty'', ''function_call'', ''functions'', ''logit_bias'', ''logprobs'',
      ''max_completion_tokens'', ''max_tokens'', ''modalities'', ''n'', ''parallel_tool_calls'',
      ''presence_penalty'', ''reasoning_effort'', ''response_format'', ''seed'', ''stop'',
      ''temperature'', ''thinking'', ''thinking_config'', ''tool_choice'', ''tools'', ''top_k'',
      ''top_logprobs'', ''top_p'', ''verbosity'', ''web_search_options'', ''json_schema'', ''x_json_output'',
      ''rag_query'', ''x_rag_collection'', ''x_rag_top_k'', ''x_jit_retrieval'', ''session_id'', ''x_session_id'']"

definition chosen_params :: "pydict \<Rightarrow> pydict" where
  "chosen_params params = filter (\<lambda>kv. fst kv \<in> set answer_params \<and> snd kv \<noteq> PNone) params"

definition params_digest :: "cache_env \<Rightarrow> pydict \<Rightarrow> string" where
  "params_digest env params =
     (if chosen_params params = [] then [] else take 16 (ke_sha env (ke_dumps env (PDict (chosen_params params)))))"

definition params_scope_tag :: "cache_env \<Rightarrow> cache_ctx \<Rightarrow> string" where
  "params_scope_tag env c = memo_tag ''_g05_params_tag'' (params_digest env (kc_params c)) c"

definition memoise :: "cache_env \<Rightarrow> cache_ctx \<Rightarrow> cache_ctx" where
  "memoise env c =
     (let v = verbosity_scope_tag env c;
          c1 = c\<lparr>kc_params := dset ''_g05_verbosity_tag'' (PStr v) (kc_params c)\<rparr>;
          s = system_scope_tag env c1;
          c2 = c1\<lparr>kc_params := dset ''_g05_system_tag'' (PStr s) (kc_params c1)\<rparr>;
          p = params_scope_tag env c2
      in c2\<lparr>kc_params := dset ''_g05_params_tag'' (PStr p) (kc_params c2)\<rparr>)"

definition tagged :: "string \<Rightarrow> string \<Rightarrow> string \<Rightarrow> string" where
  "tagged name tag rest = (if tag = [] then rest else name @ ''='' @ tag @ [CHR 0x0A] @ rest)"

definition apply_model_scope :: "cache_env \<Rightarrow> string \<Rightarrow> cache_ctx \<Rightarrow> string" where
  "apply_model_scope env s c =
     tagged ''params'' (params_scope_tag env c)
       (tagged ''system'' (system_scope_tag env c)
         (tagged ''verbosity'' (verbosity_scope_tag env c) (tagged ''model'' (model_scope_tag env c) s)))"

definition cache_key :: "cache_env \<Rightarrow> string \<Rightarrow> string \<Rightarrow> string" where
  "cache_key env normalised pre = pre @ ''tok_opt:l1:'' @ ke_sha env normalised"

definition step_cache_key :: "cache_env \<Rightarrow> string \<Rightarrow> string \<Rightarrow> string \<Rightarrow> string \<Rightarrow> string" where
  "step_cache_key env step_name inputs_hash template_version pre =
     pre @ ''tok_opt:step:'' @ ke_sha env (step_name @ ''|'' @ inputs_hash @ ''|'' @ template_version)"

section \<open>The semantic scope\<close>

definition request_messages :: "cache_ctx \<Rightarrow> pydict list" where
  "request_messages c = (if kc_original c \<noteq> [] then kc_original c else kc_messages c)"

definition part_text :: "pyval \<Rightarrow> string option" where
  "part_text p = (case p of
      PDict d \<Rightarrow> (case (dget_or d ''type'' PNone, dget_or d ''text'' PNone) of
                   (PStr t, PStr s) \<Rightarrow> if t = ''text'' then Some s else None | _ \<Rightarrow> None)
    | _ \<Rightarrow> None)"

text \<open>The user turns as one text; \<open>None\<close> when one of them is not all text.\<close>

fun user_turns :: "pydict list \<Rightarrow> string list option" where
  "user_turns [] = Some []"
| "user_turns (m # ms) =
     (if dget_or m ''role'' PNone \<noteq> PStr ''user'' then user_turns ms
      else (case dget_or m ''content'' PNone of
              PStr s \<Rightarrow> map_option (Cons (py_lower (squeezed s))) (user_turns ms)
            | PList ps \<Rightarrow>
                if list_all (\<lambda>p. part_text p \<noteq> None) ps
                then map_option (Cons (py_lower (squeezed (joined [CHR 0x0A] (List.map_filter part_text ps))))) (user_turns ms)
                else None
            | _ \<Rightarrow> None))"

definition semantic_query_text :: "pydict list \<Rightarrow> string" where
  "semantic_query_text messages =
     (case user_turns messages of None \<Rightarrow> [] | Some us \<Rightarrow> joined [CHR 0x0A] (filter (\<lambda>u. u \<noteq> []) us))"

text \<open>A number with its separators: \<open>\d+(?:[.,]\d+)*\<close>.\<close>

fun rest_of_number :: "string \<Rightarrow> string \<times> string" where
  "rest_of_number [] = ([], [])"
| "rest_of_number (c # s) =
     (if is_digit c \<or> (c \<in> {CHR ''.'', CHR '',''} \<and> s \<noteq> [] \<and> is_digit (hd s))
      then (case rest_of_number s of (a, r) \<Rightarrow> (c # a, r)) else ([], c # s))"

lemma rest_of_number_shorter: "rest_of_number s = (a, r) \<Longrightarrow> length r \<le> length s"
  by (induction s arbitrary: a r rule: rest_of_number.induct) (auto split: prod.splits if_splits)

function literals_in :: "string \<Rightarrow> string list" where
  "literals_in [] = []"
| "literals_in (c # s) =
     (if is_digit c then (case rest_of_number s of (a, r) \<Rightarrow> (c # a) # literals_in r) else literals_in s)"
  by pat_completeness auto
termination
  by (relation "measure length") (auto simp: less_Suc_eq_le dest: rest_of_number_shorter[OF sym])

definition literal_scope_tag :: "cache_env \<Rightarrow> string \<Rightarrow> pydict \<Rightarrow> string" where
  "literal_scope_tag env query_text cfg =
     (let ls = literals_in query_text in
      if \<not> py_truthy (dget_or cfg ''l2_literal_guard'' (PBool True)) \<or> ls = [] then []
      else ''literals='' @ take 16 (ke_sha env (joined [CHR 0x1F] ls)))"

definition scope_value :: "cache_env \<Rightarrow> cache_ctx \<Rightarrow> string" where
  "scope_value env c =
     (let ptag = params_scope_tag env c in
      joined '':'' (filter (\<lambda>p. p \<noteq> []) [model_scope_tag env c, verbosity_scope_tag env c, system_scope_tag env c,
        (if ptag = [] then [] else ''params='' @ ptag)]))"

definition l2_scope :: "cache_env \<Rightarrow> cache_ctx \<Rightarrow> string \<Rightarrow> pydict \<Rightarrow> string" where
  "l2_scope env c query_text cfg =
     joined '':'' (filter (\<lambda>p. p \<noteq> []) [scope_value env c, literal_scope_tag env query_text cfg])"

definition embed_input_truncates :: "string \<Rightarrow> pydict \<Rightarrow> pyexc + bool" where
  "embed_input_truncates query_text cfg =
     (case py_int (dget_or cfg ''l2_max_embed_chars'' (PInt 2000)) of
        None \<Rightarrow> Inl ValueError | Some n \<Rightarrow> Inr (0 < n \<and> n < int (length query_text)))"

definition is_multiturn_continuation :: "cache_ctx \<Rightarrow> bool" where
  "is_multiturn_continuation c \<longleftrightarrow>
     list_ex (\<lambda>m. dget_or m ''role'' PNone \<in> {PStr ''assistant'', PStr ''tool''}) (request_messages c)"

definition semantic_cache_disabled :: "cache_env \<Rightarrow> pydict \<Rightarrow> cache_ctx \<Rightarrow> bool" where
  "semantic_cache_disabled env cfg c \<longleftrightarrow>
     py_lower (as_text env (dget_or (kc_params c) ''x_cache_semantic'' (PBool True))) \<in> {''false'', ''0'', ''no''} \<or>
     (py_truthy (dget_or cfg ''semantic_skip_multiturn'' (PBool True)) \<and> is_multiturn_continuation c)"

section \<open>Lifetimes\<close>

definition stats_key :: "string \<Rightarrow> int \<Rightarrow> string" where
  "stats_key pre window = pre @ ''tok_opt:cache:ttl_stats:'' @ int_str window"

definition window_at :: "rat \<Rightarrow> int" where
  "window_at now = \<lfloor>now / 3600\<rfloor>"

definition ttl_stat :: "cache_state \<Rightarrow> string \<Rightarrow> int \<Rightarrow> string \<Rightarrow> string \<Rightarrow> int" where
  "ttl_stat st pre window level outcome =
     (case dget (ca_stats st) (stats_key pre window, level @ '':'' @ outcome) of Some n \<Rightarrow> n | None \<Rightarrow> 0)"

definition count_lookup :: "cache_env \<Rightarrow> pydict \<Rightarrow> string \<Rightarrow> string \<Rightarrow> string \<Rightarrow> cache_state \<Rightarrow> cache_state" where
  "count_lookup env cfg pre level outcome st =
     (if py_truthy (dget_or cfg ''auto_ttl_enabled'' (PBool True)) \<and> ke_redis_up env
      then (let w = window_at (ke_now env) in
            st\<lparr>ca_stats := dset (stats_key pre w, level @ '':'' @ outcome) (ttl_stat st pre w level outcome + 1) (ca_stats st)\<rparr>)
      else st)"

definition scaled_ttl :: "int \<Rightarrow> rat \<Rightarrow> pydict \<Rightarrow> int" where
  "scaled_ttl base_ttl scale cfg =
     (case (py_float (dget_or cfg ''auto_ttl_min_multiplier'' (PFloat (1 / 4))),
            py_float (dget_or cfg ''auto_ttl_max_multiplier'' (PFloat 2))) of
        (Some low, Some high) \<Rightarrow> max 1 (trunc_rat (of_int base_ttl * min (max scale low) high))
      | _ \<Rightarrow> base_ttl)"

definition get_recommended_ttl :: "cache_env \<Rightarrow> cache_state \<Rightarrow> string \<Rightarrow> int \<Rightarrow> string \<Rightarrow> pydict \<Rightarrow> int" where
  "get_recommended_ttl env st pre base_ttl level cfg =
     (if \<not> ke_redis_up env then base_ttl
      else (let w = window_at (ke_now env);
                hits = ttl_stat st pre w level ''hit'' + ttl_stat st pre (w - 1) level ''hit'';
                misses = ttl_stat st pre w level ''miss'' + ttl_stat st pre (w - 1) level ''miss'';
                total = hits + misses
            in if total < 10 then base_ttl
               else if of_int hits / of_int total > (4 / 5 :: rat) then scaled_ttl base_ttl (5 / 4) cfg
               else if of_int hits / of_int total < (1 / 5 :: rat) then scaled_ttl base_ttl (3 / 4) cfg
               else base_ttl))"

definition ttl_for :: "cache_env \<Rightarrow> cache_state \<Rightarrow> string \<Rightarrow> int \<Rightarrow> string \<Rightarrow> pydict \<Rightarrow> int" where
  "ttl_for env st pre base_ttl level cfg =
     (if py_truthy (dget_or cfg ''auto_ttl_enabled'' (PBool True)) then get_recommended_ttl env st pre base_ttl level cfg
      else base_ttl)"

section \<open>The lookup\<close>

definition redis_value :: "cache_env \<Rightarrow> cache_state \<Rightarrow> string \<Rightarrow> pyexc + pyval option" where
  "redis_value env st k =
     (if \<not> ke_redis_up env then Inl RedisError
      else Inr (case dget (ca_redis st) k of Some (v, expires) \<Rightarrow> if ke_now env < expires then Some v else None | None \<Rightarrow> None))"

definition redis_set :: "cache_env \<Rightarrow> string \<Rightarrow> pyval \<Rightarrow> int \<Rightarrow> cache_state \<Rightarrow> cache_state" where
  "redis_set env k v ttl st =
     (if ke_redis_up env \<and> 0 < ttl then st\<lparr>ca_redis := dset k (v, ke_now env + of_int ttl) (ca_redis st)\<rparr> else st)"

definition g5_config :: "cache_ctx \<Rightarrow> pyexc + pydict" where
  "g5_config c =
     bind_res (py_get (kc_config c) ''groups'' (PDict [])) (\<lambda>g.
     bind_res (py_get g ''G5_cache'' (PDict [])) (\<lambda>b. case b of PDict d \<Rightarrow> Inr d | _ \<Rightarrow> Inl AttributeError))"

definition cache_enabled :: "pydict \<Rightarrow> bool" where
  "cache_enabled cfg \<longleftrightarrow> py_truthy (dget_or cfg ''enabled'' (PBool False))"

definition with_hit :: "string \<Rightarrow> pyval \<Rightarrow> cache_ctx \<Rightarrow> cache_ctx" where
  "with_hit level v c = c\<lparr>kc_hit := True, kc_level := Some level, kc_response := v\<rparr>"

definition l1_key :: "cache_env \<Rightarrow> cache_ctx \<Rightarrow> string" where
  "l1_key env c = cache_key env (apply_model_scope env (normalise env (kc_messages c)) c) (kc_prefix c)"

definition l1_key_param :: string where
  "l1_key_param = ''_g05_l1_cache_key''"

definition look_l1 :: "cache_env \<Rightarrow> pydict \<Rightarrow> cache_ctx \<Rightarrow> cache_state \<Rightarrow> cache_state \<times> cache_ctx" where
  "look_l1 env cfg c st =
     (let c1 = memoise env c; key = l1_key env c1;
          c2 = c1\<lparr>kc_params := dset l1_key_param (PStr key) (kc_params c1)\<rparr>
      in case redis_value env st key of
           Inl _ \<Rightarrow> (st, c2)
         | Inr (Some v) \<Rightarrow> (count_lookup env cfg (kc_prefix c) ''L1'' ''hit'' st, with_hit ''L1'' v c2)
         | Inr None \<Rightarrow> (count_lookup env cfg (kc_prefix c) ''L1'' ''miss'' st, c2))"

definition l2_candidates :: "cache_env \<Rightarrow> cache_state \<Rightarrow> string \<Rightarrow> string \<Rightarrow> l2_row list" where
  "l2_candidates env st tenant scope =
     filter (\<lambda>r. lr_tenant r = tenant \<and> lr_scope r = scope \<and> ke_now env < lr_expires r) (ca_rows st)"

definition default_embedding_model :: string where
  "default_embedding_model = ''BAAI/bge-small-en-v1.5''"

text \<open>What both paths need of the semantic cache: the text, its scope and its vector, or nothing.\<close>

definition semantic_key :: "cache_env \<Rightarrow> pydict \<Rightarrow> cache_ctx \<Rightarrow> pyexc + (string \<times> string \<times> rat list) option" where
  "semantic_key env cfg c =
     (let q = semantic_query_text (request_messages c) in
      if semantic_cache_disabled env cfg c \<or> \<not> ke_database env \<or> q = [] then Inr None
      else bind_res (embed_input_truncates q cfg) (\<lambda>truncates.
             if truncates then Inr None
             else bind_res (ke_embed env (kc_prefix c)
                      (dget_or cfg ''l2_embedding_model'' (PStr default_embedding_model)) q) (\<lambda>e.
                    if ke_database_up env then Inr (Some (q, l2_scope env c q cfg, e)) else Inl RedisError)))"

definition l2_lookup :: "cache_env \<Rightarrow> pydict \<Rightarrow> cache_ctx \<Rightarrow> cache_state \<Rightarrow> pyexc + pyval" where
  "l2_lookup env cfg c st =
     map_sum id (\<lambda>k. case k of
         None \<Rightarrow> PNone
       | Some (q, scope, e) \<Rightarrow>
           (case ke_pick env e (l2_candidates env st (kc_tenant c) scope) of
              Some r \<Rightarrow> if ke_close env e r (dget_or cfg ''l2_similarity_threshold'' (PFloat (95 / 100)))
                        then lr_response r else PNone
            | None \<Rightarrow> PNone))
       (semantic_key env cfg c)"

definition look_l2 :: "cache_env \<Rightarrow> pydict \<Rightarrow> cache_ctx \<Rightarrow> cache_state \<Rightarrow> cache_state \<times> cache_ctx" where
  "look_l2 env cfg c st =
     (case l2_lookup env cfg c st of
        Inl _ \<Rightarrow> (st, c)
      | Inr v \<Rightarrow>
          if py_truthy v then (count_lookup env cfg (kc_prefix c) ''L2'' ''hit'' st, with_hit ''L2'' v c)
          else (count_lookup env cfg (kc_prefix c) ''L2'' ''miss'' st, c))"

definition step_key :: "cache_env \<Rightarrow> cache_ctx \<Rightarrow> string" where
  "step_key env c =
     step_cache_key env (as_text env (dget_or (kc_params c) ''x_step_name'' PNone))
       (as_text env (dget_or (kc_params c) ''x_step_inputs_hash'' (PStr [])))
       (as_text env (dget_or (kc_params c) ''x_template_version'' (PStr []))) (kc_prefix c)"

definition has_step :: "pydict \<Rightarrow> cache_ctx \<Rightarrow> bool" where
  "has_step cfg c \<longleftrightarrow> py_truthy (dget_or cfg ''step_cache_enabled'' (PBool True)) \<and>
     py_truthy (dget_or (kc_params c) ''x_step_name'' PNone)"

definition check_step_cache :: "cache_env \<Rightarrow> pydict \<Rightarrow> cache_ctx \<Rightarrow> cache_state \<Rightarrow> cache_ctx" where
  "check_step_cache env cfg c st =
     (if \<not> has_step cfg c then c
      else (case redis_value env st (step_key env c) of Inr (Some v) \<Rightarrow> with_hit ''STEP'' v c | _ \<Rightarrow> c))"

definition opted_out :: "cache_env \<Rightarrow> cache_ctx \<Rightarrow> bool" where
  "opted_out env c \<longleftrightarrow> py_lower (as_text env (dget_or (kc_params c) ''x_no_cache'' (PStr []))) \<in> {''true'', ''1'', ''yes''}"

definition g05_process_request :: "cache_env \<Rightarrow> cache_ctx \<Rightarrow> cache_state \<Rightarrow> cache_state \<times> (pyexc + cache_ctx)" where
  "g05_process_request env c st =
     (case g5_config c of
        Inl e \<Rightarrow> (st, Inl e)
      | Inr cfg \<Rightarrow>
          if \<not> cache_enabled cfg then (st, Inr c)
          else (let c0 = (if opted_out env c then c\<lparr>kc_no_cache := True\<rparr> else c) in
                if kc_no_cache c0 then (st, Inr c0)
                else (case look_l1 env cfg c0 st of
                        (st1, c1) \<Rightarrow>
                          if kc_hit c1 then (st1, Inr c1)
                          else (case look_l2 env cfg c1 st1 of
                                  (st2, c2) \<Rightarrow> (st2, Inr (if kc_hit c2 then c2 else check_step_cache env cfg c2 st2))))))"

section \<open>The store\<close>

text \<open>An answer without content and without a tool call.\<close>

definition is_empty_answer :: "(pyval \<Rightarrow> string) \<Rightarrow> pyval \<Rightarrow> bool" where
  "is_empty_answer fstr response \<longleftrightarrow>
     (case response of
        PDict d \<Rightarrow> (case dget_or d ''choices'' PNone of
            PList (PDict item # _) \<Rightarrow> (case dget_or item ''message'' PNone of
                PDict m \<Rightarrow>
                  \<not> py_truthy (dget_or m ''tool_calls'' PNone) \<and> \<not> py_truthy (dget_or m ''function_call'' PNone) \<and>
                  (case dget_or m ''content'' PNone of
                     PList xs \<Rightarrow> xs = [] | PNone \<Rightarrow> True | PStr s \<Rightarrow> py_strip s = [] | v \<Rightarrow> py_strip (fstr v) = [])
              | _ \<Rightarrow> True)
          | _ \<Rightarrow> True)
      | _ \<Rightarrow> True)"

definition upsert :: "l2_row \<Rightarrow> l2_row list \<Rightarrow> l2_row list" where
  "upsert r rows =
     (if list_ex (\<lambda>x. lr_hash x = lr_hash r) rows then map (\<lambda>x. if lr_hash x = lr_hash r then r else x) rows
      else rows @ [r])"

definition l2_store :: "cache_env \<Rightarrow> pydict \<Rightarrow> cache_ctx \<Rightarrow> pyval \<Rightarrow> int \<Rightarrow> cache_state \<Rightarrow> cache_state" where
  "l2_store env cfg c response ttl st =
     (case semantic_key env cfg c of
        Inr (Some (q, scope, e)) \<Rightarrow>
          (let hash_prefix = (if scope = [] then kc_tenant c else kc_tenant c @ '':'' @ scope)
           in st\<lparr>ca_rows := upsert \<lparr>lr_hash = ke_sha env (hash_prefix @ '':'' @ q), lr_embedding = e, lr_response = response,
                   lr_expires = ke_now env + of_int ttl, lr_tenant = kc_tenant c, lr_scope = scope\<rparr> (ca_rows st)\<rparr>)
      | _ \<Rightarrow> st)"

definition int_or :: "pydict \<Rightarrow> string \<Rightarrow> int \<Rightarrow> int" where
  "int_or cfg k dflt = (case dget_or cfg k (PInt dflt) of PInt n \<Rightarrow> n | _ \<Rightarrow> 0)"

definition storable :: "cache_env \<Rightarrow> cache_ctx \<Rightarrow> pyval \<Rightarrow> bool" where
  "storable env c response \<longleftrightarrow>
     \<not> kc_hit c \<and> \<not> kc_bypassed c \<and> \<not> kc_no_cache c \<and> \<not> kc_dispatched c \<and> \<not> is_empty_answer (ke_fstr env) response"

definition stored_key :: "cache_env \<Rightarrow> cache_ctx \<Rightarrow> string" where
  "stored_key env c =
     (let recomputed = cache_key env (apply_model_scope env (normalise env (request_messages c)) c) (kc_prefix c)
      in case dget (kc_params c) l1_key_param of Some (PStr k) \<Rightarrow> if k \<noteq> [] then k else recomputed | _ \<Rightarrow> recomputed)"

definition store_response :: "cache_env \<Rightarrow> cache_ctx \<Rightarrow> pyval \<Rightarrow> cache_state \<Rightarrow> cache_state \<times> (pyexc + unit)" where
  "store_response env c response st =
     (if \<not> storable env c response then (st, Inr ())
      else (case g5_config c of
              Inl e \<Rightarrow> (st, Inl e)
            | Inr cfg \<Rightarrow>
                if \<not> cache_enabled cfg then (st, Inr ())
                else (let l1_ttl = ttl_for env st (kc_prefix c) (int_or cfg ''l1_ttl_seconds'' 3600) ''L1'' cfg;
                          l2_ttl = ttl_for env st (kc_prefix c) (int_or cfg ''l2_ttl_seconds'' 86400) ''L2'' cfg;
                          st1 = redis_set env (stored_key env c) response l1_ttl st;
                          st2 = l2_store env cfg c response l2_ttl st1
                      in (if has_step cfg c
                          then redis_set env (step_key env c) response (int_or cfg ''step_cache_ttl_seconds'' 86400) st2
                          else st2, Inr ()))))"

section \<open>A history of requests\<close>

text \<open>
  One request through the proxy: the lookup, the stages after it, and the answer that is stored when the
  lookup did not serve one. \<open>cached_run\<close> is a sequence of them over the shared stores.
\<close>

record cached_request =
  cq_env :: cache_env
  cq_ctx :: cache_ctx
  cq_later :: "cache_ctx \<Rightarrow> cache_ctx"
  cq_answer :: "pyval option"

definition serve_cached :: "cached_request \<Rightarrow> cache_state \<Rightarrow> cache_state" where
  "serve_cached q st =
     (case g05_process_request (cq_env q) (cq_ctx q) st of
        (st1, Inl _) \<Rightarrow> st1
      | (st1, Inr c1) \<Rightarrow>
          (case cq_answer q of
             Some r \<Rightarrow> fst (store_response (cq_env q) (cq_later q c1) r st1)
           | None \<Rightarrow> st1))"

definition cached_run :: "cached_request list \<Rightarrow> cache_state \<Rightarrow> cache_state" where
  "cached_run = fold serve_cached"

text \<open>What the later stages leave alone: the identity of the request, the memos, and a hit.\<close>

definition keeps_cache_fields :: "(cache_ctx \<Rightarrow> cache_ctx) \<Rightarrow> bool" where
  "keeps_cache_fields later \<longleftrightarrow>
     (\<forall>c. kc_tenant (later c) = kc_tenant c \<and> kc_prefix (later c) = kc_prefix c \<and> kc_config (later c) = kc_config c \<and>
          kc_original (later c) = kc_original c \<and> kc_model (later c) = kc_model c \<and>
          (kc_hit c \<longrightarrow> kc_hit (later c)) \<and> (kc_no_cache c \<longrightarrow> kc_no_cache (later c)) \<and>
          (\<forall>k \<in> {''_g05_params_tag'', ''_g05_system_tag'', ''_g05_verbosity_tag'', ''_g05_l1_cache_key'',
                  ''model'', ''x_step_name'', ''x_step_inputs_hash'', ''x_template_version''}.
             dget (kc_params (later c)) k = dget (kc_params c) k))"

definition no_memos :: "cache_ctx \<Rightarrow> bool" where
  "no_memos c \<longleftrightarrow> (\<forall>k \<in> {''_g05_params_tag'', ''_g05_system_tag'', ''_g05_verbosity_tag'', ''_g05_l1_cache_key''}.
     dget (kc_params c) k = None)"

lemma memoise_fields [simp]:
  "kc_messages (memoise env c) = kc_messages c" "kc_original (memoise env c) = kc_original c"
  "kc_config (memoise env c) = kc_config c" "kc_model (memoise env c) = kc_model c" "kc_tenant (memoise env c) = kc_tenant c"
  "kc_prefix (memoise env c) = kc_prefix c" "kc_hit (memoise env c) = kc_hit c" "kc_no_cache (memoise env c) = kc_no_cache c"
  by (simp_all add: memoise_def Let_def)

definition fixed_keys :: "string list" where
  "fixed_keys = [''_g05_params_tag'', ''_g05_system_tag'', ''_g05_verbosity_tag'', ''_g05_l1_cache_key'']"

lemma memoise_params: "k \<notin> set fixed_keys \<Longrightarrow> dget (kc_params (memoise env c)) k = dget (kc_params c) k"
  by (simp add: memoise_def Let_def dget_dset fixed_keys_def)

text \<open>
  The tags of a request that carries no memo yet, and the source text of its key.
\<close>

lemma look_l1_hit:
  assumes "look_l1 env cfg c st = (st', c')" and "\<not> kc_hit c" and "kc_hit c'"
  shows "\<exists>e. dget (ca_redis st) (l1_key env (memoise env c)) = Some (kc_response c', e) \<and> ke_now env < e \<and>
    kc_level c' = Some ''L1''"
  using assms
  by (auto simp: look_l1_def Let_def redis_value_def with_hit_def split: if_splits option.splits prod.splits)

lemma look_l1_state: "ca_redis (fst (look_l1 env cfg c st)) = ca_redis st \<and> ca_rows (fst (look_l1 env cfg c st)) = ca_rows st"
  by (auto simp: look_l1_def Let_def count_lookup_def redis_value_def split: option.split prod.split)

lemma look_l2_state: "ca_redis (fst (look_l2 env cfg c st)) = ca_redis st \<and> ca_rows (fst (look_l2 env cfg c st)) = ca_rows st"
  by (auto simp: look_l2_def count_lookup_def Let_def split: sum.split)

lemma process_state:
  "ca_redis (fst (g05_process_request env c st)) = ca_redis st \<and> ca_rows (fst (g05_process_request env c st)) = ca_rows st"
  using look_l1_state[of env] look_l2_state[of env]
  by (simp add: g05_process_request_def Let_def split: sum.split prod.split) (metis fst_conv)

section \<open>Where a stored answer comes from\<close>

definition same_functions :: "cache_env \<Rightarrow> cache_env \<Rightarrow> bool" where
  "same_functions a b \<longleftrightarrow> ke_sha a = ke_sha b \<and> ke_dumps a = ke_dumps b \<and> ke_fstr a = ke_fstr b"

definition key_source :: "cache_env \<Rightarrow> cache_ctx \<Rightarrow> string" where
  "key_source env c = apply_model_scope env (normalise env (kc_messages c)) (memoise env c)"

lemma l1_key_source: "l1_key env (memoise env c) = kc_prefix c @ ''tok_opt:l1:'' @ ke_sha env (key_source env c)"
  by (simp add: l1_key_def cache_key_def key_source_def)

lemma step_key_cong:
  assumes "\<forall>k \<in> {''x_step_name'', ''x_step_inputs_hash'', ''x_template_version''}. dget (kc_params c') k = dget (kc_params c) k"
    and "kc_prefix c' = kc_prefix c"
  shows "step_key env c' = step_key env c" "has_step cfg c' = has_step cfg c"
  using assms by (simp_all add: step_key_def has_step_def dget_or_def)

lemma g5_config_cong: "kc_config c' = kc_config c \<Longrightarrow> g5_config c' = g5_config c"
  by (simp add: g5_config_def)

text \<open>After a lookup that served nothing the context carries its key.\<close>

lemma miss_context:
  assumes "g05_process_request env c st = (st1, Inr c1)" and "\<not> kc_hit c1" and "\<not> kc_no_cache c1"
    and "g5_config c = Inr cfg" and "cache_enabled cfg"
  shows "c1 = (memoise env c)\<lparr>kc_params := dset l1_key_param (PStr (l1_key env (memoise env c))) (kc_params (memoise env c))\<rparr>"
proof -
  have o: "\<not> opted_out env c" "\<not> kc_no_cache c"
    using assms by (auto simp: g05_process_request_def Let_def split: if_splits prod.splits)
  obtain s1 d1 where l1: "look_l1 env cfg c st = (s1, d1)" by fastforce
  obtain s2 d2 where l2: "look_l2 env cfg d1 s1 = (s2, d2)" by fastforce
  have c1: "c1 = (if kc_hit d1 then d1 else if kc_hit d2 then d2 else check_step_cache env cfg d2 s2)"
    using assms o l1 l2 by (auto simp: g05_process_request_def Let_def)
  then have h: "\<not> kc_hit d1" "\<not> kc_hit d2" "c1 = check_step_cache env cfg d2 s2" using assms(2) by (auto split: if_splits)
  then have "c1 = d2" using assms(2)
    by (auto simp: check_step_cache_def with_hit_def split: if_splits sum.splits option.splits)
  moreover have "d2 = d1" using l2 h(2) by (auto simp: look_l2_def with_hit_def split: if_splits sum.splits)
  moreover have "d1 = (memoise env c)\<lparr>kc_params := dset l1_key_param (PStr (l1_key env (memoise env c))) (kc_params (memoise env c))\<rparr>"
    using l1 h(1) by (auto simp: look_l1_def Let_def with_hit_def split: sum.splits option.splits)
  ultimately show ?thesis by simp
qed

definition memo_keys :: "string list" where
  "memo_keys = [''_g05_params_tag'', ''_g05_system_tag'', ''_g05_verbosity_tag'']"

lemma memo_present [simp]: "dget (kc_params c) k = Some (PStr s) \<Longrightarrow> memo_tag k x c = s"
  by (simp add: memo_tag_def)

lemma memoise_present: "k \<in> set memo_keys \<Longrightarrow> \<exists>s. dget (kc_params (memoise env c)) k = Some (PStr s)"
  by (auto simp: memoise_def Let_def dget_dset memo_keys_def)

text \<open>Two contexts with the same memos, model and configuration have the same tags.\<close>

lemma tags_cong:
  assumes "\<forall>k \<in> set (''model'' # memo_keys). dget (kc_params c') k = dget (kc_params (memoise env c)) k"
    and "kc_config c' = kc_config c" and "kc_model c' = kc_model c" and "kc_tenant c' = kc_tenant c"
  shows "params_scope_tag env c' = params_scope_tag env (memoise env c)"
    "system_scope_tag env c' = system_scope_tag env (memoise env c)"
    "verbosity_scope_tag env c' = verbosity_scope_tag env (memoise env c)"
    "model_scope_tag env c' = model_scope_tag env (memoise env c)"
proof -
  have m: "memo_tag k x c' = memo_tag k y (memoise env c)" if "k \<in> set memo_keys" for k x y
    using memoise_present[OF that, of env c] assms(1) that by (auto simp: memo_tag_def)
  show "params_scope_tag env c' = params_scope_tag env (memoise env c)"
    "system_scope_tag env c' = system_scope_tag env (memoise env c)"
    "verbosity_scope_tag env c' = verbosity_scope_tag env (memoise env c)"
    by (simp_all add: params_scope_tag_def system_scope_tag_def verbosity_scope_tag_def m memo_keys_def)
  show "model_scope_tag env c' = model_scope_tag env (memoise env c)"
    using assms by (simp add: model_scope_tag_def resolve_cache_scope_def dget_or_def)
qed

lemma l2_scope_cong:
  assumes "\<forall>k \<in> set (''model'' # memo_keys). dget (kc_params c') k = dget (kc_params (memoise env c)) k"
    and "kc_config c' = kc_config c" and "kc_model c' = kc_model c" and "kc_tenant c' = kc_tenant c"
  shows "l2_scope env c' query_text cfg = l2_scope env (memoise env c) query_text cfg"
  by (simp add: l2_scope_def scope_value_def tags_cong[OF assms])

lemma semantic_key_parts:
  "semantic_key env cfg c = Inr (Some (t, scope, e)) \<Longrightarrow>
   t = semantic_query_text (request_messages c) \<and> scope = l2_scope env c t cfg \<and> \<not> semantic_cache_disabled env cfg c"
  by (auto simp: semantic_key_def Let_def bind_res_Inr split: if_splits)

text \<open>What a request stores: its answer, under its own key, in its own scope.\<close>

definition semantic_scope :: "cache_env \<Rightarrow> cache_ctx \<Rightarrow> string" where
  "semantic_scope env c =
     (case g5_config c of
        Inr cfg \<Rightarrow> l2_scope env (memoise env c) (semantic_query_text (request_messages c)) cfg
      | Inl _ \<Rightarrow> [])"

definition stored_by :: "cached_request \<Rightarrow> string \<Rightarrow> pyval \<Rightarrow> bool" where
  "stored_by q k v \<longleftrightarrow> cq_answer q = Some v \<and>
     (k = l1_key (cq_env q) (memoise (cq_env q) (cq_ctx q)) \<or> k = step_key (cq_env q) (cq_ctx q))"

definition row_of :: "cached_request \<Rightarrow> l2_row \<Rightarrow> bool" where
  "row_of q r \<longleftrightarrow> cq_answer q = Some (lr_response r) \<and> lr_tenant r = kc_tenant (cq_ctx q) \<and>
     lr_scope r = semantic_scope (cq_env q) (cq_ctx q)"

definition well_kept :: "cached_request \<Rightarrow> bool" where
  "well_kept q \<longleftrightarrow> keeps_cache_fields (cq_later q) \<and> kc_original (cq_ctx q) \<noteq> []"

definition provenance :: "cached_request list \<Rightarrow> cache_state \<Rightarrow> bool" where
  "provenance qs st \<longleftrightarrow>
     (\<forall>k v e. dget (ca_redis st) k = Some (v, e) \<longrightarrow> (\<exists>q \<in> set qs. stored_by q k v)) \<and>
     (\<forall>r \<in> set (ca_rows st). \<exists>q \<in> set qs. row_of q r)"

lemma provenance_mono: "provenance qs st \<Longrightarrow> set qs \<subseteq> set qs' \<Longrightarrow> provenance qs' st"
  unfolding provenance_def by blast

lemma provenance_state: "ca_redis st' = ca_redis st \<Longrightarrow> ca_rows st' = ca_rows st \<Longrightarrow> provenance qs st' = provenance qs st"
  by (simp add: provenance_def)

lemma provenance_redis_set:
  "provenance qs st \<Longrightarrow> q \<in> set qs \<Longrightarrow> stored_by q k v \<Longrightarrow> provenance qs (redis_set env k v ttl st)"
  by (auto simp: provenance_def redis_set_def dget_dset)

lemma set_upsert: "set (upsert r rows) \<subseteq> insert r (set rows)"
  by (auto simp: upsert_def)

lemma provenance_upsert:
  assumes "provenance qs st" and "q \<in> set qs" and "row_of q r"
  shows "provenance qs (st\<lparr>ca_rows := upsert r (ca_rows st)\<rparr>)"
proof -
  have "\<exists>q \<in> set qs. row_of q x" if "x \<in> set (upsert r (ca_rows st))" for x
    using that set_upsert[of r "ca_rows st"] assms by (auto simp: provenance_def)
  then show ?thesis using assms(1) by (simp add: provenance_def)
qed

lemma provenance_l2:
  assumes "provenance qs st" and "q \<in> set qs"
    and "\<And>t scope e. semantic_key env cfg c = Inr (Some (t, scope, e)) \<Longrightarrow>
           cq_answer q = Some v \<and> kc_tenant c = kc_tenant (cq_ctx q) \<and> scope = semantic_scope (cq_env q) (cq_ctx q)"
  shows "provenance qs (l2_store env cfg c v ttl st)"
proof (cases "\<exists>t scope e. semantic_key env cfg c = Inr (Some (t, scope, e))")
  case True
  then obtain t scope e where k: "semantic_key env cfg c = Inr (Some (t, scope, e))" by blast
  show ?thesis
    using assms(3)[OF k] provenance_upsert[OF assms(1,2)] by (simp add: l2_store_def k Let_def row_of_def)
next
  case False
  then have "l2_store env cfg c v ttl st = st" by (auto simp: l2_store_def split: sum.split option.split)
  then show ?thesis using assms(1) by simp
qed

lemma provenance_serve:
  assumes "provenance qs st" and "q \<in> set qs" and "well_kept q"
  shows "provenance qs (serve_cached q st)"
proof -
  define env where "env = cq_env q"
  define c where "c = cq_ctx q"
  obtain st1 r where p: "g05_process_request env c st = (st1, r)" by fastforce
  have st1: "provenance qs st1"
    using assms(1) process_state[of env c st] p provenance_state[of st1 st qs] by simp
  show ?thesis
  proof (cases "\<exists>c1 v cfg. r = Inr c1 \<and> cq_answer q = Some v \<and> storable env (cq_later q c1) v \<and>
      g5_config (cq_later q c1) = Inr cfg \<and> cache_enabled cfg")
    case False
    then have "serve_cached q st = st1"
      using p by (auto simp: serve_cached_def env_def[symmetric] c_def[symmetric] store_response_def
          split: sum.split option.split)
    then show ?thesis using st1 by simp
  next
    case True
    then obtain c1 v cfg where r: "r = Inr c1" and v: "cq_answer q = Some v" and ok: "storable env (cq_later q c1) v"
      and cfg: "g5_config (cq_later q c1) = Inr cfg" "cache_enabled cfg" by blast
    note k = assms(3)[unfolded well_kept_def keeps_cache_fields_def]
    have kept: "kc_config c1 = kc_config c"
      using p r by (auto simp: g05_process_request_def Let_def look_l1_def look_l2_def check_step_cache_def with_hit_def
          split: if_splits sum.splits option.splits prod.splits)
    have g: "g5_config c = Inr cfg" using cfg(1) k kept g5_config_cong by metis
    have miss: "\<not> kc_hit c1" "\<not> kc_no_cache c1" using ok k by (auto simp: storable_def)
    have c1: "c1 = (memoise env c)\<lparr>kc_params := dset l1_key_param (PStr (l1_key env (memoise env c))) (kc_params (memoise env c))\<rparr>"
      using miss_context[of env c st st1 c1 cfg] p r miss g cfg(2) by simp
    let ?d = "cq_later q c1"
    have d: "kc_prefix ?d = kc_prefix c" "kc_tenant ?d = kc_tenant c" "kc_config ?d = kc_config c" "kc_model ?d = kc_model c"
        "kc_original ?d = kc_original c"
      using k by (simp_all add: c1)
    have p: "dget (kc_params ?d) x = dget (kc_params (memoise env c)) x" if "x \<in> set (''model'' # memo_keys)" for x
      using k that by (auto simp: c1 memo_keys_def dget_dset l1_key_param_def)
    have key: "stored_key env ?d = l1_key env (memoise env c)"
      using k by (simp add: c1 stored_key_def dget_dset l1_key_param_def l1_key_def cache_key_def Let_def)
    have step: "step_key env ?d = step_key env c"
      by (rule step_key_cong)
        (use k d(1) in \<open>auto simp: c1 dget_dset l1_key_param_def memoise_params fixed_keys_def\<close>)
    have q: "stored_by q (l1_key env (memoise env c)) v" "stored_by q (step_key env c) v"
      using v by (simp_all add: stored_by_def env_def c_def)
    have l2: "provenance qs (l2_store env cfg ?d v ttl s)" if "provenance qs s" for ttl s
    proof (rule provenance_l2[OF that assms(2)])
      fix t scope e assume "semantic_key env cfg ?d = Inr (Some (t, scope, e))"
      from semantic_key_parts[OF this] show "cq_answer q = Some v \<and> kc_tenant ?d = kc_tenant (cq_ctx q) \<and>
          scope = semantic_scope (cq_env q) (cq_ctx q)"
        using v d g l2_scope_cong[of ?d env c t cfg] p assms(3)
        by (auto simp: semantic_scope_def env_def c_def request_messages_def well_kept_def)
    qed
    have "provenance qs (fst (store_response env ?d v st1))"
      using ok cfg l2 q st1 assms(2)
      by (simp add: store_response_def Let_def key step provenance_redis_set)
    then show ?thesis using \<open>g05_process_request env c st = (st1, r)\<close> r v by (simp add: serve_cached_def env_def c_def)
  qed
qed

definition empty_cache :: cache_state where
  "empty_cache = \<lparr>ca_redis = [], ca_stats = [], ca_rows = []\<rparr>"

lemma provenance_run:
  assumes "list_all well_kept qs"
  shows "provenance qs (cached_run qs empty_cache)"
  using assms
proof (induction qs rule: rev_induct)
  case Nil
  then show ?case by (simp add: cached_run_def provenance_def empty_cache_def)
next
  case (snoc q qs)
  then have "provenance (qs @ [q]) (cached_run qs empty_cache)" by (auto intro: provenance_mono)
  then show ?case using provenance_serve[of "qs @ [q]" _ q] snoc.prems by (simp add: cached_run_def)
qed

section \<open>What a key tells apart\<close>

lemma tagged_Nil_inj:
  assumes "tagged n [] r = tagged n v' r'" and "\<not> prefix (n @ ''='') r"
  shows "v' = [] \<and> r = r'"
proof (rule ccontr)
  assume "\<not> (v' = [] \<and> r = r')"
  then have "v' \<noteq> []" using assms(1) by (auto simp: tagged_def)
  then have "r = (n @ ''='') @ v' @ CHR 0x0A # r'" using assms(1) by (simp add: tagged_def)
  then show False using assms(2) by (metis prefixI)
qed

lemma tagged_inj:
  assumes "tagged n v r = tagged n v' r'" and "CHR 0x0A \<notin> set v" and "CHR 0x0A \<notin> set v'"
    and "\<not> prefix (n @ ''='') r" and "\<not> prefix (n @ ''='') r'"
  shows "v = v' \<and> r = r'"
proof (cases "v = [] \<or> v' = []")
  case True
  then show ?thesis
  proof
    assume "v = []"
    then show ?thesis using tagged_Nil_inj[of n r v' r'] assms(1,4) by simp
  next
    assume "v' = []"
    then show ?thesis using tagged_Nil_inj[of n r' v r] assms(1,5) by simp
  qed
next
  case False
  then have eq: "v @ CHR 0x0A # r = v' @ CHR 0x0A # r'" using assms(1) by (simp add: tagged_def)
  show ?thesis by (rule append_sep_inject[OF assms(2,3) eq])
qed

lemma tagged_last_inj:
  assumes "tagged n v r = tagged n v' r'" and "CHR 0x0A \<notin> set r" and "CHR 0x0A \<notin> set r'"
    and "\<not> prefix (n @ ''='') r" and "\<not> prefix (n @ ''='') r'"
  shows "v = v' \<and> r = r'"
proof (cases "v = [] \<or> v' = []")
  case True
  then show ?thesis
  proof
    assume "v = []"
    then show ?thesis using tagged_Nil_inj[of n r v' r'] assms(1,4) by simp
  next
    assume "v' = []"
    then show ?thesis using tagged_Nil_inj[of n r' v r] assms(1,5) by simp
  qed
next
  case False
  then have "rev (v @ CHR 0x0A # r) = rev (v' @ CHR 0x0A # r')" using assms(1) by (simp add: tagged_def)
  then have "rev r @ CHR 0x0A # rev v = rev r' @ CHR 0x0A # rev v'" by simp
  then show ?thesis using assms(2,3) append_sep_inject[of "CHR 0x0A" "rev r" "rev r'" "rev v" "rev v'"] by simp
qed

text \<open>A text that starts with a name, up to its first \<open>:\<close> or \<open>=\<close>.\<close>

definition name_char :: "char \<Rightarrow> bool" where
  "name_char ch \<longleftrightarrow> ch \<noteq> CHR '':'' \<and> ch \<noteq> CHR ''='' \<and> ch \<noteq> CHR 0x0A"

definition name_like :: "string \<Rightarrow> bool" where
  "name_like n \<longleftrightarrow> list_all name_char n"

lemma takeWhile_named: "name_like n \<Longrightarrow> \<not> name_char ch \<Longrightarrow> takeWhile name_char (n @ ch # s) = n"
  by (simp add: name_like_def list_all_iff takeWhile_append2)

lemma dropWhile_named: "name_like n \<Longrightarrow> \<not> name_char ch \<Longrightarrow> dropWhile name_char (n @ ch # s) = ch # s"
  by (simp add: name_like_def list_all_iff dropWhile_append2)

lemma not_tag_prefix:
  assumes "name_like n" and "name_like m" and "n \<noteq> m \<or> ch \<noteq> CHR ''=''" and "\<not> name_char ch"
  shows "\<not> prefix (n @ ''='') (m @ ch # s)"
proof
  assume "prefix (n @ ''='') (m @ ch # s)"
  then obtain t where t: "m @ ch # s = n @ CHR ''='' # t" by (auto simp: prefix_def)
  have e: "\<not> name_char (CHR ''='')" by (simp add: name_char_def)
  have "m = n" using takeWhile_named[OF assms(2,4), of s] takeWhile_named[OF assms(1) e, of t] t by simp
  moreover have "ch = CHR ''=''" using dropWhile_named[OF assms(2,4), of s] dropWhile_named[OF assms(1) e, of t] t by simp
  ultimately show False using assms(3) by simp
qed

lemma not_prefix_tagged:
  assumes "name_like n" and "name_like m" and "n \<noteq> m" and "\<not> prefix (n @ ''='') r"
  shows "\<not> prefix (n @ ''='') (tagged m v r)"
  using not_tag_prefix[OF assms(1,2), of "CHR ''=''" "v @ CHR 0x0A # r"] assms(3,4)
  by (simp add: tagged_def name_char_def)

lemma named_tags: "name_like ''params''" "name_like ''system''" "name_like ''verbosity''" "name_like ''model''"
  by (simp_all add: name_like_def name_char_def)

lemma collapse_space: "ch \<in> set (collapse b s) \<Longrightarrow> ch = CHR '' '' \<or> \<not> is_space ch"
  by (induction b s rule: collapse.induct) (auto split: if_splits)

lemma lower_newline: "lower_char ch = CHR 0x0A \<Longrightarrow> ch = CHR 0x0A"
proof (rule ccontr)
  assume a: "lower_char ch = CHR 0x0A" and n: "ch \<noteq> CHR 0x0A"
  then have c: "lower_char ch = char_of (of_char ch + 32 :: nat)" "of_char ch + 32 < (256 :: nat)"
    by (auto simp: lower_char_def Let_def split: if_splits)
  have "(of_char (lower_char ch) :: nat) = of_char ch + 32" unfolding c(1) using c(2) by (simp only: of_char_of mod_less)
  then show False using a by simp
qed

lemma squeezed_newline: "CHR 0x0A \<notin> set (py_lower (squeezed s))"
proof
  assume "CHR 0x0A \<in> set (py_lower (squeezed s))"
  then obtain ch where "ch \<in> set (squeezed s)" "lower_char ch = CHR 0x0A" by (auto simp: py_lower_def)
  then have "CHR 0x0A \<in> set (squeezed s)" using lower_newline by blast
  then have "CHR 0x0A \<in> set (collapse False s)" using set_strip_with[of is_space] by (simp only: squeezed_def py_strip_def) blast
  then show False by (auto dest!: collapse_space simp: is_space_def)
qed

text \<open>What the hash inputs rest on: JSON text, \<open>repr\<close> and hex digests hold no line feed.\<close>

definition escaping :: "cache_env \<Rightarrow> bool" where
  "escaping env \<longleftrightarrow> (\<forall>v. CHR 0x0A \<notin> set (ke_fstr env v)) \<and> (\<forall>v. CHR 0x0A \<notin> set (ke_dumps env v)) \<and>
     (\<forall>s. CHR 0x0A \<notin> set (ke_sha env s))"

definition plain_request :: "cache_env \<Rightarrow> cache_ctx \<Rightarrow> bool" where
  "plain_request env c \<longleftrightarrow> no_memos c \<and> kc_messages c \<noteq> [] \<and> CHR 0x0A \<notin> set (ke_verbosity env c) \<and>
     (\<forall>m \<in> set (kc_messages c). \<exists>role. dget m ''role'' = Some (PStr role) \<and> name_like role)"

lemma turn_text_starts:
  assumes "dget m ''role'' = Some (PStr role)"
  shows "\<exists>s. turn_text env m = role @ CHR '':'' # s"
  using assms by (simp add: turn_text_def Let_def as_text_def dget_or_def)

lemma turn_text_newline:
  assumes "escaping env" and "dget m ''role'' = Some (PStr role)" and "name_like role"
  shows "CHR 0x0A \<notin> set (turn_text env m)"
proof -
  have "CHR 0x0A \<notin> set role" using assms(3) by (auto simp: name_like_def list_all_iff name_char_def)
  moreover have "CHR 0x0A \<notin> set (case v of PStr s \<Rightarrow> py_lower (squeezed s) | v \<Rightarrow> ke_fstr env v)" for v
    using assms(1) squeezed_newline by (cases v) (simp_all add: escaping_def)
  ultimately show ?thesis
    using assms(1,2) by (simp add: turn_text_def Let_def as_text_def dget_or_def escaping_def)
qed

lemma set_joined: "set (joined sep parts) \<subseteq> set sep \<union> \<Union> (set (map set parts))"
  by (cases parts) (auto simp: joined_def)

lemma normalise_plain:
  assumes "escaping env" and "plain_request env c"
  shows "CHR 0x0A \<notin> set (normalise env (kc_messages c))"
    and "name_like n \<Longrightarrow> \<not> prefix (n @ ''='') (normalise env (kc_messages c))"
proof -
  have roles: "\<exists>role. dget m ''role'' = Some (PStr role) \<and> name_like role" if "m \<in> set (kc_messages c)" for m
    using assms(2) that by (simp add: plain_request_def)
  have "CHR 0x0A \<notin> set (turn_text env m)" if "m \<in> set (kc_messages c)" for m
    using roles[OF that] turn_text_newline[OF assms(1)] by blast
  then show "CHR 0x0A \<notin> set (normalise env (kc_messages c))"
    using set_joined[of "''|''" "map (turn_text env) (kc_messages c)"] by (auto simp: normalise_def)
  obtain m ms where ms: "kc_messages c = m # ms" using assms(2) by (auto simp: plain_request_def neq_Nil_conv)
  obtain role where r: "dget m ''role'' = Some (PStr role)" "name_like role" using roles[of m] ms by auto
  obtain s where "turn_text env m = role @ CHR '':'' # s" using turn_text_starts[OF r(1)] by blast
  then obtain t where t: "normalise env (kc_messages c) = role @ CHR '':'' # t"
    by (simp add: normalise_def ms joined_def)
  show "\<not> prefix (n @ ''='') (normalise env (kc_messages c))" if "name_like n"
    using not_tag_prefix[OF that r(2), of "CHR '':''" t] by (simp add: t name_char_def)
qed

lemma chosen_dset: "k \<notin> set answer_params \<Longrightarrow> chosen_params (dset k v d) = chosen_params d"
  by (induction d) (auto simp: chosen_params_def)

lemma memo_not_answer: "k \<in> set fixed_keys \<Longrightarrow> k \<notin> set answer_params"
  by (auto simp: fixed_keys_def answer_params_def)

lemma memo_absent: "dget (kc_params c) k = None \<Longrightarrow> memo_tag k x c = x"
  by (simp add: memo_tag_def)

text \<open>The tags of a request that carries no memo.\<close>

definition system_digest :: "cache_env \<Rightarrow> cache_ctx \<Rightarrow> string" where
  "system_digest env c =
     (if py_in ''+system'' (resolve_cache_scope env c)
      then take 12 (ke_sha env (squeezed (joined [CHR 0x0A] (concat (map system_texts (kc_messages c)))))) else [])"

lemma scope_params [simp]: "resolve_cache_scope env (c\<lparr>kc_params := p\<rparr>) = resolve_cache_scope env c"
  by (simp add: resolve_cache_scope_def)

lemma memoised_tags:
  assumes "no_memos c"
  shows "params_scope_tag env (memoise env c) = params_digest env (kc_params c)"
    "system_scope_tag env (memoise env c) = system_digest env c"
    "verbosity_scope_tag env (memoise env c) = ke_verbosity env c"
    "model_scope_tag env (memoise env c) = model_scope_tag env c"
proof -
  have n: "dget (kc_params c) k = None" if "k \<in> set fixed_keys" for k
    using assms that by (auto simp: no_memos_def fixed_keys_def)
  have ch: "chosen_params (dset k v d) = chosen_params d" if "k \<in> set fixed_keys" for k v d
    using chosen_dset memo_not_answer[OF that] by simp
  show "params_scope_tag env (memoise env c) = params_digest env (kc_params c)"
    by (simp add: params_scope_tag_def memoise_def Let_def memo_tag_def dget_dset n fixed_keys_def params_digest_def ch)
  show "system_scope_tag env (memoise env c) = system_digest env c"
    by (simp add: system_scope_tag_def memoise_def Let_def memo_tag_def dget_dset n fixed_keys_def system_digest_def)
  show "verbosity_scope_tag env (memoise env c) = ke_verbosity env c"
    by (simp add: verbosity_scope_tag_def memoise_def Let_def memo_tag_def dget_dset n fixed_keys_def)
  show "model_scope_tag env (memoise env c) = model_scope_tag env c"
    by (simp add: model_scope_tag_def memoise_def Let_def dget_dset dget_or_def)
qed

lemma digest_newline: "escaping env \<Longrightarrow> CHR 0x0A \<notin> set (params_digest env p)" "escaping env \<Longrightarrow> CHR 0x0A \<notin> set (system_digest env c)"
  using set_take_subset by (auto simp: escaping_def params_digest_def system_digest_def dest: in_set_takeD)

lemma same_functions_cong:
  assumes "same_functions env env'"
  shows "normalise env' = normalise env" "params_digest env' = params_digest env" "system_digest env' = system_digest env"
    "model_scope_tag env' = model_scope_tag env" "escaping env' = escaping env"
proof -
  have f: "ke_sha env' = ke_sha env" "ke_dumps env' = ke_dumps env" "ke_fstr env' = ke_fstr env"
    using assms by (simp_all add: same_functions_def)
  have "as_text env' = as_text env"
  proof
    fix x
    show "as_text env' x = as_text env x" by (cases x) (simp_all add: as_text_def f(3))
  qed
  note t = f this
  have u: "turn_text env' = turn_text env" by (rule ext) (simp only: turn_text_def t)
  have r: "resolve_cache_scope env' = resolve_cache_scope env" by (rule ext) (simp add: resolve_cache_scope_def t)
  show "normalise env' = normalise env" by (rule ext) (simp add: normalise_def u)
  show "params_digest env' = params_digest env" by (rule ext) (simp add: params_digest_def t)
  show "system_digest env' = system_digest env" by (rule ext) (simp add: system_digest_def t r)
  show "model_scope_tag env' = model_scope_tag env" by (rule ext) (simp only: model_scope_tag_def t r)
  show "escaping env' = escaping env" by (simp add: escaping_def t)
qed

lemma source_unfold:
  "no_memos c \<Longrightarrow> key_source env c =
     tagged ''params'' (params_digest env (kc_params c)) (tagged ''system'' (system_digest env c)
       (tagged ''verbosity'' (ke_verbosity env c) (tagged ''model'' (model_scope_tag env c) (normalise env (kc_messages c)))))"
  by (simp add: key_source_def apply_model_scope_def memoised_tags)

lemma source_tags:
  assumes "escaping env" and "plain_request env c" and "plain_request env' d" and "same_functions env env'"
    and "key_source env c = key_source env' d"
  shows "normalise env (kc_messages c) = normalise env (kc_messages d) \<and>
    params_digest env (kc_params c) = params_digest env (kc_params d) \<and>
    system_digest env c = system_digest env d \<and> model_scope_tag env c = model_scope_tag env d"
proof -
  note cong = same_functions_cong[OF assms(4)]
  let ?nc = "normalise env (kc_messages c)" and ?nd = "normalise env (kc_messages d)"
  have nl: "CHR 0x0A \<notin> set ?nc" "CHR 0x0A \<notin> set ?nd"
    using normalise_plain(1)[OF assms(1,2)] normalise_plain(1)[of env' d] assms(1,3) cong by simp_all
  have np: "\<not> prefix (n @ ''='') ?nc" "\<not> prefix (n @ ''='') ?nd" if "name_like n" for n
    using normalise_plain(2)[OF assms(1,2) that] normalise_plain(2)[of env' d n] assms(1,3) cong that by simp_all
  have no: "no_memos c" "no_memos d" "CHR 0x0A \<notin> set (ke_verbosity env c)" "CHR 0x0A \<notin> set (ke_verbosity env' d)"
    using assms(2,3) by (simp_all add: plain_request_def)
  have eq: "tagged ''params'' (params_digest env (kc_params c)) (tagged ''system'' (system_digest env c)
       (tagged ''verbosity'' (ke_verbosity env c) (tagged ''model'' (model_scope_tag env c) ?nc))) =
     tagged ''params'' (params_digest env (kc_params d)) (tagged ''system'' (system_digest env d)
       (tagged ''verbosity'' (ke_verbosity env' d) (tagged ''model'' (model_scope_tag env d) ?nd)))"
    using assms(5) source_unfold[OF no(1), of env] source_unfold[OF no(2), of env'] cong by simp
  have 1: "params_digest env (kc_params c) = params_digest env (kc_params d) \<and>
     tagged ''system'' (system_digest env c) (tagged ''verbosity'' (ke_verbosity env c) (tagged ''model'' (model_scope_tag env c) ?nc)) =
     tagged ''system'' (system_digest env d) (tagged ''verbosity'' (ke_verbosity env' d) (tagged ''model'' (model_scope_tag env d) ?nd))"
    by (rule tagged_inj[OF eq]; intro digest_newline[OF assms(1)] not_prefix_tagged np named_tags; simp)
  have 2: "system_digest env c = system_digest env d \<and>
     tagged ''verbosity'' (ke_verbosity env c) (tagged ''model'' (model_scope_tag env c) ?nc) =
     tagged ''verbosity'' (ke_verbosity env' d) (tagged ''model'' (model_scope_tag env d) ?nd)"
    by (rule tagged_inj[OF conjunct2[OF 1]]; intro digest_newline[OF assms(1)] not_prefix_tagged np named_tags; simp)
  have 3: "ke_verbosity env c = ke_verbosity env' d \<and>
     tagged ''model'' (model_scope_tag env c) ?nc = tagged ''model'' (model_scope_tag env d) ?nd"
    by (rule tagged_inj[OF conjunct2[OF 2] no(3,4)]; intro not_prefix_tagged np named_tags; simp)
  have "model_scope_tag env c = model_scope_tag env d \<and> ?nc = ?nd"
    by (rule tagged_last_inj[OF conjunct2[OF 3] nl]) (intro np named_tags)+
  then show ?thesis using 1 2 by simp
qed

section \<open>Keys and tenants\<close>

definition namespace :: "string \<Rightarrow> bool" where
  "namespace p \<longleftrightarrow> (\<exists>t. p = redis_prefix_of (sanitise_tenant_id t))"

lemma namespace_cases:
  assumes "namespace p"
  obtains "p = []" | id where "p = ''t:'' @ id @ '':''" "CHR '':'' \<notin> set id"
  using assms safe_id_no_colon[OF sanitise_safe] by (auto simp: namespace_def redis_prefix_of_def split: if_splits)

lemma namespaced_key_inj:
  assumes "namespace p" and "namespace p'" and "p @ ''tok_opt:'' @ x = p' @ ''tok_opt:'' @ y"
  shows "p = p' \<and> x = y"
  using assms(1)
proof (cases rule: namespace_cases)
  case 1
  note p = this
  from assms(2) show ?thesis by (cases rule: namespace_cases) (use assms(3) p in auto)
next
  case (2 i)
  note p = this
  from assms(2) show ?thesis
  proof (cases rule: namespace_cases)
    case 1
    then show ?thesis using assms(3) p by auto
  next
    case (2 j)
    then have "i @ CHR '':'' # ''tok_opt:'' @ x = j @ CHR '':'' # ''tok_opt:'' @ y" using assms(3) p(1) by simp
    from append_sep_inject[OF p(2) 2(2) this] show ?thesis using p(1) 2(1) by simp
  qed
qed

lemma l1_and_step_keys:
  assumes "namespace (kc_prefix c)" and "namespace (kc_prefix d)"
  shows "l1_key env (memoise env c) \<noteq> step_key env' d"
    "l1_key env (memoise env c) = l1_key env' (memoise env' d) \<Longrightarrow>
       kc_prefix c = kc_prefix d \<and> ke_sha env (key_source env c) = ke_sha env' (key_source env' d)"
proof -
  show "l1_key env (memoise env c) \<noteq> step_key env' d"
  proof
    assume "l1_key env (memoise env c) = step_key env' d"
    then have "kc_prefix c @ ''tok_opt:'' @ ''l1:'' @ ke_sha env (key_source env c) =
        kc_prefix d @ ''tok_opt:'' @ ''step:'' @ ke_sha env' (as_text env' (dget_or (kc_params d) ''x_step_name'' PNone) @ ''|'' @
          as_text env' (dget_or (kc_params d) ''x_step_inputs_hash'' (PStr [])) @ ''|'' @
          as_text env' (dget_or (kc_params d) ''x_template_version'' (PStr [])))"
      by (simp add: l1_key_source step_key_def step_cache_key_def)
    from conjunct2[OF namespaced_key_inj[OF assms this]] show False by simp
  qed
  assume "l1_key env (memoise env c) = l1_key env' (memoise env' d)"
  then have "kc_prefix c @ ''tok_opt:'' @ ''l1:'' @ ke_sha env (key_source env c) =
      kc_prefix d @ ''tok_opt:'' @ ''l1:'' @ ke_sha env' (key_source env' d)" by (simp add: l1_key_source)
  from namespaced_key_inj[OF assms this]
  show "kc_prefix c = kc_prefix d \<and> ke_sha env (key_source env c) = ke_sha env' (key_source env' d)" by simp
qed

section \<open>What a hit is\<close>

lemma process_phases:
  assumes "g05_process_request env c st = (st', Inr c')" and "\<not> kc_hit c" and "kc_level c = None" and "kc_level c' \<noteq> None"
  obtains cfg st1 c1 c2 where "g5_config c = Inr cfg" "look_l1 env cfg c st = (st1, c1)"
    "look_l2 env cfg c1 st1 = (st', c2)" "\<not> kc_hit c1" "c' = (if kc_hit c2 then c2 else check_step_cache env cfg c2 st')"
  | cfg where "g5_config c = Inr cfg" "look_l1 env cfg c st = (st', c')" "kc_hit c'"
proof -
  obtain cfg where g: "g5_config c = Inr cfg" "cache_enabled cfg"
    using assms by (auto simp: g05_process_request_def split: sum.splits if_splits)
  have o: "\<not> opted_out env c" "\<not> kc_no_cache c"
    using assms g by (auto simp: g05_process_request_def Let_def split: if_splits)
  obtain st1 c1 where l1: "look_l1 env cfg c st = (st1, c1)" by fastforce
  obtain st2 c2 where l2: "look_l2 env cfg c1 st1 = (st2, c2)" by fastforce
  show ?thesis
  proof (cases "kc_hit c1")
    case True
    then show ?thesis using that(2)[OF g(1)] assms(1) g o l1 by (simp add: g05_process_request_def)
  next
    case False
    then have r: "st2 = st'" "c' = (if kc_hit c2 then c2 else check_step_cache env cfg c2 st2)"
      using assms(1) g o l1 l2 by (simp_all add: g05_process_request_def)
    show ?thesis by (rule that(1)[OF g(1) l1 l2[unfolded r(1)] False r(2)[unfolded r(1)]])
  qed
qed

lemma look_l1_level: "look_l1 env cfg c st = (st1, c1) \<Longrightarrow> \<not> kc_hit c1 \<Longrightarrow> kc_level c1 = kc_level c"
  by (auto simp: look_l1_def Let_def with_hit_def memoise_def split: sum.splits option.splits)

lemma look_l2_hit:
  assumes "look_l2 env cfg c st = (st', c')" and "\<not> kc_hit c"
  shows "(kc_hit c' \<longrightarrow> kc_level c' = Some ''L2'' \<and> l2_lookup env cfg c st = Inr (kc_response c') \<and> py_truthy (kc_response c')) \<and>
         (\<not> kc_hit c' \<longrightarrow> c' = c)"
  using assms by (auto simp: look_l2_def with_hit_def split: sum.splits if_splits)

lemma check_step_level: "kc_level (check_step_cache env cfg c st) = kc_level c \<or> kc_level (check_step_cache env cfg c st) = Some ''STEP''"
  by (auto simp: check_step_cache_def with_hit_def split: sum.split option.split)

lemma process_hit_L1:
  assumes "g05_process_request env c st = (st', Inr c')" and "\<not> kc_hit c" and "kc_level c = None"
    and "kc_level c' = Some ''L1''"
  shows "\<exists>e. dget (ca_redis st) (l1_key env (memoise env c)) = Some (kc_response c', e) \<and> ke_now env < e"
proof -
  have "kc_level c' \<noteq> None" using assms(4) by simp
  from assms(1-3) this show ?thesis
  proof (cases rule: process_phases)
    case (1 cfg st1 c1 c2)
    have "kc_level c' \<noteq> Some ''L1''"
      using look_l2_hit[OF 1(3,4)] look_l1_level[OF 1(2,4)] assms(3) 1(5) check_step_level[of env cfg c2 st']
      by (auto split: if_splits)
    then show ?thesis using assms(4) by simp
  next
    case (2 cfg)
    then show ?thesis using look_l1_hit[OF 2(2) assms(2) 2(3)] by auto
  qed
qed

lemma process_hit_L2:
  assumes "g05_process_request env c st = (st', Inr c')" and "\<not> kc_hit c" and "kc_level c = None"
    and "kc_level c' = Some ''L2''"
  shows "\<exists>e r. ke_pick env e (l2_candidates env st (kc_tenant c) (semantic_scope env c)) = Some r \<and>
    kc_response c' = lr_response r"
proof -
  have "kc_level c' \<noteq> None" using assms(4) by simp
  from assms(1-3) this show ?thesis
  proof (cases rule: process_phases)
    case (1 cfg st1 c1 c2)
    have h: "kc_hit c2" "c' = c2"
      using look_l2_hit[OF 1(3,4)] look_l1_level[OF 1(2,4)] assms(3,4) 1(5) check_step_level[of env cfg c2 st']
      by (auto split: if_splits)
    have c1: "c1 = (memoise env c)\<lparr>kc_params := dset l1_key_param (PStr (l1_key env (memoise env c))) (kc_params (memoise env c))\<rparr>"
      using 1(2,4) by (auto simp: look_l1_def Let_def with_hit_def split: sum.splits option.splits)
    have rows: "l2_candidates env st1 t sc = l2_candidates env st t sc" for t sc
      using look_l1_state[of env cfg c st] 1(2) by (simp add: l2_candidates_def)
    have sc: "l2_scope env c1 t cfg = l2_scope env (memoise env c) t cfg" for t
      by (rule l2_scope_cong) (auto simp: c1 dget_dset l1_key_param_def memo_keys_def)
    obtain k where k: "semantic_key env cfg c1 = Inr k"
      and v: "kc_response c' = (case k of None \<Rightarrow> PNone | Some (q, scope, e) \<Rightarrow>
           (case ke_pick env e (l2_candidates env st1 (kc_tenant c1) scope) of
              Some r \<Rightarrow> if ke_close env e r (dget_or cfg ''l2_similarity_threshold'' (PFloat (95 / 100)))
                        then lr_response r else PNone
            | None \<Rightarrow> PNone))"
      using look_l2_hit[OF 1(3,4)] h by (cases "semantic_key env cfg c1") (auto simp: l2_lookup_def)
    have t: "py_truthy (kc_response c')" using look_l2_hit[OF 1(3,4)] h by simp
    then obtain q scope e r where "k = Some (q, scope, e)" "ke_pick env e (l2_candidates env st1 (kc_tenant c1) scope) = Some r"
      "kc_response c' = lr_response r"
      using v by (auto split: option.splits if_splits prod.splits)
    moreover from this(1) have "scope = semantic_scope env c"
      using semantic_key_parts[of env cfg c1 q scope e] k 1(1) sc
      by (simp add: semantic_scope_def c1 request_messages_def)
    ultimately show ?thesis using rows by (auto simp: c1)
  next
    case (2 cfg)
    then have "kc_level c' = Some ''L1''" using look_l1_hit[OF 2(2) assms(2) 2(3)] by auto
    then show ?thesis using assms(4) by simp
  qed
qed

text \<open>
  C6. An exact hit replays an answer that was given to the same request: after any sequence of requests, what the
  lookup serves at L1 is the answer one of them stored, and that one came from the same Redis namespace with the same
  normalised transcript, the same digest of the parameters that shape an answer, the same system scope and the same
  model scope. SHA-256 does not collide on the texts involved.
\<close>

theorem exact_hits_answer_the_same_request:
  assumes "g05_process_request env c (cached_run qs empty_cache) = (st', Inr c')"
    and "\<not> kc_hit c" and "kc_level c = None" and "kc_level c' = Some ''L1''"
    and "list_all well_kept qs" and "escaping env" and "plain_request env c" and "namespace (kc_prefix c)"
    and "\<forall>q \<in> set qs. plain_request (cq_env q) (cq_ctx q) \<and> same_functions env (cq_env q) \<and> namespace (kc_prefix (cq_ctx q))"
    and "inj_on (ke_sha env) (insert (key_source env c) ((\<lambda>q. key_source (cq_env q) (cq_ctx q)) ` set qs))"
  shows "\<exists>q \<in> set qs. cq_answer q = Some (kc_response c') \<and> kc_prefix (cq_ctx q) = kc_prefix c \<and>
    normalise env (kc_messages (cq_ctx q)) = normalise env (kc_messages c) \<and>
    params_digest env (kc_params (cq_ctx q)) = params_digest env (kc_params c) \<and>
    system_digest env (cq_ctx q) = system_digest env c \<and> model_scope_tag env (cq_ctx q) = model_scope_tag env c"
proof -
  obtain e where "dget (ca_redis (cached_run qs empty_cache)) (l1_key env (memoise env c)) = Some (kc_response c', e)"
    using process_hit_L1[OF assms(1-4)] by blast
  then obtain q where q: "q \<in> set qs" "stored_by q (l1_key env (memoise env c)) (kc_response c')"
    using provenance_run[OF assms(5)] unfolding provenance_def by metis
  have pq: "plain_request (cq_env q) (cq_ctx q)" "same_functions env (cq_env q)" "namespace (kc_prefix (cq_ctx q))"
    using assms(9) q(1) by auto
  have "l1_key env (memoise env c) = l1_key (cq_env q) (memoise (cq_env q) (cq_ctx q))"
    using q(2) l1_and_step_keys(1)[OF assms(8) pq(3)] by (auto simp: stored_by_def)
  from l1_and_step_keys(2)[OF assms(8) pq(3) this]
  have p: "kc_prefix c = kc_prefix (cq_ctx q)" and "ke_sha env (key_source env c) = ke_sha env (key_source (cq_env q) (cq_ctx q))"
    using pq(2) by (simp_all add: same_functions_def)
  then have "key_source env c = key_source (cq_env q) (cq_ctx q)" using assms(10) q(1) by (auto dest: inj_onD)
  from source_tags[OF assms(6,7) pq(1,2) this] show ?thesis using q p by (auto simp: stored_by_def)
qed

text \<open>
  C7. A semantic hit never leaves the tenant: whatever row the index picks, an answer served at L2 was stored by a
  request of the same tenant with the same scope of model, verbosity, system prompt, parameters and literals.
\<close>

theorem semantic_hits_stay_in_the_tenant_and_scope:
  assumes "g05_process_request env c (cached_run qs empty_cache) = (st', Inr c')"
    and "\<not> kc_hit c" and "kc_level c = None" and "kc_level c' = Some ''L2''" and "list_all well_kept qs"
    and "\<And>e rows r. ke_pick env e rows = Some r \<Longrightarrow> r \<in> set rows"
  shows "\<exists>q \<in> set qs. cq_answer q = Some (kc_response c') \<and> kc_tenant (cq_ctx q) = kc_tenant c \<and>
    semantic_scope (cq_env q) (cq_ctx q) = semantic_scope env c"
proof -
  obtain e r where r: "ke_pick env e (l2_candidates env (cached_run qs empty_cache) (kc_tenant c) (semantic_scope env c)) = Some r"
      "kc_response c' = lr_response r"
    using process_hit_L2[OF assms(1-4)] by blast
  have "r \<in> set (l2_candidates env (cached_run qs empty_cache) (kc_tenant c) (semantic_scope env c))" by (rule assms(6)[OF r(1)])
  then have m: "r \<in> set (ca_rows (cached_run qs empty_cache))" "lr_tenant r = kc_tenant c" "lr_scope r = semantic_scope env c"
    by (auto simp: l2_candidates_def)
  then obtain q where "q \<in> set qs" "row_of q r" using provenance_run[OF assms(5)] by (auto simp: provenance_def)
  then show ?thesis using m r by (auto simp: row_of_def)
qed

section \<open>A stored answer\<close>

definition later_now :: "cache_env \<Rightarrow> rat \<Rightarrow> cache_env" where
  "later_now env t = env\<lparr>ke_now := t\<rparr>"

lemma later_fields [simp]:
  "ke_sha (later_now env t) = ke_sha env" "ke_dumps (later_now env t) = ke_dumps env" "ke_fstr (later_now env t) = ke_fstr env"
  "ke_verbosity (later_now env t) = ke_verbosity env" "ke_now (later_now env t) = t" "ke_redis_up (later_now env t) = ke_redis_up env"
  by (simp_all add: later_now_def)

lemma same_later: "same_functions env (later_now env t)"
  by (simp add: same_functions_def)

lemma later_key: "l1_key (later_now env t) (memoise (later_now env t) c) = l1_key env (memoise env c)"
proof -
  note cong = same_functions_cong[OF same_later[of env t]]
  have "verbosity_scope_tag (later_now env t) = verbosity_scope_tag env" by (rule ext) (simp only: verbosity_scope_tag_def later_fields)
  moreover have "as_text (later_now env t) = as_text env" by (rule ext) (simp only: as_text_def later_fields)
  then have "resolve_cache_scope (later_now env t) = resolve_cache_scope env"
    by (intro ext) (simp only: resolve_cache_scope_def)
  then have "system_scope_tag (later_now env t) = system_scope_tag env"
    by (intro ext) (simp only: system_scope_tag_def later_fields)
  moreover have "params_scope_tag (later_now env t) = params_scope_tag env"
    by (rule ext) (simp only: params_scope_tag_def cong)
  ultimately have "memoise (later_now env t) c = memoise env c" and
    "apply_model_scope (later_now env t) = apply_model_scope env"
    by (simp_all only: memoise_def) (intro ext, simp only: apply_model_scope_def cong)
  then show ?thesis by (simp only: l1_key_def cache_key_def cong later_fields)
qed

lemma l2_store_redis [simp]: "ca_redis (l2_store env cfg c v ttl st) = ca_redis st"
  by (simp add: l2_store_def Let_def split: sum.split option.split prod.split)

lemma stored_exact:
  assumes "storable env c v" and "g5_config c = Inr cfg" and "cache_enabled cfg" and "ke_redis_up env"
    and "dget (kc_params c) l1_key_param = Some (PStr k)" and "k \<noteq> []"
    and "has_step cfg c \<Longrightarrow> k \<noteq> step_key env c"
    and "0 < ttl_for env st (kc_prefix c) (int_or cfg ''l1_ttl_seconds'' 3600) ''L1'' cfg"
  shows "dget (ca_redis (fst (store_response env c v st))) k =
    Some (v, ke_now env + of_int (ttl_for env st (kc_prefix c) (int_or cfg ''l1_ttl_seconds'' 3600) ''L1'' cfg))"
  using assms by (simp add: store_response_def Let_def stored_key_def redis_set_def dget_dset)

lemma exact_lookup:
  assumes "g5_config c = Inr cfg" and "cache_enabled cfg" and "\<not> opted_out env c" and "\<not> kc_no_cache c" and "ke_redis_up env"
    and "dget (ca_redis st) (l1_key env (memoise env c)) = Some (v, e)" and "ke_now env < e"
  shows "\<exists>st' c'. g05_process_request env c st = (st', Inr c') \<and> kc_hit c' \<and> kc_level c' = Some ''L1'' \<and> kc_response c' = v"
  using assms by (simp add: g05_process_request_def look_l1_def Let_def redis_value_def with_hit_def)

definition exact_lifetime :: "cache_env \<Rightarrow> cache_ctx \<Rightarrow> pydict \<Rightarrow> cache_state \<Rightarrow> int" where
  "exact_lifetime env c cfg st = ttl_for env st (kc_prefix c) (int_or cfg ''l1_ttl_seconds'' 3600) ''L1'' cfg"

text \<open>
  C8. A stored answer is found again: after a lookup that missed and the store at the end of that request, the same
  request within the lifetime is an exact hit with exactly that answer, although the later stages rewrote messages
  and parameters in between.
\<close>

theorem stored_answers_are_served_again:
  assumes "g05_process_request env c st = (st1, Inr c1)" and "\<not> kc_hit c1" and "\<not> kc_no_cache c1"
    and "g5_config c = Inr cfg" and "cache_enabled cfg" and "ke_redis_up env" and "namespace (kc_prefix c)"
    and "keeps_cache_fields later" and "storable env (later c1) v"
    and "0 < exact_lifetime env c cfg st1" and "t < ke_now env + of_int (exact_lifetime env c cfg st1)"
  shows "\<exists>st' c'. g05_process_request (later_now env t) c (fst (store_response env (later c1) v st1)) = (st', Inr c') \<and>
    kc_hit c' \<and> kc_level c' = Some ''L1'' \<and> kc_response c' = v"
proof -
  let ?k = "l1_key env (memoise env c)"
  note m = miss_context[OF assms(1-5)]
  have f: "g5_config (later c1) = Inr cfg" "kc_prefix (later c1) = kc_prefix c" "dget (kc_params (later c1)) l1_key_param = Some (PStr ?k)"
    using assms(4,8) m by (simp_all add: keeps_cache_fields_def g5_config_def dget_dset l1_key_param_def)
  have k: "?k \<noteq> []" by (simp add: l1_key_def cache_key_def)
  have s: "?k \<noteq> step_key env (later c1)" using l1_and_step_keys(1)[OF assms(7), of "later c1"] assms(7) f(2) by simp
  have "dget (ca_redis (fst (store_response env (later c1) v st1))) ?k =
      Some (v, ke_now env + of_int (exact_lifetime env c cfg st1))"
    using stored_exact[OF assms(9) f(1) assms(5,6) f(3) k s, of st1] assms(10) f(2) by (simp add: exact_lifetime_def)
  moreover have "\<not> kc_no_cache c" "\<not> opted_out env c"
    using assms(1-5) by (auto simp: g05_process_request_def Let_def split: if_splits prod.splits)
  moreover have "opted_out (later_now env t) c = opted_out env c"
    by (simp add: opted_out_def as_text_def split: pyval.split)
  ultimately show ?thesis
    using exact_lookup[of c cfg "later_now env t"] assms(4,5,6,11) by (simp add: later_key)
qed

section \<open>Lifetimes stay near the configured one\<close>

lemma scaled_bounds:
  assumes "py_float (dget_or cfg ''auto_ttl_min_multiplier'' (PFloat (1 / 4))) = Some low"
    and "py_float (dget_or cfg ''auto_ttl_max_multiplier'' (PFloat 2)) = Some high"
    and "0 \<le> base" and "0 \<le> scale" and "0 \<le> high"
  shows "1 \<le> scaled_ttl base scale cfg \<and> of_int (scaled_ttl base scale cfg) \<le> max 1 (of_int base * high)"
proof -
  have "of_int base * min (max scale low) high \<ge> (0 :: rat)" using assms by (simp add: mult_nonneg_nonneg)
  then have "of_int (trunc_rat (of_int base * min (max scale low) high)) \<le> of_int base * min (max scale low) high"
    by (simp add: trunc_rat_def)
  also have "\<dots> \<le> of_int base * high" using assms(3) by (intro mult_left_mono) simp_all
  finally show ?thesis using assms(1,2) by (simp add: scaled_ttl_def)
qed

section \<open>Failures\<close>

text \<open>
  The cache fails open: with Redis down and the semantic path failing, the lookup raises nothing, leaves the
  stores as they are and the request a miss.
\<close>

lemma cache_failures_serve_nothing:
  assumes "g5_config c = Inr cfg" and "\<not> ke_redis_up env" and "\<And>p m q. isl (ke_embed env p m q) \<or> \<not> ke_database_up env"
  shows "\<exists>c'. g05_process_request env c st = (st, Inr c') \<and> kc_hit c' = kc_hit c \<and> kc_response c' = kc_response c"
proof -
  have k: "semantic_key env cfg d \<noteq> Inr (Some x)" for d x
    using assms(3)[of "kc_prefix d" "dget_or cfg ''l2_embedding_model'' (PStr default_embedding_model)"
        "semantic_query_text (request_messages d)"]
    by (auto simp: semantic_key_def Let_def bind_res_Inr split: if_splits)
  have "look_l2 env cfg d st = (st, d)" for d
  proof (cases "semantic_key env cfg d")
    case (Inl e)
    then show ?thesis by (simp add: look_l2_def l2_lookup_def)
  next
    case (Inr r)
    then have "r = None" using k[of d] by (cases r) auto
    then show ?thesis using Inr assms(2) by (simp add: look_l2_def l2_lookup_def count_lookup_def)
  qed
  then show ?thesis
    using assms(1,2) by (simp add: g05_process_request_def look_l1_def Let_def redis_value_def check_step_cache_def memoise_def)
qed

section \<open>Concrete inputs\<close>

definition chat_turn :: "string \<Rightarrow> string \<Rightarrow> pydict" where
  "chat_turn r s = [(''role'', PStr r), (''content'', PStr s)]"

definition demo_cache_env :: cache_env where
  "demo_cache_env = \<lparr>ke_sha = filter (\<lambda>ch. ch \<noteq> CHR 0x0A), ke_dumps = (\<lambda>_. ''{}''), ke_fstr = (\<lambda>_. ''x''), ke_verbosity = (\<lambda>_. []),
     ke_embed = (\<lambda>_ _ _. Inr [1]), ke_pick = (\<lambda>_ rows. case rows of [] \<Rightarrow> None | r # _ \<Rightarrow> Some r), ke_close = (\<lambda>_ _ _. True),
     ke_redis_up = True, ke_database = True, ke_database_up = True, ke_now = 0\<rparr>"

definition demo_cache_ctx :: cache_ctx where
  "demo_cache_ctx = \<lparr>kc_messages = [chat_turn ''user'' ''hi''], kc_original = [chat_turn ''user'' ''hi''], kc_params = [],
     kc_config = PDict [(''groups'', PDict [(''G5_cache'', PDict [(''enabled'', PBool True)])])],
     kc_model = ''m'', kc_tenant = ''acme'', kc_prefix = ''t:acme:'', kc_no_cache = False, kc_hit = False,
     kc_level = None, kc_response = PNone, kc_bypassed = False, kc_dispatched = False\<rparr>"

definition demo_stored_answer :: pyval where
  "demo_stored_answer = PDict [(''choices'', PList [PDict [(''message'', PDict [(''content'', PStr ''hello'')])]])]"

definition demo_cached :: cached_request where
  "demo_cached = \<lparr>cq_env = demo_cache_env, cq_ctx = demo_cache_ctx, cq_later = id, cq_answer = Some demo_stored_answer\<rparr>"

lemma demo_cached_facts:
  "list_all well_kept [demo_cached]" "escaping demo_cache_env" "plain_request demo_cache_env demo_cache_ctx"
  "namespace (kc_prefix demo_cache_ctx)"
proof -
  show "list_all well_kept [demo_cached]"
    by (simp add: well_kept_def demo_cached_def keeps_cache_fields_def demo_cache_ctx_def)
  show "escaping demo_cache_env" by (simp add: escaping_def demo_cache_env_def)
  show "plain_request demo_cache_env demo_cache_ctx"
    by (simp add: plain_request_def no_memos_def demo_cache_env_def demo_cache_ctx_def chat_turn_def name_like_def name_char_def)
  have "kc_prefix demo_cache_ctx = redis_prefix_of (sanitise_tenant_id ''acme'')" by code_simp
  then show "namespace (kc_prefix demo_cache_ctx)" unfolding namespace_def by blast
qed

lemma exact_hits_answer_the_same_request_witness:
  "case g05_process_request demo_cache_env demo_cache_ctx (cached_run [demo_cached] empty_cache) of
     (_, Inr c) \<Rightarrow> kc_level c = Some ''L1'' \<and> cq_answer demo_cached = Some (kc_response c) | _ \<Rightarrow> False"
proof -
  have "case g05_process_request demo_cache_env demo_cache_ctx (cached_run [demo_cached] empty_cache) of
     (_, Inr c) \<Rightarrow> kc_level c = Some ''L1'' | _ \<Rightarrow> False" by code_simp
  then obtain st c where g: "g05_process_request demo_cache_env demo_cache_ctx (cached_run [demo_cached] empty_cache) = (st, Inr c)"
    and l: "kc_level c = Some ''L1''" by (auto split: prod.splits sum.splits)
  have q: "cq_env demo_cached = demo_cache_env" "cq_ctx demo_cached = demo_cache_ctx" by (simp_all add: demo_cached_def)
  have h: "\<not> kc_hit demo_cache_ctx" "kc_level demo_cache_ctx = None" by (simp_all add: demo_cache_ctx_def)
  show ?thesis
    using exact_hits_answer_the_same_request[OF g h l demo_cached_facts] g l demo_cached_facts
    by (simp add: q same_functions_def)
qed

lemma semantic_hits_stay_in_the_tenant_and_scope_witness:
  "case g05_process_request demo_cache_env (demo_cache_ctx\<lparr>kc_original := [chat_turn ''user'' ''hello''], kc_messages := [chat_turn ''user'' ''hello'']\<rparr>)
       (cached_run [demo_cached] empty_cache) of
     (_, Inr c) \<Rightarrow> kc_level c = Some ''L2'' \<and> cq_answer demo_cached = Some (kc_response c) | _ \<Rightarrow> False"
proof -
  let ?c = "demo_cache_ctx\<lparr>kc_original := [chat_turn ''user'' ''hello''], kc_messages := [chat_turn ''user'' ''hello'']\<rparr>"
  have "case g05_process_request demo_cache_env ?c (cached_run [demo_cached] empty_cache) of
     (_, Inr c) \<Rightarrow> kc_level c = Some ''L2'' | _ \<Rightarrow> False" by code_simp
  then obtain st c where g: "g05_process_request demo_cache_env ?c (cached_run [demo_cached] empty_cache) = (st, Inr c)"
    and l: "kc_level c = Some ''L2''" by (auto split: prod.splits sum.splits)
  have h: "\<not> kc_hit ?c" "kc_level ?c = None" by (simp_all add: demo_cache_ctx_def)
  have "\<exists>q \<in> set [demo_cached]. cq_answer q = Some (kc_response c) \<and> kc_tenant (cq_ctx q) = kc_tenant ?c \<and>
      semantic_scope (cq_env q) (cq_ctx q) = semantic_scope demo_cache_env ?c"
    by (rule semantic_hits_stay_in_the_tenant_and_scope[OF g h l demo_cached_facts(1)])
      (auto simp: demo_cache_env_def split: list.splits)
  then show ?thesis using g l by simp
qed

lemma stored_answers_are_served_again_witness:
  "case g05_process_request demo_cache_env demo_cache_ctx empty_cache of
     (st1, Inr c1) \<Rightarrow>
       (case g05_process_request (later_now demo_cache_env 60) demo_cache_ctx (fst (store_response demo_cache_env c1 demo_stored_answer st1)) of
          (_, Inr c2) \<Rightarrow> kc_hit c2 \<and> kc_response c2 = demo_stored_answer | _ \<Rightarrow> False)
   | _ \<Rightarrow> False"
proof -
  let ?cfg = "[(''enabled'', PBool True)]"
  have v: "case g05_process_request demo_cache_env demo_cache_ctx empty_cache of
     (st1, Inr c1) \<Rightarrow> \<not> kc_hit c1 \<and> \<not> kc_no_cache c1 \<and> storable demo_cache_env c1 demo_stored_answer \<and>
       exact_lifetime demo_cache_env demo_cache_ctx ?cfg st1 = 3600 | _ \<Rightarrow> False" by code_simp
  then obtain st1 c1 where g: "g05_process_request demo_cache_env demo_cache_ctx empty_cache = (st1, Inr c1)"
    and c: "\<not> kc_hit c1" "\<not> kc_no_cache c1" "storable demo_cache_env (id c1) demo_stored_answer"
      "exact_lifetime demo_cache_env demo_cache_ctx ?cfg st1 = 3600" by (auto split: prod.splits sum.splits)
  have f: "g5_config demo_cache_ctx = Inr ?cfg" "cache_enabled ?cfg" "ke_redis_up demo_cache_env" by code_simp+
  have "keeps_cache_fields id" by (simp add: keeps_cache_fields_def)
  from stored_answers_are_served_again[OF g c(1,2) f demo_cached_facts(4) this c(3), of 60]
  show ?thesis using g c(4) by (auto simp: demo_cache_env_def)
qed

lemma cache_failures_serve_nothing_witness:
  "case g05_process_request (demo_cache_env\<lparr>ke_redis_up := False, ke_database_up := False\<rparr>) demo_cache_ctx empty_cache of
     (st, Inr c) \<Rightarrow> st = empty_cache \<and> \<not> kc_hit c | _ \<Rightarrow> False"
proof -
  have f: "g5_config demo_cache_ctx = Inr [(''enabled'', PBool True)]" by code_simp
  have "\<exists>c'. g05_process_request (demo_cache_env\<lparr>ke_redis_up := False, ke_database_up := False\<rparr>) demo_cache_ctx empty_cache = (empty_cache, Inr c') \<and>
      kc_hit c' = kc_hit demo_cache_ctx \<and> kc_response c' = kc_response demo_cache_ctx"
    by (rule cache_failures_serve_nothing[OF f]) simp_all
  then show ?thesis by (auto simp: demo_cache_ctx_def)
qed

section \<open>Two transcripts, one key\<close>

lemma turns_share_a_key:
  "normalise env [chat_turn ''user'' ''a|user:b''] = normalise env [chat_turn ''user'' ''a'', chat_turn ''user'' ''b'']"
proof -
  have "py_lower (squeezed ''a|user:b'') = ''a|user:b''" "py_lower (squeezed ''a'') = ''a''" "py_lower (squeezed ''b'') = ''b''"
    by code_simp+
  moreover have "turn_text env (chat_turn ''user'' s) = ''user:'' @ py_lower (squeezed s)" for s
    by (simp add: turn_text_def chat_turn_def turn_fields_def as_text_def dget_or_def List.map_filter_def)
  ultimately show ?thesis by (simp only: normalise_def joined_def list.map list.case append.simps) simp
qed

end
