(* ===== verification/Serve.thy ===== *)
theory Serve
  imports Authentication Ingress Pipeline Failover Adapters Savings Prompt_Cache
begin

text \<open>
  The core of \<open>main.py\<close>: \<open>chat_completions\<close> reads a body, \<open>_serve_core\<close> stamps the identity of the key
  on it, runs the request pipeline and answers, from a block, the cache, a cascade, an agent or a
  provider, and every exit is metered. Texts are texts: the model a client names and the name of a
  configured provider. Arguments of the model: the stages of both pipelines, the cascade, the tool gate,
  the provider keys and what the providers answer. An answer is the body before the savings metadata, the
  disclosures and the headers are put on it; an error body is its type and code. Metrics, traces, log lines and the echo of the prompt are left out; a \<open>trial\<close>
  section of the configuration that is no mapping counts as none.
\<close>

section \<open>Reading the body\<close>

definition openai_valid_roles :: "string list" where
  "openai_valid_roles = [''system'', ''user'', ''assistant'', ''tool'', ''function'', ''developer'']"

definition ingress_extra_allowed_params :: "pyval \<Rightarrow> string list" where
  "ingress_extra_allowed_params cfg =
     (case cfg of
        PDict c \<Rightarrow> (case dget_or c ''ingress'' PNone of
            PDict s \<Rightarrow> (case dget_or s ''extra_allowed_params'' PNone of
                PList raw \<Rightarrow> filter (\<lambda>n. n \<noteq> []) (str_names raw) | _ \<Rightarrow> [])
          | _ \<Rightarrow> [])
      | _ \<Rightarrow> [])"

definition valid_message :: "pyval \<Rightarrow> bool" where
  "valid_message m \<longleftrightarrow> (case m of
      PDict d \<Rightarrow> (case dget_or d ''role'' PNone of PStr r \<Rightarrow> r \<noteq> [] \<and> r \<in> set openai_valid_roles | _ \<Rightarrow> False)
    | _ \<Rightarrow> False)"

definition validate_openai_request :: "pyval \<Rightarrow> int option" where
  "validate_openai_request messages =
     (case messages of PList ms \<Rightarrow> if ms \<noteq> [] \<and> list_all valid_message ms then None else Some 400 | _ \<Rightarrow> Some 400)"

text \<open>The provider is always asked for its usage chunk; whether the client sees it is its own choice.\<close>

definition stream_options_with_usage :: "pyval \<Rightarrow> pydict \<times> bool" where
  "stream_options_with_usage requested =
     (case requested of
        PDict d \<Rightarrow> (dset ''include_usage'' (PBool True) d, \<not> py_truthy (dget_or d ''include_usage'' PNone))
      | _ \<Rightarrow> ([(''include_usage'', PBool True)], False))"

section \<open>The identity of the key\<close>

definition user_text :: "pyval \<Rightarrow> pyval option" where
  "user_text m = (case m of
      PDict d \<Rightarrow> (case (dget_or d ''role'' PNone, dget_or d ''content'' PNone) of
                   (PStr r, PStr s) \<Rightarrow> if r = ''user'' then Some (PStr s) else None | _ \<Rightarrow> None)
    | _ \<Rightarrow> None)"

definition with_rag_query :: "pyval list \<Rightarrow> pydict \<Rightarrow> pydict" where
  "with_rag_query messages params =
     (if dget params ''x_rag_collection'' \<noteq> None \<and> dget params ''rag_query'' = None
      then (case List.map_filter user_text (rev messages) of q # _ \<Rightarrow> dset ''rag_query'' q params | [] \<Rightarrow> params)
      else params)"

definition meta_dict :: "pyval \<Rightarrow> pydict" where
  "meta_dict m = (case m of PDict d \<Rightarrow> d | _ \<Rightarrow> [])"

definition stamp_identity :: "(string \<Rightarrow> string) \<Rightarrow> (pyval \<Rightarrow> string) \<Rightarrow> admission \<Rightarrow> pydict \<Rightarrow> pydict" where
  "stamp_identity sha fstr a params =
     (let meta = meta_dict (ad_meta a);
          principal = py_or (ad_principal a) (py_or (dget_or meta ''tenant_id'' PNone) (py_or (ad_user a) (PStr [])))
      in dset ''_auth_principal'' (PStr (text_of fstr principal))
         (dset ''_auth_gateway'' (PBool (is_gateway_key (ad_meta a)))
         (dset ''_auth_admin'' (PBool (py_truthy (dget_or meta ''admin'' (PBool False))))
         (dset ''_auth_tier'' (dget_or meta ''tier'' (PStr ''free''))
         (dset ''_auth_tenant_id'' (dget_or meta ''tenant_id'' PNone)
         (dset ''_api_key_hash'' (PStr (sha (ad_key a))) params))))))"

definition entry_params ::
  "(string \<Rightarrow> string) \<Rightarrow> (pyval \<Rightarrow> string) \<Rightarrow> admission \<Rightarrow> headers \<Rightarrow> pyval list \<Rightarrow> string \<Rightarrow> pydict \<Rightarrow> pydict" where
  "entry_params sha fstr a hdrs messages model params =
     stamp_identity sha fstr a
       (with_rag_query messages
         (fold (\<lambda>(k, v) p. dset k (PStr v) p) (header_params hdrs)
           (dset ''_model_defaulted'' (PBool (model = [])) params)))"

section \<open>The context\<close>

record serve_ctx = pipe_ctx +
  sv_messages :: pyval
  sv_security_response :: "pyval option"
  sv_cache_response :: pyval
  sv_batch_deferred :: bool
  sv_cascade_plan :: "pydict option"
  sv_cascade_response :: "pyval option"
  sv_agent_response :: "pyval option"
  sv_routing_mode :: string
  sv_cost :: rat
  sv_attempts :: "attempt list"

text \<open>An empty answer is not served from the cache.\<close>

definition refuse_empty_cache_hit :: "(pyval \<Rightarrow> string) \<Rightarrow> serve_ctx \<Rightarrow> serve_ctx" where
  "refuse_empty_cache_hit fstr c =
     (if px_cache_hit c \<and> is_dict (sv_cache_response c) \<and> is_empty_answer fstr (sv_cache_response c)
      then c\<lparr>px_cache_hit := False, sv_cache_response := PNone\<rparr> else c)"

section \<open>Metering\<close>

text \<open>One usage row of a request, billable or not, with its status, and the tenant's counters.\<close>

datatype meter = Usage_Row bool int | Quota_Counted | Spend_Added rat | Trial_Counted

definition impersonated :: "serve_ctx \<Rightarrow> bool" where
  "impersonated c \<longleftrightarrow> nonempty (px_impersonator c)"

definition trial_active :: "pyval \<Rightarrow> bool" where
  "trial_active cfg \<longleftrightarrow> (case py_or cfg (PDict []) of
      PDict d \<Rightarrow> (case dget_or d ''trial'' PNone of PDict t \<Rightarrow> dget_or t ''status'' PNone = PStr ''active'' | _ \<Rightarrow> False)
    | _ \<Rightarrow> False)"

definition bump_counters :: "serve_ctx \<Rightarrow> meter list" where
  "bump_counters c =
     [Quota_Counted] @ (if 0 < sv_cost c then [Spend_Added (sv_cost c)] else [])
     @ (if trial_active (px_config c) then [Trial_Counted] else [])"

definition record_outcome :: "bool \<Rightarrow> serve_ctx \<Rightarrow> int \<Rightarrow> meter list" where
  "record_outcome persist c status =
     (let served = (status = 200) in
      if served \<and> \<not> impersonated c then Usage_Row True status # bump_counters c
      else if served \<or> (status \<noteq> 202 \<and> persist) then [Usage_Row False status] else [])"

text \<open>A deferred request is billed when it is queued, once what it has already paid for is priced.\<close>

definition bill_batch_deferred :: "serve_ctx \<Rightarrow> meter list" where
  "bill_batch_deferred c =
     (let billable = (\<not> impersonated c) in Usage_Row billable 202 # (if billable then bump_counters c else []))"

section \<open>Provider calls\<close>

datatype key_answer = Provider_Key pyval | Key_Missing | Key_Undecryptable

record call_request =
  cr_provider :: string
  cr_tenant :: string
  cr_key :: pyval
  cr_model :: string
  cr_kwargs :: pydict
  cr_params :: pydict
  cr_messages :: pyval
  cr_timeout :: rat
  cr_retries :: "nat option"

datatype stage_exc = Rate_Limited string | Stage_Failed pyexc

text \<open>A stream a provider opened: its chunks, and the error that breaks it off.\<close>

type_synonym feed = "pydict list \<times> perr option"

record serve_env =
  se_sha :: "string \<Rightarrow> string"
  se_fstr :: "pyval \<Rightarrow> string"
  se_config :: pyval
  se_fallback_model :: string
  se_encoder :: "string \<Rightarrow> (string \<Rightarrow> nat) option"
  se_tool_tokens :: "string \<Rightarrow> pyval \<Rightarrow> pyexc + int"
  se_persist :: bool
  se_pipe :: pipe_env
  se_run :: "string \<Rightarrow> serve_ctx \<Rightarrow> serve_ctx \<times> stage_exc option"
  se_reserve :: "serve_ctx \<Rightarrow> serve_ctx \<times> stage_exc option"
  se_count :: "serve_ctx \<Rightarrow> int"
  se_rrun :: "(serve_ctx, pyexc) response_run"
  se_note_called :: "serve_ctx \<Rightarrow> pyval \<Rightarrow> serve_ctx"
  se_price :: "serve_ctx \<Rightarrow> pyval \<Rightarrow> serve_ctx"
  se_book :: "serve_ctx \<Rightarrow> pyval \<Rightarrow> serve_ctx"
  se_price_deferred :: "serve_ctx \<Rightarrow> serve_ctx"
  se_cascade :: "serve_ctx \<Rightarrow> serve_ctx \<times> (pyexc + string option \<times> pyval)"
  se_key :: "string \<Rightarrow> string \<Rightarrow> key_answer"
  se_provider :: "call_request \<Rightarrow> nat \<Rightarrow> (perr + pyval) \<times> rat"
  se_stream :: "call_request \<Rightarrow> nat \<Rightarrow> (perr + feed) \<times> rat"
  se_store :: rstore
  se_now :: rat

definition named_provider :: "pyval \<Rightarrow> pyexc + string" where
  "named_provider v = (case v of PStr s \<Rightarrow> Inr s | _ \<Rightarrow> Inl TypeError)"

definition resolve_provider :: "serve_env \<Rightarrow> string \<Rightarrow> pyval \<Rightarrow> pyexc + string" where
  "resolve_provider env model cfg =
     bind_res (py_get cfg ''providers'' (PList [])) (\<lambda>ps.
     bind_res (match_entry (pe_default_provider (se_pipe env)) model ps) (\<lambda>r.
       let entry = (case r of Some (PDict e) \<Rightarrow> e | _ \<Rightarrow> []); name = dget_or entry ''name'' PNone in
       if py_truthy name then named_provider name
       else bind_res (py_iter ps) (\<lambda>l. case l of
              [] \<Rightarrow> Inr []
            | p # _ \<Rightarrow> bind_res (py_get p ''name'' (PStr [])) named_provider)))"

text \<open>An exception on the way to a call, as the resilience layer sees it: it has no status.\<close>

definition exc_name :: "pyexc \<Rightarrow> string" where
  "exc_name e = (case e of AttributeError \<Rightarrow> ''AttributeError'' | TypeError \<Rightarrow> ''TypeError'' | ValueError \<Rightarrow> ''ValueError''
     | KeyError \<Rightarrow> ''KeyError'' | IndexError \<Rightarrow> ''IndexError'' | ReError \<Rightarrow> ''error'' | RedisError \<Rightarrow> ''RedisError'')"

definition local_error :: "string \<Rightarrow> perr" where
  "local_error name = \<lparr>status_code = None, class_name = name\<rparr>"

definition adapter_perr :: "adapter_error \<Rightarrow> perr" where
  "adapter_perr e = (case e of Unsupported_Provider _ \<Rightarrow> local_error ''UnsupportedProviderError'' | Adapter_Py x \<Rightarrow> local_error (exc_name x))"

definition entry_of :: "serve_env \<Rightarrow> string \<Rightarrow> pyval \<Rightarrow> adapter_error + pydict" where
  "entry_of env model ps =
     lift_py (map_sum id (\<lambda>r. case r of Some (PDict e) \<Rightarrow> e | _ \<Rightarrow> [])
       (match_entry (pe_default_provider (se_pipe env)) model ps))"

definition primary_scoped_params :: "string list" where
  "primary_scoped_params = [''prompt_cache_key'', ''prompt_cache_retention'']"

text \<open>
  The request one target sends: its adapter's parameters, route and messages, with the key of the tenant
  for its provider. \<open>outgoing_of\<close> also says what the hooks raised of the output budget.
\<close>

definition outgoing_of :: "serve_env \<Rightarrow> serve_ctx \<Rightarrow> adapter \<Rightarrow> string \<Rightarrow> pyval \<Rightarrow> pyval \<times> (adapter_error + pydict)" where
  "outgoing_of env c a model eff_cfg =
     map_prod id lift_py (outgoing_params_for (ops_for (se_fstr env) a) (px_params c) model eff_cfg (px_tenant c))"

definition request_of ::
  "serve_env \<Rightarrow> serve_ctx \<Rightarrow> adapter \<Rightarrow> string \<Rightarrow> string \<Rightarrow> pyval \<Rightarrow> pyval \<Rightarrow> pydict \<Rightarrow> rat \<times> nat option
   \<Rightarrow> adapter_error + call_request" where
  "request_of env c a provider model ps key params limits =
     bind_res (entry_of env model ps) (\<lambda>entry.
     bind_res (lift_py (call_of (se_fstr env) a model entry key)) (\<lambda>(call_model, kwargs).
       Inr \<lparr>cr_provider = provider, cr_tenant = px_tenant c, cr_key = key, cr_model = call_model, cr_kwargs = kwargs,
            cr_params = params, cr_messages = outgoing_messages_for (Some (ops_for (se_fstr env) a)) (sv_messages c),
            cr_timeout = fst limits, cr_retries = snd limits\<rparr>))"

definition needs_key :: "serve_env \<Rightarrow> adapter \<Rightarrow> bool" where
  "needs_key env a = ao_requires_api_key (ops_for (se_fstr env) a)"

text \<open>Python refuses a call that names an argument twice, before it is made.\<close>

definition call_keywords :: "call_request \<Rightarrow> string list" where
  "call_keywords rq = [''model'', ''messages''] @ map fst (cr_kwargs rq) @ map fst (cr_params rq) @ [''timeout'']
     @ (case cr_retries rq of None \<Rightarrow> [] | Some _ \<Rightarrow> [''max_retries''])"

definition callable :: "call_request \<Rightarrow> perr + call_request" where
  "callable rq = (if distinct (call_keywords rq) then Inr rq else Inl (local_error ''TypeError''))"

section \<open>Targets\<close>

text \<open>A target with the request it sends when it is tried, or the error it meets on the way.\<close>

record prepared =
  pt_target :: call_target
  pt_adapter :: "adapter option"
  pt_request :: "perr + call_request"

definition as_perr :: "adapter_error + 'a \<Rightarrow> perr + 'a" where
  "as_perr r = map_sum adapter_perr id r"

definition key_for :: "serve_env \<Rightarrow> serve_ctx \<Rightarrow> adapter \<Rightarrow> string \<Rightarrow> perr + pyval" where
  "key_for env c a provider =
     (case se_key env provider (px_tenant c) of
        Provider_Key k \<Rightarrow> if \<not> py_truthy k \<and> needs_key env a then Inl (local_error ''ProviderKeyError'') else Inr k
      | Key_Missing \<Rightarrow> Inl (local_error ''ProviderKeyError'')
      | Key_Undecryptable \<Rightarrow> Inl (local_error ''ProviderKeyDecryptError''))"

definition with_usage_chunk :: "pydict \<Rightarrow> pydict" where
  "with_usage_chunk params =
     dset ''stream_options'' (PDict (fst (stream_options_with_usage (dget_or params ''stream_options'' PNone)))) params"

definition timeout_for :: "pyval \<Rightarrow> string \<Rightarrow> pyexc + rat" where
  "timeout_for eff_cfg provider =
     (case eff_cfg of PDict d \<Rightarrow> map_sum id rc_request_timeout_seconds (resolve d provider) | _ \<Rightarrow> Inl AttributeError)"

definition fallback_request ::
  "serve_env \<Rightarrow> serve_ctx \<Rightarrow> pyval \<Rightarrow> bool \<Rightarrow> string \<Rightarrow> string \<Rightarrow> adapter \<Rightarrow> pyval \<Rightarrow> perr + call_request" where
  "fallback_request env c eff_cfg stream provider model a ps =
     bind_res (key_for env c a provider) (\<lambda>key.
     bind_res (as_perr (snd (outgoing_of env c a model eff_cfg))) (\<lambda>outgoing.
     bind_res (as_perr (lift_py (timeout_for eff_cfg provider))) (\<lambda>timeout.
       let params = pop_all primary_scoped_params outgoing in
       bind_res (as_perr (request_of env c a provider model ps key (if stream then with_usage_chunk params else params)
                            (timeout, Some 0))) callable)))"

definition fallback_target ::
  "serve_env \<Rightarrow> serve_ctx \<Rightarrow> pyval \<Rightarrow> bool \<Rightarrow> string \<Rightarrow> pyexc + prepared" where
  "fallback_target env c eff_cfg stream model =
     bind_res (resolve_provider env model eff_cfg) (\<lambda>provider.
       let ps = (case eff_cfg of PDict d \<Rightarrow> dget_or d ''providers'' (PList []) | _ \<Rightarrow> PList []);
           adapter = get_adapter (pe_default_provider (se_pipe env)) model ps
       in Inr \<lparr>pt_target = \<lparr>ct_model = model, ct_provider = provider, ct_has_key = True\<rparr>,
               pt_adapter = (case adapter of Inr a \<Rightarrow> Some a | Inl _ \<Rightarrow> None),
               pt_request = bind_res (as_perr adapter) (\<lambda>a. fallback_request env c eff_cfg stream provider model a ps)\<rparr>)"

fun all_results :: "('a \<Rightarrow> 'e + 'b) \<Rightarrow> 'a list \<Rightarrow> 'e + 'b list" where
  "all_results f [] = Inr []"
| "all_results f (x # xs) = bind_res (f x) (\<lambda>y. bind_res (all_results f xs) (\<lambda>ys. Inr (y # ys)))"

definition model_name :: "pyval \<Rightarrow> pyexc + string" where
  "model_name v = (case v of PStr s \<Rightarrow> Inr s | _ \<Rightarrow> Inl AttributeError)"

definition fallback_targets ::
  "serve_env \<Rightarrow> serve_ctx \<Rightarrow> resilience_config \<Rightarrow> pyval \<Rightarrow> bool \<Rightarrow> pyexc + prepared list" where
  "fallback_targets env c rcfg eff_cfg stream =
     (if \<not> rc_enabled rcfg then Inr []
      else bind_res (py_iter (dget_or (rc_fallbacks rcfg) (px_routed c) (PList []))) (\<lambda>models.
             all_results (\<lambda>m. bind_res (model_name m) (fallback_target env c eff_cfg stream))
               (filter (\<lambda>m. m \<noteq> PStr (px_routed c)) models)))"

definition script_of :: "(call_request \<Rightarrow> nat \<Rightarrow> (perr + 'a) \<times> rat) \<Rightarrow> prepared list \<Rightarrow> 'a script" where
  "script_of provider targets i k =
     (case pt_request (targets ! i) of Inl e \<Rightarrow> (Inl e, 0) | Inr rq \<Rightarrow> provider rq k)"

text \<open>The requests that left the proxy, in their order.\<close>

definition sent_requests :: "prepared list \<Rightarrow> (nat \<times> nat) list \<Rightarrow> call_request list" where
  "sent_requests targets calls =
     concat (map (\<lambda>(i, k). case pt_request (targets ! i) of Inr rq \<Rightarrow> [rq] | Inl _ \<Rightarrow> []) calls)"

definition pin_winner :: "prepared \<Rightarrow> serve_ctx \<Rightarrow> serve_ctx" where
  "pin_winner t c =
     c\<lparr>px_routed := ct_model (pt_target t), px_adapter := (case pt_adapter t of Some a \<Rightarrow> Some a | None \<Rightarrow> px_adapter c)\<rparr>"

section \<open>Answers\<close>

datatype reply =
    Body int pyval
  | Http_Error int
  | Server_Error
  | Live_Stream resilience_config prepared "pyexc + prepared list" bool

record served =
  sd_ctx :: serve_ctx
  sd_meter :: "meter list"
  sd_sent :: "call_request list"
  sd_reply :: reply

definition finish :: "serve_ctx \<Rightarrow> meter list \<Rightarrow> call_request list \<Rightarrow> reply \<Rightarrow> served" where
  "finish c m sent r = \<lparr>sd_ctx = c, sd_meter = m, sd_sent = sent, sd_reply = r\<rparr>"

definition error_body :: "string \<Rightarrow> string \<Rightarrow> pyval" where
  "error_body kind code = PDict [(''error'', PDict [(''type'', PStr kind), (''code'', PStr code)])]"

text \<open>A refusal of the rate limiter; the trial and the caps have codes of their own.\<close>

definition rate_limit_reply :: "string \<Rightarrow> int \<times> pyval" where
  "rate_limit_reply limit_type =
     (if limit_type = ''trial_expired'' then (402, error_body ''invalid_request_error'' ''trial_expired'')
      else (429, error_body ''rate_limit_exceeded''
              (if limit_type \<in> {''quota_exceeded'', ''spend_cap_exceeded''} then limit_type else ''rate_limit_exceeded'')))"

text \<open>
  Running the response stages over a paid answer; one that is withheld is recorded and not billed. An
  answer that cannot take the savings metadata raises.
\<close>

definition servable :: "pyval \<Rightarrow> bool" where
  "servable v \<longleftrightarrow> (case v of
      PDict d \<Rightarrow> (case dget d ''_token_opt'' of None \<Rightarrow> True | Some (PDict _) \<Rightarrow> True | _ \<Rightarrow> False) | _ \<Rightarrow> False)"

definition serve_200 :: "serve_env \<Rightarrow> serve_ctx \<Rightarrow> pyval \<Rightarrow> call_request list \<Rightarrow> served" where
  "serve_200 env c response sent =
     (if servable response then finish c (record_outcome (se_persist env) c 200) sent (Body 200 response)
      else finish c [] sent Server_Error)"

definition process_and_serve :: "serve_env \<Rightarrow> serve_ctx \<Rightarrow> pyval \<Rightarrow> call_request list \<Rightarrow> served" where
  "process_and_serve env c response sent =
     (case process_response (se_rrun env) (se_note_called env) (se_price env) c response of
        ((c', r', _, _), Some _) \<Rightarrow>
          (let c'' = se_price env c' r' in finish c'' (record_outcome (se_persist env) c'' 500) sent (Http_Error 500))
      | ((c', r', _, _), None) \<Rightarrow> serve_200 env c' r' sent)"

definition failure_status :: "pyval call_result \<Rightarrow> int" where
  "failure_status r =
     (case r of
        Reraised e \<Rightarrow> if class_name e = ''AuthenticationError'' then 401
                       else if class_name e = ''RateLimitError'' then 429 else 502
      | All_Targets_Failed _ (Some e) \<Rightarrow> if class_name e = ''RateLimitError'' then 429 else 502
      | All_Targets_Failed _ None \<Rightarrow> 503
      | Served _ _ \<Rightarrow> 200)"

definition call_targets :: "serve_env \<Rightarrow> serve_ctx \<Rightarrow> resilience_config \<Rightarrow> prepared list \<Rightarrow> served" where
  "call_targets env c rcfg targets =
     (case call_with_resilience (script_of (se_provider env) targets) rcfg (px_redis_prefix c) (map pt_target targets)
             (se_store env) (se_now env) of
        (s, r) \<Rightarrow>
          (let c1 = c\<lparr>sv_attempts := sv_attempts c @ cs_attempts s\<rparr>; sent = sent_requests targets (cs_calls s) in
           case r of
             Served i v \<Rightarrow> process_and_serve env (se_book env (pin_winner (targets ! i) c1) v) v sent
           | _ \<Rightarrow> finish c1 (record_outcome (se_persist env) c1 (failure_status r)) sent (Http_Error (failure_status r))))"

definition effective_config :: "serve_env \<Rightarrow> serve_ctx \<Rightarrow> pyval" where
  "effective_config env c = py_or (px_config c) (se_config env)"

text \<open>
  The request of the routed model, its key resolved; what Python raises here ends in a 500. A stream also
  knows whether the usage chunk is kept from the client.
\<close>

definition primary_target ::
  "serve_env \<Rightarrow> serve_ctx \<Rightarrow> pyval \<Rightarrow> string \<Rightarrow> pyval \<Rightarrow> adapter \<Rightarrow> adapter_error + resilience_config \<times> prepared \<times> bool option" where
  "primary_target env c eff_cfg provider key a =
     bind_res (lift_py (py_get eff_cfg ''providers'' (PList []))) (\<lambda>ps.
     bind_res (snd (outgoing_of env c a (px_routed c) eff_cfg)) (\<lambda>outgoing.
     bind_res (lift_py (case eff_cfg of PDict d \<Rightarrow> resolve d provider | _ \<Rightarrow> Inl AttributeError)) (\<lambda>rcfg.
       let stream = py_truthy (dget_or outgoing ''stream'' PNone) in
       bind_res (request_of env c a provider (px_routed c) ps key (if stream then with_usage_chunk outgoing else outgoing)
                  (call_limits rcfg)) (\<lambda>rq.
         Inr (rcfg, \<lparr>pt_target = \<lparr>ct_model = px_routed c, ct_provider = provider,
                                 ct_has_key = (py_truthy key \<or> \<not> needs_key env a)\<rparr>,
                     pt_adapter = Some a, pt_request = callable rq\<rparr>,
              if stream then Some (snd (stream_options_with_usage (dget_or outgoing ''stream_options'' PNone))) else None)))))"

definition call_provider :: "serve_env \<Rightarrow> serve_ctx \<Rightarrow> served" where
  "call_provider env c =
     (let eff_cfg = effective_config env c; persist = se_persist env in
      case resolve_provider env (px_routed c) eff_cfg of
        Inl _ \<Rightarrow> finish c [] [] Server_Error
      | Inr provider \<Rightarrow>
          (case se_key env provider (px_tenant c) of
             Key_Undecryptable \<Rightarrow>
               finish c (record_outcome persist c 502) [] (Body 502 (error_body ''invalid_request_error'' ''provider_key_undecryptable''))
           | Key_Missing \<Rightarrow>
               finish c (record_outcome persist c 402) [] (Body 402 (error_body ''invalid_request_error'' ''provider_key_missing''))
           | Provider_Key key \<Rightarrow>
               (case bind_res (lift_py (py_get eff_cfg ''providers'' (PList [])))
                       (get_adapter (pe_default_provider (se_pipe env)) (px_routed c)) of
                  Inl _ \<Rightarrow> finish c [] [] Server_Error
                | Inr a \<Rightarrow>
                    if \<not> py_truthy key \<and> needs_key env a
                    then finish c (record_outcome persist c 503) [] (Http_Error 503)
                    else (case primary_target env c eff_cfg provider key a of
                            Inl _ \<Rightarrow> finish c [] [] Server_Error
                          | Inr (rcfg, t, Some withhold) \<Rightarrow>
                              finish c [] [] (Live_Stream rcfg t (fallback_targets env c rcfg eff_cfg True) withhold)
                          | Inr (rcfg, t, None) \<Rightarrow>
                              (case fallback_targets env c rcfg eff_cfg False of
                                 Inl _ \<Rightarrow> finish c [] [] Server_Error
                               | Inr fallbacks \<Rightarrow> call_targets env c rcfg (t # fallbacks))))))"

section \<open>The cascade\<close>

text \<open>
  A cascade that answers decides the model; one that fails leaves a normal call, and never on the model
  that has just failed.
\<close>

definition cascade_failed :: "pydict \<Rightarrow> serve_ctx \<Rightarrow> serve_ctx" where
  "cascade_failed plan c =
     (let failed_tier1 = dget_or plan ''tier1_model'' PNone;
          c1 = (if px_model c \<noteq> [] \<and> PStr (px_routed c) = failed_tier1 \<and> PStr (px_model c) \<noteq> failed_tier1
                then c\<lparr>px_routed := px_model c\<rparr> else c)
      in c1\<lparr>sv_routing_mode := ''cascade_planned+exec_error''\<rparr>)"

definition run_cascade :: "serve_env \<Rightarrow> serve_ctx \<Rightarrow> serve_ctx" where
  "run_cascade env c =
     (case sv_cascade_plan c of
        None \<Rightarrow> c
      | Some plan \<Rightarrow>
          if sv_cascade_response c \<noteq> None then c
          else (case se_cascade env c of
                  (c1, Inr (Some m, PDict d)) \<Rightarrow>
                    if m \<noteq> [] \<and> dget d ''error'' = None
                    then c1\<lparr>px_routed := m, sv_cascade_response := Some (PDict d), sv_routing_mode := ''cascade_execution''\<rparr>
                    else cascade_failed plan c1
                | (c1, _) \<Rightarrow> cascade_failed plan c1))"

section \<open>After the request pipeline\<close>

text \<open>
  A bypass or a cache hit passes the tool gate and nothing else of the response pipeline; when the gate
  itself breaks, the answer goes out as the gate left it.
\<close>

definition short_circuit :: "serve_env \<Rightarrow> serve_ctx \<Rightarrow> served" where
  "short_circuit env c =
     (let response = py_or (sv_cache_response c) (PDict []) in
      if \<not> is_dict response then finish c [] [] Server_Error
      else (case se_rrun env ''G32-tool-eligibility'' c response of
              (c1, left, out) \<Rightarrow> serve_200 env c1 (case out of Inr v \<Rightarrow> v | Inl _ \<Rightarrow> left) []))"

definition queued_body :: pyval where
  "queued_body = PDict [(''status'', PStr ''queued'')]"

definition serve_live :: "serve_env \<Rightarrow> serve_ctx \<Rightarrow> served" where
  "serve_live env c =
     (case sv_cascade_response c of
        Some r \<Rightarrow> process_and_serve env c r []
      | None \<Rightarrow>
          (case (if px_dispatched c then sv_agent_response c else None) of
             Some r \<Rightarrow> process_and_serve env c r []
           | None \<Rightarrow> call_provider env c))"

definition serve_after_pipeline :: "serve_env \<Rightarrow> serve_ctx \<Rightarrow> served" where
  "serve_after_pipeline env c =
     (case (if px_blocked c then sv_security_response c else None) of
        Some r \<Rightarrow> serve_200 env c r []
      | None \<Rightarrow>
          (let c1 = refuse_empty_cache_hit (se_fstr env) c in
           if px_bypassed c1 \<or> px_cache_hit c1 then short_circuit env c1
           else if sv_batch_deferred c1
           then (let c2 = se_price_deferred env c1
                 in finish c2 (bill_batch_deferred c2 @ record_outcome (se_persist env) c2 202) [] (Body 202 queued_body))
           else serve_live env (run_cascade env c1)))"

section \<open>The request\<close>

definition new_ctx :: "serve_env \<Rightarrow> string \<Rightarrow> pyval list \<Rightarrow> string \<Rightarrow> pydict \<Rightarrow> serve_ctx" where
  "new_ctx env user messages model params =
     \<lparr>px_user = user, px_params = params, px_config = se_config env, px_model = model, px_routed = model,
      px_routing_headers = [], px_tenant = ''default'', px_redis_prefix = [], px_qdrant = ''rag_docs'',
      px_tier = ''free'', px_admin = False,
      px_identity = \<lparr>ci_is_gateway = False, ci_principal = [], ci_team = []\<rparr>,
      px_impersonator = None, px_overrides = None, px_adapter = None, px_blocked = False, px_bypassed = False,
      px_cache_hit = False, px_dispatched = False, px_skip = [], px_optimised_tokens = 0, px_final_tokens = 0,
      px_provider_response = PNone, sv_messages = PList messages, sv_security_response = None,
      sv_cache_response = PNone, sv_batch_deferred = False, sv_cascade_plan = None, sv_cascade_response = None,
      sv_agent_response = None, sv_routing_mode = [], sv_cost = 0, sv_attempts = []\<rparr>"

definition serve_core ::
  "serve_env \<Rightarrow> loader \<Rightarrow> headers \<Rightarrow> admission \<Rightarrow> pyval list \<Rightarrow> string \<Rightarrow> pydict \<Rightarrow> loader \<times> served" where
  "serve_core env L hdrs a messages model params =
     (let params1 = entry_params (se_sha env) (se_fstr env) a hdrs messages model params;
          model1 = (if model = [] then se_fallback_model env else model);
          ctx = new_ctx env (text_of (se_fstr env) (ad_user a)) messages model1 params1
      in case count_request_tokens (se_encoder env model1) (se_tool_tokens env model1) messages
                (dget_or params1 ''tools'' PNone) of
           Inl _ \<Rightarrow> (L, finish ctx [] [] Server_Error)
         | Inr _ \<Rightarrow>
             (case process_request (se_pipe env) (se_run env) (se_reserve env) (se_count env) L hdrs ctx of
                (L', (c, _), out) \<Rightarrow>
                  (L', case out of
                         Inl (Stage_Raised (Rate_Limited limit_type)) \<Rightarrow>
                           (case rate_limit_reply limit_type of
                              (status, body) \<Rightarrow> finish c (record_outcome (se_persist env) c status) [] (Body status body))
                       | Inl _ \<Rightarrow> finish c [] [] Server_Error
                       | Inr _ \<Rightarrow> serve_after_pipeline env c)))"

text \<open>
  The OpenAI route. Every malformed body is a 400. A model that is no text has no \<open>lower\<close>, which the count
  of the first role's tokens calls.
\<close>

definition read_body ::
  "pyval \<Rightarrow> pyexc + pyval \<Rightarrow> string list \<Rightarrow> string list \<times> (int + pyval list \<times> pyval \<times> pydict)" where
  "read_body cfg body warned =
     (case body of
        Inr (PDict d) \<Rightarrow>
          (case parse_request d (map PStr (ingress_extra_allowed_params cfg)) warned of
             ((messages, model, params), warned') \<Rightarrow>
               (warned', case (validate_openai_request messages, messages) of
                           (None, PList ms) \<Rightarrow> Inr (ms, model, params)
                         | (Some status, _) \<Rightarrow> Inl status
                         | _ \<Rightarrow> Inl 400))
      | _ \<Rightarrow> (warned, Inl 400))"

record proxy_state =
  ps_keys :: key_cache
  ps_loader :: loader
  ps_warned :: "string list"

datatype chat_result = Rejected int | Crashed | Answered served

definition chat_completions ::
  "auth_env \<Rightarrow> serve_env \<Rightarrow> auth_request \<Rightarrow> pyexc + pyval \<Rightarrow> proxy_state \<Rightarrow> proxy_state \<times> chat_result" where
  "chat_completions auth env req body s =
     (case authenticate auth openai_ingress req (ps_keys s) of
        (kc, Inl (Refused r)) \<Rightarrow> (s\<lparr>ps_keys := kc\<rparr>, Rejected (status_of r))
      | (kc, Inl (Auth_Raised _)) \<Rightarrow> (s\<lparr>ps_keys := kc\<rparr>, Crashed)
      | (kc, Inr a) \<Rightarrow>
          (case read_body (se_config env) body (ps_warned s) of
             (warned, Inl status) \<Rightarrow> (s\<lparr>ps_keys := kc, ps_warned := warned\<rparr>, Rejected status)
           | (warned, Inr (messages, PStr model, params)) \<Rightarrow>
               (case serve_core env (ps_loader s) (rq_headers req) a messages model params of
                  (L, sv) \<Rightarrow> (s\<lparr>ps_keys := kc, ps_loader := L, ps_warned := warned\<rparr>, Answered sv))
           | (warned, Inr _) \<Rightarrow> (s\<lparr>ps_keys := kc, ps_warned := warned\<rparr>, Crashed)))"


section \<open>What is metered\<close>

text \<open>The rows and counters an answer earns.\<close>

definition meter_of :: "bool \<Rightarrow> serve_ctx \<Rightarrow> reply \<Rightarrow> meter list" where
  "meter_of persist c r =
     (case r of
        Body status _ \<Rightarrow>
          if status = 200 \<or> status = 202
          then Usage_Row (\<not> impersonated c) status # (if impersonated c then [] else bump_counters c)
          else if persist then [Usage_Row False status] else []
      | Http_Error status \<Rightarrow> if persist then [Usage_Row False status] else []
      | Server_Error \<Rightarrow> []
      | Live_Stream _ _ _ _ \<Rightarrow> [])"

definition metered :: "serve_env \<Rightarrow> served \<Rightarrow> bool" where
  "metered env sv \<longleftrightarrow> sd_meter sv = meter_of (se_persist env) (sd_ctx sv) (sd_reply sv)"

lemma metered_finish: "metered env (finish c m sent r) \<longleftrightarrow> m = meter_of (se_persist env) c r"
  by (simp add: metered_def finish_def)

lemma metered_raise [simp]: "metered env (finish c [] sent Server_Error)" "metered env (finish c [] sent (Live_Stream r t f w))"
  by (simp_all add: metered_finish meter_of_def)

lemma metered_refused [simp]:
  "status \<noteq> 200 \<Longrightarrow> status \<noteq> 202 \<Longrightarrow> metered env (finish c (record_outcome (se_persist env) c status) sent (Body status v))"
  "status \<noteq> 200 \<Longrightarrow> status \<noteq> 202 \<Longrightarrow> metered env (finish c (record_outcome (se_persist env) c status) sent (Http_Error status))"
  by (simp_all add: metered_finish meter_of_def record_outcome_def Let_def)

lemma metered_200 [simp]: "metered env (serve_200 env c v sent)"
  by (simp add: serve_200_def metered_finish meter_of_def record_outcome_def Let_def)

lemma metered_process [simp]: "metered env (process_and_serve env c v sent)"
  by (simp add: process_and_serve_def Let_def split: prod.split option.split)

lemma failure_status_not_served: "(\<And>i v. r \<noteq> Served i v) \<Longrightarrow> failure_status r \<noteq> 200 \<and> failure_status r \<noteq> 202"
  by (cases r) (auto simp: failure_status_def split: option.splits)

lemma metered_call_targets [simp]: "metered env (call_targets env c rcfg ts)"
proof (cases "call_with_resilience (script_of (se_provider env) ts) rcfg (px_redis_prefix c) (map pt_target ts)
             (se_store env) (se_now env)")
  case (Pair s r)
  show ?thesis
    using failure_status_not_served[of r]
    by (cases r) (simp_all add: call_targets_def Pair Let_def)
qed

lemma metered_call_provider [simp]: "metered env (call_provider env c)"
  by (simp add: call_provider_def Let_def split: sum.split key_answer.split prod.split option.split)

lemma metered_live [simp]: "metered env (serve_live env c)"
  by (simp add: serve_live_def split: option.split)

lemma metered_short_circuit [simp]: "metered env (short_circuit env c)"
  by (simp add: short_circuit_def Let_def split: prod.split)

lemma metered_deferred [simp]:
  "metered env (finish c (bill_batch_deferred c @ record_outcome p c 202) sent (Body 202 v))"
  by (simp add: metered_finish meter_of_def bill_batch_deferred_def record_outcome_def Let_def)

lemma metered_after_pipeline [simp]: "metered env (serve_after_pipeline env c)"
  by (simp add: serve_after_pipeline_def Let_def split: option.split)

lemma metered_rate_limit [simp]:
  "rate_limit_reply l = (st, v) \<Longrightarrow> metered env (finish c (record_outcome (se_persist env) c st) sent (Body st v))"
  by (auto simp: rate_limit_reply_def split: if_splits)

lemma metered_core: "metered env (snd (serve_core env L hdrs a ms model params))"
  by (auto simp: serve_core_def Let_def split: sum.split prod.split pipe_error.split stage_exc.split)

section \<open>What is sent, and with which key\<close>

definition stream_targets :: "reply \<Rightarrow> prepared list" where
  "stream_targets r = (case r of Live_Stream _ t (Inr ts) _ \<Rightarrow> t # ts | Live_Stream _ t _ _ \<Rightarrow> [t] | _ \<Rightarrow> [])"

definition stream_requests :: "reply \<Rightarrow> call_request list" where
  "stream_requests r = List.map_filter (\<lambda>t. case pt_request t of Inr rq \<Rightarrow> Some rq | Inl _ \<Rightarrow> None) (stream_targets r)"

text \<open>A request made with the key its tenant has for its provider.\<close>

definition own_key :: "serve_env \<Rightarrow> serve_ctx \<Rightarrow> call_request \<Rightarrow> bool" where
  "own_key env c rq \<longleftrightarrow> cr_tenant rq = px_tenant c \<and> se_key env (cr_provider rq) (px_tenant c) = Provider_Key (cr_key rq)"

lemma as_perr_Inr [simp]: "as_perr r = Inr x \<longleftrightarrow> r = Inr x"
  by (cases r) (simp_all add: as_perr_def)

lemma lift_py_Inr [simp]: "lift_py r = Inr x \<longleftrightarrow> r = Inr x"
  by (cases r) (simp_all add: lift_py_def)

lemma callable_Inr [simp]: "callable rq = Inr rq' \<longleftrightarrow> rq' = rq \<and> distinct (call_keywords rq)"
  by (auto simp: callable_def)

lemma request_of_fields:
  "request_of env c a provider model ps key params limits = Inr rq \<Longrightarrow>
   cr_provider rq = provider \<and> cr_tenant rq = px_tenant c \<and> cr_key rq = key \<and> cr_params rq = params"
  by (auto simp: request_of_def bind_res_Inr split: prod.splits)

lemma key_for_Inr: "key_for env c a provider = Inr k \<longleftrightarrow>
    se_key env provider (px_tenant c) = Provider_Key k \<and> (py_truthy k \<or> \<not> needs_key env a)"
  by (auto simp: key_for_def split: key_answer.splits)

lemma fallback_request_own_key:
  assumes "fallback_request env c eff stream provider model a ps = Inr rq"
  shows "own_key env c rq \<and> (\<forall>k\<in>set primary_scoped_params. dget (cr_params rq) k = None)"
  using assms
  by (auto simp: fallback_request_def bind_res_Inr key_for_Inr own_key_def Let_def primary_scoped_params_def
      with_usage_chunk_def dget_dset dget_pop_all dest!: request_of_fields)

definition keyed :: "serve_env \<Rightarrow> serve_ctx \<Rightarrow> prepared \<Rightarrow> bool" where
  "keyed env c t \<longleftrightarrow> (\<forall>rq. pt_request t = Inr rq \<longrightarrow> own_key env c rq)"

lemma all_results_all:
  "all_results f xs = Inr ys \<Longrightarrow> (\<And>x y. f x = Inr y \<Longrightarrow> P y) \<Longrightarrow> list_all P ys"
  by (induction xs arbitrary: ys) (auto simp: bind_res_Inr)

lemma fallback_targets_all:
  assumes "fallback_targets env c rcfg eff stream = Inr ts"
    and "\<And>provider m a ps rq. fallback_request env c eff stream provider m a ps = Inr rq \<Longrightarrow> P rq"
  shows "list_all (\<lambda>t. \<forall>rq. pt_request t = Inr rq \<longrightarrow> P rq) ts"
proof (cases "rc_enabled rcfg")
  case True
  then obtain ms where "all_results (\<lambda>m. bind_res (model_name m) (fallback_target env c eff stream)) ms = Inr ts"
    using assms(1) by (auto simp: fallback_targets_def bind_res_Inr)
  then show ?thesis
    by (rule all_results_all) (use assms(2) in \<open>auto simp: fallback_target_def bind_res_Inr Let_def\<close>)
qed (use assms(1) in \<open>simp add: fallback_targets_def\<close>)

lemma fallback_targets_keyed: "fallback_targets env c rcfg eff stream = Inr ts \<Longrightarrow> list_all (keyed env c) ts"
  unfolding keyed_def by (rule fallback_targets_all) (auto dest!: fallback_request_own_key)

lemma primary_target_keyed:
  assumes "primary_target env c eff provider key a = Inr (rcfg, t, w)"
    and "se_key env provider (px_tenant c) = Provider_Key key"
  shows "keyed env c t"
  using assms
  by (auto simp: primary_target_def bind_res_Inr Let_def keyed_def own_key_def dest!: request_of_fields)

lemma stream_targets_simps [simp]:
  "stream_targets (Body s v) = []" "stream_targets (Http_Error s) = []" "stream_targets Server_Error = []"
  by (simp_all add: stream_targets_def)

lemma sent_by_finish [simp]: "sd_sent (finish c m sent r) = sent" "sd_reply (finish c m sent r) = r"
    "sd_ctx (finish c m sent r) = c"
  by (simp_all add: finish_def)

lemma sent_by_200 [simp]: "sd_sent (serve_200 env c v sent) = sent" "stream_targets (sd_reply (serve_200 env c v sent)) = []"
  by (simp_all add: serve_200_def)

lemma sent_by_process [simp]:
  "sd_sent (process_and_serve env c v sent) = sent" "stream_targets (sd_reply (process_and_serve env c v sent)) = []"
  by (auto simp: process_and_serve_def Let_def split: prod.split option.split)

lemma sent_requests_keyed:
  assumes "list_all (keyed env c) ts" and "\<forall>(i, k)\<in>set calls. i < length ts" and "rq \<in> set (sent_requests ts calls)"
  shows "own_key env c rq"
  using assms by (auto simp: sent_requests_def keyed_def list_all_length split: sum.splits)

lemma call_targets_own_key:
  assumes "list_all (keyed env c) ts" and "rq \<in> set (sd_sent (call_targets env c rcfg ts))"
  shows "own_key env c rq"
proof -
  obtain s r where run: "call_with_resilience (script_of (se_provider env) ts) rcfg (px_redis_prefix c)
      (map pt_target ts) (se_store env) (se_now env) = (s, r)"
    by fastforce
  have "sd_sent (call_targets env c rcfg ts) = sent_requests ts (cs_calls s)"
    by (simp add: call_targets_def run Let_def split: call_result.split)
  then show ?thesis
    using sent_requests_keyed[OF assms(1), of "cs_calls s" rq] calls_ordered_and_bounded[OF run] assms(2)
    by (auto simp: split_beta)
qed

lemma call_targets_no_stream [simp]: "stream_targets (sd_reply (call_targets env c rcfg ts)) = []"
  by (cases "call_with_resilience (script_of (se_provider env) ts) rcfg (px_redis_prefix c) (map pt_target ts)
        (se_store env) (se_now env)")
    (simp add: call_targets_def Let_def split: call_result.split)

text \<open>
  A provider call goes through all its checks, or sends nothing.
\<close>

lemma call_provider_cases:
  obtains (no_call) "sd_sent (call_provider env c) = []" "stream_targets (sd_reply (call_provider env c)) = []"
  | (live) provider key a rcfg t w where
      "se_key env provider (px_tenant c) = Provider_Key key" "py_truthy key \<or> \<not> needs_key env a"
      "primary_target env c (effective_config env c) provider key a = Inr (rcfg, t, Some w)"
      "call_provider env c = finish c [] []
         (Live_Stream rcfg t (fallback_targets env c rcfg (effective_config env c) True) w)"
  | (plain) provider key a rcfg t ts where
      "se_key env provider (px_tenant c) = Provider_Key key" "py_truthy key \<or> \<not> needs_key env a"
      "primary_target env c (effective_config env c) provider key a = Inr (rcfg, t, None)"
      "fallback_targets env c rcfg (effective_config env c) False = Inr ts"
      "call_provider env c = call_targets env c rcfg (t # ts)"
proof -
  let ?cfg = "effective_config env c"
  show ?thesis
  proof (cases "\<exists>provider key a x. se_key env provider (px_tenant c) = Provider_Key key \<and>
      resolve_provider env (px_routed c) ?cfg = Inr provider \<and>
      bind_res (lift_py (py_get ?cfg ''providers'' (PList []))) (get_adapter (pe_default_provider (se_pipe env)) (px_routed c)) = Inr a \<and>
      (py_truthy key \<or> \<not> needs_key env a) \<and> primary_target env c ?cfg provider key a = Inr x")
    case True
    then obtain provider key a rcfg t wo where
      k: "se_key env provider (px_tenant c) = Provider_Key key" and
      r: "resolve_provider env (px_routed c) ?cfg = Inr provider" and
      ad: "bind_res (lift_py (py_get ?cfg ''providers'' (PList []))) (get_adapter (pe_default_provider (se_pipe env)) (px_routed c)) = Inr a" and
      u: "py_truthy key \<or> \<not> needs_key env a" and
      p: "primary_target env c ?cfg provider key a = Inr (rcfg, t, wo)"
      by (metis prod_cases3)
    show ?thesis
    proof (cases wo)
      case (Some w)
      then have "call_provider env c = finish c [] [] (Live_Stream rcfg t (fallback_targets env c rcfg ?cfg True) w)"
        using k r ad u p by (auto simp: call_provider_def Let_def)
      then show ?thesis using live[OF k u] p Some by simp
    next
      case None
      show ?thesis
      proof (cases "fallback_targets env c rcfg ?cfg False")
        case (Inl e)
        then have "call_provider env c = finish c [] [] Server_Error"
          using k r ad u p None by (auto simp: call_provider_def Let_def)
        then show ?thesis by (intro no_call) simp_all
      next
        case (Inr ts)
        then have "call_provider env c = call_targets env c rcfg (t # ts)"
          using k r ad u p None by (auto simp: call_provider_def Let_def)
        then show ?thesis using plain[OF k u] p None Inr by simp
      qed
    qed
  next
    case False
    then have "sd_sent (call_provider env c) = [] \<and> stream_targets (sd_reply (call_provider env c)) = []"
      by (auto simp: call_provider_def Let_def stream_targets_def split: sum.split key_answer.split option.split)
    then show ?thesis using no_call by simp
  qed
qed

lemma stream_requests_keyed: "list_all (keyed env c) (stream_targets r) \<Longrightarrow> rq \<in> set (stream_requests r) \<Longrightarrow> own_key env c rq"
  by (auto simp: stream_requests_def map_filter_def keyed_def list_all_iff split: sum.splits)

section \<open>Answers that send nothing\<close>

definition calls_out :: "served \<Rightarrow> bool" where
  "calls_out sv \<longleftrightarrow> sd_sent sv \<noteq> [] \<or> stream_targets (sd_reply sv) \<noteq> []"

lemma calls_out_simps [simp]:
  "\<not> calls_out (serve_200 env c v [])" "\<not> calls_out (process_and_serve env c v [])" "\<not> calls_out (short_circuit env c)"
  "\<not> calls_out (finish c m [] (Body st v))" "\<not> calls_out (finish c m [] (Http_Error st))" "\<not> calls_out (finish c m [] Server_Error)"
  by (simp_all add: calls_out_def short_circuit_def Let_def split: prod.split)

section \<open>Without a key\<close>

lemma no_key_nothing_sent:
  assumes "\<And>provider key. se_key env provider (px_tenant c) \<noteq> Provider_Key key"
  shows "sd_sent (call_provider env c) = [] \<and> stream_targets (sd_reply (call_provider env c)) = []"
  by (cases rule: call_provider_cases[of env c]) (use assms in auto)

section \<open>The body\<close>

lemma str_names_strs [simp]: "str_names (map PStr ns) = ns"
  by (induction ns) simp_all

lemma null_tool_calls_crash:
  assumes "PDict m \<in> set ms" and "dget m ''tool_calls'' = Some PNone"
  shows "sd_reply (snd (serve_core env L hdrs a ms model params)) = Server_Error"
proof -
  have "\<exists>e. count_request_tokens enc ct ms tools = Inl e" for enc ct tools
    using null_tool_calls_uncountable[OF assms, of enc] by (auto simp: count_request_tokens_def bind_res_def)
  then obtain e where "count_request_tokens (se_encoder env (if model = [] then se_fallback_model env else model))
      (se_tool_tokens env (if model = [] then se_fallback_model env else model)) ms
      (dget_or (entry_params (se_sha env) (se_fstr env) a hdrs ms model params) ''tools'' PNone) = Inl e"
    by blast
  then show ?thesis by (simp add: serve_core_def Let_def)
qed

section \<open>The tenant of a request\<close>

lemma with_default_identity:
  "with_default c v = Inr c' \<Longrightarrow> px_impersonator c' = px_impersonator c \<and> px_admin c' = px_admin c"
  by (cases v) (auto simp: with_default_def split: if_splits)

lemma default_model_identity:
  assumes "default_model c = Inr c'"
  shows "px_impersonator c' = px_impersonator c \<and> px_admin c' = px_admin c"
proof (cases "py_truthy (dget_or (px_params c) ''_model_defaulted'' PNone)")
  case True
  then have "\<exists>v. with_default c v = Inr c'"
    using assms unfolding default_model_def Let_def with_default_def[symmetric]
    by (simp only: if_False simp_thms bind_res_Inr) blast
  then show ?thesis using with_default_identity by blast
next
  case False
  then have "c' = c" using assms unfolding default_model_def by (simp only: if_True simp_thms sum.inject)
  then show ?thesis by simp
qed

lemma prepare_identity:
  assumes "prepare env L hdrs ctx = (L', Inr c)"
  shows "px_impersonator c = px_impersonator (fst (resolve_caller env hdrs ctx)) \<and>
         px_admin c = px_admin (fst (resolve_caller env hdrs ctx))"
proof -
  obtain c1 t where C: "resolve_caller env hdrs ctx = (c1, t)" by (cases "resolve_caller env hdrs ctx")
  obtain cfg2 ov where "bind_res (lift_py (default_model (c1\<lparr>px_config := apply_operator_overlay cfg2 (px_tenant c1),
      px_overrides := override_or ov (px_overrides c1)\<rparr>))) (pin_adapter env) = Inr c"
    using assms C by (auto simp: prepare_def Let_def split: prod.splits sum.splits)
  then show ?thesis
    using C by (auto simp: bind_res_Inr pin_adapter_def dest!: default_model_identity)
qed

lemma stamped:
  "ad_meta a = PDict m \<Longrightarrow>
   dget (entry_params sha fstr a hdrs ms model params) ''_auth_tenant_id'' = Some (dget_or m ''tenant_id'' PNone) \<and>
   dget (entry_params sha fstr a hdrs ms model params) ''_auth_admin'' =
     Some (PBool (py_truthy (dget_or m ''admin'' (PBool False))))"
  by (simp add: entry_params_def stamp_identity_def Let_def meta_dict_def dget_dset)

section \<open>What a body can bring in\<close>

lemma validated:
  "validate_openai_request (PList ms) = None \<longleftrightarrow> ms \<noteq> [] \<and> list_all valid_message ms"
  by (simp add: validate_openai_request_def)

section \<open>Streamed requests\<close>

definition asks_usage :: "call_request \<Rightarrow> bool" where
  "asks_usage rq \<longleftrightarrow> (\<exists>o_d. dget (cr_params rq) ''stream_options'' = Some (PDict o_d) \<and>
     dget o_d ''include_usage'' = Some (PBool True))"

lemma with_usage_chunk_asks: "cr_params rq = with_usage_chunk p \<Longrightarrow> asks_usage rq"
  by (auto simp: asks_usage_def with_usage_chunk_def stream_options_with_usage_def dget_dset split: pyval.split)

lemma fallback_request_asks: "fallback_request env c eff True provider m a ps = Inr rq \<Longrightarrow> asks_usage rq"
  by (auto simp: fallback_request_def bind_res_Inr Let_def intro: with_usage_chunk_asks dest!: request_of_fields)

lemma primary_target_asks:
  assumes "primary_target env c eff provider key a = Inr (rcfg, t, Some w)" and "pt_request t = Inr rq"
  shows "asks_usage rq"
  using assms
  by (auto simp: primary_target_def bind_res_Inr Let_def intro: with_usage_chunk_asks dest!: request_of_fields
      split: if_splits)

section \<open>A demonstration\<close>
definition demo_message :: pyval where
  "demo_message = PDict [(''role'', PStr ''user''), (''content'', PStr ''hi'')]"

definition demo_answer :: pyval where
  "demo_answer = PDict [(''choices'', PList [PDict [(''message'', PDict [(''content'', PStr ''hello'')])]])]"

definition demo_serve :: serve_env where
  "demo_serve =
     \<lparr>se_sha = (\<lambda>s. CHR ''#'' # s), se_fstr = (\<lambda>_. ''?''),
      se_config = PDict [(''providers'', PList [PDict [(''name'', PStr ''openai''), (''model_prefixes'', PList [PStr ''gpt''])]])],
      se_fallback_model = ''gpt-4o'', se_encoder = (\<lambda>_. None), se_tool_tokens = (\<lambda>_ _. Inr 0), se_persist = True,
      se_pipe = \<lparr>pe_loads = (\<lambda>_. Inl ValueError), pe_now = 0, pe_fetched = Inr None, pe_registry = [],
                 pe_default_provider = Inr (PStr ''openai'')\<rparr>,
      se_run = (\<lambda>_ c. (c, None)), se_reserve = (\<lambda>c. (c, None)), se_count = (\<lambda>_. 7),
      se_rrun = (\<lambda>_ c v. (c, v, Inr v)), se_note_called = (\<lambda>c _. c), se_price = (\<lambda>c _. c), se_book = (\<lambda>c _. c),
      se_price_deferred = (\<lambda>c. c), se_cascade = (\<lambda>c. (c, Inl ValueError)),
      se_key = (\<lambda>_ tenant. if tenant = ''acme'' then Provider_Key (PStr ''sk-acme'') else Key_Missing),
      se_provider = (\<lambda>_ _. (Inr demo_answer, 1)), se_stream = (\<lambda>_ _. (Inr ([], None), 1)),
      se_store = new_store, se_now = 0\<rparr>"

definition demo_ctx :: "pydict \<Rightarrow> serve_ctx" where
  "demo_ctx params = (new_ctx demo_serve ''u'' [demo_message] ''gpt-4o'' params)\<lparr>px_tenant := ''acme''\<rparr>"

section \<open>Properties\<close>










text \<open>
  Every streamed request asks the provider for its usage, on the primary and on every failover target,
  whatever the client's own stream options say: metering cannot be switched off by a client.
\<close>

lemma streamed_calls_ask_for_their_usage:
  assumes "rq \<in> set (stream_requests (sd_reply (call_provider env c)))"
  shows "\<exists>o_d. dget (cr_params rq) ''stream_options'' = Some (PDict o_d) \<and> dget o_d ''include_usage'' = Some (PBool True)"
proof -
  have "asks_usage rq"
  proof (cases rule: call_provider_cases[of env c])
    case no_call
    then show ?thesis using assms by (simp add: stream_requests_def map_filter_def)
  next
    case (live provider key a rcfg t w)
    have "list_all (\<lambda>t. \<forall>rq. pt_request t = Inr rq \<longrightarrow> asks_usage rq) (stream_targets (sd_reply (call_provider env c)))"
      using live(4) primary_target_asks[OF live(3)] fallback_targets_all[where P = asks_usage, OF _ fallback_request_asks]
      by (auto simp: stream_targets_def split: sum.split)
    then show ?thesis using assms by (auto simp: stream_requests_def map_filter_def list_all_iff split: sum.splits)
  next
    case (plain provider key a rcfg t ts)
    then show ?thesis using assms by (simp add: stream_requests_def map_filter_def)
  qed
  then show ?thesis by (simp add: asks_usage_def)
qed

lemma streamed_calls_ask_for_their_usage_witness:
  "\<exists>o_d. dget (cr_params (hd (stream_requests (sd_reply (call_provider demo_serve
       (demo_ctx [(''stream'', PBool True), (''stream_options'', PDict [(''include_usage'', PBool False)])])))))) ''stream_options'' =
     Some (PDict o_d) \<and> dget o_d ''include_usage'' = Some (PBool True)"
proof -
  let ?rs = "stream_requests (sd_reply (call_provider demo_serve
       (demo_ctx [(''stream'', PBool True), (''stream_options'', PDict [(''include_usage'', PBool False)])])))"
  have "map cr_provider ?rs = [''openai'']" by code_simp
  then have "hd ?rs \<in> set ?rs" by (cases ?rs) simp_all
  from streamed_calls_ask_for_their_usage[OF this] show ?thesis .
qed

end
