(* ===== verification/Streaming.thy ===== *)
theory Streaming
  imports Serve Tool_Gate
begin

text \<open>
  \<open>main.py\<close>, \<open>_stream_response\<close> and \<open>_as_requested_stream\<close>: relaying a provider's chunks, and sending a whole
  answer as the stream a client asked for. Events are what is sent, one Python value per \<open>data:\<close> line.
  Arguments: what the provider streams and how the call is priced. The measurement of G23, the pruning
  signal of G08, the routing step and the timings are left out; the verdict of the tool gate is the gate
  itself, for \<open>gate_finish\<close>.
\<close>

section \<open>Reading a chunk\<close>

definition first_choice_delta :: "pydict \<Rightarrow> pydict option" where
  "first_choice_delta cd =
     (case py_or (dget_or cd ''choices'' PNone) (PList [PDict []]) of
        PList (PDict ch # _) \<Rightarrow> (case py_or (dget_or ch ''delta'' PNone) (PDict []) of PDict d \<Rightarrow> Some d | _ \<Rightarrow> None)
      | _ \<Rightarrow> None)"

definition text_field :: "pydict \<Rightarrow> string \<Rightarrow> string list" where
  "text_field d k = (case dget_or d k PNone of PStr s \<Rightarrow> [s] | _ \<Rightarrow> [])"

text \<open>The tool calls of a delta, up to the first one that cannot be read: texts generated, names called.\<close>

fun read_calls :: "pyval list \<Rightarrow> string list \<times> string list" where
  "read_calls [] = ([], [])"
| "read_calls (v # vs) =
     (case py_or v (PDict []) of
        PDict call \<Rightarrow>
          (case py_or (dget_or call ''function'' PNone) (PDict []) of
             PDict fn \<Rightarrow>
               (case read_calls vs of
                  (gen, names) \<Rightarrow> (text_field fn ''name'' @ text_field fn ''arguments'' @ gen,
                                  filter (\<lambda>n. n \<noteq> []) (text_field fn ''name'') @ names))
           | _ \<Rightarrow> ([], []))
      | _ \<Rightarrow> ([], []))"

definition read_delta :: "pydict \<Rightarrow> string list \<times> string list" where
  "read_delta cd =
     (case first_choice_delta cd of
        None \<Rightarrow> ([], [])
      | Some d \<Rightarrow>
          (case read_calls (case py_iter (py_or (dget_or d ''tool_calls'' PNone) (PList [])) of Inr vs \<Rightarrow> vs | Inl _ \<Rightarrow> []) of
             (gen, names) \<Rightarrow> (text_field d ''content'' @ text_field d ''reasoning_content'' @ gen, names)))"

section \<open>The tool gate on a chunk\<close>

text \<open>
  What the gate leaves of a chunk when it raises on it: the choices before the one it raised on are done.
\<close>

fun left_choices :: "stream_gate \<Rightarrow> pyval list \<Rightarrow> pyval list" where
  "left_choices g [] = []"
| "left_choices g (v # vs) =
     (case filter_choice g v of (g1, Inl _) \<Rightarrow> v # vs | (g1, Inr (v', _)) \<Rightarrow> v' # left_choices g1 vs)"

definition left_of_chunk :: "stream_gate \<Rightarrow> pydict \<Rightarrow> pydict" where
  "left_of_chunk g cd =
     (case dget cd ''choices'' of Some (PList cs) \<Rightarrow> dset ''choices'' (PList (left_choices g cs)) cd | _ \<Rightarrow> cd)"

definition gate_chunk :: "stream_gate option \<Rightarrow> pydict \<Rightarrow> stream_gate option \<times> pydict option" where
  "gate_chunk gate cd =
     (case gate of
        None \<Rightarrow> (None, Some cd)
      | Some g \<Rightarrow>
          (case filter_chunk g (PDict cd) of
             (g1, Inl _) \<Rightarrow> (Some g1, Some (left_of_chunk g cd))
           | (g1, Inr (Some (PDict out))) \<Rightarrow> (Some g1, Some out)
           | (g1, Inr _) \<Rightarrow> (Some g1, None)))"

section \<open>Relaying\<close>

datatype event = Chunk pydict | Done_Event | Error_Event bool

record relay =
  rl_gate :: "stream_gate option"
  rl_events :: "event list"
  rl_usage :: pyval
  rl_generated :: "string list"
  rl_called :: "string list"
  rl_served :: bool

definition new_relay :: "stream_gate option \<Rightarrow> relay" where
  "new_relay gate = \<lparr>rl_gate = gate, rl_events = [], rl_usage = PDict [], rl_generated = [], rl_called = [], rl_served = False\<rparr>"

text \<open>The chunk the client may see of its usage: none of it, the chunk without it, or all of it.\<close>

definition without_usage :: "bool \<Rightarrow> pydict \<Rightarrow> pydict option" where
  "without_usage withhold cd =
     (if withhold \<and> dget cd ''usage'' \<noteq> None
      then if py_truthy (dget_or cd ''usage'' PNone) \<and> \<not> py_truthy (dget_or cd ''choices'' PNone) then None
           else Some (dpop ''usage'' cd)
      else Some cd)"

definition relay_chunk :: "bool \<Rightarrow> pydict \<Rightarrow> relay \<Rightarrow> relay" where
  "relay_chunk withhold cd s =
     (let s1 = s\<lparr>rl_served := True,
                rl_usage := (if py_truthy (dget_or cd ''usage'' PNone) then dget_or cd ''usage'' PNone else rl_usage s)\<rparr>
      in case without_usage withhold cd of
           None \<Rightarrow> s1
         | Some cd1 \<Rightarrow>
             (case (read_delta cd1, gate_chunk (rl_gate s) cd1) of
                ((gen, names), (g, out)) \<Rightarrow>
                  s1\<lparr>rl_generated := rl_generated s @ gen, rl_called := rl_called s @ names, rl_gate := g,
                     rl_events := rl_events s @ (case out of Some o1 \<Rightarrow> [Chunk o1] | None \<Rightarrow> [])\<rparr>))"

section \<open>The whole stream\<close>

text \<open>A client may leave once the provider has sent some chunks; nothing more is relayed then.\<close>

record stream_env =
  st_gate :: "serve_ctx \<Rightarrow> stream_gate option"
  st_price :: "serve_ctx \<Rightarrow> pyval \<Rightarrow> string list \<Rightarrow> serve_ctx"
  st_leaves :: "nat option"

record streamed =
  sm_ctx :: serve_ctx
  sm_meter :: "meter list"
  sm_sent :: "call_request list"
  sm_relay :: relay

definition rate_limited :: "perr \<Rightarrow> bool" where
  "rate_limited e \<longleftrightarrow> class_name e = ''RateLimitError''"

definition is_rate_limit :: "'a call_result \<Rightarrow> bool" where
  "is_rate_limit r = (case r of Reraised e \<Rightarrow> rate_limited e | All_Targets_Failed _ (Some e) \<Rightarrow> rate_limited e | _ \<Rightarrow> False)"

definition end_stream ::
  "stream_env \<Rightarrow> serve_env \<Rightarrow> serve_ctx \<Rightarrow> call_request list \<Rightarrow> relay \<Rightarrow> int \<Rightarrow> streamed" where
  "end_stream st env c sent s fail_status =
     (let c1 = (if rl_served s then st_price st c (rl_usage s) (rl_generated s) else c)
      in \<lparr>sm_ctx = c1, sm_meter = record_outcome (se_persist env) c1 (if rl_served s then 200 else fail_status),
          sm_sent = sent, sm_relay = s\<rparr>)"

definition fail_status :: "bool \<Rightarrow> int" where
  "fail_status rl = (if rl then 429 else 502)"

definition with_event :: "event \<Rightarrow> relay \<Rightarrow> relay" where
  "with_event e s = s\<lparr>rl_events := rl_events s @ [e]\<rparr>"

text \<open>What the client hears of a feed, and how it ends when the client is still there.\<close>

definition heard :: "nat option \<Rightarrow> feed \<Rightarrow> pydict list \<times> perr option option" where
  "heard leaves fd =
     (case fd of (chunks, broken) \<Rightarrow>
        (case leaves of
           Some n \<Rightarrow> if n < length chunks then (take n chunks, None) else (chunks, Some broken)
         | None \<Rightarrow> (chunks, Some broken)))"

definition relay_feed ::
  "stream_env \<Rightarrow> serve_env \<Rightarrow> serve_ctx \<Rightarrow> call_request list \<Rightarrow> bool \<Rightarrow> relay \<Rightarrow> feed \<Rightarrow> streamed" where
  "relay_feed st env c sent withhold s0 fd =
     (case heard (st_leaves st) fd of (chunks, ending) \<Rightarrow>
        (let s = fold (relay_chunk withhold) chunks s0
         in case ending of
              None \<Rightarrow> end_stream st env c sent s 502
            | Some None \<Rightarrow> end_stream st env c sent (with_event Done_Event s) 502
            | Some (Some e) \<Rightarrow>
                end_stream st env c sent (with_event (Error_Event (rate_limited e)) s) (fail_status (rate_limited e))))"

definition stream_response ::
  "stream_env \<Rightarrow> serve_env \<Rightarrow> serve_ctx \<Rightarrow> resilience_config \<Rightarrow> prepared \<Rightarrow> pyexc + prepared list \<Rightarrow> bool \<Rightarrow> streamed" where
  "stream_response st env c rcfg t fallbacks withhold =
     (let s0 = new_relay (st_gate st c) in
      case fallbacks of
        Inl _ \<Rightarrow> end_stream st env c [] (with_event (Error_Event False) s0) 502
      | Inr ts \<Rightarrow>
          (case call_with_resilience (script_of (se_stream env) (t # ts)) rcfg (px_redis_prefix c) (map pt_target (t # ts))
                  (se_store env) (se_now env) of
             (s, r) \<Rightarrow>
               (let c1 = c\<lparr>sv_attempts := sv_attempts c @ cs_attempts s\<rparr>; sent = sent_requests (t # ts) (cs_calls s) in
                case r of
                  Served i fd \<Rightarrow> relay_feed st env (pin_winner ((t # ts) ! i) c1) sent withhold s0 fd
                | _ \<Rightarrow> end_stream st env c1 sent (with_event (Error_Event (is_rate_limit r)) s0) (fail_status (is_rate_limit r)))))"

section \<open>A whole answer as a stream\<close>

text \<open>A message that is neither null nor an object cannot become a delta.\<close>

fun index_calls :: "int \<Rightarrow> pyval list \<Rightarrow> pyexc + pyval list" where
  "index_calls i [] = Inr []"
| "index_calls i (v # vs) =
     (case v of
        PDict tc \<Rightarrow> map_sum id (\<lambda>ys. PDict (dset ''index'' (dget_or tc ''index'' (PInt i)) tc) # ys) (index_calls (i + 1) vs)
      | _ \<Rightarrow> Inl AttributeError)"

definition delta_of_message :: "pyval \<Rightarrow> pyexc + pydict" where
  "delta_of_message msg =
     (case py_or msg (PDict []) of
        PDict d \<Rightarrow>
          (let tcs = dget_or d ''tool_calls'' PNone in
           if py_truthy tcs
           then bind_res (py_iter tcs) (\<lambda>vs. map_sum id (\<lambda>ys. dset ''tool_calls'' (PList ys) d) (index_calls 0 vs))
           else Inr d)
      | _ \<Rightarrow> Inl TypeError)"

definition chunk_choice :: "pyval \<Rightarrow> pyexc + pyval" where
  "chunk_choice ch =
     (case ch of
        PDict d \<Rightarrow> map_sum id (\<lambda>delta. PDict (dset ''delta'' (PDict delta) (dpop ''message'' d)))
                     (delta_of_message (dget_or d ''message'' PNone))
      | _ \<Rightarrow> Inl AttributeError)"

definition completion_to_stream_chunk :: "pydict \<Rightarrow> pyexc + pydict" where
  "completion_to_stream_chunk body =
     bind_res (py_iter (py_or (dget_or body ''choices'' PNone) (PList []))) (\<lambda>chs.
       map_sum id (\<lambda>ys. dset ''choices'' (PList ys) (dpop ''choices'' body)) (all_results chunk_choice chs))"

definition usage_frame :: "pydict \<Rightarrow> pyval \<Rightarrow> pydict" where
  "usage_frame chunk usage =
     dset ''usage'' usage (dset ''choices'' (PList [])
       (List.map_filter (\<lambda>k. map_option (\<lambda>v. (k, v)) (dget chunk k)) [''id'', ''object'', ''created'', ''model'']))"

definition one_shot_frames :: "int \<Rightarrow> bool \<Rightarrow> pydict \<Rightarrow> pyexc + pydict list" where
  "one_shot_frames now withhold body =
     map_sum id (\<lambda>chunk0.
       let chunk1 = dset ''object'' (PStr ''chat.completion.chunk'') chunk0;
           chunk2 = (if dget chunk1 ''created'' = None then dset ''created'' (PInt now) chunk1 else chunk1);
           usage = dget_or chunk2 ''usage'' PNone;
           chunk = dpop ''usage'' chunk2
       in chunk # (if py_truthy usage \<and> \<not> withhold then [usage_frame chunk usage] else []))
     (completion_to_stream_chunk body)"

text \<open>Only a completion answered with 200 is resent as a stream.\<close>

definition as_requested_stream :: "int \<Rightarrow> bool \<Rightarrow> reply \<Rightarrow> (pyexc + pydict list) option" where
  "as_requested_stream now withhold r =
     (case r of
        Body status (PDict d) \<Rightarrow>
          (case dget d ''choices'' of
             Some (PList _) \<Rightarrow> if status = 200 then Some (one_shot_frames now withhold d) else None
           | _ \<Rightarrow> None)
      | _ \<Rightarrow> None)"

section \<open>What is relayed\<close>

lemma filter_chunk_shape:
  assumes "filter_chunk g (PDict cd) = (g1, Inr (Some v))"
  shows "\<exists>out. v = PDict out \<and> (out = cd \<or> (\<exists>cs. out = dset ''choices'' cs cd))"
proof -
  consider "v = PDict cd" | cs where "dget cd ''choices'' = Some (PList cs)" "cs \<noteq> []" "sg_mode g \<noteq> ''off''"
    using assms by (cases "dget cd ''choices''"; cases "the (dget cd ''choices'')")
      (auto simp: filter_chunk_def split: if_splits)
  then show ?thesis
  proof cases
    case 2
    then show ?thesis using assms
      by (auto simp: filter_chunk_def Let_def split: prod.splits sum.splits if_splits)
  qed simp
qed

lemma filter_chunk_keeps:
  "filter_chunk g (PDict cd) = (g1, Inr (Some (PDict out))) \<Longrightarrow> k \<noteq> ''choices'' \<Longrightarrow> dget out k = dget cd k"
  using filter_chunk_shape[of g cd g1 "PDict out"] by (auto simp: dget_dset)

lemma gate_chunk_keeps:
  assumes "gate_chunk gate cd = (gate', Some out)" and "k \<noteq> ''choices''"
  shows "dget out k = dget cd k"
proof (cases gate)
  case (Some g)
  show ?thesis
  proof (cases "filter_chunk g (PDict cd)")
    case (Pair g1 r)
    have "dget (left_of_chunk g cd) k = dget cd k"
      using assms(2) by (simp add: left_of_chunk_def dget_dset split: option.split pyval.split)
    then show ?thesis
      using assms Some Pair filter_chunk_keeps[of g cd g1 out k]
      by (auto simp: gate_chunk_def split: sum.splits option.splits pyval.splits)
  qed
qed (use assms in \<open>simp add: gate_chunk_def\<close>)

lemma without_usage_None: "without_usage True cd = Some cd1 \<Longrightarrow> dget cd1 ''usage'' = None"
  by (auto simp: without_usage_def dget_dpop split: if_splits)

definition shown_chunks :: "event list \<Rightarrow> pydict list" where
  "shown_chunks es = List.map_filter (\<lambda>e. case e of Chunk c \<Rightarrow> Some c | _ \<Rightarrow> None) es"

lemma shown_append [simp]: "shown_chunks (xs @ ys) = shown_chunks xs @ shown_chunks ys"
  by (simp add: shown_chunks_def map_filter_def)

lemma shown_simps [simp]: "shown_chunks [] = []" "shown_chunks [Chunk c] = [c]" "shown_chunks [Done_Event] = []"
    "shown_chunks [Error_Event b] = []"
  by (simp_all add: shown_chunks_def map_filter_def)

lemma relay_chunk_shown:
  "\<exists>os. shown_chunks (rl_events (relay_chunk w cd s)) = shown_chunks (rl_events s) @ os \<and>
     (\<forall>out\<in>set os. \<exists>cd1. without_usage w cd = Some cd1 \<and> snd (gate_chunk (rl_gate s) cd1) = Some out)"
  by (auto simp: relay_chunk_def Let_def split: option.split prod.split)

lemma relay_served [simp]: "rl_served (fold (relay_chunk w) cds s) \<longleftrightarrow> rl_served s \<or> cds \<noteq> []"
proof (induction cds arbitrary: s)
  case (Cons cd cds)
  have "rl_served (relay_chunk w cd s)" by (simp add: relay_chunk_def Let_def split: option.split prod.split)
  then show ?case using Cons by simp
qed simp

lemma relay_hides_usage:
  "\<forall>out \<in> set (shown_chunks (rl_events s)). dget out ''usage'' = None \<Longrightarrow>
   \<forall>out \<in> set (shown_chunks (rl_events (fold (relay_chunk True) cds s))). dget out ''usage'' = None"
proof (induction cds arbitrary: s)
  case (Cons cd cds)
  have "\<forall>out \<in> set (shown_chunks (rl_events (relay_chunk True cd s))). dget out ''usage'' = None"
  proof -
    obtain os where os: "shown_chunks (rl_events (relay_chunk True cd s)) = shown_chunks (rl_events s) @ os"
      and shown: "\<And>out. out \<in> set os \<Longrightarrow>
        \<exists>cd1. without_usage True cd = Some cd1 \<and> snd (gate_chunk (rl_gate s) cd1) = Some out"
      using relay_chunk_shown[of True cd s] by auto
    have "dget out ''usage'' = None" if "out \<in> set os" for out
    proof -
      from shown[OF that] obtain cd1 where cd1: "without_usage True cd = Some cd1"
        and out: "snd (gate_chunk (rl_gate s) cd1) = Some out" by auto
      have "gate_chunk (rl_gate s) cd1 = (fst (gate_chunk (rl_gate s) cd1), Some out)" using out by (metis prod.collapse)
      from gate_chunk_keeps[OF this, of "''usage''"] without_usage_None[OF cd1] show ?thesis by simp
    qed
    then show ?thesis using os Cons.prems by auto
  qed
  then show ?case using Cons.IH by simp
qed simp

text \<open>With no gate, the chunks pass as they came, but for the usage a client did not ask for.\<close>

lemma relay_ungated:
  "rl_gate s = None \<Longrightarrow>
   rl_gate (fold (relay_chunk w) cds s) = None \<and>
   rl_events (fold (relay_chunk w) cds s) = rl_events s @ map Chunk (List.map_filter (without_usage w) cds)"
proof (induction cds arbitrary: s)
  case (Cons cd cds)
  have "rl_gate (relay_chunk w cd s) = None \<and>
        rl_events (relay_chunk w cd s) = rl_events s @ map Chunk (List.map_filter (without_usage w) [cd])"
    using Cons.prems by (simp add: relay_chunk_def Let_def gate_chunk_def map_filter_def split: option.split prod.split)
  then show ?case using Cons.IH[of "relay_chunk w cd s"] by (auto simp: map_filter_def split: option.split)
qed (simp add: map_filter_def)

lemma without_usage_False [simp]: "without_usage False = Some"
  by (rule ext) (simp add: without_usage_def)

section \<open>What a stream is billed\<close>

lemma end_stream_fields [simp]:
  "sm_relay (end_stream st env c sent s f) = s" "sm_sent (end_stream st env c sent s f) = sent"
  "sm_meter (end_stream st env c sent s f) =
     record_outcome (se_persist env) (sm_ctx (end_stream st env c sent s f)) (if rl_served s then 200 else f)"
  by (simp_all add: end_stream_def Let_def)

lemma with_event_fields [simp]: "rl_served (with_event e s) = rl_served s" "rl_gate (with_event e s) = rl_gate s"
    "shown_chunks (rl_events (with_event e s)) = shown_chunks (rl_events s) @ shown_chunks [e]"
  by (simp_all add: with_event_def)

lemma new_relay_fields [simp]: "rl_served (new_relay g) = False" "rl_events (new_relay g) = []" "rl_gate (new_relay g) = g"
  by (simp_all add: new_relay_def)

definition stream_metered :: "serve_env \<Rightarrow> streamed \<Rightarrow> bool" where
  "stream_metered env x \<longleftrightarrow>
     (\<exists>f. (f = 429 \<or> f = 502) \<and>
        sm_meter x = record_outcome (se_persist env) (sm_ctx x) (if rl_served (sm_relay x) then 200 else f))"

lemma stream_metered_end: "f = 429 \<or> f = 502 \<Longrightarrow> stream_metered env (end_stream st env c sent s f)"
  unfolding stream_metered_def by (intro exI[of _ f]) simp

lemma fail_status_cases: "fail_status b = 429 \<or> fail_status b = 502"
  by (simp add: fail_status_def)

lemma stream_metered_feed: "stream_metered env (relay_feed st env c sent w s0 fd)"
  by (auto simp: relay_feed_def Let_def stream_metered_end fail_status_cases split: prod.split option.split)

lemma stream_metered: "stream_metered env (stream_response st env c rcfg t fs w)"
  by (auto simp: stream_response_def Let_def stream_metered_end fail_status_cases stream_metered_feed
      split: prod.split sum.split call_result.split)

lemma ungated_stream_passes_through:
  assumes "st_gate st c = None" and "st_leaves st = None"
    and "call_with_resilience (script_of (se_stream env) (t # ts)) rcfg (px_redis_prefix c) (map pt_target (t # ts))
           (se_store env) (se_now env) = (s, Served i (chunks, broken))"
  shows "rl_events (sm_relay (stream_response st env c rcfg t (Inr ts) withhold)) =
    map Chunk (List.map_filter (without_usage withhold) chunks) @
    [case broken of None \<Rightarrow> Done_Event | Some e \<Rightarrow> Error_Event (rate_limited e)]"
proof -
  have "rl_events (fold (relay_chunk withhold) chunks (new_relay None)) =
      map Chunk (List.map_filter (without_usage withhold) chunks)"
    using relay_ungated[of "new_relay None" withhold chunks] by simp
  then show ?thesis
    using assms by (simp add: stream_response_def Let_def relay_feed_def heard_def with_event_def split: option.split)
qed

text \<open>A chunk the gate strips whole was never shown, and the stream is billed all the same.\<close>

lemma stripped_stream_is_billed:
  assumes "cds \<noteq> []" and "\<And>cd. cd \<in> set cds \<Longrightarrow> without_usage w cd = None"
  shows "rl_events (fold (relay_chunk w) cds (new_relay g)) = [] \<and> rl_served (fold (relay_chunk w) cds (new_relay g))"
proof -
  have "rl_events (fold (relay_chunk w) cds s) = rl_events s" for s
    using assms(2)
  proof (induction cds arbitrary: s)
    case (Cons cd cds)
    then show ?case by (simp add: relay_chunk_def Let_def)
  qed simp
  then show ?thesis using assms(1) by simp
qed

section \<open>What a resent answer holds\<close>

lemma all_results_list2:
  "all_results f xs = Inr ys \<Longrightarrow> (\<And>x y. f x = Inr y \<Longrightarrow> R x y) \<Longrightarrow> list_all2 R xs ys"
  by (induction xs arbitrary: ys) (auto simp: bind_res_Inr)

text \<open>A call with its index, and a choice whose message has become its delta.\<close>

definition call_kept :: "pyval \<Rightarrow> pyval \<Rightarrow> bool" where
  "call_kept v w \<longleftrightarrow> (\<exists>c d. v = PDict c \<and> w = PDict d \<and> (\<forall>k. k \<noteq> ''index'' \<longrightarrow> dget d k = dget c k))"

definition delta_kept :: "pydict \<Rightarrow> pydict \<Rightarrow> bool" where
  "delta_kept m d \<longleftrightarrow> (\<forall>k. k \<noteq> ''tool_calls'' \<longrightarrow> dget d k = dget m k) \<and>
     (\<forall>vs. dget m ''tool_calls'' = Some (PList vs) \<longrightarrow>
        (\<exists>ws. dget d ''tool_calls'' = Some (PList ws) \<and> list_all2 call_kept vs ws))"

definition choice_kept :: "pyval \<Rightarrow> pyval \<Rightarrow> bool" where
  "choice_kept v w \<longleftrightarrow>
     (\<exists>c d delta. v = PDict c \<and> w = PDict d \<and> (\<forall>k. k \<noteq> ''message'' \<and> k \<noteq> ''delta'' \<longrightarrow> dget d k = dget c k) \<and>
        dget d ''delta'' = Some (PDict delta) \<and>
        (\<forall>m. dget c ''message'' = Some (PDict m) \<longrightarrow> delta_kept m delta))"

lemma index_calls_kept: "index_calls i vs = Inr ws \<Longrightarrow> list_all2 call_kept vs ws"
proof (induction vs arbitrary: i ws)
  case (Cons v vs)
  then obtain c where v: "v = PDict c" by (cases v) auto
  then obtain ys where "index_calls (i + 1) vs = Inr ys"
    and "ws = PDict (dset ''index'' (dget_or c ''index'' (PInt i)) c) # ys"
    using Cons.prems by (cases "index_calls (i + 1) vs") auto
  then show ?case using Cons.IH v by (auto simp: call_kept_def dget_dset)
qed simp

lemma py_or_dict [simp]: "py_or (PDict m) (PDict []) = PDict m"
  by (cases m) (simp_all add: py_or_def)

lemma delta_of_message_kept:
  assumes "delta_of_message (PDict m) = Inr d"
  shows "delta_kept m d"
proof (cases "py_truthy (dget_or m ''tool_calls'' PNone)")
  case False
  then have "d = m" using assms by (simp add: delta_of_message_def Let_def)
  then show ?thesis using False by (auto simp: delta_kept_def dget_or_def)
next
  case True
  then obtain vs where vs: "py_iter (dget_or m ''tool_calls'' PNone) = Inr vs"
    using assms by (auto simp: delta_of_message_def Let_def bind_res_Inr)
  then obtain ws where ws: "index_calls 0 vs = Inr ws" and d: "d = dset ''tool_calls'' (PList ws) m"
    using assms True by (cases "index_calls 0 vs") (auto simp: delta_of_message_def Let_def)
  show ?thesis
    using vs index_calls_kept[OF ws] by (auto simp: delta_kept_def d dget_dset dget_or_def py_iter_def)
qed

lemma chunk_choice_kept:
  assumes "chunk_choice v = Inr w"
  shows "choice_kept v w"
proof -
  obtain c where v: "v = PDict c" using assms by (cases v) (simp_all add: chunk_choice_def)
  obtain delta where d: "delta_of_message (dget_or c ''message'' PNone) = Inr delta"
    and w: "w = PDict (dset ''delta'' (PDict delta) (dpop ''message'' c))"
    using assms by (cases "delta_of_message (dget_or c ''message'' PNone)") (auto simp: chunk_choice_def v)
  show ?thesis
    using d delta_of_message_kept
    by (auto simp: choice_kept_def v w dget_dset dget_dpop dget_or_def)
qed

section \<open>Properties\<close>

text \<open>
  A streamed request is billed exactly when the provider sent at least one chunk, and then as one served
  request; one that fails before its first chunk, on every target, leaves at most one row with its error,
  never billed.
\<close>

lemma a_stream_is_billed_iff_a_chunk_came:
  "\<exists>f. (f = 429 \<or> f = 502) \<and>
     (let x = stream_response st env c rcfg t fallbacks withhold in
      sm_meter x =
        (if rl_served (sm_relay x) \<and> \<not> impersonated (sm_ctx x) then Usage_Row True 200 # bump_counters (sm_ctx x)
         else if rl_served (sm_relay x) then [Usage_Row False 200]
         else if se_persist env then [Usage_Row False f] else []))"
  using stream_metered[of env st c rcfg t fallbacks withhold]
  unfolding stream_metered_def Let_def by (auto simp: record_outcome_def Let_def)


definition demo_chunk :: pydict where
  "demo_chunk = [(''choices'', PList [PDict [(''delta'', PDict [(''content'', PStr ''he'')])]]), (''usage'', PDict [(''total_tokens'', PInt 9)])]"

definition demo_stream :: streamed where
  "demo_stream =
     (let c = demo_ctx [(''stream'', PBool True), (''stream_options'', PDict [(''include_usage'', PBool False)])];
          env = demo_serve\<lparr>se_stream := (\<lambda>_ _. (Inr ([demo_chunk], None), 1))\<rparr>
      in case sd_reply (call_provider env c) of
           Live_Stream rcfg t fs w \<Rightarrow>
             stream_response \<lparr>st_gate = (\<lambda>_. None), st_price = (\<lambda>c _ _. c), st_leaves = None\<rparr> env c rcfg t fs w
         | _ \<Rightarrow> end_stream \<lparr>st_gate = (\<lambda>_. None), st_price = (\<lambda>c _ _. c), st_leaves = None\<rparr> env c [] (new_relay None) 502)"


text \<open>
  A whole answer resent as a stream keeps its content: every choice keeps its fields, its message arrives
  as the delta with every tool call intact but for the index it gets, and the usage comes in a chunk of its
  own, only for a client that may see it.
\<close>

lemma resent_answer_keeps_its_content:
  assumes "one_shot_frames now withhold body = Inr frames" and "dget body ''choices'' = Some (PList chs)"
  shows "\<exists>f rest cs. frames = f # rest \<and> dget f ''choices'' = Some (PList cs) \<and> list_all2 choice_kept chs cs \<and>
    dget f ''usage'' = None \<and>
    (rest = [] \<or> (\<exists>u. rest = [u] \<and> \<not> withhold \<and> dget u ''usage'' = dget body ''usage'' \<and> dget u ''choices'' = Some (PList [])))"
proof -
  obtain chunk0 where c0: "completion_to_stream_chunk body = Inr chunk0"
    using assms(1) by (cases "completion_to_stream_chunk body") (auto simp: one_shot_frames_def)
  have chs: "py_iter (py_or (dget_or body ''choices'' PNone) (PList [])) = Inr chs"
    using assms(2) by (cases chs) (simp_all add: dget_or_def py_or_def py_iter_def)
  obtain cs where cs: "all_results chunk_choice chs = Inr cs"
    and k0: "chunk0 = dset ''choices'' (PList cs) (dpop ''choices'' body)"
    using c0 by (cases "all_results chunk_choice chs") (auto simp: completion_to_stream_chunk_def chs)
  have "list_all2 choice_kept chs cs" by (rule all_results_list2[OF cs chunk_choice_kept])
  moreover have "dget chunk0 ''choices'' = Some (PList cs)" "dget chunk0 ''usage'' = dget body ''usage''"
    by (simp_all add: k0 dget_dset dget_dpop)
  ultimately show ?thesis
    using assms(1) unfolding one_shot_frames_def c0
    by (auto simp: Let_def dget_dset dget_dpop usage_frame_def dget_or_def split: option.splits if_splits)
qed

lemma resent_answer_keeps_its_content_witness:
  "\<exists>f rest cs. one_shot_frames 7 True (dset ''usage'' (PInt 9) [(''choices'', PList [PDict [(''message'', PDict [(''content'', PStr ''hello'')])]])])
       = Inr (f # rest) \<and> dget f ''choices'' = Some (PList cs) \<and> length cs = 1 \<and> rest = []"
proof -
  let ?b = "dset ''usage'' (PInt 9) [(''choices'', PList [PDict [(''message'', PDict [(''content'', PStr ''hello'')])]])]"
  have "\<not> isl (one_shot_frames 7 True ?b)" by code_simp
  then obtain fs where f: "one_shot_frames 7 True ?b = Inr fs" by (cases "one_shot_frames 7 True ?b") auto
  have "dget ?b ''choices'' = Some (PList [PDict [(''message'', PDict [(''content'', PStr ''hello'')])]])" by code_simp
  from resent_answer_keeps_its_content[OF f this] show ?thesis
    using f by (auto dest!: list_all2_lengthD)
qed

end
