(* ===== verification/Routing_Rules.thy ===== *)
theory Routing_Rules
  imports Py_Prelude
begin

text \<open>
  \<open>middleware/g06_rules.py\<close>: the declarative routing rules of a tenant. Arguments: \<open>str\<close> of a value that
  is no text, and the regular expressions, given as whether a pattern compiles, whether it is found in a text
  and how long that search takes (with the time since the one before). The cache of compiled patterns changes
  no result and is left out, as are logs and the counter of timeouts.
\<close>

section \<open>The engine\<close>

record rule_engine =
  re_str :: "pyval \<Rightarrow> string"
  re_compiles :: "string \<Rightarrow> bool"
  re_found :: "string \<Rightarrow> string \<Rightarrow> bool"
  re_cost :: "string \<Rightarrow> string \<Rightarrow> rat"
  re_limited :: bool

record rule_request =
  rq_text :: string
  rq_tokens :: int
  rq_model :: string
  rq_tools :: bool
  rq_params :: pydict
  rq_user :: string

definition rule_override_keys :: "string list" where
  "rule_override_keys =
     [''strategy'', ''strategy_weights'', ''canary_pct'', ''max_escalation_cost_usd'',
      ''cascade_confidence_threshold'', ''expected_output_tokens_estimate'']"

definition max_rules :: nat where "max_rules = 100"
definition max_pattern_len :: nat where "max_pattern_len = 512"
definition max_match_text_chars :: nat where "max_match_text_chars = 20000"
definition match_budget_seconds :: rat where "match_budget_seconds = 5 / 100"

definition as_int :: "pyval \<Rightarrow> int \<Rightarrow> int" where
  "as_int value dflt = (case py_int value of Some n \<Rightarrow> n | None \<Rightarrow> dflt)"

definition compile_pattern :: "rule_engine \<Rightarrow> pyval \<Rightarrow> string option" where
  "compile_pattern eng p =
     (case p of
        PStr s \<Rightarrow> if s \<noteq> [] \<and> length s \<le> max_pattern_len \<and> re_compiles eng s then Some s else None
      | _ \<Rightarrow> None)"

text \<open>What is left of the time budget; \<open>None\<close> once a search has run out of it.\<close>

type_synonym budget = "rat option"

definition search_within :: "rule_engine \<Rightarrow> string \<Rightarrow> string \<Rightarrow> budget \<Rightarrow> bool option \<times> budget" where
  "search_within eng p text b =
     (if \<not> re_limited eng then (Some (re_found eng p text), b)
      else (case b of
              None \<Rightarrow> (None, None)
            | Some left \<Rightarrow>
                if left \<le> 0 \<or> left < re_cost eng p text then (None, None)
                else (Some (re_found eng p text), Some (left - re_cost eng p text))))"

text \<open>The patterns of a rule: whether one was found, whether one ran out of time.\<close>

fun search_patterns :: "rule_engine \<Rightarrow> string \<Rightarrow> pyval list \<Rightarrow> bool \<Rightarrow> budget \<Rightarrow> (bool \<times> bool) \<times> budget" where
  "search_patterns eng text [] timed_out b = ((False, timed_out), b)"
| "search_patterns eng text (p # ps) timed_out b =
     (case compile_pattern eng p of
        None \<Rightarrow> search_patterns eng text ps timed_out b
      | Some s \<Rightarrow>
          (case search_within eng s text b of
             (Some True, b') \<Rightarrow> ((True, timed_out), b')
           | (found, b') \<Rightarrow> search_patterns eng text ps (timed_out \<or> found = None) b'))"

section \<open>One rule\<close>

text \<open>Each check passes (\<open>None\<close>), names what failed, or raises.\<close>

type_synonym check = "pyexc + string option"

definition check_keywords :: "rule_request \<Rightarrow> pydict \<Rightarrow> check" where
  "check_keywords rq m =
     (let keywords = dget_or m ''keywords'' PNone in
      if \<not> py_truthy keywords then Inr None
      else bind_res (py_iter keywords) (\<lambda>ks.
             if list_ex (\<lambda>k. case k of PStr s \<Rightarrow> s \<noteq> [] \<and> py_in (py_lower s) (py_lower (rq_text rq)) | _ \<Rightarrow> False) ks
             then Inr None else Inr (Some ''keywords'')))"

definition check_patterns :: "rule_engine \<Rightarrow> rule_request \<Rightarrow> pydict \<Rightarrow> budget \<Rightarrow> check \<times> budget" where
  "check_patterns eng rq m b =
     (let patterns = dget_or m ''patterns'' PNone in
      if \<not> py_truthy patterns then (Inr None, b)
      else (case py_iter patterns of
              Inl e \<Rightarrow> (Inl e, b)
            | Inr ps \<Rightarrow>
                (case search_patterns eng (rq_text rq) ps False b of
                   ((True, _), b') \<Rightarrow> (Inr None, b')
                 | ((False, t), b') \<Rightarrow> (Inr (Some (if t then ''patterns (timed out)'' else ''patterns'')), b'))))"

definition check_tokens :: "rule_request \<Rightarrow> pydict \<Rightarrow> check" where
  "check_tokens rq m =
     (let lo = as_int (dget_or m ''min_prompt_tokens'' PNone) 0;
          hi = as_int (dget_or m ''max_prompt_tokens'' PNone) 0
      in if lo \<noteq> 0 \<and> rq_tokens rq < lo then Inr (Some ''min_prompt_tokens'')
         else if hi \<noteq> 0 \<and> hi < rq_tokens rq then Inr (Some ''max_prompt_tokens'')
         else Inr None)"

definition check_member :: "string \<Rightarrow> string \<Rightarrow> pydict \<Rightarrow> check" where
  "check_member field x m =
     (let wanted = dget_or m field PNone in
      if \<not> py_truthy wanted then Inr None
      else map_sum id (\<lambda>yes. if yes then None else Some field) (contains (PStr x) wanted))"

definition check_tools :: "rule_request \<Rightarrow> pydict \<Rightarrow> check" where
  "check_tools rq m =
     (case dget m ''has_tools'' of
        None \<Rightarrow> Inr None
      | Some v \<Rightarrow> if rq_tools rq = py_truthy v then Inr None else Inr (Some ''has_tools''))"

definition str_of :: "rule_engine \<Rightarrow> pyval \<Rightarrow> string" where
  "str_of eng v = (case v of PStr s \<Rightarrow> s | _ \<Rightarrow> re_str eng v)"

definition check_params :: "rule_engine \<Rightarrow> rule_request \<Rightarrow> pydict \<Rightarrow> check" where
  "check_params eng rq m =
     (case dget m ''params'' of
        Some (PDict wanted) \<Rightarrow>
          (case find (\<lambda>(key, w). \<not> list_ex (\<lambda>x. str_of eng (dget_or (rq_params rq) key PNone) = str_of eng x)
                                     (case w of PList ws \<Rightarrow> ws | v \<Rightarrow> [v])) wanted of
             Some (key, _) \<Rightarrow> Inr (Some (''params.'' @ key))
           | None \<Rightarrow> Inr None)
      | _ \<Rightarrow> Inr None)"

definition and_check :: "check \<Rightarrow> check \<Rightarrow> check" where
  "and_check a b = (case a of Inr None \<Rightarrow> b | _ \<Rightarrow> a)"

definition rule_matches :: "rule_engine \<Rightarrow> rule_request \<Rightarrow> pydict \<Rightarrow> budget \<Rightarrow> check \<times> budget" where
  "rule_matches eng rq rule b =
     (case dget_or rule ''match'' PNone of
        PDict m \<Rightarrow>
          if m = [] then (Inr (Some ''match''), b)
          else (case check_keywords rq m of
                  Inr None \<Rightarrow>
                    (case check_patterns eng rq m b of
                       (p, b') \<Rightarrow>
                         (and_check p (and_check (check_tokens rq m) (and_check (check_member ''models'' (rq_model rq) m)
                            (and_check (check_tools rq m) (and_check (check_params eng rq m)
                               (check_member ''user_ids'' (rq_user rq) m))))), b'))
                | failed \<Rightarrow> (failed, b))
      | _ \<Rightarrow> (Inr (Some ''match''), b))"

section \<open>The rules of a request\<close>

definition rule_priority :: "pydict \<Rightarrow> int" where
  "rule_priority rule = as_int (dget_or rule ''priority'' (PInt 0)) 0"

definition enabled_rules :: "pyval list \<Rightarrow> pydict list" where
  "enabled_rules raw =
     filter (\<lambda>r. py_truthy (dget_or r ''enabled'' (PBool True))) (List.map_filter dict_of raw)"

definition normalize_rules :: "pydict \<Rightarrow> pydict list" where
  "normalize_rules cfg =
     (case dget cfg ''rules'' of
        Some (PList raw) \<Rightarrow> take max_rules (sort_key (\<lambda>r. - rule_priority r) (enabled_rules raw))
      | _ \<Rightarrow> [])"

record trace_row =
  tr_id :: pyval
  tr_matched :: bool
  tr_failed :: string

fun evaluate_from ::
  "rule_engine \<Rightarrow> rule_request \<Rightarrow> pydict list \<Rightarrow> budget \<Rightarrow> trace_row list \<Rightarrow> pyexc + (pydict option \<times> trace_row list)" where
  "evaluate_from eng rq [] b tr = Inr (None, tr)"
| "evaluate_from eng rq (r # rs) b tr =
     (case rule_matches eng rq r b of
        (Inl e, _) \<Rightarrow> Inl e
      | (Inr failed, b') \<Rightarrow>
          (let row = \<lparr>tr_id = dget_or r ''id'' (PStr ''?''), tr_matched = (failed = None),
                      tr_failed = (case failed of None \<Rightarrow> [] | Some f \<Rightarrow> f)\<rparr>
           in if failed = None then Inr (Some r, tr @ [row]) else evaluate_from eng rq rs b' (tr @ [row])))"

definition evaluate_rules :: "rule_engine \<Rightarrow> bool \<Rightarrow> rule_request \<Rightarrow> pydict list \<Rightarrow> pyexc + (pydict option \<times> trace_row list)" where
  "evaluate_rules eng explain rq rules =
     map_sum id (map_prod id (\<lambda>tr. if explain then tr else []))
       (evaluate_from eng rq rules (Some match_budget_seconds) [])"

definition string_content :: "pydict \<Rightarrow> string option" where
  "string_content m = (case dget_or m ''content'' PNone of PStr s \<Rightarrow> Some s | _ \<Rightarrow> None)"

definition spaced :: "string list \<Rightarrow> string" where
  "spaced xs = concat (case xs of [] \<Rightarrow> [] | x # r \<Rightarrow> x # map (Cons CHR '' '') r)"

definition query_text :: "pydict list \<Rightarrow> string" where
  "query_text messages =
     (let own = filter (\<lambda>m. dget_or m ''role'' PNone \<noteq> PStr ''system'' \<and> string_content m \<noteq> None) messages
      in spaced (List.map_filter string_content (if own = [] then messages else own)))"

definition match_text :: "pydict list \<Rightarrow> string" where
  "match_text messages = take max_match_text_chars (query_text messages)"

record rule_ctx =
  rx_messages :: "pydict list"
  rx_params :: pydict
  rx_headers :: "pydict option"
  rx_tokens :: int
  rx_model :: string
  rx_user :: string

definition request_for :: "rule_ctx \<Rightarrow> rule_request" where
  "request_for c =
     \<lparr>rq_text = match_text (rx_messages c), rq_tokens = rx_tokens c, rq_model = rx_model c,
      rq_tools = py_truthy (dget_or (rx_params c) ''tools'' PNone),
      rq_params = (case rx_headers c of Some h \<Rightarrow> fold (\<lambda>(k, v) d. dset k v d) h (rx_params c) | None \<Rightarrow> rx_params c),
      rq_user = rx_user c\<rparr>"

definition match_for_ctx :: "rule_engine \<Rightarrow> rule_ctx \<Rightarrow> pydict \<Rightarrow> pyexc + pydict option" where
  "match_for_ctx eng c cfg =
     (let rules = normalize_rules cfg in
      if rules = [] then Inr None else map_sum id fst (evaluate_rules eng False (request_for c) rules))"

definition rule_action :: "pydict \<Rightarrow> pydict option" where
  "rule_action rule = (case dget_or rule ''action'' PNone of PDict a \<Rightarrow> Some a | _ \<Rightarrow> None)"

definition effective_cfg :: "pydict \<Rightarrow> pydict \<Rightarrow> pydict" where
  "effective_cfg cfg rule =
     (case rule_action rule of
        None \<Rightarrow> cfg
      | Some action \<Rightarrow>
          (let overrides = (case dget_or action ''overrides'' PNone of PDict ov \<Rightarrow> ov | _ \<Rightarrow> []);
               allow_escalation = py_truthy (dget_or action ''allow_escalation'' (PBool False));
               applicable = filter (\<lambda>kv. fst kv \<in> set rule_override_keys) overrides;
               eff = fold (\<lambda>(k, v) d. dset k v d) applicable cfg
           in if allow_escalation then dset ''allow_escalation_above_requested'' (PBool True) eff else eff))"

section \<open>The order of the rules\<close>

lemma normalize_sorted: "sorted (map (\<lambda>r. - rule_priority r) (normalize_rules cfg))"
  by (auto simp: normalize_rules_def take_map[symmetric] sorted_wrt_take split: option.split pyval.split)

lemma normalize_length: "length (normalize_rules cfg) \<le> max_rules"
  by (auto simp: normalize_rules_def split: option.split pyval.split)

lemma normalize_subset:
  "r \<in> set (normalize_rules cfg) \<Longrightarrow>
   \<exists>raw. dget cfg ''rules'' = Some (PList raw) \<and> r \<in> set (enabled_rules raw)"
  by (cases "dget cfg ''rules''") (auto simp: normalize_rules_def split: pyval.splits dest!: in_set_takeD)

text \<open>A rule left out by the cap ranks no higher than any rule kept.\<close>

lemma cap_keeps_the_highest:
  assumes "dget cfg ''rules'' = Some (PList raw)" and "r \<in> set (enabled_rules raw)" and "r \<notin> set (normalize_rules cfg)"
    and "k \<in> set (normalize_rules cfg)"
  shows "rule_priority r \<le> rule_priority k"
proof -
  let ?s = "sort_key (\<lambda>r. - rule_priority r) (enabled_rules raw)"
  have n: "normalize_rules cfg = take max_rules ?s" using assms(1) by (simp add: normalize_rules_def)
  have "r \<in> set (drop max_rules ?s)"
    using assms(2,3) n by (metis Un_iff append_take_drop_id set_append set_sort)
  moreover have "sorted (map (\<lambda>r. - rule_priority r) (take max_rules ?s @ drop max_rules ?s))" by simp
  ultimately have "- rule_priority k \<le> - rule_priority r" using assms(4) n by (simp only: map_append sorted_append) auto
  then show ?thesis by simp
qed

section \<open>The first match\<close>

definition fails :: "rule_engine \<Rightarrow> rule_request \<Rightarrow> pydict \<Rightarrow> bool" where
  "fails eng rq r \<longleftrightarrow> (\<exists>b f b'. rule_matches eng rq r b = (Inr (Some f), b'))"

definition passes :: "rule_engine \<Rightarrow> rule_request \<Rightarrow> pydict \<Rightarrow> bool" where
  "passes eng rq r \<longleftrightarrow> (\<exists>b b'. rule_matches eng rq r b = (Inr None, b'))"

lemma evaluate_first:
  "evaluate_from eng rq rules b tr = Inr (Some r, tr') \<Longrightarrow>
   \<exists>before after. rules = before @ r # after \<and> list_all (fails eng rq) before \<and> passes eng rq r"
proof (induction rules arbitrary: b tr)
  case (Cons x xs)
  obtain m b' where m: "rule_matches eng rq x b = (Inr m, b')"
    using Cons.prems by (auto split: prod.splits sum.splits)
  show ?case
  proof (cases m)
    case None
    then have "r = x" using Cons.prems m by (simp add: Let_def)
    moreover have "passes eng rq x" using m None by (auto simp: passes_def)
    ultimately show ?thesis by (intro exI[of _ "[]"] exI[of _ xs]) simp
  next
    case (Some f)
    then have "evaluate_from eng rq xs b' (tr @ [\<lparr>tr_id = dget_or x ''id'' (PStr ''?''), tr_matched = False, tr_failed = f\<rparr>]) = Inr (Some r, tr')"
      using Cons.prems m by (simp add: Let_def)
    from Cons.IH[OF this] obtain before after where "xs = before @ r # after" "list_all (fails eng rq) before" "passes eng rq r"
      by blast
    then show ?thesis using m Some by (intro exI[of _ "x # before"] exI[of _ after]) (simp, auto simp: fails_def)
  qed
qed simp

lemma evaluate_none:
  "evaluate_from eng rq rules b tr = Inr (None, tr') \<Longrightarrow> list_all (fails eng rq) rules"
proof (induction rules arbitrary: b tr)
  case (Cons x xs)
  then show ?case by (auto simp: Let_def fails_def split: prod.splits sum.splits if_splits)
qed simp


text \<open>
  The first matching rule wins: the rule a request is routed by is an enabled rule of the configuration that
  matches the request, and every enabled rule of higher priority failed to match it.
\<close>

lemma first_matching_rule_wins:
  assumes "match_for_ctx eng c cfg = Inr (Some r)"
  shows "passes eng (request_for c) r \<and>
    (\<exists>raw. dget cfg ''rules'' = Some (PList raw) \<and> r \<in> set (enabled_rules raw) \<and>
       list_all (\<lambda>x. rule_priority r < rule_priority x \<longrightarrow> fails eng (request_for c) x) (enabled_rules raw))"
proof -
  let ?rules = "normalize_rules cfg" and ?rq = "request_for c"
  obtain tr where "evaluate_from eng ?rq ?rules (Some match_budget_seconds) [] = Inr (Some r, tr)"
    using assms by (auto simp: match_for_ctx_def evaluate_rules_def Let_def map_sum_def split: if_splits sum.splits)
  from evaluate_first[OF this] obtain before after where e: "?rules = before @ r # after"
    and f: "list_all (fails eng ?rq) before" and p: "passes eng ?rq r" by blast
  have r: "r \<in> set ?rules" using e by simp
  from normalize_subset[OF this] obtain raw where raw: "dget cfg ''rules'' = Some (PList raw)" "r \<in> set (enabled_rules raw)" by blast
  have "fails eng ?rq x" if x: "x \<in> set (enabled_rules raw)" "rule_priority r < rule_priority x" for x
  proof -
    have "x \<in> set ?rules" using cap_keeps_the_highest[OF raw(1) x(1) _ r] x(2) by fastforce
    moreover have "sorted (map (\<lambda>r. - rule_priority r) (before @ r # after))" using normalize_sorted[of cfg] e by simp
    then have "\<forall>y \<in> set (r # after). rule_priority y \<le> rule_priority r" by (auto simp: sorted_append)
    ultimately have "x \<in> set before" using e x(2) by auto
    then show ?thesis using f by (simp add: list_all_iff)
  qed
  then show ?thesis using p raw by (auto simp: list_all_iff)
qed

section \<open>What a rule may change\<close>

lemma fold_dset_other: "k \<notin> fst ` set kvs \<Longrightarrow> dget (fold (\<lambda>(x, y). dset x y) kvs d) k = dget d k"
  by (induction kvs arbitrary: d) (auto simp: dget_dset)

lemma overrides_other:
  "k \<notin> set ks \<Longrightarrow> dget (fold (\<lambda>(x, y). dset x y) (filter (\<lambda>kv. fst kv \<in> set ks) kvs) d) k = dget d k"
  by (rule fold_dset_other) auto

lemma rules_change_only_their_knobs:
  assumes "k \<notin> set rule_override_keys" and "k \<noteq> ''allow_escalation_above_requested''"
  shows "dget (effective_cfg cfg rule) k = dget cfg k"
  using assms by (auto simp: effective_cfg_def Let_def dget_dset overrides_other split: option.split pyval.split)

lemma escalation_needs_permission:
  "rule_action rule = Some a \<Longrightarrow> \<not> py_truthy (dget_or a ''allow_escalation'' (PBool False)) \<Longrightarrow>
   dget (effective_cfg cfg rule) ''allow_escalation_above_requested'' = dget cfg ''allow_escalation_above_requested''"
  using overrides_other[of "''allow_escalation_above_requested''" rule_override_keys]
  by (auto simp: effective_cfg_def Let_def rule_override_keys_def split: pyval.split)

section \<open>Rules with lists where lists belong\<close>

definition listed :: "pydict \<Rightarrow> string \<Rightarrow> bool" where
  "listed m k \<longleftrightarrow> (case dget_or m k PNone of PList _ \<Rightarrow> True | v \<Rightarrow> \<not> py_truthy v)"

definition well_typed_rule :: "pydict \<Rightarrow> bool" where
  "well_typed_rule r \<longleftrightarrow>
     (case dget_or r ''match'' PNone of
        PDict m \<Rightarrow> list_all (listed m) [''keywords'', ''patterns'', ''models'', ''user_ids''] | _ \<Rightarrow> True)"

lemma well_typed_checks:
  assumes "listed m k"
  shows "\<exists>f. check_member k x m = Inr f" "k = ''keywords'' \<Longrightarrow> \<exists>f. check_keywords rq m = Inr f"
    "k = ''patterns'' \<Longrightarrow> \<exists>f b'. check_patterns eng rq m b = (Inr f, b')"
  using assms
  by (auto simp: listed_def check_member_def check_keywords_def check_patterns_def Let_def contains_def py_iter_def
      split: pyval.splits prod.splits bool.splits)

lemma well_typed_matches:
  assumes "well_typed_rule r"
  shows "\<exists>f b'. rule_matches eng rq r b = (Inr f, b')"
proof (cases "dget_or r ''match'' PNone")
  case (PDict m)
  then have l: "listed m ''keywords''" "listed m ''patterns''" "listed m ''models''" "listed m ''user_ids''"
    using assms by (simp_all add: well_typed_rule_def)
  obtain k p b' mo us where "check_keywords rq m = Inr k" "check_patterns eng rq m b = (Inr p, b')"
    "check_member ''models'' (rq_model rq) m = Inr mo" "check_member ''user_ids'' (rq_user rq) m = Inr us"
    using well_typed_checks(2)[OF l(1)] well_typed_checks(3)[OF l(2)] well_typed_checks(1)[OF l(3)]
      well_typed_checks(1)[OF l(4)] by metis
  moreover have "\<exists>f. check_tokens rq m = Inr f" "\<exists>f. check_tools rq m = Inr f" "\<exists>f. check_params eng rq m = Inr f"
    by (auto simp: check_tokens_def check_tools_def check_params_def Let_def split: option.split pyval.split)
  ultimately show ?thesis using PDict by (auto simp: rule_matches_def and_check_def split: option.split)
qed (simp_all add: rule_matches_def)

text \<open>
  A rule never crashes a request: when the matchers that take lists hold lists, evaluating the rules returns a
  rule or none for every request, whatever its messages, headers, tools and tokens are.
\<close>

lemma well_typed_rules_never_raise:
  assumes "list_all well_typed_rule (normalize_rules cfg)"
  shows "\<exists>r. match_for_ctx eng c cfg = Inr r"
proof -
  have "\<exists>r tr'. evaluate_from eng rq rules b tr = Inr (r, tr')" if "list_all well_typed_rule rules" for rq rules b tr
    using that
  proof (induction rules arbitrary: b tr)
    case (Cons x xs)
    then obtain f b' where "rule_matches eng rq x b = (Inr f, b')" using well_typed_matches[of x] by fastforce
    then show ?case using Cons by (auto simp: Let_def)
  qed simp
  from this[OF assms] obtain r tr' where
    "evaluate_from eng (request_for c) (normalize_rules cfg) (Some match_budget_seconds) [] = Inr (r, tr')" by blast
  then show ?thesis by (simp add: match_for_ctx_def evaluate_rules_def Let_def)
qed

text \<open>
  A scalar where a list belongs is not harmless: a number raises, a text is searched character by character,
  and a text of user ids matches every caller without an id.
\<close>

lemma scalar_matchers:
  "check_member ''models'' x [(''models'', PInt 5)] = Inl TypeError"
  "rq_text rq = ''r'' \<Longrightarrow> check_keywords rq [(''keywords'', PStr ''refund'')] = Inr None"
  "check_member ''user_ids'' [] [(''user_ids'', PStr ''alice'')] = Inr None"
proof -
  show "check_member ''models'' x [(''models'', PInt 5)] = Inl TypeError"
    by (simp add: check_member_def dget_or_def contains_def)
  have "py_in (py_lower ''r'') (py_lower ''r'')" by code_simp
  then show "rq_text rq = ''r'' \<Longrightarrow> check_keywords rq [(''keywords'', PStr ''refund'')] = Inr None"
    by (simp add: check_keywords_def dget_or_def py_iter_def)
  have "py_in [] ''alice''" by code_simp
  then show "check_member ''user_ids'' [] [(''user_ids'', PStr ''alice'')] = Inr None"
    by (simp add: check_member_def dget_or_def contains_def)
qed

section \<open>The time of a request's searches\<close>

text \<open>The searches that ran to their end, with what they cost.\<close>

fun spent_on :: "rule_engine \<Rightarrow> string \<Rightarrow> pyval list \<Rightarrow> budget \<Rightarrow> rat" where
  "spent_on eng text [] b = 0"
| "spent_on eng text (p # ps) b =
     (case compile_pattern eng p of
        None \<Rightarrow> spent_on eng text ps b
      | Some s \<Rightarrow>
          (case search_within eng s text b of
             (Some True, b') \<Rightarrow> re_cost eng s text
           | (Some False, b') \<Rightarrow> re_cost eng s text + spent_on eng text ps b'
           | (None, b') \<Rightarrow> spent_on eng text ps b'))"

definition left_of :: "budget \<Rightarrow> rat" where
  "left_of b = (case b of None \<Rightarrow> 0 | Some x \<Rightarrow> max 0 x)"

lemma search_left:
  assumes "re_limited eng" and "\<And>s t. 0 \<le> re_cost eng s t" and "search_within eng s text b = (f, b')"
  shows "(f = None \<longrightarrow> b' = None) \<and> (f \<noteq> None \<longrightarrow> re_cost eng s text + left_of b' \<le> left_of b)"
  using assms(1,3) assms(2)[of s "text"] by (auto simp: search_within_def left_of_def split: option.splits if_splits)

lemma searches_stay_in_the_budget:
  assumes "re_limited eng" and "\<And>s t. 0 \<le> re_cost eng s t"
  shows "spent_on eng text ps b \<le> left_of b"
proof (induction ps arbitrary: b)
  case Nil
  then show ?case by (simp add: left_of_def split: option.split)
next
  case (Cons p ps)
  show ?case
  proof (cases "compile_pattern eng p")
    case None
    then show ?thesis using Cons by simp
  next
    case (Some s)
    obtain f b' where sw: "search_within eng s text b = (f, b')" by fastforce
    note sl = search_left[OF assms sw]
    have n: "0 \<le> left_of b" "0 \<le> left_of b'" by (auto simp: left_of_def split: option.split)
    show ?thesis using sl sw Some n Cons[of b'] by (cases f) (auto simp: left_of_def split: bool.split)
  qed
qed

section \<open>A sample configuration\<close>

definition demo_engine :: rule_engine where
  "demo_engine = \<lparr>re_str = (\<lambda>v. case v of PStr s \<Rightarrow> s | _ \<Rightarrow> []), re_compiles = (\<lambda>_. True), re_found = (\<lambda>_ _. False), re_cost = (\<lambda>_ _. 0),
     re_limited = True\<rparr>"

definition demo_rule :: pydict where
  "demo_rule = [(''id'', PStr ''a''), (''priority'', PInt 1), (''match'', PDict [(''models'', PList [PStr ''gpt-4o''])])]"

definition demo_rule_cfg :: pydict where
  "demo_rule_cfg = [(''rules'', PList
     [PDict demo_rule,
      PDict [(''id'', PStr ''b''), (''priority'', PInt 5), (''match'', PDict [(''models'', PList [PStr ''gpt-x''])])]])]"

definition demo_rule_ctx :: rule_ctx where
  "demo_rule_ctx = \<lparr>rx_messages = [], rx_params = [], rx_headers = Some [], rx_tokens = 10, rx_model = ''gpt-4o'', rx_user = ''u''\<rparr>"

lemma demo_match: "match_for_ctx demo_engine demo_rule_ctx demo_rule_cfg = Inr (Some demo_rule)"
  by code_simp

lemma demo_well_typed: "list_all well_typed_rule (normalize_rules demo_rule_cfg)"
  by code_simp

lemma first_matching_rule_wins_witness: "passes demo_engine (request_for demo_rule_ctx) demo_rule"
  using first_matching_rule_wins[OF demo_match] by blast

lemma well_typed_rules_never_raise_witness: "\<exists>r. match_for_ctx demo_engine demo_rule_ctx demo_rule_cfg = Inr r"
  by (rule well_typed_rules_never_raise[OF demo_well_typed])

end
