(* ===== verification/Provider_Calls.thy ===== *)
theory Provider_Calls
  imports Py_Prelude
begin

text \<open>
  \<open>record_provider_call\<close> of \<open>middleware/__init__.py\<close>: the list of completed provider calls a request is priced
  from. A response is the dictionary it dumps to; any other value has no usage.
\<close>

record provider_call =
  pc_model :: string
  pc_prompt :: int
  pc_completion :: int
  pc_reasoning :: int
  pc_cached :: int
  pc_side :: bool

definition usage_of :: "pyval \<Rightarrow> pyexc + pydict" where
  "usage_of response =
     (case response of
        PDict d \<Rightarrow>
          (case dget_or d ''usage'' PNone of
             PNone \<Rightarrow> Inr [] | PDict u \<Rightarrow> Inr u | v \<Rightarrow> dict_update [] v)
      | _ \<Rightarrow> Inr [])"

definition details_of :: "pydict \<Rightarrow> string \<Rightarrow> pydict" where
  "details_of usage k = (case dget_or usage k PNone of PDict d \<Rightarrow> d | _ \<Rightarrow> [])"

definition count_of :: "pydict \<Rightarrow> string \<Rightarrow> int option" where
  "count_of d k = py_int (py_or (dget_or d k PNone) (PInt 0))"

definition read_call :: "string \<Rightarrow> pyval \<Rightarrow> bool \<Rightarrow> provider_call option" where
  "read_call model response side =
     (case usage_of response of
        Inl _ \<Rightarrow> None
      | Inr u \<Rightarrow>
          (case (count_of u ''prompt_tokens'', count_of u ''completion_tokens'',
                 count_of (details_of u ''completion_tokens_details'') ''reasoning_tokens'',
                 count_of (details_of u ''prompt_tokens_details'') ''cached_tokens'') of
             (Some p, Some c, Some r, Some k) \<Rightarrow>
               Some \<lparr>pc_model = model, pc_prompt = p, pc_completion = c, pc_reasoning = r, pc_cached = k, pc_side = side\<rparr>
           | _ \<Rightarrow> None))"

text \<open>A call that cannot be read is not recorded.\<close>

definition record_provider_call :: "string \<Rightarrow> pyval \<Rightarrow> bool \<Rightarrow> provider_call list \<Rightarrow> provider_call list" where
  "record_provider_call model response side calls =
     (case read_call model response side of Some pc \<Rightarrow> calls @ [pc] | None \<Rightarrow> calls)"

text \<open>The served call is the last one that is no side call.\<close>

definition served_call :: "provider_call list \<Rightarrow> provider_call option" where
  "served_call calls = find (\<lambda>pc. \<not> pc_side pc) (rev calls)"

lemma side_calls_never_serve: "served_call (record_provider_call m r True calls) = served_call calls"
  by (auto simp: record_provider_call_def served_call_def read_call_def split: option.split sum.split)

lemma recorded_prefix: "\<exists>more. record_provider_call m r s calls = calls @ more \<and> length more \<le> 1"
  by (auto simp: record_provider_call_def split: option.split)

end
