(* ===== verification/Jev.thy ===== *)
theory Jev
  imports Circuit_Breaker Provider_Calls
begin

text \<open>
  \<open>middleware/g06_jev.py\<close>: the classifier that asks a decision model how hard a request is. Arguments:
  \<open>str\<close> of a value that is no text, \<open>casefold\<close>, the tenant's key lookup, the reply to the request and the clock.
  The memo of checked configurations changes no result and is left out, as are logs and the counter of
  fallbacks; the words of a problem are the constructors of a datatype.
\<close>

section \<open>Configuration\<close>

datatype jev_problem =
    No_Block | Knob_Missing string | Bad_Key_Name | Key_Of_A_Provider | Bad_Bar | Bad_Number string
  | Bad_Level_Count | Level_No_Mapping | Level_No_Name | Level_Name_Twice string | Level_Bad_Tier string
  | Level_Steps_Down string | Level_No_Text string

definition max_levels :: nat where "max_levels = 10"
definition sum_tolerance :: rat where "sum_tolerance = 2 / 100"
definition float_epsilon :: rat where "float_epsilon = 1 / 10 ^ 9"
definition default_enough :: pyval where "default_enough = PFloat (1 / 2)"

text \<open>knob: default, minimum, whether the minimum itself is refused.\<close>

definition jev_numbers :: "(string \<times> int \<times> int \<times> bool) list" where
  "jev_numbers =
     [(''timeout_ms'', 1000, 0, True), (''max_state_chars'', 4000, 0, True),
      (''key_cache_s'', 60, 0, False), (''warn_every_s'', 3600, 0, False)]"

definition number_of :: "pyval \<Rightarrow> rat option" where
  "number_of v = (case v of PInt i \<Rightarrow> Some (of_int i) | PFloat r \<Rightarrow> Some r | _ \<Rightarrow> None)"

definition text_knob :: "pydict \<Rightarrow> string \<Rightarrow> string option" where
  "text_knob d k = (case dget_or d k PNone of PStr s \<Rightarrow> if py_strip s = [] then None else Some s | _ \<Rightarrow> None)"

definition key_name_char :: "char \<Rightarrow> bool" where
  "key_name_char c \<longleftrightarrow> (97 \<le> (of_char c :: nat) \<and> (of_char c :: nat) \<le> 122) \<or> is_digit c \<or> c = CHR ''_''"

definition is_key_name :: "string \<Rightarrow> bool" where
  "is_key_name s \<longleftrightarrow> 2 \<le> length s \<and> length s \<le> 40 \<and> list_all key_name_char s"

type_synonym tier_order = "(string \<times> int) list"

fun levels_problem :: "tier_order \<Rightarrow> pyval list \<Rightarrow> string list \<Rightarrow> int \<Rightarrow> jev_problem option" where
  "levels_problem tord [] names previous = None"
| "levels_problem tord (PDict level # ls) names previous =
     (case text_knob level ''name'' of
        None \<Rightarrow> Some Level_No_Name
      | Some name \<Rightarrow>
          if name \<in> set names then Some (Level_Name_Twice name)
          else (case dget_or level ''tier'' PNone of
                  PStr tier \<Rightarrow>
                    (case dget tord tier of
                       None \<Rightarrow> Some (Level_Bad_Tier name)
                     | Some rank \<Rightarrow>
                         if rank < previous then Some (Level_Steps_Down name)
                         else if text_knob level ''describe'' = None then Some (Level_No_Text name)
                         else levels_problem tord ls (name # names) rank)
                | _ \<Rightarrow> Some (Level_Bad_Tier name)))"
| "levels_problem tord (_ # ls) names previous = Some Level_No_Mapping"

definition number_problem :: "pydict \<Rightarrow> (string \<times> int \<times> int \<times> bool) \<Rightarrow> bool" where
  "number_problem cfg knob =
     (case knob of (k, dflt, minimum, exclusive) \<Rightarrow>
        (case number_of (dget_or cfg k (PInt dflt)) of
           None \<Rightarrow> True
         | Some v \<Rightarrow> v < of_int minimum \<or> (exclusive \<and> v = of_int minimum)))"

definition config_problem :: "pyval \<Rightarrow> pyval list \<Rightarrow> tier_order \<Rightarrow> pyexc + jev_problem option" where
  "config_problem jev_cfg llm_provider_names tord =
     (case jev_cfg of
        PDict cfg \<Rightarrow>
          (case find (\<lambda>k. text_knob cfg k = None) [''url'', ''model'', ''key_provider'', ''instructions''] of
             Some k \<Rightarrow> Inr (Some (Knob_Missing k))
           | None \<Rightarrow>
               (case dget_or cfg ''key_provider'' PNone of
                  PStr key_provider \<Rightarrow>
                    if \<not> is_key_name key_provider then Inr (Some Bad_Key_Name)
                    else if \<not> list_all hashable llm_provider_names then Inl TypeError
                    else if PStr key_provider \<in> set llm_provider_names then Inr (Some Key_Of_A_Provider)
                    else (case number_of (dget_or cfg ''enough_probability'' default_enough) of
                            None \<Rightarrow> Inr (Some Bad_Bar)
                          | Some enough \<Rightarrow>
                              if \<not> (0 < enough \<and> enough \<le> 1) then Inr (Some Bad_Bar)
                              else (case find (number_problem cfg) jev_numbers of
                                      Some (k, _) \<Rightarrow> Inr (Some (Bad_Number k))
                                    | None \<Rightarrow>
                                        (case dget_or cfg ''levels'' PNone of
                                           PList ls \<Rightarrow>
                                             if 2 \<le> length ls \<and> length ls \<le> max_levels
                                             then Inr (levels_problem tord ls [] (- 1))
                                             else Inr (Some Bad_Level_Count)
                                         | _ \<Rightarrow> Inr (Some Bad_Level_Count))))
                | _ \<Rightarrow> Inr (Some (Knob_Missing ''key_provider''))))
      | _ \<Rightarrow> Inr (Some No_Block))"

section \<open>The question and the answer\<close>

definition instruction_roles :: "string list" where
  "instruction_roles = [''system'', ''developer'']"

definition message_parts :: "pyval \<Rightarrow> string list" where
  "message_parts v =
     (case v of
        PDict m \<Rightarrow>
          if dget_or m ''role'' PNone \<in> PStr ` set instruction_roles then []
          else (case dget_or m ''content'' PNone of
                  PStr s \<Rightarrow> [s]
                | PList ps \<Rightarrow> List.map_filter (\<lambda>p. case p of
                     PDict d \<Rightarrow> (case (dget_or d ''type'' PNone, dget_or d ''text'' PNone) of
                                  (PStr t, PStr s) \<Rightarrow> if t = ''text'' then Some s else None | _ \<Rightarrow> None)
                   | _ \<Rightarrow> None) ps
                | _ \<Rightarrow> [])
      | _ \<Rightarrow> [])"

definition with_sep :: "string \<Rightarrow> string list \<Rightarrow> string" where
  "with_sep sep xs = concat (case xs of [] \<Rightarrow> [] | x # r \<Rightarrow> x # map (\<lambda>y. sep @ y) r)"

text \<open>The newest characters; \<open>text[-0:]\<close> is the whole text.\<close>

definition last_chars :: "nat \<Rightarrow> string \<Rightarrow> string" where
  "last_chars n s = (if n < length s \<and> n \<noteq> 0 then drop (length s - n) s else s)"

definition request_text :: "pyval list \<Rightarrow> int \<Rightarrow> string" where
  "request_text messages max_chars =
     last_chars (nat max_chars)
       (with_sep [CHR 0x0A] (filter (\<lambda>p. py_strip p \<noteq> []) (concat (map message_parts messages))))"

text \<open>The lowest index whose running sum reaches the bar.\<close>

fun first_reaching :: "rat \<Rightarrow> rat \<Rightarrow> nat \<Rightarrow> rat list \<Rightarrow> nat option" where
  "first_reaching bar running i [] = None"
| "first_reaching bar running i (p # ps) =
     (if bar \<le> running + p then Some i else first_reaching bar (running + p) (Suc i) ps)"

definition pick_level :: "rat list \<Rightarrow> rat \<Rightarrow> nat" where
  "pick_level ps enough =
     (let total = sum_list ps in
      if total \<le> 0 then length ps - 1
      else (case first_reaching (enough - float_epsilon) 0 0 (map (\<lambda>p. p / total) ps) of
              Some i \<Rightarrow> i | None \<Rightarrow> length ps - 1))"

text \<open>\<open>str.split()\<close>: the words between runs of white space.\<close>

fun words_from :: "string \<Rightarrow> string \<Rightarrow> string list" where
  "words_from w [] = (if w = [] then [] else [w])"
| "words_from w (c # s) =
     (if is_space c then (if w = [] then words_from [] s else w # words_from [] s) else words_from (w @ [c]) s)"

definition words :: "string \<Rightarrow> string list" where
  "words s = words_from [] s"

record jev_request =
  jr_url :: string
  jr_key :: string
  jr_model :: string
  jr_state :: string
  jr_instructions :: string
  jr_criteria :: "string list"
  jr_timeout :: rat

datatype jev_reply = Jev_Timed_Out | Jev_Unreachable | Jev_Status int "pyval option"

record jev_env =
  je_str :: "pyval \<Rightarrow> string"
  je_casefold :: "string \<Rightarrow> string"
  je_lookup :: "string \<Rightarrow> string \<Rightarrow> string option"
  je_reply :: "jev_request \<Rightarrow> jev_reply"
  je_now :: rat
  je_done :: rat

definition normalised_text :: "jev_env \<Rightarrow> pyval \<Rightarrow> string" where
  "normalised_text env v = je_casefold env (with_sep '' '' (words (case v of PStr s \<Rightarrow> s | _ \<Rightarrow> je_str env v)))"

definition level_keys :: "nat \<Rightarrow> string list" where
  "level_keys n = map nat_str [0..<n]"

definition probability :: "pydict \<Rightarrow> string \<Rightarrow> rat option" where
  "probability d k =
     (case number_of (dget_or d k PNone) of Some v \<Rightarrow> if 0 \<le> v \<and> v \<le> 1 then Some v else None | None \<Rightarrow> None)"

fun all_some :: "'a option list \<Rightarrow> 'a list option" where
  "all_some [] = Some []"
| "all_some (None # xs) = None"
| "all_some (Some x # xs) = map_option (Cons x) (all_some xs)"

definition legend_matches :: "jev_env \<Rightarrow> string list \<Rightarrow> pyval \<Rightarrow> bool" where
  "legend_matches env criteria legend =
     (case legend of
        PNone \<Rightarrow> True
      | PDict l \<Rightarrow>
          fst ` set l = set (level_keys (length criteria)) \<and>
          list_all2 (\<lambda>i c. normalised_text env (dget_or l i PNone) = normalised_text env (PStr c))
            (level_keys (length criteria)) criteria
      | _ \<Rightarrow> False)"

definition answer_probabilities :: "jev_env \<Rightarrow> pyval \<Rightarrow> string list \<Rightarrow> rat list option" where
  "answer_probabilities env body criteria =
     (case body of
        PDict b \<Rightarrow>
          (case dget_or b ''answers'' PNone of
             PDict as \<Rightarrow>
               (case dget_or as ''complexity'' PNone of
                  PDict a \<Rightarrow>
                    if dget_or a ''type'' PNone \<noteq> PStr ''score'' then None
                    else (case dget_or a ''probabilities'' PNone of
                            PDict ps \<Rightarrow>
                              if fst ` set ps \<noteq> set (level_keys (length criteria)) then None
                              else (case all_some (map (probability ps) (level_keys (length criteria))) of
                                      None \<Rightarrow> None
                                    | Some vs \<Rightarrow>
                                        if sum_tolerance < \<bar>sum_list vs - 1\<bar> then None
                                        else if legend_matches env criteria (dget_or a ''legend'' PNone) then Some vs
                                        else None)
                          | _ \<Rightarrow> None)
                | _ \<Rightarrow> None)
           | _ \<Rightarrow> None)
      | _ \<Rightarrow> None)"

section \<open>The classification\<close>

datatype jev_decision = Decided string string | Fell_Back string

record jev_ctx =
  jc_config :: pydict
  jc_tenant :: string
  jc_messages :: "pyval list"

record jev_state =
  js_keys :: "((string \<times> string) \<times> (rat \<times> string option)) list"
  js_breakers :: rstore
  js_calls :: "provider_call list"
  js_sent :: "jev_request list"

definition provider_names :: "pydict \<Rightarrow> pyexc + pyval list" where
  "provider_names config =
     (case py_or (dget_or config ''providers'' PNone) (PList []) of
        PDict d \<Rightarrow> Inr (map (\<lambda>kv. PStr (fst kv)) d)
      | v \<Rightarrow> map_sum id (\<lambda>ps. filter py_truthy (map (\<lambda>d. dget_or d ''name'' PNone) (List.map_filter dict_of ps))) (py_iter v))"

definition looked_up :: "jev_env \<Rightarrow> string \<Rightarrow> string \<Rightarrow> jev_state \<Rightarrow> jev_state \<times> string option" where
  "looked_up env tenant provider st =
     (let k = (case je_lookup env tenant provider of Some [] \<Rightarrow> None | x \<Rightarrow> x)
      in (st\<lparr>js_keys := dset (tenant, provider) (je_now env, k) (js_keys st)\<rparr>, k))"

definition tenant_key :: "jev_env \<Rightarrow> string \<Rightarrow> string \<Rightarrow> rat \<Rightarrow> jev_state \<Rightarrow> jev_state \<times> string option" where
  "tenant_key env tenant provider cache_s st =
     (case dget (js_keys st) (tenant, provider) of
        Some (w, key) \<Rightarrow> if je_now env - w < cache_s then (st, key) else looked_up env tenant provider st
      | None \<Rightarrow> looked_up env tenant provider st)"

definition record_usage :: "string \<Rightarrow> pyval \<Rightarrow> jev_state \<Rightarrow> jev_state" where
  "record_usage label body st =
     (case body of
        PDict b \<Rightarrow>
          (case dget_or b ''usage'' PNone of
             PDict u \<Rightarrow>
               st\<lparr>js_calls := record_provider_call label
                   (PDict [(''usage'', PDict [(''prompt_tokens'', py_or (dget_or u ''input_tokens'' PNone) (PInt 0)),
                                              (''completion_tokens'', py_or (dget_or u ''output_tokens'' PNone) (PInt 0))])])
                   True (js_calls st)\<rparr>
           | _ \<Rightarrow> st)
      | _ \<Rightarrow> st)"

definition number_knob :: "pydict \<Rightarrow> string \<Rightarrow> rat" where
  "number_knob cfg k =
     (case dget jev_numbers k of
        Some (dflt, _) \<Rightarrow> (case number_of (dget_or cfg k (PInt dflt)) of Some v \<Rightarrow> v | None \<Rightarrow> 0)
      | None \<Rightarrow> 0)"

definition knob_text :: "pydict \<Rightarrow> string \<Rightarrow> string" where
  "knob_text d k = (case dget_or d k PNone of PStr s \<Rightarrow> s | _ \<Rightarrow> [])"

definition level_list :: "pydict \<Rightarrow> pydict list" where
  "level_list cfg = (case dget_or cfg ''levels'' PNone of PList ls \<Rightarrow> List.map_filter dict_of ls | _ \<Rightarrow> [])"

definition criteria_of :: "pydict \<Rightarrow> string list" where
  "criteria_of cfg = map (\<lambda>l. knob_text l ''name'' @ '': '' @ knob_text l ''describe'') (level_list cfg)"

definition status_error :: "int \<Rightarrow> perr" where
  "status_error n = \<lparr>status_code = Some n, class_name = ''_JevCallError''\<rparr>"

definition jev_question :: "pydict \<Rightarrow> string \<Rightarrow> string \<Rightarrow> jev_request" where
  "jev_question cfg key request =
     \<lparr>jr_url = knob_text cfg ''url'', jr_key = key, jr_model = knob_text cfg ''model'', jr_state = request,
      jr_instructions = knob_text cfg ''instructions'', jr_criteria = criteria_of cfg,
      jr_timeout = number_knob cfg ''timeout_ms'' / 1000\<rparr>"

definition reply_outcome :: "jev_reply \<Rightarrow> perr option" where
  "reply_outcome r =
     (case r of
        Jev_Timed_Out \<Rightarrow> Some (status_error 504)
      | Jev_Unreachable \<Rightarrow> Some (status_error 503)
      | Jev_Status n _ \<Rightarrow> if 200 \<le> n \<and> n < 300 then None else Some (status_error n))"

definition judge_reply :: "jev_env \<Rightarrow> pydict \<Rightarrow> jev_reply \<Rightarrow> jev_state \<Rightarrow> jev_state \<times> jev_decision" where
  "judge_reply env cfg reply st =
     (case reply of
        Jev_Timed_Out \<Rightarrow> (st, Fell_Back ''timeout'')
      | Jev_Unreachable \<Rightarrow> (st, Fell_Back ''http_error'')
      | Jev_Status n body \<Rightarrow>
          if \<not> (200 \<le> n \<and> n < 300) then (st, Fell_Back ''http_error'')
          else (case body of
                  None \<Rightarrow> (st, Fell_Back ''bad_answer'')
                | Some b \<Rightarrow>
                    (let st1 = record_usage (knob_text cfg ''key_provider'' @ ''/'' @ knob_text cfg ''model'') b st
                     in (st1, (case answer_probabilities env b (criteria_of cfg) of
                           None \<Rightarrow> Fell_Back ''bad_answer''
                         | Some ps \<Rightarrow>
                             (let bar = (case number_of (dget_or cfg ''enough_probability'' default_enough) of Some x \<Rightarrow> x | None \<Rightarrow> 0);
                                  level = level_list cfg ! pick_level ps bar
                              in Decided (knob_text level ''tier'') (knob_text level ''name'')))))))"

definition ask :: "jev_env \<Rightarrow> jev_ctx \<Rightarrow> pydict \<Rightarrow> string \<Rightarrow> string \<Rightarrow> jev_state \<Rightarrow> jev_state \<times> (pyexc + jev_decision)" where
  "ask env c cfg key request st =
     (let provider = knob_text cfg ''key_provider'' in
      case resolve (jc_config c) provider of
        Inl e \<Rightarrow> (st, Inl e)
      | Inr rc \<Rightarrow>
          (case (if rc_enabled rc then allow_provider (je_now env) (js_breakers st) provider rc else (True, js_breakers st)) of
             (False, b) \<Rightarrow> (st\<lparr>js_breakers := b\<rparr>, Inr (Fell_Back ''breaker_open''))
           | (True, b) \<Rightarrow>
               (let q = jev_question cfg key request;
                    reply = je_reply env q;
                    st1 = st\<lparr>js_breakers := note_provider_outcome (je_done env) b provider (reply_outcome reply) (jc_config c),
                             js_sent := js_sent st @ [q]\<rparr>
                in map_prod id Inr (judge_reply env cfg reply st1))))"

definition jev_classify ::
  "jev_env \<Rightarrow> jev_ctx \<Rightarrow> pyval \<Rightarrow> tier_order \<Rightarrow> jev_state \<Rightarrow> jev_state \<times> (pyexc + jev_decision)" where
  "jev_classify env c jev_cfg tord st =
     (case bind_res (provider_names (jc_config c)) (\<lambda>names. config_problem jev_cfg names tord) of
        Inl e \<Rightarrow> (st, Inl e)
      | Inr (Some problem) \<Rightarrow> (st, Inr (Fell_Back ''bad_config''))
      | Inr None \<Rightarrow>
          (case jev_cfg of
             PDict cfg \<Rightarrow>
               (let request = request_text (jc_messages c) (trunc_rat (number_knob cfg ''max_state_chars'')) in
                if py_strip request = [] then (st, Inr (Fell_Back ''no_text''))
                else (case tenant_key env (jc_tenant c) (knob_text cfg ''key_provider'') (number_knob cfg ''key_cache_s'') st of
                        (st1, key) \<Rightarrow>
                          (case key of
                             None \<Rightarrow> (st1, Inr (Fell_Back ''no_key''))
                           | Some k \<Rightarrow> ask env c cfg k request st1)))
           | _ \<Rightarrow> (st, Inr (Fell_Back ''bad_config''))))"


section \<open>The chosen level\<close>

lemma first_reaching_bounds: "first_reaching bar running i ps = Some j \<Longrightarrow> i \<le> j \<and> j < i + length ps"
  by (induction ps arbitrary: running i) (fastforce split: if_splits)+

lemma first_reaching_mono:
  "first_reaching bar' running i ps = Some j' \<Longrightarrow> bar \<le> bar' \<Longrightarrow> \<exists>j. first_reaching bar running i ps = Some j \<and> j \<le> j'"
proof (induction ps arbitrary: running i)
  case (Cons p ps)
  show ?case
  proof (cases "bar \<le> running + p")
    case True
    then show ?thesis using first_reaching_bounds[OF Cons.prems(1)] by simp
  next
    case False
    then have "first_reaching bar' (running + p) (Suc i) ps = Some j'" using Cons.prems by simp
    then show ?thesis using Cons.IH Cons.prems(2) False by simp
  qed
qed simp

lemma first_reaching_least:
  "first_reaching bar running i ps = Some j \<Longrightarrow>
   bar \<le> running + sum_list (take (Suc (j - i)) ps) \<and> (\<forall>m < j - i. running + sum_list (take (Suc m) ps) < bar)"
proof (induction ps arbitrary: running i)
  case (Cons p ps)
  show ?case
  proof (cases "bar \<le> running + p")
    case True
    then show ?thesis using Cons.prems by simp
  next
    case False
    then have f: "first_reaching bar (running + p) (Suc i) ps = Some j" using Cons.prems by simp
    have d: "j - i = Suc (j - Suc i)" using first_reaching_bounds[OF f] by arith
    have "running + sum_list (take (Suc m) (p # ps)) < bar" if "m < j - i" for m
      using Cons.IH[OF f] that d False by (cases m) (auto simp: add.assoc)
    then show ?thesis using Cons.IH[OF f] d by (simp add: add.assoc)
  qed
qed simp

lemma first_reaching_none:
  "first_reaching bar running i ps = None \<Longrightarrow> m < length ps \<Longrightarrow> running + sum_list (take (Suc m) ps) < bar"
proof (induction ps arbitrary: running i m)
  case (Cons p ps)
  then have "\<not> bar \<le> running + p" "first_reaching bar (running + p) (Suc i) ps = None" by (auto split: if_splits)
  then show ?case using Cons.IH[of "running + p" "Suc i" "m - 1"] Cons.prems(2) by (cases m) (auto simp: add.assoc)
qed simp

lemma pick_level_in: "ps \<noteq> [] \<Longrightarrow> pick_level ps enough < length ps"
  by (auto simp: pick_level_def Let_def split: option.split dest!: first_reaching_bounds)

lemma pick_level_mono: "enough \<le> enough' \<Longrightarrow> pick_level ps enough \<le> pick_level ps enough'"
proof -
  assume e: "enough \<le> enough'"
  let ?f = "\<lambda>b. first_reaching (b - float_epsilon) 0 0 (map (\<lambda>p. p / sum_list ps) ps)"
  show ?thesis
  proof (cases "?f enough'")
    case None
    have "pick_level ps enough \<le> length ps - 1"
      using pick_level_in[of ps enough] by (cases "ps = []") (auto simp: pick_level_def Let_def)
    then show ?thesis using None by (cases "sum_list ps \<le> 0") (simp_all add: pick_level_def Let_def)
  next
    case (Some j')
    then obtain j where "?f enough = Some j" "j \<le> j'"
      using first_reaching_mono[OF Some, of "enough - float_epsilon"] e by auto
    then show ?thesis using Some by (simp add: pick_level_def Let_def)
  qed
qed

definition tier_rank :: "tier_order \<Rightarrow> pydict \<Rightarrow> int" where
  "tier_rank tord level = (case dget tord (knob_text level ''tier'') of Some r \<Rightarrow> r | None \<Rightarrow> - 1)"

lemma levels_ok:
  "levels_problem tord ls names previous = None \<Longrightarrow>
   length (List.map_filter dict_of ls) = length ls \<and>
   list_all (\<lambda>l. knob_text l ''tier'' \<in> dom (dget tord) \<and> previous \<le> tier_rank tord l) (List.map_filter dict_of ls) \<and>
   sorted (map (tier_rank tord) (List.map_filter dict_of ls))"
proof (induction tord ls names previous rule: levels_problem.induct)
  case (2 tord level ls names previous)
  obtain name where n: "text_knob level ''name'' = Some name" "name \<notin> set names"
    using "2.prems" by (auto split: option.splits if_splits)
  obtain tier where t: "dget_or level ''tier'' PNone = PStr tier"
    using "2.prems" n by (auto split: pyval.splits)
  obtain rank where r: "dget tord tier = Some rank" using "2.prems" n t by (auto split: option.splits)
  have o: "\<not> rank < previous" "levels_problem tord ls (name # names) rank = None"
    using "2.prems" n t r by (auto split: if_splits)
  have k: "knob_text level ''tier'' = tier" "tier_rank tord level = rank" using t r by (simp_all add: knob_text_def tier_rank_def)
  from "2.IH"[OF n t r o(1) _ o(2)] show ?case
    using k r o "2.prems" n t by (auto simp: List.map_filter_simps list_all_iff split: if_splits)
qed (simp_all add: List.map_filter_simps)

lemma config_ok:
  assumes "config_problem (PDict cfg) names tord = Inr None"
  shows "list_all (\<lambda>l. knob_text l ''tier'' \<in> dom (dget tord)) (level_list cfg)" "sorted (map (tier_rank tord) (level_list cfg))"
    "2 \<le> length (level_list cfg)" "PStr (knob_text cfg ''key_provider'') \<notin> set names"
proof -
  obtain p where p: "dget_or cfg ''key_provider'' PNone = PStr p" "PStr p \<notin> set names"
    using assms by (auto simp: config_problem_def split: option.splits pyval.splits if_splits)
  obtain ls where l: "dget_or cfg ''levels'' PNone = PList ls" "2 \<le> length ls" "levels_problem tord ls [] (- 1) = None"
    using assms p by (auto simp: config_problem_def split: option.splits pyval.splits if_splits)
  have e: "level_list cfg = List.map_filter dict_of ls" using l(1) by (simp add: level_list_def)
  show "list_all (\<lambda>l. knob_text l ''tier'' \<in> dom (dget tord)) (level_list cfg)" "sorted (map (tier_rank tord) (level_list cfg))"
    "2 \<le> length (level_list cfg)"
    using levels_ok[OF l(3)] l(2) e by (auto simp: list_all_iff)
  show "PStr (knob_text cfg ''key_provider'') \<notin> set names" using p by (simp add: knob_text_def)
qed

text \<open>
  A higher bar only routes up: with a valid ladder, raising the probability that is enough never moves the same
  answer of the judge to a lower tier.
\<close>

lemma a_higher_bar_only_routes_up:
  assumes "config_problem (PDict cfg) names tord = Inr None" and "length ps = length (level_list cfg)" and "bar \<le> bar'"
  shows "tier_rank tord (level_list cfg ! pick_level ps bar) \<le> tier_rank tord (level_list cfg ! pick_level ps bar')"
proof -
  have "ps \<noteq> []" using config_ok(3)[OF assms(1)] assms(2) by auto
  then show ?thesis
    using config_ok(2)[OF assms(1)] pick_level_mono[OF assms(3), of ps] pick_level_in[of ps bar'] assms(2)
    by (metis (no_types) length_map nth_map order.strict_trans1 sorted_nth_mono)
qed

section \<open>The decision\<close>

lemma all_some_length: "all_some xs = Some ys \<Longrightarrow> length ys = length xs"
  by (induction xs arbitrary: ys rule: all_some.induct) auto

lemma answer_length:
  "answer_probabilities env body criteria = Some ps \<Longrightarrow> length ps = length criteria"
  by (auto simp: answer_probabilities_def level_keys_def split: pyval.splits if_splits option.splits dest!: all_some_length)

definition fallback_reasons :: "string list" where
  "fallback_reasons = [''no_key'', ''no_text'', ''bad_config'', ''breaker_open'', ''timeout'', ''http_error'', ''bad_answer'']"

lemma judge_reply_sent [simp]: "js_sent (fst (judge_reply env cfg reply st)) = js_sent st" "js_keys (fst (judge_reply env cfg reply st)) = js_keys st"
  by (auto simp: judge_reply_def record_usage_def Let_def split: jev_reply.split option.split pyval.split)

lemma judge_reply_decides:
  assumes "config_problem (PDict cfg) names tord = Inr None"
  shows "case snd (judge_reply env cfg reply st) of
     Decided tier level \<Rightarrow> tier \<in> dom (dget tord) \<and> (\<exists>l \<in> set (level_list cfg). tier = knob_text l ''tier'' \<and> level = knob_text l ''name'')
   | Fell_Back r \<Rightarrow> r \<in> set fallback_reasons"
proof -
  have "knob_text (level_list cfg ! pick_level ps bar) ''tier'' \<in> dom (dget tord) \<and> level_list cfg ! pick_level ps bar \<in> set (level_list cfg)"
    if "answer_probabilities env b (criteria_of cfg) = Some ps" for b ps bar
  proof -
    have "length ps = length (level_list cfg)" using answer_length[OF that] by (simp add: criteria_of_def)
    then have "pick_level ps bar < length (level_list cfg)"
      using pick_level_in[of ps bar] config_ok(3)[OF assms] by (cases "ps = []") auto
    then show ?thesis using config_ok(1)[OF assms] by (simp add: list_all_length)
  qed
  then show ?thesis
    by (auto simp: judge_reply_def Let_def fallback_reasons_def split: jev_reply.split option.split)
qed


text \<open>A history of classifications over one worker's state.\<close>

type_synonym jev_run = "(jev_env \<times> jev_ctx \<times> pyval) list"

definition empty_jev :: jev_state where
  "empty_jev = \<lparr>js_keys = [], js_breakers = new_store, js_calls = [], js_sent = []\<rparr>"

definition after_run :: "tier_order \<Rightarrow> jev_run \<Rightarrow> jev_state" where
  "after_run tord run = fold (\<lambda>(env, c, cfg) st. fst (jev_classify env c cfg tord st)) run empty_jev"

definition clean_key :: "string option \<Rightarrow> string option" where
  "clean_key k = (case k of Some [] \<Rightarrow> None | x \<Rightarrow> x)"

definition lookups_of :: "jev_run \<Rightarrow> jev_state \<Rightarrow> bool" where
  "lookups_of run st \<longleftrightarrow> (\<forall>t p w k. dget (js_keys st) (t, p) = Some (w, k) \<longrightarrow>
     (\<exists>(env, c, cfg) \<in> set run. je_now env = w \<and> k = clean_key (je_lookup env t p)))"

lemma looked_up_keys:
  assumes "lookups_of run st" and "(env, c, cfg) \<in> set run"
  shows "lookups_of run (fst (looked_up env t p st))"
  using assms by (fastforce simp: lookups_of_def looked_up_def Let_def clean_key_def dget_dset)

lemma tenant_key_keys:
  assumes "lookups_of run st" and "(env, c, cfg) \<in> set run"
  shows "lookups_of run (fst (tenant_key env t p s st))"
  using looked_up_keys[OF assms] assms(1) by (auto simp: tenant_key_def split: option.split)

lemma ask_keys: "js_keys (fst (ask env c cfg k r st)) = js_keys st"
  by (auto simp: ask_def Let_def split: sum.split prod.split bool.split)

lemma lookups_cong: "js_keys st' = js_keys st \<Longrightarrow> lookups_of run st' = lookups_of run st"
  by (simp add: lookups_of_def)

lemma classify_keys:
  assumes "lookups_of run st" and "(env, c, cfg) \<in> set run"
  shows "lookups_of run (fst (jev_classify env c cfg tord st))"
proof -
  have "lookups_of run (fst (ask env c d k r (fst (tenant_key env t p s st))))" for d k r t p s
    using tenant_key_keys[OF assms] lookups_cong[OF ask_keys] by blast
  then show ?thesis
    using assms(1) tenant_key_keys[OF assms]
    by (auto simp: jev_classify_def Let_def split: sum.split option.split pyval.split prod.split)
      (metis fst_conv)+
qed

lemma lookups_mono: "lookups_of run st \<Longrightarrow> set run \<subseteq> set run' \<Longrightarrow> lookups_of run' st"
  unfolding lookups_of_def by blast

lemma run_keys: "lookups_of run (after_run tord run)"
proof (induction run rule: rev_induct)
  case Nil
  then show ?case by (simp add: lookups_of_def after_run_def empty_jev_def)
next
  case (snoc x run)
  obtain env c cfg where x: "x = (env, c, cfg)" by (cases x) auto
  have "lookups_of (run @ [x]) (after_run tord run)" using snoc by (rule lookups_mono) auto
  then show ?case using classify_keys[of "run @ [x]" _ env c cfg tord] x by (simp add: after_run_def)
qed

lemma ask_result:
  assumes "ask env c cfg k request st = (st', r)"
  obtains (raised) e where "r = Inl e" "js_sent st' = js_sent st"
  | (closed) "r = Inr (Fell_Back ''breaker_open'')" "js_sent st' = js_sent st"
  | (asked) st1 where "js_sent st' = js_sent st @ [jev_question cfg k request]"
      "r = Inr (snd (judge_reply env cfg (je_reply env (jev_question cfg k request)) st1))"
proof (cases "resolve (jc_config c) (knob_text cfg ''key_provider'')")
  case (Inl e)
  then show ?thesis using assms raised by (auto simp: ask_def)
next
  case (Inr rc)
  let ?p = "knob_text cfg ''key_provider''" and ?q = "jev_question cfg k request"
  obtain a b where g: "(if rc_enabled rc then allow_provider (je_now env) (js_breakers st) ?p rc else (True, js_breakers st)) = (a, b)"
    by fastforce
  show ?thesis
  proof (cases a)
    case False
    then show ?thesis using assms closed Inr g by (auto simp: ask_def)
  next
    case True
    let ?s = "st\<lparr>js_breakers := note_provider_outcome (je_done env) b ?p (reply_outcome (je_reply env ?q)) (jc_config c),
        js_sent := js_sent st @ [?q]\<rparr>"
    have e: "map_prod id Inr (judge_reply env cfg (je_reply env ?q) ?s) = (st', r)"
      using assms Inr g True by (simp add: ask_def Let_def)
    then have "st' = fst (judge_reply env cfg (je_reply env ?q) ?s)" "r = Inr (snd (judge_reply env cfg (je_reply env ?q) ?s))"
      by (metis fst_conv fst_map_prod id_apply, metis snd_conv snd_map_prod)
    then show ?thesis using asked[of ?s] by simp
  qed
qed

text \<open>
  C31. The judge is asked with the tenant's own key: after any sequence of requests, what a request sends goes once, to
  the configured address, with a key that the key store gave for this tenant now or within the key cache's lifetime,
  under a name that no provider of models has.
\<close>

theorem jev_asks_with_the_tenants_key:
  assumes "jev_classify env c jev_cfg tord (after_run tord run) = (st', r)" and "js_sent st' \<noteq> js_sent (after_run tord run)"
  shows "\<exists>cfg q. jev_cfg = PDict cfg \<and> js_sent st' = js_sent (after_run tord run) @ [q] \<and>
    jr_url q = knob_text cfg ''url'' \<and>
    (\<exists>(e, d, g) \<in> set (run @ [(env, c, jev_cfg)]). je_lookup e (jc_tenant c) (knob_text cfg ''key_provider'') = Some (jr_key q) \<and>
       (e = env \<or> je_now env - je_now e < number_knob cfg ''key_cache_s'')) \<and>
    (\<forall>names. provider_names (jc_config c) = Inr names \<longrightarrow> PStr (knob_text cfg ''key_provider'') \<notin> set names)"
proof -
  let ?st = "after_run tord run"
  obtain names cfg where n: "provider_names (jc_config c) = Inr names" "config_problem jev_cfg names tord = Inr None" "jev_cfg = PDict cfg"
    using assms by (auto simp: jev_classify_def bind_res_def Let_def split: sum.splits option.splits pyval.splits)
  let ?p = "knob_text cfg ''key_provider''"
  obtain st1 key where k: "tenant_key env (jc_tenant c) ?p (number_knob cfg ''key_cache_s'') ?st = (st1, key)" by fastforce
  have s1: "js_sent st1 = js_sent ?st"
    using k by (auto simp: tenant_key_def looked_up_def Let_def split: option.splits if_splits)
  obtain kk where kk: "key = Some kk"
    using assms n k s1 by (cases key) (auto simp: jev_classify_def Let_def split: if_splits)
  let ?r = "request_text (jc_messages c) (trunc_rat (number_knob cfg ''max_state_chars''))"
  have a: "ask env c cfg kk ?r st1 = (st', r)"
    using assms n k kk by (auto simp: jev_classify_def Let_def split: if_splits)
  have "js_sent st' = js_sent ?st @ [jev_question cfg kk ?r]"
    using a assms(2) s1 by (cases rule: ask_result) simp_all
  moreover have "\<exists>(e, d, g) \<in> set (run @ [(env, c, jev_cfg)]). je_lookup e (jc_tenant c) ?p = Some kk \<and>
       (e = env \<or> je_now env - je_now e < number_knob cfg ''key_cache_s'')"
  proof (cases "\<exists>w. dget (js_keys ?st) (jc_tenant c, ?p) = Some (w, key) \<and> je_now env - w < number_knob cfg ''key_cache_s''")
    case True
    then obtain w where w: "dget (js_keys ?st) (jc_tenant c, ?p) = Some (w, key)" "je_now env - w < number_knob cfg ''key_cache_s''" by blast
    then obtain e d g where "(e, d, g) \<in> set run" "je_now e = w" "key = clean_key (je_lookup e (jc_tenant c) ?p)"
      using run_keys[of run tord] unfolding lookups_of_def by blast
    then show ?thesis using w(2) kk by (force simp: clean_key_def split: option.splits list.splits)
  next
    case False
    then have "looked_up env (jc_tenant c) ?p ?st = (st1, key)"
      using k by (auto simp: tenant_key_def split: option.splits if_splits)
    then have "je_lookup env (jc_tenant c) ?p = Some kk"
      using kk by (auto simp: looked_up_def Let_def split: option.splits list.splits)
    then show ?thesis by auto
  qed
  moreover have "PStr ?p \<notin> set names" using config_ok(4)[of cfg names tord] n by simp
  ultimately show ?thesis using n by (auto simp: jev_question_def)
qed

lemma classify_asks:
  assumes "jev_classify env c jev_cfg tord st = (st', r)"
  obtains (raised) e where "r = Inl e"
  | (unasked) reason where "r = Inr (Fell_Back reason)" "reason \<in> {''bad_config'', ''no_text'', ''no_key''}"
  | (asking) cfg names k request st1 where "jev_cfg = PDict cfg" "config_problem jev_cfg names tord = Inr None"
      "ask env c cfg k request st1 = (st', r)"
proof (cases "bind_res (provider_names (jc_config c)) (\<lambda>names. config_problem jev_cfg names tord)")
  case (Inl e)
  then show ?thesis using assms raised by (auto simp: jev_classify_def)
next
  case (Inr problem)
  then obtain names where n: "config_problem jev_cfg names tord = Inr problem" by (auto simp: bind_res_Inr)
  show ?thesis
  proof (cases problem)
    case (Some x)
    then show ?thesis using assms Inr unasked by (auto simp: jev_classify_def)
  next
    case None
    then obtain cfg where c: "jev_cfg = PDict cfg" using n by (cases jev_cfg) (simp_all add: config_problem_def)
    let ?r = "request_text (jc_messages c) (trunc_rat (number_knob cfg ''max_state_chars''))"
    obtain st1 key where k: "tenant_key env (jc_tenant c) (knob_text cfg ''key_provider'') (number_knob cfg ''key_cache_s'') st = (st1, key)"
      by fastforce
    have r: "(st', r) = (if py_strip ?r = [] then (st, Inr (Fell_Back ''no_text''))
        else case key of None \<Rightarrow> (st1, Inr (Fell_Back ''no_key'')) | Some kk \<Rightarrow> ask env c cfg kk ?r st1)"
      using assms Inr None c k by (simp add: jev_classify_def Let_def split: if_splits)
    show ?thesis
    proof (cases "py_strip ?r = [] \<or> key = None")
      case True
      then show ?thesis using r unasked by (auto split: if_splits)
    next
      case False
      then show ?thesis using r asking[OF c n[unfolded None]] by auto
    qed
  qed
qed

lemma jev_decides_within_the_ladder:
  assumes "jev_classify env c jev_cfg tord st = (st', Inr d)"
  shows "case d of Decided tier level \<Rightarrow> tier \<in> dom (dget tord) | Fell_Back reason \<Rightarrow> reason \<in> set fallback_reasons"
  using assms
proof (cases rule: classify_asks)
  case (unasked reason)
  then show ?thesis by (auto simp: fallback_reasons_def)
next
  case (asking cfg names k request st1)
  from asking(3) show ?thesis
  proof (cases rule: ask_result)
    case closed
    then show ?thesis by (simp add: fallback_reasons_def)
  next
    case (asked st2)
    then show ?thesis using judge_reply_decides[OF asking(2)[unfolded asking(1)], of env "je_reply env (jev_question cfg k request)" st2]
      by (auto split: jev_decision.splits)
  qed simp
qed simp

text \<open>A cap between 0 and 1 passes the check and lifts the cap: \<open>int\<close> makes it 0 and \<open>text[-0:]\<close> is everything.\<close>

lemma half_a_character_lifts_the_cap:
  "\<not> number_problem [(''max_state_chars'', PFloat (1 / 2))] (''max_state_chars'', 4000, 0, True)"
  "last_chars (nat (trunc_rat (1 / 2))) s = s"
proof -
  show "\<not> number_problem [(''max_state_chars'', PFloat (1 / 2))] (''max_state_chars'', 4000, 0, True)" by code_simp
  have "nat (trunc_rat (1 / 2)) = 0" by code_simp
  then show "last_chars (nat (trunc_rat (1 / 2))) s = s" by (simp add: last_chars_def)
qed

section \<open>A sample judge\<close>

definition demo_jev_cfg :: pydict where
  "demo_jev_cfg =
     [(''url'', PStr ''u''), (''model'', PStr ''j''), (''key_provider'', PStr ''jev''), (''instructions'', PStr ''i''),
      (''levels'', PList [PDict [(''name'', PStr ''low''), (''tier'', PStr ''simple''), (''describe'', PStr ''easy'')],
                        PDict [(''name'', PStr ''high''), (''tier'', PStr ''complex''), (''describe'', PStr ''hard'')]])]"

definition demo_order :: tier_order where
  "demo_order = [(''simple'', 0), (''complex'', 2)]"

definition demo_jev :: jev_env where
  "demo_jev = \<lparr>je_str = (\<lambda>_. []), je_casefold = id, je_lookup = (\<lambda>t p. if t = ''acme'' then Some ''k'' else None),
     je_reply = (\<lambda>_. Jev_Timed_Out), je_now = 0, je_done = 0\<rparr>"

definition demo_jev_ctx :: jev_ctx where
  "demo_jev_ctx = \<lparr>jc_config = [], jc_tenant = ''acme'', jc_messages = [PDict [(''content'', PStr ''hello'')]]\<rparr>"

lemma demo_ladder_ok: "config_problem (PDict demo_jev_cfg) [] demo_order = Inr None" "length (level_list demo_jev_cfg) = 2"
  by code_simp+

lemma demo_sent: "map jr_url (js_sent (fst (jev_classify demo_jev demo_jev_ctx (PDict demo_jev_cfg) demo_order empty_jev))) = [''u'']"
  by code_simp

lemma a_higher_bar_only_routes_up_witness:
  "tier_rank demo_order (level_list demo_jev_cfg ! pick_level [1 / 2, 1 / 2] (1 / 2)) \<le>
   tier_rank demo_order (level_list demo_jev_cfg ! pick_level [1 / 2, 1 / 2] (9 / 10))"
  using a_higher_bar_only_routes_up[OF demo_ladder_ok(1), of "[1 / 2, 1 / 2]" "1 / 2" "9 / 10"] demo_ladder_ok(2) by simp

lemma jev_asks_with_the_tenants_key_witness:
  "\<exists>q. js_sent (fst (jev_classify demo_jev demo_jev_ctx (PDict demo_jev_cfg) demo_order empty_jev)) = [q] \<and> jr_key q = ''k''"
proof -
  obtain st' r where c: "jev_classify demo_jev demo_jev_ctx (PDict demo_jev_cfg) demo_order (after_run demo_order []) = (st', r)" by fastforce
  have e: "after_run demo_order [] = empty_jev" "js_sent empty_jev = []" by (simp_all add: after_run_def empty_jev_def)
  have s: "js_sent st' \<noteq> js_sent (after_run demo_order [])" using demo_sent c e by auto
  from jev_asks_with_the_tenants_key[OF c s] obtain q where "js_sent st' = [q]"
    "je_lookup demo_jev (jc_tenant demo_jev_ctx) (knob_text demo_jev_cfg ''key_provider'') = Some (jr_key q)" using e by auto
  then show ?thesis using c e by (auto simp: demo_jev_def demo_jev_ctx_def)
qed

end
