(* ===== verification/Routing.thy ===== *)
theory Routing
  imports Adapters Savings Pipeline Routing_Rules Jev "HOL-Library.Multiset"
begin

text \<open>
  \<open>middleware/g06_routing.py\<close>, the routing decision: tiers and who set them, the strategies that pick within a
  tier, the classifiers, the reachability and cost guards, and the cascade plan. A ladder is a mapping of
  lists of texts and a model is a text, as the configuration and the portal have them. Arguments: the two
  keyword expressions, the first 32 bits of SHA-256, the platform and tenant keys, the judge and the RouteLLM
  sidecar (what they answered), \<open>json.loads\<close>, and the settings of the process. Logs, timings and spans are left
  out.
\<close>

section \<open>State\<close>

type_synonym ladder = "(string \<times> string list) list"

record cascade_plan =
  pl_tiers :: ladder
  pl_cfg :: pydict
  pl_tier1 :: string
  pl_max_tier :: nat

record route_ctx = pipe_ctx +
  rt_messages :: "pydict list"
  rt_request :: string
  rt_tokens :: int
  rt_saved_model :: string
  rt_mode :: string
  rt_level :: "string option"
  rt_router :: "string option"
  rt_complexity :: "string option"
  rt_fallback :: "string option"
  rt_plan :: "cascade_plan option"
  rt_detail :: string
  rt_substituted :: "string option"
  rt_calls :: "provider_call list"

text \<open>What a worker remembers between requests.\<close>

record route_state =
  rs_rotation :: "((string \<times> string) \<times> nat) list"
  rs_latency :: "(string \<times> rat) list"
  rs_failed :: "(string \<times> rat) list"
  rs_jev :: jev_state

datatype sidecar_reply = Sidecar_Timeout | Sidecar_Http_Error | Sidecar_Error | Sidecar_Answer pydict

record route_env =
  rv_fstr :: "pyval \<Rightarrow> string"
  rv_providers :: pyval
  rv_default_provider :: "pyexc + pyval"
  rv_default_model :: string
  rv_pricing :: pricing
  rv_hash :: "string \<Rightarrow> nat"
  rv_complex :: "string \<Rightarrow> bool"
  rv_simple :: "string \<Rightarrow> bool"
  rv_platform_key :: "string \<Rightarrow> bool"
  rv_key :: "string \<Rightarrow> string \<Rightarrow> string option"
  rv_judge :: "string \<Rightarrow> string option \<Rightarrow> string \<Rightarrow> pyval option"
  rv_sidecar :: "string \<Rightarrow> pyval \<Rightarrow> string option \<Rightarrow> sidecar_reply"
  rv_loads :: "string \<Rightarrow> pyval option"
  rv_rules :: rule_engine
  rv_jev :: jev_env
  rv_now :: rat

section \<open>Models, providers and keys\<close>

definition tier_provider :: "route_env \<Rightarrow> string \<Rightarrow> string option" where
  "tier_provider env model =
     (case match_entry (rv_default_provider env) model (rv_providers env) of
        Inr (Some (PDict e)) \<Rightarrow> (case dget_or e ''name'' PNone of PStr n \<Rightarrow> if e = [] then None else Some n | _ \<Rightarrow> None)
      | _ \<Rightarrow> None)"

definition tier_reachable :: "route_env \<Rightarrow> string \<Rightarrow> bool" where
  "tier_reachable env model \<longleftrightarrow>
     model \<noteq> [] \<and>
     (case tier_provider env model of
        None \<Rightarrow> False
      | Some p \<Rightarrow> p \<noteq> [] \<and>
          (rv_platform_key env p \<or>
           (case get_adapter (rv_default_provider env) model (rv_providers env) of
              Inr a \<Rightarrow> \<not> ao_requires_api_key (ops_for (rv_fstr env) a) | Inl _ \<Rightarrow> False)))"

definition resolve_tier_key :: "route_env \<Rightarrow> string \<Rightarrow> string \<Rightarrow> string option" where
  "resolve_tier_key env model tenant =
     (case tier_provider env model of
        None \<Rightarrow> None
      | Some p \<Rightarrow> if p = [] then None else (case rv_key env p tenant of Some [] \<Rightarrow> None | k \<Rightarrow> k))"

fun collect :: "(pyval \<Rightarrow> pyexc + pyval list) \<Rightarrow> pyval list \<Rightarrow> pyexc + pyval list" where
  "collect f [] = Inr []"
| "collect f (x # xs) = bind_res (f x) (\<lambda>ys. bind_res (collect f xs) (\<lambda>zs. Inr (ys @ zs)))"

definition listed_under :: "string \<Rightarrow> pyval \<Rightarrow> pyexc + pyval list" where
  "listed_under k p =
     bind_res (py_get p k (PList [])) (\<lambda>v. bind_res (py_iter v) (\<lambda>xs.
       if list_all hashable xs then Inr xs else Inl TypeError))"

definition default_provider_prefixes :: "string list" where
  "default_provider_prefixes = [''gpt'', ''o1'', ''o3'', ''o4'', ''text-'', ''claude'', ''gemini'']"

definition is_configured_model :: "route_env \<Rightarrow> string \<Rightarrow> pyexc + bool" where
  "is_configured_model env model =
     bind_res (py_iter (rv_providers env)) (\<lambda>ps.
     bind_res (collect (listed_under ''models'') ps) (\<lambda>known.
       if PStr model \<in> set known then Inr True
       else bind_res (collect (listed_under ''model_prefixes'') ps) (\<lambda>prefixes.
              any_prefix model (if prefixes = [] then map PStr default_provider_prefixes else prefixes))))"

text \<open>An unconfigured model is replaced by the configured default, and the savings record says so.\<close>

definition record_substitution :: "string \<Rightarrow> route_ctx \<Rightarrow> route_ctx" where
  "record_substitution substitute c =
     c\<lparr>px_model := substitute, px_routed := substitute, rt_substituted := Some substitute,
       rt_saved_model := substitute, rt_detail := ''unconfigured model -> configured default''\<rparr>"

definition substitute_unconfigured :: "route_env \<Rightarrow> route_ctx \<Rightarrow> pyexc + route_ctx" where
  "substitute_unconfigured env c =
     map_sum id (\<lambda>configured.
       if \<not> configured \<and> rv_default_model env \<noteq> [] \<and> px_model c \<noteq> rv_default_model env
       then record_substitution (rv_default_model env) c else c)
       (is_configured_model env (px_model c))"

section \<open>Ladders\<close>

definition tier_names :: "string list" where
  "tier_names = [''simple'', ''medium'', ''complex'']"

definition tier_ranks :: tier_order where
  "tier_ranks = [(''simple'', 0), (''medium'', 1), (''complex'', 2)]"

definition texts_of :: "pyval \<Rightarrow> string list" where
  "texts_of v = (case v of PList xs \<Rightarrow> List.map_filter (\<lambda>x. case x of PStr s \<Rightarrow> Some s | _ \<Rightarrow> None) xs | _ \<Rightarrow> [])"

definition ladder_of :: "pydict \<Rightarrow> ladder" where
  "ladder_of d = map (\<lambda>(k, v). (k, texts_of v)) d"

definition tier_models :: "ladder \<Rightarrow> string \<Rightarrow> string list" where
  "tier_models l t = (case dget l t of Some ms \<Rightarrow> ms | None \<Rightarrow> [])"

definition dict_at :: "pyval \<Rightarrow> string \<Rightarrow> pyval" where
  "dict_at v k = (case v of PDict d \<Rightarrow> dget_or d k PNone | _ \<Rightarrow> PNone)"

definition tiers_node :: "pyval \<Rightarrow> pydict" where
  "tiers_node v = (case dict_at (dict_at (dict_at v ''groups'') ''G6_routing'') ''tiers'' of PDict d \<Rightarrow> d | _ \<Rightarrow> [])"

definition picked_models :: "pyval \<Rightarrow> string list" where
  "picked_models v =
     (case v of
        PStr s \<Rightarrow> filter (\<lambda>m. m \<noteq> []) [py_strip s]
      | PList xs \<Rightarrow> List.map_filter (\<lambda>x. case x of PStr s \<Rightarrow> if py_strip s = [] then None else Some (py_strip s) | _ \<Rightarrow> None) xs
      | _ \<Rightarrow> [])"

definition add_picks :: "pydict \<Rightarrow> ladder \<Rightarrow> ladder" where
  "add_picks node picks =
     fold (\<lambda>(t, v) l. if t \<in> set tier_names \<and> picked_models v \<noteq> [] then dset t (picked_models v) l else l) node picks"

definition tenant_tier_picks :: "'m pipe_ctx_scheme \<Rightarrow> ladder" where
  "tenant_tier_picks c =
     (let operator = dict_at (dict_at (px_config c) ''tenants'') (px_tenant c);
          stored = (case px_overrides c of Some v \<Rightarrow> v | None \<Rightarrow> PNone)
      in add_picks (tiers_node operator) (add_picks (tiers_node stored) []))"

definition resolve_tiers :: "route_env \<Rightarrow> pydict \<Rightarrow> string \<Rightarrow> ladder \<Rightarrow> ladder option" where
  "resolve_tiers env cfg model picks =
     (case dget_or cfg ''tiers_by_provider'' PNone of
        PDict (kv # kvs) \<Rightarrow>
          (let fam = (case tier_provider env model of
                        Some p \<Rightarrow> if p = [] then None
                                  else (case dget (kv # kvs) p of
                                          Some (PDict d) \<Rightarrow> if list_ex (\<lambda>t. tier_models (ladder_of d) t \<noteq> []) tier_names
                                                            then Some (ladder_of d) else None
                                        | _ \<Rightarrow> None)
                      | None \<Rightarrow> None)
           in if picks = [] then fam
              else Some (fold (\<lambda>(t, ms) l. dset t ms l) picks (case fam of Some l \<Rightarrow> l | None \<Rightarrow> [])))
      | _ \<Rightarrow> (case dget_or cfg ''tiers'' (PDict []) of PNone \<Rightarrow> None | PDict d \<Rightarrow> Some (ladder_of d) | _ \<Rightarrow> Some []))"

section \<open>Strategies\<close>

definition valid_strategies :: "string list" where
  "valid_strategies = [''priority'', ''cascade'', ''weighted'', ''round_robin'', ''least_latency'', ''canary'']"

definition failed_model_hold :: rat where "failed_model_hold = 300"

definition record_model_latency :: "string \<Rightarrow> rat \<Rightarrow> rat \<Rightarrow> route_state \<Rightarrow> route_state" where
  "record_model_latency model ms alpha st =
     (if model = [] \<or> ms \<le> 0 then st
      else st\<lparr>rs_latency := dset model (case dget (rs_latency st) model of None \<Rightarrow> ms | Some prev \<Rightarrow> alpha * ms + (1 - alpha) * prev)
                              (rs_latency st),
              rs_failed := dpop model (rs_failed st)\<rparr>)"

definition remember_model_failure :: "rat \<Rightarrow> string \<Rightarrow> route_state \<Rightarrow> route_state" where
  "remember_model_failure now model st = (if model = [] then st else st\<lparr>rs_failed := dset model now (rs_failed st)\<rparr>)"

definition stable_bucket :: "route_env \<Rightarrow> string \<Rightarrow> nat \<Rightarrow> nat" where
  "stable_bucket env key m = (if m \<le> 1 then 0 else rv_hash env key mod m)"

text \<open>The first candidate whose running weight passes the point.\<close>

fun weighted_pick :: "rat \<Rightarrow> rat \<Rightarrow> (string \<times> rat) list \<Rightarrow> string option" where
  "weighted_pick point acc [] = None"
| "weighted_pick point acc ((m, w) # mws) = (if point < acc + w then Some m else weighted_pick point (acc + w) mws)"

definition latency_rank :: "rat \<Rightarrow> route_state \<Rightarrow> string \<Rightarrow> bool \<times> rat" where
  "latency_rank now st m =
     ((case dget (rs_failed st) m of None \<Rightarrow> False | Some at_time \<Rightarrow> now - at_time < failed_model_hold),
      (case dget (rs_latency st) m of Some l \<Rightarrow> l | None \<Rightarrow> 0))"

definition rank_less :: "bool \<times> rat \<Rightarrow> bool \<times> rat \<Rightarrow> bool" where
  "rank_less a b \<longleftrightarrow> (\<not> fst a \<and> fst b) \<or> (fst a = fst b \<and> snd a < snd b)"

fun least_ranked :: "(string \<Rightarrow> bool \<times> rat) \<Rightarrow> string \<Rightarrow> string list \<Rightarrow> string" where
  "least_ranked rank b [] = b"
| "least_ranked rank b (m # ms) = least_ranked rank (if rank_less (rank m) (rank b) then m else b) ms"

fun weights_for :: "pydict \<Rightarrow> string list \<Rightarrow> pyexc + rat list" where
  "weights_for weights [] = Inr []"
| "weights_for weights (m # ms) =
     (case py_float (py_or (dget_or weights m (PInt 1)) (PInt 0)) of
        None \<Rightarrow> Inl ValueError
      | Some w \<Rightarrow> map_sum id (Cons (max 0 w)) (weights_for weights ms))"

definition canary_pick :: "route_env \<Rightarrow> pydict \<Rightarrow> string \<Rightarrow> string list \<Rightarrow> pyexc + string" where
  "canary_pick env cfg rid models =
     (case py_float (py_or (dget_or cfg ''canary_pct'' (PInt 0)) (PInt 0)) of
        None \<Rightarrow> Inl ValueError
      | Some raw \<Rightarrow>
          (let pct = max 0 (min 100 raw) in
           Inr (if pct \<le> 0 then models ! 0
                else if of_nat (stable_bucket env rid 100) < pct then models ! 1 else models ! 0)))"

definition weighted_choice :: "route_env \<Rightarrow> pydict \<Rightarrow> string \<Rightarrow> string list \<Rightarrow> pyexc + string" where
  "weighted_choice env cfg rid models =
     (case py_or (dget_or cfg ''strategy_weights'' PNone) (PDict []) of
        PDict weights \<Rightarrow>
          bind_res (weights_for weights models) (\<lambda>ws.
            let total = sum_list ws in
            Inr (if total \<le> 0 then models ! 0
                 else (case weighted_pick (of_nat (stable_bucket env rid 10000) / 10000 * total) 0 (zip models ws) of
                         Some m \<Rightarrow> m | None \<Rightarrow> last models)))
      | _ \<Rightarrow> Inl AttributeError)"

definition select_from_tier ::
  "route_env \<Rightarrow> pydict \<Rightarrow> 'm pipe_ctx_scheme \<Rightarrow> string \<Rightarrow> string \<Rightarrow> string list \<Rightarrow> route_state
   \<Rightarrow> (pyexc + string option) \<times> route_state" where
  "select_from_tier env cfg c rid label models st =
     (case models of
        [] \<Rightarrow> (Inr None, st)
      | [m] \<Rightarrow> (Inr (Some m), st)
      | _ \<Rightarrow>
          (let named = py_lower (py_str (rv_fstr env) (dget_or cfg ''strategy'' (PStr ''priority'')));
               strategy = (if named \<in> set valid_strategies then named else ''priority'')
           in if strategy = ''round_robin''
              then (let key = (if px_tenant c = [] then ''default'' else px_tenant c, if label = [] then with_sep '','' models else label);
                        i = (case dget (rs_rotation st) key of Some n \<Rightarrow> n | None \<Rightarrow> 0)
                    in (Inr (Some (models ! (i mod length models))),
                        st\<lparr>rs_rotation := dset key (Suc i mod length models) (rs_rotation st)\<rparr>))
              else if strategy = ''canary'' then (map_sum id Some (canary_pick env cfg rid models), st)
              else if strategy = ''weighted'' then (map_sum id Some (weighted_choice env cfg rid models), st)
              else if strategy = ''least_latency''
              then (Inr (Some (least_ranked (latency_rank (rv_now env) st) (models ! 0) (tl models))), st)
              else (Inr (Some (models ! 0)), st)))"

section \<open>Classifiers\<close>

definition classify_heuristic :: "route_env \<Rightarrow> pydict list \<Rightarrow> string \<times> rat" where
  "classify_heuristic env messages =
     (let t = query_text messages; n = length (words t) in
      if n > 500 \<or> rv_complex env t then (''complex'', 9 / 10)
      else if n < 80 \<or> rv_simple env t then (''simple'', 9 / 10)
      else (''medium'', 1 / 2))"

text \<open>The fences some models put around JSON.\<close>

definition drop_fence :: "string \<Rightarrow> string" where
  "drop_fence s =
     (let s1 = (if prefix ''```json'' s then drop 7 s else s);
          s2 = (if prefix ''```'' s1 then drop 3 s1 else s1);
          s3 = (if suffix ''```'' s2 then take (length s2 - 3) s2 else s2)
      in py_strip s3)"

text \<open>The content of the first choice, stripped; \<open>None\<close> where reading it raises.\<close>

definition reply_content :: "pyval \<Rightarrow> string option" where
  "reply_content r =
     (case r of
        PDict d \<Rightarrow>
          (case dget_or d ''choices'' (PList [PDict []]) of
             PList (PDict c # _) \<Rightarrow>
               (case dget_or c ''message'' (PDict []) of
                  PDict m \<Rightarrow> (case dget_or m ''content'' (PStr []) of PStr s \<Rightarrow> Some (py_strip s) | _ \<Rightarrow> None)
                | _ \<Rightarrow> None)
           | _ \<Rightarrow> None)
      | _ \<Rightarrow> None)"

definition judged_tier :: "route_env \<Rightarrow> pyval \<Rightarrow> string option" where
  "judged_tier env response =
     (case reply_content response of
        None \<Rightarrow> None
      | Some s \<Rightarrow>
          (case rv_loads env (drop_fence s) of
             Some (PDict d) \<Rightarrow>
               (case dget_or d ''tier'' (PStr []) of
                  PStr t \<Rightarrow> (let t' = py_strip (py_lower t) in if t' \<in> set tier_names then Some t' else None)
                | _ \<Rightarrow> None)
           | _ \<Rightarrow> None))"

definition judge_text :: "pydict list \<Rightarrow> string" where
  "judge_text messages =
     (let t = spaced (List.map_filter string_content messages) in
      if 800 < length t then take 800 t @ ''...'' else t)"

definition judge_tenant :: "route_env \<Rightarrow> route_ctx \<Rightarrow> string" where
  "judge_tenant env c =
     (if px_tenant c \<noteq> [] then px_tenant c
      else (let v = py_or (dget_or (px_params c) ''_auth_tenant_id'' PNone) (PStr ''default'') in py_str (rv_fstr env) v))"

definition classify_llm_judge :: "route_env \<Rightarrow> pydict \<Rightarrow> route_ctx \<Rightarrow> route_ctx \<times> string" where
  "classify_llm_judge env cfg c =
     (let fallback = fst (classify_heuristic env (rt_messages c)) in
      case dget_or cfg ''judge_model'' (PStr []) of
        PStr jm \<Rightarrow>
          if jm = [] then (c, fallback)
          else (case rv_judge env jm (resolve_tier_key env jm (judge_tenant env c)) (judge_text (rt_messages c)) of
                  None \<Rightarrow> (c, fallback)
                | Some response \<Rightarrow>
                    (c\<lparr>rt_calls := record_provider_call jm response True (rt_calls c)\<rparr>,
                     (case judged_tier env response of Some t \<Rightarrow> t | None \<Rightarrow> fallback)))
      | _ \<Rightarrow> (c, fallback))"

definition classify_cascade :: "route_env \<Rightarrow> pydict \<Rightarrow> route_ctx \<Rightarrow> pyexc + route_ctx \<times> string" where
  "classify_cascade env cfg c =
     (case classify_heuristic env (rt_messages c) of
        (tier, confidence) \<Rightarrow>
          bind_res (py_num (dget_or cfg ''cascade_confidence_threshold'' (PFloat (7 / 10)))) (\<lambda>threshold.
            Inr (if threshold \<le> confidence \<or> \<not> py_truthy (dget_or cfg ''judge_model'' (PStr [])) then (c, tier)
                 else classify_llm_judge env cfg c)))"

definition routellm_thresholds :: "(string \<times> rat) list" where
  "routellm_thresholds =
     [(''bert'', 4066 / 10000), (''mf'', 11593 / 100000), (''sw_ranking'', 21647 / 100000), (''causal_llm'', 962 / 10000)]"

definition text_or :: "pydict \<Rightarrow> string \<Rightarrow> string \<Rightarrow> string" where
  "text_or d k dflt = (case dget_or d k (PStr dflt) of PStr s \<Rightarrow> s | _ \<Rightarrow> [])"

definition own_openai_key :: "route_env \<Rightarrow> route_ctx \<Rightarrow> string option" where
  "own_openai_key env c =
     (case rv_key env ''openai'' (if px_tenant c = [] then ''default'' else px_tenant c) of Some [] \<Rightarrow> None | k \<Rightarrow> k)"

text \<open>The router that runs, its threshold and the key it embeds with.\<close>

definition routellm_router :: "route_env \<Rightarrow> pydict \<Rightarrow> route_ctx \<Rightarrow> string \<times> pyval \<times> string option" where
  "routellm_router env rcfg c =
     (let router = text_or rcfg ''router'' ''bert'';
          published = (case dget routellm_thresholds router of Some t \<Rightarrow> t | None \<Rightarrow> 4066 / 10000);
          threshold = dget_or rcfg ''threshold'' (PFloat published)
      in if router \<in> {''mf'', ''sw_ranking''}
         then (case own_openai_key env c of
                 None \<Rightarrow> (''bert'', PFloat (4066 / 10000), None)
               | Some k \<Rightarrow> (router, threshold, Some k))
         else (router, threshold, None))"

definition embedding_call :: "route_env \<Rightarrow> pydict \<Rightarrow> route_ctx \<Rightarrow> pyexc + route_ctx" where
  "embedding_call env result c =
     (case dget_or result ''embedding_usage'' PNone of
        PDict u \<Rightarrow>
          (case py_int (py_or (dget_or u ''prompt_tokens'' PNone) (PInt 0)) of
             None \<Rightarrow> Inl ValueError
           | Some n \<Rightarrow>
               Inr (c\<lparr>rt_calls := record_provider_call
                         (''openai/'' @ py_str (rv_fstr env) (py_or (dget_or u ''model'' PNone) (PStr ''embedding'')))
                         (PDict [(''usage'', PDict [(''prompt_tokens'', PInt n)])]) True (rt_calls c)\<rparr>))
      | _ \<Rightarrow> Inr c)"

definition classify_routellm :: "route_env \<Rightarrow> pydict \<Rightarrow> route_ctx \<Rightarrow> pyexc + route_ctx \<times> string" where
  "classify_routellm env cfg c =
     (case dget_or cfg ''routellm'' (PDict []) of
        PDict rcfg \<Rightarrow>
          (let weak = text_or rcfg ''weak_model'' []; strong = text_or rcfg ''strong_model'' [];
               heuristic = fst (classify_heuristic env (rt_messages c));
               fall_back = (\<lambda>reason c'. Inr (c'\<lparr>rt_fallback := Some reason\<rparr>, heuristic))
           in if text_or rcfg ''url'' [] = [] \<or> weak = [] \<or> strong = [] then fall_back ''no_config'' c
              else (case routellm_router env rcfg c of
                      (router, threshold, key) \<Rightarrow>
                        (case rv_sidecar env router threshold key of
                           Sidecar_Timeout \<Rightarrow> fall_back ''timeout'' c
                         | Sidecar_Http_Error \<Rightarrow> fall_back ''http_error'' c
                         | Sidecar_Error \<Rightarrow> fall_back ''error'' c
                         | Sidecar_Answer result \<Rightarrow>
                             (case embedding_call env result c of
                                Inl _ \<Rightarrow> fall_back ''error'' c
                              | Inr c1 \<Rightarrow>
                                  (let routed = dget_or result ''routed_model'' PNone in
                                   if routed \<noteq> PStr weak \<and> routed \<noteq> PStr strong then fall_back ''bad_answer'' c1
                                   else (case dget_or rcfg ''model_map'' (PDict [(''weak'', PStr ''simple''), (''strong'', PStr ''complex'')]) of
                                           PDict mm \<Rightarrow> Inr (c1\<lparr>rt_router := Some router\<rparr>,
                                                          if routed = PStr weak then text_or mm ''weak'' ''simple''
                                                          else text_or mm ''strong'' ''complex'')
                                         | _ \<Rightarrow> fall_back ''error'' c1))))))
      | _ \<Rightarrow> Inl AttributeError)"

definition classify_jev ::
  "route_env \<Rightarrow> pydict \<Rightarrow> route_ctx \<Rightarrow> route_state \<Rightarrow> route_state \<times> (pyexc + route_ctx \<times> string)" where
  "classify_jev env cfg c st =
     (let jc = \<lparr>jc_config = (case px_config c of PDict d \<Rightarrow> d | _ \<Rightarrow> []), jc_tenant = (if px_tenant c = [] then ''default'' else px_tenant c),
                jc_messages = map PDict (rt_messages c)\<rparr>
      in case jev_classify (rv_jev env) jc (dget_or cfg ''jev'' PNone) tier_ranks (rs_jev st) of
           (j, r) \<Rightarrow>
             (st\<lparr>rs_jev := j\<rparr>,
              (let c1 = c\<lparr>rt_calls := rt_calls c @ drop (length (js_calls (rs_jev st))) (js_calls j)\<rparr> in
               bind_res r (\<lambda>d. case d of
                   Decided tier level \<Rightarrow> Inr (c1\<lparr>rt_level := Some level\<rparr>, tier)
                 | Fell_Back reason \<Rightarrow> classify_cascade env cfg (c1\<lparr>rt_fallback := Some reason\<rparr>)))))"

definition dispatch_classifier ::
  "route_env \<Rightarrow> pydict \<Rightarrow> route_ctx \<Rightarrow> route_state \<Rightarrow> route_state \<times> (pyexc + route_ctx \<times> string)" where
  "dispatch_classifier env cfg c st =
     (let classifier = dget_or cfg ''classifier'' (PStr ''cascade'') in
      if classifier = PStr ''heuristic'' then (st, Inr (c, fst (classify_heuristic env (rt_messages c))))
      else if classifier = PStr ''llm_judge'' then (st, Inr (classify_llm_judge env cfg c))
      else if classifier = PStr ''cascade'' then (st, classify_cascade env cfg c)
      else if classifier = PStr ''routellm'' then (st, classify_routellm env cfg c)
      else if classifier = PStr ''jev'' then classify_jev env cfg c st
      else (st, classify_cascade env cfg (c\<lparr>rt_fallback := Some ''unknown_classifier''\<rparr>)))"

section \<open>Guards\<close>

definition caller_output_budget :: "pydict \<Rightarrow> int option" where
  "caller_output_budget params =
     (case List.map_filter (\<lambda>k. case py_int (dget_or params k PNone) of Some n \<Rightarrow> if 0 < n then Some n else None | None \<Rightarrow> None)
             [''max_completion_tokens'', ''max_tokens''] of
        [] \<Rightarrow> None | n # _ \<Rightarrow> Some n)"

definition adapter_headroom :: "route_env \<Rightarrow> adapter \<Rightarrow> string \<Rightarrow> pyval \<Rightarrow> pyval \<Rightarrow> pyexc + (int \<times> int) option" where
  "adapter_headroom env a model config effort =
     (case a of
        Registered n \<Rightarrow>
          if \<not> is_openai_family n then Inr None
          else bind_res (headroom_needed (rv_fstr env) n model config effort) (\<lambda>needed.
               case needed of
                 None \<Rightarrow> Inr None
               | Some k \<Rightarrow> map_sum id (map_option (Pair k)) (headroom_cap n model config))
      | Generic _ _ \<Rightarrow> Inr None)"

text \<open>The ceiling of the operator lies below what the model needs to think and answer.\<close>

definition reasoning_budget_starved :: "route_env \<Rightarrow> route_ctx \<Rightarrow> string \<Rightarrow> int option \<Rightarrow> bool" where
  "reasoning_budget_starved env c model budget =
     (case budget of
        None \<Rightarrow> False
      | Some b \<Rightarrow>
          (case py_get (px_config c) ''providers'' (PList []) of
             Inl _ \<Rightarrow> False
           | Inr ps \<Rightarrow>
               (case get_adapter (rv_default_provider env) model ps of
                  Inl _ \<Rightarrow> False
                | Inr a \<Rightarrow>
                    (case adapter_headroom env a model (px_config c) (dget_or (px_params c) ''reasoning_effort'' PNone) of
                       Inr (Some (needed, cap)) \<Rightarrow> needed \<noteq> 0 \<and> b < needed \<and> cap < needed
                     | _ \<Rightarrow> False))))"

definition expected_output :: "pydict \<Rightarrow> route_ctx \<Rightarrow> pyexc + int" where
  "expected_output cfg c =
     (case caller_output_budget (px_params c) of
        Some b \<Rightarrow> Inr b
      | None \<Rightarrow> (case py_int (dget_or cfg ''expected_output_tokens_estimate'' (PInt 512)) of
                   Some n \<Rightarrow> Inr n | None \<Rightarrow> Inl ValueError))"

section \<open>The routing decision\<close>

record choice =
  ch_model :: string
  ch_override :: bool
  ch_attempted :: bool
  ch_rule :: "string option"
  ch_cfg :: pydict
  ch_tier :: string

type_synonym routed = "route_state \<times> (pyexc + route_ctx \<times> choice)"

definition g6_config :: "route_ctx \<Rightarrow> pyexc + pydict" where
  "g6_config c =
     bind_res (py_get (px_config c) ''groups'' (PDict [])) (\<lambda>g.
     bind_res (py_get g ''G6_routing'' (PDict [])) (\<lambda>b. case b of PDict d \<Rightarrow> Inr d | _ \<Rightarrow> Inl AttributeError))"

text \<open>A valid \<open>x_complexity\<close> is the caller's own choice of tier.\<close>

definition asked_tier :: "route_ctx \<Rightarrow> string option" where
  "asked_tier c =
     (case py_or (dget_or (px_params c) ''complexity'' PNone) (dget_or (px_params c) ''x_complexity'' PNone) of
        PStr t \<Rightarrow> if t \<in> set tier_names then Some t else None
      | _ \<Rightarrow> None)"

definition pick_from :: "route_env \<Rightarrow> pydict \<Rightarrow> string \<Rightarrow> string list \<Rightarrow> route_ctx \<Rightarrow> route_state \<Rightarrow> (pyexc + string option) \<times> route_state" where
  "pick_from env cfg label models c st = select_from_tier env cfg c (rt_request c) label models st"

definition choose_override :: "route_env \<Rightarrow> pydict \<Rightarrow> ladder \<Rightarrow> string \<Rightarrow> route_ctx \<Rightarrow> route_state \<Rightarrow> routed" where
  "choose_override env cfg tiers t c st =
     (let ch = \<lparr>ch_model = px_model c, ch_override = False, ch_attempted = True, ch_rule = None, ch_cfg = cfg, ch_tier = []\<rparr> in
      if tier_models tiers t = [] then (st, Inr (c, ch))
      else (case pick_from env cfg t (tier_models tiers t) c st of
              (Inl e, st1) \<Rightarrow> (st1, Inl e)
            | (Inr m, st1) \<Rightarrow>
                (st1, Inr (c\<lparr>rt_mode := ''user_override''\<rparr>,
                           ch\<lparr>ch_model := (case m of Some x \<Rightarrow> x | None \<Rightarrow> px_model c), ch_override := True\<rparr>))))"

definition rule_context :: "route_ctx \<Rightarrow> rule_ctx" where
  "rule_context c =
     \<lparr>rx_messages = rt_messages c, rx_params = px_params c,
      rx_headers = Some (map (\<lambda>(k, v). (k, PStr v)) (px_routing_headers c)),
      rx_tokens = rt_tokens c, rx_model = px_model c, rx_user = px_user c\<rparr>"

definition matched_rule :: "route_env \<Rightarrow> pydict \<Rightarrow> route_ctx \<Rightarrow> pyexc + pydict option" where
  "matched_rule env cfg c =
     (if py_truthy (dget_or cfg ''rules'' PNone) then match_for_ctx (rv_rules env) (rule_context c) cfg else Inr None)"

definition rule_id :: "route_env \<Rightarrow> pydict \<Rightarrow> string" where
  "rule_id env rule = py_str (rv_fstr env) (dget_or rule ''id'' (PStr ''?''))"

text \<open>A rule pins a model, or a tier that has one; otherwise it only changes the settings.\<close>

definition apply_rule :: "route_env \<Rightarrow> pydict \<Rightarrow> ladder \<Rightarrow> pydict \<Rightarrow> route_ctx \<Rightarrow> choice \<Rightarrow> route_state \<Rightarrow> routed" where
  "apply_rule env cfg tiers rule c ch st =
     (let eff = effective_cfg cfg rule;
          action = (case rule_action rule of Some a \<Rightarrow> a | None \<Rightarrow> []);
          ch1 = ch\<lparr>ch_cfg := eff\<rparr>;
          pin = (\<lambda>m. (c\<lparr>rt_mode := ''rules:'' @ rule_id env rule\<rparr>, ch1\<lparr>ch_model := m, ch_rule := Some (rule_id env rule)\<rparr>));
          t = text_or action ''tier'' []
      in if text_or action ''model'' [] \<noteq> [] then (st, Inr (pin (text_or action ''model'' [])))
         else if tier_models tiers t \<noteq> []
         then (case pick_from env eff t (tier_models tiers t) c st of
                 (Inl e, st1) \<Rightarrow> (st1, Inl e)
               | (Inr m, st1) \<Rightarrow> (st1, Inr (pin (case m of Some x \<Rightarrow> x | None \<Rightarrow> px_model c))))
         else (st, Inr (c, ch1)))"

definition classifier_name :: "route_env \<Rightarrow> pydict \<Rightarrow> string" where
  "classifier_name env cfg = py_str (rv_fstr env) (dget_or cfg ''classifier'' (PStr ''cascade''))"

definition plans_cascade :: "pydict \<Rightarrow> route_ctx \<Rightarrow> bool" where
  "plans_cascade cfg c \<longleftrightarrow>
     dget_or cfg ''classifier'' (PStr ''cascade'') = PStr ''cascade'' \<and>
     py_truthy (dget_or cfg ''cascade_execution'' (PBool False)) \<and> \<not> py_truthy (dget_or (px_params c) ''stream'' PNone)"

definition rank_of :: "string \<Rightarrow> nat" where
  "rank_of t = (case dget tier_ranks t of Some n \<Rightarrow> nat n | None \<Rightarrow> 0)"

definition plan_cascade :: "route_env \<Rightarrow> ladder \<Rightarrow> route_ctx \<Rightarrow> choice \<Rightarrow> route_state \<Rightarrow> routed" where
  "plan_cascade env tiers c ch st =
     (let cfg = ch_cfg ch in
      case pick_from env cfg ''simple'' (tier_models tiers ''simple'') c st of
        (Inl e, st1) \<Rightarrow> (st1, Inl e)
      | (Inr m, st1) \<Rightarrow>
          (let tier1 = (case m of Some x \<Rightarrow> x | None \<Rightarrow> px_model c);
               t = fst (classify_heuristic env (rt_messages c));
               plan = \<lparr>pl_tiers = tiers, pl_cfg = cfg, pl_tier1 = tier1,
                       pl_max_tier = (if py_truthy (dget_or cfg ''cascade_cap_to_classified_tier'' (PBool True)) then rank_of t else 2)\<rparr>
           in (st1, Inr (c\<lparr>rt_plan := Some plan, rt_mode := ''cascade_planned''\<rparr>, ch\<lparr>ch_model := tier1, ch_tier := t\<rparr>))))"

definition classify_and_pick :: "route_env \<Rightarrow> ladder \<Rightarrow> (route_ctx \<Rightarrow> pyexc + string) \<Rightarrow> route_ctx \<Rightarrow> choice \<Rightarrow> route_state \<Rightarrow> routed" where
  "classify_and_pick env tiers mode c ch st =
     (case dispatch_classifier env (ch_cfg ch) c st of
        (st1, Inl e) \<Rightarrow> (st1, Inl e)
      | (st1, Inr (c1, t)) \<Rightarrow>
          (let candidates = (case dget tiers t of Some ms \<Rightarrow> ms | None \<Rightarrow> tier_models tiers ''medium'');
               ch1 = ch\<lparr>ch_tier := t\<rparr>
           in if candidates = [] then (st1, bind_res (mode c1) (\<lambda>md. Inr (c1\<lparr>rt_mode := md\<rparr>, ch1)))
              else (case pick_from env (ch_cfg ch) t candidates c1 st1 of
                      (Inl e, st2) \<Rightarrow> (st2, Inl e)
                    | (Inr m, st2) \<Rightarrow>
                        (st2, bind_res (mode c1) (\<lambda>md.
                           Inr (c1\<lparr>rt_mode := md\<rparr>, ch1\<lparr>ch_model := (case m of Some x \<Rightarrow> x | None \<Rightarrow> px_model c)\<rparr>))))))"

text \<open>\<open>classifier + "+fallback:..."\<close> needs a text.\<close>

definition classified_mode :: "pydict \<Rightarrow> route_ctx \<Rightarrow> pyexc + string" where
  "classified_mode cfg c =
     (case dget_or cfg ''classifier'' (PStr ''cascade'') of
        PStr name \<Rightarrow> Inr (name @ (case rt_fallback c of Some r \<Rightarrow> if r = [] then [] else ''+fallback:'' @ r | None \<Rightarrow> []))
      | _ \<Rightarrow> Inl TypeError)"

definition choose_classified :: "route_env \<Rightarrow> ladder \<Rightarrow> route_ctx \<Rightarrow> choice \<Rightarrow> route_state \<Rightarrow> routed" where
  "choose_classified env tiers c ch st =
     (if \<not> plans_cascade (ch_cfg ch) c then classify_and_pick env tiers (classified_mode (ch_cfg ch)) c ch st
      else if tier_models tiers ''simple'' \<noteq> [] then plan_cascade env tiers c ch st
      else classify_and_pick env tiers (\<lambda>_. Inr ''cascade_fallback'') c ch st)"

definition choose_model :: "route_env \<Rightarrow> pydict \<Rightarrow> ladder \<Rightarrow> route_ctx \<Rightarrow> route_state \<Rightarrow> routed" where
  "choose_model env cfg tiers c st =
     (case asked_tier c of
        Some t \<Rightarrow> choose_override env cfg tiers t c st
      | None \<Rightarrow>
          (let ch = \<lparr>ch_model = px_model c, ch_override = False, ch_attempted = False, ch_rule = None, ch_cfg = cfg, ch_tier = []\<rparr> in
           case matched_rule env cfg c of
             Inl e \<Rightarrow> (st, Inl e)
           | Inr None \<Rightarrow> choose_classified env tiers c ch st
           | Inr (Some rule) \<Rightarrow>
               (case apply_rule env cfg tiers rule c ch st of
                  (st1, Inl e) \<Rightarrow> (st1, Inl e)
                | (st1, Inr (c1, ch1)) \<Rightarrow>
                    if ch_rule ch1 \<noteq> None then (st1, Inr (c1, ch1)) else choose_classified env tiers c1 ch1 st1)))"

definition mode_or_route :: "route_ctx \<Rightarrow> string" where
  "mode_or_route c = (if rt_mode c = [] then ''route'' else rt_mode c)"

definition guard_reachable :: "route_env \<Rightarrow> pydict \<Rightarrow> route_ctx \<times> choice \<Rightarrow> route_ctx \<times> choice" where
  "guard_reachable env cfg = (\<lambda>(c, ch).
     if ch_model ch \<noteq> [] \<and> ch_model ch \<noteq> px_model c \<and> \<not> tier_reachable env (ch_model ch) \<and>
        resolve_tier_key env (ch_model ch) (px_tenant c) = None \<and>
        py_lower (py_str (rv_fstr env) (dget_or cfg ''on_unreachable_tier'' (PStr ''fallback''))) \<noteq> ''error''
     then (c\<lparr>rt_mode := mode_or_route c @ ''+tier_unreachable_fallback''\<rparr>, ch\<lparr>ch_model := px_model c\<rparr>)
     else (c, ch))"

definition cost_of :: "route_env \<Rightarrow> route_ctx \<Rightarrow> int \<Rightarrow> string \<Rightarrow> rat" where
  "cost_of env c out model = estimate_cost (rv_pricing env) (rt_tokens c) out model"

definition guard_cost :: "route_env \<Rightarrow> route_ctx \<times> choice \<Rightarrow> pyexc + route_ctx \<times> choice" where
  "guard_cost env = (\<lambda>(c, ch).
     if ch_model ch \<noteq> [] \<and> ch_model ch \<noteq> px_model c \<and> \<not> ch_override ch \<and> rt_mode c \<noteq> ''cascade_execution'' \<and>
        \<not> py_truthy (dget_or (ch_cfg ch) ''allow_escalation_above_requested'' (PBool False))
     then bind_res (expected_output (ch_cfg ch) c) (\<lambda>out.
            let starved = reasoning_budget_starved env c (ch_model ch) (caller_output_budget (px_params c)) in
            Inr (if cost_of env c out (px_model c) < cost_of env c out (ch_model ch) \<or> starved
                 then (c\<lparr>rt_mode := mode_or_route c @ (if starved then ''+reasoning_budget_floor'' else ''+cost_floor'')\<rparr>,
                       ch\<lparr>ch_model := px_model c\<rparr>)
                 else (c, ch)))
     else Inr (c, ch))"

definition keep_plan :: "route_ctx \<times> choice \<Rightarrow> route_ctx" where
  "keep_plan = (\<lambda>(c, ch).
     case rt_plan c of Some p \<Rightarrow> if ch_model ch = pl_tier1 p then c else c\<lparr>rt_plan := None\<rparr> | None \<Rightarrow> c)"

definition fallback_decider :: "string \<Rightarrow> string" where
  "fallback_decider classifier = (if classifier = ''routellm'' then ''the keyword rules'' else ''the default classifier'')"

definition routing_detail :: "route_env \<Rightarrow> pydict \<Rightarrow> route_ctx \<Rightarrow> choice \<Rightarrow> string" where
  "routing_detail env cfg c ch =
     (if ch_override ch then ''user_override''
      else (case ch_rule ch of
              Some r \<Rightarrow> ''rule='' @ r
            | None \<Rightarrow>
                (let name = classifier_name env cfg in
                 ''classifier='' @ name @ '', complexity='' @ ch_tier ch
                 @ (case rt_level c of Some l \<Rightarrow> if l = [] then [] else '', level='' @ l | None \<Rightarrow> [])
                 @ (case rt_fallback c of
                      Some r \<Rightarrow> if r = [] then [] else '', fell back to '' @ fallback_decider name @ '' ('' @ r @ '')''
                    | None \<Rightarrow> []))))"

definition commit :: "route_env \<Rightarrow> pydict \<Rightarrow> choice \<Rightarrow> route_ctx \<Rightarrow> route_ctx" where
  "commit env cfg ch c =
     (if ch_model ch \<noteq> px_model c
      then c\<lparr>px_routed := ch_model ch, rt_saved_model := ch_model ch, rt_detail := routing_detail env cfg c ch\<rparr>
      else c)"

definition publish_tier :: "route_ctx \<times> choice \<Rightarrow> route_ctx \<times> choice" where
  "publish_tier = (\<lambda>(c, ch). (c\<lparr>rt_complexity := (if ch_tier ch = [] then None else Some (ch_tier ch))\<rparr>, ch))"

definition decide :: "route_env \<Rightarrow> pydict \<Rightarrow> route_ctx \<times> choice \<Rightarrow> pyexc + route_ctx" where
  "decide env cfg cc =
     map_sum id (\<lambda>(c, ch). commit env cfg ch (keep_plan (c, ch)))
       (guard_cost env (guard_reachable env cfg (publish_tier cc)))"

definition g06_process_request :: "route_env \<Rightarrow> route_ctx \<Rightarrow> route_state \<Rightarrow> route_state \<times> (pyexc + route_ctx)" where
  "g06_process_request env c st =
     (case g6_config c of
        Inl e \<Rightarrow> (st, Inl e)
      | Inr cfg \<Rightarrow>
          if \<not> py_truthy (dget_or cfg ''enabled'' (PBool False)) then (st, substitute_unconfigured env c)
          else (case resolve_tiers env cfg (px_model c) (tenant_tier_picks c) of
                  None \<Rightarrow> (st, Inr c)
                | Some tiers \<Rightarrow>
                    if tiers = [] then (st, substitute_unconfigured env c)
                    else (case choose_model env cfg tiers c st of
                            (st1, Inl e) \<Rightarrow> (st1, Inl e)
                          | (st1, Inr cc) \<Rightarrow> (st1, decide env cfg cc))))"

section \<open>The strategies stay in their tier\<close>

lemma weighted_pick_in: "weighted_pick point acc mws = Some m \<Longrightarrow> m \<in> fst ` set mws"
  by (induction point acc mws rule: weighted_pick.induct) (auto split: if_splits)

lemma least_ranked_in: "least_ranked rank b ms \<in> set (b # ms)"
  by (induction ms arbitrary: b) (auto split: if_splits)

lemma weights_length: "weights_for w ms = Inr ws \<Longrightarrow> length ws = length ms"
  by (induction ms arbitrary: ws) (auto split: option.splits simp: map_sum_def split: sum.splits)

lemma weighted_choice_in: "weighted_choice env cfg rid models = Inr m \<Longrightarrow> models \<noteq> [] \<Longrightarrow> m \<in> set models"
  by (auto simp: weighted_choice_def bind_res_Inr Let_def split: pyval.splits if_splits option.splits
      dest!: weighted_pick_in set_zip_leftD)

lemma canary_pick_in: "canary_pick env cfg rid models = Inr m \<Longrightarrow> 2 \<le> length models \<Longrightarrow> m \<in> set models"
proof -
  assume a: "canary_pick env cfg rid models = Inr m" and "2 \<le> length models"
  then have "models ! 0 \<in> set models" "models ! 1 \<in> set models" by (auto intro!: nth_mem)
  then show ?thesis using a by (auto simp: canary_pick_def Let_def split: option.splits if_splits)
qed

lemma select_in:
  assumes "select_from_tier env cfg c rid label models st = (Inr r, st')" and "models \<noteq> []"
  shows "\<exists>m \<in> set models. r = Some m"
proof -
  consider (one) m where "models = [m]" | (more) m m' ms where "models = m # m' # ms" using assms(2) by (metis neq_Nil_conv)
  then show ?thesis
  proof cases
    case one
    then show ?thesis using assms by (simp add: select_from_tier_def)
  next
    case more
    then have n: "m \<in> set models" "0 < length models" by simp_all
    have i: "models ! (i mod length models) \<in> set models" for i by (rule nth_mem) (rule mod_less_divisor[OF n(2)])
    have "2 \<le> length models" using more by simp
    then show ?thesis
      using assms(1) more n i least_ranked_in[of "latency_rank (rv_now env) st" m "m' # ms"]
        weighted_choice_in[of env cfg rid models] canary_pick_in[of env cfg rid models]
      by (auto simp: select_from_tier_def Let_def map_sum_def split: if_splits sum.splits)
  qed
qed

text \<open>A model whose call failed lately is passed over while another one is left.\<close>

lemma least_ranked_least: "x \<in> set (b # ms) \<Longrightarrow> \<not> rank_less (rank x) (rank (least_ranked rank b ms))"
proof (induction ms arbitrary: b x)
  case Nil
  then show ?case by (auto simp: rank_less_def)
next
  case (Cons m ms)
  let ?n = "if rank_less (rank m) (rank b) then m else b"
  have n: "\<not> rank_less (rank ?n) (rank (least_ranked rank ?n ms))" by (rule Cons.IH) simp
  show ?case
  proof (cases "x = b \<or> x = m")
    case True
    then have "\<not> rank_less (rank x) (rank ?n)" by (auto simp: rank_less_def)
    then show ?thesis using n by (auto simp: rank_less_def)
  next
    case False
    then show ?thesis using Cons.IH[of x ?n] Cons.prems by simp
  qed
qed

section \<open>Rotation\<close>

fun rotate_picks :: "route_env \<Rightarrow> pydict \<Rightarrow> 'm pipe_ctx_scheme \<Rightarrow> string \<Rightarrow> string list \<Rightarrow> string list \<Rightarrow> route_state
   \<Rightarrow> string option list" where
  "rotate_picks env cfg c label models [] st = []"
| "rotate_picks env cfg c label models (rid # rids) st =
     (case select_from_tier env cfg c rid label models st of
        (Inr m, st') \<Rightarrow> m # rotate_picks env cfg c label models rids st'
      | (Inl _, st') \<Rightarrow> rotate_picks env cfg c label models rids st')"

definition rotation_key :: "'m pipe_ctx_scheme \<Rightarrow> string \<Rightarrow> string list \<Rightarrow> string \<times> string" where
  "rotation_key c label models =
     (if px_tenant c = [] then ''default'' else px_tenant c, if label = [] then with_sep '','' models else label)"

definition rotation_at :: "route_state \<Rightarrow> string \<times> string \<Rightarrow> nat" where
  "rotation_at st k = (case dget (rs_rotation st) k of Some n \<Rightarrow> n | None \<Rightarrow> 0)"

definition rotates :: "pydict \<Rightarrow> bool" where
  "rotates cfg \<longleftrightarrow> dget cfg ''strategy'' = Some (PStr ''round_robin'')"

lemma rotate_step:
  assumes "rotates cfg" and "2 \<le> length models"
  shows "select_from_tier env cfg c rid label models st =
    (Inr (Some (models ! (rotation_at st (rotation_key c label models) mod length models))),
     st\<lparr>rs_rotation := dset (rotation_key c label models)
           (Suc (rotation_at st (rotation_key c label models)) mod length models) (rs_rotation st)\<rparr>)"
proof -
  have "py_lower ''round_robin'' = ''round_robin''" by code_simp
  then show ?thesis
    using assms by (cases models rule: list.exhaust; cases "tl models")
      (simp_all add: select_from_tier_def rotates_def dget_or_def py_str_def valid_strategies_def Let_def rotation_key_def rotation_at_def)
qed

lemma rotate_picks_from:
  assumes "rotates cfg" and "2 \<le> length models"
  shows "rotate_picks env cfg c label models rids st =
    map (\<lambda>j. Some (models ! ((rotation_at st (rotation_key c label models) + j) mod length models))) [0..<length rids]"
proof (induction rids arbitrary: st)
  case (Cons rid rids)
  let ?k = "rotation_key c label models"
  let ?s = "st\<lparr>rs_rotation := dset ?k (Suc (rotation_at st ?k) mod length models) (rs_rotation st)\<rparr>"
  have r: "rotation_at ?s ?k = Suc (rotation_at st ?k) mod length models" by (simp add: rotation_at_def dget_dset)
  have "[0..<length (rid # rids)] = 0 # map Suc [0..<length rids]" by (simp add: upt_conv_Cons map_Suc_upt del: upt_Suc)
  then show ?case
    using Cons.IH[of ?s] by (simp add: rotate_step[OF assms] r mod_add_left_eq del: upt_Suc)
qed simp

lemma mset_rotated: "mset (map (\<lambda>j. xs ! ((i + j) mod length xs)) [0..<length xs]) = mset xs"
proof -
  have "map (\<lambda>j. xs ! ((i + j) mod length xs)) [0..<length xs] = rotate i xs"
    by (rule nth_equalityI) (simp_all add: nth_rotate)
  moreover have "mset (rotate1 ys) = mset ys" for ys :: "'a list" by (cases ys) simp_all
  then have "mset (rotate i xs) = mset xs" by (induction i) simp_all
  ultimately show ?thesis by simp
qed

text \<open>
  C30. Round robin is fair: as many requests of a tenant as a tier has models are sent, whatever came before
  them, to every model of the tier exactly as often as the tier lists it.
\<close>

theorem rotation_serves_each_model_once:
  assumes "rotates cfg" and "2 \<le> length models" and "length rids = length models"
  shows "mset (rotate_picks env cfg c label models rids st) = mset (map Some models)"
proof -
  let ?i = "rotation_at st (rotation_key c label models)"
  have "rotate_picks env cfg c label models rids st = map Some (map (\<lambda>j. models ! ((?i + j) mod length models)) [0..<length models])"
    using assms(3) by (simp add: rotate_picks_from[OF assms(1,2)])
  then show ?thesis by (simp only: mset_map[of Some] mset_rotated)
qed

lemma select_state:
  "snd (select_from_tier env cfg c rid label models st) = st \<or>
   (\<exists>n. snd (select_from_tier env cfg c rid label models st) = st\<lparr>rs_rotation := dset (rotation_key c label models) n (rs_rotation st)\<rparr>)"
  unfolding select_from_tier_def rotation_key_def by (cases models; cases "tl models") (simp_all add: Let_def, blast)

lemma tenants_rotate_apart:
  assumes "px_tenant d \<noteq> px_tenant c" and "px_tenant c \<noteq> []" and "px_tenant d \<noteq> []"
  shows "rotation_at (snd (select_from_tier env cfg d rid label models st)) (rotation_key c l ms) = rotation_at st (rotation_key c l ms)"
proof -
  have "rotation_key c l ms \<noteq> rotation_key d label models" using assms by (simp add: rotation_key_def)
  then show ?thesis using select_state[of env cfg d rid label models st] by (auto simp: rotation_at_def dget_dset)
qed

section \<open>What the decision leaves alone\<close>

definition core :: "route_ctx \<Rightarrow> _" where
  "core c = (px_model c, px_routed c, px_params c, px_config c, px_tenant c, px_overrides c, rt_tokens c, rt_messages c, rt_request c)"

lemma core_parts:
  "core d = core c \<Longrightarrow> px_model d = px_model c \<and> px_routed d = px_routed c \<and> px_params d = px_params c \<and> px_config d = px_config c \<and>
     px_tenant d = px_tenant c \<and> rt_tokens d = rt_tokens c \<and> rt_messages d = rt_messages c"
  by (simp add: core_def)

definition calm :: "route_ctx \<Rightarrow> route_ctx \<Rightarrow> bool" where
  "calm c d \<longleftrightarrow> core d = core c \<and> rt_plan d = rt_plan c \<and> rt_mode d = rt_mode c"

lemma calm_judge: "calm c (fst (classify_llm_judge env cfg c))"
  by (auto simp: calm_def core_def classify_llm_judge_def Let_def split: pyval.split option.split)

lemma calm_cascade: "classify_cascade env cfg c = Inr (d, t) \<Longrightarrow> calm c d \<and> rt_fallback d = rt_fallback c"
proof -
  assume a: "classify_cascade env cfg c = Inr (d, t)"
  have "rt_fallback (fst (classify_llm_judge env cfg c)) = rt_fallback c"
    by (auto simp: classify_llm_judge_def Let_def split: pyval.split option.split)
  then show ?thesis using a calm_judge[of c env cfg]
    by (auto simp: classify_cascade_def bind_res_Inr calm_def split: prod.splits if_splits)
qed

lemma calm_updates [simp]:
  "calm c (d\<lparr>rt_fallback := f\<rparr>) = calm c d" "calm c (d\<lparr>rt_router := r\<rparr>) = calm c d" "calm c (d\<lparr>rt_level := l\<rparr>) = calm c d"
  "calm c (d\<lparr>rt_calls := k\<rparr>) = calm c d" "calm c c"
  by (simp_all add: calm_def core_def)

lemma calm_embedding: "embedding_call env result c = Inr d \<Longrightarrow> calm c d"
  by (auto simp: embedding_call_def split: pyval.splits option.splits)

lemma calm_routellm:
  assumes "classify_routellm env cfg c = Inr (d, t)"
  shows "calm c d"
proof -
  obtain rcfg where r: "dget_or cfg ''routellm'' (PDict []) = PDict rcfg"
    using assms by (cases "dget_or cfg ''routellm'' (PDict [])") (simp_all add: classify_routellm_def)
  obtain router threshold key where k: "routellm_router env rcfg c = (router, threshold, key)" by (metis prod_cases3)
  show ?thesis
  proof (cases "text_or rcfg ''url'' [] = [] \<or> text_or rcfg ''weak_model'' [] = [] \<or> text_or rcfg ''strong_model'' [] = []")
    case True
    then show ?thesis using assms r by (auto simp: classify_routellm_def Let_def)
  next
    case False
    show ?thesis
    proof (cases "rv_sidecar env router threshold key")
      case (Sidecar_Answer result)
      show ?thesis
      proof (cases "embedding_call env result c")
        case (Inl e)
        then show ?thesis using assms r k False Sidecar_Answer by (auto simp: classify_routellm_def Let_def)
      next
        case (Inr c1)
        then show ?thesis using assms r k False Sidecar_Answer calm_embedding[OF Inr]
          by (auto simp: classify_routellm_def Let_def split: if_splits pyval.splits)
      qed
    qed (use assms r k False in \<open>auto simp: classify_routellm_def Let_def\<close>)
  qed
qed

lemma calm_jev:
  assumes "classify_jev env cfg c st = (st', Inr (d, t))"
  shows "calm c d"
proof -
  let ?jc = "\<lparr>jc_config = (case px_config c of PDict d \<Rightarrow> d | _ \<Rightarrow> []), jc_tenant = (if px_tenant c = [] then ''default'' else px_tenant c),
                jc_messages = map PDict (rt_messages c)\<rparr>"
  obtain j r where jr: "jev_classify (rv_jev env) ?jc (dget_or cfg ''jev'' PNone) tier_ranks (rs_jev st) = (j, r)" by fastforce
  let ?c1 = "c\<lparr>rt_calls := rt_calls c @ drop (length (js_calls (rs_jev st))) (js_calls j)\<rparr>"
  obtain x where x: "r = Inr x" using assms jr by (cases r) (simp_all add: classify_jev_def)
  show ?thesis
  proof (cases x)
    case (Decided tier level)
    then have "d = ?c1\<lparr>rt_level := Some level\<rparr>" using assms jr x by (simp add: classify_jev_def Let_def)
    then show ?thesis by (simp add: calm_def core_def)
  next
    case (Fell_Back reason)
    then have "classify_cascade env cfg (?c1\<lparr>rt_fallback := Some reason\<rparr>) = Inr (d, t)"
      using assms jr x by (simp add: classify_jev_def Let_def)
    from calm_cascade[OF this] show ?thesis by (simp add: calm_def core_def)
  qed
qed

lemma dispatch_calm:
  assumes "dispatch_classifier env cfg c st = (st', Inr (d, t))"
  shows "calm c d" and
    "dget_or cfg ''classifier'' (PStr ''cascade'') \<notin> PStr ` {''heuristic'', ''llm_judge'', ''cascade'', ''routellm'', ''jev''} \<Longrightarrow>
     rt_fallback d = Some ''unknown_classifier''"
proof -
  let ?k = "dget_or cfg ''classifier'' (PStr ''cascade'')"
  have u: "calm c d \<and> rt_fallback d = Some ''unknown_classifier''"
    if "classify_cascade env cfg (c\<lparr>rt_fallback := Some ''unknown_classifier''\<rparr>) = Inr (d, t)"
    using calm_cascade[OF that] by (auto simp: calm_def core_def)
  show "calm c d"
    using assms u calm_judge[of c env cfg] calm_cascade[of env cfg c d t] calm_routellm[of env cfg c d t] calm_jev[of env cfg c st st' d t]
    by (auto simp: dispatch_classifier_def Let_def calm_def split: if_splits)
  show "?k \<notin> PStr ` {''heuristic'', ''llm_judge'', ''cascade'', ''routellm'', ''jev''} \<Longrightarrow> rt_fallback d = Some ''unknown_classifier''"
    using assms u by (auto simp: dispatch_classifier_def Let_def split: if_splits)
qed

section \<open>What is chosen\<close>

definition in_ladder :: "ladder \<Rightarrow> string \<Rightarrow> bool" where
  "in_ladder tiers m \<longleftrightarrow> (\<exists>t ms. dget tiers t = Some ms \<and> m \<in> set ms)"

definition rule_of :: "pydict \<Rightarrow> pydict \<Rightarrow> bool" where
  "rule_of cfg rule \<longleftrightarrow> (\<exists>raw. dget cfg ''rules'' = Some (PList raw) \<and> rule \<in> set (enabled_rules raw))"

definition pinned_by_rule :: "pydict \<Rightarrow> string \<Rightarrow> bool" where
  "pinned_by_rule cfg m \<longleftrightarrow> (\<exists>rule a. rule_of cfg rule \<and> rule_action rule = Some a \<and> m = text_or a ''model'' [])"

definition settings_of :: "pydict \<Rightarrow> pydict \<Rightarrow> bool" where
  "settings_of cfg eff \<longleftrightarrow> eff = cfg \<or> (\<exists>rule. rule_of cfg rule \<and> eff = effective_cfg cfg rule)"

definition fits :: "pydict \<Rightarrow> ladder \<Rightarrow> route_ctx \<Rightarrow> route_ctx \<times> choice \<Rightarrow> bool" where
  "fits cfg tiers c cc \<longleftrightarrow>
     (case cc of (c1, ch) \<Rightarrow>
        core c1 = core c \<and> (rt_mode c1 = rt_mode c \<or> rt_mode c1 \<noteq> ''cascade_execution'') \<and>
        (ch_model ch = px_model c \<or> in_ladder tiers (ch_model ch) \<or> pinned_by_rule cfg (ch_model ch)) \<and>
        (ch_override ch \<longrightarrow> asked_tier c \<noteq> None) \<and> settings_of cfg (ch_cfg ch))"

lemma in_ladder_models: "in_ladder tiers m \<longleftrightarrow> (\<exists>t. m \<in> set (tier_models tiers t))"
proof
  assume "in_ladder tiers m"
  then obtain t ms where "dget tiers t = Some ms" "m \<in> set ms" by (auto simp: in_ladder_def)
  then have "m \<in> set (tier_models tiers t)" by (simp add: tier_models_def)
  then show "\<exists>t. m \<in> set (tier_models tiers t)" ..
next
  assume "\<exists>t. m \<in> set (tier_models tiers t)"
  then obtain t where "m \<in> set (tier_models tiers t)" ..
  then show "in_ladder tiers m" by (cases "dget tiers t") (auto simp: in_ladder_def tier_models_def)
qed

lemma pick_in_ladder:
  assumes "pick_from env eff t (tier_models tiers t') c st = (Inr m, st')" and "tier_models tiers t' \<noteq> []"
  shows "in_ladder tiers (case m of Some x \<Rightarrow> x | None \<Rightarrow> y)"
  using select_in[OF assms(1)[unfolded pick_from_def] assms(2)] assms(2)
  by (auto simp: in_ladder_def tier_models_def split: option.splits)

lemma matched_in_rules: "match_for_ctx eng c cfg = Inr (Some r) \<Longrightarrow> r \<in> set (normalize_rules cfg)"
  by (auto simp: match_for_ctx_def evaluate_rules_def Let_def map_sum_def split: if_splits sum.splits dest!: evaluate_first)

lemma override_fits:
  assumes "choose_override env cfg tiers t c st = (st', Inr cc)" and "asked_tier c \<noteq> None"
  shows "fits cfg tiers c cc"
  using assms pick_in_ladder[of env cfg t tiers t c st]
  by (auto simp: choose_override_def Let_def fits_def settings_of_def core_def split: if_splits prod.splits sum.splits)

lemma rule_fits:
  assumes "apply_rule env cfg tiers rule c ch st = (st', Inr cc)" and "fits cfg tiers c (c, ch)" and "rule_of cfg rule"
  shows "fits cfg tiers c cc"
proof -
  have s: "settings_of cfg (effective_cfg cfg rule)" using assms(3) by (auto simp: settings_of_def)
  have m: "''rules:'' @ x \<noteq> ''cascade_execution''" for x by simp
  show ?thesis
  proof (cases "text_or (case rule_action rule of Some a \<Rightarrow> a | None \<Rightarrow> []) ''model'' [] = []")
    case False
    then obtain a where a: "rule_action rule = Some a" by (cases "rule_action rule") (auto simp: text_or_def dget_or_def)
    then have "pinned_by_rule cfg (text_or a ''model'' [])" using assms(3) by (auto simp: pinned_by_rule_def)
    then show ?thesis using assms(1,2) a False s m by (auto simp: apply_rule_def Let_def fits_def core_def)
  next
    case True
    then show ?thesis
      using assms(1,2) s m pick_in_ladder[of env "effective_cfg cfg rule" _ tiers _ c st]
      by (auto simp: apply_rule_def Let_def fits_def core_def split: if_splits prod.splits sum.splits)
  qed
qed

lemma suffix_mode: "name @ ''+fallback:unknown_classifier'' \<noteq> ''cascade_execution''"
proof
  assume e: "name @ ''+fallback:unknown_classifier'' = ''cascade_execution''"
  have "last (name @ ''+fallback:unknown_classifier'') = last ''cascade_execution''" by (rule arg_cong[OF e])
  then show False by simp
qed

lemma classified_mode_other:
  assumes "classified_mode cfg c = Inr md"
    and "dget_or cfg ''classifier'' (PStr ''cascade'') \<notin> PStr ` {''heuristic'', ''llm_judge'', ''cascade'', ''routellm'', ''jev''} \<Longrightarrow>
           rt_fallback c = Some ''unknown_classifier''"
  shows "md \<noteq> ''cascade_execution''"
proof (cases "dget_or cfg ''classifier'' (PStr ''cascade'') \<in> PStr ` {''heuristic'', ''llm_judge'', ''cascade'', ''routellm'', ''jev''}")
  case True
  then show ?thesis using assms(1) by (auto simp: classified_mode_def split: option.splits if_splits)
next
  case False
  then show ?thesis using assms suffix_mode by (auto simp: classified_mode_def split: pyval.splits)
qed

lemma classify_and_pick_fits:
  assumes "classify_and_pick env tiers mode c ch st = (st', Inr cc)" and "fits cfg tiers c (c, ch)"
    and "\<And>c1 t st1 md. dispatch_classifier env (ch_cfg ch) c st = (st1, Inr (c1, t)) \<Longrightarrow> mode c1 = Inr md \<Longrightarrow> md \<noteq> ''cascade_execution''"
  shows "fits cfg tiers c cc"
proof -
  obtain st1 c1 t where d: "dispatch_classifier env (ch_cfg ch) c st = (st1, Inr (c1, t))"
    using assms(1) by (auto simp: classify_and_pick_def split: prod.splits sum.splits)
  have k: "core c1 = core c" using dispatch_calm(1)[OF d] by (simp add: calm_def)
  let ?cand = "case dget tiers t of Some ms \<Rightarrow> ms | None \<Rightarrow> tier_models tiers ''medium''"
  have l: "in_ladder tiers (case m of Some x \<Rightarrow> x | None \<Rightarrow> px_model c)"
    if "pick_from env (ch_cfg ch) t ?cand c1 st1 = (Inr m, st2)" "?cand \<noteq> []" for m st2
  proof -
    note s = select_in[OF that(1)[unfolded pick_from_def] that(2)]
    obtain x where x: "x \<in> set ?cand" "m = Some x" using s by blast
    show ?thesis
    proof (cases "dget tiers t")
      case None
      then have "x \<in> set (tier_models tiers ''medium'')" using x(1) by simp
      then show ?thesis using x(2) by (cases "dget tiers ''medium''") (auto simp: in_ladder_def tier_models_def)
    next
      case (Some ms)
      then show ?thesis using x by (auto simp: in_ladder_def)
    qed
  qed
  show ?thesis
  proof (cases "?cand = []")
    case True
    then show ?thesis using assms(1,2) d k assms(3)[OF d]
      by (auto simp: classify_and_pick_def Let_def bind_res_Inr fits_def core_def)
  next
    case False
    then obtain m st2 where p: "pick_from env (ch_cfg ch) t ?cand c1 st1 = (Inr m, st2)"
      using assms(1) d by (auto simp: classify_and_pick_def Let_def split: prod.splits sum.splits)
    then show ?thesis using assms(1,2) d k assms(3)[OF d] False l[OF p False]
      by (auto simp: classify_and_pick_def Let_def bind_res_Inr fits_def core_def)
  qed
qed

lemma plan_fits:
  assumes "plan_cascade env tiers c ch st = (st', Inr cc)" and "fits cfg tiers c (c, ch)" and "tier_models tiers ''simple'' \<noteq> []"
  shows "fits cfg tiers c cc"
  using assms pick_in_ladder[of env "ch_cfg ch" "''simple''" tiers "''simple''" c st]
  by (auto simp: plan_cascade_def Let_def fits_def core_def split: prod.splits sum.splits)

lemma classified_fits:
  assumes "choose_classified env tiers c ch st = (st', Inr cc)" and "fits cfg tiers c (c, ch)"
  shows "fits cfg tiers c cc"
proof (cases "plans_cascade (ch_cfg ch) c")
  case True
  then show ?thesis using assms plan_fits[of env tiers c ch st st' cc cfg] classify_and_pick_fits[of env tiers "\<lambda>_. Inr ''cascade_fallback''" c ch st st' cc cfg]
    by (auto simp: choose_classified_def split: if_splits)
next
  case False
  show ?thesis
  proof (rule classify_and_pick_fits)
    show "classify_and_pick env tiers (classified_mode (ch_cfg ch)) c ch st = (st', Inr cc)"
      using assms(1) False by (simp add: choose_classified_def)
    show "fits cfg tiers c (c, ch)" by (rule assms(2))
    show "md \<noteq> ''cascade_execution''"
      if "dispatch_classifier env (ch_cfg ch) c st = (st1, Inr (c1, t))" "classified_mode (ch_cfg ch) c1 = Inr md" for c1 t st1 md
      by (rule classified_mode_other[OF that(2) dispatch_calm(2)[OF that(1)]])
  qed
qed

lemma fits_trans:
  assumes "fits cfg tiers c (c1, ch1)" and "fits cfg tiers c1 cc" and "ch_rule ch1 = None"
  shows "fits cfg tiers c cc"
proof -
  have "core c1 = core c" using assms(1) by (simp add: fits_def)
  then have "asked_tier c1 = asked_tier c" "px_model c1 = px_model c" using core_parts[of c1 c] by (simp_all add: asked_tier_def)
  then show ?thesis using assms by (auto simp: fits_def)
qed

lemma choose_fits:
  assumes "choose_model env cfg tiers c st = (st', Inr cc)"
  shows "fits cfg tiers c cc"
proof (cases "asked_tier c")
  case (Some t)
  then show ?thesis using assms override_fits[of env cfg tiers t c st st' cc] by (simp add: choose_model_def)
next
  case None
  let ?ch = "\<lparr>ch_model = px_model c, ch_override = False, ch_attempted = False, ch_rule = None, ch_cfg = cfg, ch_tier = []\<rparr>"
  have f: "fits cfg tiers c (c, ?ch)" by (simp add: fits_def settings_of_def)
  show ?thesis
  proof (cases "matched_rule env cfg c")
    case (Inl e)
    then show ?thesis using assms None by (simp add: choose_model_def)
  next
    case (Inr r)
    show ?thesis
    proof (cases r)
      case None
      then show ?thesis using assms \<open>asked_tier c = None\<close> Inr classified_fits[OF _ f] by (simp add: choose_model_def)
    next
      case (Some rule)
      have "rule_of cfg rule"
        using Inr Some normalize_subset[OF matched_in_rules[of "rv_rules env" "rule_context c" cfg rule]]
        by (auto simp: matched_rule_def rule_of_def split: if_splits)
      obtain st1 c1 ch1 where a: "apply_rule env cfg tiers rule c ?ch st = (st1, Inr (c1, ch1))"
        using assms None Inr Some by (auto simp: choose_model_def split: prod.splits sum.splits)
      note r = rule_fits[OF a f \<open>rule_of cfg rule\<close>]
      show ?thesis
      proof (cases "ch_rule ch1")
        case None
        then have c: "choose_classified env tiers c1 ch1 st1 = (st', Inr cc)"
          using assms \<open>asked_tier c = None\<close> Inr Some a by (simp add: choose_model_def)
        have "fits cfg tiers c1 (c1, ch1)"
          using r core_parts[of c1 c] by (auto simp: fits_def asked_tier_def)
        from fits_trans[OF r classified_fits[OF c this] None] show ?thesis .
      next
        case (Some x)
        then show ?thesis using assms \<open>asked_tier c = None\<close> Inr \<open>r = Some rule\<close> a r by (simp add: choose_model_def)
      qed
    qed
  qed
qed


section \<open>The decision\<close>

lemma same_measures:
  assumes "core d = core c"
  shows "expected_output g d = expected_output g c" "cost_of env d out m = cost_of env c out m"
    "reasoning_budget_starved env d m b = reasoning_budget_starved env c m b"
    "caller_output_budget (px_params d) = caller_output_budget (px_params c)"
proof -
  have e: "px_config d = px_config c" "px_params d = px_params c" "px_model d = px_model c" "rt_tokens d = rt_tokens c"
    using core_parts[OF assms] by simp_all
  show "expected_output g d = expected_output g c" "cost_of env d out m = cost_of env c out m"
    "reasoning_budget_starved env d m b = reasoning_budget_starved env c m b"
    "caller_output_budget (px_params d) = caller_output_budget (px_params c)"
    by (simp_all only: e expected_output_def cost_of_def reasoning_budget_starved_def)
qed

definition reached :: "route_env \<Rightarrow> pydict \<Rightarrow> route_ctx \<Rightarrow> string \<Rightarrow> bool" where
  "reached env cfg c m \<longleftrightarrow>
     m = [] \<or> tier_reachable env m \<or> resolve_tier_key env m (px_tenant c) \<noteq> None \<or>
     py_lower (py_str (rv_fstr env) (dget_or cfg ''on_unreachable_tier'' (PStr ''fallback''))) = ''error''"

definition affordable :: "route_env \<Rightarrow> pydict \<Rightarrow> route_ctx \<Rightarrow> string \<Rightarrow> bool" where
  "affordable env eff c m \<longleftrightarrow>
     (\<exists>out. expected_output eff c = Inr out \<and> cost_of env c out m \<le> cost_of env c out (px_model c) \<and>
        \<not> reasoning_budget_starved env c m (caller_output_budget (px_params c)))"

definition exempt :: "route_ctx \<times> choice \<Rightarrow> bool" where
  "exempt = (\<lambda>(c, ch). ch_override ch \<or> rt_mode c = ''cascade_execution'' \<or>
     py_truthy (dget_or (ch_cfg ch) ''allow_escalation_above_requested'' (PBool False)))"

lemma guard_reachable_cases:
  assumes "guard_reachable env cfg (c, ch) = (c', ch')"
  shows "core c' = core c \<and> rt_plan c' = rt_plan c \<and> ch_override ch' = ch_override ch \<and> ch_cfg ch' = ch_cfg ch \<and>
    (ch_model ch' = px_model c \<or> (ch' = ch \<and> c' = c \<and> reached env cfg c (ch_model ch)))"
  using assms by (auto simp: guard_reachable_def reached_def core_def split: if_splits)

lemma guard_cost_cases:
  assumes "guard_cost env (c, ch) = Inr (c', ch')"
  shows "core c' = core c \<and> rt_plan c' = rt_plan c \<and>
    (ch_model ch' = px_model c \<or>
     (ch' = ch \<and> c' = c \<and> (ch_model ch = [] \<or> exempt (c, ch) \<or> affordable env (ch_cfg ch) c (ch_model ch))))"
proof (cases "ch_model ch \<noteq> [] \<and> ch_model ch \<noteq> px_model c \<and> \<not> exempt (c, ch)")
  case False
  then show ?thesis using assms by (auto simp: guard_cost_def exempt_def)
next
  case True
  then have g: "bind_res (expected_output (ch_cfg ch) c) (\<lambda>out.
            let starved = reasoning_budget_starved env c (ch_model ch) (caller_output_budget (px_params c)) in
            Inr (if cost_of env c out (px_model c) < cost_of env c out (ch_model ch) \<or> starved
                 then (c\<lparr>rt_mode := mode_or_route c @ (if starved then ''+reasoning_budget_floor'' else ''+cost_floor'')\<rparr>,
                       ch\<lparr>ch_model := px_model c\<rparr>)
                 else (c, ch))) = Inr (c', ch')"
    using assms by (simp add: guard_cost_def exempt_def)
  obtain out where o: "expected_output (ch_cfg ch) c = Inr out"
    using g by (cases "expected_output (ch_cfg ch) c") (simp_all add: bind_res_def)
  show ?thesis
  proof (cases "cost_of env c out (px_model c) < cost_of env c out (ch_model ch) \<or>
      reasoning_budget_starved env c (ch_model ch) (caller_output_budget (px_params c))")
    case True
    then show ?thesis using g o by (auto simp: bind_res_def Let_def core_def)
  next
    case False
    then have "affordable env (ch_cfg ch) c (ch_model ch)" unfolding affordable_def using o by (intro exI[of _ out]) (simp add: not_less)
    then show ?thesis using g o False by (simp add: bind_res_def Let_def)
  qed
qed

lemma commit_cases:
  assumes "c' = commit env cfg ch (keep_plan (c, ch))"
  shows "px_model c' = px_model c \<and> px_routed c' = (if ch_model ch = px_model c then px_routed c else ch_model ch) \<and>
    (\<forall>p. rt_plan c' = Some p \<longrightarrow> rt_plan c = Some p \<and> pl_tier1 p = ch_model ch)"
proof (cases "rt_plan c")
  case None
  then show ?thesis using assms by (simp add: commit_def keep_plan_def)
next
  case (Some p)
  then show ?thesis using assms by (cases "ch_model ch = pl_tier1 p") (simp_all add: commit_def keep_plan_def)
qed

lemma decide_cases:
  assumes "decide env cfg (c, ch) = Inr c'"
  shows "px_model c' = px_model c \<and>
    (px_routed c' = px_routed c \<or>
     (px_routed c' = ch_model ch \<and> ch_model ch \<noteq> px_model c \<and> reached env cfg c (ch_model ch) \<and>
      (ch_model ch = [] \<or> exempt (c, ch) \<or> affordable env (ch_cfg ch) c (ch_model ch)))) \<and>
    (\<forall>p. rt_plan c' = Some p \<longrightarrow> rt_plan c = Some p \<and> pl_tier1 p = (if px_routed c = px_model c then px_routed c' else pl_tier1 p))"
proof -
  let ?c0 = "fst (publish_tier (c, ch))"
  have p: "publish_tier (c, ch) = (?c0, ch)" by (simp add: publish_tier_def)
  have k0: "core ?c0 = core c" "rt_plan ?c0 = rt_plan c" "rt_mode ?c0 = rt_mode c" by (simp_all add: publish_tier_def core_def)
  obtain c1 ch1 where g1: "guard_reachable env cfg (?c0, ch) = (c1, ch1)" by fastforce
  obtain c2 ch2 where g2: "guard_cost env (c1, ch1) = Inr (c2, ch2)" and c': "c' = commit env cfg ch2 (keep_plan (c2, ch2))"
    using assms p g1 by (auto simp: decide_def map_sum_def split: sum.splits)
  note r1 = guard_reachable_cases[OF g1] and r2 = guard_cost_cases[OF g2] and r3 = commit_cases[OF c']
  have k1: "core c1 = core c" "rt_plan c1 = rt_plan c" using r1 k0 by simp_all
  have k2: "core c2 = core c" "rt_plan c2 = rt_plan c" using r2 k1 by simp_all
  have m: "px_model c2 = px_model c" "px_model c1 = px_model c" "px_model ?c0 = px_model c" "px_routed c2 = px_routed c" "px_tenant ?c0 = px_tenant c"
    using core_parts[OF k2(1)] core_parts[OF k1(1)] core_parts[OF k0(1)] by simp_all
  have a: "affordable env g c1 x = affordable env g c x" for g x
    unfolding affordable_def same_measures[OF k1(1)] m ..
  have e: "exempt (?c0, ch) = exempt (c, ch)" using k0 by (simp add: exempt_def)
  have r: "reached env cfg ?c0 x = reached env cfg c x" for x by (simp add: reached_def m)
  show ?thesis
  proof (cases "ch_model ch2 = px_model c")
    case True
    then show ?thesis using r3 m k2 by auto
  next
    case False
    then have "ch2 = ch1" "c2 = c1" "ch_model ch1 = [] \<or> exempt (c1, ch1) \<or> affordable env (ch_cfg ch1) c (ch_model ch1)"
      using r2 m a by auto
    moreover from this False have "ch1 = ch" "c1 = ?c0" "reached env cfg c (ch_model ch)" using r1 m r by auto
    ultimately show ?thesis using r3 m k2 e False by auto
  qed
qed

section \<open>What a request is routed to\<close>

lemma process_cases:
  assumes "g06_process_request env c st = (st', Inr c')" and "g6_config c = Inr cfg"
    and "py_truthy (dget_or cfg ''enabled'' (PBool False))"
  obtains (same) "c' = c" | (replaced) "px_routed c' = px_model c'" "px_routed c' = rv_default_model env" "rt_plan c' = rt_plan c"
      "resolve_tiers env cfg (px_model c) (tenant_tier_picks c) = Some []"
    | (chosen) tiers c1 ch where "resolve_tiers env cfg (px_model c) (tenant_tier_picks c) = Some tiers" "fits cfg tiers c (c1, ch)"
      "decide env cfg (c1, ch) = Inr c'"
proof (cases "resolve_tiers env cfg (px_model c) (tenant_tier_picks c)")
  case None
  then show ?thesis using assms same by (simp add: g06_process_request_def)
next
  case (Some tiers)
  show ?thesis
  proof (cases "tiers = []")
    case True
    then have "substitute_unconfigured env c = Inr c'" using assms Some by (simp add: g06_process_request_def)
    then have "c' = c \<or> c' = record_substitution (rv_default_model env) c"
      by (auto simp: substitute_unconfigured_def map_sum_def split: sum.splits if_splits)
    then show ?thesis using same replaced Some True by (auto simp: record_substitution_def)
  next
    case False
    then obtain st1 c1 ch where "choose_model env cfg tiers c st = (st1, Inr (c1, ch))" "decide env cfg (c1, ch) = Inr c'"
      using assms Some by (auto simp: g06_process_request_def split: prod.splits sum.splits)
    then show ?thesis using chosen[OF Some choose_fits] by blast
  qed
qed

definition escalation_off :: "pydict \<Rightarrow> bool" where
  "escalation_off cfg \<longleftrightarrow>
     \<not> py_truthy (dget_or cfg ''allow_escalation_above_requested'' (PBool False)) \<and>
     (case dget cfg ''rules'' of
        Some (PList raw) \<Rightarrow>
          list_all (\<lambda>r. case rule_action r of Some a \<Rightarrow> \<not> py_truthy (dget_or a ''allow_escalation'' (PBool False)) | None \<Rightarrow> True)
            (enabled_rules raw)
      | _ \<Rightarrow> True)"

lemma escalation_off_settings:
  assumes "escalation_off cfg" and "settings_of cfg eff"
  shows "\<not> py_truthy (dget_or eff ''allow_escalation_above_requested'' (PBool False))"
proof (cases "eff = cfg")
  case True
  then show ?thesis using assms(1) by (simp add: escalation_off_def)
next
  case False
  then obtain rule where r: "rule_of cfg rule" "eff = effective_cfg cfg rule" using assms(2) by (auto simp: settings_of_def)
  then obtain a where a: "rule_action rule = Some a" using False by (cases "rule_action rule") (auto simp: effective_cfg_def)
  have "\<not> py_truthy (dget_or a ''allow_escalation'' (PBool False))"
    using assms(1) r(1) a by (auto simp: escalation_off_def rule_of_def list_all_iff split: option.splits)
  from escalation_needs_permission[OF a this] show ?thesis
    using assms(1) r(2) by (simp add: escalation_off_def dget_or_def)
qed

lemma fits_decided:
  assumes "fits cfg tiers c (c1, ch)" and "decide env cfg (c1, ch) = Inr c'" and "px_routed c = px_model c"
  shows "px_model c' = px_model c" and "px_routed c' = px_model c \<or> px_routed c' = ch_model ch \<and> ch_model ch \<noteq> px_model c \<and>
      reached env cfg c (ch_model ch) \<and> (ch_model ch = [] \<or> exempt (c1, ch) \<or> affordable env (ch_cfg ch) c (ch_model ch))"
    and "rt_plan c' = Some p \<Longrightarrow> pl_tier1 p = px_routed c'"
proof -
  have k: "core c1 = core c" using assms(1) by (simp add: fits_def)
  note p = core_parts[OF k] and d = decide_cases[OF assms(2)]
  have r: "reached env cfg c1 m = reached env cfg c m" "affordable env g c1 m = affordable env g c m" for g m
    unfolding reached_def affordable_def same_measures[OF k] using p by simp_all
  show "px_model c' = px_model c" using d p by simp
  show "px_routed c' = px_model c \<or> px_routed c' = ch_model ch \<and> ch_model ch \<noteq> px_model c \<and>
      reached env cfg c (ch_model ch) \<and> (ch_model ch = [] \<or> exempt (c1, ch) \<or> affordable env (ch_cfg ch) c (ch_model ch))"
    using d p r assms(3) by auto
  show "rt_plan c' = Some p \<Longrightarrow> pl_tier1 p = px_routed c'" using d p assms(3) by auto
qed


text \<open>
  Routing invents nothing: the requested model stays on record, and a request routed away from it goes to a
  model of the ladder resolved for it or to one a rule of the operator pins, which the platform or the tenant has a
  key for (or needs none), unless the operator asked for an error instead.
\<close>

lemma routed_model_is_offered:
  assumes "g06_process_request env c st = (st', Inr c')" and "g6_config c = Inr cfg" and "py_truthy (dget_or cfg ''enabled'' (PBool False))"
    and "px_routed c = px_model c" and "px_routed c' \<noteq> px_model c'"
  shows "px_model c' = px_model c \<and>
    ((\<exists>tiers. resolve_tiers env cfg (px_model c) (tenant_tier_picks c) = Some tiers \<and> in_ladder tiers (px_routed c')) \<or>
     pinned_by_rule cfg (px_routed c')) \<and>
    (px_routed c' = [] \<or> tier_reachable env (px_routed c') \<or> resolve_tier_key env (px_routed c') (px_tenant c) \<noteq> None \<or>
     py_lower (py_str (rv_fstr env) (dget_or cfg ''on_unreachable_tier'' (PStr ''fallback''))) = ''error'')"
  using assms(1,2,3)
proof (cases rule: process_cases)
  case same
  then show ?thesis using assms(4,5) by simp
next
  case replaced
  then show ?thesis using assms(5) by simp
next
  case (chosen tiers c1 ch)
  note f = fits_decided[OF chosen(2,3) assms(4)]
  then have m: "px_routed c' = ch_model ch" "ch_model ch \<noteq> px_model c" "reached env cfg c (ch_model ch)" using assms(5) by auto
  then have "in_ladder tiers (px_routed c') \<or> pinned_by_rule cfg (px_routed c')" using chosen(2) by (auto simp: fits_def)
  then show ?thesis using chosen(1) f(1) m by (auto simp: reached_def)
qed

text \<open>With a ladder per provider, only the family of the requested model's provider is offered.\<close>

lemma family_ladder:
  assumes "dget cfg ''tiers_by_provider'' = Some (PDict fams)" and "fams \<noteq> []"
    and "resolve_tiers env cfg model [] = Some tiers"
  shows "\<exists>p d. tier_provider env model = Some p \<and> dget fams p = Some (PDict d) \<and> tiers = ladder_of d"
proof -
  obtain kv kvs where f: "fams = kv # kvs" using assms(2) by (cases fams) auto
  show ?thesis
    using assms(1,3) f by (auto simp: resolve_tiers_def dget_or_def split: option.splits if_splits pyval.splits)
qed


lemma a_kept_plan_starts_with_the_routed_model:
  assumes "g06_process_request env c st = (st', Inr c')" and "g6_config c = Inr cfg" and "py_truthy (dget_or cfg ''enabled'' (PBool False))"
    and "px_routed c = px_model c" and "rt_plan c = None" and "rt_plan c' = Some p"
  shows "pl_tier1 p = px_routed c'"
  using assms(1,2,3)
proof (cases rule: process_cases)
  case same
  then show ?thesis using assms(5,6) by simp
next
  case replaced
  then show ?thesis using assms(5,6) by simp
next
  case (chosen tiers c1 ch)
  then show ?thesis using fits_decided(3)[OF _ _ assms(4,6)] by blast
qed

section \<open>A request on the way\<close>

definition demo_providers :: pyval where
  "demo_providers = PList
     [PDict [(''name'', PStr ''openai''), (''model_prefixes'', PList [PStr ''gpt''])],
      PDict [(''name'', PStr ''anthropic''), (''model_prefixes'', PList [PStr ''claude''])]]"

definition demo_route_env :: route_env where
  "demo_route_env =
     \<lparr>rv_fstr = (\<lambda>v. case v of PStr s \<Rightarrow> s | _ \<Rightarrow> []), rv_providers = demo_providers, rv_default_provider = Inr (PStr ''openai''),
      rv_default_model = ''gpt-mini'',
      rv_pricing = [(''gpt-4o'', [(''input'', 5), (''output'', 15)]), (''gpt-mini'', [(''input'', 1), (''output'', 2)]),
                    (''claude-x'', [(''input'', 3), (''output'', 9)])],
      rv_hash = (\<lambda>_. 7), rv_complex = (\<lambda>_. False), rv_simple = (\<lambda>_. True), rv_platform_key = (\<lambda>p. p = ''openai''),
      rv_key = (\<lambda>_ _. None), rv_judge = (\<lambda>_ _ _. None), rv_sidecar = (\<lambda>_ _ _. Sidecar_Timeout), rv_loads = (\<lambda>_. None),
      rv_rules = demo_engine,
      rv_jev = \<lparr>je_str = (\<lambda>_. []), je_casefold = id, je_lookup = (\<lambda>_ _. None), je_reply = (\<lambda>_. Jev_Timed_Out), je_now = 0, je_done = 0\<rparr>,
      rv_now = 0\<rparr>"

definition demo_g6 :: pydict where
  "demo_g6 = [(''enabled'', PBool True), (''cascade_execution'', PBool True),
     (''tiers_by_provider'', PDict [(''openai'', PDict [(''simple'', PList [PStr ''gpt-mini'']), (''complex'', PList [PStr ''gpt-4o''])])])]"

definition demo_route_ctx :: route_ctx where
  "demo_route_ctx = pipe_ctx.extend (sample_ctx\<lparr>px_config := PDict [(''groups'', PDict [(''G6_routing'', PDict demo_g6)])]\<rparr>)
     \<lparr>rt_messages = [[(''role'', PStr ''user''), (''content'', PStr ''hello'')]], rt_request = ''r1'', rt_tokens = 100, rt_saved_model = [],
      rt_mode = [], rt_level = None, rt_router = None, rt_complexity = None, rt_fallback = None, rt_plan = None, rt_detail = [],
      rt_substituted = None, rt_calls = []\<rparr>"

definition new_route_state :: route_state where
  "new_route_state = \<lparr>rs_rotation = [], rs_latency = [], rs_failed = [], rs_jev = empty_jev\<rparr>"

definition demo_tiers :: ladder where "demo_tiers = [(''simple'', [''gpt-mini'']), (''complex'', [''gpt-4o''])]"

lemma demo_ladder: "resolve_tiers demo_route_env demo_g6 ''gpt-4o'' [] = Some demo_tiers" by code_simp

lemma demo_simple: "classify_heuristic demo_route_env (rt_messages demo_route_ctx) = (''simple'', 9/10)" by code_simp

lemma demo_reachable: "tier_reachable demo_route_env ''gpt-mini''" by code_simp

definition demo_plan :: cascade_plan where
  "demo_plan = \<lparr>pl_tiers = demo_tiers, pl_cfg = demo_g6, pl_tier1 = ''gpt-mini'', pl_max_tier = 0\<rparr>"

definition demo_planned :: route_ctx where
  "demo_planned = demo_route_ctx\<lparr>rt_plan := Some demo_plan, rt_mode := ''cascade_planned''\<rparr>"

definition demo_choice :: choice where
  "demo_choice = \<lparr>ch_model = ''gpt-mini'', ch_override = False, ch_attempted = False, ch_rule = None, ch_cfg = demo_g6, ch_tier = ''simple''\<rparr>"

lemma demo_unasked: "asked_tier demo_route_ctx = None" "matched_rule demo_route_env demo_g6 demo_route_ctx = Inr None" by code_simp+

lemma demo_plans: "plans_cascade demo_g6 demo_route_ctx"  "tier_models demo_tiers ''simple'' = [''gpt-mini'']" by code_simp+

lemma demo_cap: "py_truthy (dget_or demo_g6 ''cascade_cap_to_classified_tier'' (PBool True))" "rank_of ''simple'' = 0" by code_simp+

lemma demo_choose: "choose_model demo_route_env demo_g6 demo_tiers demo_route_ctx new_route_state = (new_route_state, Inr (demo_planned, demo_choice))"
  by (simp add: choose_model_def demo_unasked choose_classified_def demo_plans plan_cascade_def pick_from_def select_from_tier_def demo_simple demo_cap demo_planned_def demo_choice_def demo_plan_def Let_def)

definition demo_published :: route_ctx where "demo_published = demo_planned\<lparr>rt_complexity := Some ''simple''\<rparr>"

lemma demo_publish: "publish_tier (demo_planned, demo_choice) = (demo_published, demo_choice)" by (simp add: publish_tier_def demo_published_def demo_choice_def)

lemma demo_guard_reachable: "guard_reachable demo_route_env demo_g6 (demo_published, demo_choice) = (demo_published, demo_choice)"
  using demo_reachable by (simp add: guard_reachable_def demo_choice_def)

lemma demo_costs: "cost_of demo_route_env demo_published 512 ''gpt-mini'' \<le> cost_of demo_route_env demo_published 512 (px_model demo_published)"
   "expected_output demo_g6 demo_published = Inr 512" "caller_output_budget (px_params demo_published) = None" by code_simp+

lemma demo_guard_cost: "guard_cost demo_route_env (demo_published, demo_choice) = Inr (demo_published, demo_choice)"
  using demo_costs by (simp add: guard_cost_def demo_choice_def Let_def reasoning_budget_starved_def)

lemma demo_kept: "px_model demo_published = ''gpt-4o''" "rt_plan demo_published = Some demo_plan" by code_simp+

lemma demo_decide: "\<exists>c'. decide demo_route_env demo_g6 (demo_planned, demo_choice) = Inr c' \<and> px_model c' = ''gpt-4o'' \<and> px_routed c' = ''gpt-mini'' \<and> rt_plan c' = Some demo_plan"
proof -
  have m: "ch_model demo_choice = ''gpt-mini''" "pl_tier1 demo_plan = ''gpt-mini''" by (simp_all add: demo_choice_def demo_plan_def)
  have k: "keep_plan (demo_published, demo_choice) = demo_published" using demo_kept(2) m by (simp add: keep_plan_def)
  show ?thesis using demo_kept m by (simp add: decide_def demo_publish demo_guard_reachable demo_guard_cost k commit_def)
qed

lemma demo_models: "px_model demo_route_ctx = ''gpt-4o''" "demo_tiers \<noteq> []" by code_simp+

lemma demo_facts: "g6_config demo_route_ctx = Inr demo_g6" "py_truthy (dget_or demo_g6 ''enabled'' (PBool False))"
  "asked_tier demo_route_ctx = None" "escalation_off demo_g6" "rt_mode demo_route_ctx = []" "rt_plan demo_route_ctx = None"
  "px_routed demo_route_ctx = px_model demo_route_ctx" "tenant_tier_picks demo_route_ctx = []" "dget demo_g6 ''rules'' = None"
  by code_simp+

lemma demo_routed: "\<exists>c'. g06_process_request demo_route_env demo_route_ctx new_route_state = (new_route_state, Inr c') \<and> px_model c' = ''gpt-4o'' \<and> px_routed c' = ''gpt-mini'' \<and> rt_plan c' = Some demo_plan"
  using demo_decide demo_models by (simp add: g06_process_request_def demo_facts demo_ladder demo_choose)

lemma rotation_serves_each_model_once_witness:
  "mset (rotate_picks demo_route_env [(''strategy'', PStr ''round_robin'')] demo_route_ctx ''simple'' [''a'', ''b''] [''r1'', ''r2''] new_route_state)
   = mset [Some ''a'', Some ''b'']"
  using rotation_serves_each_model_once[of "[(''strategy'', PStr ''round_robin'')]" "[''a'', ''b'']" "[''r1'', ''r2'']" demo_route_env
      demo_route_ctx "''simple''" new_route_state]
  by (simp add: rotates_def)


lemma routed_model_is_offered_witness:
  "((\<exists>tiers. resolve_tiers demo_route_env demo_g6 (px_model demo_route_ctx) (tenant_tier_picks demo_route_ctx) = Some tiers \<and>
      in_ladder tiers ''gpt-mini'') \<or> pinned_by_rule demo_g6 ''gpt-mini'')"
proof -
  obtain c' where c': "g06_process_request demo_route_env demo_route_ctx new_route_state = (new_route_state, Inr c')"
    "px_model c' = ''gpt-4o''" "px_routed c' = ''gpt-mini''" using demo_routed by blast
  have "px_routed c' \<noteq> px_model c'" using c' by simp
  from routed_model_is_offered[OF c'(1) demo_facts(1,2,7) this] show ?thesis unfolding c'(3) by blast
qed


end
