(* ===== verification/Cascade.thy ===== *)
theory Cascade
  imports Serve Routing
begin

text \<open>
  The run of a planned cascade, \<open>_execute_three_tier_cascade\<close> of \<open>middleware/g06_routing.py\<close>: the cheap model
  answers first, its answer is scored, and a low score climbs to the next tiers within the plan's cap and the cost
  guards. A call is a \<open>call_request\<close> of Serve; what the providers answer is a function of the replies so far and
  the request. An answer is its \<open>model_dump()\<close>. Logs and timings are left out.
\<close>

section \<open>State\<close>

record tier_call =
  tl_model :: string
  tl_judge :: bool
  tl_request :: call_request
  tl_reply :: "perr + pydict"

record cascade_state =
  cx_log :: "tier_call list"
  cx_calls :: "provider_call list"
  cx_route :: route_state
  cx_breakers :: rstore
  cx_raised :: pyval
  cx_by_tier :: "(string \<times> pyval) list"
  cx_best :: "string \<times> pydict \<times> rat"

record cascade_env =
  ce_route :: route_env
  ce_reply :: "(perr + pydict) list \<Rightarrow> call_request \<Rightarrow> perr + pydict"
  ce_refuses :: "string \<Rightarrow> bool"
  ce_shown :: "pydict \<Rightarrow> string"
  ce_now :: rat

text \<open>A step of the run: it changes the state and returns, or raises.\<close>

type_synonym 'a cx = "cascade_state \<Rightarrow> (perr + 'a) \<times> cascade_state"

definition cx_return :: "'a \<Rightarrow> 'a cx" where
  "cx_return x st = (Inr x, st)"

definition cx_lift :: "perr + 'a \<Rightarrow> 'a cx" where
  "cx_lift r st = (r, st)"

definition cx_then :: "'a cx \<Rightarrow> ('a \<Rightarrow> 'b cx) \<Rightarrow> 'b cx" where
  "cx_then m f st = (case m st of (Inl e, st1) \<Rightarrow> (Inl e, st1) | (Inr x, st1) \<Rightarrow> f x st1)"

definition cx_except :: "'a cx \<Rightarrow> (perr \<Rightarrow> 'a cx) \<Rightarrow> 'a cx" where
  "cx_except m h st = (case m st of (Inl e, st1) \<Rightarrow> h e st1 | (Inr x, st1) \<Rightarrow> (Inr x, st1))"

definition cx_update :: "(cascade_state \<Rightarrow> cascade_state) \<Rightarrow> unit cx" where
  "cx_update f st = (Inr (), f st)"

definition as_raised :: "pyexc + 'a \<Rightarrow> perr + 'a" where
  "as_raised r = as_perr (lift_py r)"

section \<open>The parameters and the call of a tier\<close>

definition adapter_of :: "cascade_env \<Rightarrow> string \<Rightarrow> perr + adapter" where
  "adapter_of env model = as_perr (get_adapter (rv_default_provider (ce_route env)) model (rv_providers (ce_route env)))"

definition left_to_the_primary :: "string list" where
  "left_to_the_primary = [''prompt_cache_key'', ''prompt_cache_retention'', ''stream'']"

definition tier_params :: "cascade_env \<Rightarrow> route_ctx \<Rightarrow> string \<Rightarrow> pydict cx" where
  "tier_params env c model st =
     (case adapter_of env model of
        Inl e \<Rightarrow> (Inl e, st\<lparr>cx_raised := PNone\<rparr>)
      | Inr a \<Rightarrow>
          (case outgoing_params_for (ops_for (rv_fstr (ce_route env)) a) (px_params c) model (py_or (px_config c) (PDict [])) (px_tenant c) of
             (grown, Inl e) \<Rightarrow> (as_raised (Inl e), st\<lparr>cx_raised := grown\<rparr>)
           | (grown, Inr out) \<Rightarrow>
               (Inr (fold dpop left_to_the_primary out),
                st\<lparr>cx_raised := grown, cx_by_tier := dset model grown (cx_by_tier st)\<rparr>)))"

definition tier_messages :: "cascade_env \<Rightarrow> route_ctx \<Rightarrow> string \<Rightarrow> perr + pyval" where
  "tier_messages env c model =
     map_sum id (\<lambda>a. outgoing_messages_for (Some (ops_for (rv_fstr (ce_route env)) a)) (PList (map PDict (rt_messages c))))
       (adapter_of env model)"

definition litellm_call :: "cascade_env \<Rightarrow> string \<Rightarrow> string option \<Rightarrow> perr + string \<times> pydict" where
  "litellm_call env model key =
     as_perr (build_litellm_call (call_of (rv_fstr (ce_route env))) (rv_default_provider (ce_route env)) model
       (rv_providers (ce_route env)) (case key of Some k \<Rightarrow> PStr k | None \<Rightarrow> PNone))"

definition request_timeout_for :: "cascade_env \<Rightarrow> pyval \<Rightarrow> string \<Rightarrow> pyexc + rat" where
  "request_timeout_for env config model =
     (let cfg = (case py_or config (PDict []) of PDict d \<Rightarrow> d | _ \<Rightarrow> []) in
      bind_res (match_entry (rv_default_provider (ce_route env)) model (py_or (dget_or cfg ''providers'' (PList [])) (PList []))) (\<lambda>r.
        let entry = (case r of Some (PDict e) \<Rightarrow> e | _ \<Rightarrow> []) in
        map_sum id rc_request_timeout_seconds
          (resolve cfg (case dget_or entry ''name'' (PStr []) of PStr n \<Rightarrow> n | _ \<Rightarrow> []))))"

definition context_config :: "route_ctx \<Rightarrow> pydict" where
  "context_config c = (case px_config c of PDict d \<Rightarrow> d | _ \<Rightarrow> [])"

text \<open>What the log, the price list of G18 and the breakers learn of a call (\<open>_timed_llm\<close>).\<close>

definition noted :: "cascade_env \<Rightarrow> route_ctx \<Rightarrow> string \<Rightarrow> call_request \<Rightarrow> perr + pydict \<Rightarrow> cascade_state \<Rightarrow> cascade_state" where
  "noted env c model rq reply st =
     st\<lparr>cx_log := cx_log st @ [\<lparr>tl_model = model, tl_judge = False, tl_request = rq, tl_reply = reply\<rparr>],
       cx_calls := (case reply of
                      Inr d \<Rightarrow> if model = [] then cx_calls st else record_provider_call model (PDict d) False (cx_calls st)
                    | Inl _ \<Rightarrow> cx_calls st),
       cx_breakers := (if model = [] then cx_breakers st
                       else note_provider_outcome (ce_now env) (cx_breakers st)
                              (case tier_provider (ce_route env) model of Some p \<Rightarrow> p | None \<Rightarrow> [])
                              (case reply of Inl e \<Rightarrow> Some e | Inr _ \<Rightarrow> None) (context_config c))\<rparr>"

definition send_tier :: "cascade_env \<Rightarrow> route_ctx \<Rightarrow> string \<Rightarrow> call_request \<Rightarrow> pydict cx" where
  "send_tier env c model rq st =
     (case callable rq of
        Inl e \<Rightarrow> (Inl e, st)
      | Inr _ \<Rightarrow> (let reply = ce_reply env (map tl_reply (cx_log st)) rq in (reply, noted env c model rq reply st)))"

definition tier_request ::
  "cascade_env \<Rightarrow> route_ctx \<Rightarrow> string \<Rightarrow> string option \<Rightarrow> string \<times> pydict \<Rightarrow> pyval \<Rightarrow> pydict \<Rightarrow> rat \<Rightarrow> call_request" where
  "tier_request env c model key wire messages params limit =
     \<lparr>cr_provider = (case tier_provider (ce_route env) model of Some p \<Rightarrow> p | None \<Rightarrow> []), cr_tenant = px_tenant c,
      cr_key = (case key of Some k \<Rightarrow> PStr k | None \<Rightarrow> PNone), cr_model = fst wire, cr_kwargs = snd wire, cr_params = params,
      cr_messages = messages, cr_timeout = limit, cr_retries = None\<rparr>"

definition call_tier ::
  "cascade_env \<Rightarrow> route_ctx \<Rightarrow> string \<Rightarrow> string option \<Rightarrow> string \<times> pydict \<Rightarrow> pydict cx \<Rightarrow> pydict cx" where
  "call_tier env c model key wire params =
     cx_then (cx_lift (tier_messages env c model)) (\<lambda>messages.
     cx_then params (\<lambda>ps.
     cx_then (cx_lift (as_raised (request_timeout_for env (px_config c) model))) (\<lambda>limit.
       send_tier env c model (tier_request env c model key wire messages ps limit))))"

section \<open>How sure an answer is\<close>

definition first_choice :: "pydict \<Rightarrow> pyexc + pydict option" where
  "first_choice response =
     (case py_or (dget_or response ''choices'' PNone) (PList []) of
        PList [] \<Rightarrow> Inr None
      | PList (x # _) \<Rightarrow> (case py_or x (PDict []) of PDict d \<Rightarrow> Inr (Some d) | _ \<Rightarrow> Inl AttributeError)
      | PStr _ \<Rightarrow> Inl AttributeError
      | PDict _ \<Rightarrow> Inl KeyError
      | _ \<Rightarrow> Inl TypeError)"

definition score :: "pydict \<Rightarrow> string \<Rightarrow> rat \<Rightarrow> pyexc + rat" where
  "score scores k dflt =
     (case dget_or scores k (PFloat dflt) of
        PStr s \<Rightarrow> (case float_of_str s of Some r \<Rightarrow> Inr r | None \<Rightarrow> Inl ValueError)
      | v \<Rightarrow> (case py_float v of Some r \<Rightarrow> Inr r | None \<Rightarrow> Inl TypeError))"

text \<open>The choice that is read: its message and finish reason. An answer that cannot be read scores a half.\<close>

definition judged_choice :: "cascade_env \<Rightarrow> rat \<Rightarrow> rat \<Rightarrow> rat \<Rightarrow> rat \<Rightarrow> pydict \<Rightarrow> rat" where
  "judged_choice env ok truncated refusal blank choice =
     (case py_or (dget_or choice ''message'' PNone) (PDict []) of
        PDict message \<Rightarrow>
          (let content = py_str (rv_fstr (ce_route env)) (py_or (dget_or message ''content'' PNone) (PStr []));
               reason = dget_or choice ''finish_reason'' PNone
           in if py_truthy (dget_or message ''tool_calls'' PNone) \<or> reason = PStr ''tool_calls'' then ok
              else if py_strip content = [] then blank
              else if reason = PStr ''length'' then truncated
              else if reason = PStr ''content_filter'' \<or> ce_refuses env (take 200 content) then refusal
              else ok)
      | _ \<Rightarrow> 1 / 2)"

definition heuristic_response_confidence :: "cascade_env \<Rightarrow> pydict \<Rightarrow> pydict \<Rightarrow> pyexc + rat" where
  "heuristic_response_confidence env cfg response =
     (case py_or (dget_or cfg ''response_confidence'' (PDict [])) (PDict []) of
        PDict scores \<Rightarrow>
          bind_res (score scores ''ok'' (85 / 100)) (\<lambda>ok.
          bind_res (score scores ''truncated'' (30 / 100)) (\<lambda>truncated.
          bind_res (score scores ''refusal'' (40 / 100)) (\<lambda>refusal.
          bind_res (score scores ''empty'' 0) (\<lambda>blank.
            Inr (case first_choice response of
                   Inl _ \<Rightarrow> 1 / 2
                 | Inr None \<Rightarrow> blank
                 | Inr (Some choice) \<Rightarrow> judged_choice env ok truncated refusal blank choice)))))
      | _ \<Rightarrow> Inl AttributeError)"

text \<open>The judge's number, clamped to the unit interval; a half where anything fails.\<close>

definition judged_confidence :: "cascade_env \<Rightarrow> pydict \<Rightarrow> rat option" where
  "judged_confidence env reply =
     (case reply_content (PDict reply) of
        None \<Rightarrow> None
      | Some s \<Rightarrow>
          (case rv_loads (ce_route env) (drop_fence s) of
             Some (PDict d) \<Rightarrow> map_option (\<lambda>x. max 0 (min 1 x)) (py_float (dget_or d ''confidence'' (PFloat (1 / 2))))
           | _ \<Rightarrow> None))"

definition judge_prompt :: "string \<Rightarrow> string" where
  "judge_prompt shown =
     ''Evaluate the confidence of this LLM response on a scale of 0.0 to 1.0.'' @ [CHR 0x0A]
     @ ''Consider: factual accuracy, completeness, and coherence.'' @ [CHR 0x0A]
     @ ''Respond ONLY with a JSON number: {'' @ [CHR 0x22] @ ''confidence'' @ [CHR 0x22] @ '': 0.0-1.0}'' @ [CHR 0x0A, CHR 0x0A]
     @ ''Response to evaluate:'' @ [CHR 0x0A] @ take 500 shown"

definition judge_request :: "cascade_env \<Rightarrow> route_ctx \<Rightarrow> string \<Rightarrow> string \<times> pydict \<Rightarrow> string \<Rightarrow> call_request" where
  "judge_request env c judge_model wire shown =
     tier_request env c judge_model (resolve_tier_key (ce_route env) judge_model (px_tenant c)) wire
       (PList [PDict [(''role'', PStr ''user''), (''content'', PStr (judge_prompt shown))]])
       [(''max_tokens'', PInt 30), (''temperature'', PFloat 0)] 2"

definition evaluate_response_confidence :: "cascade_env \<Rightarrow> route_ctx \<Rightarrow> string \<Rightarrow> pydict \<Rightarrow> rat cx" where
  "evaluate_response_confidence env c judge_model response st =
     (case litellm_call env judge_model (resolve_tier_key (ce_route env) judge_model (px_tenant c)) of
        Inl _ \<Rightarrow> (Inr (1 / 2), st)
      | Inr wire \<Rightarrow>
          (let rq = judge_request env c judge_model wire (ce_shown env response);
               reply = ce_reply env (map tl_reply (cx_log st)) rq;
               st1 = st\<lparr>cx_log := cx_log st @ [\<lparr>tl_model = judge_model, tl_judge = True, tl_request = rq, tl_reply = reply\<rparr>],
                        cx_calls := (case reply of
                                       Inr d \<Rightarrow> record_provider_call judge_model (PDict d) True (cx_calls st) | Inl _ \<Rightarrow> cx_calls st)\<rparr>
           in (Inr (case reply of
                      Inr d \<Rightarrow> (case judged_confidence env d of Some x \<Rightarrow> x | None \<Rightarrow> 1 / 2) | Inl _ \<Rightarrow> 1 / 2), st1)))"

text \<open>A judge model is a text.\<close>

definition confidence_in :: "cascade_env \<Rightarrow> route_ctx \<Rightarrow> pydict \<Rightarrow> pydict \<Rightarrow> rat cx" where
  "confidence_in env c cfg response =
     (if text_or cfg ''judge_model'' [] \<noteq> [] then evaluate_response_confidence env c (text_or cfg ''judge_model'' []) response
      else cx_lift (as_raised (heuristic_response_confidence env cfg response)))"

definition sure_enough :: "pydict \<Rightarrow> rat \<Rightarrow> perr + bool" where
  "sure_enough cfg confidence =
     as_raised (map_sum id (\<lambda>t. t \<le> confidence) (py_num (dget_or cfg ''cascade_confidence_threshold'' (PFloat (7 / 10)))))"

section \<open>The guards of a hop\<close>

datatype block_reason = Step_Too_Dear | Above_Requested

definition escalation_block_reason :: "rat \<Rightarrow> rat \<Rightarrow> rat \<Rightarrow> pyval \<Rightarrow> bool \<Rightarrow> pyexc + block_reason option" where
  "escalation_block_reason next_cost prev_cost requested_cost max_escalation_cost allow_above_requested =
     map_sum id (\<lambda>m.
       if m < next_cost - prev_cost then Some Step_Too_Dear
       else if \<not> allow_above_requested \<and> requested_cost < next_cost then Some Above_Requested
       else None) (py_num max_escalation_cost)"

definition hop_blocked :: "cascade_env \<Rightarrow> route_ctx \<Rightarrow> pydict \<Rightarrow> int \<Rightarrow> string \<Rightarrow> rat \<Rightarrow> perr + block_reason option" where
  "hop_blocked env c cfg out model best_cost =
     as_raised (escalation_block_reason (cost_of (ce_route env) c out model) best_cost (cost_of (ce_route env) c out (px_model c))
       (dget_or cfg ''max_escalation_cost_usd'' (PFloat (1 / 100)))
       (py_truthy (dget_or cfg ''allow_escalation_above_requested'' (PBool False))))"

section \<open>The first call\<close>

record first_call =
  fc_model :: string
  fc_key :: string
  fc_wire :: "string \<times> pydict"
  fc_params :: pydict
  fc_cap :: "int option"

definition tier_budget_key :: "pydict \<Rightarrow> string" where
  "tier_budget_key ps = (if dget ps ''max_completion_tokens'' \<noteq> None then ''max_completion_tokens'' else ''max_tokens'')"

definition tier1_cap :: "pydict \<Rightarrow> pyexc + int" where
  "tier1_cap cfg =
     (case py_int (py_or (dget_or cfg ''cascade_tier1_max_tokens'' (PInt 512)) (PInt 0)) of Some n \<Rightarrow> Inr n | None \<Rightarrow> Inl ValueError)"

text \<open>The caller's budget under the key the call already speaks; else our own cap, which is remembered.\<close>

definition tier1_budget :: "route_ctx \<Rightarrow> int \<Rightarrow> pydict \<Rightarrow> pydict \<times> int option" where
  "tier1_budget c cap ps =
     (let has_budget = dget_or ps (tier_budget_key ps) PNone \<noteq> PNone;
          (ps1, injected) =
            (case caller_output_budget (px_params c) of
               Some n \<Rightarrow> (if has_budget then ps else dset (tier_budget_key ps) (PInt n) ps, None)
             | None \<Rightarrow> if 0 < cap \<and> \<not> has_budget then (dset (tier_budget_key ps) (PInt cap) ps, Some cap) else (ps, None))
      in (if dget ps1 ''temperature'' = None then dset ''temperature'' (dget_or (px_params c) ''temperature'' (PFloat 0)) ps1 else ps1,
          injected))"

definition call_tier1 :: "cascade_env \<Rightarrow> route_ctx \<Rightarrow> pydict \<Rightarrow> string \<Rightarrow> string \<Rightarrow> (first_call \<times> pydict) cx" where
  "call_tier1 env c cfg model key =
     cx_then (cx_lift (as_raised (tier1_cap cfg))) (\<lambda>cap.
     cx_then (tier_params env c model) (\<lambda>ps.
     cx_then (cx_lift (litellm_call env model (Some key))) (\<lambda>wire.
       let fc = \<lparr>fc_model = model, fc_key = key, fc_wire = wire, fc_params = fst (tier1_budget c cap ps), fc_cap = snd (tier1_budget c cap ps)\<rparr>
       in cx_then (call_tier env c model (Some key) wire (cx_return (fc_params fc))) (\<lambda>r. cx_return (fc, r)))))"

section \<open>The final answer\<close>

definition finish_reason_of :: "pydict \<Rightarrow> pyexc + pyval" where
  "finish_reason_of response =
     map_sum id (\<lambda>ch. case ch of None \<Rightarrow> PNone | Some d \<Rightarrow> dget_or d ''finish_reason'' PNone) (first_choice response)"

definition retry_uncapped :: "cascade_env \<Rightarrow> route_ctx \<Rightarrow> first_call \<Rightarrow> pydict cx" where
  "retry_uncapped env c fc =
     call_tier env c (fc_model fc) (Some (fc_key fc)) (fc_wire fc) (cx_return (dpop (tier_budget_key (fc_params fc)) (fc_params fc)))"

definition restore_raise :: "string \<Rightarrow> unit cx" where
  "restore_raise model = cx_update (\<lambda>st. st\<lparr>cx_raised := (case dget (cx_by_tier st) model of Some v \<Rightarrow> v | None \<Rightarrow> PNone)\<rparr>)"

definition retries_on_truncation :: "pydict \<Rightarrow> bool" where
  "retries_on_truncation cfg \<longleftrightarrow> py_truthy (dget_or cfg ''cascade_retry_uncapped_on_truncation'' (PBool True))"

definition serve_answer :: "cascade_env \<Rightarrow> route_ctx \<Rightarrow> pydict \<Rightarrow> first_call \<Rightarrow> string \<Rightarrow> pydict \<Rightarrow> (string \<times> pydict) cx" where
  "serve_answer env c cfg fc final_model final_response =
     cx_then (restore_raise final_model) (\<lambda>_.
       if final_model = fc_model fc \<and> fc_cap fc \<noteq> None \<and> retries_on_truncation cfg
       then cx_then (cx_lift (as_raised (finish_reason_of final_response))) (\<lambda>reason.
              if reason = PStr ''length''
              then cx_except (cx_then (retry_uncapped env c fc) (\<lambda>r. cx_return (final_model, r)))
                     (\<lambda>_. cx_return (final_model, final_response))
              else cx_return (final_model, final_response))
       else cx_return (final_model, final_response))"

definition serve_best :: "cascade_env \<Rightarrow> route_ctx \<Rightarrow> pydict \<Rightarrow> first_call \<Rightarrow> (string \<times> pydict) cx" where
  "serve_best env c cfg fc st = serve_answer env c cfg fc (fst (cx_best st)) (fst (snd (cx_best st))) st"

section \<open>The hops\<close>

definition select_tier :: "cascade_env \<Rightarrow> route_ctx \<Rightarrow> pydict \<Rightarrow> string \<Rightarrow> string list \<Rightarrow> string cx" where
  "select_tier env c cfg label models st =
     (case pick_from (ce_route env) cfg label models c (cx_route st) of
        (r, rs) \<Rightarrow> (as_raised (map_sum id (\<lambda>m. case m of Some x \<Rightarrow> x | None \<Rightarrow> []) r), st\<lparr>cx_route := rs\<rparr>))"

definition check_hop :: "cascade_env \<Rightarrow> route_ctx \<Rightarrow> pydict \<Rightarrow> int \<Rightarrow> string \<Rightarrow> block_reason option cx" where
  "check_hop env c cfg out model st = (hop_blocked env c cfg out model (snd (snd (cx_best st))), st)"

definition call_hop :: "cascade_env \<Rightarrow> route_ctx \<Rightarrow> string \<Rightarrow> pydict cx" where
  "call_hop env c model =
     cx_then (cx_lift (litellm_call env model (resolve_tier_key (ce_route env) model (px_tenant c)))) (\<lambda>wire.
       call_tier env c model (resolve_tier_key (ce_route env) model (px_tenant c)) wire (tier_params env c model))"

text \<open>The middle tier is served when it is sure; once its call failed, the best answer so far is.\<close>

definition try_medium :: "cascade_env \<Rightarrow> route_ctx \<Rightarrow> pydict \<Rightarrow> first_call \<Rightarrow> int \<Rightarrow> string \<Rightarrow> (string \<times> pydict) option cx" where
  "try_medium env c cfg fc out model =
     cx_except
       (cx_then (call_hop env c model) (\<lambda>r.
        cx_then (cx_update (\<lambda>st. st\<lparr>cx_best := (model, r, cost_of (ce_route env) c out model)\<rparr>)) (\<lambda>_.
        cx_then (confidence_in env c cfg r) (\<lambda>confidence.
        cx_then (cx_lift (sure_enough cfg confidence)) (\<lambda>sure.
          if sure then cx_then (serve_answer env c cfg fc model r) (\<lambda>a. cx_return (Some a)) else cx_return None)))))
       (\<lambda>_. cx_then (serve_best env c cfg fc) (\<lambda>a. cx_return (Some a)))"

definition medium_hop :: "cascade_env \<Rightarrow> route_ctx \<Rightarrow> ladder \<Rightarrow> pydict \<Rightarrow> first_call \<Rightarrow> int \<Rightarrow> nat \<Rightarrow> (string \<times> pydict) option cx" where
  "medium_hop env c tiers cfg fc out max_tier =
     (if tier_models tiers ''medium'' = [] \<or> max_tier < 1 then cx_return None
      else cx_then (select_tier env c cfg ''medium'' (tier_models tiers ''medium'')) (\<lambda>model.
           cx_then (check_hop env c cfg out model) (\<lambda>blocked.
             case blocked of Some _ \<Rightarrow> cx_return None | None \<Rightarrow> try_medium env c cfg fc out model)))"

definition complex_hop :: "cascade_env \<Rightarrow> route_ctx \<Rightarrow> ladder \<Rightarrow> pydict \<Rightarrow> first_call \<Rightarrow> int \<Rightarrow> nat \<Rightarrow> (string \<times> pydict) cx" where
  "complex_hop env c tiers cfg fc out max_tier =
     (if tier_models tiers ''complex'' = [] \<or> max_tier < 2 then serve_best env c cfg fc
      else cx_then (select_tier env c cfg ''complex'' (tier_models tiers ''complex'')) (\<lambda>model.
           cx_then (check_hop env c cfg out model) (\<lambda>blocked.
             case blocked of
               Some _ \<Rightarrow> serve_best env c cfg fc
             | None \<Rightarrow>
                 cx_except (cx_then (call_hop env c model) (\<lambda>r. serve_answer env c cfg fc model r))
                   (\<lambda>_. serve_best env c cfg fc))))"

definition climb :: "cascade_env \<Rightarrow> route_ctx \<Rightarrow> ladder \<Rightarrow> pydict \<Rightarrow> first_call \<Rightarrow> int \<Rightarrow> nat \<Rightarrow> (string \<times> pydict) cx" where
  "climb env c tiers cfg fc out max_tier =
     cx_then (medium_hop env c tiers cfg fc out max_tier) (\<lambda>r.
       case r of Some a \<Rightarrow> cx_return a | None \<Rightarrow> complex_hop env c tiers cfg fc out max_tier)"

section \<open>The cascade\<close>

datatype cascade_error = No_Simple_Models | No_Provider_Key | Tier1_Failed perr

datatype cascade_result = Cascade_Answer string pydict | No_Answer cascade_error

definition run_from_tier1 :: "cascade_env \<Rightarrow> route_ctx \<Rightarrow> ladder \<Rightarrow> pydict \<Rightarrow> int \<Rightarrow> nat \<Rightarrow> string \<Rightarrow> cascade_result cx" where
  "run_from_tier1 env c tiers cfg out max_tier model =
     (case resolve_tier_key (ce_route env) model (px_tenant c) of
        None \<Rightarrow> cx_return (No_Answer No_Provider_Key)
      | Some key \<Rightarrow>
          cx_then (call_tier1 env c cfg model key) (\<lambda>(fc, r).
          cx_then (confidence_in env c cfg r) (\<lambda>confidence.
          cx_then (cx_lift (sure_enough cfg confidence)) (\<lambda>sure.
          cx_then (if sure then serve_answer env c cfg fc model r
                   else cx_then (cx_update (\<lambda>st. st\<lparr>cx_best := (model, r, cost_of (ce_route env) c out model)\<rparr>)) (\<lambda>_.
                        climb env c tiers cfg fc out max_tier)) (\<lambda>(m, a).
            cx_return (Cascade_Answer m a))))))"

definition execute_three_tier_cascade ::
  "cascade_env \<Rightarrow> route_ctx \<Rightarrow> ladder \<Rightarrow> pydict \<Rightarrow> string option \<Rightarrow> nat option \<Rightarrow> cascade_result cx" where
  "execute_three_tier_cascade env c tiers cfg tier1_model max_tier_idx =
     (if tier_models tiers ''simple'' = [] then cx_return (No_Answer No_Simple_Models)
      else (let max_tier =
              (case max_tier_idx of
                 Some n \<Rightarrow> n
               | None \<Rightarrow> if py_truthy (dget_or cfg ''cascade_cap_to_classified_tier'' (PBool True))
                         then rank_of (fst (classify_heuristic (ce_route env) (rt_messages c))) else 2)
            in cx_then (cx_lift (as_raised (expected_output cfg c))) (\<lambda>out.
               cx_then (case tier1_model of
                          Some m \<Rightarrow> cx_return m | None \<Rightarrow> select_tier env c cfg ''simple'' (tier_models tiers ''simple'')) (\<lambda>model.
                 cx_except (run_from_tier1 env c tiers cfg out max_tier model)
                   (\<lambda>e. cx_return (No_Answer (Tier1_Failed e)))))))"

text \<open>The plan carries every decision of plan time.\<close>

definition execute_plan :: "cascade_env \<Rightarrow> route_ctx \<Rightarrow> cascade_plan \<Rightarrow> cascade_result cx" where
  "execute_plan env c p = execute_three_tier_cascade env c (pl_tiers p) (pl_cfg p) (Some (pl_tier1 p)) (Some (pl_max_tier p))"

section \<open>The step on the savings record\<close>

text \<open>Written after the answer, once, from the model that served.\<close>

definition routing_step_text :: "string \<Rightarrow> string \<Rightarrow> string \<Rightarrow> string" where
  "routing_step_text requested served detail =
     ''Routed '' @ requested @ '' -> '' @ served @ (if detail = [] then [] else '' ('' @ detail @ '')'')"

definition record_routing_step :: "string \<Rightarrow> route_ctx \<Rightarrow> bool \<times> savings_record \<Rightarrow> bool \<times> savings_record" where
  "record_routing_step requested c rec =
     (if fst rec then rec
      else (True,
            if rt_saved_model c = [] \<or> requested = [] \<or> rt_saved_model c = requested then snd rec
            else add_step (snd rec) ''G06'' (routing_step_text requested (rt_saved_model c) (rt_detail c)) (rt_tokens c) (rt_tokens c)))"

lemma routing_step_once: "record_routing_step q d (record_routing_step q c rec) = record_routing_step q c rec"
  by (simp add: record_routing_step_def)

lemma routing_step_saves_no_tokens:
  "list_all (\<lambda>s. absolute_saving s = 0) (sr_steps (snd rec)) \<Longrightarrow>
   list_all (\<lambda>s. absolute_saving s = 0) (sr_steps (snd (record_routing_step q c rec)))"
  by (simp add: record_routing_step_def add_step_def absolute_saving_def)

section \<open>What a step sends\<close>

lemma cx_thenE:
  assumes "cx_then m f st = (r, st')"
  obtains (stopped) e where "m st = (Inl e, st')" "r = Inl e" | (went) x st1 where "m st = (Inr x, st1)" "f x st1 = (r, st')"
  using assms by (cases "m st"; cases "fst (m st)") (auto simp: cx_then_def)

lemma cx_exceptE:
  assumes "cx_except m h st = (r, st')"
  obtains (fine) x where "m st = (Inr x, st')" "r = Inr x" | (caught) e st1 where "m st = (Inl e, st1)" "h e st1 = (r, st')"
  using assms by (cases "m st"; cases "fst (m st)") (auto simp: cx_except_def)

lemma cx_then_Inr: "m st = (Inr x, st1) \<Longrightarrow> cx_then m f st = f x st1"
  by (simp add: cx_then_def)

lemma cx_then_lift: "cx_then (cx_lift (Inr x)) f st = f x st"
  by (simp add: cx_then_def cx_lift_def)

lemmas cx_simps = cx_return_def cx_lift_def cx_update_def

definition paid :: "tier_call \<Rightarrow> provider_call list \<Rightarrow> provider_call list" where
  "paid t calls =
     (case tl_reply t of
        Inr d \<Rightarrow> if tl_model t = [] then calls else record_provider_call (tl_model t) (PDict d) (tl_judge t) calls
      | Inl _ \<Rightarrow> calls)"

definition sent :: "cascade_state \<Rightarrow> cascade_state \<Rightarrow> tier_call list \<Rightarrow> bool" where
  "sent st st' new \<longleftrightarrow> cx_log st' = cx_log st @ new \<and> cx_calls st' = fold paid new (cx_calls st)"

lemma sent_nil [simp]: "sent st st []"
  by (simp add: sent_def)

lemma sent_trans: "sent st st1 a \<Longrightarrow> sent st1 st2 b \<Longrightarrow> sent st st2 (a @ b)"
  by (simp add: sent_def)

definition answers :: "string \<Rightarrow> perr + pydict \<Rightarrow> tier_call \<Rightarrow> bool" where
  "answers m r t \<longleftrightarrow> tl_model t = m \<and> \<not> tl_judge t \<and> tl_reply t = r"

text \<open>A step that sends nothing.\<close>

definition quiet :: "'a cx \<Rightarrow> bool" where
  "quiet m \<longleftrightarrow> (\<forall>st r st'. m st = (r, st') \<longrightarrow> sent st st' [] \<and> cx_best st' = cx_best st)"

lemma quietD: "quiet m \<Longrightarrow> m st = (r, st') \<Longrightarrow> sent st st' [] \<and> cx_best st' = cx_best st"
  by (simp add: quiet_def)

lemma quiet_return [simp]: "quiet (cx_return x)" and quiet_lift [simp]: "quiet (cx_lift y)"
  by (simp_all add: quiet_def cx_simps)

lemma quiet_params [simp]: "quiet (tier_params env c model)"
  by (auto simp: quiet_def tier_params_def sent_def split: sum.splits prod.splits)

lemma quiet_restore [simp]: "quiet (restore_raise m)"
  by (auto simp: quiet_def restore_raise_def cx_simps sent_def)

lemma quiet_select [simp]: "quiet (select_tier env c cfg label models)"
  by (auto simp: quiet_def select_tier_def sent_def split: prod.splits)

lemma quiet_check [simp]: "quiet (check_hop env c cfg out model)"
  by (auto simp: quiet_def check_hop_def)

lemma quiet_then: "quiet m \<Longrightarrow> (\<And>x. quiet (f x)) \<Longrightarrow> quiet (cx_then m f)"
  unfolding quiet_def by (auto elim!: cx_thenE simp: sent_def)

lemma send_tier_sends:
  assumes "send_tier env c model rq st = (r, st')"
  shows "cx_best st' = cx_best st \<and> (sent st st' [] \<and> (\<exists>e. r = Inl e) \<or> (\<exists>t. sent st st' [t] \<and> answers model r t))"
proof (cases "callable rq")
  case (Inl e)
  then show ?thesis using assms by (auto simp: send_tier_def)
next
  case (Inr x)
  let ?t = "\<lparr>tl_model = model, tl_judge = False, tl_request = rq, tl_reply = r\<rparr>"
  have "r = ce_reply env (map tl_reply (cx_log st)) rq" "st' = noted env c model rq r st"
    using assms Inr by (auto simp: send_tier_def Let_def)
  then have "sent st st' [?t]" "answers model r ?t" "cx_best st' = cx_best st"
    by (simp_all add: noted_def sent_def answers_def paid_def split: sum.split)
  then show ?thesis by blast
qed

lemma call_tier_sends:
  assumes "call_tier env c model key wire params st = (r, st')" and "quiet params"
  shows "cx_best st' = cx_best st \<and> (sent st st' [] \<and> (\<exists>e. r = Inl e) \<or> (\<exists>t. sent st st' [t] \<and> answers model r t))"
  using assms(1) unfolding call_tier_def
proof (cases rule: cx_thenE)
  case stopped
  then show ?thesis by (auto simp: cx_simps)
next
  case (went messages st1)
  then have 1: "st1 = st" by (simp add: cx_simps)
  from went(2) show ?thesis
  proof (cases rule: cx_thenE)
    case stopped
    then show ?thesis using quietD[OF assms(2)] 1 by auto
  next
    case (went ps st2)
    then have 2: "sent st st2 []" "cx_best st2 = cx_best st" using quietD[OF assms(2)] 1 by auto
    from went(2) show ?thesis
    proof (cases rule: cx_thenE)
      case stopped
      then show ?thesis using 2 by (auto simp: cx_simps)
    next
      case (went limit st3)
      then have "st3 = st2" by (simp add: cx_simps)
      then show ?thesis using send_tier_sends[OF went(2)] 2 sent_trans[OF 2(1)] by fastforce
    qed
  qed
qed

text \<open>A judge may be asked once; its call is a side call.\<close>

definition only_judged :: "cascade_state \<Rightarrow> cascade_state \<Rightarrow> bool" where
  "only_judged st st' \<longleftrightarrow> cx_best st' = cx_best st \<and> (sent st st' [] \<or> (\<exists>t. sent st st' [t] \<and> tl_judge t))"

lemma confidence_sends:
  assumes "confidence_in env c cfg response st = (r, st')"
  shows "only_judged st st'"
proof (cases "text_or cfg ''judge_model'' [] = []")
  case True
  then show ?thesis using assms by (auto simp: confidence_in_def cx_simps only_judged_def)
next
  case False
  let ?j = "text_or cfg ''judge_model'' []"
  have e: "evaluate_response_confidence env c ?j response st = (r, st')" using assms False by (simp add: confidence_in_def)
  show ?thesis
  proof (cases "litellm_call env ?j (resolve_tier_key (ce_route env) ?j (px_tenant c))")
    case (Inl e')
    then show ?thesis using e by (auto simp: evaluate_response_confidence_def only_judged_def)
  next
    case (Inr wire)
    let ?rq = "judge_request env c ?j wire (ce_shown env response)"
    let ?t = "\<lparr>tl_model = ?j, tl_judge = True, tl_request = ?rq, tl_reply = ce_reply env (map tl_reply (cx_log st)) ?rq\<rparr>"
    have "sent st st' [?t]" "cx_best st' = cx_best st"
      using e Inr False by (auto simp: evaluate_response_confidence_def Let_def sent_def paid_def split: sum.split)
    then show ?thesis by (auto simp: only_judged_def intro!: exI[of _ ?t])
  qed
qed

text \<open>The answer given quits is the one settled on, or what one more call to the cheap model returned.\<close>

definition settled :: "string \<Rightarrow> pydict \<Rightarrow> cascade_state \<Rightarrow> cascade_state \<Rightarrow> (perr + string \<times> pydict) \<Rightarrow> bool" where
  "settled m r st st' res \<longleftrightarrow> cx_best st' = cx_best st \<and>
     (sent st st' [] \<and> (res = Inr (m, r) \<or> (\<exists>e. res = Inl e)) \<or>
      (\<exists>t d. sent st st' [t] \<and> tl_model t = m \<and> \<not> tl_judge t \<and> res = Inr (m, d) \<and> (tl_reply t = Inr d \<or> d = r)))"

lemma serve_settles:
  assumes "serve_answer env c cfg fc m r st = (res, st')"
  shows "settled m r st st' res" and "m \<noteq> fc_model fc \<Longrightarrow> sent st st' []"
proof -
  let ?go = "if m = fc_model fc \<and> fc_cap fc \<noteq> None \<and> retries_on_truncation cfg
       then cx_then (cx_lift (as_raised (finish_reason_of r))) (\<lambda>reason.
              if reason = PStr ''length''
              then cx_except (cx_then (retry_uncapped env c fc) (\<lambda>d. cx_return (m, d))) (\<lambda>_. cx_return (m, r))
              else cx_return (m, r))
       else cx_return (m, r)"
  obtain u st1 where s: "restore_raise m st = (Inr u, st1)" by (simp add: restore_raise_def cx_simps)
  have 1: "sent st st1 []" "cx_best st1 = cx_best st" using quietD[OF quiet_restore s] by simp_all
  have rest: "?go st1 = (res, st')" using assms s unfolding serve_answer_def by (simp add: cx_then_def)
  have quits: "settled m r st st' res" "sent st st' []" if "sent st1 st' []" "cx_best st' = cx_best st1" "res = Inr (m, r) \<or> (\<exists>e. res = Inl e)"
    using that 1 sent_trans[OF 1(1) that(1)] by (auto simp: settled_def)
  show "m \<noteq> fc_model fc \<Longrightarrow> sent st st' []" using rest quits by (auto simp: cx_simps)
  show "settled m r st st' res"
  proof (cases "m = fc_model fc \<and> fc_cap fc \<noteq> None \<and> retries_on_truncation cfg")
    case False
    then show ?thesis using rest quits by (auto simp: cx_simps)
  next
    case True
    then have "cx_then (cx_lift (as_raised (finish_reason_of r))) (\<lambda>reason.
              if reason = PStr ''length''
              then cx_except (cx_then (retry_uncapped env c fc) (\<lambda>d. cx_return (m, d))) (\<lambda>_. cx_return (m, r))
              else cx_return (m, r)) st1 = (res, st')" using rest by simp
    then show ?thesis
    proof (cases rule: cx_thenE)
      case stopped
      then show ?thesis using quits by (auto simp: cx_simps)
    next
      case (went reason st2)
      then have 2: "st2 = st1" by (simp add: cx_simps)
      show ?thesis
      proof (cases "reason = PStr ''length''")
        case False
        then show ?thesis using went(2) 2 quits by (auto simp: cx_simps)
      next
        case length: True
        obtain d st3 where d: "retry_uncapped env c fc st1 = (d, st3)" by fastforce
        have k: "cx_best st3 = cx_best st1 \<and> (sent st1 st3 [] \<and> (\<exists>e. d = Inl e) \<or> (\<exists>t. sent st1 st3 [t] \<and> answers (fc_model fc) d t))"
          using d call_tier_sends[of env c "fc_model fc"] unfolding retry_uncapped_def by fastforce
        have "st3 = st'" "res = (case d of Inr x \<Rightarrow> Inr (m, x) | Inl _ \<Rightarrow> Inr (m, r))"
          using went(2) 2 length d by (auto simp: cx_except_def cx_then_def cx_simps split: sum.splits)
        then show ?thesis using k 1 True sent_trans[OF 1(1)] by (cases d) (fastforce simp: settled_def answers_def)+
      qed
    qed
  qed
qed

section \<open>Climbing\<close>

definition got :: "tier_call list \<Rightarrow> string \<Rightarrow> pydict \<Rightarrow> bool" where
  "got new m r \<longleftrightarrow> (\<exists>t \<in> set new. answers m (Inr r) t)"

lemma got_append: "got a m r \<Longrightarrow> got (a @ b) m r" "got b m r \<Longrightarrow> got (a @ b) m r"
  by (auto simp: got_def)

definition climbed :: "(string \<Rightarrow> bool) \<Rightarrow> nat \<Rightarrow> nat \<Rightarrow> cascade_state \<Rightarrow> cascade_state \<Rightarrow> tier_call list \<Rightarrow> bool" where
  "climbed A n k st st' new \<longleftrightarrow> sent st st' new \<and> list_all (\<lambda>t. tl_judge t \<or> A (tl_model t)) new \<and>
     length (filter (\<lambda>t. \<not> tl_judge t) new) \<le> n \<and> length (filter tl_judge new) \<le> k"

lemma climbed_trans: "climbed A n k st st1 a \<Longrightarrow> climbed A n' k' st1 st2 b \<Longrightarrow> climbed A (n + n') (k + k') st st2 (a @ b)"
  by (auto simp: climbed_def intro: sent_trans)

lemma climbed_mono: "climbed A n k st st' new \<Longrightarrow> n \<le> n' \<Longrightarrow> k \<le> k' \<Longrightarrow> climbed A n' k' st st' new"
  by (simp add: climbed_def)

lemma climbed_nil: "sent st st' [] \<Longrightarrow> climbed A n k st st' []"
  by (simp add: climbed_def)

lemma judged_climbs: "only_judged st st' \<Longrightarrow> \<exists>new. climbed A 0 1 st st' new"
  unfolding only_judged_def
proof (elim conjE disjE exE)
  assume "sent st st' []"
  then show ?thesis using climbed_nil by blast
next
  fix t
  assume "sent st st' [t]" "tl_judge t"
  then have "climbed A 0 1 st st' [t]" by (simp add: climbed_def)
  then show ?thesis by blast
qed

text \<open>Serving an answer costs at most one call, and none where it raises.\<close>

definition served_from :: "(string \<Rightarrow> bool) \<Rightarrow> string \<Rightarrow> pydict \<Rightarrow> cascade_state \<Rightarrow> cascade_state \<Rightarrow> (perr + string \<times> pydict) \<Rightarrow> tier_call list \<Rightarrow> bool" where
  "served_from A m r st st' res new \<longleftrightarrow>
     climbed A (case res of Inr _ \<Rightarrow> 1 | Inl _ \<Rightarrow> 0) 0 st st' new \<and> cx_best st' = cx_best st \<and>
     (\<forall>x d. res = Inr (x, d) \<longrightarrow> x = m \<and> (d = r \<or> got new m d))"

lemma serve_answer_climbs:
  assumes "serve_answer env c cfg fc m r st = (res, st')" and "A (fc_model fc)"
  shows "\<exists>new. served_from A m r st st' res new"
proof -
  note s = serve_settles(1)[OF assms(1)]
  show ?thesis
  proof (cases "sent st st' [] \<and> (res = Inr (m, r) \<or> (\<exists>e. res = Inl e))")
    case True
    then have "served_from A m r st st' res []" using s by (auto simp: served_from_def settled_def climbed_nil)
    then show ?thesis ..
  next
    case False
    then obtain t d where t: "sent st st' [t]" "tl_model t = m" "\<not> tl_judge t" "res = Inr (m, d)" "tl_reply t = Inr d \<or> d = r"
      and b: "cx_best st' = cx_best st" using s by (auto simp: settled_def)
    have "m = fc_model fc"
    proof (rule ccontr)
      assume "m \<noteq> fc_model fc"
      from serve_settles(2)[OF assms(1) this] t(1) show False by (simp add: sent_def)
    qed
    then have "served_from A m r st st' res [t]" using t b assms(2) by (auto simp: served_from_def climbed_def got_def answers_def)
    then show ?thesis ..
  qed
qed

lemma serve_best_climbs:
  assumes "serve_best env c cfg fc st = (res, st')" and "A (fc_model fc)"
  shows "\<exists>new. served_from A (fst (cx_best st)) (fst (snd (cx_best st))) st st' res new"
  using serve_answer_climbs[where A = A and fc = fc, OF _ assms(2)] assms(1) unfolding serve_best_def by blast

lemma call_hop_sends:
  assumes "call_hop env c model st = (r, st')" and "A model"
  shows "\<exists>new. climbed A 1 0 st st' new \<and> cx_best st' = cx_best st \<and> (\<forall>d. r = Inr d \<longrightarrow> got new model d)"
  using assms(1) unfolding call_hop_def
proof (cases rule: cx_thenE)
  case stopped
  then show ?thesis by (auto simp: cx_simps intro!: exI[of _ "[]"] climbed_nil)
next
  case (went wire st1)
  then have "st1 = st" by (simp add: cx_simps)
  with call_tier_sends[OF went(2) quiet_params] have b: "cx_best st' = cx_best st"
    and s: "sent st st' [] \<and> (\<exists>e. r = Inl e) \<or> (\<exists>t. sent st st' [t] \<and> answers model r t)" by auto
  from s show ?thesis
  proof
    assume "sent st st' [] \<and> (\<exists>e. r = Inl e)"
    then show ?thesis using b by (auto intro!: exI[of _ "[]"] climbed_nil)
  next
    assume "\<exists>t. sent st st' [t] \<and> answers model r t"
    then obtain t where t: "sent st st' [t]" "answers model r t" by blast
    then have "climbed A 1 0 st st' [t]" "\<And>d. r = Inr d \<Longrightarrow> got [t] model d"
      using assms(2) by (auto simp: climbed_def answers_def got_def)
    then show ?thesis using b by blast
  qed
qed

definition medium_done ::
  "(string \<Rightarrow> bool) \<Rightarrow> cascade_state \<Rightarrow> cascade_state \<Rightarrow> (perr + (string \<times> pydict) option) \<Rightarrow> tier_call list \<Rightarrow> bool" where
  "medium_done A st st' res new \<longleftrightarrow>
     climbed A (case res of Inr (Some _) \<Rightarrow> 2 | _ \<Rightarrow> 1) 1 st st' new \<and>
     (\<forall>x d. res = Inr (Some (x, d)) \<longrightarrow> got new x d \<or> (x = fst (cx_best st) \<and> d = fst (snd (cx_best st)))) \<and>
     (res = Inr None \<longrightarrow> cx_best st' = cx_best st \<or> got new (fst (cx_best st')) (fst (snd (cx_best st'))))"

lemma medium_failed:
  assumes "cx_then (serve_best env c cfg fc) (\<lambda>a. cx_return (Some a)) st1 = (res, st')" and "A (fc_model fc)"
    and "climbed A 1 1 st st1 a"
    and "cx_best st1 = cx_best st \<or> got a (fst (cx_best st1)) (fst (snd (cx_best st1)))"
  shows "\<exists>new. medium_done A st st' res new"
  using assms(1)
proof (cases rule: cx_thenE)
  case (stopped e)
  then obtain b where "served_from A (fst (cx_best st1)) (fst (snd (cx_best st1))) st1 st' (Inl e) b"
    using serve_best_climbs[of env c cfg fc st1 _ st' A] assms(2) by blast
  then have "climbed A 0 0 st1 st' b" by (simp add: served_from_def)
  then have "climbed A 1 1 st st' (a @ b)" using climbed_trans[OF assms(3)] by fastforce
  then show ?thesis using stopped by (auto simp: medium_done_def)
next
  case (went y st2)
  obtain x d where y: "y = (x, d)" by (cases y)
  have "serve_best env c cfg fc st1 = (Inr (x, d), st2)" "st' = st2" "res = Inr (Some (x, d))" using went y by (simp_all add: cx_simps)
  then obtain b where b: "served_from A (fst (cx_best st1)) (fst (snd (cx_best st1))) st1 st' (Inr (x, d)) b"
    using serve_best_climbs[of env c cfg fc st1 _ st2 A] assms(2) by blast
  then have "climbed A 1 0 st1 st' b" by (simp add: served_from_def)
  then have "climbed A 2 1 st st' (a @ b)" using climbed_trans[OF assms(3), of 1 0 st' b] by (simp add: numeral_2_eq_2)
  moreover have "got (a @ b) x d \<or> (x = fst (cx_best st) \<and> d = fst (snd (cx_best st)))"
    using b assms(4) got_append by (fastforce simp: served_from_def)
  ultimately show ?thesis using \<open>res = Inr (Some (x, d))\<close> by (auto simp: medium_done_def)
qed

definition medium_tried :: "(string \<Rightarrow> bool) \<Rightarrow> cascade_state \<Rightarrow> cascade_state \<Rightarrow> (perr + (string \<times> pydict) option) \<Rightarrow> bool" where
  "medium_tried A st st' res \<longleftrightarrow>
     (\<exists>x. res = Inr x \<and> (\<exists>new. medium_done A st st' res new)) \<or>
     (\<exists>e a. res = Inl e \<and> climbed A 1 1 st st' a \<and>
        (cx_best st' = cx_best st \<or> got a (fst (cx_best st')) (fst (snd (cx_best st')))))"

lemma medium_stopped:
  "climbed A 1 1 st st' a \<Longrightarrow> cx_best st' = (model, r, k) \<Longrightarrow> got a model r \<Longrightarrow> medium_tried A st st' (Inl e)"
  by (auto simp: medium_tried_def)

lemma medium_settles:
  assumes "cx_then (cx_lift (sure_enough cfg confidence)) (\<lambda>sure.
      if sure then cx_then (serve_answer env c cfg fc model r) (\<lambda>a. cx_return (Some a)) else cx_return None) st1 = (res, st')"
    and "climbed A 1 1 st st1 a" and "cx_best st1 = (model, r, k)" and "got a model r" and "A (fc_model fc)"
  shows "medium_tried A st st' res"
  using assms(1)
proof (cases rule: cx_thenE)
  case (stopped e)
  then show ?thesis using medium_stopped assms(2-4) by (simp add: cx_simps)
next
  case (went sure st2)
  then have 2: "st2 = st1" by (simp add: cx_simps)
  show ?thesis
  proof (cases sure)
    case False
    then have "res = Inr None" "st' = st1" using went(2) 2 by (simp_all add: cx_simps)
    then have "medium_done A st st' res a" using assms(2-4) by (simp add: medium_done_def)
    then show ?thesis using \<open>res = Inr None\<close> by (auto simp: medium_tried_def)
  next
    case True
    then have "cx_then (serve_answer env c cfg fc model r) (\<lambda>a. cx_return (Some a)) st1 = (res, st')" using went(2) 2 by simp
    then show ?thesis
    proof (cases rule: cx_thenE)
      case (stopped e)
      then obtain n where n: "served_from A model r st1 st' (Inl e) n"
        using serve_answer_climbs[of env c cfg fc model r st1 _ st' A] assms(5) by blast
      then have "climbed A 1 1 st st' (a @ n)" using climbed_trans[OF assms(2), of 0 0 st' n] by (simp add: served_from_def)
      then show ?thesis using stopped(2) n assms(3) medium_stopped got_append(1)[OF assms(4)] by (simp add: served_from_def)
    next
      case (went y st3)
      obtain x d where y: "y = (x, d)" by (cases y)
      have r: "res = Inr (Some (x, d))" "st' = st3" using went(2) y by (simp_all add: cx_simps)
      then obtain n where n: "served_from A model r st1 st' (Inr (x, d)) n"
        using serve_answer_climbs[of env c cfg fc model r st1 _ st' A] assms(5) went(1) y by blast
      then have "climbed A 2 1 st st' (a @ n)"
        using climbed_trans[OF assms(2), of 1 0 st' n] by (simp add: served_from_def numeral_2_eq_2)
      moreover have "got (a @ n) x d" using n assms(4) got_append by (auto simp: served_from_def)
      ultimately have "medium_done A st st' res (a @ n)" using r by (simp add: medium_done_def)
      then show ?thesis using r by (auto simp: medium_tried_def)
    qed
  qed
qed

lemma medium_called:
  assumes "cx_then (call_hop env c model) (\<lambda>r.
      cx_then (cx_update (\<lambda>st. st\<lparr>cx_best := (model, r, k)\<rparr>)) (\<lambda>_.
      cx_then (confidence_in env c cfg r) (\<lambda>confidence.
      cx_then (cx_lift (sure_enough cfg confidence)) (\<lambda>sure.
        if sure then cx_then (serve_answer env c cfg fc model r) (\<lambda>a. cx_return (Some a)) else cx_return None)))) st = (res, st')"
    and "A (fc_model fc)" and "A model"
  shows "medium_tried A st st' res"
  using assms(1)
proof (cases rule: cx_thenE)
  case (stopped e)
  then obtain a where "climbed A 1 0 st st' a" "cx_best st' = cx_best st" using call_hop_sends[of env c model st _ st' A] assms(3) by blast
  then show ?thesis using stopped climbed_mono[of A 1 0 st st' a 1 1] by (auto simp: medium_tried_def)
next
  case (went r st2)
  then obtain a where a: "climbed A 1 0 st st2 a" "got a model r" using call_hop_sends[of env c model st _ st2 A] assms(3) by blast
  let ?st3 = "st2\<lparr>cx_best := (model, r, k)\<rparr>"
  have a3: "climbed A 1 0 st ?st3 a" using a(1) by (simp add: climbed_def sent_def)
  have "cx_then (confidence_in env c cfg r) (\<lambda>confidence.
      cx_then (cx_lift (sure_enough cfg confidence)) (\<lambda>sure.
        if sure then cx_then (serve_answer env c cfg fc model r) (\<lambda>a. cx_return (Some a)) else cx_return None)) ?st3 = (res, st')"
    using went(2) by (simp add: cx_then_def cx_simps)
  then show ?thesis
  proof (cases rule: cx_thenE)
    case (stopped e)
    have j: "only_judged ?st3 st'" by (rule confidence_sends[OF stopped(1)])
    obtain b where "climbed A 0 1 ?st3 st' b" using judged_climbs[OF j] by blast
    then have "climbed A 1 1 st st' (a @ b)" using climbed_trans[OF a3, of 0 1 st' b] by simp
    then show ?thesis using stopped(2) j medium_stopped[OF _ _ got_append(1)[OF a(2)]] by (simp add: only_judged_def)
  next
    case (went confidence st4)
    have j: "only_judged ?st3 st4" by (rule confidence_sends[OF went(1)])
    obtain b where "climbed A 0 1 ?st3 st4 b" using judged_climbs[OF j] by blast
    then have "climbed A 1 1 st st4 (a @ b)" using climbed_trans[OF a3, of 0 1 st4 b] by simp
    then show ?thesis using medium_settles[where A = A and a = "a @ b", OF went(2) _ _ got_append(1)[OF a(2)] assms(2)] j by (simp add: only_judged_def)
  qed
qed

lemma try_medium_climbs:
  assumes "try_medium env c cfg fc out model st = (res, st')" and "A (fc_model fc)" and "A model"
  shows "\<exists>new. medium_done A st st' res new"
  using assms(1) unfolding try_medium_def
proof (cases rule: cx_exceptE)
  case (fine x)
  then show ?thesis using medium_called[OF fine(1), of A] assms(2,3) by (auto simp: medium_tried_def)
next
  case (caught e st1)
  then obtain a where "climbed A 1 1 st st1 a" "cx_best st1 = cx_best st \<or> got a (fst (cx_best st1)) (fst (snd (cx_best st1)))"
    using medium_called[OF caught(1), of A] assms(2,3) by (auto simp: medium_tried_def)
  then show ?thesis using medium_failed[OF caught(2), of A] assms(2) by blast
qed

text \<open>The tiers the plan's cap and the cost guard leave open.\<close>

definition tier_allowed :: "cascade_env \<Rightarrow> route_ctx \<Rightarrow> ladder \<Rightarrow> pydict \<Rightarrow> int \<Rightarrow> nat \<Rightarrow> string \<Rightarrow> bool" where
  "tier_allowed env c tiers cfg out max_tier m \<longleftrightarrow>
     (m \<in> set (tier_models tiers ''medium'') \<and> 1 \<le> max_tier \<or> m \<in> set (tier_models tiers ''complex'') \<and> 2 \<le> max_tier) \<and>
     (py_truthy (dget_or cfg ''allow_escalation_above_requested'' (PBool False)) \<or>
      cost_of (ce_route env) c out m \<le> cost_of (ce_route env) c out (px_model c))"

lemma select_tier_in:
  assumes "select_tier env c cfg label models st = (Inr m, st')" and "models \<noteq> []"
  shows "m \<in> set models" "sent st st' []" "cx_best st' = cx_best st"
proof -
  obtain r rs where p: "pick_from (ce_route env) cfg label models c (cx_route st) = (r, rs)" by fastforce
  then have "as_raised (map_sum id (\<lambda>m. case m of Some x \<Rightarrow> x | None \<Rightarrow> []) r) = Inr m"
    using assms(1) by (simp add: select_tier_def)
  then obtain o' where o: "r = Inr o'" "m = (case o' of Some x \<Rightarrow> x | None \<Rightarrow> [])"
    by (cases r) (simp_all add: as_raised_def as_perr_def lift_py_def)
  show "m \<in> set models" using select_in[OF p[unfolded o(1) pick_from_def] assms(2)] o(2) by auto
  show "sent st st' []" "cx_best st' = cx_best st" using quietD[OF quiet_select assms(1)] by simp_all
qed

lemma check_passes:
  assumes "check_hop env c cfg out m st = (Inr None, st')"
  shows "st' = st" "py_truthy (dget_or cfg ''allow_escalation_above_requested'' (PBool False)) \<or>
      cost_of (ce_route env) c out m \<le> cost_of (ce_route env) c out (px_model c)"
  using assms
  by (auto simp: check_hop_def hop_blocked_def escalation_block_reason_def as_raised_def as_perr_def lift_py_def map_sum_def
      split: sum.splits if_splits)

lemma climbed_start: "sent st st1 [] \<Longrightarrow> climbed A n k st1 st' new \<Longrightarrow> climbed A n k st st' new"
  by (simp add: climbed_def sent_def)

lemma medium_hop_climbs:
  fixes env c tiers cfg fc out max_tier
  defines "A \<equiv> \<lambda>m. m = fc_model fc \<or> tier_allowed env c tiers cfg out max_tier m"
  assumes "medium_hop env c tiers cfg fc out max_tier st = (res, st')"
  shows "\<exists>new. medium_done A st st' res new"
proof -
  have idle: "\<exists>new. medium_done A st st' res new" if "sent st st' []" "cx_best st' = cx_best st" "res = Inr None \<or> (\<exists>e. res = Inl e)"
    using that by (auto simp: medium_done_def climbed_nil intro!: exI[of _ "[]"])
  show ?thesis
  proof (cases "tier_models tiers ''medium'' = [] \<or> max_tier < 1")
    case True
    then show ?thesis using assms(2) idle by (auto simp: medium_hop_def cx_simps)
  next
    case False
    then have "cx_then (select_tier env c cfg ''medium'' (tier_models tiers ''medium'')) (\<lambda>model.
           cx_then (check_hop env c cfg out model) (\<lambda>blocked.
             case blocked of Some _ \<Rightarrow> cx_return None | None \<Rightarrow> try_medium env c cfg fc out model)) st = (res, st')"
      using assms(2) by (auto simp: medium_hop_def)
    then show ?thesis
    proof (cases rule: cx_thenE)
      case stopped
      then show ?thesis using idle quietD[OF quiet_select stopped(1)] by simp
    next
      case (went model st1)
      note m = select_tier_in[OF went(1)]
      from went(2) show ?thesis
      proof (cases rule: cx_thenE)
        case stopped
        then show ?thesis using idle m(2,3) False by (auto simp: check_hop_def)
      next
        case (went blocked st2)
        then have 2: "st2 = st1" by (simp add: check_hop_def)
        show ?thesis
        proof (cases blocked)
          case (Some x)
          then show ?thesis using went(2) 2 idle m(2,3) False by (auto simp: cx_simps)
        next
          case None
          then have "tier_allowed env c tiers cfg out max_tier model"
            using check_passes(2)[of env c cfg out model st1 st2] went(1) m(1) False by (auto simp: tier_allowed_def)
          then have "\<exists>new. medium_done A st1 st' res new"
            using try_medium_climbs[of env c cfg fc out model st1 res st' A] went(2) None 2 by (simp add: A_def)
          then obtain new where "medium_done A st1 st' res new" ..
          then have "medium_done A st st' res new"
            using m(2,3) False climbed_start[of st st1] by (auto simp: medium_done_def)
          then show ?thesis ..
        qed
      qed
    qed
  qed
qed

text \<open>What the climb gives back: the best answer it started from or one it obtained, within three more calls.\<close>

definition climb_done :: "(string \<Rightarrow> bool) \<Rightarrow> nat \<Rightarrow> nat \<Rightarrow> cascade_state \<Rightarrow> cascade_state \<Rightarrow> (perr + string \<times> pydict) \<Rightarrow> tier_call list \<Rightarrow> bool" where
  "climb_done A n k st st' res new \<longleftrightarrow>
     climbed A n k st st' new \<and>
     (\<forall>x d. res = Inr (x, d) \<longrightarrow> got new x d \<or> (x = fst (cx_best st) \<and> d = fst (snd (cx_best st))))"

lemma served_done:
  assumes "served_from A (fst (cx_best st1)) (fst (snd (cx_best st1))) st1 st' res new" and "climbed A n k st st1 a"
    and "cx_best st1 = cx_best st"
  shows "climb_done A (Suc n) k st st' res (a @ new)"
proof -
  have "climbed A 1 0 st1 st' new" using assms(1) climbed_mono[of A 0 0 st1 st' new 1 0] by (auto simp: served_from_def split: sum.splits)
  then have "climbed A (Suc n) k st st' (a @ new)" using climbed_trans[OF assms(2), of 1 0 st' new] by simp
  then show ?thesis using assms(1,3) got_append(2) by (auto simp: climb_done_def served_from_def)
qed

lemma done_mono: "climb_done A n k st st' res new \<Longrightarrow> n \<le> n' \<Longrightarrow> k \<le> k' \<Longrightarrow> climb_done A n' k' st st' res new"
  using climbed_mono by (auto simp: climb_done_def)

lemma best_done:
  assumes "serve_best env c cfg fc st1 = (res, st')" and "A (fc_model fc)" and "climbed A n k st st1 a" and "cx_best st1 = cx_best st"
  shows "\<exists>new. climb_done A (Suc n) k st st' res new"
  using serve_best_climbs[of env c cfg fc st1 res st' A] served_done[of A st1 st' res _ n k st a] assms by blast

lemma top_called:
  assumes "cx_then (call_hop env c model) (\<lambda>r. serve_answer env c cfg fc model r) st = (res, st')" and "A (fc_model fc)" and "A model"
  shows "\<exists>new. climb_done A (case res of Inr _ \<Rightarrow> 2 | Inl _ \<Rightarrow> 1) 0 st st' res new \<and> cx_best st' = cx_best st"
  using assms(1)
proof (cases rule: cx_thenE)
  case (stopped e)
  then obtain a where "climbed A 1 0 st st' a" "cx_best st' = cx_best st" using call_hop_sends[of env c model st _ st' A] assms(3) by blast
  then show ?thesis using stopped by (auto simp: climb_done_def)
next
  case (went r st1)
  then obtain a where a: "climbed A 1 0 st st1 a" "cx_best st1 = cx_best st" "got a model r"
    using call_hop_sends[of env c model st _ st1 A] assms(3) by blast
  obtain n where n: "served_from A model r st1 st' res n" using serve_answer_climbs[of env c cfg fc model r st1 res st' A] went(2) assms(2) by blast
  then have "climbed A (case res of Inr _ \<Rightarrow> 2 | Inl _ \<Rightarrow> 1) 0 st st' (a @ n)"
    using climbed_trans[OF a(1), of _ 0 st' n] by (cases res) (auto simp: served_from_def numeral_2_eq_2)
  then have "climb_done A (case res of Inr _ \<Rightarrow> 2 | Inl _ \<Rightarrow> 1) 0 st st' res (a @ n)"
    using n a(3) got_append by (fastforce simp: climb_done_def served_from_def)
  then show ?thesis using n a(2) by (auto simp: served_from_def)
qed

lemma top_tried:
  assumes "cx_except (cx_then (call_hop env c model) (\<lambda>r. serve_answer env c cfg fc model r)) (\<lambda>_. serve_best env c cfg fc) st = (res, st')"
    and "A (fc_model fc)" and "A model"
  shows "\<exists>new. climb_done A 2 0 st st' res new"
  using assms(1)
proof (cases rule: cx_exceptE)
  case (fine x)
  then show ?thesis using top_called[of env c model cfg fc st _ st' A] assms(2,3) by fastforce
next
  case (caught e st1)
  then obtain a where "climb_done A 1 0 st st1 (Inl e :: perr + string \<times> pydict) a" "cx_best st1 = cx_best st"
    using top_called[of env c model cfg fc st _ st1 A] assms(2,3) by fastforce
  then show ?thesis using best_done[of env c cfg fc st1 res st' A 1 0 st a] caught(2) assms(2)
    by (simp add: climb_done_def numeral_2_eq_2)
qed

lemma done_start: "sent st st1 [] \<Longrightarrow> cx_best st1 = cx_best st \<Longrightarrow> climb_done A n k st1 st' res new \<Longrightarrow> climb_done A n k st st' res new"
  using climbed_start by (auto simp: climb_done_def)

lemma raised_done: "sent st st' [] \<Longrightarrow> climb_done A n k st st' (Inl e) []"
  by (simp add: climb_done_def climbed_nil)

lemma complex_hop_climbs:
  fixes env c tiers cfg fc out max_tier
  defines "A \<equiv> \<lambda>m. m = fc_model fc \<or> tier_allowed env c tiers cfg out max_tier m"
  assumes "complex_hop env c tiers cfg fc out max_tier st = (res, st')"
  shows "\<exists>new. climb_done A 2 0 st st' res new"
proof -
  have best: "\<exists>new. climb_done A 2 0 st st' res new"
    if "serve_best env c cfg fc st1 = (res, st')" "sent st st1 []" "cx_best st1 = cx_best st" for st1
    using best_done[of env c cfg fc st1 res st' A 1 0 st "[]"] that climbed_nil by (simp add: A_def numeral_2_eq_2)
  show ?thesis
  proof (cases "tier_models tiers ''complex'' = [] \<or> max_tier < 2")
    case True
    then show ?thesis using assms(2) best[of st] by (simp add: complex_hop_def)
  next
    case False
    then have "cx_then (select_tier env c cfg ''complex'' (tier_models tiers ''complex'')) (\<lambda>model.
           cx_then (check_hop env c cfg out model) (\<lambda>blocked.
             case blocked of
               Some _ \<Rightarrow> serve_best env c cfg fc
             | None \<Rightarrow>
                 cx_except (cx_then (call_hop env c model) (\<lambda>r. serve_answer env c cfg fc model r))
                   (\<lambda>_. serve_best env c cfg fc))) st = (res, st')"
      using assms(2) by (auto simp: complex_hop_def)
    then show ?thesis
    proof (cases rule: cx_thenE)
      case stopped
      then show ?thesis using quietD[OF quiet_select stopped(1)] raised_done by blast
    next
      case (went model st1)
      have m: "model \<in> set (tier_models tiers ''complex'')" "sent st st1 []" "cx_best st1 = cx_best st"
        using select_tier_in[OF went(1)] False by simp_all
      obtain blocked st2 where k: "check_hop env c cfg out model st1 = (blocked, st2)" by fastforce
      then have 2: "st2 = st1" by (simp add: check_hop_def)
      consider e where "blocked = Inl e" | x where "blocked = Inr (Some x)" | "blocked = Inr None" by (metis sum.exhaust option.exhaust)
      then show ?thesis
      proof cases
        case 1
        then have "res = Inl e" "sent st st' []" using went(2) k \<open>st2 = st1\<close> m(2) by (simp_all add: cx_then_def)
        then show ?thesis using raised_done by blast
      next
        case 2
        then show ?thesis using went(2) k best[of st1] m \<open>st2 = st1\<close> by (simp add: cx_then_def)
      next
        case 3
        then have "tier_allowed env c tiers cfg out max_tier model"
          using check_passes(2)[of env c cfg out model st1 st2] k m(1) False by (auto simp: tier_allowed_def)
        then have "\<exists>new. climb_done A 2 0 st1 st' res new"
          using top_tried[of env c model cfg fc st1 res st' A] went(2) k 2 3 by (simp add: A_def cx_then_def)
        then show ?thesis using done_start[OF m(2,3)] by blast
      qed
    qed
  qed
qed

lemma climb_climbs:
  fixes env c tiers cfg fc out max_tier
  defines "A \<equiv> \<lambda>m. m = fc_model fc \<or> tier_allowed env c tiers cfg out max_tier m"
  assumes "climb env c tiers cfg fc out max_tier st = (res, st')"
  shows "\<exists>new. climb_done A 3 1 st st' res new"
  using assms(2) unfolding climb_def
proof (cases rule: cx_thenE)
  case (stopped e)
  then obtain new where "climbed A 1 1 st st' new" using medium_hop_climbs[of env c tiers cfg fc out max_tier st _ st']
    by (fastforce simp: medium_done_def A_def)
  then show ?thesis using stopped(2) climbed_mono[of A 1 1 st st' new 3 1] by (auto simp: climb_done_def)
next
  case (went r st1)
  then obtain a where a: "medium_done A st st1 (Inr r) a" using medium_hop_climbs[of env c tiers cfg fc out max_tier st _ st1]
    by (fastforce simp: A_def)
  show ?thesis
  proof (cases r)
    case (Some y)
    then have "climbed A 2 1 st st' a" "res = Inr y" "st1 = st'" using went(2) a by (auto simp: medium_done_def cx_simps)
    then have "climb_done A 3 1 st st' res a"
      using a Some climbed_mono[of A 2 1 st st' a 3 1] by (auto simp: climb_done_def medium_done_def)
    then show ?thesis ..
  next
    case None
    then have a1: "climbed A 1 1 st st1 a" using a by (simp add: medium_done_def)
    obtain b where b: "climb_done A 2 0 st1 st' res b"
      using complex_hop_climbs[of env c tiers cfg fc out max_tier st1 res st'] went(2) None by (auto simp: A_def)
    then have "climbed A 3 1 st st' (a @ b)" using climbed_trans[OF a1, of 2 0 st' b] by (simp add: climb_done_def numeral_3_eq_3)
    then have "climb_done A 3 1 st st' res (a @ b)"
      using a b None got_append by (fastforce simp: climb_done_def medium_done_def)
    then show ?thesis ..
  qed
qed

section \<open>The whole run\<close>

lemma call_tier1_sends:
  assumes "call_tier1 env c cfg model key st = (res, st')" and "A model"
  shows "\<exists>new. climbed A 1 0 st st' new \<and> (\<forall>fc r. res = Inr (fc, r) \<longrightarrow> fc_model fc = model \<and> got new model r)"
  using assms(1) unfolding call_tier1_def
proof (cases rule: cx_thenE)
  case stopped
  then show ?thesis using climbed_nil[of st st'] by (auto simp: cx_simps)
next
  case (went cap st1)
  then have 1: "st1 = st" by (simp add: cx_simps)
  from went(2) show ?thesis
  proof (cases rule: cx_thenE)
    case stopped
    then show ?thesis using quietD[OF quiet_params stopped(1)] 1 climbed_nil[of st st'] by auto
  next
    case (went ps st2)
    have 2: "sent st st2 []" using quietD[OF quiet_params went(1)] 1 by simp
    from went(2) show ?thesis
    proof (cases rule: cx_thenE)
      case stopped
      then show ?thesis using 2 climbed_nil[of st st'] by (auto simp: cx_simps)
    next
      case (went wire st3)
      let ?fc = "\<lparr>fc_model = model, fc_key = key, fc_wire = wire, fc_params = fst (tier1_budget c cap ps), fc_cap = snd (tier1_budget c cap ps)\<rparr>"
      obtain r st4 where r: "call_tier env c model (Some key) wire (cx_return (fc_params ?fc)) st2 = (r, st4)" by fastforce
      have e: "st3 = st2" using went(1) by (simp add: cx_simps)
      then have b: "st' = st4" "res = map_sum id (Pair ?fc) r"
        using went(2) r by (auto simp: cx_then_def cx_simps Let_def split: sum.splits)
      have "sent st2 st4 [] \<and> (\<exists>e. r = Inl e) \<or> (\<exists>t. sent st2 st4 [t] \<and> answers model r t)"
        using call_tier_sends[OF r quiet_return] by simp
      then show ?thesis
      proof
        assume "sent st2 st4 [] \<and> (\<exists>e. r = Inl e)"
        then have "climbed A 1 0 st st' []" "\<exists>e. res = Inl e" using b climbed_start[OF 2 climbed_nil[of st2 st4]] by auto
        then show ?thesis by blast
      next
        assume "\<exists>t. sent st2 st4 [t] \<and> answers model r t"
        then obtain t where t: "sent st2 st4 [t]" "answers model r t" by blast
        have "climbed A 1 0 st2 st4 [t]" using t assms(2) by (simp add: climbed_def answers_def)
        moreover have "got [t] model d" if "r = Inr d" for d using t(2) that by (simp add: got_def)
        ultimately show ?thesis using b climbed_start[OF 2, of A 1 0 st4 "[t]"] by (cases r) auto
      qed
    qed
  qed
qed

definition run_done :: "(string \<Rightarrow> bool) \<Rightarrow> cascade_state \<Rightarrow> cascade_state \<Rightarrow> (perr + cascade_result) \<Rightarrow> tier_call list \<Rightarrow> bool" where
  "run_done A st st' res new \<longleftrightarrow> climbed A 4 2 st st' new \<and> (\<forall>m r. res = Inr (Cascade_Answer m r) \<longrightarrow> got new m r)"

lemma tier1_settles:
  assumes "cx_then (if sure then serve_answer env c cfg fc model r
             else cx_then (cx_update (\<lambda>st. st\<lparr>cx_best := (model, r, k)\<rparr>)) (\<lambda>_. climb env c tiers cfg fc out max_tier))
           (\<lambda>(m, a). cx_return (Cascade_Answer m a)) st1 = (res, st')"
    and "climbed A 1 1 st st1 a" and "got a model r" and "fc_model fc = model"
    and "A = (\<lambda>m. m = model \<or> tier_allowed env c tiers cfg out max_tier m)"
  shows "\<exists>new. run_done A st st' res new"
proof -
  obtain y st2 where y: "(if sure then serve_answer env c cfg fc model r
      else cx_then (cx_update (\<lambda>st. st\<lparr>cx_best := (model, r, k)\<rparr>)) (\<lambda>_. climb env c tiers cfg fc out max_tier)) st1 = (y, st2)" by fastforce
  have "st' = st2" "res = map_sum id (\<lambda>(m, a). Cascade_Answer m a) y"
    using assms(1) y by (auto simp: cx_then_def cx_simps split: sum.splits prod.splits)
  moreover have "\<exists>b. climbed A 3 1 st1 st2 b \<and> (\<forall>m d. y = Inr (m, d) \<longrightarrow> got b m d \<or> (m = model \<and> d = r))"
  proof (cases sure)
    case True
    then obtain b where b: "served_from A model r st1 st2 y b"
      using serve_answer_climbs[of env c cfg fc model r st1 y st2 A] y assms(4,5) by auto
    then have "climbed A 3 1 st1 st2 b" using climbed_mono[of A _ 0 st1 st2 b 3 1] by (auto simp: served_from_def split: sum.splits)
    then show ?thesis using b by (auto simp: served_from_def)
  next
    case False
    let ?s = "st1\<lparr>cx_best := (model, r, k)\<rparr>"
    have "climb env c tiers cfg fc out max_tier ?s = (y, st2)" using y False by (simp add: cx_then_def cx_simps)
    then obtain b where "climb_done A 3 1 ?s st2 y b" using climb_climbs assms(4,5) by blast
    then have "climbed A 3 1 st1 st2 b" "\<forall>m d. y = Inr (m, d) \<longrightarrow> got b m d \<or> (m = model \<and> d = r)"
      by (auto simp: climb_done_def climbed_def sent_def)
    then show ?thesis by blast
  qed
  then obtain b where b: "climbed A 3 1 st1 st2 b" "\<forall>m d. y = Inr (m, d) \<longrightarrow> got b m d \<or> (m = model \<and> d = r)" by blast
  moreover have "climbed A 4 2 st st2 (a @ b)" using climbed_trans[OF assms(2) b(1)] by (simp add: numeral_2_eq_2)
  ultimately have "run_done A st st' res (a @ b)"
    using assms(3) got_append by (cases y) (auto simp: run_done_def split: prod.splits)
  then show ?thesis ..
qed

lemma run_from_tier1_runs:
  fixes env c tiers cfg out max_tier model
  defines "A \<equiv> \<lambda>m. m = model \<or> tier_allowed env c tiers cfg out max_tier m"
  assumes "run_from_tier1 env c tiers cfg out max_tier model st = (res, st')"
  shows "\<exists>new. run_done A st st' res new"
proof (cases "resolve_tier_key (ce_route env) model (px_tenant c)")
  case None
  then show ?thesis using assms(2) climbed_nil[of st st'] by (auto simp: run_from_tier1_def cx_simps run_done_def)
next
  case (Some key)
  have A: "A model" by (simp add: A_def)
  obtain r1 st1 where r1: "call_tier1 env c cfg model key st = (r1, st1)" by fastforce
  then obtain a where a: "climbed A 1 0 st st1 a" "\<forall>fc r. r1 = Inr (fc, r) \<longrightarrow> fc_model fc = model \<and> got a model r"
    using call_tier1_sends[of env c cfg model key st r1 st1 A] A by blast
  show ?thesis
  proof (cases r1)
    case (Inl e)
    then have "run_done A st st' res a"
      using assms(2) Some r1 a(1) climbed_mono[of A 1 0 st st' a 4 2] by (auto simp: run_from_tier1_def cx_then_def run_done_def)
    then show ?thesis ..
  next
    case (Inr p)
    obtain fc r where p: "p = (fc, r)" by (cases p)
    have fc: "fc_model fc = model" "got a model r" using a(2) Inr p by simp_all
    obtain k st2 where k: "confidence_in env c cfg r st1 = (k, st2)" by fastforce
    obtain b where b: "climbed A 0 1 st1 st2 b" using judged_climbs[OF confidence_sends[OF k]] by blast
    have ab: "climbed A 1 1 st st2 (a @ b)" using climbed_trans[OF a(1) b] by simp
    have stop: "\<exists>new. run_done A st st' res new" if "st' = st2" "\<exists>e. res = Inl e"
      using that climbed_mono[OF ab, of 4 2] by (auto simp: run_done_def)
    show ?thesis
    proof (cases k)
      case (Inl e)
      then have "st' = st2" "res = Inl e" using assms(2) Some r1 Inr p k by (simp_all add: run_from_tier1_def cx_then_def)
      then show ?thesis using stop by blast
    next
      case k': (Inr conf)
      show ?thesis
      proof (cases "sure_enough cfg conf")
        case (Inl e)
        then have "st' = st2" "res = Inl e" using assms(2) Some r1 Inr p k k' by (simp_all add: run_from_tier1_def cx_then_def cx_lift_def)
        then show ?thesis using stop by blast
      next
        case sure: (Inr sure)
        have "cx_then (if sure then serve_answer env c cfg fc model r
             else cx_then (cx_update (\<lambda>st. st\<lparr>cx_best := (model, r, cost_of (ce_route env) c out model)\<rparr>)) (\<lambda>_. climb env c tiers cfg fc out max_tier))
           (\<lambda>(m, a). cx_return (Cascade_Answer m a)) st2 = (res, st')"
          using assms(2) Some r1[unfolded Inr p] k[unfolded k']
          by (simp add: run_from_tier1_def cx_then_Inr[where m = "call_tier1 env c cfg model key"]
              cx_then_Inr[where m = "confidence_in env c cfg r"] cx_then_lift sure)
        from tier1_settles[OF this ab got_append(1)[OF fc(2)] fc(1)] show ?thesis by (simp add: A_def)
      qed
    qed
  qed
qed

lemma plan_runs:
  assumes "execute_plan env c p st = (res, st')"
  shows "\<exists>new. run_done (\<lambda>m. m = pl_tier1 p \<or>
      (\<exists>out. expected_output (pl_cfg p) c = Inr out \<and> tier_allowed env c (pl_tiers p) (pl_cfg p) out (pl_max_tier p) m)) st st' res new"
    (is "\<exists>new. run_done ?A st st' res new")
proof -
  have idle: "\<exists>new. run_done ?A st st' res new" if "st' = st" "\<And>m r. res \<noteq> Inr (Cascade_Answer m r)"
    using that by (auto simp: run_done_def climbed_nil intro!: exI[of _ "[]"])
  show ?thesis
  proof (cases "tier_models (pl_tiers p) ''simple'' = []")
    case True
    then have "st' = st" "res = Inr (No_Answer No_Simple_Models)"
      using assms by (simp_all add: execute_plan_def execute_three_tier_cascade_def cx_simps)
    then show ?thesis using idle by simp
  next
    case False
    show ?thesis
    proof (cases "expected_output (pl_cfg p) c")
      case (Inl e)
      then obtain e' where "st' = st" "res = Inl e'" using assms False
        by (auto simp: execute_plan_def execute_three_tier_cascade_def cx_simps cx_then_def as_raised_def as_perr_def lift_py_def)
      then show ?thesis using idle by simp
    next
      case (Inr out)
      let ?B = "\<lambda>m. m = pl_tier1 p \<or> tier_allowed env c (pl_tiers p) (pl_cfg p) out (pl_max_tier p) m"
      have "cx_except (run_from_tier1 env c (pl_tiers p) (pl_cfg p) out (pl_max_tier p) (pl_tier1 p))
          (\<lambda>e. cx_return (No_Answer (Tier1_Failed e))) st = (res, st')"
        using assms False Inr
        by (simp add: execute_plan_def execute_three_tier_cascade_def cx_then_def cx_simps as_raised_def as_perr_def lift_py_def)
      then have "\<exists>new. run_done ?B st st' res new"
      proof (cases rule: cx_exceptE)
        case (fine x)
        then show ?thesis using run_from_tier1_runs by blast
      next
        case (caught e st1)
        then obtain new where "run_done ?B st st1 (Inl e) new" using run_from_tier1_runs by blast
        then have "run_done ?B st st' res new" using caught(2) by (auto simp: run_done_def cx_simps)
        then show ?thesis ..
      qed
      then obtain new where "run_done ?B st st' res new" ..
      then have "run_done ?A st st' res new" using Inr by (auto simp: run_done_def climbed_def list_all_iff)
      then show ?thesis ..
    qed
  qed
qed



text \<open>
  C34. A cascade serves only what a provider answered: the answer it returns under a model's name is the reply of a
  call that this run sent to that model, whichever tiers failed, were blocked or were rolled back.
\<close>

theorem cascade_serves_what_was_answered:
  assumes "execute_plan env c p st = (Inr (Cascade_Answer m r), st')"
  shows "\<exists>t \<in> set (drop (length (cx_log st)) (cx_log st')). tl_model t = m \<and> \<not> tl_judge t \<and> tl_reply t = Inr r"
  using plan_runs[OF assms] by (auto simp: run_done_def climbed_def sent_def got_def answers_def)

section \<open>A sample run\<close>

definition demo_reply :: "(perr + pydict) list \<Rightarrow> call_request \<Rightarrow> perr + pydict" where
  "demo_reply past rq = Inr [(''choices'', PList [PDict [(''message'', PDict [(''content'', PStr ''4'')]), (''finish_reason'', PStr ''stop'')]])]"

definition demo_cascade_env :: cascade_env where
  "demo_cascade_env = \<lparr>ce_route = demo_route_env\<lparr>rv_key := (\<lambda>_ _. Some ''k'')\<rparr>, ce_reply = demo_reply, ce_refuses = (\<lambda>_. False),
     ce_shown = (\<lambda>_. []), ce_now = 0\<rparr>"

definition new_cascade_state :: cascade_state where
  "new_cascade_state = \<lparr>cx_log = [], cx_calls = [], cx_route = new_route_state, cx_breakers = new_store, cx_raised = PNone,
     cx_by_tier = [], cx_best = ([], [], 0)\<rparr>"

definition demo_cascade_answer :: pydict where
  "demo_cascade_answer = [(''choices'', PList [PDict [(''message'', PDict [(''content'', PStr ''4'')]), (''finish_reason'', PStr ''stop'')]])]"

lemma demo_cascade_run: "fst (execute_plan demo_cascade_env demo_route_ctx demo_plan new_cascade_state) = Inr (Cascade_Answer ''gpt-mini'' demo_cascade_answer)"
  by code_simp

lemma cascade_serves_what_was_answered_witness:
  "\<exists>t \<in> set (cx_log (snd (execute_plan demo_cascade_env demo_route_ctx demo_plan new_cascade_state))).
     tl_model t = ''gpt-mini'' \<and> \<not> tl_judge t \<and> tl_reply t = Inr demo_cascade_answer"
proof -
  obtain st' where "execute_plan demo_cascade_env demo_route_ctx demo_plan new_cascade_state = (Inr (Cascade_Answer ''gpt-mini'' demo_cascade_answer), st')"
    using demo_cascade_run by (metis prod.collapse)
  from cascade_serves_what_was_answered[OF this] this show ?thesis by (simp add: new_cascade_state_def)
qed

end
