(* ===== verification/Pricing.thy ===== *)
theory Pricing
  imports Serve Routing "HOL-Library.Multiset"
begin

text \<open>
  What a request cost, \<open>middleware/g18_observability.py\<close>: the counts a response reports, the price of the served
  call and of every other call the request paid for, the baseline it is compared with, the empty answers that must
  not be cached, and the bounded labels and paths under which usage leaves the proxy. The counts a provider reports
  are whole numbers: a report with anything else raises, and what such a response leaves half written on the record
  is not modelled. Metrics and log lines are left out.
\<close>

section \<open>State\<close>

record priced_record = savings_record +
  pb_response_tokens :: int
  pb_effective :: rat

record price_env =
  pb_pricing :: pricing
  pb_fstr :: "pyval \<Rightarrow> string"
  pb_default_provider :: "pyexc + pyval"

record cache_report =
  cr_cached :: int
  cr_reasoning :: int
  cr_read :: "int option"
  cr_write :: "int option"
  cr_write_1h :: "int option"
  cr_read_mult :: rat
  cr_write_mult :: rat
  cr_write_1h_mult :: rat

section \<open>What a response reports\<close>

definition whole :: "pyval \<Rightarrow> pyexc + int" where
  "whole v = (case v of PInt n \<Rightarrow> Inr n | PBool b \<Rightarrow> Inr (if b then 1 else 0) | PNone \<Rightarrow> Inr 0 | _ \<Rightarrow> Inl TypeError)"

definition usage_block :: "pyval \<Rightarrow> pyexc + pydict" where
  "usage_block response =
     bind_res (py_get (py_or response (PDict [])) ''usage'' PNone) (\<lambda>u.
       case py_or u (PDict []) of PDict d \<Rightarrow> Inr d | _ \<Rightarrow> Inl AttributeError)"

text \<open>Each adapter reads its provider's own shape; what it raises counts as nothing known.\<close>

definition usage_for :: "adapter \<Rightarrow> pyval \<Rightarrow> usage_counts \<times> int option" where
  "usage_for a response =
     (case (if a = Registered ''anthropic'' then anthropic_usage response
            else if a = Registered ''gemini'' then map_sum id (\<lambda>u. (u, None)) (gemini_usage response)
            else map_sum id (\<lambda>u. (u, None)) (extract_usage response)) of
        Inr u \<Rightarrow> u
      | Inl _ \<Rightarrow> (\<lparr>u_cached = PInt 0, u_reasoning = PInt 0, u_cache_read = None, u_cache_write = None\<rparr>, None))"

definition usage_without_adapter :: "pydict \<Rightarrow> pyexc + usage_counts" where
  "usage_without_adapter usage =
     bind_res (py_get (py_or (dget_or usage ''prompt_tokens_details'' PNone) (PDict [])) ''cached_tokens'' PNone) (\<lambda>cached.
     bind_res (py_get (py_or (dget_or usage ''prompt_tokens_details'' PNone) (PDict [])) ''cache_write_tokens'' PNone) (\<lambda>written.
     bind_res (py_get (py_or (dget_or usage ''completion_tokens_details'' PNone) (PDict [])) ''reasoning_tokens'' (PInt 0)) (\<lambda>reasoning.
       Inr \<lparr>u_cached = cached, u_reasoning = py_or reasoning (dget_or usage ''thinking_tokens'' (PInt 0)),
            u_cache_read = py_int cached, u_cache_write = py_int written\<rparr>)))"

definition usage_counts_of :: "'m pipe_ctx_scheme \<Rightarrow> pyval \<Rightarrow> pyexc + usage_counts \<times> int option" where
  "usage_counts_of c response =
     (case px_adapter c of
        Some a \<Rightarrow> Inr (usage_for a response)
      | None \<Rightarrow> bind_res (usage_block response) (\<lambda>usage. map_sum id (\<lambda>u. (u, None)) (usage_without_adapter usage)))"

definition mult_or_one :: "adapter option \<Rightarrow> (adapter \<Rightarrow> pyval \<Rightarrow> pyexc + rat) \<Rightarrow> pyval \<Rightarrow> rat" where
  "mult_or_one ao hook config =
     (case ao of None \<Rightarrow> 1 | Some a \<Rightarrow> (case hook a (py_or config (PDict [])) of Inr x \<Rightarrow> x | Inl _ \<Rightarrow> 1))"

definition or_zero :: "int option \<Rightarrow> int" where
  "or_zero x = (case x of Some n \<Rightarrow> n | None \<Rightarrow> 0)"

definition resolve_cache_usage :: "'m pipe_ctx_scheme \<Rightarrow> pyval \<Rightarrow> pyexc + cache_report" where
  "resolve_cache_usage c response =
     bind_res (usage_block response) (\<lambda>_.
     bind_res (usage_counts_of c response) (\<lambda>(u, one_hour).
     bind_res (whole (u_cached u)) (\<lambda>cached.
     bind_res (whole (u_reasoning u)) (\<lambda>reasoning.
       Inr \<lparr>cr_cached = cached, cr_reasoning = reasoning, cr_read = u_cache_read u, cr_write = u_cache_write u,
            cr_write_1h = one_hour,
            cr_read_mult = (if cached = 0 then 1 else mult_or_one (px_adapter c) cache_read_multiplier (px_config c)),
            cr_write_mult = (if or_zero (u_cache_write u) = 0 then 1 else mult_or_one (px_adapter c) cache_write_multiplier (px_config c)),
            cr_write_1h_mult = (if or_zero one_hour = 0 then 1 else mult_or_one (px_adapter c) cache_write_1h_multiplier (px_config c))\<rparr>))))"

definition apply_cache_usage_to_savings :: "cache_report \<Rightarrow> 'm savings_record_scheme \<Rightarrow> 'm savings_record_scheme" where
  "apply_cache_usage_to_savings u s = s\<lparr>sr_cache_read := cr_read u, sr_cache_write := cr_write u\<rparr>"

definition cache_use_of :: "cache_report \<Rightarrow> cache_use" where
  "cache_use_of u =
     \<lparr>cu_read = cr_cached u, cu_write = or_zero (cr_write u), cu_write_1h = or_zero (cr_write_1h u), cu_read_mult = cr_read_mult u,
      cu_write_mult = cr_write_mult u, cu_write_1h_mult = cr_write_1h_mult u\<rparr>"

section \<open>Prices\<close>

definition price_calls :: "pricing \<Rightarrow> provider_call list \<Rightarrow> string \<Rightarrow> rat" where
  "price_calls pricing calls model =
     sum_list (map (\<lambda>pc. estimate_cost pricing (pc_prompt pc) (pc_completion pc) (if pc_model pc = [] then model else pc_model pc)) calls)"

text \<open>Every call but the last that is no side call, which is the served one.\<close>

definition other_calls :: "provider_call list \<Rightarrow> provider_call list" where
  "other_calls calls = butlast (filter (\<lambda>pc. \<not> pc_side pc) calls) @ filter pc_side calls"

text \<open>The request sent unchanged to the model it asked for, with a cache discount it would have had anyway.\<close>

definition cached_baseline :: "price_env \<Rightarrow> string \<Rightarrow> 'm pipe_ctx_scheme \<Rightarrow> cache_report \<Rightarrow> adapter \<Rightarrow> int \<Rightarrow> int \<Rightarrow> pyexc + rat" where
  "cached_baseline env requested c u a baseline completion =
     (let config = py_or (px_config c) (PDict []) in
      bind_res (cache_read_multiplier a config) (\<lambda>r.
      bind_res (cache_write_multiplier a config) (\<lambda>w.
      bind_res (cache_write_1h_multiplier a config) (\<lambda>h.
        Inr (estimate_cost_with_cache (pb_pricing env) requested baseline completion
               ((cache_use_of u)\<lparr>cu_read_mult := r, cu_write_mult := w, cu_write_1h_mult := h\<rparr>) 1 0 1)))))"

definition baseline_cost :: "price_env \<Rightarrow> string \<Rightarrow> 'm pipe_ctx_scheme \<Rightarrow> cache_report \<Rightarrow> int \<Rightarrow> int \<Rightarrow> rat" where
  "baseline_cost env requested c u baseline completion =
     (let plain = estimate_cost (pb_pricing env) baseline completion requested in
      if cr_cached u = 0 \<and> or_zero (cr_write u) = 0 then plain
      else (case py_get (py_or (px_config c) (PDict [])) ''providers'' (PList []) of
              Inl _ \<Rightarrow> plain
            | Inr ps \<Rightarrow>
                (case get_adapter (pb_default_provider env) requested ps of
                   Inl _ \<Rightarrow> plain
                 | Inr a \<Rightarrow>
                     if \<not> ao_needs_marker (ops_for (pb_fstr env) a) \<or> py_truthy (dget_or (px_params c) caller_cache_markers PNone)
                     then (case cached_baseline env requested c u a baseline completion of Inr x \<Rightarrow> x | Inl _ \<Rightarrow> plain)
                     else plain)))"

record priced =
  pr_prompt :: int
  pr_completion :: int
  pr_reasoning :: int
  pr_cache_read :: int
  pr_cache_write :: int
  pr_effective :: rat

definition g18_config :: "pyval \<Rightarrow> pydict" where
  "g18_config config =
     (case py_or (dict_at (dict_at (py_or config (PDict [])) ''groups'') ''G18_observability'') (PDict []) of PDict d \<Rightarrow> d | _ \<Rightarrow> [])"

definition served_cost :: "price_env \<Rightarrow> 'm pipe_ctx_scheme \<Rightarrow> pydict \<Rightarrow> cache_report \<Rightarrow> int \<Rightarrow> int \<Rightarrow> rat \<Rightarrow> pyexc + rat" where
  "served_cost env c cfg u prompt completion batch_discount =
     map_sum id (\<lambda>reasoning_rate.
         estimate_cost_with_cache (pb_pricing env) (px_routed c) prompt completion (cache_use_of u) batch_discount
           (cr_reasoning u) reasoning_rate)
       (py_num (dget_or cfg ''reasoning_rate_multiplier'' (PFloat 1)))"

definition batch_discount_of :: "'m pipe_ctx_scheme \<Rightarrow> pydict \<Rightarrow> pyexc + rat" where
  "batch_discount_of c cfg =
     (if py_truthy (dget_or (px_params c) ''_native_batch'' PNone) then py_num (dget_or cfg ''batch_discount_multiplier'' (PFloat 1))
      else Inr 1)"

definition add_other_calls :: "price_env \<Rightarrow> provider_call list \<Rightarrow> string \<Rightarrow> priced_record \<Rightarrow> priced_record" where
  "add_other_calls env calls model s =
     (if other_calls calls = [] then s
      else s\<lparr>sr_cost_actual := sr_cost_actual s + price_calls (pb_pricing env) (other_calls calls) model,
             sr_call_count := int (length calls), sr_call_prompt_tokens := sum_list (map pc_prompt calls)\<rparr>)"

definition split_cache_cost :: "price_env \<Rightarrow> string \<Rightarrow> int \<Rightarrow> cache_report \<Rightarrow> rat \<Rightarrow> priced_record \<Rightarrow> priced_record" where
  "split_cache_cost env model prompt u batch_discount s =
     (case cache_cost_split (pb_pricing env) model prompt (cache_use_of u) batch_discount of
        (read_usd, write_usd) \<Rightarrow>
          (let s1 = (if cr_read u = None then s else s\<lparr>sr_cost_cache_read := Some read_usd\<rparr>) in
           if cr_write u = None then s1 else s1\<lparr>sr_cost_cache_write := Some write_usd\<rparr>))"

text \<open>What goes on the record: the counts, the cost with every other call, its cache part and the baseline.\<close>

definition book_prices ::
  "price_env \<Rightarrow> string \<Rightarrow> route_ctx \<Rightarrow> cache_report \<Rightarrow> rat \<Rightarrow> rat \<Rightarrow> int option \<Rightarrow> int \<Rightarrow> int \<Rightarrow> priced_record \<Rightarrow> priced_record" where
  "book_prices env requested c u batch_discount cost provider_prompt prompt completion s =
     (let s1 = (apply_cache_usage_to_savings u s)\<lparr>sr_provider_prompt := provider_prompt, sr_final_sent := prompt,
                 pb_response_tokens := completion, sr_cost_actual := cost\<rparr>;
          s2 = split_cache_cost env (px_routed c) prompt u batch_discount (add_other_calls env (rt_calls c) (px_routed c) s1)
      in s2\<lparr>sr_cost_baseline := baseline_cost env requested c u (sr_baseline s) completion,
            pb_effective := py_round 2 (effective_token_cost prompt (cr_cached u) completion 1)\<rparr>)"

definition price_response ::
  "price_env \<Rightarrow> string \<Rightarrow> route_ctx \<Rightarrow> pyval \<Rightarrow> pydict \<Rightarrow> priced_record \<Rightarrow> pyexc + priced_record \<times> priced" where
  "price_response env requested c response cfg s =
     bind_res (usage_block response) (\<lambda>usage.
     bind_res (whole (dget_or usage ''prompt_tokens'' PNone)) (\<lambda>n.
     bind_res (whole (dget_or usage ''completion_tokens'' (PInt 0))) (\<lambda>completion.
     bind_res (resolve_cache_usage c response) (\<lambda>u.
     bind_res (batch_discount_of c cfg) (\<lambda>batch_discount.
       let provider_prompt = (if dget_or usage ''prompt_tokens'' PNone = PNone then None else Some n);
           prompt = (case provider_prompt of Some k \<Rightarrow> k | None \<Rightarrow> sr_proxy_optimised s) in
       bind_res (served_cost env c cfg u prompt completion batch_discount) (\<lambda>cost.
         Inr (book_prices env requested c u batch_discount cost provider_prompt prompt completion s,
              \<lparr>pr_prompt = prompt, pr_completion = completion, pr_reasoning = cr_reasoning u, pr_cache_read = cr_cached u,
               pr_cache_write = or_zero (cr_write u), pr_effective = effective_token_cost prompt (cr_cached u) completion 1\<rparr>)))))))"

text \<open>What the provider billed, not what a guard put in its place.\<close>

definition price_billed_call :: "price_env \<Rightarrow> string \<Rightarrow> route_ctx \<Rightarrow> pyval \<Rightarrow> priced_record \<Rightarrow> pyexc + priced_record" where
  "price_billed_call env requested c response s =
     map_sum id fst (price_response env requested c (py_or (px_provider_response c) response) (g18_config (px_config c)) s)"

text \<open>A request that leaves for the batch queue is priced by the calls it made so far.\<close>

definition price_calls_made_before_defer :: "price_env \<Rightarrow> route_ctx \<Rightarrow> priced_record \<Rightarrow> priced_record" where
  "price_calls_made_before_defer env c s =
     (if rt_calls c = [] then s else s\<lparr>sr_cost_actual := sr_cost_actual s + price_calls (pb_pricing env) (rt_calls c) (px_model c)\<rparr>)"

section \<open>Empty answers\<close>

record empty_completion =
  ec_finish_reason :: pyval
  ec_completion_tokens :: int
  ec_reasoning_tokens :: int
  ec_reason :: string

definition first_message :: "pyval \<Rightarrow> (pydict \<times> pydict) option" where
  "first_message response =
     (case response of
        PDict d \<Rightarrow>
          (case py_or (dget_or d ''choices'' PNone) (PList []) of
             PList (x # _) \<Rightarrow>
               (case py_or x (PDict []) of
                  PDict choice \<Rightarrow> (case py_or (dget_or choice ''message'' PNone) (PDict []) of PDict m \<Rightarrow> Some (choice, m) | _ \<Rightarrow> None)
                | _ \<Rightarrow> None)
           | _ \<Rightarrow> None)
      | _ \<Rightarrow> None)"

definition says_nothing :: "(pyval \<Rightarrow> string) \<Rightarrow> pydict \<Rightarrow> bool" where
  "says_nothing fstr m \<longleftrightarrow>
     \<not> py_truthy (dget_or m ''tool_calls'' PNone) \<and> \<not> py_truthy (dget_or m ''function_call'' PNone) \<and>
     (case dget_or m ''content'' PNone of PList xs \<Rightarrow> xs = [] | PNone \<Rightarrow> True | v \<Rightarrow> py_strip (py_str fstr v) = [])"

definition empty_reason :: "pyval \<Rightarrow> string" where
  "empty_reason fin = (if fin = PStr ''length'' then ''length'' else if py_truthy fin then ''stop_empty'' else ''empty'')"

definition reasoning_in :: "pydict \<Rightarrow> int option" where
  "reasoning_in usage =
     (case py_or (dget_or usage ''completion_tokens_details'' PNone) (PDict []) of
        PDict d \<Rightarrow> py_int (py_or (dget_or d ''reasoning_tokens'' PNone) (PInt 0)) | _ \<Rightarrow> None)"

text \<open>A billed answer that holds nothing is flagged and not cached; a refusal of a guard is not. It never raises.\<close>

definition detect_empty_completion :: "(pyval \<Rightarrow> string) \<Rightarrow> pyval \<Rightarrow> empty_completion option" where
  "detect_empty_completion fstr response =
     (case first_message response of
        None \<Rightarrow> None
      | Some (choice, m) \<Rightarrow>
          (let fin = py_or (dget_or choice ''finish_reason'' PNone) (PStr []) in
           if \<not> says_nothing fstr m \<or> fin = PStr ''content_filter'' then None
           else (case usage_block response of
                   Inl _ \<Rightarrow> None
                 | Inr usage \<Rightarrow>
                     (case (py_int (py_or (dget_or usage ''completion_tokens'' PNone) (PInt 0)), reasoning_in usage) of
                        (Some n, Some r) \<Rightarrow>
                          Some \<lparr>ec_finish_reason = fin, ec_completion_tokens = n, ec_reasoning_tokens = r, ec_reason = empty_reason fin\<rparr>
                      | _ \<Rightarrow> None))))"

section \<open>Labels and paths\<close>

definition caller_chosen_dimensions :: "string list" where
  "caller_chosen_dimensions = [''feature'']"

text \<open>\<open>None\<close> passes every value through.\<close>

definition allowed_label_values :: "(pyval \<Rightarrow> string) \<Rightarrow> pyval \<Rightarrow> string \<Rightarrow> string list option" where
  "allowed_label_values fstr config dimension =
     (let unset = (if dimension \<in> set caller_chosen_dimensions then Some [] else None) in
      case dget_or (g18_config config) ''label_values'' PNone of
        PDict lv \<Rightarrow>
          (case dget lv dimension of
             None \<Rightarrow> unset
           | Some v \<Rightarrow> if v = PStr ''*'' then None
                       else (case v of PList xs \<Rightarrow> Some (map (py_str fstr) xs) | _ \<Rightarrow> unset))
      | _ \<Rightarrow> unset)"

definition bounded_label :: "(pyval \<Rightarrow> string) \<Rightarrow> pyval \<Rightarrow> string list option \<Rightarrow> string" where
  "bounded_label fstr value allowed =
     (let v = (if value = PNone then ''default'' else py_str fstr value) in
      case allowed of None \<Rightarrow> v | Some vs \<Rightarrow> if v = ''default'' \<or> v \<in> set vs then v else ''other'')"

definition segment_char :: "char \<Rightarrow> bool" where
  "segment_char ch \<longleftrightarrow>
     (let n = (of_char ch :: nat) in
      (65 \<le> n \<and> n \<le> 90) \<or> (97 \<le> n \<and> n \<le> 122) \<or> (48 \<le> n \<and> n \<le> 57) \<or> n = 46 \<or> n = 95 \<or> n = 45)"

definition path_segment :: "(string \<Rightarrow> string) \<Rightarrow> string \<Rightarrow> string" where
  "path_segment hexdigest text_value =
     (let segment = strip_with (\<lambda>ch. ch = CHR ''.'') (take 128 (map (\<lambda>ch. if segment_char ch then ch else CHR ''_'') text_value))
      in if segment = [] then take 16 (hexdigest text_value) else segment)"

definition export_path :: "(string \<Rightarrow> string) \<Rightarrow> string \<Rightarrow> string \<Rightarrow> string \<Rightarrow> string \<Rightarrow> string" where
  "export_path hexdigest folder tenant workflow stamp =
     folder @ ''/'' @ path_segment hexdigest (if tenant = [] then ''default'' else tenant) @ ''/''
     @ path_segment hexdigest workflow @ ''/'' @ stamp @ ''.json''"

section \<open>Every call is priced once\<close>

lemma other_calls_rest:
  "mset (other_calls calls) + (case served_call calls of Some pc \<Rightarrow> {#pc#} | None \<Rightarrow> {#}) = mset calls"
proof -
  let ?main = "filter (\<lambda>pc. \<not> pc_side pc) calls"
  have s: "served_call calls = (if ?main = [] then None else Some (last ?main))"
  proof -
    have "find P xs = (case filter P xs of [] \<Rightarrow> None | x # _ \<Rightarrow> Some x)" for P :: "provider_call \<Rightarrow> bool" and xs
      by (induction xs) auto
    then show ?thesis by (cases ?main rule: rev_cases) (simp_all add: served_call_def rev_filter[symmetric])
  qed
  let ?served = "case served_call calls of Some pc \<Rightarrow> {#pc#} | None \<Rightarrow> {#}"
  have m: "mset (butlast ?main) + ?served = mset ?main" using s by (cases ?main rule: rev_cases) simp_all
  have "mset (other_calls calls) + ?served = (mset (butlast ?main) + ?served) + mset (filter pc_side calls)"
    by (simp add: other_calls_def ac_simps)
  also have "\<dots> = mset ?main + mset (filter pc_side calls)" by (simp only: m)
  also have "\<dots> = mset calls" by (induction calls) auto
  finally show ?thesis .
qed

lemma split_keeps [simp]:
  "sr_cost_actual (split_cache_cost env model prompt u b s) = sr_cost_actual s"
  "sr_baseline (split_cache_cost env model prompt u b s) = sr_baseline s"
  "sr_proxy_optimised (split_cache_cost env model prompt u b s) = sr_proxy_optimised s"
  by (simp_all add: split_cache_cost_def Let_def split: prod.split)

lemma other_calls_keep [simp]:
  "sr_baseline (add_other_calls env calls model s) = sr_baseline s"
  "sr_proxy_optimised (add_other_calls env calls model s) = sr_proxy_optimised s"
  "sr_cost_actual (add_other_calls env calls model s) = sr_cost_actual s + price_calls (pb_pricing env) (other_calls calls) model"
  by (simp_all add: add_other_calls_def price_calls_def)

lemma booked [simp]:
  "sr_cost_actual (book_prices env requested c u b cost pp prompt completion s) =
     cost + price_calls (pb_pricing env) (other_calls (rt_calls c)) (px_routed c)"
  "sr_baseline (book_prices env requested c u b cost pp prompt completion s) = sr_baseline s"
  "sr_proxy_optimised (book_prices env requested c u b cost pp prompt completion s) = sr_proxy_optimised s"
  by (simp_all add: book_prices_def Let_def apply_cache_usage_to_savings_def)

lemma booked_twice:
  "book_prices env requested c u b cost pp prompt completion (book_prices env requested c u b cost pp prompt completion s) =
   book_prices env requested c u b cost pp prompt completion s"
  by (cases s, cases "cr_read u"; cases "cr_write u"; cases "other_calls (rt_calls c) = []")
    (simp_all add: book_prices_def split_cache_cost_def add_other_calls_def apply_cache_usage_to_savings_def Let_def split: prod.split)

lemma priced_parts:
  assumes "price_response env requested c response cfg s = Inr (s', p)"
  obtains usage n u b pp cost where "usage_block response = Inr usage" "whole (dget_or usage ''prompt_tokens'' PNone) = Inr n"
    "whole (dget_or usage ''completion_tokens'' (PInt 0)) = Inr (pr_completion p)" "resolve_cache_usage c response = Inr u"
    "batch_discount_of c cfg = Inr b" "pp = (if dget_or usage ''prompt_tokens'' PNone = PNone then None else Some n)"
    "pr_prompt p = (case pp of Some k \<Rightarrow> k | None \<Rightarrow> sr_proxy_optimised s)"
    "served_cost env c cfg u (pr_prompt p) (pr_completion p) b = Inr cost"
    "s' = book_prices env requested c u b cost pp (pr_prompt p) (pr_completion p) s"
  using assms by (auto simp: price_response_def bind_res_Inr Let_def)

text \<open>
  C35. Every provider call a request paid for is priced exactly once: the cost on the record is the price of the served
  call, with its cache, reasoning and batch terms, plus the list price of the other calls, and served and other calls
  together are the booked calls, each as often as it was booked, side calls and tier probes included.
\<close>

theorem every_call_is_priced_once:
  assumes "price_response env requested c response cfg s = Inr (s', p)"
  shows "(\<exists>u b cost. resolve_cache_usage c response = Inr u \<and> batch_discount_of c cfg = Inr b \<and>
       served_cost env c cfg u (pr_prompt p) (pr_completion p) b = Inr cost \<and>
       sr_cost_actual s' = cost + price_calls (pb_pricing env) (other_calls (rt_calls c)) (px_routed c)) \<and>
     mset (other_calls (rt_calls c)) + (case served_call (rt_calls c) of Some pc \<Rightarrow> {#pc#} | None \<Rightarrow> {#}) = mset (rt_calls c)"
  using assms
proof (cases rule: priced_parts)
  case (1 usage n u b pp cost)
  from 1(4,5,8) show ?thesis unfolding 1(9) by (simp add: other_calls_rest)
qed

text \<open>
  C36. Pricing again gives the same figures: a request whose response stages failed after the pricing is priced once
  more, and neither the record nor the returned figures change: every figure is set from the response and the booked
  calls, and none is added to the old one.
\<close>

theorem pricing_again_changes_nothing:
  assumes "price_response env requested c response cfg s = Inr (s', p)"
  shows "price_response env requested c response cfg s' = Inr (s', p)"
  using assms
proof (cases rule: priced_parts)
  case (1 usage n u b pp cost)
  have k: "sr_proxy_optimised s' = sr_proxy_optimised s" unfolding 1(9) by simp
  have b: "book_prices env requested c u b cost pp (pr_prompt p) (pr_completion p) s' = s'" unfolding 1(9) by (rule booked_twice)
  show ?thesis
    using assms b 1(1-8)
    by (cases "dget_or usage ''prompt_tokens'' PNone = PNone") (auto simp: price_response_def Let_def k)
qed

section \<open>Empty answers, labels and paths\<close>

text \<open>
  The two guards against replaying an empty answer agree: a response that the detector flags, and so marks as not to
  be cached, is one that the cache refuses to store on its own account.
\<close>

lemma flagged_answers_are_not_stored:
  assumes "detect_empty_completion fstr response = Some e"
  shows "is_empty_answer fstr response"
proof -
  obtain choice m where f: "first_message response = Some (choice, m)" and n: "says_nothing fstr m"
    using assms by (auto simp: detect_empty_completion_def Let_def split: option.splits if_splits)
  obtain d x xs where d: "response = PDict d" "py_or (dget_or d ''choices'' PNone) (PList []) = PList (x # xs)"
    "py_or x (PDict []) = PDict choice" "py_or (dget_or choice ''message'' PNone) (PDict []) = PDict m"
    using f by (auto simp: first_message_def split: pyval.splits list.splits)
  have c: "dget_or d ''choices'' PNone = PList (x # xs)" using d(2) by (auto simp: py_or_def split: if_splits)
  show ?thesis
  proof (cases x)
    case (PDict item)
    show ?thesis
    proof (cases "dget_or item ''message'' PNone")
      case m': (PDict m')
      have "item \<noteq> []" using m' by (auto simp: dget_or_def)
      then have "item = choice" using d(3) PDict by (auto simp: py_or_def split: if_splits)
      then have "m' = m" using d(4) m' by (cases m') (auto simp: py_or_def)
      then show ?thesis using n d(1) c PDict m'
        by (cases "dget_or m ''content'' PNone") (auto simp: is_empty_answer_def says_nothing_def py_str_def)
    qed (use d(1) c PDict in \<open>simp_all add: is_empty_answer_def\<close>)
  qed (use d(1) c in \<open>simp_all add: is_empty_answer_def\<close>)
qed

lemma label_is_bounded: "bounded_label fstr v (Some vs) \<in> {''default'', ''other''} \<union> set vs"
  by (simp add: bounded_label_def Let_def)

lemma segment_id_char: "id_char ch \<Longrightarrow> segment_char ch"
  by (auto simp: id_char_def is_ascii_alnum_def is_ascii_alpha_def is_digit_def segment_char_def Let_def)

lemma id_char_no_dot: "id_char ch \<Longrightarrow> ch \<noteq> CHR ''.''"
  by (auto simp: id_char_def is_ascii_alnum_def is_ascii_alpha_def is_digit_def)

lemma segment_of_id: "safe_id t \<Longrightarrow> path_segment hexdigest t = t"
proof -
  assume t: "safe_id t"
  have "map (\<lambda>ch. if segment_char ch then ch else CHR ''_'') t = t"
    using t segment_id_char by (intro map_idI) (auto simp: safe_id_def)
  moreover have "strip_with (\<lambda>ch. ch = CHR ''.'') t = t"
    using t id_char_no_dot by (intro strip_with_id) (auto simp: safe_id_def)
  ultimately show ?thesis using t by (simp add: path_segment_def Let_def safe_id_def max_tenant_id_len_def)
qed

lemma segment_never_climbs:
  assumes "\<And>x. hexdigest x \<noteq> [] \<and> (\<forall>ch \<in> set (hexdigest x). is_ascii_alnum ch)"
  shows "path_segment hexdigest x \<noteq> [] \<and> CHR ''/'' \<notin> set (path_segment hexdigest x) \<and>
     hd (path_segment hexdigest x) \<noteq> CHR ''.''"
proof (cases "strip_with (\<lambda>ch. ch = CHR ''.'') (take 128 (map (\<lambda>ch. if segment_char ch then ch else CHR ''_'') x)) = []")
  case True
  obtain ch cs where h: "hexdigest x = ch # cs" using assms[of x] by (cases "hexdigest x") auto
  have "\<forall>d \<in> set (take 16 (hexdigest x)). is_ascii_alnum d" using assms[of x] by (meson in_set_takeD)
  moreover have "path_segment hexdigest x = take 16 (hexdigest x)" using True by (simp add: path_segment_def)
  ultimately show ?thesis using h by (auto simp: is_ascii_alnum_def is_ascii_alpha_def is_digit_def)
next
  case False
  let ?s = "strip_with (\<lambda>ch. ch = CHR ''.'') (take 128 (map (\<lambda>ch. if segment_char ch then ch else CHR ''_'') x))"
  have s: "path_segment hexdigest x = ?s" using False by (simp add: path_segment_def)
  have "CHR ''/'' \<notin> set ?s"
  proof
    assume "CHR ''/'' \<in> set ?s"
    then have "CHR ''/'' \<in> set (map (\<lambda>ch. if segment_char ch then ch else CHR ''_'') x)"
      using set_strip_with in_set_takeD by (metis subsetD)
    then show False by (auto simp: segment_char_def Let_def split: if_splits)
  qed
  then show ?thesis using False hd_strip_with[OF False] by (simp add: s)
qed

text \<open>
  C37. Exported usage stays in the tenant's partition: under a sanitised tenant id the path of an export is the folder,
  that tenant, one segment and the file, whatever workflow id the caller sent; the segment is not empty, holds no
  separator and is neither of the two dot names.
\<close>

theorem usage_is_filed_under_its_tenant:
  assumes "safe_id tenant" and "\<And>x. hexdigest x \<noteq> [] \<and> (\<forall>ch \<in> set (hexdigest x). is_ascii_alnum ch)"
  shows "\<exists>segment. export_path hexdigest folder tenant workflow stamp =
       folder @ ''/'' @ tenant @ ''/'' @ segment @ ''/'' @ stamp @ ''.json'' \<and>
     segment \<noteq> [] \<and> CHR ''/'' \<notin> set segment \<and> segment \<noteq> ''.'' \<and> segment \<noteq> ''..''"
proof -
  have "tenant \<noteq> []" using assms(1) by (simp add: safe_id_def)
  moreover have "path_segment hexdigest workflow \<noteq> ''.'' \<and> path_segment hexdigest workflow \<noteq> ''..''"
    using segment_never_climbs[where hexdigest = hexdigest and x = workflow, OF assms(2)] by auto
  ultimately show ?thesis using segment_never_climbs[where hexdigest = hexdigest and x = workflow, OF assms(2)]
    by (auto simp: export_path_def segment_of_id[OF assms(1)])
qed

text \<open>
  Resolving the cache usage is documented as never raising; without an adapter a usage block whose details are no
  mapping raises.
\<close>

lemma odd_details_raise:
  "px_adapter c = None \<Longrightarrow>
   resolve_cache_usage c (PDict [(''usage'', PDict [(''prompt_tokens_details'', PList [PInt 1])])]) = Inl AttributeError"
  by (simp add: resolve_cache_usage_def usage_block_def usage_counts_of_def usage_without_adapter_def dget_or_def py_or_def)

section \<open>A sample request\<close>

definition demo_price_env :: price_env where
  "demo_price_env = \<lparr>pb_pricing = rv_pricing demo_route_env, pb_fstr = rv_fstr demo_route_env, pb_default_provider = Inr (PStr ''openai'')\<rparr>"

definition demo_probe :: provider_call where
  "demo_probe = \<lparr>pc_model = ''gpt-mini'', pc_prompt = 1000, pc_completion = 1000, pc_reasoning = 0, pc_cached = 0, pc_side = False\<rparr>"

definition demo_served :: provider_call where
  "demo_served = \<lparr>pc_model = ''gpt-4o'', pc_prompt = 1000, pc_completion = 2000, pc_reasoning = 0, pc_cached = 0, pc_side = False\<rparr>"

definition demo_billed :: route_ctx where
  "demo_billed = demo_route_ctx\<lparr>px_routed := ''gpt-4o'', px_adapter := None, rt_calls := [demo_probe, demo_served]\<rparr>"

definition demo_usage :: pyval where
  "demo_usage = PDict [(''usage'', PDict [(''prompt_tokens'', PInt 1000), (''completion_tokens'', PInt 2000)])]"

definition demo_priced_record :: priced_record where
  "demo_priced_record = savings_record.extend sample_record \<lparr>pb_response_tokens = 0, pb_effective = 0\<rparr>"

definition demo_figures :: pydict where
  "demo_figures = [(''prompt_tokens'', PInt 1000), (''completion_tokens'', PInt 2000)]"

definition demo_report :: cache_report where
  "demo_report = \<lparr>cr_cached = 0, cr_reasoning = 0, cr_read = None, cr_write = None, cr_write_1h = None, cr_read_mult = 1,
     cr_write_mult = 1, cr_write_1h_mult = 1\<rparr>"

lemma demo_usage_block: "usage_block demo_usage = Inr demo_figures" by code_simp

lemma demo_whole: "whole (dget_or demo_figures ''prompt_tokens'' PNone) = Inr 1000"
    "whole (dget_or demo_figures ''completion_tokens'' (PInt 0)) = Inr 2000" "dget_or demo_figures ''prompt_tokens'' PNone \<noteq> PNone"
  by code_simp+

lemma demo_unreported: "usage_counts_of demo_billed demo_usage =
    Inr (\<lparr>u_cached = PNone, u_reasoning = PInt 0, u_cache_read = None, u_cache_write = None\<rparr>, None)"
  by code_simp

lemma demo_resolved: "resolve_cache_usage demo_billed demo_usage = Inr demo_report"
  by (simp add: resolve_cache_usage_def demo_usage_block demo_unreported demo_report_def whole_def or_zero_def)

lemma demo_batch: "batch_discount_of demo_billed [] = Inr 1"
  by code_simp

definition demo_cost :: rat where
  "demo_cost = estimate_cost_with_cache (pb_pricing demo_price_env) ''gpt-4o'' 1000 2000 (cache_use_of demo_report) 1 0 1"

lemma demo_served_cost: "served_cost demo_price_env demo_billed [] demo_report 1000 2000 1 = Inr demo_cost"
  by (simp add: served_cost_def demo_cost_def demo_report_def demo_billed_def dget_or_def py_num_def)

definition demo_book :: priced_record where
  "demo_book = book_prices demo_price_env ''gpt-4o'' demo_billed demo_report 1 demo_cost (Some 1000) 1000 2000 demo_priced_record"

lemma demo_priced: "\<exists>p. price_response demo_price_env ''gpt-4o'' demo_billed demo_usage [] demo_priced_record = Inr (demo_book, p)"
  by (simp add: price_response_def demo_usage_block demo_whole demo_resolved demo_batch demo_served_cost demo_book_def Let_def)

lemma every_call_is_priced_once_witness:
  "sr_cost_actual demo_book = demo_cost + price_calls (pb_pricing demo_price_env) [demo_probe] ''gpt-4o''"
proof -
  obtain p where p: "price_response demo_price_env ''gpt-4o'' demo_billed demo_usage [] demo_priced_record = Inr (demo_book, p)"
    using demo_priced by auto
  have f: "pr_prompt p = 1000" "pr_completion p = 2000"
    using p by (auto simp: price_response_def demo_usage_block demo_whole demo_resolved demo_batch demo_served_cost Let_def)
  have b: "rt_calls demo_billed = [demo_probe, demo_served]" "px_routed demo_billed = ''gpt-4o''" "other_calls [demo_probe, demo_served] = [demo_probe]"
    by (simp_all add: demo_billed_def other_calls_def demo_probe_def demo_served_def)
  show ?thesis using every_call_is_priced_once[OF p] by (auto simp: demo_resolved demo_batch demo_served_cost f b)
qed

lemma pricing_again_changes_nothing_witness:
  "\<exists>p. price_response demo_price_env ''gpt-4o'' demo_billed demo_usage [] demo_book = Inr (demo_book, p)"
  using demo_priced pricing_again_changes_nothing by blast

definition demo_empty :: pyval where
  "demo_empty = PDict [(''choices'', PList [PDict [(''message'', PDict [(''content'', PStr '' '')]), (''finish_reason'', PStr ''length'')]]),
     (''usage'', PDict [(''completion_tokens'', PInt 1024)])]"

lemma flagged_answers_are_not_stored_witness:
  "detect_empty_completion (\<lambda>_. []) demo_empty =
     Some \<lparr>ec_finish_reason = PStr ''length'', ec_completion_tokens = 1024, ec_reasoning_tokens = 0, ec_reason = ''length''\<rparr> \<and>
   is_empty_answer (\<lambda>_. []) demo_empty"
proof -
  have f: "detect_empty_completion (\<lambda>_. []) demo_empty =
     Some \<lparr>ec_finish_reason = PStr ''length'', ec_completion_tokens = 1024, ec_reasoning_tokens = 0, ec_reason = ''length''\<rparr>"
    by code_simp
  from flagged_answers_are_not_stored[OF f] f show ?thesis by simp
qed

lemma usage_is_filed_under_its_tenant_witness:
  "\<exists>segment. export_path (\<lambda>_. ''0a'') ''usage'' ''acme'' ''../globex/x'' ''t'' = ''usage/acme/'' @ segment @ ''/t.json'' \<and>
     CHR ''/'' \<notin> set segment"
proof -
  have "safe_id ''acme''" by code_simp
  moreover have "''0a'' \<noteq> [] \<and> (\<forall>ch \<in> set ''0a''. is_ascii_alnum ch)" by code_simp
  ultimately show ?thesis
    using usage_is_filed_under_its_tenant[of "''acme''" "\<lambda>_. ''0a''" "''usage''" "''../globex/x''" "''t''"] by auto
qed

end
