(* ===== verification/History.thy ===== *)
theory History
  imports Serve Provider_Calls
begin

text \<open>
  \<open>middleware/history_utils.py\<close>: where a conversation may be cut without parting a tool result from the call it
  answers, and the summary of an old span by a cheap model. A call is a \<open>call_request\<close> of Serve, and what the
  summariser answers is a function of the replies so far and the request. Arguments: the tokenizer, \<open>str\<close> of a value
  that is no text, the tenant's keys, the clock. Logs and the time spent are left out.
\<close>

section \<open>Where to cut\<close>

definition message_role :: "pydict \<Rightarrow> pyval" where
  "message_role m = dget_or m ''role'' PNone"

definition is_tool :: "pydict \<Rightarrow> bool" where
  "is_tool m \<longleftrightarrow> message_role m = PStr ''tool''"

fun back_over_tools :: "pydict list \<Rightarrow> nat \<Rightarrow> nat" where
  "back_over_tools turns 0 = 0"
| "back_over_tools turns (Suc n) =
     (if Suc n < length turns \<and> is_tool (turns ! Suc n) then back_over_tools turns n else Suc n)"

definition safe_window_split :: "pydict list \<Rightarrow> int \<Rightarrow> nat" where
  "safe_window_split turns keep =
     (if keep \<le> 0 then 0 else back_over_tools turns (length turns - nat keep))"

section \<open>What the summariser is shown\<close>

definition shown_part :: "(pyval \<Rightarrow> string) \<Rightarrow> pyval \<Rightarrow> string" where
  "shown_part fstr part =
     (case part of
        PDict p \<Rightarrow> if dget_or p ''type'' PNone = PStr ''text'' then py_str fstr (dget_or p ''text'' (PStr []))
                   else ''['' @ py_str fstr (dget_or p ''type'' (PStr ''attachment'')) @ '']''
      | _ \<Rightarrow> py_str fstr part)"

definition content_to_text :: "(pyval \<Rightarrow> string) \<Rightarrow> pyval \<Rightarrow> string" where
  "content_to_text fstr content =
     (case content of
        PNone \<Rightarrow> []
      | PStr s \<Rightarrow> s
      | PList parts \<Rightarrow> joined '' '' (filter (\<lambda>p. p \<noteq> []) (map (shown_part fstr) parts))
      | v \<Rightarrow> fstr v)"

text \<open>The oldest turns go first; the last one always stays.\<close>

fun drop_oldest :: "int \<Rightarrow> int \<Rightarrow> (int \<times> pydict) list \<Rightarrow> pydict list" where
  "drop_oldest limit weight (x # y # rest) =
     (if limit < weight then drop_oldest limit (weight - fst x) (y # rest) else map snd (x # y # rest))"
| "drop_oldest limit weight xs = map snd xs"

definition turn_cost :: "(pyval \<Rightarrow> string) \<Rightarrow> (string \<Rightarrow> nat) option \<Rightarrow> pydict \<Rightarrow> pyexc + int" where
  "turn_cost fstr enc m =
     map_sum id (\<lambda>n. n + 4) (estimate_tokens enc (PStr (content_to_text fstr (dget_or m ''content'' PNone))))"

definition fit_turns_to_budget :: "(pyval \<Rightarrow> string) \<Rightarrow> (string \<Rightarrow> nat) option \<Rightarrow> int \<Rightarrow> pydict list \<Rightarrow> pydict list" where
  "fit_turns_to_budget fstr enc limit turns =
     (if limit \<le> 0 \<or> turns = [] then turns
      else (case all_results (turn_cost fstr enc) turns of
              Inl _ \<Rightarrow> turns
            | Inr costs \<Rightarrow> drop_oldest limit (sum_list costs) (zip costs turns)))"

definition shown_turns :: "(pyval \<Rightarrow> string) \<Rightarrow> pydict list \<Rightarrow> string" where
  "shown_turns fstr turns =
     joined [CHR 0x0A] (map (\<lambda>m. py_str fstr (dget_or m ''role'' (PStr [])) @ '': ''
                               @ content_to_text fstr (dget_or m ''content'' PNone)) turns)"

section \<open>The summary of a span\<close>

record summary_env =
  su_fstr :: "pyval \<Rightarrow> string"
  su_enc :: "(string \<Rightarrow> nat) option"
  su_default_provider :: "pyexc + pyval"
  su_key :: "string \<Rightarrow> string \<Rightarrow> key_answer"
  su_reply :: "(perr + pydict) list \<Rightarrow> call_request \<Rightarrow> perr + pydict"
  su_now :: rat

record summary_state =
  ss_log :: "(call_request \<times> (perr + pydict)) list"
  ss_calls :: "provider_call list"
  ss_breakers :: rstore

definition summary_unavailable :: string where "summary_unavailable = ''[summary unavailable]''"

definition summary_prompt :: "string \<Rightarrow> string" where
  "summary_prompt shown =
     ''Summarise this conversation history in 3-4 compact sentences. Preserve key facts, decisions, and context:''
     @ [CHR 0x0A, CHR 0x0A] @ shown"

text \<open>The text of the answer; \<open>None\<close> where reading it raises.\<close>

definition summary_text :: "(pyval \<Rightarrow> string) \<Rightarrow> pydict \<Rightarrow> string option" where
  "summary_text fstr reply =
     (case dget reply ''choices'' of
        Some (PList (PDict ch # _)) \<Rightarrow>
          (case dget ch ''message'' of
             Some (PDict m) \<Rightarrow> map_option (\<lambda>v. py_str fstr (py_or v (PStr []))) (dget m ''content'')
           | _ \<Rightarrow> None)
      | _ \<Rightarrow> None)"

text \<open>The key of the tenant: \<open>None\<close> where the summary is given up for want of one.\<close>

definition summary_key :: "summary_env \<Rightarrow> string \<Rightarrow> adapter \<Rightarrow> string \<Rightarrow> pyval option" where
  "summary_key env tenant a provider =
     (case su_key env provider tenant of
        Provider_Key k \<Rightarrow> if \<not> py_truthy k \<and> ao_requires_api_key (ops_for (su_fstr env) a) then None else Some k
      | _ \<Rightarrow> None)"

definition configured_providers :: "pyval \<Rightarrow> pyexc + pyval" where
  "configured_providers config = (case config of PDict d \<Rightarrow> Inr (dget_or d ''providers'' (PList [])) | _ \<Rightarrow> Inl AttributeError)"

definition summary_wire :: "summary_env \<Rightarrow> pyval \<Rightarrow> string \<Rightarrow> adapter \<Rightarrow> pyval \<Rightarrow> pyexc + string \<times> pydict" where
  "summary_wire env providers model a key =
     bind_res (match_entry (su_default_provider env) model providers) (\<lambda>r.
       call_of (su_fstr env) a model (case r of Some (PDict e) \<Rightarrow> e | _ \<Rightarrow> []) key)"

definition summary_timeout :: "summary_env \<Rightarrow> pyval \<Rightarrow> string \<Rightarrow> pyexc + rat" where
  "summary_timeout env config model =
     (let cfg = (case py_or config (PDict []) of PDict d \<Rightarrow> d | _ \<Rightarrow> []) in
      bind_res (match_entry (su_default_provider env) model (py_or (dget_or cfg ''providers'' (PList [])) (PList []))) (\<lambda>r.
        let entry = (case r of Some (PDict e) \<Rightarrow> e | _ \<Rightarrow> []) in
        map_sum id rc_request_timeout_seconds (resolve cfg (case dget_or entry ''name'' (PStr []) of PStr n \<Rightarrow> n | _ \<Rightarrow> []))))"

definition summary_request ::
  "summary_env \<Rightarrow> string \<Rightarrow> string \<Rightarrow> pyval \<Rightarrow> string \<times> pydict \<Rightarrow> pydict list \<Rightarrow> int \<Rightarrow> rat \<Rightarrow> call_request" where
  "summary_request env tenant provider key wire selected max_tokens limit =
     \<lparr>cr_provider = provider, cr_tenant = tenant, cr_key = key, cr_model = fst wire, cr_kwargs = snd wire,
      cr_params = [(''max_tokens'', PInt max_tokens)],
      cr_messages = PList [PDict [(''role'', PStr ''user''),
                                  (''content'', PStr (summary_prompt (shown_turns (su_fstr env) selected)))]],
      cr_timeout = limit, cr_retries = None\<rparr>"

definition note_summary :: "summary_env \<Rightarrow> pyval \<Rightarrow> string \<Rightarrow> perr option \<Rightarrow> 's summary_state_scheme \<Rightarrow> 's summary_state_scheme" where
  "note_summary env config provider exc st =
     st\<lparr>ss_breakers := note_provider_outcome (su_now env) (ss_breakers st) provider exc
          (case config of PDict d \<Rightarrow> d | _ \<Rightarrow> [])\<rparr>"

text \<open>The paid call. What fails before it is sent is fed to the breaker as well, as a failure of the request.\<close>

definition ask_summary ::
  "summary_env \<Rightarrow> string \<Rightarrow> pyval \<Rightarrow> string \<Rightarrow> adapter \<Rightarrow> string \<Rightarrow> pyval \<Rightarrow> string \<times> pydict \<Rightarrow> pydict list \<Rightarrow> int
   \<Rightarrow> 's summary_state_scheme \<Rightarrow> 's summary_state_scheme \<times> string" where
  "ask_summary env tenant config model a provider key wire selected max_tokens st =
     (case summary_timeout env config model of
        Inl e \<Rightarrow> (note_summary env config provider (Some (local_error (exc_name e))) st, summary_unavailable)
      | Inr limit \<Rightarrow>
          (let rq = summary_request env tenant provider key wire selected max_tokens limit;
               reply = su_reply env (map snd (ss_log st)) rq;
               st1 = note_summary env config provider (case reply of Inl e \<Rightarrow> Some e | Inr _ \<Rightarrow> None)
                       (st\<lparr>ss_log := ss_log st @ [(rq, reply)]\<rparr>)
           in case reply of
                Inl _ \<Rightarrow> (st1, summary_unavailable)
              | Inr d \<Rightarrow>
                  (st1\<lparr>ss_calls := record_provider_call model (PDict d) True (ss_calls st1)\<rparr>,
                   case summary_text (su_fstr env) d of Some s \<Rightarrow> s | None \<Rightarrow> summary_unavailable)))"

definition summarise_turns ::
  "summary_env \<Rightarrow> string \<Rightarrow> pyval \<Rightarrow> pydict list \<Rightarrow> string \<Rightarrow> int \<Rightarrow> int \<Rightarrow> int
   \<Rightarrow> 's summary_state_scheme \<Rightarrow> 's summary_state_scheme \<times> string" where
  "summarise_turns env tenant config turns model max_turns max_tokens max_input_tokens st =
     (if turns = [] then (st, [])
      else (case bind_res (lift_py (configured_providers config)) (\<lambda>ps. map_sum id (\<lambda>a. (ps, a)) (get_adapter (su_default_provider env) model ps)) of
              Inl _ \<Rightarrow> (st, summary_unavailable)
            | Inr (providers, a) \<Rightarrow>
                (let provider = py_str (su_fstr env) (adapter_name a) in
                 case summary_key env tenant a provider of
                   None \<Rightarrow> (st, summary_unavailable)
                 | Some key \<Rightarrow>
                     (case summary_wire env providers model a key of
                        Inl _ \<Rightarrow> (st, summary_unavailable)
                      | Inr wire \<Rightarrow>
                          ask_summary env tenant config model a provider key wire
                            (fit_turns_to_budget (su_fstr env) (su_enc env) max_input_tokens (take (nat (max 1 max_turns)) turns))
                            max_tokens st))))"

section \<open>Lemmas on the cut\<close>

lemma back_over_tools_le: "back_over_tools turns n \<le> n"
  by (induction turns n rule: back_over_tools.induct) auto

lemma back_over_tools_stops:
  "0 < back_over_tools turns n \<Longrightarrow> back_over_tools turns n < length turns \<Longrightarrow>
   \<not> is_tool (turns ! back_over_tools turns n)"
  by (induction turns n rule: back_over_tools.induct) (auto split: if_splits)

text \<open>What the cut keeps: at least the turns asked for, and a tail that does not open with a tool result.\<close>

lemma safe_split_keeps:
  assumes "0 < safe_window_split turns keep"
  shows "0 < keep" and "safe_window_split turns keep + nat keep \<le> length turns"
    and "\<not> is_tool (turns ! safe_window_split turns keep)"
proof -
  show k: "0 < keep" using assms by (simp add: safe_window_split_def split: if_splits)
  have s: "safe_window_split turns keep = back_over_tools turns (length turns - nat keep)"
    using k by (simp add: safe_window_split_def)
  have le: "safe_window_split turns keep \<le> length turns - nat keep" using back_over_tools_le s by metis
  show "safe_window_split turns keep + nat keep \<le> length turns" using assms le by linarith
  then have "safe_window_split turns keep < length turns" using k by simp
  then show "\<not> is_tool (turns ! safe_window_split turns keep)" using back_over_tools_stops assms s by metis
qed

lemma drop_oldest_suffix: "\<exists>k. drop_oldest limit weight xs = drop k (map snd xs)"
proof (induction limit weight xs rule: drop_oldest.induct)
  case (1 limit weight x y rest)
  show ?case
  proof (cases "limit < weight")
    case True
    then obtain k where "drop_oldest limit (weight - fst x) (y # rest) = drop k (map snd (y # rest))" using 1 by blast
    then show ?thesis using True by (intro exI[of _ "Suc k"]) simp
  qed (auto intro: exI[of _ 0])
qed (auto intro: exI[of _ 0])

end
