(* ===== verification/Context_Budget.thy ===== *)
theory Context_Budget
  imports History Config_Overlay
begin

text \<open>
  \<open>middleware/g26_context_budget.py\<close>: the stage that keeps a long conversation inside the context window. When
  the prompt crosses a share of the usable window, the old span is pruned, compressed, replaced by a cached or
  fresh summary and, where allowed, dropped, until it is under the target; system messages and the recent turns
  are left alone. Tables of the configuration are mappings. Arguments beside those of History: the count of the tool
  definitions, the prose compressor (regular expressions), whether a text is JSON, the canonical JSON of a message,
  the digest of a span, and whether Redis is up. The text of the savings step, the metric, the trace and the
  warning are left out; the mark of a cut tool result is written in ASCII.
\<close>

section \<open>State\<close>

record budget_ctx = pipe_ctx +
  bc_messages :: "pydict list"
  bc_steps :: "(string list \<times> int \<times> int) list"

record budget_env = summary_env +
  be_tools_tokens :: "pyval \<Rightarrow> pyexc + int"
  be_compress :: "string \<Rightarrow> string"
  be_is_json :: "string \<Rightarrow> bool"
  be_dump :: "pydict \<Rightarrow> string"
  be_digest :: "pydict list \<Rightarrow> string"
  be_redis_up :: bool

record budget_state = summary_state +
  bs_redis :: "(string \<times> rat \<times> string) list"
  bs_local :: "(string \<times> rat \<times> string) list"

section \<open>The budget\<close>

text \<open>\<open>int(cfg.get(key, d) or e)\<close> and \<open>float(cfg.get(key, d) or d)\<close>.\<close>

definition int_knob :: "pydict \<Rightarrow> string \<Rightarrow> int \<Rightarrow> int \<Rightarrow> pyexc + int" where
  "int_knob cfg key d e =
     (case py_int (py_or (dget_or cfg key (PInt d)) (PInt e)) of Some n \<Rightarrow> Inr n | None \<Rightarrow> Inl ValueError)"

definition float_knob :: "pydict \<Rightarrow> string \<Rightarrow> rat \<Rightarrow> pyexc + rat" where
  "float_knob cfg key d =
     (case py_float (py_or (dget_or cfg key (PFloat d)) (PFloat d)) of Some r \<Rightarrow> Inr r | None \<Rightarrow> Inl ValueError)"

definition int_value :: "pyval \<Rightarrow> pyexc + int" where
  "int_value v = (case py_int v of Some n \<Rightarrow> Inr n | None \<Rightarrow> Inl ValueError)"

fun longest_prefix :: "string \<Rightarrow> string option \<Rightarrow> pydict \<Rightarrow> string option" where
  "longest_prefix model best [] = best"
| "longest_prefix model best ((p, v) # rest) =
     longest_prefix model
       (if prefix p model \<and> (case best of None \<Rightarrow> True | Some b \<Rightarrow> length b < length p) then Some p else best) rest"

definition get_model_context_window :: "string \<Rightarrow> pydict \<Rightarrow> pyexc + int" where
  "get_model_context_window model cfg =
     bind_res (int_knob cfg ''default_context_window'' 128000 128000) (\<lambda>dflt.
       if model = [] then Inr dflt
       else (case py_or (dget_or cfg ''model_context_window'' (PDict [])) (PDict []) of
               PDict windows \<Rightarrow>
                 (case dget windows model of
                    Some v \<Rightarrow> int_value v
                  | None \<Rightarrow>
                      (case longest_prefix model None windows of
                         Some p \<Rightarrow> int_value (dget_or windows p PNone)
                       | None \<Rightarrow> Inr dflt))
             | _ \<Rightarrow> Inl TypeError))"

text \<open>The cap G11 will ask for: an exact entry, else the first prefix in the order of the table.\<close>

definition get_model_max_tokens :: "string \<Rightarrow> pydict \<Rightarrow> pyexc + pyval" where
  "get_model_max_tokens model cfg =
     (let dflt = dget_or cfg ''default_model_max_tokens'' (PInt 4096) in
      if model = [] then Inr dflt
      else (case py_or (dget_or cfg ''model_max_tokens'' PNone) (PDict []) of
              PDict limits \<Rightarrow>
                (case dget limits model of
                   Some v \<Rightarrow> Inr v
                 | None \<Rightarrow> (case find (\<lambda>kv. prefix (fst kv) model) limits of Some kv \<Rightarrow> Inr (snd kv) | None \<Rightarrow> Inr dflt))
            | _ \<Rightarrow> Inl TypeError))"

definition called_model :: "'m pipe_ctx_scheme \<Rightarrow> string" where
  "called_model c = (if px_routed c \<noteq> [] then px_routed c else px_model c)"

text \<open>What the output stage will reserve, where it is on; any failure leaves the configured reserve.\<close>

definition g11_reserve :: "'m pipe_ctx_scheme \<Rightarrow> int option" where
  "g11_reserve c =
     (case bind_res (py_get (px_config c) ''groups'' (PDict [])) (\<lambda>g.
             bind_res (py_get (py_or g (PDict [])) ''G11_output'' (PDict [])) (\<lambda>b.
               case py_or b (PDict []) of
                 PDict g11 \<Rightarrow>
                   if py_truthy (dget_or g11 ''enabled'' (PBool False))
                   then bind_res (get_model_max_tokens (called_model c) g11) (\<lambda>v. map_sum id Some (int_value v))
                   else Inr None
               | _ \<Rightarrow> Inl AttributeError)) of
        Inr r \<Rightarrow> r
      | Inl _ \<Rightarrow> None)"

definition output_reservation :: "'m pipe_ctx_scheme \<Rightarrow> pydict \<Rightarrow> pyexc + int" where
  "output_reservation c cfg =
     (case dget_or (px_params c) ''max_tokens'' PNone of
        PBool True \<Rightarrow> Inr 1
      | v \<Rightarrow>
          (case (case v of PInt n \<Rightarrow> if 0 < n then Some n else None | _ \<Rightarrow> None) of
             Some n \<Rightarrow> Inr n
           | None \<Rightarrow>
               map_sum id (\<lambda>reserve. max 0 (case g11_reserve c of Some n \<Rightarrow> max reserve n | None \<Rightarrow> reserve))
                 (int_knob cfg ''reserve_output_tokens'' 1024 0)))"

definition usable_window :: "'m pipe_ctx_scheme \<Rightarrow> pydict \<Rightarrow> pyexc + int" where
  "usable_window c cfg =
     bind_res (get_model_context_window (called_model c) cfg) (\<lambda>size.
       map_sum id (\<lambda>reserve. max 0 (size - reserve)) (output_reservation c cfg))"

definition resolve_thresholds :: "pydict \<Rightarrow> pyexc + rat \<times> rat" where
  "resolve_thresholds cfg =
     bind_res (float_knob cfg ''compact_at_pct'' 85) (\<lambda>a.
     bind_res (float_knob cfg ''target_pct'' 60) (\<lambda>target.
       let compact_at = min 99 (max 10 a) in
       Inr (compact_at, max 1 (if compact_at \<le> target then max 1 (compact_at - 10) else target))))"

section \<open>The cache of summaries\<close>

definition summary_cache_key :: "'m pipe_ctx_scheme \<Rightarrow> string \<Rightarrow> string \<Rightarrow> string" where
  "summary_cache_key c model fingerprint = px_redis_prefix c @ ''g26:summary:'' @ model @ '':'' @ fingerprint"

definition local_cache_get :: "rat \<Rightarrow> string \<Rightarrow> budget_state \<Rightarrow> budget_state \<times> string option" where
  "local_cache_get now key st =
     (case dget (bs_local st) key of
        None \<Rightarrow> (st, None)
      | Some (expires, v) \<Rightarrow> if expires \<le> now then (st\<lparr>bs_local := dpop key (bs_local st)\<rparr>, None) else (st, Some v))"

definition local_cache_max :: nat where "local_cache_max = 512"

text \<open>The entry that expires first, the oldest of them where several do.\<close>

definition drop_soonest :: "(string \<times> rat \<times> string) list \<Rightarrow> (string \<times> rat \<times> string) list" where
  "drop_soonest xs =
     (case find (\<lambda>kv. list_all (\<lambda>kw. fst (snd kv) \<le> fst (snd kw)) xs) xs of Some kv \<Rightarrow> dpop (fst kv) xs | None \<Rightarrow> xs)"

definition local_cache_put :: "rat \<Rightarrow> string \<Rightarrow> string \<Rightarrow> int \<Rightarrow> budget_state \<Rightarrow> budget_state" where
  "local_cache_put now key v ttl st =
     (let live = filter (\<lambda>kv. now < fst (snd kv)) (bs_local st);
          room = (drop_soonest ^^ (length live - (local_cache_max - 1))) live
      in st\<lparr>bs_local := dset key (now + of_int (max 1 ttl), v) room\<rparr>)"

definition cached_summary_get :: "budget_env \<Rightarrow> string \<Rightarrow> budget_state \<Rightarrow> budget_state \<times> string option" where
  "cached_summary_get env key st =
     (case (if be_redis_up env then dget (bs_redis st) key else None) of
        Some (expires, v) \<Rightarrow> if su_now env < expires \<and> v \<noteq> [] then (st, Some v) else local_cache_get (su_now env) key st
      | None \<Rightarrow> local_cache_get (su_now env) key st)"

definition cached_summary_put :: "budget_env \<Rightarrow> string \<Rightarrow> string \<Rightarrow> int \<Rightarrow> budget_state \<Rightarrow> budget_state" where
  "cached_summary_put env key v ttl st =
     (if be_redis_up env then st\<lparr>bs_redis := dset key (su_now env + of_int (max 1 ttl), v) (bs_redis st)\<rparr>
      else local_cache_put (su_now env) key v ttl st)"

definition span_key :: "budget_env \<Rightarrow> 'm pipe_ctx_scheme \<Rightarrow> string \<Rightarrow> pydict list \<Rightarrow> string" where
  "span_key env c model old = summary_cache_key c model (be_digest env old)"

text \<open>The newest cached summary of a shorter prefix; an empty one counts as none.\<close>

fun cached_prefix ::
  "budget_env \<Rightarrow> 'm pipe_ctx_scheme \<Rightarrow> string \<Rightarrow> pydict list \<Rightarrow> nat list \<Rightarrow> budget_state \<Rightarrow> budget_state \<times> (string \<times> nat) option" where
  "cached_prefix env c model old [] st = (st, None)"
| "cached_prefix env c model old (n # ns) st =
     (case cached_summary_get env (span_key env c model (take n old)) st of
        (st1, Some s) \<Rightarrow> if s \<noteq> [] then (st1, Some (s, n)) else cached_prefix env c model old ns st1
      | (st1, None) \<Rightarrow> cached_prefix env c model old ns st1)"

definition summary_marker :: string where "summary_marker = ''[Conversation summary - earlier turns]''"

definition summary_message :: "string \<Rightarrow> pydict" where
  "summary_message s = [(''role'', PStr ''system''), (''content'', PStr (summary_marker @ CHR 0x0A # s))]"

definition summary_for_span ::
  "budget_env \<Rightarrow> pydict \<Rightarrow> 'm pipe_ctx_scheme \<Rightarrow> pydict list \<Rightarrow> string \<Rightarrow> int \<Rightarrow> budget_state \<Rightarrow> budget_state \<times> (pyexc + string)" where
  "summary_for_span env cfg c old model ttl st =
     (case cached_summary_get env (span_key env c model old) st of
        (st1, exact) \<Rightarrow>
          (if exact \<noteq> None \<and> exact \<noteq> Some [] then (st1, Inr (case exact of Some s \<Rightarrow> s | None \<Rightarrow> []))
           else (case int_knob cfg ''summary_prefix_lookback'' 12 0 of
                   Inl e \<Rightarrow> (st1, Inl e)
                 | Inr lookback \<Rightarrow>
                     (case cached_prefix env c model old (rev [max 1 (length old - nat (max 0 lookback)) ..< length old]) st1 of
                        (st2, found) \<Rightarrow>
                          (case bind_res (int_knob cfg ''summary_max_turns'' 80 80) (\<lambda>a.
                                bind_res (int_knob cfg ''summary_max_tokens'' 400 400) (\<lambda>b.
                                map_sum id (\<lambda>d. (a, b, d)) (int_knob cfg ''summary_max_input_tokens'' 24000 0))) of
                             Inl e \<Rightarrow> (st2, Inl e)
                           | Inr (max_turns, max_tokens, max_input) \<Rightarrow>
                               (case summarise_turns (summary_env.truncate env) (px_tenant c) (px_config c)
                                       (case found of Some (s, n) \<Rightarrow> summary_message s # drop n old | None \<Rightarrow> old)
                                       model max_turns max_tokens max_input st2 of
                                  (st3, s) \<Rightarrow>
                                    (if s \<noteq> [] \<and> s \<noteq> summary_unavailable
                                     then cached_summary_put env (span_key env c model old) s ttl st3 else st3, Inr s)))))))"

section \<open>The rungs\<close>

definition span_count :: "budget_env \<Rightarrow> pydict list \<Rightarrow> pyexc + int" where
  "span_count env ms = count_messages_tokens (su_enc env) (map PDict ms)"

definition is_dedupable :: "budget_env \<Rightarrow> int \<Rightarrow> pydict \<Rightarrow> bool" where
  "is_dedupable env min_chars m =
     (case dget_or m ''content'' PNone of
        PStr s \<Rightarrow> min_chars \<le> int (length s)
      | PList parts \<Rightarrow>
          min_chars \<le> sum_list (map (\<lambda>p. case p of
                          PDict d \<Rightarrow> if dget_or d ''type'' PNone = PStr ''text''
                                     then int (length (py_str (su_fstr env) (dget_or d ''text'' (PStr [])))) else 0
                        | _ \<Rightarrow> 0) parts)
      | _ \<Rightarrow> False)"

definition pairs_tool :: "pydict \<Rightarrow> bool" where
  "pairs_tool m \<longleftrightarrow> py_truthy (dget_or m ''tool_calls'' PNone) \<or> py_truthy (dget_or m ''tool_call_id'' PNone)"

definition cut_mark :: string where "cut_mark = CHR 0x0A # ''...[truncated]''"

definition cut_result :: "int \<Rightarrow> pydict \<Rightarrow> pydict \<times> bool" where
  "cut_result max_chars m =
     (case dget_or m ''content'' PNone of
        PStr s \<Rightarrow> if is_tool m \<and> 0 < max_chars \<and> max_chars < int (length s)
                  then (dset ''content'' (PStr (take (nat max_chars) s @ cut_mark)) m, True) else (m, False)
      | _ \<Rightarrow> (m, False))"

definition welds :: "pyval option \<Rightarrow> pydict list \<Rightarrow> bool" where
  "welds before ms \<longleftrightarrow> (case (before, ms) of (Some r, x # _) \<Rightarrow> x \<noteq> [] \<and> r = message_role x | _ \<Rightarrow> False)"

text \<open>A repeat is dropped unless that would bring two messages of one role together; \<open>before\<close> is the role of the
  message kept last.\<close>

fun rung_prune :: "budget_env \<Rightarrow> int \<Rightarrow> int \<Rightarrow> pyval option \<Rightarrow> string list \<Rightarrow> pydict list \<Rightarrow> pydict list \<times> bool" where
  "rung_prune env max_chars min_chars before seen [] = ([], False)"
| "rung_prune env max_chars min_chars before seen (m # ms) =
     (let repeats = \<not> pairs_tool m \<and> is_dedupable env min_chars m;
          known = be_dump env m \<in> set seen
      in if repeats \<and> known \<and> \<not> welds before ms then (fst (rung_prune env max_chars min_chars before seen ms), True)
         else (let cut = cut_result max_chars m;
                   rest = rung_prune env max_chars min_chars (Some (message_role (fst cut)))
                            (if repeats then be_dump env m # seen else seen) ms
               in (fst cut # fst rest, snd cut \<or> snd rest)))"

definition compress_part :: "budget_env \<Rightarrow> pyval \<Rightarrow> pyval" where
  "compress_part env part =
     (case part of
        PDict d \<Rightarrow>
          (if dget_or d ''type'' PNone = PStr ''text'' then
             (case dget_or d ''text'' PNone of
                PStr s \<Rightarrow> if length (be_compress env s) < length s then PDict (dset ''text'' (PStr (be_compress env s)) d) else part
              | _ \<Rightarrow> part)
           else part)
      | _ \<Rightarrow> part)"

text \<open>The rewritten_span content, where it is shorter.\<close>

definition compress_content :: "budget_env \<Rightarrow> pyval \<Rightarrow> pyval option" where
  "compress_content env content =
     (case content of
        PStr s \<Rightarrow> if length (be_compress env s) < length s then Some (PStr (be_compress env s)) else None
      | PList parts \<Rightarrow> if map (compress_part env) parts = parts then None else Some (PList (map (compress_part env) parts))
      | _ \<Rightarrow> None)"

definition looks_structured :: "budget_env \<Rightarrow> string \<Rightarrow> bool" where
  "looks_structured env t =
     (case dropWhile is_space t of [] \<Rightarrow> False | ch # _ \<Rightarrow> (ch = CHR ''{'' \<or> ch = CHR ''['') \<and> be_is_json env t)"

definition is_compressible :: "budget_env \<Rightarrow> pydict \<Rightarrow> bool" where
  "is_compressible env m \<longleftrightarrow>
     \<not> (is_tool m \<or> py_truthy (dget_or m ''tool_call_id'' PNone)) \<and>
     (case dget_or m ''content'' PNone of PStr s \<Rightarrow> \<not> looks_structured env s | _ \<Rightarrow> True)"

definition compress_message :: "budget_env \<Rightarrow> pydict \<Rightarrow> pydict option" where
  "compress_message env m =
     (if is_compressible env m
      then map_option (\<lambda>v. dset ''content'' v m) (compress_content env (dget_or m ''content'' PNone)) else None)"

definition rung_compress :: "budget_env \<Rightarrow> pydict list \<Rightarrow> pydict list \<times> bool" where
  "rung_compress env ms =
     (map (\<lambda>m. case compress_message env m of Some m' \<Rightarrow> m' | None \<Rightarrow> m) ms,
      list_ex (\<lambda>m. compress_message env m \<noteq> None) ms)"

text \<open>The oldest message goes, and the tool results it leaves at the front, until the total is under the target.\<close>

fun rung_drop :: "budget_env \<Rightarrow> bool \<Rightarrow> rat \<Rightarrow> int \<Rightarrow> pydict list \<Rightarrow> pyexc + pydict list \<times> int \<times> bool" where
  "rung_drop env leading target current [] = Inr ([], current, leading)"
| "rung_drop env leading target current (m # ms) =
     (if leading \<and> is_tool m \<or> target < of_int current
      then bind_res (span_count env [m]) (\<lambda>n. rung_drop env True target (current - n) ms)
      else Inr (m # ms, current, leading))"

section \<open>The compaction\<close>

record budget_plan =
  bp_used :: int
  bp_target :: rat
  bp_cut :: nat

definition is_system :: "pydict \<Rightarrow> bool" where
  "is_system m \<longleftrightarrow> message_role m = PStr ''system''"

definition turns_of :: "pydict list \<Rightarrow> pydict list" where
  "turns_of ms = filter (\<lambda>m. \<not> is_system m) ms"

definition prompt_tokens :: "budget_env \<Rightarrow> budget_ctx \<Rightarrow> pyexc + int" where
  "prompt_tokens env c =
     count_request_tokens (su_enc env) (be_tools_tokens env) (map PDict (bc_messages c)) (dget_or (px_params c) ''tools'' PNone)"

definition kept_turns :: "pydict \<Rightarrow> pyexc + int" where
  "kept_turns cfg = map_sum id (\<lambda>n. max 1 n * 2) (int_knob cfg ''keep_recent_turns'' 6 6)"

text \<open>Whether to compact, to which total, and the number of turns that may be touched.\<close>

definition plan_budget :: "budget_env \<Rightarrow> pydict \<Rightarrow> budget_ctx \<Rightarrow> pyexc + budget_plan option" where
  "plan_budget env cfg c =
     bind_res (usable_window c cfg) (\<lambda>usable.
       if usable \<le> 0 then Inr None
       else bind_res (resolve_thresholds cfg) (\<lambda>(compact_at, target).
            bind_res (prompt_tokens env c) (\<lambda>used.
              if of_int used \<le> of_int usable * compact_at / 100 then Inr None
              else bind_res (kept_turns cfg) (\<lambda>keep.
                     let cut = safe_window_split (turns_of (bc_messages c)) keep in
                     Inr (if cut = 0 then None
                          else Some \<lparr>bp_used = used, bp_target = of_int usable * target / 100, bp_cut = cut\<rparr>)))))"

record rung_state =
  rg_span :: "pydict list"
  rg_current :: int
  rg_applied :: "string list"
  rg_summary :: "pydict list"

definition rung_on :: "pydict \<Rightarrow> string \<Rightarrow> bool \<Rightarrow> rat \<Rightarrow> rung_state \<Rightarrow> bool" where
  "rung_on rungs name dflt target rs \<longleftrightarrow> py_truthy (dget_or rungs name (PBool dflt)) \<and> target < of_int (rg_current rs)"

definition rewritten_span :: "budget_env \<Rightarrow> int \<Rightarrow> string \<Rightarrow> pydict list \<times> bool \<Rightarrow> rung_state \<Rightarrow> pyexc + rung_state" where
  "rewritten_span env fixed name new rs =
     (if snd new
      then map_sum id (\<lambda>n. rs\<lparr>rg_span := fst new, rg_current := fixed + n, rg_applied := rg_applied rs @ [name]\<rparr>) (span_count env (fst new))
      else Inr (rs\<lparr>rg_span := fst new\<rparr>))"

definition prune_step :: "budget_env \<Rightarrow> pydict \<Rightarrow> pydict \<Rightarrow> rat \<Rightarrow> int \<Rightarrow> rung_state \<Rightarrow> pyexc + rung_state" where
  "prune_step env cfg rungs target fixed rs =
     (if rung_on rungs ''prune'' True target rs
      then bind_res (int_knob cfg ''tool_result_max_chars'' 4000 0) (\<lambda>max_chars.
           bind_res (int_knob cfg ''prune_min_chars'' 200 0) (\<lambda>min_chars.
             rewritten_span env fixed ''prune'' (rung_prune env max_chars min_chars None [] (rg_span rs)) rs))
      else Inr rs)"

definition compress_step :: "budget_env \<Rightarrow> pydict \<Rightarrow> rat \<Rightarrow> int \<Rightarrow> rung_state \<Rightarrow> pyexc + rung_state" where
  "compress_step env rungs target fixed rs =
     (if rung_on rungs ''compress'' True target rs then rewritten_span env fixed ''compress'' (rung_compress env (rg_span rs)) rs
      else Inr rs)"

text \<open>A summary takes the place of the span only where it is smaller.\<close>

definition put_summary :: "budget_env \<Rightarrow> int \<Rightarrow> string \<Rightarrow> rung_state \<Rightarrow> pyexc + rung_state" where
  "put_summary env fixed s rs =
     (if s = [] \<or> s = summary_unavailable then Inr rs
      else bind_res (span_count env (rg_span rs)) (\<lambda>now.
           map_sum id (\<lambda>cost. if cost < now
               then rs\<lparr>rg_span := [], rg_current := fixed + cost, rg_applied := rg_applied rs @ [''summarize''],
                       rg_summary := [summary_message s]\<rparr>
               else rs) (span_count env [summary_message s])))"

definition summary_model_of :: "budget_env \<Rightarrow> pydict \<Rightarrow> string" where
  "summary_model_of env cfg = py_str (su_fstr env) (py_or (dget_or cfg ''summary_model'' PNone) (PStr ''gpt-4o-mini''))"

definition summary_step ::
  "budget_env \<Rightarrow> pydict \<Rightarrow> pydict \<Rightarrow> budget_ctx \<Rightarrow> pydict list \<Rightarrow> rat \<Rightarrow> int \<Rightarrow> rung_state \<Rightarrow> budget_state
   \<Rightarrow> budget_state \<times> (pyexc + rung_state)" where
  "summary_step env cfg rungs c original target fixed rs st =
     (if rung_on rungs ''summarize'' True target rs \<and> rg_span rs \<noteq> []
      then (case int_knob cfg ''summary_ttl_seconds'' 3600 3600 of
              Inl e \<Rightarrow> (st, Inl e)
            | Inr ttl \<Rightarrow>
                (case summary_for_span env cfg c original (summary_model_of env cfg) ttl st of
                   (st1, r) \<Rightarrow> (st1, bind_res r (\<lambda>s. put_summary env fixed s rs))))
      else (st, Inr rs))"

definition drop_step :: "budget_env \<Rightarrow> pydict \<Rightarrow> rat \<Rightarrow> rung_state \<Rightarrow> pyexc + rung_state" where
  "drop_step env rungs target rs =
     (if rung_on rungs ''drop'' False target rs \<and> rg_span rs \<noteq> []
      then map_sum id (\<lambda>(rest, current, dropped).
             rs\<lparr>rg_span := rest, rg_current := current, rg_applied := rg_applied rs @ (if dropped then [''drop''] else [])\<rparr>)
           (rung_drop env False target (rg_current rs) (rg_span rs))
      else Inr rs)"

definition commit_budget :: "budget_env \<Rightarrow> budget_plan \<Rightarrow> rung_state \<Rightarrow> budget_ctx \<Rightarrow> budget_ctx" where
  "commit_budget env p rs c =
     (if rg_applied rs = [] then c
      else (let c1 = c\<lparr>bc_messages := filter is_system (bc_messages c) @ rg_summary rs @ rg_span rs
                                        @ drop (bp_cut p) (turns_of (bc_messages c))\<rparr>
            in case prompt_tokens env c1 of
                 Inr after \<Rightarrow> c1\<lparr>bc_steps := bc_steps c @ [(rg_applied rs, bp_used p, after)]\<rparr>
               | Inl _ \<Rightarrow> c1))"

definition rungs_of :: "pydict \<Rightarrow> pyexc + pydict" where
  "rungs_of cfg = (case py_or (dget_or cfg ''rungs'' (PDict [])) (PDict []) of PDict d \<Rightarrow> Inr d | _ \<Rightarrow> Inl AttributeError)"

definition run_rungs ::
  "budget_env \<Rightarrow> pydict \<Rightarrow> pydict \<Rightarrow> budget_ctx \<Rightarrow> budget_plan \<Rightarrow> budget_state \<Rightarrow> budget_state \<times> (pyexc + rung_state)" where
  "run_rungs env cfg rungs c p st =
     (let original = take (bp_cut p) (turns_of (bc_messages c)); target = bp_target p in
      case span_count env original of
        Inl e \<Rightarrow> (st, Inl e)
      | Inr n \<Rightarrow>
          (let fixed = bp_used p - n;
               start = \<lparr>rg_span = original, rg_current = bp_used p, rg_applied = [], rg_summary = []\<rparr> in
           case bind_res (prune_step env cfg rungs target fixed start) (compress_step env rungs target fixed) of
             Inl e \<Rightarrow> (st, Inl e)
           | Inr rs \<Rightarrow>
               (case summary_step env cfg rungs c original target fixed rs st of
                  (st1, r) \<Rightarrow> (st1, bind_res r (drop_step env rungs target)))))"

definition compact :: "budget_env \<Rightarrow> pydict \<Rightarrow> budget_ctx \<Rightarrow> budget_state \<Rightarrow> budget_state \<times> (pyexc + budget_ctx)" where
  "compact env cfg c st =
     (case plan_budget env cfg c of
        Inl e \<Rightarrow> (st, Inl e)
      | Inr None \<Rightarrow> (st, Inr c)
      | Inr (Some p) \<Rightarrow>
          (case rungs_of cfg of
             Inl e \<Rightarrow> (st, Inl e)
           | Inr rungs \<Rightarrow> (case run_rungs env cfg rungs c p st of (st1, r) \<Rightarrow> (st1, map_sum id (\<lambda>rs. commit_budget env p rs c) r))))"

text \<open>A failure leaves the request as it came.\<close>

definition g26_process_request :: "budget_env \<Rightarrow> budget_ctx \<Rightarrow> budget_state \<Rightarrow> budget_state \<times> budget_ctx" where
  "g26_process_request env c st =
     (let cfg = resolve_group_config (px_config c) (px_tenant c) ''G26_context_budget'' in
      if \<not> py_truthy (dget_or cfg ''enabled'' (PBool False)) \<or> px_bypassed c \<or> px_cache_hit c then (st, c)
      else (case compact env cfg c st of (st1, Inr c1) \<Rightarrow> (st1, c1) | (st1, Inl _) \<Rightarrow> (st1, c)))"

lemma map_sum_Inr: "map_sum id f r = Inr y \<longleftrightarrow> (\<exists>x. r = Inr x \<and> y = f x)"
  by (cases r) auto

section \<open>Tool exchanges\<close>

definition tool_id :: "pydict \<Rightarrow> pyval" where
  "tool_id m = dget_or m ''tool_call_id'' PNone"

definition declared_calls :: "pydict \<Rightarrow> pyval list" where
  "declared_calls m =
     (case dget_or m ''tool_calls'' PNone of
        PList xs \<Rightarrow> List.map_filter (\<lambda>x. map_option (\<lambda>d. dget_or d ''id'' PNone) (dict_of x)) xs
      | _ \<Rightarrow> [])"

text \<open>A conversation a provider accepts: every tool result follows the message that declared its call, with only
  results of that message between them, and every declared call has its result before the next message.\<close>

fun exchanges :: "pyval list \<Rightarrow> pyval list \<Rightarrow> pydict list \<Rightarrow> bool" where
  "exchanges calls due [] \<longleftrightarrow> due = []"
| "exchanges calls due (m # ms) \<longleftrightarrow>
     (if is_tool m then py_truthy (tool_id m) \<and> tool_id m \<in> set calls \<and> exchanges calls (removeAll (tool_id m) due) ms
      else due = [] \<and> exchanges (declared_calls m) (declared_calls m) ms)"

lemma exchanges_split:
  "\<not> is_tool y \<Longrightarrow> exchanges calls due (xs @ y # ys) \<longleftrightarrow> exchanges calls due xs \<and> exchanges [] [] (y # ys)"
  by (induction calls due xs rule: exchanges.induct) auto

lemma exchanges_start: "exchanges [] [] ms \<Longrightarrow> exchanges calls [] ms"
  by (cases ms) auto

lemma content_keeps_role [simp]:
  "message_role (dset ''content'' v m) = message_role m" "is_tool (dset ''content'' v m) = is_tool m"
  "tool_id (dset ''content'' v m) = tool_id m" "declared_calls (dset ''content'' v m) = declared_calls m"
  by (simp_all add: message_role_def is_tool_def tool_id_def declared_calls_def dget_or_def dget_dset)

lemma cut_keeps_role [simp]:
  "message_role (fst (cut_result k m)) = message_role m" "is_tool (fst (cut_result k m)) = is_tool m"
  "tool_id (fst (cut_result k m)) = tool_id m" "declared_calls (fst (cut_result k m)) = declared_calls m"
  by (simp_all add: cut_result_def split: pyval.split)

lemma no_pair_no_calls: "\<not> pairs_tool m \<Longrightarrow> declared_calls m = [] \<and> \<not> py_truthy (tool_id m)"
  by (auto simp: pairs_tool_def declared_calls_def tool_id_def map_filter_def split: pyval.split)

lemma prune_keeps_exchanges:
  "exchanges calls due ms \<Longrightarrow> exchanges calls due (fst (rung_prune env max_chars min_chars before seen ms))"
proof (induction env max_chars min_chars before seen ms arbitrary: calls due rule: rung_prune.induct)
  case (2 env max_chars min_chars before seen m ms)
  let ?repeats = "\<not> pairs_tool m \<and> is_dedupable env min_chars m"
  show ?case
  proof (cases "?repeats \<and> be_dump env m \<in> set seen \<and> \<not> welds before ms")
    case True
    then have n: "declared_calls m = []" "\<not> py_truthy (tool_id m)" using no_pair_no_calls by blast+
    have "\<not> is_tool m" "due = []" "exchanges [] [] ms" using 2(3) n by (auto split: if_splits)
    then have "exchanges calls due ms" using exchanges_start by blast
    then have "exchanges calls due (fst (rung_prune env max_chars min_chars before seen ms))"
      using 2(1)[OF refl refl True] by blast
    then show ?thesis using True by (simp add: Let_def)
  next
    case False
    let ?m = "fst (cut_result max_chars m)"
    let ?rest = "fst (rung_prune env max_chars min_chars (Some (message_role ?m)) (if ?repeats then be_dump env m # seen else seen) ms)"
    have r: "fst (rung_prune env max_chars min_chars before seen (m # ms)) = ?m # ?rest"
      unfolding rung_prune.simps Let_def using False by (simp only: if_False fst_conv)
    have ih: "exchanges cs d ms \<Longrightarrow> exchanges cs d ?rest" for cs d
      using 2(2)[OF refl refl False refl] by simp
    show ?thesis unfolding r using 2(3) ih by (auto split: if_splits)
  qed
qed simp

lemma compress_keeps_role [simp]:
  "compress_message env m = Some m' \<Longrightarrow>
     message_role m' = message_role m \<and> is_tool m' = is_tool m \<and> tool_id m' = tool_id m \<and> declared_calls m' = declared_calls m"
  by (auto simp: compress_message_def split: if_splits)

lemma compress_keeps_exchanges:
  "exchanges calls due ms \<Longrightarrow> exchanges calls due (fst (rung_compress env ms))"
proof (induction calls due ms rule: exchanges.induct)
  case (2 calls due m ms)
  show ?case
  proof (cases "compress_message env m")
    case None
    then show ?thesis using 2 by (auto simp: rung_compress_def split: if_splits)
  next
    case (Some m')
    then show ?thesis using 2 compress_keeps_role[OF Some] by (auto simp: rung_compress_def split: if_splits)
  qed
qed (simp add: rung_compress_def)

text \<open>What the drop leaves is a suffix, and where it took anything it does not open with a tool result.\<close>

lemma drop_leaves_a_suffix:
  "rung_drop env leading target current ms = Inr (rest, current', dropped) \<Longrightarrow>
   \<exists>gone. ms = gone @ rest \<and> (leading \<longrightarrow> dropped) \<and> (\<not> dropped \<longrightarrow> gone = []) \<and>
     (dropped \<and> rest \<noteq> [] \<longrightarrow> \<not> is_tool (hd rest)) \<and> (rest = [] \<or> of_int current' \<le> target)"
proof (induction env leading target current ms rule: rung_drop.induct)
  case (2 env leading target current m ms)
  show ?case
  proof (cases "leading \<and> is_tool m \<or> target < of_int current")
    case True
    then obtain n where n: "span_count env [m] = Inr n" "rung_drop env True target (current - n) ms = Inr (rest, current', dropped)"
      using 2(2) by (auto simp: bind_res_Inr map_sum_Inr)
    obtain gone where "ms = gone @ rest" "dropped" "rest \<noteq> [] \<longrightarrow> \<not> is_tool (hd rest)" "rest = [] \<or> of_int current' \<le> target"
      using 2(1)[OF True n(2)] by blast
    then show ?thesis by (intro exI[of _ "m # gone"]) auto
  next
    case False
    then show ?thesis using 2(2) by auto
  qed
qed auto

lemma drop_keeps_exchanges:
  assumes "rung_drop env False target current ms = Inr (rest, current', dropped)" and "exchanges [] [] ms"
  shows "exchanges [] [] rest"
proof -
  obtain gone where g: "ms = gone @ rest" "\<not> dropped \<longrightarrow> gone = []" "dropped \<and> rest \<noteq> [] \<longrightarrow> \<not> is_tool (hd rest)"
    using drop_leaves_a_suffix[OF assms(1)] by blast
  show ?thesis
  proof (cases rest)
    case (Cons y ys)
    then show ?thesis using g assms(2) exchanges_split[of y "[]" "[]" gone ys] by (cases dropped) auto
  qed simp
qed

section \<open>What a compaction leaves\<close>

text \<open>A state of the ladder: the span is still sound, and a summary is one system message.\<close>

definition sound_rungs :: "rung_state \<Rightarrow> bool" where
  "sound_rungs rs \<longleftrightarrow> exchanges [] [] (rg_span rs) \<and> list_all is_system (rg_summary rs) \<and> length (rg_summary rs) \<le> 1"

lemma summary_is_system [simp]: "is_system (summary_message s)"
  by (simp add: is_system_def message_role_def summary_message_def dget_or_def)

lemma prune_step_sound: "prune_step env cfg rungs target fixed rs = Inr rs' \<Longrightarrow> sound_rungs rs \<Longrightarrow> sound_rungs rs'"
  by (auto simp: prune_step_def rewritten_span_def sound_rungs_def bind_res_Inr map_sum_Inr prune_keeps_exchanges split: if_splits)

lemma compress_step_sound: "compress_step env rungs target fixed rs = Inr rs' \<Longrightarrow> sound_rungs rs \<Longrightarrow> sound_rungs rs'"
  by (auto simp: compress_step_def rewritten_span_def sound_rungs_def compress_keeps_exchanges map_sum_Inr split: if_splits)

lemma summary_step_sound:
  "summary_step env cfg rungs c original target fixed rs st = (st', Inr rs') \<Longrightarrow> sound_rungs rs \<Longrightarrow> sound_rungs rs'"
  by (auto simp: summary_step_def put_summary_def sound_rungs_def bind_res_Inr map_sum_Inr split: if_splits sum.splits prod.splits)

lemma drop_step_sound: "drop_step env rungs target rs = Inr rs' \<Longrightarrow> sound_rungs rs \<Longrightarrow> sound_rungs rs'"
  by (auto simp: drop_step_def sound_rungs_def drop_keeps_exchanges map_sum_Inr split: if_splits)

lemma plan_facts:
  assumes "plan_budget env cfg c = Inr (Some p)"
  obtains keep compact_at target usable where "kept_turns cfg = Inr keep"
    "bp_cut p = safe_window_split (turns_of (bc_messages c)) keep" "0 < bp_cut p" "prompt_tokens env c = Inr (bp_used p)"
    "resolve_thresholds cfg = Inr (compact_at, target)" "0 < usable" "\<not> of_int (bp_used p) \<le> of_int usable * compact_at / 100"
    "bp_target p = of_int usable * target / 100"
proof -
  obtain usable where u: "\<not> usable \<le> 0" "bind_res (resolve_thresholds cfg) (\<lambda>(compact_at, target).
            bind_res (prompt_tokens env c) (\<lambda>used.
              if of_int used \<le> of_int usable * compact_at / 100 then Inr None
              else bind_res (kept_turns cfg) (\<lambda>keep.
                     let cut = safe_window_split (turns_of (bc_messages c)) keep in
                     Inr (if cut = 0 then None
                          else Some \<lparr>bp_used = used, bp_target = of_int usable * target / 100, bp_cut = cut\<rparr>)))) = Inr (Some p)"
    using assms by (auto simp: plan_budget_def bind_res_Inr[of "usable_window c cfg"] simp del: not_le split: if_splits)
  obtain compact_at target used where t: "resolve_thresholds cfg = Inr (compact_at, target)" "prompt_tokens env c = Inr used"
     "(if of_int used \<le> of_int usable * compact_at / 100 then Inr None
              else bind_res (kept_turns cfg) (\<lambda>keep.
                     let cut = safe_window_split (turns_of (bc_messages c)) keep in
                     Inr (if cut = 0 then None
                          else Some \<lparr>bp_used = used, bp_target = of_int usable * target / 100, bp_cut = cut\<rparr>))) = Inr (Some p)"
    using u(2) unfolding bind_res_Inr split_paired_Ex prod.case by blast
  have w: "\<not> of_int used \<le> of_int usable * compact_at / 100" using t(3) by (cases "of_int used \<le> of_int usable * compact_at / 100") (simp_all del: not_le)
  obtain keep where k: "kept_turns cfg = Inr keep" "safe_window_split (turns_of (bc_messages c)) keep \<noteq> 0"
      "p = \<lparr>bp_used = used, bp_target = of_int usable * target / 100, bp_cut = safe_window_split (turns_of (bc_messages c)) keep\<rparr>"
    using t(3) w by (simp only: if_False bind_res_Inr Let_def) (auto split: if_splits)
  show ?thesis by (rule that[OF k(1) _ _ _ t(1) _ _]) (use k u(1) t(2) w in \<open>simp_all del: not_le\<close>, simp)
qed

lemma compact_cases:
  assumes "compact env cfg c st = (st', Inr c')"
  obtains "c' = c" | p rungs rs where "plan_budget env cfg c = Inr (Some p)" "rungs_of cfg = Inr rungs"
    "run_rungs env cfg rungs c p st = (st', Inr rs)" "c' = commit_budget env p rs c"
  using assms by (auto simp: compact_def map_sum_Inr split: sum.splits option.splits prod.splits)

lemma run_rungs_cases:
  assumes "run_rungs env cfg rungs c p st = (st', Inr rs)"
  obtains n r1 r2 r3 st1 where "span_count env (take (bp_cut p) (turns_of (bc_messages c))) = Inr n"
    "prune_step env cfg rungs (bp_target p) (bp_used p - n)
       \<lparr>rg_span = take (bp_cut p) (turns_of (bc_messages c)), rg_current = bp_used p, rg_applied = [], rg_summary = []\<rparr> = Inr r1"
    "compress_step env rungs (bp_target p) (bp_used p - n) r1 = Inr r2"
    "summary_step env cfg rungs c (take (bp_cut p) (turns_of (bc_messages c))) (bp_target p) (bp_used p - n) r2 st = (st1, Inr r3)"
    "drop_step env rungs (bp_target p) r3 = Inr rs"
  using assms by (auto simp: run_rungs_def Let_def bind_res_Inr split: sum.splits prod.splits)

lemma run_rungs_sound:
  assumes "run_rungs env cfg rungs c p st = (st', Inr rs)" and "exchanges [] [] (take (bp_cut p) (turns_of (bc_messages c)))"
  shows "sound_rungs rs"
  using assms(1)
proof (cases rule: run_rungs_cases)
  case (1 n r1 r2 r3 st1)
  have "sound_rungs \<lparr>rg_span = take (bp_cut p) (turns_of (bc_messages c)), rg_current = bp_used p, rg_applied = [], rg_summary = []\<rparr>"
    using assms(2) by (simp add: sound_rungs_def)
  then show ?thesis using 1 prune_step_sound compress_step_sound summary_step_sound drop_step_sound by metis
qed

lemma summary_step_shape:
  "summary_step env cfg rungs c original target fixed rs st = (st', Inr rs') \<Longrightarrow>
   list_all is_system (rg_summary rs) \<and> length (rg_summary rs) \<le> 1 \<Longrightarrow> list_all is_system (rg_summary rs') \<and> length (rg_summary rs') \<le> 1"
  by (auto simp: summary_step_def put_summary_def bind_res_Inr map_sum_Inr split: if_splits sum.splits prod.splits)

lemma rungs_summary:
  "prune_step env cfg rungs target fixed rs = Inr r1 \<Longrightarrow> rg_summary r1 = rg_summary rs"
  "compress_step env rungs target fixed rs = Inr r2 \<Longrightarrow> rg_summary r2 = rg_summary rs"
  "drop_step env rungs target rs = Inr r3 \<Longrightarrow> rg_summary r3 = rg_summary rs"
  by (auto simp: prune_step_def compress_step_def drop_step_def rewritten_span_def bind_res_Inr map_sum_Inr split: if_splits)

lemma run_rungs_summary:
  assumes "run_rungs env cfg rungs c p st = (st', Inr rs)"
  shows "list_all is_system (rg_summary rs) \<and> length (rg_summary rs) \<le> 1"
  using assms
proof (cases rule: run_rungs_cases)
  case (1 n r1 r2 r3 st1)
  have "rg_summary r2 = []" using rungs_summary(1)[OF 1(2)] rungs_summary(2)[OF 1(3)] by simp
  then show ?thesis using summary_step_shape[OF 1(4)] rungs_summary(3)[OF 1(5)] by simp
qed

lemma turns_of_append [simp]: "turns_of (xs @ ys) = turns_of xs @ turns_of ys"
  by (simp add: turns_of_def)

lemma turns_of_system [simp]: "list_all is_system xs \<Longrightarrow> turns_of xs = []" "turns_of (filter is_system xs) = []"
  by (auto simp: turns_of_def list_all_iff filter_empty_conv)

lemma turns_of_turns [simp]: "turns_of (drop n (turns_of xs)) = drop n (turns_of xs)" "turns_of (take n (turns_of xs)) = take n (turns_of xs)"
  by (auto simp: turns_of_def filter_id_conv dest!: in_set_dropD in_set_takeD)

lemma commit_messages:
  "rg_applied rs \<noteq> [] \<Longrightarrow> bc_messages (commit_budget env p rs c) =
     filter is_system (bc_messages c) @ rg_summary rs @ rg_span rs @ drop (bp_cut p) (turns_of (bc_messages c))"
  by (simp add: commit_budget_def Let_def split: sum.split)

lemma cut_splits_exchanges:
  assumes "plan_budget env cfg c = Inr (Some p)" and "exchanges [] [] (turns_of (bc_messages c))"
  shows "exchanges [] [] (take (bp_cut p) (turns_of (bc_messages c)))"
    and "\<exists>y ys. drop (bp_cut p) (turns_of (bc_messages c)) = y # ys \<and> \<not> is_tool y \<and> exchanges [] [] (y # ys)"
proof -
  let ?t = "turns_of (bc_messages c)"
  obtain keep where k: "bp_cut p = safe_window_split ?t keep" "0 < bp_cut p" using plan_facts[OF assms(1)] by metis
  have c: "0 < keep" "bp_cut p + nat keep \<le> length ?t" "\<not> is_tool (?t ! bp_cut p)"
    using safe_split_keeps[of ?t keep] k by simp_all
  have l: "bp_cut p < length ?t" using c by linarith
  have d: "drop (bp_cut p) ?t = ?t ! bp_cut p # drop (Suc (bp_cut p)) ?t" using Cons_nth_drop_Suc[OF l] by simp
  have "?t = take (bp_cut p) ?t @ ?t ! bp_cut p # drop (Suc (bp_cut p)) ?t" using d by (metis append_take_drop_id)
  then have "exchanges [] [] (take (bp_cut p) ?t @ ?t ! bp_cut p # drop (Suc (bp_cut p)) ?t)" using assms(2) by metis
  then have s: "exchanges [] [] (take (bp_cut p) ?t) \<and> exchanges [] [] (?t ! bp_cut p # drop (Suc (bp_cut p)) ?t)"
    using exchanges_split[OF c(3)] by blast
  then show "exchanges [] [] (take (bp_cut p) ?t)" by blast
  show "\<exists>y ys. drop (bp_cut p) ?t = y # ys \<and> \<not> is_tool y \<and> exchanges [] [] (y # ys)" using d s c(3) by blast
qed

text \<open>No rung brings a system message into the span.\<close>

definition plain :: "pydict list \<Rightarrow> bool" where
  "plain ms \<longleftrightarrow> list_all (\<lambda>m. \<not> is_system m) ms"

lemma prune_plain: "plain ms \<Longrightarrow> plain (fst (rung_prune env max_chars min_chars before seen ms))"
  by (induction env max_chars min_chars before seen ms rule: rung_prune.induct) (auto simp: plain_def is_system_def Let_def)

lemma compress_plain: "plain ms \<Longrightarrow> plain (fst (rung_compress env ms))"
  by (auto simp: plain_def rung_compress_def is_system_def list_all_iff split: option.splits)

lemma drop_plain: "rung_drop env leading target current ms = Inr (rest, current', dropped) \<Longrightarrow> plain ms \<Longrightarrow> plain rest"
  using drop_leaves_a_suffix[of env leading target current ms rest current' dropped] by (auto simp: plain_def)

lemma run_rungs_plain:
  assumes "run_rungs env cfg rungs c p st = (st', Inr rs)"
  shows "plain (rg_span rs)"
  using assms
proof (cases rule: run_rungs_cases)
  case (1 n r1 r2 r3 st1)
  have "plain (take (bp_cut p) (turns_of (bc_messages c)))" by (auto simp: plain_def turns_of_def list_all_iff dest: in_set_takeD)
  then have "plain (rg_span r1)"
    using 1(2) by (auto simp: prune_step_def rewritten_span_def bind_res_Inr map_sum_Inr prune_plain split: if_splits)
  then have "plain (rg_span r2)"
    using 1(3) by (auto simp: compress_step_def rewritten_span_def map_sum_Inr compress_plain split: if_splits)
  then have "plain (rg_span r3)"
    using 1(4) by (auto simp: summary_step_def put_summary_def bind_res_Inr map_sum_Inr plain_def split: if_splits sum.splits prod.splits)
  then show ?thesis using 1(5) by (auto simp: drop_step_def map_sum_Inr drop_plain split: if_splits)
qed

text \<open>The turns of a rewritten_span conversation.\<close>

lemma turns_sound_span:
  assumes "run_rungs env cfg rungs c p st = (st', Inr rs)" and "rg_applied rs \<noteq> []"
  shows "turns_of (bc_messages (commit_budget env p rs c)) = rg_span rs @ drop (bp_cut p) (turns_of (bc_messages c))"
proof -
  have "turns_of (rg_span rs) = rg_span rs" using run_rungs_plain[OF assms(1)] by (simp add: turns_of_def filter_id_conv plain_def list_all_iff)
  then show ?thesis using run_rungs_summary[OF assms(1)] by (simp add: commit_messages[OF assms(2)])
qed

section \<open>The running total\<close>

lemma span_count_append:
  "span_count env (xs @ ys) = Inr n \<longleftrightarrow> (\<exists>a b. span_count env xs = Inr a \<and> span_count env ys = Inr b \<and> n = a + b)"
  by (induction xs arbitrary: n) (auto simp: span_count_def bind_res_Inr)

lemma span_count_Nil [simp]: "span_count env [] = Inr 0"
  by (simp add: span_count_def)

lemma span_count_partition:
  "span_count env ms = Inr n \<longleftrightarrow>
     (\<exists>a b. span_count env (filter is_system ms) = Inr a \<and> span_count env (turns_of ms) = Inr b \<and> n = a + b)"
proof (induction ms arbitrary: n)
  case (Cons m ms)
  define w where "w = span_count env [m]"
  have h: "span_count env (m # xs) = Inr k \<longleftrightarrow> (\<exists>a b. w = Inr a \<and> span_count env xs = Inr b \<and> k = a + b)" for xs k
    using span_count_append[of env "[m]" xs k] by (simp add: w_def)
  show ?case using Cons h by (cases "is_system m") (auto simp: turns_of_def algebra_simps)
qed (simp add: turns_of_def)

text \<open>The tool definitions weigh the same whatever the messages are.\<close>

definition tools_weight :: "budget_env \<Rightarrow> pyval \<Rightarrow> pyexc + int" where
  "tools_weight env tools = (if py_truthy tools then be_tools_tokens env tools else Inr 0)"

lemma prompt_tokens_split:
  "prompt_tokens env c =
     bind_res (span_count env (bc_messages c)) (\<lambda>a. map_sum id (\<lambda>t. a + t) (tools_weight env (dget_or (px_params c) ''tools'' PNone)))"
  by (cases "span_count env (bc_messages c)")
    (simp_all add: prompt_tokens_def count_request_tokens_def span_count_def tools_weight_def)

lemma prompt_tokens_count:
  assumes "prompt_tokens env c = Inr n"
  obtains a t where "span_count env (bc_messages c) = Inr a" "n = a + t"
    "\<And>c' b. px_params c' = px_params c \<Longrightarrow> span_count env (bc_messages c') = Inr b \<Longrightarrow> prompt_tokens env c' = Inr (b + t)"
proof -
  obtain a t where "span_count env (bc_messages c) = Inr a" "tools_weight env (dget_or (px_params c) ''tools'' PNone) = Inr t" "n = a + t"
    using assms by (auto simp: prompt_tokens_split bind_res_Inr map_sum_Inr)
  then show ?thesis by (intro that[of a t]) (simp_all add: prompt_tokens_split)
qed

text \<open>The running total counts the summary, the span and what no rung touches; until a rung applied, nothing moved.\<close>

definition counted :: "budget_env \<Rightarrow> int \<Rightarrow> pydict list \<Rightarrow> int \<Rightarrow> rung_state \<Rightarrow> bool" where
  "counted env used original fixed rs \<longleftrightarrow>
     span_count env (rg_summary rs @ rg_span rs) = Inr (rg_current rs - fixed) \<and>
     (rg_applied rs = [] \<longrightarrow> rg_current rs = used \<and> rg_span rs = original)"

lemma uncut: "\<not> snd (cut_result k m) \<Longrightarrow> fst (cut_result k m) = m"
  by (auto simp: cut_result_def split: pyval.splits)

lemma unpruned: "\<not> snd (rung_prune env max_chars min_chars before seen ms) \<Longrightarrow> fst (rung_prune env max_chars min_chars before seen ms) = ms"
proof (induction env max_chars min_chars before seen ms rule: rung_prune.induct)
  case (2 env max_chars min_chars before seen m ms)
  show ?case
  proof (cases "(\<not> pairs_tool m \<and> is_dedupable env min_chars m) \<and> be_dump env m \<in> set seen \<and> \<not> welds before ms")
    case True
    then show ?thesis using 2(3) by (simp add: Let_def)
  next
    case False
    then show ?thesis using 2(3) 2(2)[OF refl refl False refl] uncut[of max_chars m]
      unfolding rung_prune.simps Let_def by (simp only: if_False fst_conv snd_conv de_Morgan_disj simp_thms)
  qed
qed simp

lemma uncompressed: "\<not> snd (rung_compress env ms) \<Longrightarrow> fst (rung_compress env ms) = ms"
  by (auto simp: rung_compress_def list_ex_iff intro!: map_idI split: option.splits)

lemma rewritten_counted:
  assumes "rewritten_span env fixed name new rs = Inr rs'" and "counted env used original fixed rs" and "rg_summary rs = []"
    and "\<not> snd new \<Longrightarrow> fst new = rg_span rs"
  shows "counted env used original fixed rs'"
  using assms by (auto simp: rewritten_span_def counted_def map_sum_Inr split: if_splits)

lemma prune_counted:
  "prune_step env cfg rungs target fixed rs = Inr rs' \<Longrightarrow> counted env used original fixed rs \<Longrightarrow> rg_summary rs = [] \<Longrightarrow>
   counted env used original fixed rs'"
  unfolding prune_step_def by (auto simp: bind_res_Inr intro: rewritten_counted unpruned split: if_splits)

lemma compress_counted:
  "compress_step env rungs target fixed rs = Inr rs' \<Longrightarrow> counted env used original fixed rs \<Longrightarrow> rg_summary rs = [] \<Longrightarrow>
   counted env used original fixed rs'"
  unfolding compress_step_def by (auto intro: rewritten_counted uncompressed split: if_splits)

lemma summary_counted:
  "summary_step env cfg rungs c original target fixed rs st = (st', Inr rs') \<Longrightarrow> counted env used original' fixed rs \<Longrightarrow>
   counted env used original' fixed rs'"
  by (auto simp: summary_step_def put_summary_def counted_def bind_res_Inr map_sum_Inr split: if_splits sum.splits prod.splits)

lemma drop_count:
  "rung_drop env leading target current ms = Inr (rest, current', dropped) \<Longrightarrow>
   span_count env ms = Inr n \<Longrightarrow> span_count env rest = Inr (n - (current - current'))"
proof (induction env leading target current ms arbitrary: n rule: rung_drop.induct)
  case (2 env leading target current m ms)
  have h: "span_count env (m # ms) = Inr n \<longleftrightarrow> (\<exists>a b. span_count env [m] = Inr a \<and> span_count env ms = Inr b \<and> n = a + b)" for n
    using span_count_append[of env "[m]" ms n] by simp
  show ?case
  proof (cases "leading \<and> is_tool m \<or> target < of_int current")
    case True
    obtain a b where ab: "span_count env [m] = Inr a" "span_count env ms = Inr b" "n = a + b" using 2(3) h by blast
    have "rung_drop env True target (current - a) ms = Inr (rest, current', dropped)" using 2(2) True ab by (simp add: bind_res_Inr)
    from 2(1)[OF True this ab(2)] show ?thesis by (simp add: ab(3) algebra_simps)
  next
    case False
    then show ?thesis using 2(2,3) by auto
  qed
qed auto

lemma drop_takes_something:
  "rung_drop env False target current ms = Inr (rest, current', False) \<Longrightarrow> rest = ms \<and> current' = current \<and> (ms = [] \<or> \<not> target < of_int current)"
proof (cases ms)
  case (Cons m xs)
  assume r: "rung_drop env False target current ms = Inr (rest, current', False)"
  have "\<not> target < of_int current"
  proof
    assume t: "target < of_int current"
    then obtain n where "rung_drop env True target (current - n) xs = Inr (rest, current', False)"
      using r Cons by (auto simp: bind_res_Inr)
    then show False using drop_leaves_a_suffix by blast
  qed
  then show ?thesis using r Cons by auto
qed auto

lemma drop_counted:
  assumes "drop_step env rungs target rs = Inr rs'" and "counted env used original fixed rs"
  shows "counted env used original fixed rs'"
proof (cases "rung_on rungs ''drop'' False target rs \<and> rg_span rs \<noteq> []")
  case True
  then obtain rest current dropped where d: "rung_drop env False target (rg_current rs) (rg_span rs) = Inr (rest, current, dropped)"
    "rs' = rs\<lparr>rg_span := rest, rg_current := current, rg_applied := rg_applied rs @ (if dropped then [''drop''] else [])\<rparr>"
    using assms(1) by (auto simp: drop_step_def map_sum_Inr)
  obtain a b where ab: "span_count env (rg_summary rs) = Inr a" "span_count env (rg_span rs) = Inr b" "rg_current rs - fixed = a + b"
    using assms(2) by (auto simp: counted_def span_count_append)
  have "span_count env rest = Inr (b - (rg_current rs - current))" using drop_count[OF d(1) ab(2)] .
  then have "span_count env (rg_summary rs @ rest) = Inr (a + (b - (rg_current rs - current)))"
    using ab(1) by (simp add: span_count_append)
  then have "span_count env (rg_summary rs @ rest) = Inr (current - fixed)" using ab(3) by (simp add: algebra_simps)
  moreover have "\<not> dropped \<Longrightarrow> rest = rg_span rs \<and> current = rg_current rs" using drop_takes_something d(1) by (cases dropped) auto
  ultimately show ?thesis using d(2) assms(2) by (auto simp: counted_def)
next
  case False
  then show ?thesis using assms by (auto simp: drop_step_def)
qed

lemma run_rungs_counted:
  assumes "run_rungs env cfg rungs c p st = (st', Inr rs)" and "span_count env (take (bp_cut p) (turns_of (bc_messages c))) = Inr n"
  shows "counted env (bp_used p) (take (bp_cut p) (turns_of (bc_messages c))) (bp_used p - n) rs"
  using assms(1)
proof (cases rule: run_rungs_cases)
  case (1 k r1 r2 r3 st1)
  let ?o = "take (bp_cut p) (turns_of (bc_messages c))"
  have k: "k = n" using 1(1) assms(2) by simp
  have "counted env (bp_used p) ?o (bp_used p - n) \<lparr>rg_span = ?o, rg_current = bp_used p, rg_applied = [], rg_summary = []\<rparr>"
    using assms(2) by (simp add: counted_def)
  then have "counted env (bp_used p) ?o (bp_used p - n) r2"
    using 1(2,3) prune_counted compress_counted rungs_summary(1) unfolding k by (metis rung_state.select_convs(4))
  then show ?thesis using summary_counted[OF 1(4)] drop_counted[OF 1(5)] unfolding k by blast
qed

lemma thresholds_apart: "resolve_thresholds cfg = Inr (a, t) \<Longrightarrow> t < a"
  by (auto simp: resolve_thresholds_def bind_res_Inr Let_def max_def min_def split: if_splits)

lemma target_below_used:
  assumes "plan_budget env cfg c = Inr (Some p)"
  shows "bp_target p < of_int (bp_used p)"
proof -
  obtain a t usable where p: "resolve_thresholds cfg = Inr (a, t)" "0 < (usable :: int)" "\<not> of_int (bp_used p) \<le> of_int usable * a / 100"
    "bp_target p = of_int usable * t / 100"
    using plan_facts[OF assms] by metis
  have "of_int usable * t / 100 < (of_int usable * a / 100 :: rat)" using thresholds_apart[OF p(1)] p(2) by simp
  then show ?thesis using p(3,4) by linarith
qed

text \<open>With the last rung allowed, the total ends under the target unless no old turn is left.\<close>

lemma drop_reaches_the_target:
  assumes "drop_step env rungs target rs = Inr rs'" and "py_truthy (dget_or rungs ''drop'' (PBool False))"
  shows "rg_span rs' = [] \<or> of_int (rg_current rs') \<le> target"
proof (cases "rung_on rungs ''drop'' False target rs \<and> rg_span rs \<noteq> []")
  case True
  then show ?thesis using assms(1) drop_leaves_a_suffix by (fastforce simp: drop_step_def map_sum_Inr)
next
  case False
  then show ?thesis using assms by (auto simp: drop_step_def rung_on_def)
qed

text \<open>
  C38. A compaction never parts a tool exchange: if in the conversation every tool result follows the message that declared
  its call and every declared call has its result before the next message, the same holds of the conversation the
  stage hands on, whichever rungs ran, whatever the summariser answered and wherever the stage failed.
\<close>

theorem compaction_keeps_tool_exchanges:
  assumes "exchanges [] [] (turns_of (bc_messages c))"
  shows "exchanges [] [] (turns_of (bc_messages (snd (g26_process_request env c st))))"
proof -
  have "exchanges [] [] (turns_of (bc_messages c'))" if r: "compact env cfg c st = (st', Inr c')" for cfg st' c'
    using r
  proof (cases rule: compact_cases)
    case (2 p rungs rs)
    show ?thesis
    proof (cases "rg_applied rs = []")
      case False
      obtain y ys where y: "drop (bp_cut p) (turns_of (bc_messages c)) = y # ys" "\<not> is_tool y" "exchanges [] [] (y # ys)"
        using cut_splits_exchanges(2)[OF 2(1) assms] by blast
      have "exchanges [] [] (rg_span rs)"
        using run_rungs_sound[OF 2(3) cut_splits_exchanges(1)[OF 2(1) assms]] by (simp add: sound_rungs_def)
      then show ?thesis
        using turns_sound_span[OF 2(3) False] y exchanges_split[OF y(2), of "[]" "[]" "rg_span rs" ys] by (simp add: 2(4))
    qed (use assms in \<open>simp add: 2(4) commit_budget_def\<close>)
  qed (use assms in simp)
  then show ?thesis using assms by (auto simp: g26_process_request_def Let_def split: prod.split sum.split)
qed

text \<open>
  C39. System messages and the recent turns are never touched: a conversation the stage rewrites is its system messages
  in their order, at most one summary, what is left of the old turns, and word for word a tail of the turns at least
  as long as the configured number of recent exchanges.
\<close>

theorem system_messages_and_recent_turns_stay:
  assumes "kept_turns (resolve_group_config (px_config c) (px_tenant c) ''G26_context_budget'') = Inr keep"
  shows "bc_messages (snd (g26_process_request env c st)) = bc_messages c \<or>
     (\<exists>summary old n. bc_messages (snd (g26_process_request env c st)) =
          filter is_system (bc_messages c) @ summary @ old @ drop n (turns_of (bc_messages c)) \<and>
        list_all is_system summary \<and> length summary \<le> 1 \<and> turns_of old = old \<and> n + nat keep \<le> length (turns_of (bc_messages c)))"
proof -
  let ?cfg = "resolve_group_config (px_config c) (px_tenant c) ''G26_context_budget''"
  have "bc_messages c' = bc_messages c \<or> (\<exists>summary old n. bc_messages c' =
          filter is_system (bc_messages c) @ summary @ old @ drop n (turns_of (bc_messages c)) \<and>
        list_all is_system summary \<and> length summary \<le> 1 \<and> turns_of old = old \<and> n + nat keep \<le> length (turns_of (bc_messages c)))"
    if r: "compact env ?cfg c st = (st', Inr c')" for st' c'
    using r
  proof (cases rule: compact_cases)
    case (2 p rungs rs)
    show ?thesis
    proof (cases "rg_applied rs = []")
      case False
      have "bp_cut p = safe_window_split (turns_of (bc_messages c)) keep" "0 < bp_cut p"
        using plan_facts[OF 2(1)] assms by (metis sum.inject(2))+
      then have "bp_cut p + nat keep \<le> length (turns_of (bc_messages c))"
        using safe_split_keeps(2)[of "turns_of (bc_messages c)" keep] by simp
      moreover have "turns_of (rg_span rs) = rg_span rs"
        using run_rungs_plain[OF 2(3)] by (simp add: turns_of_def filter_id_conv plain_def list_all_iff)
      ultimately show ?thesis using run_rungs_summary[OF 2(3)] commit_messages[OF False] unfolding 2(4) by blast
    qed (simp add: 2(4) commit_budget_def)
  qed simp
  then show ?thesis by (auto simp: g26_process_request_def Let_def split: prod.split sum.split)
qed

text \<open>
  C40. With the last rung allowed a compaction reaches its target: the recorded total is the exact recount of the new
  prompt, tool definitions included, and it is within the target, or else no old turn is left beside the system
  messages, the summary and the protected tail. So the running total the rungs keep never drifts from the prompt.
\<close>

theorem compaction_reaches_its_target:
  assumes "plan_budget env cfg c = Inr (Some p)" and "rungs_of cfg = Inr rungs" and "py_truthy (dget_or rungs ''drop'' (PBool False))"
    and "compact env cfg c st = (st', Inr c')"
  shows "\<exists>applied after. bc_steps c' = bc_steps c @ [(applied, bp_used p, after)] \<and> prompt_tokens env c' = Inr after \<and>
     (of_int after \<le> bp_target p \<or>
      (\<exists>summary. bc_messages c' = filter is_system (bc_messages c) @ summary @ drop (bp_cut p) (turns_of (bc_messages c)) \<and>
         list_all is_system summary))"
proof -
  obtain rs where r: "run_rungs env cfg rungs c p st = (st', Inr rs)" "c' = commit_budget env p rs c"
    using assms(1,2,4) by (auto simp: compact_def map_sum_Inr split: sum.splits prod.splits)
  let ?o = "take (bp_cut p) (turns_of (bc_messages c))" and ?tail = "drop (bp_cut p) (turns_of (bc_messages c))"
  obtain n r3 where n: "span_count env ?o = Inr n" "drop_step env rungs (bp_target p) r3 = Inr rs" using run_rungs_cases[OF r(1)] by metis
  have ct: "counted env (bp_used p) ?o (bp_used p - n) rs" using run_rungs_counted[OF r(1) n(1)] .
  have reach: "rg_span rs = [] \<or> of_int (rg_current rs) \<le> bp_target p" using drop_reaches_the_target[OF n(2) assms(3)] .
  have applied: "rg_applied rs \<noteq> []"
  proof
    assume "rg_applied rs = []"
    then have "rg_current rs = bp_used p" "rg_span rs = ?o" using ct by (simp_all add: counted_def)
    moreover have "?o \<noteq> []"
    proof -
      have "0 < bp_cut p" using plan_facts[OF assms(1)] by metis
      moreover obtain keep where "bp_cut p = safe_window_split (turns_of (bc_messages c)) keep" using plan_facts[OF assms(1)] by metis
      ultimately show ?thesis using safe_split_keeps(1,2)[of "turns_of (bc_messages c)" keep] by auto
    qed
    ultimately show False using reach target_below_used[OF assms(1)] by simp
  qed
  have u: "prompt_tokens env c = Inr (bp_used p)" using plan_facts[OF assms(1)] by metis
  obtain a t where at: "span_count env (bc_messages c) = Inr a" "bp_used p = a + t"
    "\<And>c' b. px_params c' = px_params c \<Longrightarrow> span_count env (bc_messages c') = Inr b \<Longrightarrow> prompt_tokens env c' = Inr (b + t)"
    using prompt_tokens_count[OF u] by metis
  obtain sys tail where st: "span_count env (filter is_system (bc_messages c)) = Inr sys" "span_count env ?tail = Inr tail" "a = sys + (n + tail)"
    using at(1) span_count_partition[of env "bc_messages c" a] span_count_append[of env ?o ?tail] n(1) by (auto simp: append_take_drop_id)
  let ?ms = "filter is_system (bc_messages c) @ rg_summary rs @ rg_span rs @ ?tail"
  have "span_count env ?ms = Inr (sys + ((rg_current rs - (bp_used p - n)) + tail))"
    using st ct by (auto simp: counted_def span_count_append algebra_simps)
  then have "prompt_tokens env (c\<lparr>bc_messages := ?ms\<rparr>) = Inr (sys + ((rg_current rs - (bp_used p - n)) + tail) + t)" by (intro at(3)) simp_all
  then have after: "prompt_tokens env (c\<lparr>bc_messages := ?ms\<rparr>) = Inr (rg_current rs)" using at(2) st(3) by (simp add: algebra_simps)
  have c': "c' = c\<lparr>bc_messages := ?ms, bc_steps := bc_steps c @ [(rg_applied rs, bp_used p, rg_current rs)]\<rparr>"
    using applied after by (simp add: r(2) commit_budget_def Let_def)
  have "prompt_tokens env c' = Inr (rg_current rs)" using after by (simp add: c' prompt_tokens_def)
  moreover have "list_all is_system (rg_summary rs)" using run_rungs_summary[OF r(1)] by simp
  ultimately show ?thesis using reach by (intro exI[of _ "rg_applied rs"] exI[of _ "rg_current rs"]) (auto simp: c')
qed

text \<open>
  The two tables of limits are meant to be read alike; the window takes the longest prefix, the output cap the first.
\<close>

lemma prefix_lookups_differ:
  "get_model_context_window ''gpt-4o'' [(''model_context_window'', PDict [(''gpt'', PInt 1), (''gpt-4'', PInt 2)])] = Inr 2"
  "get_model_max_tokens ''gpt-4o'' [(''model_max_tokens'', PDict [(''gpt'', PInt 1), (''gpt-4'', PInt 2)])] = Inr (PInt 1)"
  by code_simp+

section \<open>A sample conversation\<close>

definition demo_turn :: "string \<Rightarrow> string \<Rightarrow> pydict" where
  "demo_turn role text = [(''role'', PStr role), (''content'', PStr text)]"

definition demo_call :: pydict where
  "demo_call = [(''role'', PStr ''assistant''), (''content'', PNone), (''tool_calls'', PList [PDict [(''id'', PStr ''c1'')]])]"

definition demo_result :: pydict where
  "demo_result = [(''role'', PStr ''tool''), (''tool_call_id'', PStr ''c1''), (''content'', PStr ''42'')]"

definition demo_budget_env :: budget_env where
  "demo_budget_env = \<lparr>su_fstr = (\<lambda>_. []), su_enc = Some (\<lambda>_. 10), su_default_provider = Inr (PStr ''openai''), su_key = (\<lambda>_ _. Key_Missing),
     su_reply = (\<lambda>_ _. Inr []), su_now = 0, be_tools_tokens = (\<lambda>_. Inr 0), be_compress = id, be_is_json = (\<lambda>_. False),
     be_dump = (\<lambda>_. []), be_digest = (\<lambda>_. []), be_redis_up = False\<rparr>"

definition demo_budget_cfg :: pydict where
  "demo_budget_cfg = [(''enabled'', PBool True), (''default_context_window'', PInt 100), (''keep_recent_turns'', PInt 1),
     (''rungs'', PDict [(''prune'', PBool False), (''compress'', PBool False), (''summarize'', PBool False), (''drop'', PBool True)])]"

definition demo_budget_ctx :: budget_ctx where
  "demo_budget_ctx = pipe_ctx.extend (sample_ctx\<lparr>px_params := [(''max_tokens'', PInt 1)], px_bypassed := False, px_cache_hit := False,
       px_config := PDict [(''groups'', PDict [(''G26_context_budget'', PDict demo_budget_cfg)])]\<rparr>)
     \<lparr>bc_messages = [demo_turn ''system'' ''s'', demo_turn ''user'' ''a'', demo_call, demo_result, demo_turn ''assistant'' ''b'', demo_turn ''user'' ''c''],
      bc_steps = []\<rparr>"

definition demo_budget_state :: budget_state where
  "demo_budget_state = \<lparr>ss_log = [], ss_calls = [], ss_breakers = new_store, bs_redis = [], bs_local = []\<rparr>"

lemma demo_exchanges: "exchanges [] [] (turns_of (bc_messages demo_budget_ctx))" by code_simp
lemma demo_kept_turns: "kept_turns demo_budget_cfg = Inr 2" by code_simp
lemma demo_cfg: "resolve_group_config (px_config demo_budget_ctx) (px_tenant demo_budget_ctx) ''G26_context_budget'' = demo_budget_cfg" by code_simp
lemma demo_usable: "usable_window demo_budget_ctx demo_budget_cfg = Inr 99" by code_simp
lemma demo_used: "prompt_tokens demo_budget_env demo_budget_ctx = Inr 144" by code_simp
lemma demo_cut: "safe_window_split (turns_of (bc_messages demo_budget_ctx)) 2 = 3" by code_simp
lemma demo_rungs: "rungs_of demo_budget_cfg = Inr [(''prune'', PBool False), (''compress'', PBool False), (''summarize'', PBool False), (''drop'', PBool True)]" by code_simp
lemma demo_thresholds: "resolve_thresholds demo_budget_cfg = Inr (85, 60)" by code_simp

definition demo_budget_plan :: budget_plan where
  "demo_budget_plan = \<lparr>bp_used = 144, bp_target = 99 * 60 / 100, bp_cut = 3\<rparr>"

lemma demo_plans_budget: "plan_budget demo_budget_env demo_budget_cfg demo_budget_ctx = Inr (Some demo_budget_plan)"
  by (simp add: plan_budget_def demo_usable demo_thresholds demo_used demo_kept_turns demo_cut demo_budget_plan_def)

definition demo_rung_table :: pydict where
  "demo_rung_table = [(''prune'', PBool False), (''compress'', PBool False), (''summarize'', PBool False), (''drop'', PBool True)]"

lemma demo_switches: "\<not> py_truthy (dget_or demo_rung_table ''prune'' (PBool True))" "\<not> py_truthy (dget_or demo_rung_table ''compress'' (PBool True))"
    "\<not> py_truthy (dget_or demo_rung_table ''summarize'' (PBool True))" "py_truthy (dget_or demo_rung_table ''drop'' (PBool False))"
  by code_simp+

definition demo_old :: "pydict list" where "demo_old = [demo_turn ''user'' ''a'', demo_call, demo_result]"

lemma demo_old_turns: "take 3 (turns_of (bc_messages demo_budget_ctx)) = demo_old" "span_count demo_budget_env demo_old = Inr 72"
    "span_count demo_budget_env [demo_turn ''user'' ''a''] = Inr 24" "span_count demo_budget_env [demo_call] = Inr 24"
    "span_count demo_budget_env [demo_result] = Inr 24" "is_tool demo_result" "\<not> is_tool demo_call"
  by code_simp+

lemma demo_dropped: "rung_drop demo_budget_env False (297 / 5) 144 demo_old = Inr ([], 72, True)" "demo_old \<noteq> []"
  unfolding demo_old_def by (simp_all add: demo_old_turns)

definition demo_compacted :: budget_ctx where
  "demo_compacted = commit_budget demo_budget_env demo_budget_plan
     \<lparr>rg_span = [], rg_current = 72, rg_applied = [''drop''], rg_summary = []\<rparr> demo_budget_ctx"

lemma demo_compacts: "compact demo_budget_env demo_budget_cfg demo_budget_ctx demo_budget_state = (demo_budget_state, Inr demo_compacted)"
proof -
  have "run_rungs demo_budget_env demo_budget_cfg demo_rung_table demo_budget_ctx demo_budget_plan demo_budget_state =
      (demo_budget_state, Inr \<lparr>rg_span = [], rg_current = 72, rg_applied = [''drop''], rg_summary = []\<rparr>)"
    using demo_switches demo_dropped
    by (simp add: run_rungs_def demo_budget_plan_def demo_old_turns Let_def prune_step_def compress_step_def summary_step_def drop_step_def
        rung_on_def)
  then show ?thesis
    by (simp add: compact_def demo_plans_budget demo_rungs demo_rung_table_def[symmetric] demo_compacted_def)
qed

lemma demo_processed: "g26_process_request demo_budget_env demo_budget_ctx demo_budget_state = (demo_budget_state, demo_compacted)"
proof -
  have "py_truthy (dget_or demo_budget_cfg ''enabled'' (PBool False))" "\<not> px_bypassed demo_budget_ctx" "\<not> px_cache_hit demo_budget_ctx"
    by code_simp+
  then show ?thesis by (simp add: g26_process_request_def demo_cfg demo_compacts)
qed

lemma compaction_keeps_tool_exchanges_witness:
  "exchanges [] [] (turns_of (bc_messages demo_budget_ctx)) \<and> exchanges [] [] (turns_of (bc_messages demo_compacted)) \<and>
   bc_messages demo_compacted \<noteq> bc_messages demo_budget_ctx"
proof -
  have "bc_messages demo_compacted \<noteq> bc_messages demo_budget_ctx" by code_simp
  then show ?thesis
    using compaction_keeps_tool_exchanges[OF demo_exchanges, of demo_budget_env demo_budget_state] demo_exchanges by (simp add: demo_processed)
qed

lemma system_messages_and_recent_turns_stay_witness:
  "\<exists>summary old n. bc_messages demo_compacted =
     filter is_system (bc_messages demo_budget_ctx) @ summary @ old @ drop n (turns_of (bc_messages demo_budget_ctx)) \<and> n + 2 \<le> 5"
proof -
  have "bc_messages demo_compacted \<noteq> bc_messages demo_budget_ctx" "length (turns_of (bc_messages demo_budget_ctx)) = 5" by code_simp+
  then show ?thesis
    using system_messages_and_recent_turns_stay[of demo_budget_ctx 2 demo_budget_env demo_budget_state]
    by (auto simp: demo_cfg demo_kept_turns demo_processed)
qed

lemma compaction_reaches_its_target_witness:
  "\<exists>applied after. bc_steps demo_compacted = [(applied, 144, after)] \<and> prompt_tokens demo_budget_env demo_compacted = Inr after"
proof -
  have s: "bc_steps demo_budget_ctx = []" by code_simp
  show ?thesis
    using compaction_reaches_its_target[OF demo_plans_budget demo_rungs[folded demo_rung_table_def] demo_switches(4) demo_compacts] s
    by (auto simp: demo_budget_plan_def)
qed

end
