(* ===== verification/Spec2Isabelle.thy ===== *)
theory Spec2Isabelle
  imports Config_Loader Rate_Limit Failover Tool_Gate Savings Adaptive_Bypass Client_IP Reasoning Streaming Cascade Pricing Context_Budget
begin

text \<open>
  Verification development for the TokenLean proxy: the multi-tenant server under \<open>src/src/proxy\<close> that
  accepts chat requests, rewrites and routes them, calls a provider and bills the tenant. Paths below are relative
  to \<open>src/src/proxy\<close>.

  \<^bold>\<open>How a request runs.\<close>
  \<open>main.py:chat_completions\<close> authenticates the caller (theory Authentication over Key_Store and Client_IP), reads
  the body (Ingress, Serve) and enters \<open>_serve_core\<close> (Serve). That builds the context with the identity of the key
  stamped into its parameters, counts the tokens (Savings), and hands it to \<open>OptimisationPipeline\<close> (Pipeline), which
  resolves tenant and team (Tenancy, Resolver), loads the tenant's overrides (Config_Loader, Config_Overlay), and runs
  the stages in a fixed order: the gates of G00 (Rate_Limit, Token_Bucket, Trial), the adaptive bypass G24
  (Adaptive_Bypass), the cache G05 (Prompt_Cache), the reasoning stages G25 and G12 (Reasoning) and the others. A
  blocked, cached or bypassed request is answered there; any other one is sent through \<open>call_with_resilience\<close>
  (Failover over Circuit_Breaker), each target built by the provider registry and its adapter (Providers, Adapters).
  The answer passes the response stages, among them the tool gate G32 (Tool_Gate over Tool_Policy), and is metered.
  A stream is relayed chunk by chunk (Streaming).

  \<^bold>\<open>Theories.\<close>
  \<^item> Py_Prelude: Python values as they come out of YAML and JSON (\<open>pyval\<close>), dictionaries as insertion-ordered
    association lists (\<open>dget\<close>, \<open>dset\<close>, \<open>dpop\<close>), truthiness, exceptions as a datatype, the string methods used
    everywhere, and the lemmas on them all component proofs share.
  \<^item> Config_Overlay: \<open>deep_merge\<close> of \<open>tenancy/config.py\<close>, \<open>resolve_group_config\<close> and the operator overlay of
    \<open>middleware/__init__.py\<close>; Config_Loader: \<open>TenantConfigLoader\<close> with its cache and its runs.
  \<^item> Tenancy and Resolver: \<open>tenancy/context.py\<close>, \<open>tenancy/resolver.py\<close>. Trial: \<open>trial.py\<close>.
  \<^item> Token_Bucket and Rate_Limit: \<open>middleware/g00_rate_limit.py\<close>, with the Lua script and its fallback.
  \<^item> Circuit_Breaker and Failover: \<open>providers/resilience.py\<close>.
  \<^item> Tool_Policy, Tool_Gate: \<open>guardrails/tool_policy.py\<close>, \<open>middleware/g32_tool_eligibility.py\<close>.
  \<^item> Providers, Adapters: \<open>providers/__init__.py\<close> and the adapters. Reasoning: \<open>g25_adaptive_reasoning.py\<close> and
    \<open>g12_reasoning_budget.py\<close>. Adaptive_Bypass: \<open>g24_adaptive_bypass.py\<close>. Prompt_Cache: \<open>g05_cache.py\<close>.
  \<^item> Savings: \<open>savings/calculator.py\<close> and \<open>savings/models.py\<close>. Ingress: \<open>protocols/base.py\<close>.
  \<^item> Client_IP: \<open>net/client_ip.py\<close>, \<open>net/ip_allowlist.py\<close>. Key_Store: \<open>auth/api_key_manager.py\<close>. Authentication,
    Serve and Streaming: \<open>main.py\<close>. Pipeline: \<open>middleware/pipeline.py\<close>.
  \<^item> Routing_Rules: \<open>middleware/g06_rules.py\<close>; Jev: \<open>g06_jev.py\<close>; Routing: the decision of \<open>g06_routing.py\<close>; Cascade: the
    run of a planned cascade and the routing step of the same file. Provider_Calls: \<open>record_provider_call\<close> of
    \<open>middleware/__init__.py\<close>, the list both the cascade and the prices share. Pricing: \<open>g18_observability.py\<close>.
  \<^item> History: \<open>middleware/history_utils.py\<close>, the tool-safe cut and the summary call; Context_Budget:
    \<open>middleware/g26_context_budget.py\<close>, the ladder that brings a long conversation under the context window.

  \<^bold>\<open>State.\<close> A request is a record (\<open>gate_ctx\<close>, \<open>pipe_ctx\<close>, \<open>serve_ctx\<close>, \<open>cache_ctx\<close>, one per layer, extended where the
  code extends it) with the fields of \<open>RequestContext\<close> that layer reads or writes; an operation returns it updated.
  Shared state is explicit: the Redis store of the gates (\<open>redis\<close>), of the breakers (\<open>rstore\<close>) and of the cache
  (\<open>cache_state\<close>), the key store with the cache of each process (\<open>Key_Store\<close>), the loader's cache (\<open>Config_Loader\<close>).
  Errors are values of sums; the \<open>except Exception\<close> of the code is a case on the left summand.

  \<^bold>\<open>What the lemmas show.\<close>
  \<^item> Identity: ids are safe, tenants' Redis namespaces are disjoint, headers and bodies never choose a tenant or an
    admin flag, key operations stay in their tenant, blocks and allowlists survive rotations, and a change reaches
    every process within the reload interval.
  \<^item> Money: an answered request is metered once, to the tenant of the key, and only when it was served; streams are
    billed exactly when a chunk came; buckets, quotas and budgets bound what is admitted; outages fail as documented.
  \<^item> Calls: gates of the failover loop never leave a request without an attempt, the winner is the last call made,
    breakers follow their state machine, each target is called with the tenant's own key and no internal parameter.
  \<^item> Content: the cache answers a request only with an answer to the same request of the same tenant; the tool gate
    strips exactly the denied calls from answers and streams; redaction and gates precede what they guard.
  \<^item> Routing: the first matching rule wins, routing never moves a request to a dearer model or another provider unasked,
    round robin is fair, the judge is asked with the tenant's own key, a cascade sends at most four model calls and two
    judge calls, climbs only where cap and cost allow and serves only what was answered.
  \<^item> Prices: every booked call is priced exactly once, pricing twice changes nothing, an exported usage file stays in the
    tenant's partition.
  \<^item> Long conversations: a compaction parts no tool call from its result, keeps system messages and recent turns, and the
    total it reports is the exact recount of the prompt, under the target where the last rung is allowed.

  \<^bold>\<open>Interfaces.\<close> Locales state what a client relies on and are interpreted on the code's definitions in the theory
  that provides them; the properties rest on those interpretations.

  \<^bold>\<open>Arguments.\<close> What the repository calls but does not hold is an argument: \<open>datetime.fromisoformat\<close>, hashes and token
  signatures, \<open>json.loads\<close> and \<open>json.dumps\<close>, \<open>str\<close> of values that are no text, regular expressions, the database row
  a query returns, the embedding and the row the vector index picks, and the answers of a provider (a script of
  results, one per call). The stages of the pipeline are functions given to its run, so that what the pipeline
  guarantees holds for any stages; the theories of single stages model their bodies.

  \<^bold>\<open>Decisions.\<close> Floats are exact rationals, so rounding is visible only where the code calls \<open>round\<close>. Strings are lists
  of Latin-1 characters. JSON text is identified with its value. Redis is up, down, or refuses EVAL; flags with an
  expiry are modelled where a property depends on it. Requests of one process are run one after another, as the
  sequences \<open>cached_run\<close>, the loader runs and the key histories show; the awaits inside one operation do not interleave
  with another operation, except in the Lua script, which Redis runs atomically. Metrics, spans, logs and response
  headers are left out. A stream gate's effect on an answer object another stage also holds is part of that stage's
  result.

  \<^bold>\<open>Bounds and termination.\<close> No definition uses fuel: every loop of the code modelled here runs over a list or a
  decreasing measure (the target list and the tries left of one target in \<open>call_loop\<close>; the rest of a text in the
  scanners), so a definition being total is the termination of that loop.

  \<^bold>\<open>Not modelled.\<close>
  \<^item> The stages that rewrite prompts or talk to sidecars, vector stores and language models: G01, G02, G03, G07, G08, G09,
    G10, G19, G20, G22, G27, G28, and G11, G13, G16, G17, G21 on the model side, G14, G15 and G23 on the
    response side. They are parameters of the pipeline run.
  \<^item> The content guards G29, G30, G31: their verdicts come from regular expressions and models. The pipeline theory shows
    when they run and what a block stops.
  \<^item> The Anthropic and Gemini ingress, the administration and catalogue routes, start-up and shut-down, the
    response headers, the batch-result poller of \<open>main.py\<close>.
  \<^item> Rows in Postgres and files in buckets: \<open>audit/\<close>, \<open>billing/\<close>, \<open>events.py\<close>, \<open>retention.py\<close>, \<open>storage.py\<close>,
    \<open>auth/pg_key_store.py\<close>, the schema of the vector cache; the loading of files and models; metrics and traces.
  \<^item> Native batches, prompt-cache alignment of the adapters, the rendering of tool signatures for counting.
  \<^item> The separate programs beside the proxy: sidecars, document and fine-tuning pipelines, scripts, benchmarks.
  \<^item> Texts of the code that hold characters beyond Latin-1, such as the arrow of the routing step, are written in ASCII.
\<close>

end
